(* ===== verification/Prelude.thy ===== *)
theory Prelude
  imports Main "HOL-Library.AList" "HOL-Library.Char_ord" "HOL-Library.List_Lexorder"
    "HOL-Library.Code_Target_Nat"
begin

text \<open>
  Shared vocabulary of the development.

  Rust strings are modelled by their UTF-8 bytes: \<^typ>\<open>string\<close> is a list of 8-bit characters,
  so \<open>length\<close> is Rust's \<open>str::len\<close>. The group of string functions below models the methods of
  \<open>str\<close> and \<open>char\<close> that the broker calls. Hash maps are association lists with distinct keys
  (the order of the list stands for the unspecified iteration order of a \<open>HashMap\<close>), B-tree maps
  are association lists sorted by key. Results of fallible code are sums, \<open>Inl\<close> being the error.
  Identifiers and instants are natural numbers; operations that draw a fresh UUID or read the
  clock take the drawn value as an argument.
\<close>

section \<open>Names of types and collections of rewrite rules\<close>

type_synonym uuid = nat
type_synonym instant = nat
type_synonym ('k, 'v) alist = "('k \<times> 'v) list"

named_theorems str_simps \<open>definitions of the string operations\<close>
named_theorems gate_simps \<open>definitions of the admission gates\<close>
named_theorems step_simps \<open>definitions of the state changing operations\<close>

section \<open>Results\<close>

definition bind_res :: "'e + 'a \<Rightarrow> ('a \<Rightarrow> 'e + 'b) \<Rightarrow> 'e + 'b" where
  "bind_res r f = (case r of Inl e \<Rightarrow> Inl e | Inr x \<Rightarrow> f x)"

lemma bind_res_simps [simp]:
  "bind_res (Inl e) f = Inl e"
  "bind_res (Inr x) f = f x"
  by (simp_all add: bind_res_def)

lemma bind_res_Inr_iff: "bind_res r f = Inr y \<longleftrightarrow> (\<exists>x. r = Inr x \<and> f x = Inr y)"
  by (cases r) auto

lemma bind_res_Inl_iff: "bind_res r f = Inl e \<longleftrightarrow> r = Inl e \<or> (\<exists>x. r = Inr x \<and> f x = Inl e)"
  by (cases r) auto

lemma bind_res_split: "P (bind_res r f) \<longleftrightarrow> (\<forall>e. r = Inl e \<longrightarrow> P (Inl e)) \<and> (\<forall>x. r = Inr x \<longrightarrow> P (f x))"
  by (cases r) auto

definition ok_or :: "'e \<Rightarrow> 'a option \<Rightarrow> 'e + 'a" where
  "ok_or e v = (case v of None \<Rightarrow> Inl e | Some x \<Rightarrow> Inr x)"

lemma ok_or_simps [simp]: "ok_or e None = Inl e" "ok_or e (Some x) = Inr x"
  by (simp_all add: ok_or_def)

lemma ok_or_Inr_iff [simp]: "ok_or e v = Inr x \<longleftrightarrow> v = Some x"
  by (cases v) auto

fun map_res :: "('a \<Rightarrow> 'e + 'b) \<Rightarrow> 'a list \<Rightarrow> 'e + 'b list" where
  "map_res f [] = Inr []"
| "map_res f (x # xs) = bind_res (f x) (\<lambda>y. bind_res (map_res f xs) (\<lambda>ys. Inr (y # ys)))"

lemma map_res_length: "map_res f xs = Inr ys \<Longrightarrow> length ys = length xs"
  by (induction xs arbitrary: ys) (auto simp: bind_res_Inr_iff)

fun fold_res :: "('a \<Rightarrow> 's \<Rightarrow> 'e + 's) \<Rightarrow> 'a list \<Rightarrow> 's \<Rightarrow> 'e + 's" where
  "fold_res f [] s = Inr s"
| "fold_res f (x # xs) s = bind_res (f x s) (fold_res f xs)"

lemma fold_res_cong [fundef_cong]:
  "xs = ys \<Longrightarrow> s = t \<Longrightarrow> (\<And>x u. x \<in> set ys \<Longrightarrow> f x u = g x u) \<Longrightarrow> fold_res f xs s = fold_res g ys t"
proof (induction ys arbitrary: xs s t)
  case (Cons y ys)
  then show ?case by (cases "g y t") auto
qed simp

lemma fold_res_invariant:
  assumes "fold_res f xs s = Inr t" and "I s"
    and "\<And>x s t. x \<in> set xs \<Longrightarrow> I s \<Longrightarrow> f x s = Inr t \<Longrightarrow> I t"
  shows "I t"
  using assms by (induction xs arbitrary: s) (auto simp: bind_res_Inr_iff)

definition opt_all :: "('a \<Rightarrow> bool) \<Rightarrow> 'a option \<Rightarrow> bool" where
  "opt_all P v = (case v of None \<Rightarrow> True | Some x \<Rightarrow> P x)"

definition opt_any :: "('a \<Rightarrow> bool) \<Rightarrow> 'a option \<Rightarrow> bool" where
  "opt_any P v = (case v of None \<Rightarrow> False | Some x \<Rightarrow> P x)"

lemma opt_quantifiers [simp]:
  "opt_all P None" "opt_all P (Some x) = P x" "\<not> opt_any P None" "opt_any P (Some x) = P x"
  by (simp_all add: opt_all_def opt_any_def)

lemma opt_any_iff: "opt_any P v \<longleftrightarrow> (\<exists>x. v = Some x \<and> P x)"
  by (cases v) auto

lemma opt_all_iff: "opt_all P v \<longleftrightarrow> (\<forall>x. v = Some x \<longrightarrow> P x)"
  by (cases v) auto

lemma length_filter_mono:
  assumes "\<And>x. x \<in> set xs \<Longrightarrow> P x \<Longrightarrow> Q x"
  shows "length (filter P xs) \<le> length (filter Q xs)"
  using assms by (induction xs) auto

lemma length_filter_filter_le: "length (filter P (filter R xs)) \<le> length (filter P xs)"
  by (induction xs) auto

lemma find_SomeD: "List.find P xs = Some x \<Longrightarrow> x \<in> set xs \<and> P x"
  by (induction xs) (auto split: if_splits)

section \<open>Bytes and characters\<close>

abbreviation byte :: "char \<Rightarrow> nat" where
  "byte c \<equiv> of_char c"

abbreviation ch :: "nat \<Rightarrow> char" where
  "ch n \<equiv> char_of n"

definition is_ascii_digit :: "char \<Rightarrow> bool" where
  "is_ascii_digit c \<longleftrightarrow> 48 \<le> byte c \<and> byte c \<le> 57"

definition is_ascii_upper :: "char \<Rightarrow> bool" where
  "is_ascii_upper c \<longleftrightarrow> 65 \<le> byte c \<and> byte c \<le> 90"

definition is_ascii_lower :: "char \<Rightarrow> bool" where
  "is_ascii_lower c \<longleftrightarrow> 97 \<le> byte c \<and> byte c \<le> 122"

definition is_ascii_alpha :: "char \<Rightarrow> bool" where
  "is_ascii_alpha c \<longleftrightarrow> is_ascii_upper c \<or> is_ascii_lower c"

definition is_ascii_alphanumeric :: "char \<Rightarrow> bool" where
  "is_ascii_alphanumeric c \<longleftrightarrow> is_ascii_alpha c \<or> is_ascii_digit c"

definition is_ascii_hexdigit :: "char \<Rightarrow> bool" where
  "is_ascii_hexdigit c \<longleftrightarrow> is_ascii_digit c \<or> (65 \<le> byte c \<and> byte c \<le> 70)
     \<or> (97 \<le> byte c \<and> byte c \<le> 102)"

definition is_ascii_control :: "char \<Rightarrow> bool" where
  "is_ascii_control c \<longleftrightarrow> byte c < 32 \<or> byte c = 127"

definition ascii_lower :: "char \<Rightarrow> char" where
  "ascii_lower c = (if is_ascii_upper c then char_of (byte c + 32) else c)"

definition to_ascii_lowercase :: "string \<Rightarrow> string" where
  "to_ascii_lowercase s = map ascii_lower s"

definition eq_ignore_ascii_case :: "string \<Rightarrow> string \<Rightarrow> bool" where
  "eq_ignore_ascii_case a b \<longleftrightarrow> to_ascii_lowercase a = to_ascii_lowercase b"

lemma byte_less_256: "byte c < 256"
  by (cases c) (auto simp: of_char_def split: bool.splits)

lemma byte_ascii_lower: "byte (ascii_lower c) = (if is_ascii_upper c then byte c + 32 else byte c)"
  by (auto simp: ascii_lower_def is_ascii_upper_def of_char_of)

lemma ascii_lower_not_upper [simp]: "\<not> is_ascii_upper (ascii_lower c)"
  using byte_ascii_lower [of c] by (auto simp: is_ascii_upper_def split: if_splits)

lemma ascii_lower_idem [simp]: "ascii_lower (ascii_lower c) = ascii_lower c"
  using ascii_lower_not_upper [of c] by (simp add: ascii_lower_def)

lemma to_ascii_lowercase_idem [simp]: "to_ascii_lowercase (to_ascii_lowercase s) = to_ascii_lowercase s"
  by (simp add: to_ascii_lowercase_def)

lemma eq_ignore_ascii_case_equiv:
  "eq_ignore_ascii_case a a"
  "eq_ignore_ascii_case a b \<Longrightarrow> eq_ignore_ascii_case b a"
  "eq_ignore_ascii_case a b \<Longrightarrow> eq_ignore_ascii_case b c \<Longrightarrow> eq_ignore_ascii_case a c"
  by (simp_all add: eq_ignore_ascii_case_def)


section \<open>Methods of \<open>str\<close>\<close>

fun strip_prefix :: "string \<Rightarrow> string \<Rightarrow> string option" where
  "strip_prefix [] s = Some s"
| "strip_prefix (p # ps) [] = None"
| "strip_prefix (p # ps) (c # cs) = (if p = c then strip_prefix ps cs else None)"

definition starts_with :: "string \<Rightarrow> string \<Rightarrow> bool" where
  "starts_with p s \<longleftrightarrow> strip_prefix p s \<noteq> None"

definition ends_with :: "string \<Rightarrow> string \<Rightarrow> bool" where
  "ends_with p s \<longleftrightarrow> starts_with (rev p) (rev s)"

fun split_once :: "char \<Rightarrow> string \<Rightarrow> (string \<times> string) option" where
  "split_once d [] = None"
| "split_once d (c # cs) =
     (if c = d then Some ([], cs) else map_option (\<lambda>(a, b). (c # a, b)) (split_once d cs))"

fun split_on :: "char \<Rightarrow> string \<Rightarrow> string list" where
  "split_on d [] = [[]]"
| "split_on d (c # cs) =
     (if c = d then [] # split_on d cs
      else case split_on d cs of [] \<Rightarrow> [[c]] | w # ws \<Rightarrow> (c # w) # ws)"

fun contains_str :: "string \<Rightarrow> string \<Rightarrow> bool" where
  "contains_str p [] \<longleftrightarrow> p = []"
| "contains_str p (c # cs) \<longleftrightarrow> starts_with p (c # cs) \<or> contains_str p cs"

definition trim_end_matches :: "(char \<Rightarrow> bool) \<Rightarrow> string \<Rightarrow> string" where
  "trim_end_matches P s = rev (dropWhile P (rev s))"

definition trim_start_matches :: "(char \<Rightarrow> bool) \<Rightarrow> string \<Rightarrow> string" where
  "trim_start_matches P s = dropWhile P s"

definition trim_matches :: "(char \<Rightarrow> bool) \<Rightarrow> string \<Rightarrow> string" where
  "trim_matches P s = trim_end_matches P (trim_start_matches P s)"

lemma strip_prefix_Some_iff: "strip_prefix p s = Some r \<longleftrightarrow> s = p @ r"
  by (induction p s rule: strip_prefix.induct) auto

lemma strip_prefix_append [simp]: "strip_prefix p (p @ r) = Some r"
  by (simp add: strip_prefix_Some_iff)

lemma starts_with_iff: "starts_with p s \<longleftrightarrow> (\<exists>r. s = p @ r)"
  by (cases "strip_prefix p s") (auto simp: starts_with_def strip_prefix_Some_iff)

lemma ends_with_iff: "ends_with p s \<longleftrightarrow> (\<exists>r. s = r @ p)"
  by (metis ends_with_def rev_append rev_rev_ident starts_with_iff)

lemma split_once_Some_iff: "split_once d s = Some (a, b) \<longleftrightarrow> s = a @ d # b \<and> d \<notin> set a"
proof (induction s arbitrary: a)
  case (Cons c cs)
  show ?case
  proof (cases "c = d")
    case True
    then show ?thesis by (cases a) auto
  next
    case False
    with Cons.IH show ?thesis by (cases a) auto
  qed
qed simp

lemma split_once_None_iff: "split_once d s = None \<longleftrightarrow> d \<notin> set s"
  by (induction d s rule: split_once.induct) auto

lemma split_once_case_iff:
  "(case split_once d s of None \<Rightarrow> False | Some (a, b) \<Rightarrow> P a b) \<longleftrightarrow>
     (\<exists>a b. s = a @ d # b \<and> d \<notin> set a \<and> P a b)"
proof (cases "split_once d s")
  case None
  then have "d \<notin> set s" by (simp add: split_once_None_iff)
  with None show ?thesis by auto
next
  case (Some ab)
  then obtain a b where ab: "split_once d s = Some (a, b)" by (cases ab) auto
  have "(\<exists>a' b'. s = a' @ d # b' \<and> d \<notin> set a' \<and> P a' b') \<longleftrightarrow>
      (\<exists>a' b'. split_once d s = Some (a', b') \<and> P a' b')"
    unfolding split_once_Some_iff by blast
  with ab show ?thesis by simp
qed

lemma starts_with_split_once_iff:
  "starts_with p s \<and> (case split_once d (drop (length p) s) of None \<Rightarrow> False | Some (_, t) \<Rightarrow> P t) \<longleftrightarrow>
     (\<exists>a t. s = p @ a @ d # t \<and> d \<notin> set a \<and> P t)"
proof -
  have "starts_with p s \<and> Q (drop (length p) s) \<longleftrightarrow> (\<exists>rest. s = p @ rest \<and> Q rest)" for Q
    by (auto simp: starts_with_iff)
  from this [of "\<lambda>r. \<exists>a b. r = a @ d # b \<and> d \<notin> set a \<and> P b"] show ?thesis
    unfolding split_once_case_iff by blast
qed

lemma starts_with_self: "starts_with p (p @ r)"
  by (simp add: starts_with_def)

lemma split_once_append: "d \<notin> set a \<Longrightarrow> split_once d (a @ d # b) = Some (a, b)"
  by (simp add: split_once_Some_iff)

lemma split_on_not_Nil [simp]: "split_on d s \<noteq> []"
  by (induction d s rule: split_on.induct) (auto split: list.splits)

lemma split_on_one: "split_on d s = [a] \<Longrightarrow> s = a"
  by (induction s arbitrary: a) (auto split: if_splits list.splits)

lemma split_on_two: "split_on d s = [a, b] \<Longrightarrow> s = a @ d # b"
  by (induction s arbitrary: a) (auto split: if_splits list.splits dest: split_on_one)

lemma delimiter_cancel:
  assumes "a @ (d :: char) # b = a' @ d # b'" and "d \<notin> set a" and "d \<notin> set a'"
  shows "a = a' \<and> b = b'"
proof -
  have "Some (a, b) = Some (a', b')"
    unfolding split_once_append [OF assms(2), symmetric] split_once_append [OF assms(3), symmetric]
    by (simp only: assms(1))
  then show ?thesis by simp
qed

lemma split_on_free: "w \<in> set (split_on d s) \<Longrightarrow> d \<notin> set w"
proof (induction s arbitrary: w)
  case (Cons c cs)
  obtain v vs where "split_on d cs = v # vs"
    using split_on_not_Nil [of d cs] by (cases "split_on d cs") auto
  with Cons show ?case by (fastforce split: if_splits)
qed simp

lemma length_trim_end_matches: "length (trim_end_matches P s) \<le> length s"
  by (simp add: trim_end_matches_def) (metis length_dropWhile_le length_rev)

lemma trim_end_matches_idem [simp]: "trim_end_matches P (trim_end_matches P s) = trim_end_matches P s"
  by (simp add: trim_end_matches_def)

lemma trim_end_matches_map:
  "(\<And>c. P (f c) = P c) \<Longrightarrow> trim_end_matches P (map f s) = map f (trim_end_matches P s)"
  by (simp add: trim_end_matches_def rev_map dropWhile_map comp_def)

subsection \<open>Unicode scalar values\<close>

text \<open>
  The number of bytes of the scalar value whose first byte is \<open>b\<close>, the split of a string into the
  bytes of its scalar values (Rust's \<open>str::chars\<close>), and the scalar value itself.
\<close>

definition utf8_width :: "char \<Rightarrow> nat" where
  "utf8_width b = (if byte b < 128 then 1 else if byte b < 224 then 2 else if byte b < 240 then 3 else 4)"

function chars :: "string \<Rightarrow> string list" where
  "chars [] = []"
| "chars (c # cs) = take (utf8_width c) (c # cs) # chars (drop (utf8_width c) (c # cs))"
  by pat_completeness auto
termination
  by (relation "measure length") (auto simp: utf8_width_def)

fun scalar :: "string \<Rightarrow> nat" where
  "scalar [a] = byte a"
| "scalar [a, b] = (byte a - 192) * 64 + (byte b - 128)"
| "scalar [a, b, c] = (byte a - 224) * 4096 + (byte b - 128) * 64 + (byte c - 128)"
| "scalar [a, b, c, d] =
     (byte a - 240) * 262144 + (byte b - 128) * 4096 + (byte c - 128) * 64 + (byte d - 128)"
| "scalar _ = 0"

definition encode_utf8 :: "nat \<Rightarrow> string" where
  "encode_utf8 n =
     (if n < 128 then [char_of n]
      else if n < 2048 then [char_of (192 + n div 64), char_of (128 + n mod 64)]
      else if n < 65536 then
        [char_of (224 + n div 4096), char_of (128 + n div 64 mod 64), char_of (128 + n mod 64)]
      else [char_of (240 + n div 262144), char_of (128 + n div 4096 mod 64),
            char_of (128 + n div 64 mod 64), char_of (128 + n mod 64)])"

text \<open>\<open>std::str::from_utf8\<close> accepts exactly the well-formed byte sequences of the Unicode standard.\<close>

definition byte_in :: "nat \<Rightarrow> nat \<Rightarrow> char \<Rightarrow> bool" where
  "byte_in lo hi c \<longleftrightarrow> lo \<le> byte c \<and> byte c \<le> hi"

fun valid_utf8 :: "string \<Rightarrow> bool" where
  "valid_utf8 [] = True"
| "valid_utf8 (a # s) =
     (if byte_in 0 127 a then valid_utf8 s
      else case s of
          [] \<Rightarrow> False
        | b # s1 \<Rightarrow>
            if byte_in 194 223 a then byte_in 128 191 b \<and> valid_utf8 s1
            else case s1 of
                [] \<Rightarrow> False
              | c # s2 \<Rightarrow>
                  if byte_in 224 239 a
                  then byte_in (if byte a = 224 then 160 else 128) (if byte a = 237 then 159 else 191) b
                       \<and> byte_in 128 191 c \<and> valid_utf8 s2
                  else case s2 of
                      [] \<Rightarrow> False
                    | d # s3 \<Rightarrow>
                        byte_in 240 244 a
                        \<and> byte_in (if byte a = 240 then 144 else 128) (if byte a = 244 then 143 else 191) b
                        \<and> byte_in 128 191 c \<and> byte_in 128 191 d \<and> valid_utf8 s3)"

text \<open>\<open>String::from_utf8_lossy\<close>: the next character, or the longest prefix of one, becomes U+FFFD.\<close>

definition utf8_step :: "char \<Rightarrow> string \<Rightarrow> bool \<times> nat" where
  "utf8_step a s =
     (let cont = byte_in 128 191 in
      if byte_in 0 127 a then (True, 1)
      else if byte_in 194 223 a then (case s of b # _ \<Rightarrow> if cont b then (True, 2) else (False, 1) | [] \<Rightarrow> (False, 1))
      else if byte_in 224 239 a
      then (case s of
          b # s1 \<Rightarrow>
            if \<not> byte_in (if byte a = 224 then 160 else 128) (if byte a = 237 then 159 else 191) b then (False, 1)
            else (case s1 of c # _ \<Rightarrow> if cont c then (True, 3) else (False, 2) | [] \<Rightarrow> (False, 2))
        | [] \<Rightarrow> (False, 1))
      else if byte_in 240 244 a
      then (case s of
          b # s1 \<Rightarrow>
            if \<not> byte_in (if byte a = 240 then 144 else 128) (if byte a = 244 then 143 else 191) b then (False, 1)
            else (case s1 of
                c # s2 \<Rightarrow>
                  if \<not> cont c then (False, 2)
                  else (case s2 of d # _ \<Rightarrow> if cont d then (True, 4) else (False, 3) | [] \<Rightarrow> (False, 3))
              | [] \<Rightarrow> (False, 2))
        | [] \<Rightarrow> (False, 1))
      else (False, 1))"

function from_utf8_lossy :: "string \<Rightarrow> string" where
  "from_utf8_lossy [] = []"
| "from_utf8_lossy (a # s) =
     (case utf8_step a s of (ok, n) \<Rightarrow>
        (if ok then take n (a # s) else encode_utf8 65533) @ from_utf8_lossy (drop n (a # s)))"
  by pat_completeness auto
termination
  by (relation "measure length")
    (auto simp: utf8_step_def Let_def split: if_splits list.splits)

definition char_is_control :: "nat \<Rightarrow> bool" where
  "char_is_control n \<longleftrightarrow> n < 32 \<or> (127 \<le> n \<and> n < 160)"

definition char_is_whitespace :: "nat \<Rightarrow> bool" where
  "char_is_whitespace n \<longleftrightarrow> (9 \<le> n \<and> n \<le> 13) \<or> n = 32 \<or> n = 133 \<or> n = 160 \<or> n = 5760
     \<or> (8192 \<le> n \<and> n \<le> 8202) \<or> n = 8232 \<or> n = 8233 \<or> n = 8239 \<or> n = 8287 \<or> n = 12288"

definition str_trim :: "string \<Rightarrow> string" where
  "str_trim s =
     concat (rev (dropWhile (char_is_whitespace \<circ> scalar)
       (rev (dropWhile (char_is_whitespace \<circ> scalar) (chars s)))))"

lemma utf8_width_pos [simp]: "0 < utf8_width c"
  by (simp add: utf8_width_def)

lemma concat_chars [simp]: "concat (chars s) = s"
  by (induction s rule: chars.induct) (auto simp: append_take_drop_id simp del: take_Cons drop_Cons)

lemma utf8_digits:
  "(n::nat) = n div 64 * 64 + n mod 64"
  "n = n div 4096 * 4096 + n div 64 mod 64 * 64 + n mod 64"
  "n = n div 262144 * 262144 + n div 4096 mod 64 * 4096 + n div 64 mod 64 * 64 + n mod 64"
proof -
  have one: "n = n div 64 * 64 + n mod 64"
    and two: "n div 64 = n div 64 div 64 * 64 + n div 64 mod 64"
    and three: "n div 64 div 64 = n div 64 div 64 div 64 * 64 + n div 64 div 64 mod 64"
    by (simp_all only: div_mult_mod_eq)
  have flat: "n div 64 div 64 = n div 4096" "n div 4096 div 64 = n div 262144"
    by (simp_all add: div_mult2_eq [symmetric])
  show "n = n div 64 * 64 + n mod 64" by (rule one)
  show "n = n div 4096 * 4096 + n div 64 mod 64 * 64 + n mod 64"
    using one two unfolding flat by linarith
  show "n = n div 262144 * 262144 + n div 4096 mod 64 * 4096 + n div 64 mod 64 * 64 + n mod 64"
    using one two three unfolding flat by linarith
qed

lemma scalar_encode_utf8:
  assumes "n < 1114112"
  shows "scalar (encode_utf8 n) = n"
proof -
  have small: "n div 64 mod 64 < 64" "n mod 64 < 64" "n div 4096 mod 64 < 64" by simp_all
  consider "n < 128" | "128 \<le> n" "n < 2048" | "2048 \<le> n" "n < 65536" | "65536 \<le> n" by linarith
  then show ?thesis
  proof cases
    case 1
    then show ?thesis by (simp add: encode_utf8_def)
  next
    case 2
    then have "n div 64 < 32" by simp
    then show ?thesis using 2 small utf8_digits(1) [of n] by (simp add: encode_utf8_def)
  next
    case 3
    then have "n div 4096 < 16" by simp
    then show ?thesis using 3 small utf8_digits(2) [of n] by (simp add: encode_utf8_def)
  next
    case 4
    then have "n div 262144 < 5" using assms by simp
    then show ?thesis using 4 small utf8_digits(3) [of n] by (simp add: encode_utf8_def)
  qed
qed

section \<open>Association lists\<close>

abbreviation keys :: "('k, 'v) alist \<Rightarrow> 'k list" where
  "keys m \<equiv> map fst m"

abbreviation contains_key :: "'k \<Rightarrow> ('k, 'v) alist \<Rightarrow> bool" where
  "contains_key k m \<equiv> map_of m k \<noteq> None"

definition distinct_keys :: "('k, 'v) alist \<Rightarrow> bool" where
  "distinct_keys m \<longleftrightarrow> distinct (keys m)"

lemma distinct_keys_Nil [simp]: "distinct_keys []"
  by (simp add: distinct_keys_def)

lemma distinct_keys_update [simp]: "distinct_keys m \<Longrightarrow> distinct_keys (AList.update k v m)"
  by (simp add: distinct_keys_def distinct_update)

lemma distinct_keys_delete [simp]: "distinct_keys m \<Longrightarrow> distinct_keys (AList.delete k m)"
  by (simp add: distinct_keys_def distinct_delete)

lemma map_of_mapped:
  "map_of (map (\<lambda>(k, v). (k, f k v)) m) k = map_option (f k) (map_of m k)"
  by (induction m) auto

lemma keys_mapped [simp]: "keys (map (\<lambda>(k, v). (k, f k v)) m) = keys m"
  by (induction m) auto

lemma map_of_in_distinct: "distinct_keys m \<Longrightarrow> (k, v) \<in> set m \<longleftrightarrow> map_of m k = Some v"
  by (auto simp: distinct_keys_def dest: map_of_SomeD)

text \<open>
  A record of a map is replaced in place: Rust's \<open>entry(k).or_default()\<close> followed by an
  assignment through the returned reference, and \<open>get_mut\<close>.
\<close>

definition upsert :: "'k \<Rightarrow> 'v \<Rightarrow> ('v \<Rightarrow> 'v) \<Rightarrow> ('k, 'v) alist \<Rightarrow> ('k, 'v) alist" where
  "upsert k dflt f m = AList.update k (f (case map_of m k of None \<Rightarrow> dflt | Some v \<Rightarrow> v)) m"

lemma map_of_upsert [simp]:
  "map_of (upsert k dflt f m) =
     (map_of m)(k \<mapsto> f (case map_of m k of None \<Rightarrow> dflt | Some v \<Rightarrow> v))"
  by (simp add: upsert_def update_conv')

lemma distinct_keys_upsert [simp]: "distinct_keys m \<Longrightarrow> distinct_keys (upsert k dflt f m)"
  by (simp add: upsert_def)

subsection \<open>B-tree maps\<close>

fun btree_insert :: "'k::linorder \<Rightarrow> 'v \<Rightarrow> ('k, 'v) alist \<Rightarrow> ('k, 'v) alist" where
  "btree_insert k v [] = [(k, v)]"
| "btree_insert k v ((a, b) # m) =
     (if k < a then (k, v) # (a, b) # m
      else if k = a then (k, v) # m
      else (a, b) # btree_insert k v m)"

definition btree :: "('k::linorder, 'v) alist \<Rightarrow> bool" where
  "btree m \<longleftrightarrow> sorted_wrt (<) (keys m)"

lemma map_of_btree_insert [simp]: "map_of (btree_insert k v m) = (map_of m)(k \<mapsto> v)"
  by (induction k v m rule: btree_insert.induct) (auto simp: fun_eq_iff)

lemma set_keys_btree_insert [simp]: "fst ` set (btree_insert k v m) = insert k (fst ` set m)"
  by (induction k v m rule: btree_insert.induct) auto

lemma btree_insert_sorted [simp]: "btree m \<Longrightarrow> btree (btree_insert k v m)"
  unfolding btree_def by (induction k v m rule: btree_insert.induct) (auto simp: image_iff)

lemma set_btree_insert: "x \<in> set (btree_insert k v m) \<Longrightarrow> x = (k, v) \<or> x \<in> set m"
  by (induction k v m rule: btree_insert.induct) (auto split: if_splits)

lemma btree_Nil [simp]: "btree []"
  by (simp add: btree_def)

lemma btree_distinct: "btree m \<Longrightarrow> distinct_keys m"
  by (simp add: btree_def distinct_keys_def strict_sorted_iff)

lemma update_same_image:
  "map_of m k = Some v \<Longrightarrow> g w = g v \<Longrightarrow> map (\<lambda>(a, x). (a, g x)) (AList.update k w m) = map (\<lambda>(a, x). (a, g x)) m"
  by (induction m) (auto split: if_splits)

end
