(* ===== verification/Net.thy ===== *)
theory Net
  imports Prelude "HOL-Library.Word"
begin

text \<open>
  The part of \<open>std::net\<close> that the broker uses: IP addresses at their width, the text parser of
  \<open>IpAddr\<close> (dotted IPv4 without leading zeros, IPv6 with one \<open>::\<close> and an optional embedded IPv4
  tail), its printer, and the IPv4-in-IPv6 conversion. Every reader takes the rest of the input
  and returns the value read with what is left, \<open>None\<close> leaving the input untouched.
\<close>

unbundle bit_operations_syntax

section \<open>Addresses\<close>

type_synonym ipv4 = "32 word"
type_synonym ipv6 = "128 word"

datatype IpAddr = V4 ipv4 | V6 ipv6

definition is_ipv6 :: "IpAddr \<Rightarrow> bool" where
  "is_ipv6 ip = (case ip of V4 _ \<Rightarrow> False | V6 _ \<Rightarrow> True)"

definition v4_is_loopback :: "ipv4 \<Rightarrow> bool" where
  "v4_is_loopback ip \<longleftrightarrow> drop_bit 24 ip = 127"

definition v6_is_loopback :: "ipv6 \<Rightarrow> bool" where
  "v6_is_loopback ip \<longleftrightarrow> ip = 1"

text \<open>\<open>Ipv6Addr::to_ipv4\<close>: IPv4-compatible (\<open>::a.b.c.d\<close>) and IPv4-mapped (\<open>::ffff:a.b.c.d\<close>).\<close>

definition to_ipv4 :: "ipv6 \<Rightarrow> ipv4 option" where
  "to_ipv4 ip = (if drop_bit 32 ip = 0 \<or> drop_bit 32 ip = 0xffff then Some (ucast ip) else None)"

section \<open>Readers\<close>

type_synonym 'a reader = "string \<Rightarrow> ('a \<times> string) option"

definition to_digit :: "nat \<Rightarrow> char \<Rightarrow> nat option" where
  "to_digit radix c =
     (let d = (if is_ascii_digit c then Some (byte c - 48)
               else if is_ascii_alpha c then Some (byte (ascii_lower c) - 87) else None)
      in case d of None \<Rightarrow> None | Some n \<Rightarrow> if n < radix then Some n else None)"

fun read_digits :: "nat \<Rightarrow> nat \<Rightarrow> nat \<Rightarrow> nat \<Rightarrow> string \<Rightarrow> (nat \<times> nat \<times> string) option" where
  "read_digits radix maxd cnt res [] = Some (cnt, res, [])"
| "read_digits radix maxd cnt res (c # cs) =
     (case to_digit radix c of
        None \<Rightarrow> Some (cnt, res, c # cs)
      | Some d \<Rightarrow> if maxd < Suc cnt then None
                  else read_digits radix maxd (Suc cnt) (res * radix + d) cs)"

definition read_number :: "nat \<Rightarrow> nat \<Rightarrow> bool \<Rightarrow> nat \<Rightarrow> nat reader" where
  "read_number radix maxd allow_zero_prefix limit s =
     (case read_digits radix maxd 0 0 s of
        None \<Rightarrow> None
      | Some (cnt, res, rest) \<Rightarrow>
          if cnt = 0 then None
          else if \<not> allow_zero_prefix \<and> take 1 s = ''0'' \<and> 1 < cnt then None
          else if res < limit then Some (res, rest) else None)"

definition read_separator :: "char \<Rightarrow> nat \<Rightarrow> 'a reader \<Rightarrow> 'a reader" where
  "read_separator sep i inner s =
     (if i = 0 then inner s
      else case s of [] \<Rightarrow> None | c # cs \<Rightarrow> if c = sep then inner cs else None)"

fun read_octets :: "nat \<Rightarrow> nat \<Rightarrow> nat list reader" where
  "read_octets 0 i s = Some ([], s)"
| "read_octets (Suc n) i s =
     (case read_separator CHR ''.'' i (read_number 10 3 False 256) s of
        None \<Rightarrow> None
      | Some (v, r) \<Rightarrow> (case read_octets n (Suc i) r of
            None \<Rightarrow> None
          | Some (vs, r') \<Rightarrow> Some (v # vs, r')))"

definition big_endian :: "nat \<Rightarrow> nat list \<Rightarrow> nat" where
  "big_endian base ds = foldl (\<lambda>acc d. acc * base + d) 0 ds"

definition read_ipv4_addr :: "nat reader" where
  "read_ipv4_addr s = map_option (\<lambda>(vs, r). (big_endian 256 vs, r)) (read_octets 4 0 s)"

fun read_groups :: "nat \<Rightarrow> nat \<Rightarrow> string \<Rightarrow> nat list \<times> bool \<times> string" where
  "read_groups 0 i s = ([], False, s)"
| "read_groups (Suc n) i s =
     (case (if 0 < n then read_separator CHR '':'' i read_ipv4_addr s else None) of
        Some (v4, r) \<Rightarrow> ([v4 div 65536, v4 mod 65536], True, r)
      | None \<Rightarrow> (case read_separator CHR '':'' i (read_number 16 4 True 65536) s of
            None \<Rightarrow> ([], False, s)
          | Some (g, r) \<Rightarrow> (case read_groups n (Suc i) r of (gs, b, r') \<Rightarrow> (g # gs, b, r'))))"

definition read_ipv6_addr :: "nat reader" where
  "read_ipv6_addr s =
     (case read_groups 8 0 s of (head, head_ipv4, r) \<Rightarrow>
        if length head = 8 then Some (big_endian 65536 head, r)
        else if head_ipv4 then None
        else case strip_prefix ''::'' r of
            None \<Rightarrow> None
          | Some r1 \<Rightarrow> (case read_groups (8 - (length head + 1)) 0 r1 of (tail, _, r2) \<Rightarrow>
              Some (big_endian 65536 (head @ replicate (8 - length head - length tail) 0 @ tail), r2)))"

definition parse_ip :: "string \<Rightarrow> IpAddr option" where
  "parse_ip s =
     (case read_ipv4_addr s of
        Some (v, r) \<Rightarrow> if r = [] then Some (V4 (of_nat v)) else None
      | None \<Rightarrow> (case read_ipv6_addr s of
            Some (v, r) \<Rightarrow> if r = [] then Some (V6 (of_nat v)) else None
          | None \<Rightarrow> None))"

text \<open>\<open>str::parse::<u32>\<close>: an optional plus sign and digits, \<open>None\<close> on overflow.\<close>

fun digits_value :: "nat \<Rightarrow> string \<Rightarrow> nat option" where
  "digits_value acc [] = Some acc"
| "digits_value acc (c # cs) = (if is_ascii_digit c then digits_value (acc * 10 + (byte c - 48)) cs else None)"

definition parse_u32 :: "string \<Rightarrow> nat option" where
  "parse_u32 s =
     (let ds = (case s of c # cs \<Rightarrow> if c = CHR ''+'' then cs else s | [] \<Rightarrow> [])
      in if ds = [] then None
         else case digits_value 0 ds of None \<Rightarrow> None | Some v \<Rightarrow> if v < 2 ^ 32 then Some v else None)"

section \<open>Printing\<close>

function show_base :: "nat \<Rightarrow> nat \<Rightarrow> string" where
  "show_base base n =
     (let d = (\<lambda>k. char_of (if k < 10 then 48 + k else 87 + k))
      in if base < 2 \<or> n < base then [d n] else show_base base (n div base) @ [d (n mod base)])"
  by pat_completeness auto
termination
  by (relation "measure snd") auto

declare show_base.simps [simp del]

definition octets :: "ipv4 \<Rightarrow> nat list" where
  "octets ip = [unat ip div 16777216, unat ip div 65536 mod 256, unat ip div 256 mod 256, unat ip mod 256]"

definition segments :: "ipv6 \<Rightarrow> nat list" where
  "segments ip = map (\<lambda>k. unat (take_bit 16 (drop_bit (16 * (7 - k)) ip))) [0..<8]"

fun join :: "string \<Rightarrow> string list \<Rightarrow> string" where
  "join sep [] = []"
| "join sep [w] = w"
| "join sep (w # ws) = w @ sep @ join sep ws"

fun longest_zero_run :: "nat list \<Rightarrow> nat \<Rightarrow> nat \<times> nat \<Rightarrow> nat \<times> nat \<Rightarrow> nat \<times> nat" where
  "longest_zero_run [] i cur best = best"
| "longest_zero_run (g # gs) i (cs, cl) best =
     (if g = 0 then
        (let cur = (if cl = 0 then i else cs, Suc cl)
         in longest_zero_run gs (Suc i) cur (if snd best < snd cur then cur else best))
      else longest_zero_run gs (Suc i) (0, 0) best)"

definition ip_to_string :: "IpAddr \<Rightarrow> string" where
  "ip_to_string ip =
     (case ip of
        V4 w \<Rightarrow> join ''.'' (map (show_base 10) (octets w))
      | V6 w \<Rightarrow>
          if drop_bit 32 w = 0xffff
          then ''::ffff:'' @ join ''.'' (map (show_base 10) (octets (ucast w)))
          else (case longest_zero_run (segments w) 0 (0, 0) (0, 0) of (start, len) \<Rightarrow>
            if 1 < len
            then join '':'' (map (show_base 16) (take start (segments w))) @ ''::''
                 @ join '':'' (map (show_base 16) (drop (start + len) (segments w)))
            else join '':'' (map (show_base 16) (segments w))))"

section \<open>Network prefixes\<close>

lemma mask_eq_iff_drop_bit_eq:
  fixes a b :: "'a::len word"
  shows "a AND push_bit k (- 1) = b AND push_bit k (- 1) \<longleftrightarrow> drop_bit k a = drop_bit k b"
proof
  assume eq: "a AND push_bit k (- 1) = b AND push_bit k (- 1)"
  show "drop_bit k a = drop_bit k b"
  proof (rule bit_word_eqI)
    fix n assume "n < LENGTH('a)"
    have "bit (a AND push_bit k (- 1)) (k + n) = bit (b AND push_bit k (- 1)) (k + n)"
      by (simp only: eq)
    then show "bit (drop_bit k a) n = bit (drop_bit k b) n"
      by (cases "k + n < LENGTH('a)") (auto simp: bit_simps dest: bit_imp_le_length)
  qed
next
  assume eq: "drop_bit k a = drop_bit k b"
  show "a AND push_bit k (- 1) = b AND push_bit k (- 1)"
  proof (rule bit_word_eqI)
    fix n assume n: "n < LENGTH('a)"
    show "bit (a AND push_bit k (- 1)) n = bit (b AND push_bit k (- 1)) n"
    proof (cases "k \<le> n")
      case True
      have "bit (drop_bit k a) (n - k) = bit (drop_bit k b) (n - k)" by (simp only: eq)
      with True show ?thesis by (simp add: bit_simps)
    qed (simp add: bit_simps)
  qed
qed

lemma not_mask_eq_iff_drop_bit_eq:
  fixes a b :: "'a::len word"
  shows "a AND NOT (mask k) = b AND NOT (mask k) \<longleftrightarrow> drop_bit k a = drop_bit k b"
  using mask_eq_iff_drop_bit_eq [of a k b] by simp

text \<open>An IPv4 address in the low half of an IPv6 word below a constant upper part.\<close>

lemma low_part_of_embedding:
  fixes i :: ipv4 and x :: ipv6
  shows "drop_bit 32 (push_bit 32 x OR ucast i) = take_bit 96 x" (is ?upper)
    and "ucast (push_bit 32 x OR ucast i) = i" (is ?lower)
proof -
  show ?upper
    by (rule bit_word_eqI) (auto simp: bit_simps dest: bit_imp_le_length)
  show ?lower
    by (rule bit_word_eqI) (auto simp: bit_simps)
qed

text \<open>A prefix test is a test of an interval of addresses.\<close>

lemma drop_bit_eq_iff_interval:
  fixes w c :: "'a::len word"
  shows "drop_bit k w = c \<longleftrightarrow> unat c * 2 ^ k \<le> unat w \<and> unat w \<le> unat c * 2 ^ k + (2 ^ k - 1)"
proof -
  have "drop_bit k w = c \<longleftrightarrow> unat w div 2 ^ k = unat c"
    by (metis drop_bit_eq_div unat_drop_bit_eq word_unat_eq_iff)
  also have "\<dots> \<longleftrightarrow> unat c * 2 ^ k \<le> unat w \<and> unat w < unat c * 2 ^ k + 2 ^ k"
    by (metis add.commute div_nat_eqI div_times_less_eq_dividend dividend_less_div_times mult.commute
        mult_Suc zero_less_numeral zero_less_power)
  also have "\<dots> \<longleftrightarrow> unat c * 2 ^ k \<le> unat w \<and> unat w \<le> unat c * 2 ^ k + (2 ^ k - 1)"
    using zero_less_power [of "2::nat" k] by linarith
  finally show ?thesis .
qed

section \<open>Decimal texts\<close>

lemma show_base_10:
  "show_base 10 n = (if n < 10 then [char_of (48 + n)] else show_base 10 (n div 10) @ [char_of (48 + n mod 10)])"
  by (subst show_base.simps) simp

lemma digit_char_inj: "m < 10 \<Longrightarrow> n < 10 \<Longrightarrow> char_of (48 + m) = (char_of (48 + n) :: char) \<Longrightarrow> m = (n :: nat)"
  using arg_cong [of "char_of (48 + m)" "char_of (48 + n)" byte] by simp

lemma show_base_nonempty: "show_base b n \<noteq> []"
  by (subst show_base.simps) (simp add: Let_def)

lemma show_base_injective: "show_base 10 m = show_base 10 n \<Longrightarrow> m = n"
proof (induction m arbitrary: n rule: less_induct)
  case (less m)
  show ?case
  proof (cases "m < 10 \<or> n < 10")
    case True
    then have "m < 10 \<and> n < 10"
      using less.prems show_base_nonempty [of 10 "m div 10"] show_base_nonempty [of 10 "n div 10"]
      by (cases "show_base 10 (m div 10)"; cases "show_base 10 (n div 10)")
        (auto simp: show_base_10 [of m] show_base_10 [of n] split: if_splits)
    then show ?thesis using less.prems digit_char_inj by (simp add: show_base_10 [of m] show_base_10 [of n])
  next
    case False
    then have eq: "show_base 10 (m div 10) = show_base 10 (n div 10)"
        "char_of (48 + m mod 10) = (char_of (48 + n mod 10) :: char)"
      using less.prems by (simp_all add: show_base_10 [of m] show_base_10 [of n])
    have "m div 10 = n div 10" using less.IH [OF _ eq(1)] False by simp
    moreover have "m mod 10 = n mod 10" using digit_char_inj [OF _ _ eq(2)] by simp
    ultimately show ?thesis by (metis div_mult_mod_eq)
  qed
qed

end
