(* ===== verification/Infrastructure.thy ===== *)
theory Infrastructure
  imports Net
begin

text \<open>
  \<open>infrastructure.rs\<close>: destinations that are local to a machine (the cloud metadata service and the
  link-local ranges) and must never be reached through the broker. \<open>reqwest::Url::parse\<close> belongs to
  another package and is the parameter \<open>url_parse\<close>. A lookup that would hit an \<open>expect\<close> or an
  overflowing shift is \<open>None\<close>.
\<close>

section \<open>URLs of the \<open>url\<close> package\<close>

record Url =
  host_str :: "string option"
  port :: "nat option"
  url_path :: string

type_synonym url_parser = "string \<Rightarrow> Url option"

section \<open>The compiled policy\<close>

record infrastructure_policy =
  hosts :: "string list"
  addresses :: "IpAddr list"
  ranges :: "string list"

definition infrastructure :: infrastructure_policy where
  "infrastructure =
     \<lparr>hosts = [''metadata'', ''metadata.google.internal''],
      addresses = [V4 0xA9FEA9FE, V6 0xfd2000ce000000000000000000000254],
      ranges = [''169.254.0.0/16'', ''fe80::/10'']\<rparr>"

lemma infrastructure_addresses_parsed:
  "map parse_ip [''169.254.169.254'', ''fd20:ce::254''] = map Some (addresses infrastructure)"
  by code_simp

definition no_proxy :: "string list" where
  "no_proxy =
     hosts infrastructure
     @ concat (map (\<lambda>ip. ip_to_string ip # (if is_ipv6 ip then [''['' @ ip_to_string ip @ '']''] else []))
         (addresses infrastructure))
     @ ranges infrastructure"

section \<open>Membership in a CIDR range\<close>

definition contains :: "string \<Rightarrow> IpAddr \<Rightarrow> bool option" where
  "contains cidr ip =
     (case split_once CHR ''/'' cidr of
        None \<Rightarrow> None
      | Some (network, prefix) \<Rightarrow>
          (case parse_ip network of
             None \<Rightarrow> None
           | Some net \<Rightarrow>
               (case parse_u32 prefix of
                  None \<Rightarrow> None
                | Some p \<Rightarrow>
                    (case (net, ip) of
                       (V4 n, V4 i) \<Rightarrow>
                         if p = 0 \<or> 32 < p then None
                         else (let mask = push_bit (32 - p) (- 1) in Some (n AND mask = i AND mask))
                     | (V6 n, V6 i) \<Rightarrow>
                         if p = 0 \<or> 128 < p then None
                         else (let mask = push_bit (128 - p) (- 1) in Some (n AND mask = i AND mask))
                     | _ \<Rightarrow> Some False))))"

fun any_contains :: "string list \<Rightarrow> IpAddr \<Rightarrow> bool option" where
  "any_contains [] ip = Some False"
| "any_contains (r # rs) ip =
     (case contains r ip of None \<Rightarrow> None | Some b \<Rightarrow> if b then Some True else any_contains rs ip)"

section \<open>The destination check\<close>

definition bracket :: "char \<Rightarrow> bool" where
  "bracket c \<longleftrightarrow> c = CHR ''['' \<or> c = CHR '']''"

definition unscoped :: "string \<Rightarrow> string" where
  "unscoped s = hd (split_on CHR ''%'' s)"

definition host_ip :: "url_parser \<Rightarrow> string \<Rightarrow> IpAddr option" where
  "host_ip url_parse host =
     (case parse_ip (unscoped (trim_matches bracket host)) of
        Some ip \<Rightarrow> Some ip
      | None \<Rightarrow>
          (case url_parse (''http://'' @ host @ ''/'') of
             None \<Rightarrow> None
           | Some url \<Rightarrow> (case host_str url of
                 None \<Rightarrow> None
               | Some h \<Rightarrow> parse_ip (trim_matches bracket h))))"

definition embedded_v4 :: "IpAddr \<Rightarrow> IpAddr" where
  "embedded_v4 ip =
     (case ip of V4 _ \<Rightarrow> ip | V6 w \<Rightarrow> (case to_ipv4 w of None \<Rightarrow> ip | Some v4 \<Rightarrow> V4 v4))"

definition blocked_ip :: "IpAddr \<Rightarrow> bool option" where
  "blocked_ip ip =
     (if embedded_v4 ip \<in> set (addresses infrastructure) then Some True
      else any_contains (ranges infrastructure) (embedded_v4 ip))"

definition is_infrastructure_host :: "url_parser \<Rightarrow> string \<Rightarrow> bool option" where
  "is_infrastructure_host url_parse h =
     (let host = to_ascii_lowercase (trim_end_matches (\<lambda>c. c = CHR ''.'') h)
      in if host \<in> set (hosts infrastructure) then Some True
         else case host_ip url_parse host of None \<Rightarrow> Some False | Some ip \<Rightarrow> blocked_ip ip)"

section \<open>What is blocked\<close>

lemma compiled_v4_range:
  "contains ''169.254.0.0/16'' (V4 i) = Some (drop_bit 16 i = 0xA9FE)"
  "contains ''169.254.0.0/16'' (V6 j) = Some False"
proof -
  have "parse_ip ''169.254.0.0'' = Some (V4 0xA9FE0000)" "parse_u32 ''16'' = Some 16"
    "split_once CHR ''/'' ''169.254.0.0/16'' = Some (''169.254.0.0'', ''16'')" by code_simp+
  moreover have "drop_bit 16 (0xA9FE0000 :: ipv4) = 0xA9FE" by code_simp
  ultimately show "contains ''169.254.0.0/16'' (V4 i) = Some (drop_bit 16 i = 0xA9FE)"
    "contains ''169.254.0.0/16'' (V6 j) = Some False"
    by (auto simp: contains_def Let_def not_mask_eq_iff_drop_bit_eq)
qed

lemma compiled_v6_range:
  "contains ''fe80::/10'' (V6 i) = Some (drop_bit 118 i = 0x3fa)"
  "contains ''fe80::/10'' (V4 j) = Some False"
proof -
  have "parse_ip ''fe80::'' = Some (V6 0xfe800000000000000000000000000000)" "parse_u32 ''10'' = Some 10"
    "split_once CHR ''/'' ''fe80::/10'' = Some (''fe80::'', ''10'')" by code_simp+
  moreover have "drop_bit 118 (0xfe800000000000000000000000000000 :: ipv6) = 0x3fa" by code_simp
  ultimately show "contains ''fe80::/10'' (V6 i) = Some (drop_bit 118 i = 0x3fa)"
    "contains ''fe80::/10'' (V4 j) = Some False"
    by (auto simp: contains_def Let_def not_mask_eq_iff_drop_bit_eq)
qed

lemmas compiled_ranges = compiled_v4_range compiled_v6_range

lemma metadata_is_link_local: "drop_bit 16 (0xA9FEA9FE :: ipv4) = 0xA9FE"
  by code_simp

lemma blocked_v4: "blocked_ip (V4 i) = Some (drop_bit 16 i = 0xA9FE)"
  using metadata_is_link_local
  by (auto simp: blocked_ip_def embedded_v4_def infrastructure_def compiled_ranges)

lemma blocked_v6_embedded: "to_ipv4 w = Some i \<Longrightarrow> blocked_ip (V6 w) = blocked_ip (V4 i)"
  by (simp add: blocked_ip_def embedded_v4_def)

lemma blocked_v6:
  "to_ipv4 w = None \<Longrightarrow>
     blocked_ip (V6 w) = Some (w = 0xfd2000ce000000000000000000000254 \<or> drop_bit 118 w = 0x3fa)"
  by (auto simp: blocked_ip_def embedded_v4_def infrastructure_def compiled_ranges)

lemma blocked_ip_decided: "\<exists>b. blocked_ip ip = Some b"
  by (cases ip; cases "to_ipv4 (case ip of V6 w \<Rightarrow> w | _ \<Rightarrow> 0)")
     (auto simp: blocked_v4 blocked_v6 blocked_v6_embedded)

lemma is_infrastructure_host_decided: "\<exists>b. is_infrastructure_host url_parse h = Some b"
  using blocked_ip_decided by (auto simp: is_infrastructure_host_def Let_def split: option.splits)

lemma to_ipv4_embedded:
  assumes "take_bit 96 x = 0 \<or> take_bit 96 x = 0xffff"
  shows "to_ipv4 (push_bit 32 x OR ucast i) = Some i"
  using assms unfolding to_ipv4_def low_part_of_embedding by simp

section \<open>Specification by address intervals\<close>

text \<open>
  What the policy means, stated without masks: the metadata address, an address of
  169.254.0.0 - 169.254.255.255 (also as an IPv4-in-IPv6 address) or one of
  fe80:: - febf:ffff:ffff:ffff:ffff:ffff:ffff:ffff.
\<close>

definition instance_local_v4 :: "ipv4 \<Rightarrow> bool" where
  "instance_local_v4 i \<longleftrightarrow> 0xA9FE0000 \<le> unat i \<and> unat i \<le> 0xA9FEFFFF"

definition instance_local :: "IpAddr \<Rightarrow> bool" where
  "instance_local ip =
     (case ip of
        V4 i \<Rightarrow> instance_local_v4 i
      | V6 w \<Rightarrow> (case to_ipv4 w of
            Some i \<Rightarrow> instance_local_v4 i
          | None \<Rightarrow> w = 0xfd2000ce000000000000000000000254
              \<or> (0xfe800000000000000000000000000000 \<le> unat w
                  \<and> unat w \<le> 0xfebfffffffffffffffffffffffffffff)))"

lemma link_local_v4_interval: "drop_bit 16 (i :: ipv4) = 0xA9FE \<longleftrightarrow> instance_local_v4 i"
  using drop_bit_eq_iff_interval [where c = "0xA9FE :: ipv4" and k = 16] by (simp add: instance_local_v4_def)

lemma link_local_v6_interval:
  "drop_bit 118 (w :: ipv6) = 0x3fa \<longleftrightarrow>
     0xfe800000000000000000000000000000 \<le> unat w \<and> unat w \<le> 0xfebfffffffffffffffffffffffffffff"
  using drop_bit_eq_iff_interval [where c = "0x3fa :: ipv6" and k = 118] by simp

lemma blocked_ip_instance_local: "blocked_ip ip = Some (instance_local ip)"
  by (cases ip)
     (auto simp: instance_local_def blocked_v4 blocked_v6 blocked_v6_embedded
        link_local_v4_interval link_local_v6_interval split: option.splits)

section \<open>Specification of the spellings\<close>

text \<open>
  The spellings of an address, as a grammar: any brackets around a body without brackets at its ends, the body an address
  and perhaps a scope behind a percent sign. What is no such spelling may still be one that the URL parser rewrites into
  an address.
\<close>

definition plain_ends :: "char list \<Rightarrow> string \<Rightarrow> bool" where
  "plain_ends cs b \<longleftrightarrow> b = [] \<or> hd b \<notin> set cs \<and> last b \<notin> set cs"

definition bracketed :: "string \<Rightarrow> string \<Rightarrow> bool" where
  "bracketed body h \<longleftrightarrow> plain_ends ''[]'' body \<and> (\<exists>l r. h = l @ body @ r \<and> set l \<subseteq> set ''[]'' \<and> set r \<subseteq> set ''[]'')"

definition literal :: "string \<Rightarrow> IpAddr \<Rightarrow> bool" where
  "literal h ip \<longleftrightarrow> (\<exists>body. bracketed body h
     \<and> (parse_ip body = Some ip \<and> CHR ''%'' \<notin> set body
        \<or> (\<exists>a scope. body = a @ CHR ''%'' # scope \<and> CHR ''%'' \<notin> set a \<and> parse_ip a = Some ip)))"

definition denotes :: "url_parser \<Rightarrow> string \<Rightarrow> IpAddr \<Rightarrow> bool" where
  "denotes up h ip \<longleftrightarrow> literal h ip
     \<or> (\<forall>other. \<not> literal h other) \<and> (\<exists>u text body. up (''http://'' @ h @ ''/'') = Some u \<and> host_str u = Some text
          \<and> bracketed body text \<and> parse_ip body = Some ip)"

text \<open>A name without the dots at its end, in small letters.\<close>

definition folded :: "string \<Rightarrow> string \<Rightarrow> bool" where
  "folded h host \<longleftrightarrow> (\<exists>h0 n. h = h0 @ replicate n CHR ''.'' \<and> (h0 = [] \<or> last h0 \<noteq> CHR ''.'') \<and> host = map ascii_lower h0)"

lemma trimmed_iff: "trim_matches P h = b \<longleftrightarrow> (b = [] \<or> \<not> P (hd b) \<and> \<not> P (last b)) \<and> (\<exists>l r. h = l @ b @ r \<and> (\<forall>c \<in> set l \<union> set r. P c))"
proof -
  have start: "trim_matches P h = b" if "b = [] \<or> \<not> P (hd b) \<and> \<not> P (last b)" "h = l @ b @ r" "\<forall>c \<in> set l \<union> set r. P c" for l r
  proof (cases b)
    case Nil
    with that have "\<forall>x \<in> set h. P x" by auto
    then have "dropWhile P h = []" by (simp only: dropWhile_eq_Nil_conv)
    then show ?thesis unfolding Nil trim_matches_def trim_start_matches_def trim_end_matches_def by (simp only: rev.simps dropWhile.simps)
  next
    case (Cons x xs)
    then have "dropWhile P (l @ b @ r) = b @ r" using that by (simp add: dropWhile_append2)
    moreover have "\<not> P (hd (rev b))" "rev b \<noteq> []" using that(1) Cons hd_rev [of b] by auto
    then have "dropWhile P (rev r @ rev b) = rev b" using that(3) by (subst dropWhile_append2) (auto simp: dropWhile_eq_self_iff)
    ultimately show ?thesis using that(2) by (simp add: trim_matches_def trim_start_matches_def trim_end_matches_def)
  qed
  have "\<exists>l r. h = l @ trim_matches P h @ r \<and> (\<forall>c \<in> set l \<union> set r. P c)"
  proof -
    let ?m = "dropWhile P h"
    have "h = takeWhile P h @ rev (dropWhile P (rev ?m)) @ rev (takeWhile P (rev ?m))"
      by (metis rev_append rev_rev_ident takeWhile_dropWhile_id)
    then show ?thesis unfolding trim_matches_def trim_start_matches_def trim_end_matches_def
      by (intro exI [of _ "takeWhile P h"] exI [of _ "rev (takeWhile P (rev ?m))"]) (auto dest: set_takeWhileD)
  qed
  moreover have "trim_matches P h = [] \<or> \<not> P (hd (trim_matches P h)) \<and> \<not> P (last (trim_matches P h))"
  proof -
    let ?m = "dropWhile P h" 
    have l: "rev (dropWhile P (rev ?m)) \<noteq> [] \<Longrightarrow> \<not> P (last (rev (dropWhile P (rev ?m))))"
      using hd_dropWhile [of P "rev ?m"] by (simp add: last_rev)
    have "\<not> P (hd (rev (dropWhile P (rev ?m))))" if "rev (dropWhile P (rev ?m)) \<noteq> []"
    proof -
      have "?m \<noteq> []" using that by (metis dropWhile.simps(1) rev.simps(1))
      then have "\<not> P (hd ?m)" by (rule hd_dropWhile)
      moreover have "hd (rev (dropWhile P (rev ?m))) = hd ?m"
        using that by (metis hd_append2 rev_append rev_rev_ident takeWhile_dropWhile_id)
      ultimately show ?thesis by simp
    qed
    with l show ?thesis unfolding trim_matches_def trim_start_matches_def trim_end_matches_def by blast
  qed
  ultimately show ?thesis using start by metis
qed

lemma bracketed_iff: "bracketed b h \<longleftrightarrow> trim_matches bracket h = b"
  unfolding trimmed_iff bracketed_def plain_ends_def bracket_def by auto

lemma unscoped_iff: "unscoped b = a \<longleftrightarrow> b = a \<and> CHR ''%'' \<notin> set b \<or> (\<exists>z. b = a @ CHR ''%'' # z \<and> CHR ''%'' \<notin> set a)"
proof -
  have take: "hd (split_on d s) = takeWhile (\<lambda>c. c \<noteq> d) s" for d s
    by (induction s) (auto split: list.splits)
  have "takeWhile (\<lambda>c. c \<noteq> CHR ''%'') b = a \<longleftrightarrow> b = a \<and> CHR ''%'' \<notin> set b \<or> (\<exists>z. b = a @ CHR ''%'' # z \<and> CHR ''%'' \<notin> set a)"
  proof (induction b arbitrary: a)
    case (Cons c b)
    then show ?case by (cases a) auto
  qed auto
  then show ?thesis by (simp only: unscoped_def take)
qed

lemma literal_iff: "literal h ip \<longleftrightarrow> parse_ip (unscoped (trim_matches bracket h)) = Some ip"
proof -
  have "literal h ip \<longleftrightarrow> (\<exists>a. parse_ip a = Some ip \<and> unscoped (trim_matches bracket h) = a)"
    unfolding literal_def bracketed_iff unscoped_iff by blast
  then show ?thesis by simp
qed

lemma denotes_iff: "denotes up h ip \<longleftrightarrow> host_ip up h = Some ip"
  unfolding denotes_def literal_iff bracketed_iff host_ip_def by (auto split: option.splits)

lemma folded_iff: "folded h host \<longleftrightarrow> host = to_ascii_lowercase (trim_end_matches (\<lambda>c. c = CHR ''.'') h)"
proof -
  let ?t = "trim_end_matches (\<lambda>c. c = CHR ''.'') h"
  have drop: "dropWhile (\<lambda>c. c = CHR ''.'') (replicate n CHR ''.'' @ s) = dropWhile (\<lambda>c. c = CHR ''.'') s" for n s
    by (induction n) auto
  have one: "?t = h0" if "h = h0 @ replicate n CHR ''.''" "h0 = [] \<or> last h0 \<noteq> CHR ''.''" for h0 n
    using that by (cases h0 rule: rev_cases) (auto simp: trim_end_matches_def drop)
  have "\<exists>n. takeWhile (\<lambda>c. c = CHR ''.'') s = replicate n CHR ''.''" for s
    by (intro exI [of _ "length (takeWhile (\<lambda>c. c = CHR ''.'') s)"] replicate_length_same [symmetric]) (auto dest: set_takeWhileD)
  then obtain n where n: "takeWhile (\<lambda>c. c = CHR ''.'') (rev h) = replicate n CHR ''.''" by blast
  have "rev h = takeWhile (\<lambda>c. c = CHR ''.'') (rev h) @ dropWhile (\<lambda>c. c = CHR ''.'') (rev h)" by simp
  then have "rev (rev h) = rev (replicate n CHR ''.'' @ dropWhile (\<lambda>c. c = CHR ''.'') (rev h))" unfolding n by (rule arg_cong)
  then have "h = ?t @ replicate n CHR ''.''" unfolding trim_end_matches_def by simp
  moreover have "?t = [] \<or> last ?t \<noteq> CHR ''.''"
    using hd_dropWhile [of "\<lambda>c. c = CHR ''.''" "rev h"] by (auto simp: trim_end_matches_def last_rev)
  ultimately have "folded h (to_ascii_lowercase ?t)" unfolding folded_def to_ascii_lowercase_def by blast
  moreover have "host = to_ascii_lowercase ?t" if "folded h host"
    using that one by (force simp: folded_def to_ascii_lowercase_def)
  ultimately show ?thesis by metis
qed

lemma is_infrastructure_host_spec:
  "is_infrastructure_host up h =
     Some (\<exists>host. folded h host \<and> (host = ''metadata'' \<or> host = ''metadata.google.internal'' \<or> (\<exists>ip. denotes up host ip \<and> instance_local ip)))"
  unfolding folded_iff denotes_iff
  by (auto simp: is_infrastructure_host_def Let_def blocked_ip_instance_local infrastructure_def
      split: option.splits)

text \<open>
  C22. The destination check decides every host (it never reaches an \<open>expect\<close> or an overflowing shift), and it blocks
  exactly the metadata names and the hosts that denote an instance-local address. A host denotes an address, after its
  dots at the end and its case are removed, by an IP literal in any brackets and with any scope identifier, or, when it is no
  such literal, by what the URL parser makes of it (numeric forms, for instance); an IPv4 address may be wrapped in IPv6.
\<close>

theorem is_infrastructure_host_exact:
  "is_infrastructure_host up h =
     Some (\<exists>host. folded h host \<and> (host = ''metadata'' \<or> host = ''metadata.google.internal'' \<or> (\<exists>ip. denotes up host ip \<and> instance_local ip)))"
  by (rule is_infrastructure_host_spec)

end
