(* ===== verification/Routing.thy ===== *)
theory Routing
  imports Infrastructure
begin

text \<open>
  \<open>routing.rs\<close>: canonical host names and the list of hosts that guests must send through the
  broker. The URL parser is the parameter \<open>url_parse\<close>; \<open>serde_json::to_string\<close> of a string, which
  \<open>git_proxy_config\<close> uses to quote the proxy, is the parameter \<open>json_string\<close>.
\<close>

section \<open>Escrow entries\<close>

text \<open>\<open>EscrowEntry\<close> of \<open>settings.rs\<close>; declared here because the routing snapshot is made of it.\<close>

record EscrowEntry =
  entry_name :: string
  entry_hosts :: "string list"
  header :: string
  prefix :: string
  fake :: string
  real_env :: "string option"
  guest_env :: "string option"

section \<open>Canonical host names\<close>

definition forbidden_host_char :: "string \<Rightarrow> bool" where
  "forbidden_host_char c \<longleftrightarrow> char_is_whitespace (scalar c) \<or> char_is_control (scalar c)
     \<or> c \<in> set [''/'', [ch 92], ''@'', ''?'', ''#'', [ch 34], [ch 39]]"

definition normalize_host :: "url_parser \<Rightarrow> string \<Rightarrow> string option" where
  "normalize_host url_parse host =
     (if host = [] \<or> list_ex forbidden_host_char (chars host) then None
      else case url_parse (''http://'' @ host @ ''/'') of
          None \<Rightarrow> None
        | Some url \<Rightarrow>
            if port url \<noteq> None \<or> url_path url \<noteq> ''/''
               \<or> (\<not> starts_with ''['' host \<and> CHR '':'' \<in> set host)
               \<or> (starts_with ''['' host \<and> \<not> ends_with '']'' host)
            then None
            else map_option (trim_end_matches (\<lambda>c. c = CHR ''.'')) (host_str url))"

definition host_matches :: "url_parser \<Rightarrow> string \<Rightarrow> string \<Rightarrow> bool" where
  "host_matches url_parse pinned host =
     (case (normalize_host url_parse pinned, normalize_host url_parse host) of
        (Some p, Some h) \<Rightarrow> p = h
      | _ \<Rightarrow> False)"

definition loopback_host :: "url_parser \<Rightarrow> string \<Rightarrow> bool" where
  "loopback_host url_parse h =
     (case normalize_host url_parse h of
        None \<Rightarrow> False
      | Some host \<Rightarrow>
          if host = ''localhost'' \<or> ends_with ''.localhost'' host then True
          else case parse_ip (trim_matches bracket host) of
              Some (V4 ip) \<Rightarrow> v4_is_loopback ip
            | Some (V6 ip) \<Rightarrow> v6_is_loopback ip \<or> opt_any v4_is_loopback (to_ipv4 ip)
            | None \<Rightarrow> False)"

section \<open>The routing snapshot\<close>

definition credential_hosts :: "url_parser \<Rightarrow> EscrowEntry list \<Rightarrow> string \<Rightarrow> string list" where
  "credential_hosts url_parse entries broker_host =
     (let broker = normalize_host url_parse broker_host;
          named = List.map_filter (normalize_host url_parse) (concat (map entry_hosts entries));
          kept = filter (\<lambda>host. \<not> loopback_host url_parse host
                   \<and> is_infrastructure_host url_parse host \<noteq> Some True
                   \<and> Some host \<noteq> broker) named
      in remdups_adj (sort kept))"

definition git_proxy_config :: "(string \<Rightarrow> string) \<Rightarrow> string list \<Rightarrow> string \<Rightarrow> string" where
  "git_proxy_config json_string hs proxy =
     concat (map (\<lambda>host. ''[http '' @ [ch 34] @ ''https://'' @ host @ [ch 34] @ '']''
        @ [ch 10, ch 9] @ ''proxy = '' @ json_string proxy @ [ch 10]) hs)"

section \<open>Facts about canonical hosts\<close>

lemma normalize_host_Some_nonempty:
  "normalize_host url_parse h = Some n \<Longrightarrow> h \<noteq> [] \<and> \<not> list_ex forbidden_host_char (chars h)"
  by (auto simp: normalize_host_def split: if_splits)

lemma normalize_host_no_trailing_dot:
  "normalize_host url_parse h = Some n \<Longrightarrow> trim_end_matches (\<lambda>c. c = CHR ''.'') n = n"
  by (auto simp: normalize_host_def split: if_splits option.splits)

lemma normalize_host_plain_no_port:
  "normalize_host url_parse h = Some n \<Longrightarrow> \<not> starts_with ''['' h \<Longrightarrow> CHR '':'' \<notin> set h"
  by (auto simp: normalize_host_def split: if_splits option.splits)

lemma host_matches_iff:
  "host_matches url_parse a b \<longleftrightarrow>
     (\<exists>n. normalize_host url_parse a = Some n \<and> normalize_host url_parse b = Some n)"
  by (auto simp: host_matches_def split: option.splits)

lemma host_matches_sym: "host_matches url_parse a b \<Longrightarrow> host_matches url_parse b a"
  by (auto simp: host_matches_iff)

lemma host_matches_trans:
  "host_matches url_parse a b \<Longrightarrow> host_matches url_parse b c \<Longrightarrow> host_matches url_parse a c"
  by (auto simp: host_matches_iff)

lemma set_map_filter: "set (List.map_filter f xs) = {y. \<exists>x \<in> set xs. f x = Some y}"
  by (induction xs) (auto simp: List.map_filter_simps split: option.splits)

lemma set_credential_hosts:
  "set (credential_hosts url_parse entries broker) =
     {n. (\<exists>e \<in> set entries. \<exists>h \<in> set (entry_hosts e). normalize_host url_parse h = Some n)
       \<and> \<not> loopback_host url_parse n \<and> is_infrastructure_host url_parse n \<noteq> Some True
       \<and> Some n \<noteq> normalize_host url_parse broker}"
  by (auto simp: credential_hosts_def Let_def set_map_filter)

lemma sorted_remdups_adj_distinct:
  fixes xs :: "'a::linorder list"
  shows "sorted xs \<Longrightarrow> distinct (remdups_adj xs)"
  by (induction xs rule: remdups_adj.induct) auto

text \<open>
  The routing snapshot that guests receive is sorted, free of duplicates, and lists exactly the
  canonical names of the escrow hosts that are neither loopback, nor instance-local, nor the broker
  itself.
\<close>

theorem credential_hosts_exact:
  "sorted (credential_hosts url_parse entries broker)
   \<and> distinct (credential_hosts url_parse entries broker)
   \<and> (\<forall>n. n \<in> set (credential_hosts url_parse entries broker) \<longleftrightarrow>
        (\<exists>e \<in> set entries. \<exists>h \<in> set (entry_hosts e). normalize_host url_parse h = Some n)
        \<and> \<not> loopback_host url_parse n \<and> is_infrastructure_host url_parse n = Some False
        \<and> Some n \<noteq> normalize_host url_parse broker)"
proof -
  have decided: "is_infrastructure_host url_parse n \<noteq> Some True \<longleftrightarrow>
      is_infrastructure_host url_parse n = Some False" for n
    using is_infrastructure_host_decided [of url_parse n] by auto
  have "sorted (credential_hosts url_parse entries broker)"
    by (simp add: credential_hosts_def Let_def)
  moreover have "distinct (credential_hosts url_parse entries broker)"
    by (simp add: credential_hosts_def Let_def sorted_remdups_adj_distinct)
  ultimately show ?thesis
    by (simp add: set_credential_hosts decided)
qed

section \<open>A sample URL parser\<close>

text \<open>
  A parser for the witnesses of the development: it lower-cases the host of \<open>http://host/\<close> and
  reports no port. It satisfies what the theorems ask of the parameter \<open>url_parse\<close>.
\<close>

definition sample_url_parse :: url_parser where
  "sample_url_parse s =
     (case strip_prefix ''http://'' s of
        None \<Rightarrow> None
      | Some r \<Rightarrow> Some \<lparr>host_str = Some (to_ascii_lowercase (butlast r)), port = None, url_path = ''/''\<rparr>)"

end
