(* ===== verification/Settings.thy ===== *)
theory Settings
  imports Routing
begin

text \<open>
  \<open>settings.rs\<close> and the session lookup of \<open>oauth.rs\<close>: escrow entries, the secrets behind them and the
  substitution resolver. Parameters stand for code of other packages: \<open>url_parse\<close> (\<open>url\<close>),
  \<open>b64_decode\<close> and \<open>b64_encode\<close> (\<open>base64\<close>), \<open>parse_session\<close> (\<open>serde_json::from_str\<close> at
  \<open>ClineSession\<close>), \<open>session_json\<close> (\<open>serde_json::to_string\<close>), \<open>env\<close> (the process environment) and
  \<open>uuid_simple\<close> (the text of a UUID). The secret store behind the settings is any \<open>Persistence\<close>:
  a state of type \<open>'p\<close> and a \<open>save\<close> that returns whether it succeeded.
\<close>

section \<open>State\<close>

type_synonym secret_values = "(string, string) alist"
type_synonym 'p saver = "'p \<Rightarrow> secret_values \<Rightarrow> bool \<times> 'p"

record 'p Secrets =
  secret_map :: secret_values
  persistence :: 'p

record 'p Settings =
  escrow :: "EscrowEntry list"
  secrets :: "'p Secrets"
  escrow_file :: "EscrowEntry list option"

record ClineSession =
  refresh_token :: string
  expires_at :: int
  api_base_url :: string

datatype settings_error =
    Entry_exists string
  | No_escrow_entry string
  | Secret_save_failed
  | Escrow_write_failed

section \<open>Secrets\<close>

definition secrets_save ::
  "'p saver \<Rightarrow> 'p Secrets \<Rightarrow> secret_values \<Rightarrow> (settings_error + unit) \<times> 'p Secrets" where
  "secrets_save save sec vals =
     (case save (persistence sec) vals of
        (ok, p') \<Rightarrow>
          if ok then (Inr (), \<lparr>secret_map = vals, persistence = p'\<rparr>)
          else (Inl Secret_save_failed, sec\<lparr>persistence := p'\<rparr>))"

definition secret :: "'p Settings \<Rightarrow> string \<Rightarrow> string option" where
  "secret s name = map_of (secret_map (secrets s)) name"

definition session_secret_name :: "string \<Rightarrow> string" where
  "session_secret_name entry = ''cline-oauth:'' @ entry"

definition load_session :: "(string \<Rightarrow> ClineSession option) \<Rightarrow> 'p Settings \<Rightarrow> string \<Rightarrow> ClineSession option" where
  "load_session parse_session s entry =
     (case secret s (session_secret_name entry) of None \<Rightarrow> None | Some t \<Rightarrow> parse_session t)"

definition set_secret ::
  "'p saver \<Rightarrow> 'p Settings \<Rightarrow> string \<Rightarrow> string \<Rightarrow> (settings_error + unit) \<times> 'p Settings" where
  "set_secret save s name v =
     (case secrets_save save (secrets s)
          (AList.delete (session_secret_name name) (AList.update name v (secret_map (secrets s)))) of
        (r, sec) \<Rightarrow> (r, s\<lparr>secrets := sec\<rparr>))"

definition set_cline_session ::
  "'p saver \<Rightarrow> (ClineSession \<Rightarrow> string) \<Rightarrow> 'p Settings \<Rightarrow> string \<Rightarrow> ClineSession \<Rightarrow> string
     \<Rightarrow> (settings_error + unit) \<times> 'p Settings" where
  "set_cline_session save session_json s entry session access =
     (case secrets_save save (secrets s)
          (AList.update entry access
            (AList.update (session_secret_name entry) (session_json session) (secret_map (secrets s)))) of
        (r, sec) \<Rightarrow> (r, s\<lparr>secrets := sec\<rparr>))"

definition remove_secret ::
  "'p saver \<Rightarrow> 'p Settings \<Rightarrow> string \<Rightarrow> (settings_error + unit) \<times> 'p Settings" where
  "remove_secret save s name =
     (case secrets_save save (secrets s) (AList.delete name (secret_map (secrets s))) of
        (r, sec) \<Rightarrow> (r, s\<lparr>secrets := sec\<rparr>))"

section \<open>Entries\<close>

definition generate_fake :: "string \<Rightarrow> string \<Rightarrow> string" where
  "generate_fake uuid_simple name = ''fz-'' @ name @ ''-'' @ uuid_simple"

text \<open>
  \<open>write_json\<close> is a plain \<open>fs::write\<close>: the argument \<open>written\<close> tells whether it succeeded, and a
  failed write leaves a file of unknown contents (\<open>None\<close>).
\<close>

definition write_json :: "bool \<Rightarrow> EscrowEntry list \<Rightarrow> EscrowEntry list option" where
  "write_json written es = (if written then Some es else None)"

definition add_entry ::
  "bool \<Rightarrow> string \<Rightarrow> 'p Settings \<Rightarrow> EscrowEntry \<Rightarrow> (settings_error + EscrowEntry) \<times> 'p Settings" where
  "add_entry written uuid_simple s e =
     (let entry = (if fake e = [] then e\<lparr>fake := generate_fake uuid_simple (entry_name e)\<rparr> else e)
      in if list_ex (\<lambda>x. entry_name x = entry_name entry) (escrow s)
         then (Inl (Entry_exists (entry_name entry)), s)
         else (let es = escrow s @ [entry]
               in (if written then Inr entry else Inl Escrow_write_failed,
                   s\<lparr>escrow := es, escrow_file := write_json written es\<rparr>)))"

fun update_first :: "('a \<Rightarrow> bool) \<Rightarrow> ('a \<Rightarrow> 'a) \<Rightarrow> 'a list \<Rightarrow> 'a list" where
  "update_first P f [] = []"
| "update_first P f (x # xs) = (if P x then f x # xs else x # update_first P f xs)"

definition update_entry ::
  "bool \<Rightarrow> 'p Settings \<Rightarrow> string \<Rightarrow> string list \<Rightarrow> string \<Rightarrow> string \<Rightarrow> string option
     \<Rightarrow> (settings_error + EscrowEntry) \<times> 'p Settings" where
  "update_entry written s name hs hdr pre genv =
     (case List.find (\<lambda>x. entry_name x = name) (escrow s) of
        None \<Rightarrow> (Inl (No_escrow_entry name), s)
      | Some e \<Rightarrow>
          (let upd = (\<lambda>x. x\<lparr>entry_hosts := hs, header := hdr, prefix := pre, guest_env := genv\<rparr>);
               es = update_first (\<lambda>x. entry_name x = name) upd (escrow s)
           in (if written then Inr (upd e) else Inl Escrow_write_failed,
               s\<lparr>escrow := es, escrow_file := write_json written es\<rparr>)))"

definition remove_entry ::
  "'p saver \<Rightarrow> bool \<Rightarrow> 'p Settings \<Rightarrow> string \<Rightarrow> (settings_error + unit) \<times> 'p Settings" where
  "remove_entry save written s name =
     (case secrets_save save (secrets s)
          (AList.delete (session_secret_name name) (AList.delete name (secret_map (secrets s)))) of
        (Inl e, sec) \<Rightarrow> (Inl e, s\<lparr>secrets := sec\<rparr>)
      | (Inr _, sec) \<Rightarrow>
          (let es = filter (\<lambda>e. entry_name e \<noteq> name) (escrow s)
           in if written
              then (Inr (), s\<lparr>secrets := sec, escrow := es, escrow_file := write_json True es\<rparr>)
              else (Inl Escrow_write_failed, s\<lparr>secrets := sec, escrow_file := write_json False es\<rparr>)))"

definition guest_env_lines :: "'p Settings \<Rightarrow> string" where
  "guest_env_lines s =
     ''# Friendzone fake credentials; real values stay on the host.'' @ [ch 10]
     @ concat (map (\<lambda>e. case guest_env e of
          None \<Rightarrow> []
        | Some var \<Rightarrow> ''export '' @ var @ ''='' @ fake e @ [ch 10]) (escrow s))"

section \<open>The real value of an entry\<close>

definition real_value ::
  "(string \<Rightarrow> string option) \<Rightarrow> (string \<Rightarrow> ClineSession option) \<Rightarrow> 'p Settings \<Rightarrow> EscrowEntry \<Rightarrow> string option" where
  "real_value env parse_session s e =
     (let cline_session = load_session parse_session s (entry_name e) \<noteq> None
      in case (case secret s (entry_name e) of
                 Some v \<Rightarrow> Some v
               | None \<Rightarrow> (case real_env e of None \<Rightarrow> None | Some var \<Rightarrow> env var)) of
           None \<Rightarrow> None
         | Some v \<Rightarrow>
             Some (if cline_session \<and> \<not> starts_with ''workos:'' (to_ascii_lowercase v)
                   then ''workos:'' @ v else v))"

definition CLINE_API_HOST :: string where
  "CLINE_API_HOST = ''api.cline.bot''"

definition is_cline_entry :: "url_parser \<Rightarrow> EscrowEntry \<Rightarrow> bool" where
  "is_cline_entry url_parse e = list_ex (\<lambda>h. host_matches url_parse h CLINE_API_HOST) (entry_hosts e)"

definition is_cline_credential_host ::
  "url_parser \<Rightarrow> (string \<Rightarrow> ClineSession option) \<Rightarrow> 'p Settings \<Rightarrow> string \<Rightarrow> bool" where
  "is_cline_credential_host url_parse parse_session s host =
     list_ex (\<lambda>e. (is_cline_entry url_parse e \<or> load_session parse_session s (entry_name e) \<noteq> None)
       \<and> list_ex (\<lambda>p. host_matches url_parse p host) (entry_hosts e)) (escrow s)"

section \<open>Substitution\<close>

definition basic_credentials :: "(string \<Rightarrow> string option) \<Rightarrow> string \<Rightarrow> (string \<times> string) option" where
  "basic_credentials b64_decode v =
     (case split_once CHR '' '' v of
        None \<Rightarrow> None
      | Some (scheme, encoded) \<Rightarrow>
          if \<not> eq_ignore_ascii_case scheme ''Basic'' then None
          else case b64_decode (trim_start_matches (\<lambda>c. c = CHR '' '') encoded) of
              None \<Rightarrow> None
            | Some decoded \<Rightarrow>
                if list_ex is_ascii_control decoded then None
                else split_once CHR '':'' decoded)"

definition github_token_matches :: "url_parser \<Rightarrow> EscrowEntry \<Rightarrow> string \<Rightarrow> bool" where
  "github_token_matches url_parse e v \<longleftrightarrow>
     eq_ignore_ascii_case (header e) ''authorization'' \<and> prefix e = ''Bearer ''
     \<and> list_ex (\<lambda>h. host_matches url_parse h ''api.github.com'') (entry_hosts e)
     \<and> (case split_once CHR '' '' v of
          None \<Rightarrow> False
        | Some (scheme, token) \<Rightarrow>
            eq_ignore_ascii_case scheme ''token'' \<and> fake e \<noteq> [] \<and> token = fake e)"

datatype block_reason =
    Refresh_is_host_owned
  | Fake_to_unpinned_host string string
  | No_real_value string
  | Invalid_for_basic string

datatype Substitution = SubNone | Replace string string | Block block_reason

record net_code =
  url_parse :: url_parser
  b64_decode :: "string \<Rightarrow> string option"
  b64_encode :: "string \<Rightarrow> string"
  parse_session :: "string \<Rightarrow> ClineSession option"
  env :: "string \<Rightarrow> string option"

definition pinned :: "net_code \<Rightarrow> EscrowEntry \<Rightarrow> string \<Rightarrow> bool" where
  "pinned nc e host = list_ex (\<lambda>p. host_matches (url_parse nc) p host) (entry_hosts e)"

definition cline_oauth :: "net_code \<Rightarrow> 'p Settings \<Rightarrow> EscrowEntry \<Rightarrow> bool" where
  "cline_oauth nc s e \<longleftrightarrow> load_session (parse_session nc) s (entry_name e) \<noteq> None"

definition literal_match :: "EscrowEntry \<Rightarrow> string \<Rightarrow> bool" where
  "literal_match e v \<longleftrightarrow> (case strip_prefix (prefix e) v of None \<Rightarrow> v | Some r \<Rightarrow> r) = fake e"

definition oauth_facade_match :: "net_code \<Rightarrow> 'p Settings \<Rightarrow> EscrowEntry \<Rightarrow> string \<Rightarrow> bool" where
  "oauth_facade_match nc s e v \<longleftrightarrow> cline_oauth nc s e
     \<and> strip_prefix ''workos:'' (case strip_prefix (prefix e) v of None \<Rightarrow> v | Some r \<Rightarrow> r) = Some (fake e)"

definition basic_match :: "net_code \<Rightarrow> EscrowEntry \<Rightarrow> string \<Rightarrow> string option" where
  "basic_match nc e v =
     (if eq_ignore_ascii_case (header e) ''authorization''
      then case basic_credentials (b64_decode nc) v of
          None \<Rightarrow> None
        | Some (user, password) \<Rightarrow> if fake e \<noteq> [] \<and> password = fake e then Some user else None
      else None)"

fun substitute_entries ::
  "net_code \<Rightarrow> 'p Settings \<Rightarrow> EscrowEntry list \<Rightarrow> string \<Rightarrow> string \<Rightarrow> (string \<Rightarrow> string option) \<Rightarrow> Substitution" where
  "substitute_entries nc s [] host path get_header = SubNone"
| "substitute_entries nc s (e # es) host path get_header =
     (if cline_oauth nc s e \<and> path = ''/api/v1/auth/refresh'' \<and> pinned nc e host
      then Block Refresh_is_host_owned
      else case get_header (header e) of
          None \<Rightarrow> substitute_entries nc s es host path get_header
        | Some v \<Rightarrow>
            (let direct = (literal_match e v \<or> oauth_facade_match nc s e v
                           \<or> github_token_matches (url_parse nc) e v);
                 basic = basic_match nc e v
             in if \<not> direct \<and> basic = None then substitute_entries nc s es host path get_header
                else if \<not> pinned nc e host then Block (Fake_to_unpinned_host (entry_name e) host)
                else case real_value (env nc) (parse_session nc) s e of
                    None \<Rightarrow> Block (No_real_value (entry_name e))
                  | Some real \<Rightarrow>
                      if direct then Replace (header e) (prefix e @ real)
                      else if real = [] \<or> list_ex is_ascii_control real
                      then Block (Invalid_for_basic (entry_name e))
                      else Replace (header e)
                        (''Basic '' @ b64_encode nc (the basic @ '':'' @ real))))"

definition substitute ::
  "net_code \<Rightarrow> 'p Settings \<Rightarrow> string \<Rightarrow> string \<Rightarrow> (string \<Rightarrow> string option) \<Rightarrow> Substitution" where
  "substitute nc s host path get_header = substitute_entries nc s (escrow s) host path get_header"

section \<open>Safety of substitution\<close>

definition presents_fake :: "net_code \<Rightarrow> 'p Settings \<Rightarrow> EscrowEntry \<Rightarrow> string \<Rightarrow> bool" where
  "presents_fake nc s e v \<longleftrightarrow> literal_match e v \<or> oauth_facade_match nc s e v
     \<or> github_token_matches (url_parse nc) e v \<or> basic_match nc e v \<noteq> None"

definition refresh_trap :: "net_code \<Rightarrow> 'p Settings \<Rightarrow> EscrowEntry \<Rightarrow> string \<Rightarrow> string \<Rightarrow> bool" where
  "refresh_trap nc s e host path \<longleftrightarrow>
     cline_oauth nc s e \<and> path = ''/api/v1/auth/refresh'' \<and> pinned nc e host"

definition carries :: "net_code \<Rightarrow> EscrowEntry \<Rightarrow> string \<Rightarrow> string \<Rightarrow> bool" where
  "carries nc e real v \<longleftrightarrow> v = prefix e @ real
     \<or> (\<exists>user. v = ''Basic '' @ b64_encode nc (user @ '':'' @ real))"

lemma substitute_entries_Replace:
  "substitute_entries nc s es host path gh = Replace h v \<Longrightarrow>
     \<exists>e \<in> set es. \<exists>x real. h = header e \<and> gh (header e) = Some x \<and> presents_fake nc s e x
       \<and> pinned nc e host \<and> real_value (env nc) (parse_session nc) s e = Some real \<and> carries nc e real v"
proof (induction es)
  case (Cons e es)
  show ?case
  proof (cases "refresh_trap nc s e host path")
    case True
    with Cons.prems show ?thesis by (simp add: refresh_trap_def)
  next
    case no_trap: False
    show ?thesis
    proof (cases "gh (header e)")
      case None
      with no_trap Cons show ?thesis by (auto simp: refresh_trap_def)
    next
      case (Some x)
      with no_trap Cons show ?thesis
        by (cases "presents_fake nc s e x")
           (auto simp: refresh_trap_def presents_fake_def carries_def Let_def
              split: if_splits option.splits)
    qed
  qed
qed simp

lemma substitute_entries_SubNone_iff:
  "substitute_entries nc s es host path gh = SubNone \<longleftrightarrow>
     (\<forall>e \<in> set es. \<not> refresh_trap nc s e host path
        \<and> opt_all (\<lambda>x. \<not> presents_fake nc s e x) (gh (header e)))"
proof (induction es)
  case (Cons e es)
  show ?case
  proof (cases "gh (header e)")
    case None
    with Cons show ?thesis by (auto simp: refresh_trap_def)
  next
    case (Some x)
    with Cons show ?thesis
      by (auto simp: refresh_trap_def presents_fake_def Let_def split: option.splits)
  qed
qed simp

text \<open>
  C3. A real credential leaves the broker only under an exact match: whenever the resolver replaces
  a header, some escrow entry declares that header, the guest presented that entry's fake in it, the
  request goes to a host the entry pins, and the new value is made of that entry's own current
  secret (behind its prefix, or as the password of a Basic credential).
\<close>

theorem substitute_only_to_pinned:
  assumes "substitute nc s host path get_header = Replace h v"
  shows "\<exists>e \<in> set (escrow s). \<exists>x real. h = header e \<and> get_header (header e) = Some x
    \<and> presents_fake nc s e x \<and> pinned nc e host
    \<and> real_value (env nc) (parse_session nc) s e = Some real \<and> carries nc e real v"
  using substitute_entries_Replace assms unfolding substitute_def by blast

text \<open>
  No fake passes through unnoticed: a request is forwarded unchanged exactly when no entry finds
  its fake in its header and none is a host-owned Cline refresh. In every other case the request is
  rewritten or blocked.
\<close>

theorem substitute_none_iff:
  "substitute nc s host path get_header = SubNone \<longleftrightarrow>
     (\<forall>e \<in> set (escrow s). \<not> refresh_trap nc s e host path
        \<and> opt_all (\<lambda>x. \<not> presents_fake nc s e x) (get_header (header e)))"
  unfolding substitute_def by (rule substitute_entries_SubNone_iff)

section \<open>Invariant of the entry list\<close>

definition entries_wf :: "'p Settings \<Rightarrow> bool" where
  "entries_wf s \<longleftrightarrow> distinct (map entry_name (escrow s))"

lemma map_update_first:
  "(\<And>x. f (g x) = f x) \<Longrightarrow> map f (update_first P g xs) = map f xs"
  by (induction xs) auto

lemma add_entry_wf: "entries_wf s \<Longrightarrow> entries_wf (snd (add_entry w u s e))"
  by (auto simp: entries_wf_def add_entry_def Let_def list_ex_iff)

lemma update_entry_wf: "entries_wf s \<Longrightarrow> entries_wf (snd (update_entry w s n hs hdr pre g))"
  by (auto simp: entries_wf_def update_entry_def Let_def map_update_first split: option.splits)

lemma remove_entry_wf: "entries_wf s \<Longrightarrow> entries_wf (snd (remove_entry sv w s n))"
  by (auto simp: entries_wf_def remove_entry_def Let_def distinct_map_filter split: prod.splits sum.splits)

section \<open>Contract of a secret store\<close>

text \<open>
  What the settings rely on: a save that reports success is what the next load returns, and a save
  that reports an error leaves the store at the old snapshot or, when only the acknowledgement was
  lost, at the new one.
\<close>

locale secret_persistence =
  fixes save :: "'p saver" and stored :: "'p \<Rightarrow> secret_values option" and store_ok :: "'p \<Rightarrow> bool"
  assumes save_ok: "store_ok p \<Longrightarrow> save p vals = (True, p') \<Longrightarrow> stored p' = Some vals"
    and save_err: "store_ok p \<Longrightarrow> save p vals = (False, p') \<Longrightarrow> stored p' \<in> {stored p, Some vals}"
    and save_inv: "store_ok p \<Longrightarrow> save p vals = (ok, p') \<Longrightarrow> store_ok p'"
begin

lemma secrets_save_publishes_after_commit:
  assumes "store_ok (persistence sec)" and "secrets_save save sec vals = (r, sec')"
  shows "store_ok (persistence sec')"
    and "r = Inr () \<Longrightarrow> secret_map sec' = vals \<and> stored (persistence sec') = Some vals"
    and "r \<noteq> Inr () \<Longrightarrow> secret_map sec' = secret_map sec
           \<and> stored (persistence sec') \<in> {stored (persistence sec), Some vals}"
  using assms
  by (auto simp: secrets_save_def dest: save_ok save_err save_inv split: prod.splits if_splits)

lemma remove_entry_revokes:
  assumes "store_ok (persistence (secrets s))"
    and "remove_entry save written s name = (r, s')" and "r \<noteq> Inl Secret_save_failed"
  shows "secret s' name = None" "secret s' (session_secret_name name) = None"
    and "stored (persistence (secrets s')) = Some (secret_map (secrets s'))"
  using assms save_ok
  by (auto simp: remove_entry_def secrets_save_def secret_def Let_def delete_conv'
      split: prod.splits if_splits sum.splits)

lemma remove_entry_keeps_store:
  assumes "store_ok (persistence (secrets s))" and "remove_entry save written s name = (r, s')"
  shows "store_ok (persistence (secrets s'))"
  using assms save_inv
  by (auto simp: remove_entry_def secrets_save_def Let_def split: prod.splits if_splits sum.splits)

end

section \<open>Switching between static keys and Cline sessions\<close>

lemma session_secret_name_neq [simp]: "session_secret_name n \<noteq> n" "n \<noteq> session_secret_name n"
proof -
  have "length (session_secret_name n) \<noteq> length n" by (simp add: session_secret_name_def)
  then show "session_secret_name n \<noteq> n" "n \<noteq> session_secret_name n" by metis+
qed

lemma set_secret_secrets:
  assumes "set_secret save s name v = (Inr (), s')"
  shows "secret s' = (secret s)(name \<mapsto> v, session_secret_name name := None)"
  using assms
  by (auto simp: set_secret_def secrets_save_def secret_def fun_eq_iff delete_conv' update_conv'
      split: prod.splits if_splits)

lemma set_cline_session_secrets:
  assumes "set_cline_session save sj s name sess access = (Inr (), s')"
  shows "secret s' = (secret s)(session_secret_name name \<mapsto> sj sess, name \<mapsto> access)"
  using assms
  by (auto simp: set_cline_session_def secrets_save_def secret_def fun_eq_iff update_conv'
      split: prod.splits if_splits)

text \<open>
  Saving a static key retires the entry's Cline session in the same write: after a successful
  \<open>set_secret\<close> the entry's real value is that key, without the \<open>workos:\<close> prefix that belongs to
  sessions, and after a successful \<open>set_cline_session\<close> it is the access token, with the prefix
  exactly once.
\<close>

theorem static_key_replaces_session:
  assumes "entry_name e = name"
    and "set_secret save s name v = (Inr (), s1)"
    and "set_cline_session save session_json s name sess access = (Inr (), s2)"
    and "parse (session_json sess) = Some sess"
    and "\<not> starts_with ''workos:'' (to_ascii_lowercase access)"
  shows "real_value environ parse s1 e = Some v
    \<and> load_session parse s1 name = None
    \<and> real_value environ parse s2 e = Some (''workos:'' @ access)"
proof -
  have one: "secret s1 name = Some v" "secret s1 (session_secret_name name) = None"
    by (simp_all add: set_secret_secrets [OF assms(2)])
  have two: "secret s2 name = Some access" "secret s2 (session_secret_name name) = Some (session_json sess)"
    by (simp_all add: set_cline_session_secrets [OF assms(3)])
  show ?thesis
    using one two assms(1,4,5) by (simp add: real_value_def load_session_def)
qed

definition no_store_save :: "unit saver" where
  "no_store_save p vals = (True, p)"

theorem static_key_replaces_session_witness:
  "real_value (\<lambda>_. None) (\<lambda>t. if t = ''json'' then Some \<lparr>refresh_token = ''r'', expires_at = 9, api_base_url = ''u''\<rparr> else None)
     (snd (set_secret no_store_save
        \<lparr>escrow = [], secrets = \<lparr>secret_map = [], persistence = ()\<rparr>, escrow_file = None\<rparr> ''k'' ''sk-1''))
     \<lparr>entry_name = ''k'', entry_hosts = [], header = ''authorization'', prefix = ''Bearer '', fake = ''f'',
      real_env = None, guest_env = None\<rparr> = Some ''sk-1''"
proof -
  let ?sess = "\<lparr>refresh_token = ''r'', expires_at = 9, api_base_url = ''u''\<rparr>"
  let ?s = "\<lparr>escrow = [], secrets = \<lparr>secret_map = [], persistence = ()\<rparr>, escrow_file = None\<rparr>"
  let ?e = "\<lparr>entry_name = ''k'', entry_hosts = [], header = ''authorization'', prefix = ''Bearer '', fake = ''f'',
      real_env = None, guest_env = None\<rparr>"
  let ?s1 = "snd (set_secret no_store_save ?s ''k'' ''sk-1'')"
  let ?s2 = "snd (set_cline_session no_store_save (\<lambda>_. ''json'') ?s ''k'' ?sess ''tok'')"
  have 1: "set_secret no_store_save ?s ''k'' ''sk-1'' = (Inr (), ?s1)"
    by (simp add: set_secret_def secrets_save_def no_store_save_def)
  have 2: "set_cline_session no_store_save (\<lambda>_. ''json'') ?s ''k'' ?sess ''tok'' = (Inr (), ?s2)"
    by (simp add: set_cline_session_def secrets_save_def no_store_save_def)
  have 3: "\<not> starts_with ''workos:'' (to_ascii_lowercase ''tok'')" by code_simp
  show ?thesis
    using static_key_replaces_session [of ?e "''k''", OF _ 1 2 _ 3,
        of "\<lambda>t. if t = ''json'' then Some ?sess else None" "\<lambda>_. None"] by simp
qed

section \<open>Sample settings\<close>

definition sample_entry :: EscrowEntry where
  "sample_entry = \<lparr>entry_name = ''gh'', entry_hosts = [''api.github.com''], header = ''authorization'',
     prefix = ''Bearer '', fake = ''fz-gh'', real_env = None, guest_env = None\<rparr>"

definition sample_settings :: "unit Settings" where
  "sample_settings = \<lparr>escrow = [sample_entry],
     secrets = \<lparr>secret_map = [(''gh'', ''ghp-1'')], persistence = ()\<rparr>, escrow_file = None\<rparr>"

definition sample_nc :: net_code where
  "sample_nc = \<lparr>url_parse = sample_url_parse, b64_decode = (\<lambda>_. None), b64_encode = (\<lambda>s. s),
     parse_session = (\<lambda>_. None), env = (\<lambda>_. None)\<rparr>"

definition sample_headers :: "string \<Rightarrow> string option" where
  "sample_headers h = (if h = ''authorization'' then Some ''Bearer fz-gh'' else None)"

lemma sample_substituted:
  "substitute sample_nc sample_settings ''api.github.com'' ''/graphql'' sample_headers
     = Replace ''authorization'' ''Bearer ghp-1''"
  by code_simp

theorem substitute_only_to_pinned_witness:
  "\<exists>e \<in> set (escrow sample_settings). \<exists>x real. ''authorization'' = header e \<and> sample_headers (header e) = Some x
    \<and> presents_fake sample_nc sample_settings e x \<and> pinned sample_nc e ''api.github.com''
    \<and> real_value (env sample_nc) (parse_session sample_nc) sample_settings e = Some real
    \<and> carries sample_nc e real ''Bearer ghp-1''"
  by (rule substitute_only_to_pinned [OF sample_substituted])

theorem substitute_none_iff_witness:
  "substitute sample_nc sample_settings ''example.com'' ''/'' (\<lambda>_. None) = SubNone"
proof -
  have "\<not> refresh_trap sample_nc sample_settings sample_entry ''example.com'' ''/''" by code_simp
  then show ?thesis
    using substitute_none_iff [of sample_nc sample_settings "''example.com''" "''/''" "\<lambda>_. None"]
    by (simp add: sample_settings_def)
qed

end
