(* ===== verification/Policy.thy ===== *)
theory Policy
  imports Settings
begin

text \<open>
  \<open>policy.rs\<close>: read/write classification of requests and the per-guest gate on Cline's API. A request
  is the record of what the code observes of \<open>hyper::Request\<close>: the method text, the accessors of the
  URI, and the header list (lower-case names, one pair per value; a value has its bytes and the
  result of \<open>HeaderValue::to_str\<close>).
\<close>

section \<open>Requests\<close>

record header_value =
  hv_bytes :: string
  hv_str :: "string option"

record Uri =
  uri_text :: string
  scheme_str :: "string option"
  uri_host :: "string option"
  port_u16 :: "nat option"
  path :: string
  query :: "string option"

record Request =
  req_method :: string
  uri :: Uri
  headers :: "(string \<times> header_value) list"

definition get_header :: "Request \<Rightarrow> string \<Rightarrow> header_value option" where
  "get_header req name = map_of (headers req) name"

definition get_header_str :: "Request \<Rightarrow> string \<Rightarrow> string option" where
  "get_header_str req name = (case get_header req name of None \<Rightarrow> None | Some v \<Rightarrow> hv_str v)"

section \<open>Classification\<close>

datatype Access = Read | Write

datatype Decision = Unpoliced | AllowRead | AllowAll | RequireReview

datatype GithubPolicy = PolicyReview | PolicyAllowAll

definition allows_all :: "GithubPolicy \<Rightarrow> bool" where
  "allows_all p \<longleftrightarrow> p = PolicyAllowAll"

definition GITHUB_HOSTS :: "string list" where
  "GITHUB_HOSTS = [''github.com'', ''api.github.com'', ''codeload.github.com'',
     ''raw.githubusercontent.com'', ''objects.githubusercontent.com'', ''uploads.github.com'']"

definition github_access :: "Request \<Rightarrow> Access" where
  "github_access req =
     (if req_method req \<in> set [''GET'', ''HEAD'', ''OPTIONS''] then Read
      else if req_method req = ''POST'' \<and> ends_with ''/git-upload-pack'' (path (uri req)) then Read
      else Write)"

definition classify :: "url_parser \<Rightarrow> Request \<Rightarrow> GithubPolicy \<Rightarrow> Decision" where
  "classify up req github_policy =
     (if req_method req = ''CONNECT'' then Unpoliced
      else case uri_host (uri req) of
          None \<Rightarrow> Unpoliced
        | Some host \<Rightarrow>
            if host_matches up host ''api.linear.app'' then
              (if req_method req \<in> set [''GET'', ''HEAD'', ''OPTIONS''] then AllowRead else RequireReview)
            else if \<not> list_ex (\<lambda>github. host_matches up host github) GITHUB_HOSTS then Unpoliced
            else if allows_all github_policy then AllowAll
            else case github_access req of Read \<Rightarrow> AllowRead | Write \<Rightarrow> RequireReview)"

definition policy_note :: "Decision \<Rightarrow> string option" where
  "policy_note d = (case d of
       RequireReview \<Rightarrow>
         Some ''friendzone: this write requires review; this request format is not reviewable''
     | _ \<Rightarrow> None)"

section \<open>The Cline gate\<close>

datatype ClineAccess = Basic | Full

datatype ClineVerdict = Allow | Deny string | Synthetic string

definition is_api_key_management :: "string \<Rightarrow> bool" where
  "is_api_key_management p \<longleftrightarrow>
     p = ''/api/v1/api-keys'' \<or> p = ''/api/v1/api-keys/'' \<or> starts_with ''/api/v1/api-keys/'' p
     \<or> (starts_with ''/api/v1/organizations/'' p
         \<and> (let rest = drop (length ''/api/v1/organizations/'') p
            in case split_once CHR ''/'' rest of
                 Some (_, tail) \<Rightarrow> tail = ''api-keys'' \<or> starts_with ''api-keys/'' tail
               | None \<Rightarrow> False))"

definition users_allows :: "bool \<Rightarrow> string \<Rightarrow> bool" where
  "users_allows read rest =
     (read \<and> (case split_once CHR ''/'' rest of
          Some (ident, tail) \<Rightarrow> tail \<in> set [''balance'', ''usages'', ''payments'']
            \<and> ident \<noteq> [] \<and> ident \<noteq> ''me''
        | None \<Rightarrow> False))"

definition organizations_allows :: "bool \<Rightarrow> string \<Rightarrow> bool" where
  "organizations_allows read rest =
     (case split_once CHR ''/'' rest of
        None \<Rightarrow> read \<and> rest \<noteq> []
      | Some (ident, tail) \<Rightarrow>
          if ident = [] then False
          else if tail = ''balance'' then read
          else case strip_prefix ''members/'' tail of
              Some member_rest \<Rightarrow> read \<and> (case split_once CHR ''/'' member_rest of
                  Some (member, suffix) \<Rightarrow> suffix = ''usages'' \<and> member \<noteq> []
                | None \<Rightarrow> False)
            | None \<Rightarrow> False)"

definition basic_allows :: "string \<Rightarrow> string \<Rightarrow> bool" where
  "basic_allows m p =
     (let read = (m \<in> set [''GET'', ''HEAD'', ''OPTIONS''])
      in if p = ''/'' then m = ''HEAD''
         else if p = ''/banners/v2/messages'' \<or> p = ''/api/v1/users/me/remote-config'' then m = ''GET''
         else if p = ''/api/v1/chat/completions'' \<or> p = ''/api/v1/images'' then m = ''POST''
         else if p = ''/api/v1/search/websearch'' \<or> p = ''/api/v1/search/webfetch'' then m = ''POST''
         else if p = ''/api/v1/ai/cline/recommended-models'' then read
         else if p = ''/api/v1/users/me'' \<or> p = ''/api/v1/users/me/plan'' then read
         else if p = ''/api/v1/users/active-account'' then m = ''PUT''
         else case strip_prefix ''/api/v1/users/'' p of
             Some rest \<Rightarrow> users_allows read rest
           | None \<Rightarrow> (case strip_prefix ''/api/v1/organizations/'' p of
                 Some rest \<Rightarrow> organizations_allows read rest
               | None \<Rightarrow> False))"

definition KEY_DENIAL :: string where
  "KEY_DENIAL = ''friendzone: Cline API key management is never available to guests''"

definition UPGRADE_DENIAL :: string where
  "UPGRADE_DENIAL = ''friendzone: Cline cloud-session connections are not allowed for this guest (basic Cline access)''"

definition BASIC_DENIAL :: string where
  "BASIC_DENIAL = ''friendzone: this Cline API operation is not allowed for this guest (basic Cline access: inference and account basics only)''"

definition EMPTY_SESSIONS :: string where
  "EMPTY_SESSIONS = ''{'' @ [ch 34] @ ''success'' @ [ch 34] @ '':true,'' @ [ch 34] @ ''data'' @ [ch 34] @ '':[]}''"

definition cline_verdict :: "url_parser \<Rightarrow> Request \<Rightarrow> ClineAccess \<Rightarrow> (string \<Rightarrow> bool) \<Rightarrow> ClineVerdict" where
  "cline_verdict up req access is_cline_host =
     (if req_method req = ''CONNECT'' then Allow
      else case uri_host (uri req) of
          None \<Rightarrow> Allow
        | Some host \<Rightarrow>
            if \<not> host_matches up host CLINE_API_HOST \<and> \<not> is_cline_host host then Allow
            else if is_api_key_management (path (uri req)) then Deny KEY_DENIAL
            else if access = Full then Allow
            else if opt_any (\<lambda>v. eq_ignore_ascii_case v ''websocket'') (get_header_str req ''upgrade'')
            then Deny UPGRADE_DENIAL
            else if path (uri req) \<in> set [''/api/v1/session'', ''/api/v1/session/'']
                    \<and> req_method req \<in> set [''GET'', ''HEAD'']
            then Synthetic EMPTY_SESSIONS
            else if basic_allows (req_method req) (path (uri req)) then Allow
            else Deny BASIC_DENIAL)"

section \<open>What the gate lets through\<close>

definition safe_method :: "string \<Rightarrow> bool" where
  "safe_method m \<longleftrightarrow> m = ''GET'' \<or> m = ''HEAD'' \<or> m = ''OPTIONS''"

text \<open>
  GitHub classification. On a GitHub host under the review policy a request that is not a CONNECT
  is either a read that flows (a safe method, or a POST to \<open>git-upload-pack\<close>) or requires review;
  nothing is left unpoliced and nothing is allowed wholesale.
\<close>

theorem classify_github_review:
  assumes "req_method req \<noteq> ''CONNECT''" and "uri_host (uri req) = Some host"
    and "g \<in> set GITHUB_HOSTS" and "host_matches up host g"
    and "\<not> host_matches up host ''api.linear.app''"
  shows "classify up req PolicyReview =
     (if safe_method (req_method req)
         \<or> (req_method req = ''POST'' \<and> (\<exists>repo. path (uri req) = repo @ ''/git-upload-pack''))
      then AllowRead else RequireReview)"
proof -
  have "list_ex (\<lambda>github. host_matches up host github) GITHUB_HOSTS"
    using assms(3,4) by (auto simp: list_ex_iff)
  then show ?thesis
    using assms(1,2,5)
    by (auto simp: classify_def allows_all_def github_access_def safe_method_def ends_with_iff)
qed

definition sample_post :: "string \<Rightarrow> string \<Rightarrow> Request" where
  "sample_post host p =
     \<lparr>req_method = ''POST'',
      uri = \<lparr>uri_text = ''https://'' @ host @ p, scheme_str = Some ''https'', uri_host = Some host,
             port_u16 = None, path = p, query = None\<rparr>,
      headers = []\<rparr>"

theorem classify_github_review_witness:
  "classify sample_url_parse (sample_post ''github.com'' ''/o/r.git/git-receive-pack'') PolicyReview
     = RequireReview"
proof -
  let ?req = "sample_post ''github.com'' ''/o/r.git/git-receive-pack''"
  have "classify sample_url_parse ?req PolicyReview =
     (if safe_method (req_method ?req)
         \<or> (req_method ?req = ''POST'' \<and> (\<exists>repo. path (uri ?req) = repo @ ''/git-upload-pack''))
      then AllowRead else RequireReview)"
  proof (rule classify_github_review [of ?req "''github.com''" "''github.com''"])
    show "host_matches sample_url_parse ''github.com'' ''github.com''"
      "\<not> host_matches sample_url_parse ''github.com'' ''api.linear.app''" by code_simp+
  qed (simp_all add: sample_post_def GITHUB_HOSTS_def)
  moreover have "\<not> ends_with ''/git-upload-pack'' (path (uri ?req))" by code_simp
  ultimately show ?thesis
    by (simp add: sample_post_def safe_method_def ends_with_iff)
qed

lemma api_key_path_iff:
  "is_api_key_management p \<longleftrightarrow>
     p = ''/api/v1/api-keys'' \<or> starts_with ''/api/v1/api-keys/'' p
     \<or> (\<exists>org tail. p = ''/api/v1/organizations/'' @ org @ CHR ''/'' # tail \<and> CHR ''/'' \<notin> set org
          \<and> (tail = ''api-keys'' \<or> starts_with ''api-keys/'' tail))"
proof -
  have "p = ''/api/v1/api-keys/'' \<Longrightarrow> starts_with ''/api/v1/api-keys/'' p"
    using starts_with_self [of "''/api/v1/api-keys/''" "[]"] by simp
  then show ?thesis
    unfolding is_api_key_management_def Let_def starts_with_split_once_iff by argo
qed

lemma organizations_never_keys:
  assumes "CHR ''/'' \<notin> set org" and "tail = ''api-keys'' \<or> starts_with ''api-keys/'' tail"
  shows "\<not> organizations_allows read (org @ CHR ''/'' # tail)"
  using assms by (auto simp: organizations_allows_def split_once_append starts_with_iff)

lemma basic_allows_paths:
  "basic_allows m (''/api/v1/organizations/'' @ rest) =
     organizations_allows (m \<in> set [''GET'', ''HEAD'', ''OPTIONS'']) rest"
  "\<not> basic_allows m (''/api/v1/api-keys/'' @ rest)"
  "\<not> basic_allows m ''/api/v1/api-keys''"
  "\<not> basic_allows m ''/api/v1/session''"
  "\<not> basic_allows m ''/api/v1/session/''"
  by (simp_all add: basic_allows_def Let_def)

lemma basic_allows_not_keys:
  assumes "is_api_key_management p"
  shows "\<not> basic_allows m p"
proof -
  from assms consider "p = ''/api/v1/api-keys''" | r where "p = ''/api/v1/api-keys/'' @ r"
    | org tail where "p = ''/api/v1/organizations/'' @ org @ CHR ''/'' # tail" "CHR ''/'' \<notin> set org"
        "tail = ''api-keys'' \<or> starts_with ''api-keys/'' tail"
    unfolding api_key_path_iff starts_with_iff [of "''/api/v1/api-keys/''"] by metis
  then show ?thesis
    by cases (simp_all only: basic_allows_paths organizations_never_keys not_False_eq_True)
qed

text \<open>The mutating requests of the basic allowlist.\<close>

definition BASIC_WRITES :: "(string \<times> string) list" where
  "BASIC_WRITES = [(''POST'', ''/api/v1/chat/completions''), (''POST'', ''/api/v1/images''),
     (''POST'', ''/api/v1/search/websearch''), (''POST'', ''/api/v1/search/webfetch''),
     (''PUT'', ''/api/v1/users/active-account'')]"

lemma unread_account_paths:
  "\<not> users_allows False rest" "\<not> organizations_allows False rest"
  by (auto simp: users_allows_def organizations_allows_def split: option.splits)

lemma basic_allows_writes:
  assumes "basic_allows m p" and "\<not> safe_method m"
  shows "(m, p) \<in> set BASIC_WRITES"
proof -
  have read: "m \<in> set [''GET'', ''HEAD'', ''OPTIONS''] \<longleftrightarrow> False"
    using assms(2) by (simp add: safe_method_def)
  have "m \<noteq> ''HEAD''" "m \<noteq> ''GET''"
    using assms(2) by (simp_all add: safe_method_def)
  then show ?thesis
    using assms(1) unfolding basic_allows_def Let_def read BASIC_WRITES_def
    by (auto simp: unread_account_paths split: if_split_asm option.split_asm)
qed

text \<open>
  C32. The Cline gate. A request that the gate allows toward a governed host (Cline's API, or any host
  the broker would send the Cline account token to) is never API key management, in either mode; and
  under basic access it is not a WebSocket upgrade and not a session call, and it writes only through
  one of the five inference, search and account-switching endpoints. The allowlist itself excludes key
  management and sessions, so the result does not depend on the order of the gate's tests.
\<close>

theorem cline_gate_sound:
  assumes "cline_verdict up req access is_cline_host = Allow"
    and "req_method req \<noteq> ''CONNECT''" and "uri_host (uri req) = Some host"
    and "host_matches up host CLINE_API_HOST \<or> is_cline_host host"
  shows "\<not> is_api_key_management (path (uri req))
    \<and> (access = Basic \<longrightarrow>
         \<not> opt_any (\<lambda>v. eq_ignore_ascii_case v ''websocket'') (get_header_str req ''upgrade'')
         \<and> path (uri req) \<notin> set [''/api/v1/session'', ''/api/v1/session/'']
         \<and> (safe_method (req_method req) \<or> (req_method req, path (uri req)) \<in> set BASIC_WRITES))"
proof -
  have governed: "\<not> (\<not> host_matches up host CLINE_API_HOST \<and> \<not> is_cline_host host)"
    using assms(4) by simp
  have keys: "\<not> is_api_key_management (path (uri req))"
    using assms(1-3) governed by (auto simp: cline_verdict_def)
  have basic: "\<not> opt_any (\<lambda>v. eq_ignore_ascii_case v ''websocket'') (get_header_str req ''upgrade'')
      \<and> basic_allows (req_method req) (path (uri req))" if "access = Basic"
    using assms(1-3) governed keys that by (auto simp: cline_verdict_def split: if_splits)
  show ?thesis
    using keys basic basic_allows_writes basic_allows_paths(4,5) by (metis empty_iff empty_set set_ConsD)
qed

theorem cline_gate_sound_witness:
  "\<not> is_api_key_management ''/api/v1/chat/completions''
   \<and> (''POST'', ''/api/v1/chat/completions'') \<in> set BASIC_WRITES"
proof -
  let ?req = "sample_post ''api.cline.bot'' ''/api/v1/chat/completions''"
  have 1: "cline_verdict sample_url_parse ?req Basic (\<lambda>_. False) = Allow" by code_simp
  have 2: "host_matches sample_url_parse ''api.cline.bot'' CLINE_API_HOST" by code_simp
  show ?thesis
    using cline_gate_sound [OF 1, of "''api.cline.bot''"] 2 by (simp add: sample_post_def safe_method_def)
qed

end
