(* ===== verification/Json.thy ===== *)
theory Json
  imports Prelude
begin

text \<open>
  JSON values as \<open>serde_json\<close> gives them to the program: an object is the list of its members, in key
  order for a \<open>serde_json::Map\<close> and in text order, duplicates included, for the stream of entries the
  deserializer hands to \<open>UniqueJson\<close>. \<open>JInt\<close> is a number for which \<open>is_i64\<close> or \<open>is_u64\<close> holds, \<open>JFloat\<close>
  any other number, by its text.
\<close>

datatype Json =
    JNull
  | JBool bool
  | JInt int
  | JFloat string
  | JString string
  | JArray "Json list"
  | JObject "(string \<times> Json) list"

definition as_str :: "Json \<Rightarrow> string option" where
  "as_str j = (case j of JString s \<Rightarrow> Some s | _ \<Rightarrow> None)"

definition as_bool :: "Json \<Rightarrow> bool option" where
  "as_bool j = (case j of JBool b \<Rightarrow> Some b | _ \<Rightarrow> None)"

definition as_u64 :: "Json \<Rightarrow> nat option" where
  "as_u64 j = (case j of JInt i \<Rightarrow> if 0 \<le> i \<and> i < 2 ^ 64 then Some (nat i) else None | _ \<Rightarrow> None)"

definition as_object :: "Json \<Rightarrow> (string, Json) alist option" where
  "as_object j = (case j of JObject m \<Rightarrow> Some m | _ \<Rightarrow> None)"

definition as_array :: "Json \<Rightarrow> Json list option" where
  "as_array j = (case j of JArray xs \<Rightarrow> Some xs | _ \<Rightarrow> None)"

text \<open>\<open>value.get(key)\<close>, and \<open>value[key]\<close>, which reads a missing member as null.\<close>

definition json_get :: "string \<Rightarrow> Json \<Rightarrow> Json option" where
  "json_get k j = (case j of JObject m \<Rightarrow> map_of m k | _ \<Rightarrow> None)"

definition json_index :: "Json \<Rightarrow> string \<Rightarrow> Json" where
  "json_index j k = (case json_get k j of None \<Rightarrow> JNull | Some v \<Rightarrow> v)"

lemma json_accessor_simps [simp]:
  "as_str j = Some s \<longleftrightarrow> j = JString s"
  "as_bool j = Some b \<longleftrightarrow> j = JBool b"
  "as_object j = Some m \<longleftrightarrow> j = JObject m"
  "as_array j = Some xs \<longleftrightarrow> j = JArray xs"
  by (auto simp: as_str_def as_bool_def as_object_def as_array_def split: Json.splits)

section \<open>Objects with unique keys\<close>

text \<open>
  The \<open>UniqueJson\<close> visitor of \<open>graphql.rs\<close> over the entries the deserializer reports: nested values
  first, then the insertion that must not replace an entry.
\<close>

fun unique_json :: "Json \<Rightarrow> Json option"
  and unique_list :: "Json list \<Rightarrow> Json list option"
  and unique_members :: "(string \<times> Json) list \<Rightarrow> (string, Json) alist \<Rightarrow> (string, Json) alist option" where
  "unique_json (JArray xs) = map_option JArray (unique_list xs)"
| "unique_json (JObject m) = map_option JObject (unique_members m [])"
| "unique_json j = Some j"
| "unique_list [] = Some []"
| "unique_list (x # xs) =
     (case unique_json x of None \<Rightarrow> None | Some y \<Rightarrow> map_option (Cons y) (unique_list xs))"
| "unique_members [] acc = Some acc"
| "unique_members ((k, v) # m) acc =
     (case unique_json v of
        None \<Rightarrow> None
      | Some w \<Rightarrow> if contains_key k acc then None else unique_members m (btree_insert k w acc))"

fun unambiguous :: "Json \<Rightarrow> bool"
  and unambiguous_list :: "Json list \<Rightarrow> bool"
  and unambiguous_members :: "(string \<times> Json) list \<Rightarrow> bool" where
  "unambiguous (JArray xs) = unambiguous_list xs"
| "unambiguous (JObject m) = (distinct (map fst m) \<and> unambiguous_members m)"
| "unambiguous j = True"
| "unambiguous_list [] = True"
| "unambiguous_list (x # xs) = (unambiguous x \<and> unambiguous_list xs)"
| "unambiguous_members [] = True"
| "unambiguous_members ((k, v) # m) = (unambiguous v \<and> unambiguous_members m)"

lemma unique_json_defined:
  "unique_json j = None \<longleftrightarrow> \<not> unambiguous j"
  "unique_list xs = None \<longleftrightarrow> \<not> unambiguous_list xs"
  "unique_members m acc = None \<longleftrightarrow>
     \<not> (distinct (map fst m) \<and> fst ` set m \<inter> fst ` set acc = {} \<and> unambiguous_members m)"
  by (induction j and xs and m acc rule: unique_json_unique_list_unique_members.induct)
    (auto simp: map_of_eq_None_iff split: option.splits)

lemma unique_members_btree: "unique_members m acc = Some acc' \<Longrightarrow> btree acc \<Longrightarrow> btree acc'"
  by (induction m arbitrary: acc) (auto split: option.splits if_splits)

end
