(* ===== verification/History.thy ===== *)
theory History
  imports Prelude
begin

text \<open>
  Bounded histories. Three parts of the broker keep the newest entries of a stream in a
  \<open>VecDeque\<close>: the request log (\<open>state.rs\<close>), the recent reviews (\<open>review.rs\<close>) and the display cache
  (\<open>github.rs\<close>). Each pushes at the back and pops at the front, but each in its own way; the locale
  states the contract they share and derives what a reader of the history may rely on.
\<close>

section \<open>Popping from the front\<close>

text \<open>\<open>while q.len() > n { q.pop_front(); }\<close>\<close>

fun pop_front_while_longer :: "nat \<Rightarrow> 'a list \<Rightarrow> 'a list" where
  "pop_front_while_longer n [] = []"
| "pop_front_while_longer n (x # xs) =
     (if n < length (x # xs) then pop_front_while_longer n xs else x # xs)"

lemma pop_front_while_longer_eq: "pop_front_while_longer n xs = drop (length xs - n) xs"
proof (induction xs)
  case (Cons x xs)
  show ?case
  proof (cases "n < length (x # xs)")
    case True
    then have "length (x # xs) - n = Suc (length xs - n)" by simp
    with True Cons.IH show ?thesis by simp
  qed simp
qed simp

lemma length_pop_front_while_longer: "length (pop_front_while_longer n xs) = min n (length xs)"
  by (simp add: pop_front_while_longer_eq)

section \<open>The contract\<close>

locale bounded_history =
  fixes push :: "'a \<Rightarrow> 'a list \<Rightarrow> 'a list" and cap :: nat
  assumes cap_pos: "0 < cap"
    and push_keeps_newest: "length xs \<le> cap \<Longrightarrow> push x xs = drop (Suc (length xs) - cap) (xs @ [x])"
begin

lemma push_bounded: "length xs \<le> cap \<Longrightarrow> length (push x xs) \<le> cap"
  by (simp add: push_keeps_newest)

lemma push_last: "length xs \<le> cap \<Longrightarrow> last (push x xs) = x"
  using cap_pos by (simp add: push_keeps_newest last_drop)

lemma push_set: "length xs \<le> cap \<Longrightarrow> set (push x xs) \<subseteq> insert x (set xs)"
  using set_drop_subset [of "Suc (length xs) - cap" "xs @ [x]"] by (auto simp: push_keeps_newest)

lemma push_below_cap: "length xs < cap \<Longrightarrow> push x xs = xs @ [x]"
  by (simp add: push_keeps_newest)

lemma push_at_cap: "length xs = cap \<Longrightarrow> push x xs = tl xs @ [x]"
  using cap_pos by (cases xs) (simp_all add: push_keeps_newest)

lemma push_sorted_wrt:
  "length xs \<le> cap \<Longrightarrow> sorted_wrt P (xs @ [x]) \<Longrightarrow> sorted_wrt P (push x xs)"
  by (simp add: push_keeps_newest sorted_wrt_drop del: drop_append)

lemma stream_keeps_newest: "fold push ys [] = drop (length ys - cap) ys"
proof (induction ys rule: rev_induct)
  case (snoc y ys)
  have "length (drop (length ys - cap) ys) \<le> cap" by simp
  with snoc have "fold push (ys @ [y]) [] =
      drop (Suc (length (drop (length ys - cap) ys)) - cap) (drop (length ys - cap) ys @ [y])"
    by (simp add: push_keeps_newest del: drop_append)
  also have "\<dots> = drop (Suc (length ys) - cap) (ys @ [y])"
    by (cases "length ys \<le> cap") (auto simp: Suc_diff_le)
  finally show ?case by simp
qed simp

end

end
