(* ===== verification/Github.thy ===== *)
theory Github
  imports Policy Json History
begin

text \<open>
  \<open>github.rs\<close>: which requests may use GitHub's query contract, the credential binding of comment
  permissions, validation of targets, the fixed lookups and the display cache. Parameters stand for
  code of other packages: \<open>sha256_hex\<close> (the hex digest of bytes), \<open>header_ok\<close> (the parse of a
  \<open>HeaderValue\<close>), \<open>uri_eq\<close> (equality of a \<open>Uri\<close> with a text), \<open>from_slice\<close> (\<open>serde_json\<close>). What the
  network returned is an argument of the lookups. Times are milliseconds of the monotonic clock.
\<close>

section \<open>Admissible transport\<close>

definition ENDPOINT :: string where
  "ENDPOINT = ''https://api.github.com/graphql''"

definition READ_HEADERS :: "string list" where
  "READ_HEADERS = [''authorization'', ''content-type'', ''content-length'', ''transfer-encoding'', ''host'',
     ''user-agent'', ''accept'', ''accept-encoding'', ''connection'', ''x-github-next-global-id'',
     ''x-github-api-version'', ''time-zone'', ''cache-control'', ''graphql-features'']"

definition COMMENT_HEADERS :: "string list" where
  "COMMENT_HEADERS = [''authorization'', ''content-type'', ''content-length'', ''transfer-encoding'', ''host'',
     ''user-agent'', ''accept'', ''accept-encoding'', ''connection'']"

text \<open>The loop over \<open>request.headers()\<close>: each name new and in the list.\<close>

fun headers_allowed :: "string list \<Rightarrow> string list \<Rightarrow> string list \<Rightarrow> bool" where
  "headers_allowed allowed seen [] = True"
| "headers_allowed allowed seen (n # ns) =
     (if n \<in> set seen \<or> n \<notin> set allowed then False else headers_allowed allowed (n # seen) ns)"

definition read_content_type :: "string \<Rightarrow> bool" where
  "read_content_type v =
     (case map str_trim (split_on CHR '';'' v) of
        [] \<Rightarrow> False
      | media # parts \<Rightarrow>
          (eq_ignore_ascii_case media ''application/json'' \<or> eq_ignore_ascii_case media ''application/graphql'')
          \<and> list_all (\<lambda>p. eq_ignore_ascii_case p ''charset=utf-8''
                \<or> eq_ignore_ascii_case p (''charset='' @ [ch 34] @ ''utf-8'' @ [ch 34])) parts)"

definition read_transport :: "Request \<Rightarrow> bool" where
  "read_transport req \<longleftrightarrow>
     req_method req = ''POST'' \<and> scheme_str (uri req) = Some ''https''
     \<and> opt_any (\<lambda>h. eq_ignore_ascii_case h ''api.github.com'') (uri_host (uri req))
     \<and> \<not> opt_any (\<lambda>p. p \<noteq> 443) (port_u16 (uri req))
     \<and> path (uri req) = ''/graphql'' \<and> query (uri req) = None
     \<and> headers_allowed READ_HEADERS [] (map fst (headers req))
     \<and> \<not> opt_any (\<lambda>v. hv_bytes v \<noteq> ''merge_queue'') (get_header req ''graphql-features'')
     \<and> \<not> opt_any (\<lambda>v. \<not> opt_any (\<lambda>h. eq_ignore_ascii_case h ''api.github.com''
            \<or> eq_ignore_ascii_case h ''api.github.com:443'') (hv_str v)) (get_header req ''host'')
     \<and> \<not> opt_any (\<lambda>v. \<not> opt_any (\<lambda>s. eq_ignore_ascii_case s ''keep-alive''
            \<or> eq_ignore_ascii_case s ''close'') (hv_str v)) (get_header req ''connection'')
     \<and> opt_any read_content_type (get_header_str req ''content-type'')"

section \<open>Credentials\<close>

record Binding =
  binding_entry :: string
  binding_digest :: string

record Credential =
  credential_binding :: Binding
  credential_header :: string

record crypto_code =
  sha256_hex :: "string \<Rightarrow> string"
  header_ok :: "string \<Rightarrow> bool"

text \<open>\<open>(value.len() as u64).to_be_bytes()\<close> followed by the value.\<close>

definition be_bytes :: "nat \<Rightarrow> string" where
  "be_bytes n = map (\<lambda>i. ch (n div 256 ^ i mod 256)) (rev [0..<8])"

definition digest_frame :: "string \<Rightarrow> string" where
  "digest_frame v = be_bytes (length v) @ v"

definition digest_input :: "EscrowEntry \<Rightarrow> string \<Rightarrow> string" where
  "digest_input e real = concat (map digest_frame [entry_name e, fake e, header e, prefix e, real])"

definition from_entry :: "net_code \<Rightarrow> crypto_code \<Rightarrow> 'p Settings \<Rightarrow> EscrowEntry \<Rightarrow> Credential option" where
  "from_entry nc cc s e =
     (if \<not> list_ex (\<lambda>h. host_matches (url_parse nc) h ''api.github.com'') (entry_hosts e)
         \<or> header e \<noteq> ''authorization'' \<or> prefix e \<noteq> ''Bearer ''
      then None
      else case real_value (env nc) (parse_session nc) s e of
          None \<Rightarrow> None
        | Some real \<Rightarrow>
            if \<not> header_ok cc (''Bearer '' @ real) then None
            else Some \<lparr>credential_binding = \<lparr>binding_entry = entry_name e, binding_digest = sha256_hex cc (digest_input e real)\<rparr>,
                       credential_header = ''Bearer '' @ real\<rparr>)"

definition current :: "net_code \<Rightarrow> crypto_code \<Rightarrow> 'p Settings \<Rightarrow> Binding \<Rightarrow> Credential option" where
  "current nc cc s b =
     (case find (\<lambda>e. entry_name e = binding_entry b) (escrow s) of
        None \<Rightarrow> None
      | Some e \<Rightarrow> (case from_entry nc cc s e of
            None \<Rightarrow> None
          | Some c \<Rightarrow> if credential_binding c = b then Some c else None))"

definition display_credential :: "net_code \<Rightarrow> crypto_code \<Rightarrow> 'p Settings \<Rightarrow> Request \<Rightarrow> Credential option" where
  "display_credential nc cc s req =
     (if \<not> read_transport req then None
      else case get_header_str req ''authorization'' of
          None \<Rightarrow> None
        | Some presented \<Rightarrow>
            (case filter (\<lambda>e. header e = ''authorization''
                      \<and> (presented = prefix e @ fake e \<or> presented = fake e
                         \<or> github_token_matches (url_parse nc) e presented)) (escrow s) of
               [e] \<Rightarrow> from_entry nc cc s e
             | _ \<Rightarrow> None))"

definition comment_content_type :: "string \<Rightarrow> bool" where
  "comment_content_type v \<longleftrightarrow> to_ascii_lowercase v \<in>
     set [''application/json'', ''application/json; charset=utf-8'', ''application/graphql'']"

definition comment_credential :: "net_code \<Rightarrow> crypto_code \<Rightarrow> (Uri \<Rightarrow> string \<Rightarrow> bool) \<Rightarrow> 'p Settings \<Rightarrow> Request
    \<Rightarrow> Credential option" where
  "comment_credential nc cc uri_eq s req =
     (if req_method req \<noteq> ''POST'' \<or> \<not> uri_eq (uri req) ENDPOINT then None
      else if \<not> headers_allowed COMMENT_HEADERS [] (map fst (headers req)) then None
      else if opt_any (\<lambda>v. hv_bytes v \<noteq> ''api.github.com'' \<and> hv_bytes v \<noteq> ''api.github.com:443'')
                (get_header req ''host'') then None
      else case get_header_str req ''content-type'' of
          None \<Rightarrow> None
        | Some ct \<Rightarrow>
            if \<not> comment_content_type ct then None
            else case get_header_str req ''authorization'' of
                None \<Rightarrow> None
              | Some presented \<Rightarrow>
                  (case filter (\<lambda>e. header e = ''authorization'' \<and> presented = prefix e @ fake e) (escrow s) of
                     [e] \<Rightarrow> from_entry nc cc s e
                   | _ \<Rightarrow> None))"

section \<open>Targets and grants\<close>

record Target =
  target_node_id :: string
  target_repository_id :: string
  target_repository :: string
  target_kind :: string
  target_number :: nat
  target_title :: string
  target_url :: string

definition same_identity :: "Target \<Rightarrow> Target \<Rightarrow> bool" where
  "same_identity a b \<longleftrightarrow>
     target_node_id a = target_node_id b \<and> target_repository_id a = target_repository_id b
     \<and> target_repository a = target_repository b \<and> target_kind a = target_kind b
     \<and> target_number a = target_number b \<and> target_url a = target_url b"

definition repository_char :: "char \<Rightarrow> bool" where
  "repository_char c \<longleftrightarrow> is_ascii_alphanumeric c \<or> c \<in> set ''-_.''"

definition repository_part :: "string \<Rightarrow> bool" where
  "repository_part p \<longleftrightarrow> \<not> (p = [] \<or> p = ''.'' \<or> p = ''..'' \<or> \<not> list_all repository_char p)"

definition validate_repository :: "string \<Rightarrow> string + unit" where
  "validate_repository r =
     (let parts = split_on CHR ''/'' r in
      if length parts \<noteq> 2 \<or> \<not> list_all repository_part parts
      then Inl ''invalid GitHub repository identity'' else Inr ())"

definition validate_target :: "Target \<Rightarrow> string + unit" where
  "validate_target t =
     (if target_node_id t = [] \<or> 512 < length (target_node_id t)
         \<or> target_repository_id t = [] \<or> 512 < length (target_repository_id t)
         \<or> target_number t = 0 \<or> 4096 < length (target_title t)
      then Inl ''invalid GitHub target metadata''
      else bind_res (validate_repository (target_repository t)) (\<lambda>_.
        bind_res (if target_kind t = ''Issue'' then Inr ''issues''
                  else if target_kind t = ''PullRequest'' then Inr ''pull''
                  else Inl ''target is not an issue or pull request'') (\<lambda>segment.
          if target_url t \<noteq> ''https://github.com/'' @ target_repository t @ ''/'' @ segment @ ''/''
                @ show_base 10 (target_number t)
          then Inl ''GitHub target URL does not match its repository and number''
          else Inr ())))"

record Grant =
  grant_id :: uuid
  grant_target :: Target
  grant_binding :: Binding
  created_at :: instant

definition validate_grant :: "Grant \<Rightarrow> string + unit" where
  "validate_grant g =
     bind_res (validate_target (grant_target g)) (\<lambda>_.
       if binding_entry (grant_binding g) = [] \<or> length (binding_digest (grant_binding g)) \<noteq> 64
          \<or> \<not> list_all is_ascii_hexdigit (binding_digest (grant_binding g))
       then Inl ''invalid comment permission credential binding'' else Inr ())"

section \<open>Lookups\<close>

text \<open>
  What one exchange with GitHub gave: no connection, or a status and the body chunks, where None is
  an interrupted read.
\<close>

datatype http_outcome = No_connection | Reply nat "string option list"

fun read_chunks :: "string option list \<Rightarrow> string \<Rightarrow> string + string" where
  "read_chunks [] bytes = Inr bytes"
| "read_chunks (None # cs) bytes = Inl ''GitHub lookup response interrupted''"
| "read_chunks (Some c # cs) bytes =
     (if 64 * 1024 < length bytes + length c then Inl ''GitHub lookup response exceeds limit''
      else read_chunks cs (bytes @ c))"

definition lookup_node :: "Json \<Rightarrow> string + Json" where
  "lookup_node json =
     (if opt_any (\<lambda>v. case as_array v of None \<Rightarrow> True | Some xs \<Rightarrow> xs \<noteq> []) (json_get ''errors'' json)
      then Inl ''GitHub lookup returned GraphQL errors; target not verified''
      else let node = json_index (json_index json ''data'') ''node'' in
        if as_object node = None then Inl ''GitHub target unavailable to this credential'' else Inr node)"

definition lookup :: "(string \<Rightarrow> Json option) \<Rightarrow> bool \<Rightarrow> http_outcome \<Rightarrow> string \<Rightarrow> string + Json" where
  "lookup from_slice permit outcome nid =
     (if nid = [] \<or> 512 < length nid then Inl ''invalid GitHub node ID''
      else if \<not> permit then Inl ''GitHub lookup busy; retry shortly''
      else case outcome of
          No_connection \<Rightarrow> Inl ''GitHub lookup could not connect or timed out''
        | Reply status chunks \<Rightarrow>
            if \<not> (200 \<le> status \<and> status < 300)
            then Inl (''GitHub target lookup returned HTTP '' @ show_base 10 status
                      @ ''; check token access and rate limits'')
            else bind_res (read_chunks chunks []) (\<lambda>bytes.
                 bind_res (ok_or ''invalid GitHub lookup response'' (from_slice bytes)) lookup_node))"

definition meta_string :: "Json \<Rightarrow> string + string" where
  "meta_string v = ok_or ''incomplete GitHub target metadata'' (as_str v)"

definition resolve_target :: "Json \<Rightarrow> string + Target" where
  "resolve_target node =
     bind_res (meta_string (json_index node ''id'')) (\<lambda>nid.
     bind_res (meta_string (json_index (json_index node ''repository'') ''id'')) (\<lambda>rid.
     bind_res (meta_string (json_index (json_index node ''repository'') ''nameWithOwner'')) (\<lambda>repo.
     bind_res (meta_string (json_index node ''__typename'')) (\<lambda>kind.
     bind_res (ok_or ''invalid GitHub issue/PR number'' (as_u64 (json_index node ''number''))) (\<lambda>num.
     bind_res (meta_string (json_index node ''title'')) (\<lambda>title.
     bind_res (meta_string (json_index node ''url'')) (\<lambda>url.
       let t = \<lparr>target_node_id = nid, target_repository_id = rid, target_repository = repo,
                target_kind = kind, target_number = num, target_title = title, target_url = url\<rparr>
       in bind_res (validate_target t) (\<lambda>_. Inr t))))))))"

definition resolve_node :: "(string \<Rightarrow> Json option) \<Rightarrow> bool \<Rightarrow> http_outcome \<Rightarrow> string \<Rightarrow> string + Target" where
  "resolve_node from_slice permit outcome nid =
     bind_res (lookup from_slice permit outcome nid) resolve_target"

section \<open>Display metadata\<close>

record BranchContext =
  branch_base :: string
  branch_head :: string
  head_oid :: string
  head_repository :: "string option"
  head_exists :: bool

record DisplayLookup =
  dl_node_id :: string
  dl_kind :: string
  dl_repository_id :: string
  dl_repository :: string
  dl_number :: "nat option"
  dl_url :: string
  dl_pull_request_id :: "string option"
  dl_branch :: "BranchContext option"
  dl_fetched_at :: instant
  dl_cached :: bool

definition display_string :: "Json \<Rightarrow> string + string" where
  "display_string v =
     bind_res (ok_or ''incomplete GitHub display metadata'' (as_str v)) (\<lambda>t.
       if t = [] \<or> 512 < length t \<or> list_ex (\<lambda>c. char_is_control (scalar c)) (chars t)
       then Inl ''invalid GitHub display metadata'' else Inr t)"

definition branch_context :: "Json \<Rightarrow> string + BranchContext" where
  "branch_context subject =
     bind_res (if json_index subject ''headRepository'' = JNull then Inr None
               else bind_res (display_string (json_index (json_index subject ''headRepository'') ''nameWithOwner''))
                 (\<lambda>r. bind_res (validate_repository r) (\<lambda>_. Inr (Some r)))) (\<lambda>hr.
     bind_res (display_string (json_index subject ''baseRefName'')) (\<lambda>b.
     bind_res (display_string (json_index subject ''headRefName'')) (\<lambda>h.
     bind_res (display_string (json_index subject ''headRefOid'')) (\<lambda>oid.
       Inr \<lparr>branch_base = b, branch_head = h, head_oid = oid, head_repository = hr,
            head_exists = (json_index subject ''headRef'' \<noteq> JNull)\<rparr>))))"

definition display_subject :: "string \<Rightarrow> Json \<Rightarrow> string + Json" where
  "display_subject k node =
     (if k \<in> set [''PullRequestReviewThread'', ''PullRequestReview'', ''PullRequestReviewComment'']
      then Inr (json_index node ''pullRequest'')
      else if k \<in> set [''PullRequest'', ''Issue'', ''Repository''] then Inr node
      else Inl ''GitHub node type is not supported for display'')"

definition display_issue :: "Json \<Rightarrow> DisplayLookup \<Rightarrow> string + DisplayLookup" where
  "display_issue subject l =
     bind_res (display_string (json_index subject ''id'')) (\<lambda>nid.
     bind_res (ok_or ''invalid GitHub issue/PR number'' (as_u64 (json_index subject ''number''))) (\<lambda>num.
     bind_res (ok_or ''missing GitHub title'' (as_str (json_index subject ''title''))) (\<lambda>title.
     bind_res (validate_target
         \<lparr>target_node_id = nid, target_repository_id = dl_repository_id l, target_repository = dl_repository l,
          target_kind = (if dl_kind l \<noteq> ''Issue'' then ''PullRequest'' else ''Issue''),
          target_number = num, target_title = title, target_url = dl_url l\<rparr>) (\<lambda>_.
       if dl_kind l \<noteq> ''Issue''
       then bind_res (branch_context subject) (\<lambda>b.
              Inr (l\<lparr>dl_number := Some num, dl_pull_request_id := Some nid, dl_branch := Some b\<rparr>))
       else Inr (l\<lparr>dl_number := Some num\<rparr>)))))"

definition display_metadata :: "instant \<Rightarrow> Json \<Rightarrow> string + DisplayLookup" where
  "display_metadata fetched node =
     bind_res (display_string (json_index node ''__typename'')) (\<lambda>k.
     bind_res (display_subject k node) (\<lambda>subject.
     let repo = (if k = ''Repository'' then subject else json_index subject ''repository'') in
     bind_res (display_string (json_index node ''id'')) (\<lambda>nid.
     bind_res (display_string (json_index repo ''id'')) (\<lambda>rid.
     bind_res (display_string (json_index repo ''nameWithOwner'')) (\<lambda>rn.
     bind_res (display_string (json_index subject ''url'')) (\<lambda>u.
     let l = \<lparr>dl_node_id = nid, dl_kind = k, dl_repository_id = rid, dl_repository = rn, dl_number = None, dl_url = u,
              dl_pull_request_id = None, dl_branch = None, dl_fetched_at = fetched, dl_cached = False\<rparr> in
     if k = ''Repository''
     then bind_res (validate_repository rn) (\<lambda>_.
            if u \<noteq> ''https://github.com/'' @ rn
            then Inl ''GitHub repository URL does not match its identity'' else Inr l)
     else display_issue subject l))))))"

definition check_display_type :: "string \<Rightarrow> string \<Rightarrow> bool" where
  "check_display_type k expected \<longleftrightarrow>
     k = expected \<or> expected = ''Node (unknown type)''
     \<or> expected = ''Issue or PullRequest'' \<and> k \<in> set [''Issue'', ''PullRequest'']"

section \<open>The display cache\<close>

definition DISPLAY_CACHE_TTL :: nat where "DISPLAY_CACHE_TTL = 60 * 1000"
definition DISPLAY_CACHE_LIMIT :: nat where "DISPLAY_CACHE_LIMIT = 256"

record DisplayCacheEntry =
  cache_binding :: Binding
  requested_id :: string
  inserted :: instant
  cache_lookup :: DisplayLookup

definition fresh :: "instant \<Rightarrow> DisplayCacheEntry \<Rightarrow> bool" where
  "fresh now e \<longleftrightarrow> now - inserted e < DISPLAY_CACHE_TTL"

definition display_push :: "DisplayCacheEntry \<Rightarrow> DisplayCacheEntry list \<Rightarrow> DisplayCacheEntry list" where
  "display_push e cache = pop_front_while_longer (DISPLAY_CACHE_LIMIT - 1) cache @ [e]"

definition cached_display :: "instant \<Rightarrow> string \<Rightarrow> string \<Rightarrow> Binding \<Rightarrow> DisplayCacheEntry list
    \<Rightarrow> DisplayLookup option \<times> DisplayCacheEntry list" where
  "cached_display now nid expected b cache =
     (let live = filter (fresh now) cache in
      (case find (\<lambda>e. cache_binding e = b \<and> (requested_id e = nid \<or> dl_node_id (cache_lookup e) = nid)) live of
         None \<Rightarrow> None
       | Some e \<Rightarrow>
           if check_display_type (dl_kind (cache_lookup e)) expected
           then Some ((cache_lookup e)\<lparr>dl_cached := True\<rparr>) else None,
       live))"

definition remember_display :: "instant \<Rightarrow> string \<Rightarrow> Binding \<Rightarrow> DisplayLookup \<Rightarrow> DisplayCacheEntry list
    \<Rightarrow> DisplayCacheEntry list" where
  "remember_display now nid b l cache =
     display_push \<lparr>cache_binding = b, requested_id = nid, inserted = now, cache_lookup = l\<rparr>
       (filter (\<lambda>e. fresh now e \<and> \<not> (cache_binding e = b \<and> requested_id e = nid)) cache)"

text \<open>
  \<open>resolve_display\<close> started at \<open>now\<close>; when it has to ask GitHub, the answer \<open>node\<close> arrives at \<open>later\<close>.
\<close>

definition resolve_display :: "instant \<Rightarrow> instant \<Rightarrow> string + Json \<Rightarrow> string \<Rightarrow> string \<Rightarrow> Binding
    \<Rightarrow> DisplayCacheEntry list \<Rightarrow> (string + DisplayLookup) \<times> DisplayCacheEntry list" where
  "resolve_display now later node nid expected b cache =
     (case cached_display now nid expected b cache of
        (Some l, cache') \<Rightarrow> (Inr l, cache')
      | (None, cache') \<Rightarrow>
          (case bind_res node (display_metadata later) of
             Inl e \<Rightarrow> (Inl e, cache')
           | Inr l \<Rightarrow>
               if \<not> check_display_type (dl_kind l) expected
               then (Inl ''GitHub node type does not match the mutation input'', cache')
               else (Inr l, remember_display later nid b l cache')))"

section \<open>A binding identifies its credential\<close>

lemma length_be_bytes [simp]: "length (be_bytes n) = 8"
  by (simp add: be_bytes_def)

lemma byte_digits_inj:
  "(\<And>i. i < k \<Longrightarrow> m div 256 ^ i mod 256 = n div 256 ^ i mod 256) \<Longrightarrow> m < 256 ^ k \<Longrightarrow> n < 256 ^ k \<Longrightarrow> m = (n :: nat)"
proof (induction k arbitrary: m n)
  case (Suc k)
  have "m div 256 = n div 256"
  proof (rule Suc.IH)
    show "m div 256 div 256 ^ i mod 256 = n div 256 div 256 ^ i mod 256" if "i < k" for i
      using Suc.prems(1) [of "Suc i"] that by (simp add: div_mult2_eq)
  qed (use Suc.prems(2,3) in \<open>simp_all add: less_mult_imp_div_less mult.commute\<close>)
  moreover have "m mod 256 = n mod 256" using Suc.prems(1) [of 0] by simp
  ultimately show ?case by (metis div_mult_mod_eq)
qed simp

lemma be_bytes_inj:
  assumes "be_bytes m = be_bytes n" and "m < 2 ^ 64" and "n < 2 ^ 64"
  shows "m = n"
proof (rule byte_digits_inj [where k = 8])
  show "m div 256 ^ i mod 256 = n div 256 ^ i mod 256" if "i < 8" for i
  proof -
    have "ch (m div 256 ^ i mod 256) = ch (n div 256 ^ i mod 256)"
      using assms(1) that by (simp add: be_bytes_def)
    from arg_cong [OF this, of byte] show ?thesis by simp
  qed
qed (use assms in simp_all)

text \<open>Length framing makes the digest input unambiguous.\<close>

lemma digest_frame_cancel:
  assumes "digest_frame v @ r = digest_frame w @ t" and "length v < 2 ^ 64" and "length w < 2 ^ 64"
  shows "v = w \<and> r = t"
proof -
  have "be_bytes (length v) = be_bytes (length w)" "v @ r = w @ t"
    using assms(1) by (simp_all add: digest_frame_def append_eq_append_conv)
  then show ?thesis using be_bytes_inj [OF _ assms(2,3)] by simp
qed

lemma digest_frame_nonempty [simp]: "digest_frame v \<noteq> []"
  by (simp add: digest_frame_def be_bytes_def)

lemma digest_frames_unique:
  "concat (map digest_frame vs) = concat (map digest_frame ws) \<Longrightarrow>
     list_all (\<lambda>v. length v < 2 ^ 64) (vs @ ws) \<Longrightarrow> vs = ws"
proof (induction vs arbitrary: ws)
  case Nil
  then show ?case by (cases ws) auto
next
  case (Cons v vs)
  then obtain w ws' where ws: "ws = w # ws'" by (cases ws) auto
  have "v = w \<and> concat (map digest_frame vs) = concat (map digest_frame ws')"
    using digest_frame_cancel [of v _ w] Cons.prems ws by simp
  then show ?case using Cons.IH [of ws'] Cons.prems ws by simp
qed

definition credential_parts :: "EscrowEntry \<Rightarrow> string \<Rightarrow> string list" where
  "credential_parts e real = [entry_name e, fake e, header e, prefix e, real]"

lemma from_entry_Some:
  assumes "from_entry nc cc s e = Some c"
  obtains real where "real_value (env nc) (parse_session nc) s e = Some real"
    "credential_binding c = \<lparr>binding_entry = entry_name e, binding_digest = sha256_hex cc (digest_input e real)\<rparr>"
    "credential_header c = ''Bearer '' @ real" "header e = ''authorization''" "prefix e = ''Bearer ''"
    "list_ex (\<lambda>h. host_matches (url_parse nc) h ''api.github.com'') (entry_hosts e)"
  using assms by (auto simp: from_entry_def split: if_splits option.splits)

text \<open>
  A binding stays current only while nothing of its credential changes. Suppose it was issued for
  the entry \<open>e0\<close> and its secret of that time, no other input has its SHA-256 digest, and the strings
  fit the address space. If the settings still yield a credential for it, then the entry that yields it has the same
  name, fake, header, prefix and secret, and that secret is what the header carries: any rotation makes
  the binding, and the grants that rest on it, inactive.
\<close>

theorem current_unchanged:
  assumes "current nc cc s b = Some c"
    and "from_entry nc cc s0 e0 = Some c0" and "credential_binding c0 = b"
    and "real_value (env nc) (parse_session nc) s0 e0 = Some real0"
    and no_collision: "\<And>x. sha256_hex cc x = sha256_hex cc (digest_input e0 real0) \<Longrightarrow> x = digest_input e0 real0"
    and "list_all (\<lambda>v. length v < 2 ^ 64) (credential_parts e0 real0)"
    and "\<And>e real. e \<in> set (escrow s) \<Longrightarrow> real_value (env nc) (parse_session nc) s e = Some real \<Longrightarrow>
           list_all (\<lambda>v. length v < 2 ^ 64) (credential_parts e real)"
  shows "credential_header c = ''Bearer '' @ real0
    \<and> (\<exists>e \<in> set (escrow s). credential_parts e real0 = credential_parts e0 real0
         \<and> real_value (env nc) (parse_session nc) s e = Some real0)"
proof -
  obtain e where e: "e \<in> set (escrow s)" "from_entry nc cc s e = Some c" "credential_binding c = b"
    using assms(1) by (auto simp: current_def split: option.splits if_splits dest: find_SomeD)
  from e(2) obtain real where real: "real_value (env nc) (parse_session nc) s e = Some real"
      "binding_digest (credential_binding c) = sha256_hex cc (digest_input e real)" "credential_header c = ''Bearer '' @ real"
    by (rule from_entry_Some) simp
  from assms(2) obtain real' where "real_value (env nc) (parse_session nc) s0 e0 = Some real'"
      "binding_digest (credential_binding c0) = sha256_hex cc (digest_input e0 real')"
    by (rule from_entry_Some) simp
  then have "sha256_hex cc (digest_input e real) = sha256_hex cc (digest_input e0 real0)"
    using assms(3,4) e(3) real(2) by simp
  then have "digest_input e real = digest_input e0 real0" by (rule no_collision)
  then have "credential_parts e real = credential_parts e0 real0"
    using digest_frames_unique [of "credential_parts e real" "credential_parts e0 real0"] assms(6) assms(7) [OF e(1) real(1)]
    by (simp add: digest_input_def credential_parts_def)
  then show ?thesis using real e(1) by (auto simp: credential_parts_def)
qed

section \<open>A validated target is named by its URL\<close>

lemma validate_repository_parts:
  assumes "validate_repository r = Inr ()"
  obtains owner nm where "r = owner @ CHR ''/'' # nm" "CHR ''/'' \<notin> set owner" "CHR ''/'' \<notin> set nm"
    "repository_part owner" "repository_part nm"
proof -
  obtain owner nm where parts: "split_on CHR ''/'' r = [owner, nm]"
    using assms by (auto simp: validate_repository_def Let_def length_Suc_conv numeral_2_eq_2 split: if_splits)
  have "CHR ''/'' \<notin> set owner" "CHR ''/'' \<notin> set nm"
    using split_on_free [of _ "CHR ''/''" r] parts by auto
  moreover have "repository_part owner" "repository_part nm"
    using assms parts by (auto simp: validate_repository_def Let_def split: if_splits)
  ultimately show ?thesis using that split_on_two [OF parts] by blast
qed

definition target_segment :: "string \<Rightarrow> string" where
  "target_segment k = (if k = ''Issue'' then ''issues'' else ''pull'')"

lemma validate_target_valid:
  assumes "validate_target t = Inr ()"
  shows "validate_repository (target_repository t) = Inr ()"
    and "target_kind t \<in> {''Issue'', ''PullRequest''}"
    and "target_url t = ''https://github.com/'' @ target_repository t @ ''/'' @ target_segment (target_kind t) @ ''/''
            @ show_base 10 (target_number t)"
    and "0 < target_number t"
  using assms by (auto simp: validate_target_def target_segment_def bind_res_Inr_iff split: if_splits)

text \<open>
  A target's URL identifies it: two targets that both pass validation and have the same URL name
  the same repository, the same kind of object and the same number. The path segments cannot be
  confused, because neither part of a repository name contains a slash or is empty.
\<close>

theorem target_url_identifies:
  assumes "validate_target t = Inr ()" and "validate_target u = Inr ()" and "target_url t = target_url u"
  shows "target_repository t = target_repository u \<and> target_kind t = target_kind u
    \<and> target_number t = target_number u"
proof -
  obtain o1 n1 where t: "target_repository t = o1 @ CHR ''/'' # n1" "CHR ''/'' \<notin> set o1" "CHR ''/'' \<notin> set n1"
    using validate_repository_parts [OF validate_target_valid(1) [OF assms(1)]] by metis
  obtain o2 n2 where u: "target_repository u = o2 @ CHR ''/'' # n2" "CHR ''/'' \<notin> set o2" "CHR ''/'' \<notin> set n2"
    using validate_repository_parts [OF validate_target_valid(1) [OF assms(2)]] by metis
  let ?s = "\<lambda>x. target_segment (target_kind x) @ CHR ''/'' # show_base 10 (target_number x)"
  have seg: "CHR ''/'' \<notin> set (target_segment k)" for k by (simp add: target_segment_def)
  have "o1 @ CHR ''/'' # (n1 @ CHR ''/'' # ?s t) = o2 @ CHR ''/'' # (n2 @ CHR ''/'' # ?s u)"
    using assms(3) t(1) u(1) by (simp add: validate_target_valid(3) [OF assms(1)] validate_target_valid(3) [OF assms(2)])
  from delimiter_cancel [OF this t(2) u(2)] have "o1 = o2" "n1 @ CHR ''/'' # ?s t = n2 @ CHR ''/'' # ?s u" by simp_all
  moreover from delimiter_cancel [OF this(2) t(3) u(3)] have "n1 = n2" "?s t = ?s u" by simp_all
  moreover from delimiter_cancel [OF this(2) seg seg]
  have "target_segment (target_kind t) = target_segment (target_kind u)" "target_number t = target_number u"
    by (simp_all add: show_base_injective)
  ultimately show ?thesis
    using t(1) u(1) validate_target_valid(2) [OF assms(1)] validate_target_valid(2) [OF assms(2)]
    by (auto simp: target_segment_def)
qed

definition sample_target :: Target where
  "sample_target = \<lparr>target_node_id = ''I_1'', target_repository_id = ''R_1'', target_repository = ''octo/repo'',
     target_kind = ''Issue'', target_number = 7, target_title = ''Bug'',
     target_url = ''https://github.com/octo/repo/issues/7''\<rparr>"

lemma sample_target_valid: "validate_target sample_target = Inr ()"
  by code_simp

theorem target_url_identifies_witness:
  "target_repository (sample_target\<lparr>target_title := ''Other''\<rparr>) = target_repository sample_target
     \<and> target_kind (sample_target\<lparr>target_title := ''Other''\<rparr>) = target_kind sample_target
     \<and> target_number (sample_target\<lparr>target_title := ''Other''\<rparr>) = target_number sample_target"
proof (rule target_url_identifies)
  show "validate_target (sample_target\<lparr>target_title := ''Other''\<rparr>) = Inr ()" by code_simp
qed (simp_all add: sample_target_valid)

section \<open>The display cache\<close>

interpretation display_history: bounded_history display_push DISPLAY_CACHE_LIMIT
proof
  show "0 < DISPLAY_CACHE_LIMIT" by (simp add: DISPLAY_CACHE_LIMIT_def)
  show "display_push x xs = drop (Suc (length xs) - DISPLAY_CACHE_LIMIT) (xs @ [x])"
    if "length xs \<le> DISPLAY_CACHE_LIMIT" for x xs
    using that by (simp add: display_push_def pop_front_while_longer_eq DISPLAY_CACHE_LIMIT_def)
qed

text \<open>
  The invariant: bounded, in order of insertion, one entry per credential and requested id, none from
  the future.
\<close>

definition cache_key :: "DisplayCacheEntry \<Rightarrow> Binding \<times> string" where
  "cache_key e = (cache_binding e, requested_id e)"

definition cache_inv :: "instant \<Rightarrow> DisplayCacheEntry list \<Rightarrow> bool" where
  "cache_inv now cache \<longleftrightarrow>
     length cache \<le> DISPLAY_CACHE_LIMIT
     \<and> sorted_wrt (\<lambda>a b. inserted a \<le> inserted b \<and> cache_key a \<noteq> cache_key b) cache
     \<and> list_all (\<lambda>e. inserted e \<le> now) cache"

lemma cache_inv_filter: "cache_inv now cache \<Longrightarrow> cache_inv now (filter P cache)"
  by (auto simp: cache_inv_def sorted_wrt_filter list_all_iff intro: order_trans [OF length_filter_le])

lemma cache_inv_later: "cache_inv now cache \<Longrightarrow> now \<le> later \<Longrightarrow> cache_inv later cache"
  by (auto simp: cache_inv_def list_all_iff)

lemma remember_display_inv:
  assumes "cache_inv now cache"
  shows "cache_inv now (remember_display now nid b l cache)"
proof -
  let ?kept = "filter (\<lambda>e. fresh now e \<and> \<not> (cache_binding e = b \<and> requested_id e = nid)) cache"
  let ?new = "\<lparr>cache_binding = b, requested_id = nid, inserted = now, cache_lookup = l\<rparr>"
  have kept: "cache_inv now ?kept" using assms by (rule cache_inv_filter)
  then have len: "length ?kept \<le> DISPLAY_CACHE_LIMIT" by (simp add: cache_inv_def)
  have "sorted_wrt (\<lambda>a b. inserted a \<le> inserted b \<and> cache_key a \<noteq> cache_key b) (?kept @ [?new])"
    using kept by (auto simp: cache_inv_def sorted_wrt_append list_all_iff cache_key_def)
  then show ?thesis
    using display_history.push_bounded [OF len] display_history.push_sorted_wrt [OF len]
      display_history.push_set [OF len, of ?new] kept
    unfolding remember_display_def by (auto simp: cache_inv_def list_all_iff)
qed

lemma cached_display_hit:
  assumes "fst (cached_display now nid expected b cache) = Some l"
  shows "\<exists>e. e \<in> set cache \<and> cache_binding e = b \<and> fresh now e
    \<and> (requested_id e = nid \<or> dl_node_id l = nid) \<and> l = (cache_lookup e)\<lparr>dl_cached := True\<rparr>
    \<and> check_display_type (dl_kind l) expected"
proof -
  obtain e where e: "find (\<lambda>e. cache_binding e = b \<and> (requested_id e = nid \<or> dl_node_id (cache_lookup e) = nid))
      (filter (fresh now) cache) = Some e" "l = (cache_lookup e)\<lparr>dl_cached := True\<rparr>"
      "check_display_type (dl_kind (cache_lookup e)) expected"
    using assms by (auto simp: cached_display_def Let_def split: option.splits if_splits)
  with find_SomeD [OF e(1)] show ?thesis by (intro exI [of _ e]) auto
qed

text \<open>
  The display cache keeps its bound of 256 entries, its order and one entry per credential and id
  through every lookup, whether it hits, fails or stores; and what it answers from the cache was
  fetched for the same credential binding less than 60 seconds ago, for the id asked or the node it
  names, and has the expected type.
\<close>

theorem display_cache_safe:
  assumes "cache_inv now cache" and "now \<le> later"
    and "resolve_display now later node nid expected b cache = (r, cache')"
  shows "cache_inv later cache'
    \<and> opt_all (\<lambda>l. dl_cached l \<and> check_display_type (dl_kind l) expected
        \<and> (\<exists>e. e \<in> set cache \<and> cache_binding e = b \<and> fresh now e
             \<and> (requested_id e = nid \<or> dl_node_id l = nid) \<and> l = (cache_lookup e)\<lparr>dl_cached := True\<rparr>))
      (fst (cached_display now nid expected b cache))"
proof
  have "cache_inv now (snd (cached_display now nid expected b cache))"
    using cache_inv_filter [OF assms(1)] by (simp add: cached_display_def Let_def)
  then have live: "cache_inv later (snd (cached_display now nid expected b cache))"
    using cache_inv_later assms(2) by blast
  then show "cache_inv later cache'"
    using assms(3) remember_display_inv
    by (auto simp: resolve_display_def split: prod.splits option.splits sum.splits if_splits)
qed (use cached_display_hit in \<open>fastforce simp: opt_all_iff\<close>)

definition sample_crypto :: crypto_code where
  "sample_crypto = \<lparr>sha256_hex = (\<lambda>s. s), header_ok = (\<lambda>_. True)\<rparr>"

definition sample_credential :: Credential where
  "sample_credential = \<lparr>credential_binding =
       \<lparr>binding_entry = ''gh'', binding_digest = digest_input sample_entry ''ghp-1''\<rparr>,
     credential_header = ''Bearer ghp-1''\<rparr>"

lemma sample_issued:
  "from_entry sample_nc sample_crypto sample_settings sample_entry = Some sample_credential"
  "current sample_nc sample_crypto sample_settings (credential_binding sample_credential) = Some sample_credential"
  "real_value (env sample_nc) (parse_session sample_nc) sample_settings sample_entry = Some ''ghp-1''"
  by code_simp+

theorem current_unchanged_witness:
  "credential_header sample_credential = ''Bearer '' @ ''ghp-1''
    \<and> (\<exists>e \<in> set (escrow sample_settings). credential_parts e ''ghp-1'' = credential_parts sample_entry ''ghp-1''
         \<and> real_value (env sample_nc) (parse_session sample_nc) sample_settings e = Some ''ghp-1'')"
proof (rule current_unchanged [OF sample_issued(2,1) refl sample_issued(3)])
  show "x = digest_input sample_entry ''ghp-1''"
    if "sha256_hex sample_crypto x = sha256_hex sample_crypto (digest_input sample_entry ''ghp-1'')" for x
    using that by (simp add: sample_crypto_def)
  show "list_all (\<lambda>v. length v < 2 ^ 64) (credential_parts sample_entry ''ghp-1'')" by code_simp
  show "list_all (\<lambda>v. length v < 2 ^ 64) (credential_parts e real)"
    if "e \<in> set (escrow sample_settings)"
      "real_value (env sample_nc) (parse_session sample_nc) sample_settings e = Some real" for e real
  proof -
    have "e = sample_entry" using that(1) by (simp add: sample_settings_def)
    moreover have "real = ''ghp-1''" using that(2) sample_issued(3) calculation by simp
    moreover have "list_all (\<lambda>v. length v < 2 ^ 64) (credential_parts sample_entry ''ghp-1'')" by code_simp
    ultimately show ?thesis by simp
  qed
qed

theorem display_cache_safe_witness:
  "cache_inv 5 (snd (resolve_display 0 5 (Inl ''busy'') ''I_1'' ''Issue'' \<lparr>binding_entry = ''gh'', binding_digest = ''d''\<rparr> []))"
proof -
  have "cache_inv 0 []" by (simp add: cache_inv_def)
  from display_cache_safe [OF this _ prod.collapse [symmetric], of 5] show ?thesis by simp
qed

end
