(* ===== verification/Review.thy ===== *)
theory Review
  imports Github
begin

text \<open>
  \<open>review.rs\<close>: the one-shot review queue. A waiting proxy request holds a \<open>Ticket\<close>; its oneshot channel
  is kept in \<open>channels\<close>, by the request's id: the message sent, and whether each half is still alive.
  \<open>pending\<close> is the \<open>HashMap\<close> as an association list. An operation takes the clock it reads: the
  monotonic time in milliseconds and the wall-clock time. Views of other components that the queue only
  stores (GraphQL analysis, facts, push review) are kept as their JSON.
\<close>

section \<open>Limits and bounded text\<close>

definition MAX_BODY :: nat where "MAX_BODY = 64 * 1024"
definition MAX_HEADERS :: nat where "MAX_HEADERS = 16 * 1024"
definition MAX_PENDING :: nat where "MAX_PENDING = 32"
definition MAX_PER_GUEST :: nat where "MAX_PER_GUEST = 8"
definition WAIT_LIMIT :: nat where "WAIT_LIMIT = 120 * 1000"
definition HISTORY_LIMIT :: nat where "HISTORY_LIMIT = 100"

record clock =
  mono :: instant
  utc :: instant

text \<open>The ellipsis is U+2026, three bytes of UTF-8.\<close>

definition bounded_text :: "string \<Rightarrow> nat \<Rightarrow> string" where
  "bounded_text v limit =
     concat (take limit (chars v)) @ (if limit < length (chars v) then encode_utf8 8230 else [])"

section \<open>Response diagnostics\<close>

definition SAFE_HEADERS :: "string list" where
  "SAFE_HEADERS = [''date'', ''server'', ''via'', ''content-type'', ''content-length'', ''x-github-request-id'',
     ''x-github-media-type'', ''x-github-api-version-selected'', ''x-request-id'', ''x-correlation-id'',
     ''x-trace-id'', ''traceparent'', ''x-fastly-request-id'', ''x-timer'', ''x-served-by'', ''x-cache'',
     ''x-cache-hits'', ''cf-ray'', ''x-amz-cf-id'', ''x-amz-request-id'', ''x-azure-ref'',
     ''x-envoy-upstream-service-time'', ''x-ratelimit-limit'', ''x-ratelimit-remaining'', ''x-ratelimit-reset'',
     ''x-ratelimit-resource'', ''x-ratelimit-used'']"

text \<open>
  The two loops over the safe names and their values, flattened: the pairs in that order, with the
  running total and the result so far.
\<close>

definition safe_pairs :: "(string \<times> header_value) list \<Rightarrow> (string \<times> header_value) list" where
  "safe_pairs hs = concat (map (\<lambda>n. filter (\<lambda>(m, _). m = n) hs) SAFE_HEADERS)"

fun take_safe :: "(string \<times> header_value) list \<Rightarrow> nat \<Rightarrow> (string \<times> string) list \<Rightarrow> (string \<times> string) list" where
  "take_safe [] used result = result"
| "take_safe ((n, v) # hs) used result =
     (case hv_str v of
        None \<Rightarrow> take_safe hs used result
      | Some t \<Rightarrow>
          if 1024 < length t \<or> list_ex (\<lambda>c. char_is_control (scalar c)) (chars t)
          then take_safe hs used result
          else if 8192 < used + (length n + length t) \<or> 32 \<le> length result then result
          else take_safe hs (used + (length n + length t)) (result @ [(n, t)]))"

definition diagnostic_response_headers :: "(string \<times> header_value) list \<Rightarrow> (string \<times> string) list" where
  "diagnostic_response_headers hs = take_safe (safe_pairs hs) 0 []"

record GraphqlErrorDiagnostic =
  error_message :: string
  error_path :: "string option"
  error_locations :: "string list"
  error_kind :: "string option"

record GraphqlResponseDiagnostics =
  error_count :: nat
  diag_errors :: "GraphqlErrorDiagnostic list"
  data_present :: bool
  response_bytes :: nat
  diag_content_type :: "string option"
  response_headers :: "(string \<times> string) list"

definition path_part :: "Json \<Rightarrow> string" where
  "path_part p =
     (case as_str p of
        Some s \<Rightarrow> s
      | None \<Rightarrow> (case as_u64 p of Some n \<Rightarrow> show_base 10 n | None \<Rightarrow> ''[invalid path value]''))"

definition location_text :: "Json \<Rightarrow> string option" where
  "location_text l =
     Option.bind (Option.bind (json_get ''line'' l) as_u64) (\<lambda>a.
     Option.bind (Option.bind (json_get ''column'' l) as_u64) (\<lambda>b.
       Some (''line '' @ show_base 10 a @ '', column '' @ show_base 10 b)))"

definition first_some :: "'a option \<Rightarrow> 'a option \<Rightarrow> 'a option" where
  "first_some a b = (case a of None \<Rightarrow> b | Some _ \<Rightarrow> a)"

definition error_diagnostic :: "Json \<Rightarrow> GraphqlErrorDiagnostic" where
  "error_diagnostic e =
     \<lparr>error_message = bounded_text (case Option.bind (json_get ''message'' e) as_str of
          None \<Rightarrow> ''GraphQL error without a message'' | Some m \<Rightarrow> m) 1000,
      error_path = map_option (\<lambda>ps. bounded_text (join ('' '' @ encode_utf8 8594 @ '' '') (map path_part (take 16 ps))) 512)
        (Option.bind (json_get ''path'' e) as_array),
      error_locations = List.map_filter location_text
        (take 8 (case Option.bind (json_get ''locations'' e) as_array of None \<Rightarrow> [] | Some ls \<Rightarrow> ls)),
      error_kind = map_option (\<lambda>k. bounded_text k 128)
        (Option.bind
          (first_some (json_get ''type'' e)
            (first_some (Option.bind (json_get ''extensions'' e) (json_get ''type''))
              (Option.bind (json_get ''extensions'' e) (json_get ''code'')))) as_str)\<rparr>"

definition graphql_response_diagnostics :: "(string \<Rightarrow> Json option) \<Rightarrow> string \<Rightarrow> string option
    \<Rightarrow> (string \<times> string) list \<Rightarrow> GraphqlResponseDiagnostics option" where
  "graphql_response_diagnostics from_slice bytes ct hs =
     Option.bind (from_slice bytes) (\<lambda>json.
     Option.bind (Option.bind (json_get ''errors'' json) as_array) (\<lambda>errs.
       if errs = [] then None
       else Some \<lparr>error_count = length errs, diag_errors = map error_diagnostic (take 8 errs),
                  data_present = opt_any (\<lambda>d. d \<noteq> JNull) (json_get ''data'' json),
                  response_bytes = length bytes, diag_content_type = ct, response_headers = hs\<rparr>))"

section \<open>Snapshots\<close>

datatype Status =
    Preparing | Pending | Approved | Sending | ResponseReceived | GraphqlError | Denied | Expired
  | Cancelled | Blocked | UpstreamError | Unknown

definition active :: "Status \<Rightarrow> bool" where
  "active s \<longleftrightarrow> s \<in> {Preparing, Pending, Approved, Sending}"

text \<open>\<open>UpstreamDiagnostics\<close> of \<open>jobs.rs\<close>, the timings and the allowlisted headers of an execution.\<close>

record UpstreamDiagnostics =
  approved_at :: "instant option"
  started_at :: "instant option"
  headers_at :: "instant option"
  finished_at :: "instant option"
  accepted_to_approval_ms :: "nat option"
  approval_to_admission_ms :: "nat option"
  accepted_to_admission_ms :: "nat option"
  time_to_headers_ms :: "nat option"
  total_ms :: "nat option"
  remote_addr :: "string option"
  http_version :: "string option"
  upstream_headers :: "(string \<times> string) list"
  upstream_bytes :: "nat option"
  response_complete :: "bool option"
  transport_error :: "string option"

record Summary =
  summary_id :: uuid
  container :: string
  summary_method :: string
  summary_url :: string
  summary_created_at :: instant
  expires_at_utc :: instant
  fingerprint :: string
  body_bytes :: nat
  reason :: string
  status :: Status
  updated_at :: instant
  http_status :: "nat option"
  outcome :: "string option"
  asynchronous :: bool
  facts :: "Json option"
  request_key :: "string option"
  upstream :: "UpstreamDiagnostics option"
  display_binding :: "Binding option"

datatype Destination = Github_destination | Linear_destination

record UploadSubmission =
  destination :: Destination
  upload_filename :: string
  upload_content_type :: string
  upload_session :: string
  upload_repository :: "string option"

record Upload =
  upload_submission :: UploadSubmission
  upload_sha256 :: string
  upload_bytes :: nat
  upload_credential :: string
  upload_url :: "string option"
  upload_instance :: uuid
  upload_content :: "string option"

record CommentContext =
  context_binding :: Binding
  context_subject :: string
  context_epoch :: uuid
  context_revision :: uuid

record Resolved =
  resolved_target_of :: Target
  resolved_credential :: string

record Detail =
  summary :: Summary
  detail_headers :: "(string \<times> string) list"
  detail_body :: string
  graphql :: "Json option"
  git_push :: "Json option"
  file_upload :: "Upload option"
  graphql_response :: "GraphqlResponseDiagnostics option"
  graphql_read :: bool
  comment_permission_supported :: bool
  resolved_target :: "Resolved option"
  resolution_id :: "uuid option"
  comment_context :: "CommentContext option"

abbreviation detail_id :: "Detail \<Rightarrow> uuid" where
  "detail_id d \<equiv> summary_id (summary d)"

abbreviation detail_status :: "Detail \<Rightarrow> Status" where
  "detail_status d \<equiv> status (summary d)"

text \<open>\<open>guest_result\<close> of \<open>uploads.rs\<close> as a test: whose upload a snapshot shows.\<close>

definition guest_owns :: "Detail \<Rightarrow> string \<Rightarrow> uuid \<Rightarrow> string \<Rightarrow> bool" where
  "guest_owns d c inst session =
     (case file_upload d of
        None \<Rightarrow> False
      | Some u \<Rightarrow> \<not> (container (summary d) \<noteq> c \<or> upload_instance u \<noteq> inst \<or> upload_session (upload_submission u) \<noteq> session))"

section \<open>From a request to a snapshot\<close>

text \<open>
  The display view of a GraphQL body and its facts are functions of the graph analysis: \<open>inspect_view\<close>
  is \<open>graphql::inspect_with_limit\<close>, \<open>review_facts\<close> is \<open>Review::facts\<close>, \<open>unavailable\<close> the view of a message.
\<close>

record view_code =
  inspect_view :: "string \<Rightarrow> string \<Rightarrow> nat \<Rightarrow> bool \<times> Json"
  review_facts :: "Json \<Rightarrow> Json option"
  unavailable :: "string \<Rightarrow> Json"

definition sensitive_header :: "string \<Rightarrow> bool" where
  "sensitive_header n \<longleftrightarrow>
     n = ''authorization'' \<or> n = ''proxy-authorization'' \<or> n = ''cookie''
     \<or> contains_str ''token'' n \<or> contains_str ''key'' n \<or> contains_str ''secret'' n"

fun review_headers :: "(string \<times> header_value) list \<Rightarrow> nat \<Rightarrow> string + (string \<times> string) list" where
  "review_headers [] used = Inr []"
| "review_headers ((n, v) # hs) used =
     (let used' = used + (length n + length (hv_bytes v)) in
      if MAX_HEADERS < used' then Inl ''request headers exceed the review limit''
      else bind_res (if sensitive_header n then Inr ''[redacted]''
                     else ok_or ''non-text header cannot be reviewed'' (hv_str v))
             (\<lambda>t. bind_res (review_headers hs used') (\<lambda>rest. Inr ((n, t) # rest))))"

definition fingerprint_fields :: "Request \<Rightarrow> string \<Rightarrow> string list" where
  "fingerprint_fields req bytes =
     [req_method req, uri_text (uri req)] @ concat (map (\<lambda>(n, v). [n, hv_bytes v]) (headers req)) @ [bytes]"

definition fingerprint_input :: "Request \<Rightarrow> string \<Rightarrow> string" where
  "fingerprint_input req bytes = concat (map digest_frame (fingerprint_fields req bytes))"

definition reviewable_type :: "string \<Rightarrow> bool" where
  "reviewable_type v =
     (let ct = to_ascii_lowercase (str_trim (List.hd (split_on CHR '';'' v))) in
      ct = ''application/json'' \<or> ct = ''application/graphql'' \<or> starts_with ''text/'' ct)"

definition is_graphql :: "Request \<Rightarrow> bool" where
  "is_graphql req \<longleftrightarrow>
     opt_any (\<lambda>h. eq_ignore_ascii_case h ''api.github.com'') (uri_host (uri req)) \<and> path (uri req) = ''/graphql''"

definition request_text :: "Request \<Rightarrow> string \<Rightarrow> nat \<Rightarrow> string + unit" where
  "request_text req bytes max_body =
     (if 8192 < length (uri_text (uri req)) then Inl ''request URL exceeds the review limit''
      else if max_body < length bytes
      then Inl (''request body exceeds the review limit ('' @ show_base 10 max_body @ '' bytes)'')
      else if get_header req ''content-encoding'' \<noteq> None
      then Inl ''compressed/encoded writes cannot be safely reviewed in this inbox''
      else if \<not> valid_utf8 bytes
      then Inl ''binary proxy writes cannot be reviewed; ordinary git push remains blocked (use the Git bundle tool)''
      else if list_ex (\<lambda>c. char_is_control (scalar c) \<and> c \<notin> set [[ch 10], [ch 13], [ch 9]]) (chars bytes)
      then Inl ''request contains non-text control bytes and cannot be reviewed''
      else if bytes \<noteq> []
           \<and> \<not> reviewable_type (case get_header_str req ''content-type'' of None \<Rightarrow> [] | Some v \<Rightarrow> v)
      then Inl ''only JSON/text writes are reviewable; binary, multipart and form writes remain blocked''
      else Inr ())"

definition graphql_view :: "view_code \<Rightarrow> Request \<Rightarrow> string \<Rightarrow> nat \<Rightarrow> bool \<times> Json option" where
  "graphql_view vc req body max_body =
     (if \<not> is_graphql req then (False, None)
      else if query (uri req) \<noteq> None
      then (False, Some (unavailable vc
        ''URL query parameters may change GraphQL operation selection; structured review is unavailable. Inspect the complete URL and raw body.''))
      else let (read_only, v) = inspect_view vc body
                 (case get_header_str req ''content-type'' of None \<Rightarrow> [] | Some ct \<Rightarrow> ct) max_body
           in (read_only \<and> read_transport req, Some v))"

definition review_reason :: "Request \<Rightarrow> string" where
  "review_reason req =
     (if is_graphql req then ''GitHub GraphQL operation requires approval.''
      else if uri_host (uri req) = Some ''api.linear.app'' then ''Linear API operation requires approval.''
      else ''GitHub operation requires approval.'')"

definition from_request_with_limit :: "view_code \<Rightarrow> (string \<Rightarrow> string) \<Rightarrow> clock \<Rightarrow> uuid \<Rightarrow> string \<Rightarrow> Request \<Rightarrow> string \<Rightarrow> nat
    \<Rightarrow> string + Detail" where
  "from_request_with_limit vc sha256 t new_id c req bytes max_body =
     bind_res (request_text req bytes max_body) (\<lambda>_.
     bind_res (review_headers (headers req) 0) (\<lambda>hs.
       let (read_only, g) = graphql_view vc req bytes max_body in
       Inr \<lparr>summary = \<lparr>summary_id = new_id, container = c, summary_method = req_method req,
              summary_url = uri_text (uri req), summary_created_at = utc t, expires_at_utc = utc t + WAIT_LIMIT,
              fingerprint = sha256 (fingerprint_input req bytes), body_bytes = length bytes,
              reason = review_reason req, status = Pending, updated_at = utc t, http_status = None,
              outcome = None, asynchronous = False, facts = Option.bind g (review_facts vc),
              request_key = None, upstream = None, display_binding = None\<rparr>,
            detail_headers = hs, detail_body = bytes, graphql = g, git_push = None, file_upload = None,
            graphql_response = None, graphql_read = read_only, comment_permission_supported = False,
            resolved_target = None, resolution_id = None, comment_context = None\<rparr>))"

definition from_request :: "view_code \<Rightarrow> (string \<Rightarrow> string) \<Rightarrow> clock \<Rightarrow> uuid \<Rightarrow> string \<Rightarrow> Request \<Rightarrow> string \<Rightarrow> string + Detail" where
  "from_request vc sha256 t new_id c req bytes =
     from_request_with_limit vc sha256 t new_id c req bytes MAX_BODY"

section \<open>The queue\<close>

datatype Decision_kind = Approve | Deny

record Entry =
  detail :: Detail
  deadline :: instant

record channel =
  message :: "Decision_kind option"
  sender_alive :: bool
  receiver_alive :: bool

record Queue =
  pending :: "(uuid, Entry) alist"
  recent :: "Detail list"
  channels :: "(uuid, channel) alist"
  capacity :: nat
  per_guest :: nat
  version :: nat

definition with_limits :: "nat \<Rightarrow> nat \<Rightarrow> Queue" where
  "with_limits cap guest = \<lparr>pending = [], recent = [], channels = [], capacity = cap, per_guest = guest, version = 0\<rparr>"

definition new_queue :: Queue where
  "new_queue = with_limits MAX_PENDING MAX_PER_GUEST"

definition notify :: "Queue \<Rightarrow> Queue" where
  "notify q = q\<lparr>version := (version q + 1) mod 2 ^ 64\<rparr>"

text \<open>\<open>sender.is_closed()\<close>: the ticket's receiver is gone.\<close>

definition is_closed :: "Queue \<Rightarrow> uuid \<Rightarrow> bool" where
  "is_closed q i = (case map_of (channels q) i of None \<Rightarrow> True | Some c \<Rightarrow> \<not> receiver_alive c)"

definition drop_sender :: "uuid \<Rightarrow> Queue \<Rightarrow> Queue" where
  "drop_sender i q = q\<lparr>channels := (case map_of (channels q) i of
       None \<Rightarrow> channels q | Some c \<Rightarrow> AList.update i (c\<lparr>sender_alive := False\<rparr>) (channels q))\<rparr>"

text \<open>\<open>sender.send(decision)\<close> consumes the sender; it fails when the receiver is gone.\<close>

definition send :: "uuid \<Rightarrow> Decision_kind \<Rightarrow> Queue \<Rightarrow> bool \<times> Queue" where
  "send i d q =
     (if is_closed q i then (False, drop_sender i q)
      else (True, q\<lparr>channels := AList.update i
        \<lparr>message = Some d, sender_alive = False, receiver_alive = True\<rparr> (channels q)\<rparr>))"

definition set_outcome :: "instant \<Rightarrow> Status \<Rightarrow> string \<Rightarrow> Detail \<Rightarrow> Detail" where
  "set_outcome now st out d =
     d\<lparr>summary := (summary d)\<lparr>status := st, updated_at := now, outcome := Some out\<rparr>\<rparr>"

definition drop_content :: "Detail \<Rightarrow> Detail" where
  "drop_content d = d\<lparr>file_upload := map_option (\<lambda>u. u\<lparr>upload_content := None\<rparr>) (file_upload d)\<rparr>"

definition archived :: "instant \<Rightarrow> Status \<Rightarrow> string \<Rightarrow> Detail \<Rightarrow> Detail" where
  "archived now st out d =
     (let d' = (set_outcome now st out d)\<lparr>comment_context := None, comment_permission_supported := False\<rparr>
      in if st \<noteq> Approved then drop_content d' else d')"

definition push_recent :: "Detail \<Rightarrow> Detail list \<Rightarrow> Detail list" where
  "push_recent d ds = pop_front_while_longer HISTORY_LIMIT (ds @ [d])"

text \<open>\<open>QueueData::archive\<close>; the sender it returns stays alive until the caller drops or uses it.\<close>

definition archive :: "clock \<Rightarrow> uuid \<Rightarrow> Status \<Rightarrow> string \<Rightarrow> Queue \<Rightarrow> Queue option" where
  "archive t i st out q =
     (case map_of (pending q) i of
        None \<Rightarrow> None
      | Some e \<Rightarrow> Some (q\<lparr>pending := AList.delete i (pending q),
                         recent := push_recent (archived (utc t) st out (detail e)) (recent q)\<rparr>))"

text \<open>An archive whose returned sender is dropped at once.\<close>

definition archive_drop :: "clock \<Rightarrow> uuid \<Rightarrow> Status \<Rightarrow> string \<Rightarrow> Queue \<Rightarrow> Queue" where
  "archive_drop t i st out q = (case archive t i st out q of None \<Rightarrow> q | Some q' \<Rightarrow> drop_sender i q')"

definition guest_count :: "Queue \<Rightarrow> string \<Rightarrow> nat" where
  "guest_count q c = length (filter (\<lambda>(_, e). container (summary (detail e)) = c) (pending q))"

definition enqueue :: "clock \<Rightarrow> Detail \<Rightarrow> Queue \<Rightarrow> (string + uuid) \<times> Queue" where
  "enqueue t d q =
     (if contains_key (detail_id d) (pending q) \<or> list_ex (\<lambda>x. detail_id x = detail_id d) (recent q)
      then (Inl ''request is already waiting; cannot replace its snapshot'', q)
      else if capacity q \<le> length (pending q) \<or> per_guest q \<le> guest_count q (container (summary d))
      then (Inl ''pending review queue is full; deny or resolve existing requests before retrying'', q)
      else (Inr (detail_id d), notify (q\<lparr>
        pending := pending q @ [(detail_id d, \<lparr>detail = d, deadline = mono t + WAIT_LIMIT\<rparr>)],
        channels := AList.update (detail_id d)
          \<lparr>message = None, sender_alive = True, receiver_alive = True\<rparr> (channels q)\<rparr>)))"

definition live_detail :: "clock \<Rightarrow> uuid \<Rightarrow> Queue \<Rightarrow> Detail option" where
  "live_detail t i q =
     (case map_of (pending q) i of
        None \<Rightarrow> None
      | Some e \<Rightarrow> if mono t < deadline e \<and> \<not> is_closed q i then Some (detail e) else None)"

definition inspect :: "uuid \<Rightarrow> Queue \<Rightarrow> Detail option" where
  "inspect i q =
     (case map_of (pending q) i of
        Some e \<Rightarrow> Some (detail e)
      | None \<Rightarrow> find (\<lambda>d. detail_id d = i) (recent q))"

definition upload_result :: "uuid \<Rightarrow> string \<Rightarrow> Queue \<Rightarrow> Queue" where
  "upload_result i u q = q\<lparr>recent := update_first (\<lambda>d. detail_id d = i)
     (\<lambda>d. d\<lparr>file_upload := map_option (\<lambda>f. f\<lparr>upload_url := Some u\<rparr>) (file_upload d)\<rparr>) (recent q)\<rparr>"

definition change_guest_upload :: "clock \<Rightarrow> uuid \<Rightarrow> string \<Rightarrow> uuid \<Rightarrow> string \<Rightarrow> bool \<Rightarrow> Queue \<Rightarrow> (string + unit) \<times> Queue" where
  "change_guest_upload t i c inst session remove q =
     (case inspect i q of
        None \<Rightarrow> (Inl ''upload not found'', q)
      | Some d \<Rightarrow>
          if \<not> guest_owns d c inst session then (Inl ''upload not found'', q)
          else if remove then
            (if active (detail_status d) then (Inl ''finish or cancel upload before removing it'', q)
             else (Inr (), notify (q\<lparr>recent := filter (\<lambda>x. detail_id x \<noteq> i) (recent q)\<rparr>)))
          else if detail_status d \<noteq> Pending
          then (Inl ''only a pending upload can be cancelled; sending uploads cannot be undone'', q)
          else (Inr (), notify (archive_drop t i Cancelled ''Cancelled by guest. Not sent.'' q)))"

definition view :: "Queue \<Rightarrow> Summary list \<times> Summary list" where
  "view q = (sort_key summary_created_at (map (\<lambda>(_, e). summary (detail e)) (pending q)),
             map summary (rev (recent q)))"

definition tracks_response :: "uuid \<Rightarrow> Queue \<Rightarrow> bool" where
  "tracks_response i q = list_ex (\<lambda>d. detail_id d = i \<and> graphql d \<noteq> None) (recent q)"

text \<open>
  \<open>recent.iter_mut().find(..)\<close> followed by a guard on the found snapshot: the change happens, and the
  watchers are notified, only when the guard holds.
\<close>

definition amend_recent :: "uuid \<Rightarrow> (Detail \<Rightarrow> bool) \<Rightarrow> (Detail \<Rightarrow> Detail) \<Rightarrow> Queue \<Rightarrow> Queue" where
  "amend_recent i guard f q =
     (case find (\<lambda>d. detail_id d = i) (recent q) of
        None \<Rightarrow> q
      | Some d \<Rightarrow>
          if guard d then notify (q\<lparr>recent := update_first (\<lambda>d. detail_id d = i) f (recent q)\<rparr>) else q)"

definition response_detail :: "clock \<Rightarrow> uuid \<Rightarrow> Status \<Rightarrow> string \<Rightarrow> Queue \<Rightarrow> Queue" where
  "response_detail t i st out =
     amend_recent i (\<lambda>d. detail_status d = ResponseReceived) (set_outcome (utc t) st out)"

definition graphql_response_detail :: "clock \<Rightarrow> uuid \<Rightarrow> GraphqlResponseDiagnostics \<Rightarrow> Queue \<Rightarrow> Queue" where
  "graphql_response_detail t i diag =
     amend_recent i (\<lambda>d. detail_status d = ResponseReceived)
       (\<lambda>d. (set_outcome (utc t) GraphqlError
           ''The HTTP exchange completed, but the GraphQL response reported application errors. Inspect the diagnostics below before retrying.''
           d)\<lparr>graphql_response := Some diag\<rparr>)"

definition observe :: "clock \<Rightarrow> uuid \<Rightarrow> Status \<Rightarrow> nat option \<Rightarrow> string \<Rightarrow> Queue \<Rightarrow> Queue" where
  "observe t i st http out =
     amend_recent i (\<lambda>d. active (detail_status d))
       (\<lambda>d. let d' = set_outcome (utc t) st out d;
                d1 = d'\<lparr>summary := (summary d')\<lparr>http_status := http\<rparr>\<rparr>
            in if active st then d1 else drop_content d1)"

definition cancel_pending :: "clock \<Rightarrow> uuid \<Rightarrow> Status \<Rightarrow> string \<Rightarrow> Queue \<Rightarrow> Queue" where
  "cancel_pending t i st out q =
     (case archive t i st out q of None \<Rightarrow> q | Some q' \<Rightarrow> notify (drop_sender i q'))"

definition decide :: "clock \<Rightarrow> uuid \<Rightarrow> string \<Rightarrow> Decision_kind \<Rightarrow> Queue \<Rightarrow> (string + unit) \<times> Queue" where
  "decide t i fp d q =
     (case map_of (pending q) i of
        None \<Rightarrow> (Inl ''request is no longer waiting (decided, cancelled or expired)'', q)
      | Some e \<Rightarrow>
          if fingerprint (summary (detail e)) \<noteq> fp
          then (Inl ''request fingerprint mismatch; reload the review'', q)
          else if deadline e \<le> mono t \<or> is_closed q i
          then (Inl ''request expired or the waiting proxy request was cancelled'',
                notify (archive_drop t i (if deadline e \<le> mono t then Expired else Cancelled)
                  ''Not sent. Review expired or client stopped waiting.'' q))
          else
            (let (st, out) = (case d of
                 Approve \<Rightarrow> (Approved, ''Approved once; checking current policy before sending.'')
               | Deny \<Rightarrow> (Denied, ''Denied by host. Not sent.''));
               (sent, q') = send i d (the (archive t i st out q))
             in if sent then (Inr (), notify q')
                else (Inl ''waiting proxy request was cancelled'',
                      observe t i Cancelled None ''Client stopped waiting. Not sent.'' (notify q'))))"

definition set_resolved :: "clock \<Rightarrow> uuid \<Rightarrow> uuid \<Rightarrow> string \<Rightarrow> Resolved \<Rightarrow> uuid \<Rightarrow> Queue \<Rightarrow> (string + Detail) \<times> Queue" where
  "set_resolved t fresh_id i fp r revision q =
     (case map_of (pending q) i of
        None \<Rightarrow> (Inl ''request no longer waiting'', q)
      | Some e \<Rightarrow>
          if fingerprint (summary (detail e)) \<noteq> fp \<or> deadline e \<le> mono t \<or> is_closed q i
          then (Inl ''request changed, expired or cancelled'', q)
          else
            (let put = (\<lambda>d. q\<lparr>pending := AList.update i (e\<lparr>detail := d\<rparr>) (pending q)\<rparr>);
                 d1 = (detail e)\<lparr>resolved_target := Some r\<rparr>
             in case comment_context d1 of
                  None \<Rightarrow> (Inl ''no comment context'', put d1)
                | Some ctx \<Rightarrow>
                    (let d2 = d1\<lparr>comment_context := Some (ctx\<lparr>context_revision := revision\<rparr>),
                                 resolution_id := Some fresh_id\<rparr>
                     in (Inr d2, put d2))))"

definition cancel_container :: "clock \<Rightarrow> string \<Rightarrow> Queue \<Rightarrow> Queue" where
  "cancel_container t c q =
     notify (fold (\<lambda>i. archive_drop t i Cancelled ''Container permissions changed. Not sent.'')
       (map fst (filter (\<lambda>(_, e). container (summary (detail e)) = c) (pending q))) q)"

text \<open>The ticket: its wait ends with a decision, at the deadline, or when the sender is dropped; dropping it
  removes a request that still waits, and then its receiver.\<close>

definition ticket_timeout :: "clock \<Rightarrow> uuid \<Rightarrow> Queue \<Rightarrow> Queue" where
  "ticket_timeout t i = cancel_pending t i Expired ''No decision within 2 minutes. Not sent.''"

definition drop_ticket :: "clock \<Rightarrow> uuid \<Rightarrow> Queue \<Rightarrow> Queue" where
  "drop_ticket t i q =
     (let q' = cancel_pending t i Cancelled ''Waiting request was cancelled. Not sent.'' q
      in q'\<lparr>channels := (case map_of (channels q') i of
           None \<Rightarrow> channels q'
         | Some c \<Rightarrow> AList.update i (c\<lparr>receiver_alive := False\<rparr>) (channels q'))\<rparr>)"

definition ticket_wait :: "clock \<Rightarrow> nat \<Rightarrow> uuid \<Rightarrow> Queue \<Rightarrow> (string + Decision_kind) option \<times> Queue" where
  "ticket_wait t dl i q =
     (case map_of (channels q) i of
        None \<Rightarrow> (None, q)
      | Some c \<Rightarrow>
          (case message c of
             Some d \<Rightarrow> (Some (Inr d), drop_ticket t i q)
           | None \<Rightarrow>
               if \<not> sender_alive c
               then (Some (Inl ''review cancelled by container policy change or request cancellation''), drop_ticket t i q)
               else if dl \<le> mono t
               then (Some (Inl ''review expired after 120 seconds; request was not forwarded''),
                     drop_ticket t i (ticket_timeout t i q))
               else (None, q)))"

section \<open>Operations as steps\<close>

datatype queue_op =
    Op_enqueue clock Detail
  | Op_upload_result uuid string
  | Op_change_guest_upload clock uuid string uuid string bool
  | Op_response_detail clock uuid Status string
  | Op_graphql_response_detail clock uuid GraphqlResponseDiagnostics
  | Op_observe clock uuid Status "nat option" string
  | Op_decide clock uuid string Decision_kind
  | Op_set_resolved clock uuid uuid string Resolved uuid
  | Op_cancel_container clock string
  | Op_ticket_timeout clock uuid
  | Op_drop_ticket clock uuid

fun apply_op :: "queue_op \<Rightarrow> Queue \<Rightarrow> Queue" where
  "apply_op (Op_enqueue t d) q = snd (enqueue t d q)"
| "apply_op (Op_upload_result i u) q = upload_result i u q"
| "apply_op (Op_change_guest_upload t i c inst session remove) q = snd (change_guest_upload t i c inst session remove q)"
| "apply_op (Op_response_detail t i st out) q = response_detail t i st out q"
| "apply_op (Op_graphql_response_detail t i diag) q = graphql_response_detail t i diag q"
| "apply_op (Op_observe t i st http out) q = observe t i st http out q"
| "apply_op (Op_decide t i fp d) q = snd (decide t i fp d q)"
| "apply_op (Op_set_resolved t new i fp r revision) q = snd (set_resolved t new i fp r revision q)"
| "apply_op (Op_cancel_container t c) q = cancel_container t c q"
| "apply_op (Op_ticket_timeout t i) q = ticket_timeout t i q"
| "apply_op (Op_drop_ticket t i) q = drop_ticket t i q"

inductive reachable :: "Queue \<Rightarrow> bool" where
  initial: "reachable new_queue"
| step: "reachable q \<Longrightarrow> reachable (apply_op op q)"

section \<open>The invariant\<close>

definition queue_inv :: "Queue \<Rightarrow> bool" where
  "queue_inv q \<longleftrightarrow>
     distinct (keys (pending q)) \<and> (\<forall>(i, e) \<in> set (pending q). detail_id (detail e) = i)
     \<and> distinct (map detail_id (recent q)) \<and> set (keys (pending q)) \<inter> detail_id ` set (recent q) = {}
     \<and> length (recent q) \<le> HISTORY_LIMIT
     \<and> length (pending q) \<le> capacity q \<and> (\<forall>c. guest_count q c \<le> per_guest q)
     \<and> (\<forall>i \<in> set (keys (pending q)). opt_any (\<lambda>c. sender_alive c \<and> message c = None) (map_of (channels q) i))"

lemma queue_invI:
  assumes "distinct (keys (pending q))" and "\<And>i e. (i, e) \<in> set (pending q) \<Longrightarrow> detail_id (detail e) = i"
    and "distinct (map detail_id (recent q))" and "set (keys (pending q)) \<inter> detail_id ` set (recent q) = {}"
    and "length (recent q) \<le> HISTORY_LIMIT" and "length (pending q) \<le> capacity q" and "\<And>c. guest_count q c \<le> per_guest q"
    and "\<And>i. i \<in> set (keys (pending q)) \<Longrightarrow> opt_any (\<lambda>c. sender_alive c \<and> message c = None) (map_of (channels q) i)"
  shows "queue_inv q"
  using assms unfolding queue_inv_def by blast

lemma queue_invD:
  assumes "queue_inv q"
  shows "distinct (keys (pending q))" and "(i, e) \<in> set (pending q) \<Longrightarrow> detail_id (detail e) = i"
    and "distinct (map detail_id (recent q))" and "set (keys (pending q)) \<inter> detail_id ` set (recent q) = {}"
    and "length (recent q) \<le> HISTORY_LIMIT" and "length (pending q) \<le> capacity q" and "guest_count q c \<le> per_guest q"
    and "i \<in> set (keys (pending q)) \<Longrightarrow> opt_any (\<lambda>c. sender_alive c \<and> message c = None) (map_of (channels q) i)"
  using assms unfolding queue_inv_def by blast+

lemma notify_simps [simp]:
  "pending (notify q) = pending q" "recent (notify q) = recent q" "channels (notify q) = channels q"
  "capacity (notify q) = capacity q" "per_guest (notify q) = per_guest q"
  by (simp_all add: notify_def)

lemma drop_sender_simps [simp]:
  "pending (drop_sender i q) = pending q" "recent (drop_sender i q) = recent q"
  "capacity (drop_sender i q) = capacity q" "per_guest (drop_sender i q) = per_guest q"
  "map_of (channels (drop_sender i q)) j =
     (if j = i then map_option (\<lambda>c. c\<lparr>sender_alive := False\<rparr>) (map_of (channels q) i) else map_of (channels q) j)"
  by (auto simp: drop_sender_def update_conv' split: option.splits)

lemma guest_count_pending: "pending q = pending q' \<Longrightarrow> guest_count q c = guest_count q' c"
  by (simp add: guest_count_def)

lemma queue_inv_notify [simp]: "queue_inv (notify q) = queue_inv q"
  by (simp add: queue_inv_def guest_count_def)

interpretation recent_history: bounded_history push_recent HISTORY_LIMIT
proof
  show "0 < HISTORY_LIMIT" by (simp add: HISTORY_LIMIT_def)
qed (simp add: push_recent_def pop_front_while_longer_eq)

lemma archived_simps [simp]:
  "detail_id (archived now st out d) = detail_id d" "detail_status (archived now st out d) = st"
  by (simp_all add: archived_def set_outcome_def drop_content_def Let_def)

lemma set_outcome_simps [simp]:
  "detail_id (set_outcome now st out d) = detail_id d" "detail_status (set_outcome now st out d) = st"
  by (simp_all add: set_outcome_def)

lemma drop_content_simps [simp]: "summary (drop_content d) = summary d"
  by (simp add: drop_content_def)

text \<open>The part of the invariant that archiving and later changes of snapshots share.\<close>

lemma push_recent_ids:
  assumes "length ds \<le> HISTORY_LIMIT" and "distinct (map detail_id (ds @ [d]))"
  shows "distinct (map detail_id (push_recent d ds))" and "length (push_recent d ds) \<le> HISTORY_LIMIT"
    and "set (push_recent d ds) \<subseteq> insert d (set ds)"
  using assms recent_history.push_bounded recent_history.push_set
  by (auto simp: recent_history.push_keeps_newest drop_map [symmetric] distinct_drop simp del: drop_append map_append)

lemma archive_Some:
  assumes "archive t i st out q = Some q'" and "queue_inv q"
  obtains e where "map_of (pending q) i = Some e" "detail_id (detail e) = i" "i \<in> set (keys (pending q))"
    "q' = q\<lparr>pending := AList.delete i (pending q),
            recent := push_recent (archived (utc t) st out (detail e)) (recent q)\<rparr>"
proof -
  obtain e where e: "map_of (pending q) i = Some e"
    "q' = q\<lparr>pending := AList.delete i (pending q),
            recent := push_recent (archived (utc t) st out (detail e)) (recent q)\<rparr>"
    using assms(1) by (auto simp: archive_def split: option.splits)
  with queue_invD(2) [OF assms(2) map_of_SomeD [OF e(1)]] map_of_SomeD [OF e(1)] that show ?thesis by force
qed

lemma queue_inv_archive:
  assumes "queue_inv q" and "archive t i st out q = Some q'"
  shows "queue_inv q'"
proof -
  obtain e where e: "map_of (pending q) i = Some e" "detail_id (detail e) = i" "i \<in> set (keys (pending q))"
    and q': "q' = q\<lparr>pending := AList.delete i (pending q),
            recent := push_recent (archived (utc t) st out (detail e)) (recent q)\<rparr>"
    using archive_Some [OF assms(2,1)] .
  let ?d = "archived (utc t) st out (detail e)"
  have "i \<notin> detail_id ` set (recent q)" using queue_invD(4) [OF assms(1)] e(3) by blast
  then have ids: "distinct (map detail_id (recent q @ [?d]))"
    using queue_invD(3) [OF assms(1)] e(2) by auto
  note new = push_recent_ids [OF queue_invD(5) [OF assms(1)] ids]
  have "pending q' = AList.delete i (pending q)" by (simp add: q')
  then have keys: "set (keys (pending q')) = set (keys (pending q)) - {i}"
    by (simp only: delete_keys set_removeAll)
  have kept: "detail_id ` set (recent q') \<subseteq> insert i (detail_id ` set (recent q))"
    using new(3) e(2) by (auto simp: q')
  show ?thesis
  proof (rule queue_invI)
    show "distinct (keys (pending q'))"
      using queue_invD(1) [OF assms(1)] by (simp add: q' delete_keys distinct_removeAll)
    show "detail_id (detail x) = j" if "(j, x) \<in> set (pending q')" for j x
      using that queue_invD(2) [OF assms(1)] by (auto simp: q' AList.delete_eq)
    show "set (keys (pending q')) \<inter> detail_id ` set (recent q') = {}"
      using kept keys queue_invD(4) [OF assms(1)] by blast
    show "length (pending q') \<le> capacity q'"
      using length_delete_le [of i "pending q"] queue_invD(6) [OF assms(1)] by (simp add: q')
    have "guest_count q' c \<le> guest_count q c" for c
      by (simp add: q' guest_count_def AList.delete_eq length_filter_filter_le del: filter_filter)
    then show "guest_count q' c \<le> per_guest q'" for c
      using queue_invD(7) [OF assms(1), of c] by (simp add: q') (meson order_trans)
    show "opt_any (\<lambda>c. sender_alive c \<and> message c = None) (map_of (channels q') j)"
      if "j \<in> set (keys (pending q'))" for j
      using that queue_invD(8) [OF assms(1), of j] unfolding keys by (simp add: q')
  qed (use new in \<open>simp_all add: q'\<close>)
qed

lemma queue_inv_drop_sender:
  assumes "queue_inv q" and "i \<notin> set (keys (pending q))"
  shows "queue_inv (drop_sender i q)"
proof (rule queue_invI)
  show "opt_any (\<lambda>c. sender_alive c \<and> message c = None) (map_of (channels (drop_sender i q)) j)"
    if "j \<in> set (keys (pending (drop_sender i q)))" for j
    using that assms queue_invD(8) [OF assms(1), of j] by auto
qed (use queue_invD [OF assms(1)] in \<open>auto simp: guest_count_def\<close>)

lemma archive_pending:
  "archive t i st out q = Some q' \<Longrightarrow> i \<notin> set (keys (pending q'))"
  by (auto simp: archive_def AList.delete_eq split: option.splits)

lemma queue_inv_archive_drop: "queue_inv q \<Longrightarrow> queue_inv (archive_drop t i st out q)"
  by (auto simp: archive_drop_def split: option.splits
      intro: queue_inv_drop_sender queue_inv_archive dest: archive_pending)

lemma queue_inv_cancel_pending: "queue_inv q \<Longrightarrow> queue_inv (cancel_pending t i st out q)"
  by (auto simp: cancel_pending_def split: option.splits
      intro: queue_inv_drop_sender queue_inv_archive dest: archive_pending)

lemma queue_inv_recent:
  assumes "queue_inv q" and "map detail_id ds = map detail_id (filter P (recent q))"
  shows "queue_inv (q\<lparr>recent := ds\<rparr>)"
proof (rule queue_invI)
  have len: "length ds \<le> length (recent q)" using assms(2) by (metis length_map length_filter_le)
  then show "length (recent (q\<lparr>recent := ds\<rparr>)) \<le> HISTORY_LIMIT" using queue_invD(5) [OF assms(1)] by simp
  have "detail_id ` set ds \<subseteq> detail_id ` set (recent q)"
    using arg_cong [OF assms(2), of set] by auto
  then show "set (keys (pending (q\<lparr>recent := ds\<rparr>))) \<inter> detail_id ` set (recent (q\<lparr>recent := ds\<rparr>)) = {}"
    using queue_invD(4) [OF assms(1)] by auto
  show "distinct (map detail_id (recent (q\<lparr>recent := ds\<rparr>)))"
    using assms(2) queue_invD(3) [OF assms(1)] by (simp add: distinct_map_filter)
qed (use queue_invD [OF assms(1)] in \<open>auto simp: guest_count_def\<close>)

lemma map_id_update_first:
  "(\<And>d. detail_id (f d) = detail_id d) \<Longrightarrow> map detail_id (update_first P f ds) = map detail_id (filter (\<lambda>_. True) ds)"
  by (simp add: map_update_first)

lemma queue_inv_amend:
  assumes "queue_inv q" and "\<And>d. detail_id (f d) = detail_id d"
  shows "queue_inv (amend_recent i guard f q)"
  using assms(1) queue_inv_recent [OF assms(1) map_id_update_first [OF assms(2)]]
  by (auto simp: amend_recent_def split: option.splits)

lemma queue_inv_enqueue:
  assumes "queue_inv q"
  shows "queue_inv (snd (enqueue t d q))"
proof (cases "fst (enqueue t d q)")
  case (Inl e)
  then show ?thesis using assms by (auto simp: enqueue_def split: if_splits)
next
  case (Inr i)
  let ?e = "\<lparr>detail = d, deadline = mono t + WAIT_LIMIT\<rparr>"
  let ?q = "q\<lparr>pending := pending q @ [(detail_id d, ?e)],
        channels := AList.update (detail_id d)
          \<lparr>message = None, sender_alive = True, receiver_alive = True\<rparr> (channels q)\<rparr>"
  from Inr have new: "detail_id d \<notin> set (keys (pending q))" "detail_id d \<notin> detail_id ` set (recent q)"
      "length (pending q) < capacity q" "guest_count q (container (summary d)) < per_guest q"
    and eq: "snd (enqueue t d q) = notify ?q"
    by (auto simp: enqueue_def list_ex_iff map_of_eq_None_iff split: if_splits)
  have "queue_inv ?q"
  proof (rule queue_invI)
    show "guest_count ?q c \<le> per_guest ?q" for c
      using queue_invD(7) [OF assms, of c] new(4) by (auto simp: guest_count_def)
    show "detail_id (detail x) = j" if "(j, x) \<in> set (pending ?q)" for j x
      using that queue_invD(2) [OF assms] by auto
    show "opt_any (\<lambda>c. sender_alive c \<and> message c = None) (map_of (channels ?q) j)"
      if "j \<in> set (keys (pending ?q))" for j
      using that queue_invD(8) [OF assms, of j] by (auto simp: update_conv')
  qed (use new queue_invD [OF assms] in auto)
  then show ?thesis by (simp add: eq)
qed

lemma queue_inv_channels:
  assumes "queue_inv q" and "\<And>j. j \<in> set (keys (pending q)) \<Longrightarrow>
      opt_any (\<lambda>c. sender_alive c \<and> message c = None) (map_of cs j)"
  shows "queue_inv (q\<lparr>channels := cs\<rparr>)"
  by (rule queue_invI) (use queue_invD [OF assms(1)] assms(2) in \<open>auto simp: guest_count_def\<close>)

lemma queue_inv_send:
  assumes "queue_inv q" and "i \<notin> set (keys (pending q))"
  shows "queue_inv (snd (send i d q))"
proof (cases "is_closed q i")
  case True
  then show ?thesis using queue_inv_drop_sender [OF assms] by (simp add: send_def)
next
  case False
  have "queue_inv (q\<lparr>channels := AList.update i
      \<lparr>message = Some d, sender_alive = False, receiver_alive = True\<rparr> (channels q)\<rparr>)"
  proof (rule queue_inv_channels [OF assms(1)])
    show "opt_any (\<lambda>c. sender_alive c \<and> message c = None)
        (map_of (AList.update i \<lparr>message = Some d, sender_alive = False, receiver_alive = True\<rparr> (channels q)) j)"
      if "j \<in> set (keys (pending q))" for j
      using that assms(2) queue_invD(8) [OF assms(1) that] by (auto simp: update_conv')
  qed
  then show ?thesis using False by (simp add: send_def)
qed

lemma queue_inv_observe: "queue_inv q \<Longrightarrow> queue_inv (observe t i st http out q)"
  unfolding observe_def by (rule queue_inv_amend) (auto simp: Let_def)

lemma queue_inv_decide:
  assumes "queue_inv q"
  shows "queue_inv (snd (decide t i fp d q))"
proof -
  have sent: "queue_inv (snd (send i d (the (archive t i st out q))))" if "map_of (pending q) i = Some e" for st out e
  proof -
    have "archive t i st out q \<noteq> None" using that by (simp add: archive_def)
    then obtain q1 where "archive t i st out q = Some q1" by auto
    then show ?thesis using queue_inv_send [OF queue_inv_archive [OF assms] archive_pending] by simp
  qed
  show ?thesis
    using assms sent queue_inv_archive_drop [OF assms] queue_inv_observe
    by (auto simp: decide_def Let_def case_prod_unfold split: option.splits Decision_kind.splits)
qed

lemma queue_inv_put:
  assumes "queue_inv q" and "map_of (pending q) i = Some e" and "summary d = summary (detail e)"
  shows "queue_inv (q\<lparr>pending := AList.update i (e\<lparr>detail := d\<rparr>) (pending q)\<rparr>)" (is "queue_inv ?q")
proof -
  have image: "map (\<lambda>(j, x). (j, summary (detail x))) (pending ?q) = map (\<lambda>(j, x). (j, summary (detail x))) (pending q)"
    using update_same_image [OF assms(2), of "\<lambda>x. summary (detail x)" "e\<lparr>detail := d\<rparr>"] assms(3) by simp
  have keys: "keys (pending ?q) = keys (pending q)"
    using arg_cong [OF image, of "map fst"] by (simp add: case_prod_unfold comp_def)
  have summaries: "(\<lambda>(j, x). (j, summary (detail x))) ` set (pending ?q) = (\<lambda>(j, x). (j, summary (detail x))) ` set (pending q)"
    using arg_cong [OF image, of set] by (simp only: set_map)
  have count: "guest_count x c = length (filter (\<lambda>(_, s). container s = c) (map (\<lambda>(j, x). (j, summary (detail x))) (pending x)))" for x c
    by (simp add: guest_count_def filter_map comp_def case_prod_unfold)
  show ?thesis
  proof (rule queue_invI)
    show "detail_id (detail x) = j" if "(j, x) \<in> set (pending ?q)" for j x
    proof -
      have "(j, summary (detail x)) \<in> (\<lambda>(j, x). (j, summary (detail x))) ` set (pending q)"
        using that summaries by force
      then show ?thesis using queue_invD(2) [OF assms(1)] by auto
    qed
    show "guest_count ?q c \<le> per_guest ?q" for c
      using queue_invD(7) [OF assms(1), of c] unfolding count image by simp
    show "length (pending ?q) \<le> capacity ?q"
      using queue_invD(6) [OF assms(1)] arg_cong [OF keys, of length] by simp
    show "opt_any (\<lambda>c. sender_alive c \<and> message c = None) (map_of (channels ?q) j)"
      if "j \<in> set (keys (pending ?q))" for j
      using queue_invD(8) [OF assms(1), of j] that unfolding keys by simp
    show "set (keys (pending ?q)) \<inter> detail_id ` set (recent ?q) = {}"
      using queue_invD(4) [OF assms(1)] unfolding keys by simp
  qed (use queue_invD(1,3,5) [OF assms(1)] keys in simp_all)
qed

lemma queue_inv_set_resolved:
  assumes "queue_inv q"
  shows "queue_inv (snd (set_resolved t new i fp r revision q))"
  using assms by (auto simp: set_resolved_def Let_def split: option.splits intro!: queue_inv_put)

lemma queue_inv_change_guest_upload:
  assumes "queue_inv q"
  shows "queue_inv (snd (change_guest_upload t i c inst session remove q))"
  using assms queue_inv_archive_drop [OF assms] queue_inv_recent [OF assms refl]
  by (auto simp: change_guest_upload_def split: option.splits)

lemma queue_inv_cancel_container:
  assumes "queue_inv q"
  shows "queue_inv (cancel_container t c q)"
proof -
  have "queue_inv (fold (\<lambda>i. archive_drop t i st out) is x)" if "queue_inv x" for "is" st out x
    using that by (induction "is" arbitrary: x) (auto intro: queue_inv_archive_drop)
  then show ?thesis using assms by (simp add: cancel_container_def)
qed

lemma cancel_pending_pending: "i \<notin> set (keys (pending (cancel_pending t i st out q)))"
proof (cases "map_of (pending q) i")
  case None
  then have "cancel_pending t i st out q = q" by (simp add: cancel_pending_def archive_def)
  then show ?thesis using None by (simp add: map_of_eq_None_iff)
next
  case (Some e)
  then show ?thesis by (auto simp: cancel_pending_def archive_def AList.delete_eq)
qed

lemma queue_inv_drop_ticket:
  assumes "queue_inv q"
  shows "queue_inv (drop_ticket t i q)"
proof -
  let ?q = "cancel_pending t i Cancelled ''Waiting request was cancelled. Not sent.'' q"
  have inv: "queue_inv ?q" and i: "i \<notin> set (keys (pending ?q))"
    using queue_inv_cancel_pending [OF assms] cancel_pending_pending by blast+
  show ?thesis
    unfolding drop_ticket_def Let_def
  proof (rule queue_inv_channels [OF inv])
    show "opt_any (\<lambda>c. sender_alive c \<and> message c = None)
        (map_of (case map_of (channels ?q) i of None \<Rightarrow> channels ?q
            | Some c \<Rightarrow> AList.update i (c\<lparr>receiver_alive := False\<rparr>) (channels ?q)) j)"
      if "j \<in> set (keys (pending ?q))" for j
      using that i queue_invD(8) [OF inv that] by (auto simp: update_conv' split: option.splits)
  qed
qed

lemma queue_inv_apply_op: "queue_inv q \<Longrightarrow> queue_inv (apply_op op q)"
proof (cases op)
  case (Op_upload_result i u)
  moreover assume "queue_inv q"
  from queue_inv_recent [OF this map_id_update_first] have "queue_inv (upload_result i u q)"
    by (simp add: upload_result_def)
  ultimately show ?thesis by simp
qed (auto simp: response_detail_def graphql_response_detail_def ticket_timeout_def
    intro: queue_inv_enqueue queue_inv_change_guest_upload queue_inv_amend queue_inv_observe queue_inv_decide
      queue_inv_set_resolved queue_inv_cancel_container queue_inv_cancel_pending queue_inv_drop_ticket)

text \<open>The limits are those of construction.\<close>

definition limits :: "Queue \<Rightarrow> nat \<times> nat" where
  "limits q = (capacity q, per_guest q)"

lemma limits_simps [simp]:
  "limits (notify q) = limits q" "limits (drop_sender i q) = limits q"
  "limits (q\<lparr>recent := ds\<rparr>) = limits q" "limits (q\<lparr>channels := cs\<rparr>) = limits q" "limits (q\<lparr>pending := ps\<rparr>) = limits q"
  by (simp_all add: limits_def)

lemma limits_archive: "archive t i st out q = Some q' \<Longrightarrow> limits q' = limits q"
  by (auto simp: archive_def split: option.splits)

lemma limits_archive_drop [simp]: "limits (archive_drop t i st out q) = limits q"
  by (auto simp: archive_drop_def split: option.splits dest: limits_archive)

lemma limits_cancel [simp]:
  "limits (cancel_pending t i st out q) = limits q" "limits (amend_recent i guard f q) = limits q"
  "limits (drop_ticket t i q) = limits q" "limits (snd (send i d q)) = limits q"
  by (auto simp: cancel_pending_def amend_recent_def drop_ticket_def send_def Let_def
      split: option.splits dest: limits_archive)

lemma limits_decide: "limits (snd (decide t i fp d q)) = limits q"
proof (cases "map_of (pending q) i")
  case (Some e)
  have "limits (the (archive t i st out q)) = limits q" for st out
    using Some by (simp add: archive_def)
  then show ?thesis
    using Some by (simp add: decide_def observe_def Let_def case_prod_unfold split: Decision_kind.splits)
qed (simp add: decide_def)

lemma limits_cancel_container: "limits (cancel_container t c q) = limits q"
proof -
  have "limits (fold (\<lambda>i. archive_drop t i st out) is x) = limits x" for "is" st out x
    by (induction "is" arbitrary: x) simp_all
  then show ?thesis by (simp add: cancel_container_def)
qed

lemma limits_apply_op: "limits (apply_op op q) = limits q"
  by (cases op) (auto simp: enqueue_def upload_result_def change_guest_upload_def response_detail_def
      graphql_response_detail_def observe_def set_resolved_def ticket_timeout_def Let_def limits_decide
      limits_cancel_container split: option.splits)

lemma reachable_inv: "reachable q \<Longrightarrow> queue_inv q \<and> limits q = (MAX_PENDING, MAX_PER_GUEST)"
proof (induction rule: reachable.induct)
  case initial
  then show ?case by (simp add: queue_inv_def new_queue_def with_limits_def guest_count_def limits_def)
qed (simp add: queue_inv_apply_op limits_apply_op)

text \<open>
  C25. Whatever sequence of operations the proxies, the guests and the host interleave: at most 32
  requests wait, at most 8 of one guest; at most 100 snapshots are retained; no id occurs twice among
  the waiting and the retained requests together; and every waiting request has a channel on which
  nothing has been sent and whose sender is alive.
\<close>

theorem queue_invariant:
  assumes "reachable q"
  shows "length (pending q) \<le> 32 \<and> guest_count q c \<le> 8 \<and> length (recent q) \<le> 100
    \<and> distinct (map (detail_id \<circ> detail \<circ> snd) (pending q) @ map detail_id (recent q))
    \<and> set (keys (pending q)) \<subseteq> {i. opt_any (\<lambda>ch. sender_alive ch \<and> message ch = None) (map_of (channels q) i)}"
proof -
  have inv: "queue_inv q" and lim: "capacity q = 32" "per_guest q = 8"
    using reachable_inv [OF assms] by (simp_all add: limits_def MAX_PENDING_def MAX_PER_GUEST_def)
  have ids: "map (detail_id \<circ> detail \<circ> snd) (pending q) = keys (pending q)"
    using queue_invD(2) [OF inv] by (auto simp: comp_def)
  have "distinct (map (detail_id \<circ> detail \<circ> snd) (pending q) @ map detail_id (recent q))"
    unfolding ids using queue_invD(1,3,4) [OF inv] by simp
  moreover have "set (keys (pending q)) \<subseteq> {i. opt_any (\<lambda>ch. sender_alive ch \<and> message ch = None) (map_of (channels q) i)}"
    using queue_invD(8) [OF inv] by blast
  ultimately show ?thesis
    using queue_invD(5,6) [OF inv] queue_invD(7) [OF inv, of c] lim by (simp add: HISTORY_LIMIT_def)
qed

section \<open>Decisions\<close>

text \<open>What the ticket of a request has been told.\<close>

definition answer :: "Queue \<Rightarrow> uuid \<Rightarrow> Decision_kind option" where
  "answer q i = Option.bind (map_of (channels q) i) message"

lemma answer_notify [simp]: "answer (notify q) = answer q"
  by (simp add: answer_def fun_eq_iff)

lemma answer_channels: "channels q' = channels q \<Longrightarrow> answer q' = answer q"
  by (simp add: answer_def fun_eq_iff)

lemma answer_drop_sender [simp]: "answer (drop_sender i q) = answer q"
  by (auto simp: answer_def fun_eq_iff bind_map_option comp_def)

lemma answer_archive: "archive t i st out q = Some q' \<Longrightarrow> answer q' = answer q"
  by (auto simp: archive_def split: option.splits intro: answer_channels)

lemma answer_archive_drop [simp]: "answer (archive_drop t i st out q) = answer q"
  by (auto simp: archive_drop_def split: option.splits dest: answer_archive)

lemma answer_cancel_pending [simp]: "answer (cancel_pending t i st out q) = answer q"
  by (auto simp: cancel_pending_def split: option.splits dest: answer_archive)

lemma answer_amend [simp]: "answer (amend_recent i guard f q) = answer q"
proof -
  have "answer (q\<lparr>recent := ds\<rparr>) = answer q" for ds by (rule answer_channels) simp
  then show ?thesis by (auto simp: amend_recent_def split: option.splits)
qed

lemma answer_cancel_container [simp]: "answer (cancel_container t c q) = answer q"
proof -
  have "answer (fold (\<lambda>i. archive_drop t i st out) is x) = answer x" for "is" st out x
    by (induction "is" arbitrary: x) simp_all
  then show ?thesis by (simp add: cancel_container_def)
qed

lemma answer_drop_receiver:
  "answer (q\<lparr>channels := (case map_of (channels q) i of
       None \<Rightarrow> channels q | Some c \<Rightarrow> AList.update i (c\<lparr>receiver_alive := False\<rparr>) (channels q))\<rparr>) = answer q"
  by (auto simp: answer_def fun_eq_iff update_conv' split: option.splits)

lemma answer_drop_ticket [simp]: "answer (drop_ticket t i q) = answer q"
  by (simp add: drop_ticket_def Let_def answer_drop_receiver)

lemma answer_set_resolved [simp]: "answer (snd (set_resolved t new i fp r revision q)) = answer q"
  by (rule answer_channels) (auto simp: set_resolved_def Let_def split: option.splits)

lemma answer_change_guest_upload [simp]: "answer (snd (change_guest_upload t i c inst session remove q)) = answer q"
proof -
  have "answer (q\<lparr>recent := ds\<rparr>) = answer q" for ds by (rule answer_channels) simp
  then show ?thesis by (auto simp: change_guest_upload_def split: option.splits)
qed

lemma answer_upload_result [simp]: "answer (upload_result i u q) = answer q"
  by (rule answer_channels) (simp add: upload_result_def)

lemma answer_enqueue: "answer (snd (enqueue t d q)) i = Some x \<Longrightarrow> answer q i = Some x"
  by (auto simp: enqueue_def answer_def update_conv' split: if_splits)

lemma answer_send:
  "answer (snd (send i d q)) j = (if j = i \<and> \<not> is_closed q i then Some d else answer q j)"
  by (auto simp: send_def) (auto simp: answer_def update_conv')

lemma is_closed_archive: "archive t i st out q = Some q' \<Longrightarrow> is_closed q' j = is_closed q j"
  by (auto simp: archive_def is_closed_def split: option.splits)

lemma answer_decide:
  assumes "answer (snd (decide t i fp d q)) j = Some x" and "answer q j \<noteq> Some x"
  shows "j = i \<and> x = d \<and> (\<exists>e. map_of (pending q) i = Some e \<and> fingerprint (summary (detail e)) = fp
     \<and> mono t < deadline e \<and> \<not> is_closed q i)"
proof (cases "map_of (pending q) i")
  case None
  then show ?thesis using assms by (simp add: decide_def)
next
  case (Some e)
  have guards: "fingerprint (summary (detail e)) = fp" "mono t < deadline e" "\<not> is_closed q i"
    using assms Some by (auto simp: decide_def not_less split: if_splits)
  have sent: "answer (snd (send i d (the (archive t i st out q)))) k = (if k = i then Some d else answer q k)" for st out k
  proof -
    have "archive t i st out q \<noteq> None" using Some by (simp add: archive_def)
    then obtain q1 where "archive t i st out q = Some q1" by auto
    then show ?thesis using guards(3) is_closed_archive answer_archive by (simp add: answer_send)
  qed
  have "answer (snd (decide t i fp d q)) j = (if j = i then Some d else answer q j)"
    using Some guards sent
    by (simp add: decide_def observe_def Let_def case_prod_unfold split: Decision_kind.splits)
  then show ?thesis using assms guards Some by (auto split: if_splits)
qed

lemma answered_step:
  assumes "answer (apply_op op q) i = Some d" and "answer q i \<noteq> Some d"
  obtains t e where "op = Op_decide t i (fingerprint (summary (detail e))) d" "map_of (pending q) i = Some e"
    "mono t < deadline e" "\<not> is_closed q i"
proof -
  obtain t j fp d' where op: "op = Op_decide t j fp d'"
    using assms by (cases op) (auto simp: response_detail_def graphql_response_detail_def observe_def
        ticket_timeout_def dest: answer_enqueue)
  then show ?thesis using answer_decide [of t j fp d' q i d] assms that by auto
qed

text \<open>
  C5. A waiting request is told a decision only by the host's \<open>decide\<close> on exactly that snapshot: the
  fingerprint given is the one of the request's bytes, its deadline has not passed, its client still
  waits, and it was not answered before. No other operation can answer it, and an answer is never
  replaced by another one.
\<close>

theorem decision_needs_review:
  assumes "reachable q" and "answer (apply_op op q) i = Some d" and "answer q i \<noteq> Some d"
  shows "answer q i = None \<and> (\<exists>t e. op = Op_decide t i (fingerprint (summary (detail e))) d
    \<and> map_of (pending q) i = Some e \<and> mono t < deadline e \<and> \<not> is_closed q i)"
proof -
  have inv: "queue_inv q" using reachable_inv [OF assms(1)] by simp
  obtain t e where e: "op = Op_decide t i (fingerprint (summary (detail e))) d" "map_of (pending q) i = Some e"
      "mono t < deadline e" "\<not> is_closed q i"
    using answered_step [OF assms(2,3)] .
  have "answer q i = None"
    using queue_invD(8) [OF inv, of i] map_of_SomeD [OF e(2)] by (force simp: answer_def opt_any_iff)
  then show ?thesis using e by blast
qed

section \<open>Settled requests\<close>

definition settled :: "uuid \<Rightarrow> Status \<Rightarrow> Queue \<Rightarrow> bool" where
  "settled i st q \<longleftrightarrow> i \<notin> set (keys (pending q)) \<and> list_all (\<lambda>d. detail_id d = i \<longrightarrow> detail_status d = st) (recent q)"

definition final :: "Status \<Rightarrow> bool" where
  "final st \<longleftrightarrow> \<not> active st \<and> st \<noteq> ResponseReceived"

lemma settled_simps [simp]:
  "settled i st (notify q) = settled i st q" "settled i st (drop_sender j q) = settled i st q"
  "settled i st (q\<lparr>channels := cs\<rparr>) = settled i st q"
  by (simp_all add: settled_def)

lemma settled_archive:
  assumes "queue_inv q" and "settled i st q" and "archive t j st' out q = Some q'"
  shows "settled i st q'"
proof -
  obtain e where "map_of (pending q) j = Some e" and e: "detail_id (detail e) = j" "j \<in> set (keys (pending q))"
    and q': "q' = q\<lparr>pending := AList.delete j (pending q),
            recent := push_recent (archived (utc t) st' out (detail e)) (recent q)\<rparr>"
    using archive_Some [OF assms(3,1)] .
  have "i \<noteq> j" using assms(2) e(2) by (auto simp: settled_def)
  then show ?thesis
    using assms(2) e(1) recent_history.push_set [OF queue_invD(5) [OF assms(1)], of "archived (utc t) st' out (detail e)"]
    by (auto simp: settled_def q' AList.delete_eq list_all_iff)
qed

lemma settled_archive_drop:
  "queue_inv q \<Longrightarrow> settled i st q \<Longrightarrow> settled i st (archive_drop t j st' out q)"
  by (auto simp: archive_drop_def split: option.splits dest: settled_archive)

lemma settled_cancel_pending:
  "queue_inv q \<Longrightarrow> settled i st q \<Longrightarrow> settled i st (cancel_pending t j st' out q)"
  by (auto simp: cancel_pending_def split: option.splits dest: settled_archive)

lemma settled_amend:
  assumes "settled i st q" and "\<And>d. detail_id (f d) = detail_id d"
    and "\<And>d. detail_status d = st \<Longrightarrow> guard d \<Longrightarrow> detail_status (f d) = st"
  shows "settled i st (amend_recent j guard f q)"
proof (cases "find (\<lambda>d. detail_id d = j) (recent q)")
  case (Some d)
  have "list_all (\<lambda>d. detail_id d = i \<longrightarrow> detail_status d = st) (update_first (\<lambda>d. detail_id d = j) f ds)"
    if "list_all (\<lambda>d. detail_id d = i \<longrightarrow> detail_status d = st) ds" "find (\<lambda>d. detail_id d = j) ds = Some d" "guard d" for ds
    using that by (induction ds) (auto split: if_splits simp: assms(2,3))
  then show ?thesis using assms(1) Some by (auto simp: amend_recent_def settled_def)
qed (use assms(1) in \<open>simp add: amend_recent_def\<close>)

lemma settled_decide:
  assumes "queue_inv q" and "settled i st q" and "final st"
  shows "settled i st (snd (decide t j fp d q))"
proof (cases "map_of (pending q) j")
  case (Some e)
  have "settled i st (snd (send j d (the (archive t j st' out q))))" for st' out
  proof -
    have "archive t j st' out q \<noteq> None" using Some by (simp add: archive_def)
    then show ?thesis using settled_archive [OF assms(1,2)] by (auto simp: send_def)
  qed
  moreover have "settled i st (observe t j Cancelled None out q')" if "settled i st q'" for out q'
    unfolding observe_def by (rule settled_amend [OF that]) (use assms(3) in \<open>auto simp: final_def Let_def\<close>)
  ultimately show ?thesis
    using assms Some settled_archive_drop [OF assms(1,2)]
    by (auto simp: decide_def Let_def case_prod_unfold split: Decision_kind.splits)
qed (use assms in \<open>simp add: decide_def\<close>)

lemma settled_cancel_container:
  assumes "queue_inv q" and "settled i st q"
  shows "settled i st (cancel_container t c q)"
proof -
  have "settled i st (fold (\<lambda>j. archive_drop t j st' out) js x)" if "queue_inv x" "settled i st x" for js st' out x
    using that by (induction js arbitrary: x) (auto intro: settled_archive_drop queue_inv_archive_drop)
  then show ?thesis using assms by (simp add: cancel_container_def)
qed

lemma settled_apply_op:
  assumes "queue_inv q" and "settled i st q" and "final st" and "i \<in> detail_id ` set (recent q)"
  shows "settled i st (apply_op op q)"
proof (cases op)
  case (Op_upload_result j u)
  have "list_all (\<lambda>d. detail_id d = i \<longrightarrow> detail_status d = st) (update_first P f ds)"
    if "list_all (\<lambda>d. detail_id d = i \<longrightarrow> detail_status d = st) ds" "\<And>d. summary (f d) = summary d" for P f ds
    using that by (induction ds) auto
  then show ?thesis using Op_upload_result assms(2) by (simp add: upload_result_def settled_def)
next
  case (Op_change_guest_upload t j c inst session remove)
  then show ?thesis
    using assms(2) settled_archive_drop [OF assms(1,2)]
    by (auto simp: change_guest_upload_def list_all_iff settled_def split: option.splits)
next
  case (Op_set_resolved t new j fp r revision)
  have "set (keys (AList.update j e (pending q))) = set (keys (pending q))" if "map_of (pending q) j = Some x" for e x
    using that by (force simp: dom_update dest: map_of_SomeD)
  then show ?thesis
    using Op_set_resolved assms(2)
    by (auto simp: set_resolved_def settled_def Let_def simp del: set_map split: option.splits)
next
  case (Op_drop_ticket t j)
  then show ?thesis using settled_cancel_pending [OF assms(1,2)] by (simp add: drop_ticket_def Let_def)
next
  case (Op_enqueue t d)
  then show ?thesis using assms(2,4) by (auto simp: enqueue_def settled_def list_ex_iff)
qed (use assms in \<open>auto simp: response_detail_def graphql_response_detail_def observe_def ticket_timeout_def final_def Let_def
    intro!: settled_decide settled_cancel_container settled_cancel_pending settled_amend\<close>)

text \<open>
  An outcome is final: once a retained request was denied, expired, cancelled or blocked, or its
  upstream error, GraphQL error or unknown result was recorded, no later operation, whoever calls it
  and in whatever order, changes that status or lets the request wait again while it is retained.
\<close>

theorem outcomes_are_final:
  assumes "reachable q" and "d \<in> set (recent q)" and "final (detail_status d)"
    and "d' \<in> set (recent (apply_op op q))" and "detail_id d' = detail_id d"
  shows "detail_status d' = detail_status d \<and> detail_id d \<notin> set (keys (pending (apply_op op q)))"
proof -
  have inv: "queue_inv q" using reachable_inv [OF assms(1)] by simp
  have "x = d" if "x \<in> set (recent q)" "detail_id x = detail_id d" for x
    using that assms(2) queue_invD(3) [OF inv] by (auto simp: distinct_map inj_on_def)
  then have "settled (detail_id d) (detail_status d) q"
    using queue_invD(4) [OF inv] assms(2) by (auto simp: settled_def list_all_iff)
  from settled_apply_op [OF inv this assms(3)] have "settled (detail_id d) (detail_status d) (apply_op op q)"
    using assms(2) by blast
  then show ?thesis using assms(4,5) by (auto simp: settled_def list_all_iff)
qed

section \<open>Fingerprints\<close>

lemma pairs_unique:
  "concat (map (\<lambda>(n, v). [n, g v]) hs) @ [b] = concat (map (\<lambda>(n, v). [n, g v]) ks) @ [c] \<Longrightarrow>
     map (\<lambda>(n, v). (n, g v)) hs = map (\<lambda>(n, v). (n, g v)) ks \<and> b = c"
proof (induction hs arbitrary: ks)
  case Nil
  then show ?case by (cases ks) auto
next
  case (Cons h hs)
  then obtain k ks' where "ks = k # ks'" by (cases ks) (auto simp: case_prod_unfold)
  then show ?case using Cons.prems Cons.IH [of ks'] by (auto simp: case_prod_unfold)
qed

lemma from_request_fingerprint:
  assumes "from_request_with_limit vc sha256 t new_id c req bytes max_body = Inr d"
  shows "fingerprint (summary d) = sha256 (fingerprint_input req bytes)"
  using assms by (auto simp: from_request_with_limit_def bind_res_Inr_iff Let_def case_prod_unfold)

text \<open>
  The fingerprint the host approves commits to the whole request. Two requests that are both
  accepted for review with one fingerprint, no SHA-256 collision between their inputs, have the same
  method, the same URL, the same header names and values in the same order, the redacted ones
  included, and the same body.
\<close>

theorem fingerprint_identifies_request:
  assumes "from_request_with_limit vc sha256 t i c req bytes max_body = Inr d"
    and "from_request_with_limit vc' sha256 t' i' c' req' bytes' max_body' = Inr d'"
    and "fingerprint (summary d) = fingerprint (summary d')"
    and no_collision: "\<And>x. sha256 x = sha256 (fingerprint_input req bytes) \<Longrightarrow> x = fingerprint_input req bytes"
    and "list_all (\<lambda>v. length v < 2 ^ 64) (fingerprint_fields req bytes @ fingerprint_fields req' bytes')"
  shows "req_method req = req_method req' \<and> uri_text (uri req) = uri_text (uri req')
    \<and> map (\<lambda>(n, v). (n, hv_bytes v)) (headers req) = map (\<lambda>(n, v). (n, hv_bytes v)) (headers req') \<and> bytes = bytes'"
proof -
  have "sha256 (fingerprint_input req' bytes') = sha256 (fingerprint_input req bytes)"
    using assms(3) from_request_fingerprint [OF assms(1)] from_request_fingerprint [OF assms(2)] by simp
  then have "fingerprint_input req bytes = fingerprint_input req' bytes'" using no_collision by metis
  then have "fingerprint_fields req bytes = fingerprint_fields req' bytes'"
    using digest_frames_unique assms(5) by (simp only: fingerprint_input_def)
  then show ?thesis
    using pairs_unique [of hv_bytes "headers req" bytes "headers req'" bytes'] by (simp add: fingerprint_fields_def)
qed

section \<open>Sample runs\<close>

definition sample_views :: view_code where
  "sample_views = \<lparr>inspect_view = (\<lambda>_ _ _. (False, JNull)), review_facts = (\<lambda>_. None), unavailable = JString\<rparr>"

definition sample_clock :: "nat \<Rightarrow> clock" where
  "sample_clock n = \<lparr>mono = n, utc = n\<rparr>"

definition sample_detail :: Detail where
  "sample_detail = projr (from_request sample_views (\<lambda>s. s) (sample_clock 5) 7 ''guest''
     (sample_post ''github.com'' ''/o/r'') [])"

lemma sample_detail_from:
  "from_request_with_limit sample_views (\<lambda>s. s) (sample_clock 5) 7 ''guest'' (sample_post ''github.com'' ''/o/r'') [] MAX_BODY
     = Inr sample_detail"
  by code_simp

definition sample_queue :: Queue where
  "sample_queue = apply_op (Op_enqueue (sample_clock 5) sample_detail) new_queue"

lemma sample_queue_reachable: "reachable sample_queue"
  unfolding sample_queue_def by (intro reachable.intros)

theorem queue_invariant_witness:
  "length (pending sample_queue) \<le> 32 \<and> guest_count sample_queue ''guest'' \<le> 8 \<and> length (recent sample_queue) \<le> 100
    \<and> distinct (map (detail_id \<circ> detail \<circ> snd) (pending sample_queue) @ map detail_id (recent sample_queue))
    \<and> set (keys (pending sample_queue)) \<subseteq>
        {i. opt_any (\<lambda>ch. sender_alive ch \<and> message ch = None) (map_of (channels sample_queue) i)}"
  by (rule queue_invariant [OF sample_queue_reachable])

definition sample_decision :: queue_op where
  "sample_decision = Op_decide (sample_clock 9) 7 (fingerprint (summary sample_detail)) Deny"

lemma sample_answers:
  "answer (apply_op sample_decision sample_queue) 7 = Some Deny" "answer sample_queue 7 \<noteq> Some Deny"
  by code_simp+

theorem decision_needs_review_witness:
  "answer sample_queue 7 = None \<and> (\<exists>t e. sample_decision = Op_decide t 7 (fingerprint (summary (detail e))) Deny
    \<and> map_of (pending sample_queue) 7 = Some e \<and> mono t < deadline e \<and> \<not> is_closed sample_queue 7)"
  by (rule decision_needs_review [OF sample_queue_reachable sample_answers])

definition sample_denied :: Queue where
  "sample_denied = apply_op sample_decision sample_queue"

lemma sample_denied_reachable: "reachable sample_denied"
  unfolding sample_denied_def by (intro reachable.step sample_queue_reachable)

theorem outcomes_are_final_witness:
  "detail_status (List.hd (recent (apply_op (Op_observe (sample_clock 11) 7 Unknown None ''x'') sample_denied))) = Denied"
proof -
  let ?op = "Op_observe (sample_clock 11) 7 Unknown None ''x''"
  let ?d = "List.hd (recent sample_denied)"
  let ?e = "List.hd (recent (apply_op ?op sample_denied))"
  have "recent sample_denied \<noteq> []" "recent (apply_op ?op sample_denied) \<noteq> []" by code_simp+
  then have "?d \<in> set (recent sample_denied)" "?e \<in> set (recent (apply_op ?op sample_denied))" by simp_all
  moreover have "final (detail_status ?d)" "detail_id ?e = detail_id ?d" "detail_status ?d = Denied" by code_simp+
  ultimately show ?thesis
    using outcomes_are_final [OF sample_denied_reachable, of ?d ?e ?op] by simp
qed

lemma sample_detail_again:
  "from_request_with_limit sample_views (\<lambda>s. s) (sample_clock 6) 8 ''other'' (sample_post ''github.com'' ''/o/r'') [] MAX_BODY
     = Inr (projr (from_request sample_views (\<lambda>s. s) (sample_clock 6) 8 ''other'' (sample_post ''github.com'' ''/o/r'') []))"
  by code_simp

theorem fingerprint_identifies_request_witness:
  "req_method (sample_post ''github.com'' ''/o/r'') = req_method (sample_post ''github.com'' ''/o/r'')
    \<and> uri_text (uri (sample_post ''github.com'' ''/o/r'')) = uri_text (uri (sample_post ''github.com'' ''/o/r''))
    \<and> map (\<lambda>(n, v). (n, hv_bytes v)) (headers (sample_post ''github.com'' ''/o/r''))
        = map (\<lambda>(n, v). (n, hv_bytes v)) (headers (sample_post ''github.com'' ''/o/r'')) \<and> ([] :: string) = []"
proof (rule fingerprint_identifies_request [OF sample_detail_from sample_detail_again])
  show "fingerprint (summary sample_detail) =
      fingerprint (summary (projr (from_request sample_views (\<lambda>s. s) (sample_clock 6) 8 ''other'' (sample_post ''github.com'' ''/o/r'') [])))"
    by code_simp
  show "list_all (\<lambda>v. length v < 2 ^ 64) (fingerprint_fields (sample_post ''github.com'' ''/o/r'') []
      @ fingerprint_fields (sample_post ''github.com'' ''/o/r'') [])" by code_simp
qed

end
