(* ===== verification/Storage.thy ===== *)
theory Storage
  imports Prelude
begin

text \<open>
  \<open>storage.rs\<close>: publication of a complete file. \<open>atomic_write_file\<close> is the function on a directory, step
  by step; \<open>atomic_write\<close> is what its callers rely on, the effect on the destination alone.
\<close>

datatype io_fault = No_fault | Fault_open | Fault_write | Fault_sync | Fault_rename

definition atomic_write :: "io_fault \<Rightarrow> 'c \<Rightarrow> 'c option \<Rightarrow> (string + unit) \<times> 'c option" where
  "atomic_write fault contents target =
     (case fault of
        Fault_open \<Rightarrow> (Inl ''open'', target)
      | Fault_write \<Rightarrow> (Inl ''write'', target)
      | Fault_sync \<Rightarrow> (Inl ''sync'', target)
      | Fault_rename \<Rightarrow> (Inl ''rename'', target)
      | No_fault \<Rightarrow> (Inr (), Some contents))"

section \<open>On a directory\<close>

type_synonym files = "string \<Rightarrow> string option"

text \<open>
  \<open>torn\<close> bytes reach the file when the write fails; \<open>create_new\<close> refuses an existing temporary file.
  \<open>rename\<close> replaces the destination in one step.
\<close>

definition stage_and_rename :: "io_fault \<Rightarrow> nat \<Rightarrow> string \<Rightarrow> string \<Rightarrow> string \<Rightarrow> files \<Rightarrow> (string + unit) \<times> files" where
  "stage_and_rename fault torn tmp target contents fs =
     (if fault = Fault_open \<or> fs tmp \<noteq> None then (Inl ''open'', fs)
      else if fault = Fault_write then (Inl ''write'', fs(tmp \<mapsto> take torn contents))
      else if fault = Fault_sync then (Inl ''sync'', fs(tmp \<mapsto> contents))
      else if fault = Fault_rename then (Inl ''rename'', fs(tmp \<mapsto> contents))
      else (Inr (), (fs(tmp := None))(target \<mapsto> contents)))"

text \<open>The removal of the temporary file after an error may itself fail (\<open>stuck\<close>), and its result is ignored.\<close>

definition atomic_write_file :: "io_fault \<Rightarrow> nat \<Rightarrow> bool \<Rightarrow> string \<Rightarrow> string \<Rightarrow> string \<Rightarrow> files \<Rightarrow> (string + unit) \<times> files" where
  "atomic_write_file fault torn stuck tmp target contents fs =
     (case stage_and_rename fault torn tmp target contents fs of
        (Inr _, fs') \<Rightarrow> (Inr (), fs')
      | (Inl e, fs') \<Rightarrow> (Inl e, if stuck then fs' else fs'(tmp := None)))"

text \<open>
  C36. The write is atomic. With a fresh temporary name, whichever step fails, the destination holds its
  old contents or, exactly when the write reports success, the complete new ones; no other file
  changes; and no temporary file is left unless its removal failed too. The step-by-step function thus
  refines the effect on the destination that its callers rely on.
\<close>

theorem atomic_write_refines:
  assumes "fs tmp = None" and "tmp \<noteq> target"
    and "atomic_write_file fault torn stuck tmp target contents fs = (r, fs')"
  shows "(r, fs' target) = atomic_write fault contents (fs target)
    \<and> (\<forall>f. f = target \<or> f = tmp \<and> stuck \<or> fs' f = fs f)"
  using assms
  by (cases fault) (auto simp: atomic_write_file_def stage_and_rename_def atomic_write_def split: if_splits)

theorem atomic_write_refines_witness:
  "(Inl ''write'', snd (atomic_write_file Fault_write 1 False ''t'' ''f'' ''new'' [''f'' \<mapsto> ''old'']) ''f'')
     = atomic_write Fault_write ''new'' ([''f'' \<mapsto> ''old''] ''f'')"
proof -
  let ?r = "atomic_write_file Fault_write 1 False ''t'' ''f'' ''new'' [''f'' \<mapsto> ''old'']"
  have "?r = (Inl ''write'', snd ?r)" by (simp add: atomic_write_file_def stage_and_rename_def)
  from atomic_write_refines [OF _ _ this] show ?thesis by simp
qed

end
