(* ===== verification/App_State.thy ===== *)
theory App_State
  imports Review Storage
begin

text \<open>
  \<open>state.rs\<close> and \<open>storage.rs\<close>: the registry of guests with their policy, the request log, the gates that
  admit traffic, and the durable policy file. Every operation is a function on \<open>AppState\<close>, one critical
  section of the state lock each. \<open>Uuid::new_v4\<close> is a supply that never repeats: \<open>uuid_supply\<close> is the
  next one. The policy file is the value \<open>SavedContainers\<close> it encodes. The queues of jobs and pushes are
  arguments of the one operation that shows them.
\<close>

section \<open>State\<close>

datatype Verdict = Allowed_verdict | Blocked_verdict | Pending_verdict

record RequestEvent =
  event_id :: uuid
  sequence :: nat
  event_at :: instant
  event_container :: string
  event_method :: string
  event_url :: string
  verdict :: Verdict
  event_status :: "nat option"
  event_detail :: "string option"

datatype Authorization = Allowed | Pending_approval | IpMismatch

record ContainerRecord =
  last_activity :: "instant option"
  approved :: bool
  pinned_ip :: "IpAddr option"
  last_ip :: "IpAddr option"
  managed :: bool
  policy_epoch :: uuid
  instance_id :: uuid
  comment_permissions :: "Grant list"
  comment_revision :: uuid
  record_cline_access :: ClineAccess

record SavedContainer =
  saved_name :: string
  saved_instance :: uuid
  saved_approved :: bool
  saved_killed :: bool
  saved_pinned_ip :: "IpAddr option"
  saved_comment_permissions :: "Grant list"
  saved_cline_access :: ClineAccess

record SavedContainers =
  saved_version :: nat
  saved_containers :: "SavedContainer list"

type_synonym registry = "(string, ContainerRecord) alist"

record AppState =
  requests :: "RequestEvent list"
  next_sequence :: nat
  killed :: "string list"
  containers :: registry
  policy_path :: bool
  policy_file :: "SavedContainers option"
  github_policy :: GithubPolicy
  changes :: nat
  reviews :: Queue
  uuid_supply :: nat

definition LOG_CAPACITY :: nat where "LOG_CAPACITY = 10000"

text \<open>\<open>ContainerRecord::default()\<close> draws three UUIDs.\<close>

definition default_record :: "nat \<Rightarrow> ContainerRecord" where
  "default_record u =
     \<lparr>last_activity = None, approved = False, pinned_ip = None, last_ip = None, managed = False,
      policy_epoch = u, instance_id = u + 1, comment_permissions = [], comment_revision = u + 2,
      record_cline_access = Basic\<rparr>"

definition initial_state :: "GithubPolicy \<Rightarrow> AppState" where
  "initial_state policy =
     \<lparr>requests = [], next_sequence = 0, killed = [], containers = [], policy_path = False, policy_file = None,
      github_policy = policy, changes = 0, reviews = new_queue, uuid_supply = 0\<rparr>"

definition notify_state :: "AppState \<Rightarrow> AppState" where
  "notify_state s = s\<lparr>changes := changes s + 1\<rparr>"

section \<open>Loading\<close>

datatype policy_read = Missing | Unreadable | Malformed | Contents SavedContainers

definition load_entry :: "SavedContainer \<Rightarrow> nat \<times> registry \<times> string list \<Rightarrow> string + nat \<times> registry \<times> string list" where
  "load_entry e st =
     (case st of (u, reg, kill) \<Rightarrow>
        if str_trim (saved_name e) = [] \<or> contains_key (saved_name e) reg
        then Inl ''empty or duplicate container name''
        else if 32 < length (saved_comment_permissions e) then Inl ''too many saved comment permissions''
        else bind_res (fold_res (\<lambda>g ids. bind_res (validate_grant g) (\<lambda>_.
               if grant_id g \<in> set ids then Inl ''duplicate comment permission ID'' else Inr (grant_id g # ids)))
               (saved_comment_permissions e) []) (\<lambda>_.
          Inr (u + 3,
               reg @ [(saved_name e, (default_record u)\<lparr>approved := saved_approved e, instance_id := saved_instance e,
                 pinned_ip := saved_pinned_ip e, managed := True,
                 comment_permissions := saved_comment_permissions e, record_cline_access := saved_cline_access e\<rparr>)],
               if saved_killed e then List.insert (saved_name e) kill else kill)))"

definition load_state :: "policy_read \<Rightarrow> nat \<Rightarrow> string + AppState" where
  "load_state file u0 =
     bind_res (case file of
         Contents saved \<Rightarrow> Inr saved
       | Missing \<Rightarrow> Inr \<lparr>saved_version = 1, saved_containers = []\<rparr>
       | Malformed \<Rightarrow> Inl ''invalid container policy (restore or repair this file before starting)''
       | Unreadable \<Rightarrow> Inl ''read'') (\<lambda>saved.
       if saved_version saved \<noteq> 1 then Inl ''unsupported container policy version''
       else bind_res (fold_res load_entry (saved_containers saved) (u0, [], [])) (\<lambda>(u, reg, kill).
         Inr ((initial_state PolicyReview)\<lparr>killed := kill, containers := reg, policy_path := True,
                policy_file := (case file of Contents c \<Rightarrow> Some c | _ \<Rightarrow> None), uuid_supply := u\<rparr>)))"

section \<open>The policy transaction\<close>

definition saved_of :: "registry \<Rightarrow> string list \<Rightarrow> SavedContainers" where
  "saved_of reg kill =
     \<lparr>saved_version = 1,
      saved_containers = sort_key saved_name (map (\<lambda>(n, r).
        \<lparr>saved_name = n, saved_instance = instance_id r, saved_approved = approved r,
         saved_killed = (n \<in> set kill), saved_pinned_ip = pinned_ip r,
         saved_comment_permissions = comment_permissions r, saved_cline_access = record_cline_access r\<rparr>)
        (filter (\<lambda>(_, r). managed r) reg))\<rparr>"

type_synonym policy_update = "nat \<Rightarrow> registry \<Rightarrow> string list \<Rightarrow> string + nat \<times> registry \<times> string list"

definition policy_changed :: "registry \<Rightarrow> string list \<Rightarrow> registry \<Rightarrow> string list \<Rightarrow> string \<Rightarrow> ContainerRecord \<Rightarrow> bool" where
  "policy_changed reg kill reg' kill' n old \<longleftrightarrow>
     (case map_of reg' n of
        None \<Rightarrow> True
      | Some new \<Rightarrow> approved new \<noteq> approved old \<or> pinned_ip new \<noteq> pinned_ip old)
     \<or> (n \<in> set kill) \<noteq> (n \<in> set kill')"

text \<open>The loop over the old registry: a changed guest gets a new epoch and loses its waiting reviews.\<close>

fun renew_epochs :: "clock \<Rightarrow> (string \<Rightarrow> ContainerRecord \<Rightarrow> bool) \<Rightarrow> registry \<Rightarrow> nat \<times> registry \<times> Queue \<Rightarrow> nat \<times> registry \<times> Queue" where
  "renew_epochs t changed [] st = st"
| "renew_epochs t changed ((n, old) # rest) (u, reg, q) =
     renew_epochs t changed rest
       (if changed n old
        then (case map_of reg n of
                None \<Rightarrow> (u, reg, cancel_container t n q)
              | Some r \<Rightarrow> (u + 1, AList.update n (r\<lparr>policy_epoch := u\<rparr>) reg, cancel_container t n q))
        else (u, reg, q))"

definition update_policy :: "clock \<Rightarrow> io_fault \<Rightarrow> policy_update \<Rightarrow> AppState \<Rightarrow> (string + unit) \<times> AppState" where
  "update_policy t fault f s =
     (case f (uuid_supply s) (containers s) (killed s) of
        Inl e \<Rightarrow> (Inl e, s)
      | Inr (u, reg, kill) \<Rightarrow>
          (case (if policy_path s then atomic_write fault (saved_of reg kill) (policy_file s)
                 else (Inr (), policy_file s)) of
             (Inl e, file) \<Rightarrow> (Inl ''container policy change was not applied'', s\<lparr>policy_file := file, uuid_supply := u\<rparr>)
           | (Inr _, file) \<Rightarrow>
               (let (u', reg', q) = renew_epochs t (policy_changed (containers s) (killed s) reg kill)
                                      (containers s) (u, reg, reviews s)
                in (Inr (), notify_state (s\<lparr>containers := reg', killed := kill, policy_file := file,
                                            reviews := q, uuid_supply := u'\<rparr>)))))"

section \<open>The request log\<close>

definition push_request :: "RequestEvent \<Rightarrow> RequestEvent list \<Rightarrow> RequestEvent list" where
  "push_request e es = (let es' = es @ [e] in if LOG_CAPACITY < length es' then tl es' else es')"

text \<open>\<open>containers.entry(name).or_default()\<close>\<close>

definition or_default :: "string \<Rightarrow> nat \<Rightarrow> registry \<Rightarrow> nat \<times> registry" where
  "or_default n u reg = (if contains_key n reg then (u, reg) else (u + 3, reg @ [(n, default_record u)]))"

definition modify :: "string \<Rightarrow> (ContainerRecord \<Rightarrow> ContainerRecord) \<Rightarrow> registry \<Rightarrow> registry" where
  "modify n f reg = (case map_of reg n of None \<Rightarrow> reg | Some r \<Rightarrow> AList.update n (f r) reg)"

definition touch_container :: "clock \<Rightarrow> string \<Rightarrow> IpAddr option \<Rightarrow> AppState \<Rightarrow> AppState" where
  "touch_container t n ip s =
     (case or_default n (uuid_supply s) (containers s) of
        (u, reg) \<Rightarrow> s\<lparr>uuid_supply := u,
          containers := modify n (\<lambda>r. let r' = r\<lparr>last_activity := Some (utc t)\<rparr>
                                      in if ip \<noteq> None then r'\<lparr>last_ip := ip\<rparr> else r') reg\<rparr>)"

definition record_activity :: "clock \<Rightarrow> string \<Rightarrow> string \<Rightarrow> string \<Rightarrow> Verdict \<Rightarrow> bool \<Rightarrow> AppState \<Rightarrow> uuid \<times> AppState" where
  "record_activity t c m u v guest_traffic s =
     (let s1 = (if guest_traffic then touch_container t c None s else s);
          i = uuid_supply s1;
          sq = next_sequence s1 + 1;
          ev = \<lparr>event_id = i, sequence = sq, event_at = utc t, event_container = c, event_method = m,
                event_url = u, verdict = v, event_status = None, event_detail = None\<rparr>
      in (i, notify_state (s1\<lparr>next_sequence := sq, uuid_supply := i + 1, requests := push_request ev (requests s1)\<rparr>)))"

definition record_request :: "clock \<Rightarrow> string \<Rightarrow> string \<Rightarrow> string \<Rightarrow> Verdict \<Rightarrow> AppState \<Rightarrow> uuid \<times> AppState" where
  "record_request t c m u v s = record_activity t c m u v True s"

definition record_unattributed :: "clock \<Rightarrow> string \<Rightarrow> string \<Rightarrow> string \<Rightarrow> Verdict \<Rightarrow> AppState \<Rightarrow> uuid \<times> AppState" where
  "record_unattributed t label m u v s = record_activity t label m u v False s"

text \<open>\<open>requests.iter_mut().rev().find(|e| e.id == id)\<close>: the newest event with that id.\<close>

definition amend_event :: "uuid \<Rightarrow> (RequestEvent \<Rightarrow> RequestEvent) \<Rightarrow> AppState \<Rightarrow> AppState" where
  "amend_event i f s = s\<lparr>requests := rev (update_first (\<lambda>e. event_id e = i) f (rev (requests s)))\<rparr>"

definition annotate :: "uuid \<Rightarrow> nat option \<Rightarrow> string option \<Rightarrow> AppState \<Rightarrow> AppState" where
  "annotate i st d s = notify_state (amend_event i (\<lambda>e.
     let e1 = (if st \<noteq> None then e\<lparr>event_status := st\<rparr> else e)
     in if d \<noteq> None then e1\<lparr>event_detail := d\<rparr> else e1) s)"

definition mark_blocked :: "clock \<Rightarrow> uuid \<Rightarrow> nat \<Rightarrow> string \<Rightarrow> AppState \<Rightarrow> AppState" where
  "mark_blocked t i st d s =
     notify_state (amend_event i (\<lambda>e. e\<lparr>verdict := Blocked_verdict, event_status := Some st, event_detail := Some d\<rparr>)
       (s\<lparr>reviews := observe t i Blocked None d (reviews s)\<rparr>))"

section \<open>Gates\<close>

definition auto_approves_upload :: "AppState \<Rightarrow> Detail \<Rightarrow> bool" where
  "auto_approves_upload s d \<longleftrightarrow> allows_all (github_policy s)
     \<and> opt_any (\<lambda>u. destination (upload_submission u) = Github_destination) (file_upload d)"

text \<open>The check that every admission shares, as the code writes it: the condition to refuse.\<close>

definition refused :: "AppState \<Rightarrow> string \<Rightarrow> IpAddr \<Rightarrow> uuid \<Rightarrow> bool" where
  "refused s c peer epoch \<longleftrightarrow>
     c \<in> set (killed s)
     \<or> (case map_of (containers s) c of
          None \<Rightarrow> True
        | Some r \<Rightarrow> \<not> approved r \<or> policy_epoch r \<noteq> epoch \<or> opt_any (\<lambda>pin. pin \<noteq> peer) (pinned_ip r))"

definition admit_request :: "uuid \<Rightarrow> string \<Rightarrow> IpAddr \<Rightarrow> uuid \<Rightarrow> string \<Rightarrow> AppState \<Rightarrow> bool \<times> AppState" where
  "admit_request i c peer epoch why s =
     (if refused s c peer epoch then (False, s)
      else (True, notify_state (amend_event i
        (\<lambda>e. e\<lparr>verdict := Allowed_verdict, event_detail := Some why\<rparr>) s)))"

definition admit_review :: "clock \<Rightarrow> uuid \<Rightarrow> string \<Rightarrow> IpAddr \<Rightarrow> uuid \<Rightarrow> AppState \<Rightarrow> bool \<times> AppState" where
  "admit_review t i c peer epoch s =
     (let auto_approve = opt_any (auto_approves_upload s) (inspect i (reviews s));
          (why, out) = (if auto_approve
            then (''GitHub allow-all policy; forwarding request'',
                  ''GitHub allow-all policy. Waiting for upstream response.'')
            else (''approved once by host; forwarding original request'',
                  ''Approved once. Waiting for upstream response.''));
          (admitted, s') = admit_request i c peer epoch why s
      in if admitted then (True, s'\<lparr>reviews := observe t i Sending None out (reviews s')\<rparr>) else (False, s'))"

definition admit_graphql_read :: "uuid \<Rightarrow> string \<Rightarrow> IpAddr \<Rightarrow> uuid \<Rightarrow> AppState \<Rightarrow> bool \<times> AppState" where
  "admit_graphql_read i c peer epoch =
     admit_request i c peer epoch ''read-only GitHub GraphQL query; automatically allowed''"

definition admit_lfs_download :: "uuid \<Rightarrow> string \<Rightarrow> IpAddr \<Rightarrow> uuid \<Rightarrow> AppState \<Rightarrow> bool \<times> AppState" where
  "admit_lfs_download i c peer epoch =
     admit_request i c peer epoch ''Git LFS download batch; automatically allowed''"

text \<open>The positive form of the check, which hands out the identity a later admission presents.\<close>

definition current_guest :: "AppState \<Rightarrow> string \<Rightarrow> IpAddr \<Rightarrow> ContainerRecord option" where
  "current_guest s c peer =
     (case map_of (containers s) c of
        None \<Rightarrow> None
      | Some r \<Rightarrow>
          if approved r \<and> c \<notin> set (killed s) \<and> opt_all (\<lambda>pin. pin = peer) (pinned_ip r) then Some r else None)"

definition review_epoch :: "AppState \<Rightarrow> string \<Rightarrow> IpAddr \<Rightarrow> uuid option" where
  "review_epoch s c peer = map_option policy_epoch (current_guest s c peer)"

definition async_identity :: "AppState \<Rightarrow> string \<Rightarrow> IpAddr \<Rightarrow> (uuid \<times> uuid) option" where
  "async_identity s c peer = map_option (\<lambda>r. (instance_id r, policy_epoch r)) (current_guest s c peer)"

text \<open>The guard of \<open>with_async_identity\<close>; the action it runs belongs to the caller.\<close>

definition with_async_identity :: "AppState \<Rightarrow> string \<Rightarrow> IpAddr \<Rightarrow> uuid \<Rightarrow> uuid \<Rightarrow> 'a \<Rightarrow> (unit \<Rightarrow> string + 'a) \<Rightarrow> string + 'a" where
  "with_async_identity s c peer inst epoch dflt action =
     (if c \<in> set (killed s)
         \<or> (case map_of (containers s) c of
              None \<Rightarrow> True
            | Some r \<Rightarrow> \<not> approved r \<or> instance_id r \<noteq> inst \<or> policy_epoch r \<noteq> epoch
                \<or> opt_any (\<lambda>ip. ip \<noteq> peer) (pinned_ip r))
      then Inr dflt else action ())"

definition keep_update :: policy_update where
  "keep_update u reg kill = Inr (u, reg, kill)"

definition persist_guest_identity :: "clock \<Rightarrow> io_fault \<Rightarrow> AppState \<Rightarrow> (string + unit) \<times> AppState" where
  "persist_guest_identity t fault = update_policy t fault keep_update"

section \<open>Comment permissions\<close>

definition add_grant :: "clock \<Rightarrow> uuid \<Rightarrow> string \<Rightarrow> CommentContext \<Rightarrow> Target \<Rightarrow> policy_update" where
  "add_grant t gid c ctx target u reg kill =
     (case map_of reg c of
        None \<Rightarrow> Inl ''container was removed''
      | Some r \<Rightarrow>
          if \<not> approved r \<or> c \<in> set kill \<or> policy_epoch r \<noteq> context_epoch ctx
             \<or> comment_revision r \<noteq> context_revision ctx
          then Inl ''container authorization changed; resolve a new request''
          else if 32 \<le> length (comment_permissions r)
          then Inl ''container has 32 comment permissions; revoke unused permissions first''
          else Inr (u + 1, AList.update c (r\<lparr>
            comment_permissions := filter (\<lambda>g. \<not> (target_node_id (grant_target g) = target_node_id target
                  \<and> grant_binding g = context_binding ctx)) (comment_permissions r)
                @ [\<lparr>grant_id = gid, grant_target = target, grant_binding = context_binding ctx, created_at = utc t\<rparr>],
            comment_revision := u, managed := True\<rparr>) reg, kill))"

definition permission_url :: "(uuid \<Rightarrow> string) \<Rightarrow> uuid \<Rightarrow> string" where
  "permission_url show_uuid i = ''friendzone:comment-permission/'' @ show_uuid i"

definition add_comment_permission :: "(uuid \<Rightarrow> string) \<Rightarrow> clock \<Rightarrow> io_fault \<Rightarrow> string \<Rightarrow> CommentContext \<Rightarrow> Target
    \<Rightarrow> AppState \<Rightarrow> (string + uuid) \<times> AppState" where
  "add_comment_permission show_uuid t fault c ctx target s =
     (case validate_target target of
        Inl e \<Rightarrow> (Inl e, s)
      | Inr _ \<Rightarrow>
          (let gid = uuid_supply s in
           case update_policy t fault (add_grant t gid c ctx target) (s\<lparr>uuid_supply := gid + 1\<rparr>) of
             (Inl e, s') \<Rightarrow> (Inl e, s')
           | (Inr _, s') \<Rightarrow>
               (Inr gid, snd (record_activity t c ''GRANT'' (permission_url show_uuid gid) Allowed_verdict False s'))))"

definition grant_reviewed_comment :: "(uuid \<Rightarrow> string) \<Rightarrow> clock \<Rightarrow> io_fault \<Rightarrow> uuid \<Rightarrow> string \<Rightarrow> uuid \<Rightarrow> Target
    \<Rightarrow> AppState \<Rightarrow> (string + uuid) \<times> AppState" where
  "grant_reviewed_comment show_uuid t fault i fp rid target s =
     (case live_detail t i (reviews s) of
        None \<Rightarrow> (Inl ''request no longer waiting'', s)
      | Some d \<Rightarrow>
          if fingerprint (summary d) \<noteq> fp \<or> resolution_id d \<noteq> Some rid
             \<or> \<not> opt_any (\<lambda>r. same_identity (resolved_target_of r) target) (resolved_target d)
          then (Inl ''review or resolved target changed'', s)
          else case comment_context d of
              None \<Rightarrow> (Inl ''request has no comment command'', s)
            | Some ctx \<Rightarrow> add_comment_permission show_uuid t fault (container (summary d)) ctx target s)"

definition revoke_grant :: "string \<Rightarrow> uuid \<Rightarrow> policy_update" where
  "revoke_grant c i u reg kill =
     (case map_of reg c of
        None \<Rightarrow> Inl ''unknown container''
      | Some r \<Rightarrow>
          if \<not> list_ex (\<lambda>g. grant_id g = i) (comment_permissions r) then Inl ''permission already removed''
          else Inr (u + 1, AList.update c (r\<lparr>
            comment_permissions := filter (\<lambda>g. grant_id g \<noteq> i) (comment_permissions r),
            comment_revision := u\<rparr>) reg, kill))"

definition revoke_comment_permission :: "(uuid \<Rightarrow> string) \<Rightarrow> clock \<Rightarrow> io_fault \<Rightarrow> string \<Rightarrow> uuid \<Rightarrow> AppState
    \<Rightarrow> (string + unit) \<times> AppState" where
  "revoke_comment_permission show_uuid t fault c i s =
     (case update_policy t fault (revoke_grant c i) s of
        (Inl e, s') \<Rightarrow> (Inl e, s')
      | (Inr _, s') \<Rightarrow>
          (Inr (), snd (record_activity t c ''REVOKE'' (permission_url show_uuid i) Allowed_verdict False s')))"

definition comment_permissions_for :: "AppState \<Rightarrow> string \<Rightarrow> Binding \<Rightarrow> Grant list" where
  "comment_permissions_for s c b =
     (case map_of (containers s) c of
        None \<Rightarrow> []
      | Some r \<Rightarrow> filter (\<lambda>g. grant_binding g = b) (comment_permissions r))"

definition comment_revision_of :: "AppState \<Rightarrow> string \<Rightarrow> uuid option" where
  "comment_revision_of s c = map_option comment_revision (map_of (containers s) c)"

definition admit_comment :: "(uuid \<Rightarrow> string) \<Rightarrow> uuid \<Rightarrow> string \<Rightarrow> IpAddr \<Rightarrow> uuid \<Rightarrow> Grant \<Rightarrow> Target \<Rightarrow> AppState
    \<Rightarrow> bool \<times> AppState" where
  "admit_comment show_uuid i c peer epoch grant target s =
     (if c \<in> set (killed s)
         \<or> (case map_of (containers s) c of
              None \<Rightarrow> True
            | Some r \<Rightarrow> \<not> approved r \<or> policy_epoch r \<noteq> epoch \<or> opt_any (\<lambda>ip. ip \<noteq> peer) (pinned_ip r)
                \<or> \<not> list_ex (\<lambda>g. g = grant) (comment_permissions r))
         \<or> \<not> same_identity (grant_target grant) target
      then (False, s)
      else (True, notify_state (amend_event i (\<lambda>e. e\<lparr>verdict := Allowed_verdict,
        event_detail := Some (''comment permission '' @ show_uuid (grant_id grant) @ '': '' @ target_repository target
          @ '' #'' @ show_base 10 (target_number target) @ ''; broker-reconstructed addComment'')\<rparr>) s)))"

definition enqueue_review :: "clock \<Rightarrow> Detail \<Rightarrow> IpAddr \<Rightarrow> uuid \<Rightarrow> AppState \<Rightarrow> (string + uuid) \<times> AppState" where
  "enqueue_review t d peer epoch s =
     (let c = container (summary d) in
      case map_of (containers s) c of
        None \<Rightarrow> (Inl ''container removed before review'', s)
      | Some r \<Rightarrow>
          if policy_epoch r \<noteq> epoch \<or> \<not> approved r \<or> c \<in> set (killed s) \<or> opt_any (\<lambda>pin. pin \<noteq> peer) (pinned_ip r)
          then (Inl ''container policy changed before review'', s)
          else case enqueue t d (reviews s) of
              (Inl e, q) \<Rightarrow> (Inl e, s\<lparr>reviews := q\<rparr>)
            | (Inr i, q) \<Rightarrow>
                if \<not> auto_approves_upload s d then (Inr i, s\<lparr>reviews := q\<rparr>)
                else (case decide t i (fingerprint (summary d)) Approve q of
                        (Inl e, q') \<Rightarrow> (Inl e, s\<lparr>reviews := drop_ticket t i q'\<rparr>)
                      | (Inr _, q') \<Rightarrow>
                          (Inr i, s\<lparr>reviews := observe t i Approved None
                            ''GitHub allow-all policy; checking current guest policy before sending.'' q'\<rparr>)))"

section \<open>The log\<close>

record LogQuery =
  log_search :: string
  log_container :: string
  log_verdict :: string
  log_before :: "nat option"
  log_limit :: "nat option"

record LogPage =
  page_requests :: "RequestEvent list"
  next_before :: "nat option"
  retained :: nat
  page_capacity :: nat
  evicted :: nat

definition verdict_text :: "Verdict \<Rightarrow> string" where
  "verdict_text v = (case v of
     Allowed_verdict \<Rightarrow> ''allowed'' | Blocked_verdict \<Rightarrow> ''blocked'' | Pending_verdict \<Rightarrow> ''pending'')"

definition event_text :: "RequestEvent \<Rightarrow> string" where
  "event_text e = event_container e @ '' '' @ event_method e @ '' '' @ event_url e @ '' ''
     @ (case event_status e of None \<Rightarrow> [] | Some n \<Rightarrow> show_base 10 n) @ '' ''
     @ (case event_detail e of None \<Rightarrow> [] | Some d \<Rightarrow> d)"

text \<open>\<open>to_lowercase\<close> is the Unicode mapping of the standard library, an argument here.\<close>

definition log_matches :: "(string \<Rightarrow> string) \<Rightarrow> LogQuery \<Rightarrow> RequestEvent \<Rightarrow> bool" where
  "log_matches to_lowercase lq e \<longleftrightarrow>
     opt_all (\<lambda>b. sequence e < b) (log_before lq)
     \<and> (log_container lq = [] \<or> log_container lq = event_container e)
     \<and> (log_verdict lq = [] \<or> log_verdict lq = verdict_text (verdict e))
     \<and> (to_lowercase (log_search lq) = []
        \<or> contains_str (to_lowercase (log_search lq)) (to_lowercase (event_text e)))"

definition page_limit :: "LogQuery \<Rightarrow> nat" where
  "page_limit lq = min 500 (max 1 (case log_limit lq of None \<Rightarrow> 200 | Some l \<Rightarrow> l))"

definition log_page :: "(string \<Rightarrow> string) \<Rightarrow> LogQuery \<Rightarrow> AppState \<Rightarrow> LogPage" where
  "log_page to_lowercase lq s =
     (let found = filter (log_matches to_lowercase lq) (rev (requests s));
          page = take (page_limit lq) found
      in \<lparr>page_requests = page,
          next_before = (case drop (page_limit lq) found of
             [] \<Rightarrow> None | _ \<Rightarrow> if page = [] then None else Some (sequence (last page))),
          retained = length (requests s), page_capacity = LOG_CAPACITY,
          evicted = next_sequence s - length (requests s)\<rparr>)"

section \<open>Guests\<close>

definition gate :: "ContainerRecord \<Rightarrow> IpAddr \<Rightarrow> Authorization" where
  "gate r peer =
     (if \<not> approved r then Pending_approval
      else case pinned_ip r of
          Some pin \<Rightarrow> if pin \<noteq> peer then IpMismatch else Allowed
        | None \<Rightarrow> Allowed)"

definition touched :: "string \<Rightarrow> AppState \<Rightarrow> ContainerRecord" where
  "touched c s = the (map_of (containers s) c)"

definition authorize :: "clock \<Rightarrow> string \<Rightarrow> IpAddr \<Rightarrow> AppState \<Rightarrow> Authorization \<times> AppState" where
  "authorize t c peer s =
     (let s' = touch_container t c (Some peer) s in (gate (touched c s') peer, notify_state s'))"

definition pinned_names :: "IpAddr \<Rightarrow> registry \<Rightarrow> string list" where
  "pinned_names peer reg = map fst (filter (\<lambda>(_, r). pinned_ip r = Some peer) reg)"

definition announce_guest :: "clock \<Rightarrow> string \<Rightarrow> IpAddr \<Rightarrow> AppState
    \<Rightarrow> (string + string \<times> Authorization \<times> bool) \<times> AppState" where
  "announce_guest t requested peer s =
     (case (case pinned_names peer (containers s) of
              [] \<Rightarrow> Some (requested, False)
            | [owner] \<Rightarrow> Some (owner, True)
            | _ \<Rightarrow> None) of
        None \<Rightarrow> (Inl ''multiple guests are pinned to source address'', s)
      | Some (n, explicitly) \<Rightarrow>
          (let s' = touch_container t n (Some peer) s
           in (Inr (n, gate (touched n s') peer, explicitly), notify_state s')))"

definition proxy_name :: "IpAddr \<Rightarrow> string option \<Rightarrow> registry \<Rightarrow> string + string" where
  "proxy_name peer presented reg =
     (case presented of
        Some n \<Rightarrow>
          if 1 < length (pinned_names peer reg) then Inl ''multiple guests are pinned to source address''
          else if (case pinned_names peer reg of [] \<Rightarrow> False | owner # _ \<Rightarrow> owner \<noteq> n)
          then Inl ''presented guest does not own source address''
          else Inr n
      | None \<Rightarrow>
          (case pinned_names peer reg of
             [owner] \<Rightarrow> Inr owner
           | _ # _ \<Rightarrow> Inl ''multiple guests are pinned to source address''
           | [] \<Rightarrow>
               (case map fst (filter (\<lambda>(_, r). \<not> approved r \<and> last_ip r = Some peer) reg) of
                  [candidate] \<Rightarrow> Inr candidate
                | [] \<Rightarrow> Inl ''source address has no unique IP pin; run setup and use Approve + pin IP''
                | _ \<Rightarrow> Inl ''multiple pending guests were observed at source address'')))"

definition authorize_proxy_peer :: "clock \<Rightarrow> IpAddr \<Rightarrow> string option \<Rightarrow> AppState
    \<Rightarrow> (string + string \<times> Authorization) \<times> AppState" where
  "authorize_proxy_peer t peer presented s =
     (case proxy_name peer presented (containers s) of
        Inl e \<Rightarrow> (Inl e, s)
      | Inr n \<Rightarrow>
          (let s' = touch_container t n (Some peer) s; r = touched n s' in
           if \<not> approved r then (Inr (n, Pending_approval), notify_state s')
           else if opt_any (\<lambda>pin. pin \<noteq> peer) (pinned_ip r) then (Inr (n, IpMismatch), notify_state s')
           else if presented = None \<and> pinned_ip r \<noteq> Some peer
           then (Inl ''source address has no explicit pin; use Approve + pin IP'', s')
           else (Inr (n, Allowed), notify_state s')))"

section \<open>Policy operations\<close>

definition transfer_pin :: "string \<Rightarrow> IpAddr \<Rightarrow> registry \<Rightarrow> registry" where
  "transfer_pin n ip = map (\<lambda>(other, r).
     if other \<noteq> n \<and> pinned_ip r = Some ip
     then (other, r\<lparr>pinned_ip := None, last_ip := None, approved := False, managed := True\<rparr>) else (other, r))"

definition add_container_update :: "string \<Rightarrow> IpAddr option \<Rightarrow> policy_update" where
  "add_container_update n ip u reg kill =
     (let reg1 = (case ip of None \<Rightarrow> reg | Some a \<Rightarrow> transfer_pin n a reg);
          (u', reg2) = or_default n u reg1
      in Inr (u', modify n (\<lambda>r. let r' = r\<lparr>approved := True, managed := True\<rparr>
                                in if ip \<noteq> None then r'\<lparr>pinned_ip := ip\<rparr> else r') reg2, kill))"

definition add_container :: "clock \<Rightarrow> io_fault \<Rightarrow> string \<Rightarrow> IpAddr option \<Rightarrow> AppState \<Rightarrow> (string + unit) \<times> AppState" where
  "add_container t fault n ip = update_policy t fault (add_container_update n ip)"

definition check_unique_pin :: "registry \<Rightarrow> string \<Rightarrow> IpAddr option \<Rightarrow> string + unit" where
  "check_unique_pin reg n ip =
     (case ip of
        None \<Rightarrow> Inr ()
      | Some a \<Rightarrow>
          if list_ex (\<lambda>(other, r). other \<noteq> n \<and> pinned_ip r = Some a) reg
          then Inl ''source address is already pinned to another guest'' else Inr ())"

definition approve_update :: "string \<Rightarrow> bool \<Rightarrow> policy_update" where
  "approve_update n pin_to_last_ip u reg kill =
     bind_res (if pin_to_last_ip
               then (case map_of reg n of
                       None \<Rightarrow> Inl ''unknown container; no approval changed''
                     | Some r \<Rightarrow> (case last_ip r of
                         None \<Rightarrow> Inl ''no guest address observed this session; set an explicit IP pin or wait for the guest to connect''
                       | Some a \<Rightarrow> Inr (Some a)))
               else Inr None) (\<lambda>pin.
     bind_res (check_unique_pin reg n pin) (\<lambda>_.
       case map_of reg n of
         None \<Rightarrow> Inl ''unknown container; no approval changed''
       | Some r \<Rightarrow> Inr (u, AList.update n ((if pin \<noteq> None then r\<lparr>pinned_ip := pin\<rparr> else r)
                           \<lparr>approved := True, managed := True\<rparr>) reg, kill)))"

definition approve_container :: "clock \<Rightarrow> io_fault \<Rightarrow> string \<Rightarrow> bool \<Rightarrow> AppState \<Rightarrow> (string + unit) \<times> AppState" where
  "approve_container t fault n pin = update_policy t fault (approve_update n pin)"

definition set_pin_update :: "string \<Rightarrow> IpAddr option \<Rightarrow> policy_update" where
  "set_pin_update n ip u reg kill =
     bind_res (check_unique_pin reg n ip) (\<lambda>_.
       case map_of reg n of
         None \<Rightarrow> Inl ''unknown container; no IP pin changed''
       | Some r \<Rightarrow> Inr (u, AList.update n (r\<lparr>pinned_ip := ip, managed := True\<rparr>) reg, kill))"

definition set_pinned_ip :: "clock \<Rightarrow> io_fault \<Rightarrow> string \<Rightarrow> IpAddr option \<Rightarrow> AppState \<Rightarrow> (string + unit) \<times> AppState" where
  "set_pinned_ip t fault n ip = update_policy t fault (set_pin_update n ip)"

definition remove_update :: "string \<Rightarrow> policy_update" where
  "remove_update n u reg kill = Inr (u, AList.delete n reg, removeAll n kill)"

definition remove_container :: "clock \<Rightarrow> io_fault \<Rightarrow> string \<Rightarrow> AppState \<Rightarrow> (string + unit) \<times> AppState" where
  "remove_container t fault n = update_policy t fault (remove_update n)"

definition reset_update :: policy_update where
  "reset_update u reg kill = Inr (u, [], [])"

definition reset_containers :: "clock \<Rightarrow> io_fault \<Rightarrow> AppState \<Rightarrow> (string + unit) \<times> AppState" where
  "reset_containers t fault = update_policy t fault reset_update"

definition is_killed :: "AppState \<Rightarrow> string \<Rightarrow> bool" where
  "is_killed s c \<longleftrightarrow> c \<in> set (killed s)"

definition cline_access :: "AppState \<Rightarrow> string \<Rightarrow> ClineAccess" where
  "cline_access s c = (case map_of (containers s) c of None \<Rightarrow> Basic | Some r \<Rightarrow> record_cline_access r)"

definition cline_update :: "string \<Rightarrow> ClineAccess \<Rightarrow> policy_update" where
  "cline_update n access u reg kill =
     (case map_of reg n of
        None \<Rightarrow> Inl ''unknown container; no Cline access changed''
      | Some r \<Rightarrow> Inr (u, AList.update n (r\<lparr>record_cline_access := access, managed := True\<rparr>) reg, kill))"

definition set_cline_access :: "clock \<Rightarrow> io_fault \<Rightarrow> string \<Rightarrow> ClineAccess \<Rightarrow> AppState \<Rightarrow> (string + unit) \<times> AppState" where
  "set_cline_access t fault n access = update_policy t fault (cline_update n access)"

definition kill_update :: "string \<Rightarrow> bool \<Rightarrow> policy_update" where
  "kill_update c kill_it u reg kill =
     (let (u', reg') = or_default c u reg
      in Inr (u', modify c (\<lambda>r. r\<lparr>managed := True\<rparr>) reg',
              if kill_it then List.insert c kill else removeAll c kill))"

definition set_killed :: "clock \<Rightarrow> io_fault \<Rightarrow> string \<Rightarrow> bool \<Rightarrow> AppState \<Rightarrow> (string + unit) \<times> AppState" where
  "set_killed t fault c kill_it = update_policy t fault (kill_update c kill_it)"

section \<open>The view\<close>

record ContainerView =
  view_name :: string
  view_state :: string
  view_last_activity :: "instant option"
  request_count :: nat
  view_approved :: bool
  view_pinned_ip :: "string option"
  view_cline_access :: ClineAccess

record StateView =
  view_containers :: "ContainerView list"
  view_requests :: "RequestEvent list"
  pending_requests :: "Summary list"
  recent_reviews :: "Summary list"
  view_comment_permissions :: "(uuid \<times> string \<times> Target \<times> string) list"

definition container_view :: "AppState \<Rightarrow> string \<times> ContainerRecord \<Rightarrow> ContainerView" where
  "container_view s nr =
     (case nr of (n, r) \<Rightarrow>
       \<lparr>view_name = n,
        view_state = (if n \<in> set (killed s) then ''killed'' else if \<not> approved r then ''pending'' else ''approved''),
        view_last_activity = last_activity r,
        request_count = length (filter (\<lambda>e. event_container e = n) (requests s)),
        view_approved = approved r,
        view_pinned_ip = (case pinned_ip r of
            Some ip \<Rightarrow> Some (ip_to_string ip)
          | None \<Rightarrow> map_option (\<lambda>ip. CHR ''~'' # ip_to_string ip) (last_ip r)),
        view_cline_access = record_cline_access r\<rparr>)"

text \<open>\<open>jobs\<close> and \<open>pushes\<close> are the summaries of the two durable queues, waiting and recent.\<close>

definition state_view :: "Summary list \<times> Summary list \<Rightarrow> Summary list \<times> Summary list \<Rightarrow> AppState \<Rightarrow> StateView" where
  "state_view jobs pushes s =
     \<lparr>view_containers = sort_key view_name (map (container_view s) (containers s)),
      view_requests = take 200 (rev (requests s)),
      pending_requests = sort_key summary_created_at (fst (view (reviews s)) @ fst jobs @ fst pushes),
      recent_reviews = sort_key (\<lambda>x. - int (updated_at x)) (snd (view (reviews s)) @ snd jobs @ snd pushes),
      view_comment_permissions = concat (map (\<lambda>(n, r). map (\<lambda>g.
        (grant_id g, n, grant_target g, binding_entry (grant_binding g))) (comment_permissions r)) (containers s))\<rparr>"

section \<open>Operations as steps\<close>

datatype policy_command =
    Persist | Add string "IpAddr option" | Approve_guest string bool | Pin string "IpAddr option"
  | Remove string | Reset | Cline string ClineAccess | Kill string bool

fun command_update :: "policy_command \<Rightarrow> policy_update" where
  "command_update Persist = keep_update"
| "command_update (Add n ip) = add_container_update n ip"
| "command_update (Approve_guest n pin) = approve_update n pin"
| "command_update (Pin n ip) = set_pin_update n ip"
| "command_update (Remove n) = remove_update n"
| "command_update Reset = reset_update"
| "command_update (Cline n access) = cline_update n access"
| "command_update (Kill c kill_it) = kill_update c kill_it"

datatype state_op =
    Policy_op clock io_fault policy_command
  | Permit_op "uuid \<Rightarrow> string" clock io_fault string CommentContext Target
  | Grant_op "uuid \<Rightarrow> string" clock io_fault uuid string uuid Target
  | Revoke_op "uuid \<Rightarrow> string" clock io_fault string uuid
  | Record_op clock string string string Verdict bool
  | Annotate_op uuid "nat option" "string option"
  | Block_op clock uuid nat string
  | Admit_op uuid string IpAddr uuid string
  | Admit_review_op clock uuid string IpAddr uuid
  | Admit_comment_op "uuid \<Rightarrow> string" uuid string IpAddr uuid Grant Target
  | Enqueue_op clock Detail IpAddr uuid
  | Authorize_op clock string IpAddr
  | Announce_op clock string IpAddr
  | Proxy_op clock IpAddr "string option"
  | Queue_op queue_op

fun apply_state_op :: "state_op \<Rightarrow> AppState \<Rightarrow> AppState" where
  "apply_state_op (Policy_op t fault cmd) s = snd (update_policy t fault (command_update cmd) s)"
| "apply_state_op (Permit_op sh t fault c ctx target) s = snd (add_comment_permission sh t fault c ctx target s)"
| "apply_state_op (Grant_op sh t fault i fp rid target) s = snd (grant_reviewed_comment sh t fault i fp rid target s)"
| "apply_state_op (Revoke_op sh t fault c i) s = snd (revoke_comment_permission sh t fault c i s)"
| "apply_state_op (Record_op t c m u v guest) s = snd (record_activity t c m u v guest s)"
| "apply_state_op (Annotate_op i st d) s = annotate i st d s"
| "apply_state_op (Block_op t i st d) s = mark_blocked t i st d s"
| "apply_state_op (Admit_op i c peer epoch why) s = snd (admit_request i c peer epoch why s)"
| "apply_state_op (Admit_review_op t i c peer epoch) s = snd (admit_review t i c peer epoch s)"
| "apply_state_op (Admit_comment_op sh i c peer epoch g target) s = snd (admit_comment sh i c peer epoch g target s)"
| "apply_state_op (Enqueue_op t d peer epoch) s = snd (enqueue_review t d peer epoch s)"
| "apply_state_op (Authorize_op t c peer) s = snd (authorize t c peer s)"
| "apply_state_op (Announce_op t c peer) s = snd (announce_guest t c peer s)"
| "apply_state_op (Proxy_op t peer presented) s = snd (authorize_proxy_peer t peer presented s)"
| "apply_state_op (Queue_op op) s = s\<lparr>reviews := apply_op op (reviews s)\<rparr>"

definition run :: "state_op list \<Rightarrow> AppState \<Rightarrow> AppState" where
  "run ops s = fold apply_state_op ops s"

end
