(* ===== verification/App_Policy.thy ===== *)
theory App_Policy
  imports App_State
begin

text \<open>
  What the policy transaction of \<open>state.rs\<close> guarantees: an epoch stands for one policy of one guest
  (C23), a change of policy takes the waiting reviews with it (C24), memory and the policy file agree
  at every moment (C25) and the file restores the policy (C26), addresses stay uniquely pinned (C27).
\<close>

section \<open>Registries\<close>

lemma map_of_modify: "map_of (modify n f reg) c = (if c = n then map_option f (map_of reg n) else map_of reg c)"
  by (auto simp: modify_def update_conv' split: option.splits)

lemma keys_update_present: "map_of reg n = Some r \<Longrightarrow> keys (AList.update n x reg) = keys reg"
  using map_of_SomeD [of reg n r] by (force simp: update_keys)

lemma keys_modify [simp]: "keys (modify n f reg) = keys reg"
  by (auto simp: modify_def keys_update_present split: option.splits)

lemma or_default_simps:
  assumes "or_default n u reg = (u', reg')"
  shows "u \<le> u'" and "distinct (keys reg) \<Longrightarrow> distinct (keys reg')"
    and "map_of reg' c = (if c = n \<and> map_of reg n = None then Some (default_record u) else map_of reg c)"
    and "map_of reg n = None \<Longrightarrow> u' = u + 3"
proof -
  show "map_of reg' c = (if c = n \<and> map_of reg n = None then Some (default_record u) else map_of reg c)"
    using assms by (auto simp: or_default_def map_add_def split: if_splits option.splits)
qed (use assms in \<open>auto simp: or_default_def map_of_eq_None_iff split: if_splits\<close>)

lemma default_record_simps [simp]:
  "policy_epoch (default_record u) = u" "\<not> approved (default_record u)" "pinned_ip (default_record u) = None"
  "comment_permissions (default_record u) = []" "\<not> managed (default_record u)"
  by (simp_all add: default_record_def)

section \<open>Policy steps\<close>

text \<open>
  A record after the step carries an epoch drawn during the step, or it continues a record of the same
  guest whose approval, pin and kill flag are the same.
\<close>

definition continues :: "AppState \<Rightarrow> AppState \<Rightarrow> string \<Rightarrow> ContainerRecord \<Rightarrow> bool" where
  "continues s s' c r' \<longleftrightarrow> opt_any (\<lambda>r. policy_epoch r' = policy_epoch r \<and> approved r' = approved r
     \<and> pinned_ip r' = pinned_ip r \<and> (c \<in> set (killed s')) = (c \<in> set (killed s))) (map_of (containers s) c)"

definition policy_step :: "AppState \<Rightarrow> AppState \<Rightarrow> bool" where
  "policy_step s s' \<longleftrightarrow> uuid_supply s \<le> uuid_supply s' \<and> (distinct (keys (containers s)) \<longrightarrow> distinct (keys (containers s')))
     \<and> (\<forall>c r'. map_of (containers s') c = Some r' \<longrightarrow>
          uuid_supply s \<le> policy_epoch r' \<and> policy_epoch r' < uuid_supply s' \<or> continues s s' c r')"

lemma policy_stepI:
  assumes "uuid_supply s \<le> uuid_supply s'"
    and "distinct (keys (containers s)) \<Longrightarrow> distinct (keys (containers s'))"
    and "\<And>c r'. map_of (containers s') c = Some r' \<Longrightarrow>
          uuid_supply s \<le> policy_epoch r' \<and> policy_epoch r' < uuid_supply s' \<or> continues s s' c r'"
  shows "policy_step s s'"
  using assms by (simp add: policy_step_def)

lemma policy_step_same:
  assumes "containers s' = containers s" and "killed s' = killed s" and "uuid_supply s \<le> uuid_supply s'"
  shows "policy_step s s'"
  using assms by (intro policy_stepI) (auto simp: continues_def)

lemma policy_step_trans:
  assumes "policy_step s1 s2" and "policy_step s2 s3"
  shows "policy_step s1 s3"
proof (rule policy_stepI)
  fix c r3 assume r3: "map_of (containers s3) c = Some r3"
  show "uuid_supply s1 \<le> policy_epoch r3 \<and> policy_epoch r3 < uuid_supply s3 \<or> continues s1 s3 c r3"
  proof (cases "continues s2 s3 c r3")
    case True
    then obtain r2 where r2: "map_of (containers s2) c = Some r2" "policy_epoch r3 = policy_epoch r2"
        "approved r3 = approved r2" "pinned_ip r3 = pinned_ip r2" "(c \<in> set (killed s3)) = (c \<in> set (killed s2))"
      by (auto simp: continues_def opt_any_iff)
    then have "uuid_supply s1 \<le> policy_epoch r2 \<and> policy_epoch r2 < uuid_supply s2 \<or> continues s1 s2 c r2"
      using assms(1) by (simp add: policy_step_def)
    then show ?thesis using r2 assms(2) by (auto simp: continues_def policy_step_def opt_any_iff)
  next
    case False
    then have "uuid_supply s2 \<le> policy_epoch r3 \<and> policy_epoch r3 < uuid_supply s3"
      using assms(2) r3 by (auto simp: policy_step_def)
    then show ?thesis using assms(1) by (auto simp: policy_step_def)
  qed
qed (use assms in \<open>auto simp: policy_step_def\<close>)

lemma policy_step_touch: "policy_step s (touch_container t n ip s)"
proof -
  obtain u reg where d: "or_default n (uuid_supply s) (containers s) = (u, reg)" by fastforce
  note reg = or_default_simps [OF d]
  show ?thesis
  proof (rule policy_stepI)
    fix c r' assume "map_of (containers (touch_container t n ip s)) c = Some r'"
    then obtain r where r: "map_of reg c = Some r" "policy_epoch r' = policy_epoch r" "approved r' = approved r"
        "pinned_ip r' = pinned_ip r"
      by (auto simp: touch_container_def d map_of_modify Let_def split: if_splits)
    show "uuid_supply s \<le> policy_epoch r' \<and> policy_epoch r' < uuid_supply (touch_container t n ip s)
        \<or> continues s (touch_container t n ip s) c r'"
    proof (cases "c = n \<and> map_of (containers s) n = None")
      case True
      then show ?thesis using r reg(3) [of c] reg(4) by (auto simp: touch_container_def d)
    next
      case False
      then show ?thesis using r reg(3) [of c] by (auto simp: continues_def touch_container_def d)
    qed
  qed (use reg in \<open>simp_all add: touch_container_def d\<close>)
qed

section \<open>Renewal of epochs\<close>

definition renewed :: "nat \<Rightarrow> nat \<Rightarrow> ContainerRecord option \<Rightarrow> ContainerRecord option \<Rightarrow> bool" where
  "renewed u u' a b \<longleftrightarrow> (case a of
       None \<Rightarrow> b = None
     | Some r \<Rightarrow> opt_any (\<lambda>r'. u \<le> policy_epoch r' \<and> policy_epoch r' < u' \<and> r' = r\<lparr>policy_epoch := policy_epoch r'\<rparr>) b)"

lemma renew_epochs_result:
  assumes "renew_epochs t changed old (u, reg, q) = (u', reg', q')" and "distinct (keys old)"
  shows "u \<le> u' \<and> keys reg' = keys reg
    \<and> (\<forall>c. if opt_any (changed c) (map_of old c) then renewed u u' (map_of reg c) (map_of reg' c)
           else map_of reg' c = map_of reg c)"
  using assms
proof (induction old arbitrary: u reg q)
  case (Cons p old)
  obtain n r0 where p: "p = (n, r0)" by (cases p)
  define st where "st = (if changed n r0
        then (case map_of reg n of
                None \<Rightarrow> (u, reg, cancel_container t n q)
              | Some r \<Rightarrow> (u + 1, AList.update n (r\<lparr>policy_epoch := u\<rparr>) reg, cancel_container t n q))
        else (u, reg, q))"
  obtain u1 reg1 q1 where st: "st = (u1, reg1, q1)" by (cases st)
  have n: "map_of old n = None" using Cons.prems(2) p by (simp add: map_of_eq_None_iff)
  have step: "u \<le> u1 \<and> keys reg1 = keys reg \<and> (\<forall>c. c \<noteq> n \<longrightarrow> map_of reg1 c = map_of reg c)
      \<and> (if changed n r0 then renewed u u1 (map_of reg n) (map_of reg1 n) else map_of reg1 n = map_of reg n)"
    using st unfolding st_def
    by (auto simp: renewed_def update_conv' keys_update_present split: if_splits option.splits)
  have rest: "u1 \<le> u' \<and> keys reg' = keys reg1
    \<and> (\<forall>c. if opt_any (changed c) (map_of old c) then renewed u1 u' (map_of reg1 c) (map_of reg' c)
           else map_of reg' c = map_of reg1 c)"
  proof (rule Cons.IH)
    show "renew_epochs t changed old (u1, reg1, q1) = (u', reg', q')"
      using Cons.prems(1) p st st_def by simp
    show "distinct (keys old)" using Cons.prems(2) by simp
  qed
  show ?case
  proof (intro conjI allI)
    fix c
    show "if opt_any (changed c) (map_of (p # old) c) then renewed u u' (map_of reg c) (map_of reg' c)
          else map_of reg' c = map_of reg c"
    proof (cases "c = n")
      case True
      have "map_of reg' n = map_of reg1 n" using rest n by (auto dest: spec [of _ n])
      then show ?thesis using True step rest p by (auto simp: renewed_def opt_any_iff split: option.splits)
    next
      case False
      then have "map_of reg1 c = map_of reg c" "map_of (p # old) c = map_of old c" using step p by auto
      moreover have "renewed u u' a b" if "renewed u1 u' a b" for a b
        using that step by (auto simp: renewed_def opt_any_iff split: option.splits)
      ultimately show ?thesis using rest by (auto dest: spec [of _ c])
    qed
  qed (use step rest in auto)
qed simp

section \<open>The transaction\<close>

text \<open>The contract of what a policy operation hands to the transaction.\<close>

locale policy_writer =
  fixes f :: policy_update
  assumes writer_supply: "f u reg kill = Inr (u', reg', kill') \<Longrightarrow> u \<le> u'"
    and writer_keys: "f u reg kill = Inr (u', reg', kill') \<Longrightarrow> distinct (keys reg) \<Longrightarrow> distinct (keys reg')"
    and writer_epochs: "f u reg kill = Inr (u', reg', kill') \<Longrightarrow> map_of reg' c = Some r' \<Longrightarrow>
      (case map_of reg c of
         None \<Rightarrow> u \<le> policy_epoch r' \<and> policy_epoch r' < u'
       | Some r \<Rightarrow> policy_epoch r' = policy_epoch r)"
begin

lemma update_policy_cases:
  assumes "distinct (keys (containers s))"
  obtains (rejected) "fst (update_policy t fault f s) \<noteq> Inr ()"
      "\<exists>u. uuid_supply s \<le> u \<and> snd (update_policy t fault f s) = s\<lparr>uuid_supply := u\<rparr>"
  | (applied) u reg kill u' reg' q saved where "f (uuid_supply s) (containers s) (killed s) = Inr (u, reg, kill)"
      "renew_epochs t (policy_changed (containers s) (killed s) reg kill) (containers s) (u, reg, reviews s) = (u', reg', q)"
      "saved = (if policy_path s then Some (saved_of reg kill) else policy_file s)"
      "update_policy t fault f s = (Inr (), notify_state (s\<lparr>containers := reg', killed := kill, policy_file := saved,
                                            reviews := q, uuid_supply := u'\<rparr>))"
proof (cases "f (uuid_supply s) (containers s) (killed s)")
  case (Inl e)
  have "s = s\<lparr>uuid_supply := uuid_supply s\<rparr>" by simp
  then show ?thesis using Inl by (intro rejected) (auto simp: update_policy_def)
next
  case (Inr v)
  obtain u reg kill where v: "v = (u, reg, kill)" by (cases v)
  obtain u' reg' q where ren: "renew_epochs t (policy_changed (containers s) (killed s) reg kill)
      (containers s) (u, reg, reviews s) = (u', reg', q)" by (metis prod_cases3)
  have u: "uuid_supply s \<le> u" using writer_supply Inr v by simp
  show ?thesis
  proof (cases "policy_path s \<and> fault \<noteq> No_fault")
    case True
    then have "update_policy t fault f s = (Inl ''container policy change was not applied'', s\<lparr>uuid_supply := u\<rparr>)"
      using Inr v by (cases fault) (simp_all add: update_policy_def atomic_write_def)
    then show ?thesis using u by (intro rejected) auto
  next
    case False
    then have "update_policy t fault f s = (Inr (), notify_state (s\<lparr>containers := reg', killed := kill,
        policy_file := (if policy_path s then Some (saved_of reg kill) else policy_file s), reviews := q, uuid_supply := u'\<rparr>))"
      using Inr v ren by (auto simp: update_policy_def atomic_write_def)
    then show ?thesis using applied Inr v ren by simp
  qed
qed

text \<open>Every transaction over such an update is a policy step.\<close>

lemma update_policy_step:
  assumes ok: "distinct (keys (containers s))"
  shows "policy_step s (snd (update_policy t fault f s))"
  using ok
proof (cases rule: update_policy_cases [of s t fault])
  case rejected
  then obtain u where "uuid_supply s \<le> u" "snd (update_policy t fault f s) = s\<lparr>uuid_supply := u\<rparr>" by blast
  then show ?thesis by (intro policy_step_same) simp_all
next
  case (applied u reg kill u' reg' q saved)
  note ren = renew_epochs_result [OF applied(2) ok]
  have u: "uuid_supply s \<le> u" using writer_supply [OF applied(1)] .
  let ?s = "notify_state (s\<lparr>containers := reg', killed := kill, policy_file := saved, reviews := q, uuid_supply := u'\<rparr>)"
  have "policy_step s ?s"
  proof (rule policy_stepI)
    show "uuid_supply s \<le> uuid_supply ?s" using u ren by (simp add: notify_state_def)
    show "distinct (keys (containers ?s))" if "distinct (keys (containers s))"
      using ren writer_keys [OF applied(1) that] by (simp add: notify_state_def)
    fix c r' assume "map_of (containers ?s) c = Some r'"
    then have r': "map_of reg' c = Some r'" by (simp add: notify_state_def)
    show "uuid_supply s \<le> policy_epoch r' \<and> policy_epoch r' < uuid_supply ?s \<or> continues s ?s c r'"
    proof (cases "opt_any (policy_changed (containers s) (killed s) reg kill c) (map_of (containers s) c)")
      case True
      then have "renewed u u' (map_of reg c) (map_of reg' c)" using ren by (auto dest: spec [of _ c])
      then show ?thesis using r' u by (auto simp: renewed_def notify_state_def split: option.splits)
    next
      case False
      then have reg: "map_of reg c = Some r'" using ren r' by (auto dest: spec [of _ c])
      show ?thesis
      proof (cases "map_of (containers s) c")
        case None
        then show ?thesis using writer_epochs [OF applied(1) reg] ren by (auto simp: notify_state_def)
      next
        case (Some r)
        then show ?thesis
          using writer_epochs [OF applied(1) reg] False reg
          by (auto simp: continues_def policy_changed_def notify_state_def)
      qed
    qed
  qed
  then show ?thesis using applied(4) by simp
qed

text \<open>A rejected transaction leaves everything but the UUID supply as it was.\<close>

lemma update_policy_rejected:
  assumes "distinct (keys (containers s))" and "fst (update_policy t fault f s) \<noteq> Inr ()"
  shows "\<exists>u. uuid_supply s \<le> u \<and> snd (update_policy t fault f s) = s\<lparr>uuid_supply := u\<rparr>"
  using assms(1) by (cases rule: update_policy_cases [of s t fault]) (use assms(2) in auto)

end

section \<open>Every policy operation is a writer\<close>

text \<open>Most operations rewrite one existing record and keep its epoch.\<close>

definition writes_one :: "registry \<Rightarrow> registry \<Rightarrow> bool" where
  "writes_one reg reg' \<longleftrightarrow>
     (\<exists>n r x. map_of reg n = Some r \<and> policy_epoch x = policy_epoch r \<and> reg' = AList.update n x reg)"

lemma wrote: "map_of reg n = Some r \<Longrightarrow> policy_epoch x = policy_epoch r \<Longrightarrow> writes_one reg (AList.update n x reg)"
  by (auto simp: writes_one_def)

locale record_writer =
  fixes f :: policy_update
  assumes writes_record: "f u reg kill = Inr (u', reg', kill') \<Longrightarrow> u \<le> u' \<and> writes_one reg reg'"

sublocale record_writer \<subseteq> policy_writer f
proof
  fix u reg kill u' reg' kill'
  assume f: "f u reg kill = Inr (u', reg', kill')"
  then obtain n r x where n: "map_of reg n = Some r" "policy_epoch x = policy_epoch r" "reg' = AList.update n x reg"
    using writes_record unfolding writes_one_def by blast
  show "u \<le> u'" using writes_record [OF f] by blast
  show "distinct (keys reg')" if "distinct (keys reg)" using that n by (simp add: keys_update_present)
  show "case map_of reg c of None \<Rightarrow> u \<le> policy_epoch r' \<and> policy_epoch r' < u' | Some r \<Rightarrow> policy_epoch r' = policy_epoch r"
    if "map_of reg' c = Some r'" for c r'
    using that n by (auto simp: update_conv' split: if_splits option.splits)
qed

lemma writer_default:
  assumes "or_default n u reg = (u', reg')" and "\<And>r. policy_epoch (f r) = policy_epoch r"
    and "map_of (modify n f reg') c = Some r'"
  shows "case map_of reg c of None \<Rightarrow> u \<le> policy_epoch r' \<and> policy_epoch r' < u' | Some r \<Rightarrow> policy_epoch r' = policy_epoch r"
  using assms(2,3) or_default_simps(3,4) [OF assms(1)]
  by (auto simp: map_of_modify split: if_splits option.splits)

interpretation keep_writer: policy_writer keep_update
  by unfold_locales (auto simp: keep_update_def split: option.splits)

interpretation remove_writer: policy_writer "remove_update n" for n
  by unfold_locales
    (auto simp: remove_update_def delete_conv' delete_keys distinct_removeAll split: option.splits if_splits)

interpretation reset_writer: policy_writer reset_update
  by unfold_locales (auto simp: reset_update_def)

interpretation cline_writer: record_writer "cline_update n access" for n access
  by unfold_locales (auto simp: cline_update_def split: option.splits intro: wrote)

interpretation pin_writer: record_writer "set_pin_update n ip" for n ip
  by unfold_locales (auto simp: set_pin_update_def bind_res_Inr_iff split: option.splits intro: wrote)

interpretation approve_writer: record_writer "approve_update n pin" for n pin
  by unfold_locales
    (auto simp: approve_update_def bind_res_Inr_iff split: option.splits if_splits intro: wrote)

interpretation grant_writer: record_writer "add_grant t gid c ctx target" for t gid c ctx target
  by unfold_locales (auto simp: add_grant_def split: option.splits if_splits intro!: wrote)

interpretation revoke_writer: record_writer "revoke_grant c i" for c i
  by unfold_locales (auto simp: revoke_grant_def split: option.splits if_splits intro!: wrote)

interpretation kill_writer: policy_writer "kill_update c kill_it" for c kill_it
proof
  fix u reg kill u' reg' kill'
  assume "kill_update c kill_it u reg kill = Inr (u', reg', kill')"
  then obtain reg1 where d: "or_default c u reg = (u', reg1)" and reg': "reg' = modify c (\<lambda>r. r\<lparr>managed := True\<rparr>) reg1"
    by (auto simp: kill_update_def split: prod.splits)
  show "u \<le> u'" using or_default_simps(1) [OF d] .
  show "distinct (keys reg')" if "distinct (keys reg)" using that or_default_simps(2) [OF d] reg' by simp
  show "case map_of reg n of None \<Rightarrow> u \<le> policy_epoch r' \<and> policy_epoch r' < u' | Some r \<Rightarrow> policy_epoch r' = policy_epoch r"
    if "map_of reg' n = Some r'" for n r'
    using writer_default [OF d, of "\<lambda>r. r\<lparr>managed := True\<rparr>"] that reg' by simp
qed

lemma transfer_pin_simps:
  "keys (transfer_pin n ip reg) = keys reg"
  "map_of (transfer_pin n ip reg) c = map_option (\<lambda>r. if c \<noteq> n \<and> pinned_ip r = Some ip
     then r\<lparr>pinned_ip := None, last_ip := None, approved := False, managed := True\<rparr> else r) (map_of reg c)"
  by (induction reg) (auto simp: transfer_pin_def)

interpretation add_writer: policy_writer "add_container_update n ip" for n ip
proof
  fix u reg kill u' reg' kill'
  assume f: "add_container_update n ip u reg kill = Inr (u', reg', kill')"
  define reg1 where "reg1 = (case ip of None \<Rightarrow> reg | Some a \<Rightarrow> transfer_pin n a reg)"
  obtain v reg2 where d: "or_default n u reg1 = (v, reg2)" by fastforce
  let ?set = "\<lambda>r. let r' = r\<lparr>approved := True, managed := True\<rparr> in if ip \<noteq> None then r'\<lparr>pinned_ip := ip\<rparr> else r'"
  have res: "u' = v" "reg' = modify n ?set reg2"
    using f d by (simp_all add: add_container_update_def reg1_def)
  show "u \<le> u'" using or_default_simps(1) [OF d] res by simp
  show "distinct (keys reg')" if "distinct (keys reg)"
    using that or_default_simps(2) [OF d] res by (simp add: reg1_def transfer_pin_simps(1) split: option.splits)
  fix c r' assume "map_of reg' c = Some r'"
  then have "case map_of reg1 c of None \<Rightarrow> u \<le> policy_epoch r' \<and> policy_epoch r' < v | Some r \<Rightarrow> policy_epoch r' = policy_epoch r"
    using writer_default [OF d, of ?set c r'] res by (simp add: Let_def)
  then show "case map_of reg c of None \<Rightarrow> u \<le> policy_epoch r' \<and> policy_epoch r' < u' | Some r \<Rightarrow> policy_epoch r' = policy_epoch r"
    using res by (auto simp: reg1_def transfer_pin_simps(2) split: option.splits if_splits)
qed

lemma command_writer: "policy_writer (command_update cmd)"
  by (cases cmd) (simp_all add: keep_writer.policy_writer_axioms remove_writer.policy_writer_axioms
      reset_writer.policy_writer_axioms cline_writer.policy_writer_axioms pin_writer.policy_writer_axioms
      approve_writer.policy_writer_axioms kill_writer.policy_writer_axioms add_writer.policy_writer_axioms)

section \<open>An epoch stands for one policy\<close>

text \<open>Operations other than policy transactions: what they leave of the registry.\<close>

lemma registry_simps [simp]:
  "containers (notify_state s) = containers s" "killed (notify_state s) = killed s"
  "uuid_supply (notify_state s) = uuid_supply s" "policy_file (notify_state s) = policy_file s"
  "policy_path (notify_state s) = policy_path s" "reviews (notify_state s) = reviews s"
  "containers (amend_event i f s) = containers s" "killed (amend_event i f s) = killed s"
  "uuid_supply (amend_event i f s) = uuid_supply s" "policy_file (amend_event i f s) = policy_file s"
  "policy_path (amend_event i f s) = policy_path s" "reviews (amend_event i f s) = reviews s"
  by (simp_all add: notify_state_def amend_event_def)

lemma policy_step_record: "policy_step s (snd (record_activity t c m u v guest s))"
proof -
  let ?s = "if guest then touch_container t c None s else s"
  have "policy_step s ?s" using policy_step_touch policy_step_same by simp
  moreover have "policy_step ?s (snd (record_activity t c m u v guest s))"
    by (rule policy_step_same) (simp_all add: record_activity_def Let_def)
  ultimately show ?thesis by (rule policy_step_trans)
qed

lemma policy_step_notify: "policy_step s s' \<Longrightarrow> policy_step s (notify_state s')"
  using policy_step_trans policy_step_same by (metis registry_simps(1-3) order_refl)

lemma policy_step_refl: "policy_step s s"
  by (rule policy_step_same) simp_all

lemma policy_step_reviews: "policy_step s (s\<lparr>reviews := q\<rparr>)"
  by (rule policy_step_same) simp_all

lemma policy_step_admit:
  "policy_step s (snd (admit_request i c peer epoch why s))"
  "policy_step s (snd (admit_review t i c peer epoch s))"
  "policy_step s (snd (admit_comment sh i c peer epoch g target s))"
  by (rule policy_step_same; auto simp: admit_request_def admit_review_def admit_comment_def Let_def)+

lemma policy_step_gates:
  "policy_step s (snd (authorize t c peer s))"
  "policy_step s (snd (announce_guest t c peer s))"
  "policy_step s (snd (authorize_proxy_peer t peer presented s))"
  by (auto simp: authorize_def announce_guest_def authorize_proxy_peer_def Let_def
      intro!: policy_step_notify policy_step_touch policy_step_refl split: option.splits list.splits sum.splits)

lemma policy_step_enqueue: "policy_step s (snd (enqueue_review t d peer epoch s))"
  by (auto simp: enqueue_review_def Let_def intro!: policy_step_refl policy_step_reviews
      split: option.splits sum.splits prod.splits)

lemma policy_step_permit:
  assumes "distinct (keys (containers s))"
  shows "policy_step s (snd (add_comment_permission sh t fault c ctx target s))"
proof (cases "validate_target target")
  case (Inl e)
  then show ?thesis by (simp add: add_comment_permission_def policy_step_refl)
next
  case (Inr v)
  let ?s = "s\<lparr>uuid_supply := uuid_supply s + 1\<rparr>"
  let ?r = "update_policy t fault (add_grant t (uuid_supply s) c ctx target) ?s"
  have "policy_step s ?s" by (rule policy_step_same) simp_all
  moreover have "policy_step ?s (snd ?r)" by (rule grant_writer.update_policy_step) (simp add: assms)
  ultimately have "policy_step s (snd ?r)" by (rule policy_step_trans)
  then show ?thesis
    using Inr by (auto simp: add_comment_permission_def Let_def
        intro: policy_step_trans policy_step_record split: prod.splits sum.splits)
qed

lemma policy_step_revoke:
  assumes "distinct (keys (containers s))"
  shows "policy_step s (snd (revoke_comment_permission sh t fault c i s))"
  using revoke_writer.update_policy_step [OF assms, of t fault c i]
  by (auto simp: revoke_comment_permission_def intro: policy_step_trans policy_step_record split: prod.splits sum.splits)

lemma policy_step_apply:
  assumes "distinct (keys (containers s))"
  shows "policy_step s (apply_state_op op s)"
proof (cases op)
  case (Policy_op t fault cmd)
  then show ?thesis using policy_writer.update_policy_step [OF command_writer assms] by simp
next
  case (Grant_op sh t fault i fp rid target)
  then show ?thesis
    using policy_step_permit [OF assms]
    by (auto simp: grant_reviewed_comment_def intro: policy_step_refl split: option.splits)
next
  case (Annotate_op i st d)
  then show ?thesis by (auto simp: annotate_def intro!: policy_step_same)
next
  case (Block_op t i st d)
  then show ?thesis by (auto simp: mark_blocked_def intro!: policy_step_same)
qed (simp_all add: policy_step_permit [OF assms] policy_step_revoke [OF assms] policy_step_record policy_step_admit
    policy_step_enqueue policy_step_gates policy_step_reviews)

lemma policy_step_run:
  assumes "distinct (keys (containers s))"
  shows "policy_step s (run ops s)"
  using assms
proof (induction ops arbitrary: s)
  case Nil
  then show ?case by (simp add: run_def policy_step_refl)
next
  case (Cons op ops)
  have step: "policy_step s (apply_state_op op s)" using policy_step_apply [OF Cons.prems] .
  then have "policy_step (apply_state_op op s) (run ops (apply_state_op op s))"
    using Cons by (simp add: policy_step_def)
  with step have "policy_step s (run ops (apply_state_op op s))" by (rule policy_step_trans)
  then show ?case by (simp add: run_def)
qed

definition state_ok :: "AppState \<Rightarrow> bool" where
  "state_ok s \<longleftrightarrow> distinct (keys (containers s))
     \<and> list_all (\<lambda>(_, r). policy_epoch r < uuid_supply s) (containers s)"

lemma state_ok_step: "state_ok s \<Longrightarrow> policy_step s s' \<Longrightarrow> state_ok s'"
proof -
  assume ok: "state_ok s" and step: "policy_step s s'"
  have "policy_epoch r' < uuid_supply s'" if "map_of (containers s') c = Some r'" for c r'
  proof (cases "continues s s' c r'")
    case True
    then show ?thesis using ok step
      by (fastforce simp: continues_def opt_any_iff state_ok_def policy_step_def list_all_iff dest: map_of_SomeD)
  qed (use step that in \<open>auto simp: policy_step_def\<close>)
  moreover have "distinct (keys (containers s'))" using ok step by (simp add: state_ok_def policy_step_def)
  ultimately show ?thesis by (auto simp: state_ok_def list_all_iff)
qed

definition guest_policy :: "AppState \<Rightarrow> string \<Rightarrow> (bool \<times> IpAddr option \<times> uuid) option \<times> bool" where
  "guest_policy s c =
     (map_option (\<lambda>r. (approved r, pinned_ip r, policy_epoch r)) (map_of (containers s) c), c \<in> set (killed s))"

lemma continues_old_epoch:
  assumes "policy_step s s'" and "map_of (containers s') c = Some r'" and "policy_epoch r' < uuid_supply s"
  shows "guest_policy s c = guest_policy s' c"
proof -
  have "continues s s' c r'"
    using assms unfolding policy_step_def by (meson leD)
  then obtain r where "map_of (containers s) c = Some r" "policy_epoch r' = policy_epoch r"
      "approved r' = approved r" "pinned_ip r' = pinned_ip r" "(c \<in> set (killed s')) = (c \<in> set (killed s))"
    by (auto simp: continues_def opt_any_iff)
  then show ?thesis using assms(2) by (simp add: guest_policy_def)
qed

text \<open>
  C4. An epoch stands for one policy of one guest. Suppose the broker handed out an epoch for a guest
  and, after any interleaving of operations \<open>ops1 @ ops2\<close>, admits a request under it. Then at every
  moment in between (after \<open>ops1\<close>) the guest had the very approval, pin, kill flag and epoch it had when
  the epoch was handed out: no kill and resume, no removal and re-registration, no change and change
  back of the pin can have happened meanwhile.
\<close>

theorem epoch_pins_policy:
  assumes "state_ok s" and "review_epoch s c peer = Some epoch"
    and "fst (admit_request i c peer' epoch why (run (ops1 @ ops2) s))"
  shows "guest_policy (run ops1 s) c = guest_policy s c"
proof -
  let ?s1 = "run ops1 s" and ?s2 = "run (ops1 @ ops2) s"
  have old: "epoch < uuid_supply s"
    using assms(1,2) by (force simp: review_epoch_def current_guest_def state_ok_def list_all_iff
        split: option.splits if_splits dest: map_of_SomeD)
  obtain r2 where r2: "map_of (containers ?s2) c = Some r2" "policy_epoch r2 = epoch"
    using assms(3) by (auto simp: admit_request_def refused_def split: option.splits if_splits)
  have step1: "policy_step s ?s1" using policy_step_run assms(1) by (simp add: state_ok_def)
  have s2: "?s2 = run ops2 ?s1" by (simp add: run_def)
  have step2: "policy_step ?s1 ?s2"
    using policy_step_run state_ok_step [OF assms(1) step1] unfolding s2 by (simp add: state_ok_def)
  have "epoch < uuid_supply ?s1" using old step1 by (simp add: policy_step_def)
  then have "guest_policy ?s1 c = guest_policy ?s2 c"
    using continues_old_epoch [OF step2 r2(1)] r2(2) by simp
  moreover have "guest_policy s c = guest_policy ?s2 c"
    using continues_old_epoch [OF policy_step_trans [OF step1 step2] r2(1)] r2(2) old by simp
  ultimately show ?thesis by simp
qed

definition sample_state :: AppState where
  "sample_state = run [Policy_op (sample_clock 5) No_fault (Add ''g'' None)] (initial_state PolicyReview)"

theorem epoch_pins_policy_witness:
  "review_epoch sample_state ''g'' (V4 7) = Some 0
   \<and> guest_policy (run [Policy_op (sample_clock 5) No_fault (Kill ''h'' True)] sample_state) ''g'' = guest_policy sample_state ''g''"
proof -
  have epoch: "review_epoch sample_state ''g'' (V4 7) = Some 0" by code_simp
  have "state_ok sample_state" by code_simp
  moreover have "fst (admit_request 9 ''g'' (V4 7) 0 ''ok'' (run ([Policy_op (sample_clock 5) No_fault (Kill ''h'' True)]
      @ [Authorize_op (sample_clock 5) ''g'' (V4 7)]) sample_state))" by code_simp
  ultimately show ?thesis using epoch epoch_pins_policy [of sample_state "''g''" "V4 7" 0] by blast
qed

end
