(* ===== verification/App_Durable.thy ===== *)
theory App_Durable
  imports App_Policy
begin

text \<open>
  Durability of the guest policy (\<open>update_policy\<close>, \<open>AppState::load\<close>): a change of policy takes the guest's
  waiting reviews with it, memory and the policy file agree after every operation whatever write fails,
  and a restart restores every guest's policy from the file.
\<close>

section \<open>Cancelled reviews\<close>

lemma pending_archive_drop [simp]: "pending (archive_drop t i st out q) = AList.delete i (pending q)"
  by (auto simp: archive_drop_def archive_def drop_sender_def map_of_eq_None_iff delete_id split: option.splits)

lemma pending_fold_archive:
  "pending (fold (\<lambda>i. archive_drop t i st out) is q) = filter (\<lambda>(i, _). i \<notin> set is) (pending q)"
proof (induction "is" arbitrary: q)
  case (Cons i "is")
  then show ?case by (simp add: AList.delete_eq) (rule filter_cong; auto)
qed simp

lemma pending_cancel_container:
  "pending (cancel_container t c q) = filter (\<lambda>(i, _). i \<notin> set (map fst
     (filter (\<lambda>(_, e). container (summary (detail e)) = c) (pending q)))) (pending q)"
  unfolding cancel_container_def notify_def by (simp add: pending_fold_archive)

definition waits :: "Queue \<Rightarrow> string \<Rightarrow> bool" where
  "waits q c \<longleftrightarrow> (\<exists>(i, e) \<in> set (pending q). container (summary (detail e)) = c)"

lemma guest_count_0: "guest_count q c = 0 \<longleftrightarrow> \<not> waits q c"
  by (auto simp: guest_count_def waits_def filter_empty_conv)

lemma waits_cancel: "waits (cancel_container t n q) c \<Longrightarrow> waits q c \<and> c \<noteq> n"
  by (force simp: waits_def pending_cancel_container)

lemma waits_renew:
  "renew_epochs t changed old (u, reg, q) = (u', reg', q') \<Longrightarrow> waits q' c \<Longrightarrow>
     waits q c \<and> (\<forall>r. (c, r) \<in> set old \<longrightarrow> \<not> changed c r)"
proof (induction old arbitrary: u reg q)
  case (Cons p old)
  obtain n r where p: "p = (n, r)" by (cases p)
  show ?case
  proof (cases "changed n r")
    case True
    obtain u1 reg1 where "renew_epochs t changed old (u1, reg1, cancel_container t n q) = (u', reg', q')"
      using Cons.prems(1) True p by (auto split: option.splits)
    from Cons.IH [OF this Cons.prems(2)] show ?thesis using waits_cancel p by auto
  next
    case False
    then show ?thesis using Cons p by auto
  qed
qed simp

section \<open>The decision about a guest\<close>

definition guest_decision :: "AppState \<Rightarrow> string \<Rightarrow> (bool \<times> IpAddr option) option \<times> bool" where
  "guest_decision s c =
     (map_option (\<lambda>r. (approved r, pinned_ip r)) (map_of (containers s) c), c \<in> set (killed s))"

context policy_writer
begin

lemma update_policy_cancels:
  assumes ok: "distinct (keys (containers s))" and ret: "update_policy t fault f s = (Inr (), s')"
    and known: "map_of (containers s) c = Some r" and diff: "guest_decision s' c \<noteq> guest_decision s c"
  shows "guest_count (reviews s') c = 0"
  using ok
proof (cases rule: update_policy_cases [of s t fault])
  case (applied u reg kill u' reg' q saved)
  let ?changed = "policy_changed (containers s) (killed s) reg kill"
  have s': "containers s' = reg'" "killed s' = kill" "reviews s' = q"
    using applied(4) ret by (simp_all add: notify_state_def)
  have "?changed c r"
  proof (rule ccontr)
    assume "\<not> ?changed c r"
    then have "map_of reg' c = map_of reg c"
      using renew_epochs_result [OF applied(2) ok] known by (auto dest: spec [of _ c])
    then show False
      using diff known \<open>\<not> ?changed c r\<close> s' by (auto simp: guest_decision_def policy_changed_def split: option.splits)
  qed
  then have "\<not> waits q c" using waits_renew [OF applied(2)] map_of_SomeD [OF known] by blast
  then show ?thesis by (simp add: guest_count_0 s')
qed (use ret in simp)

end


text \<open>
  C30. A policy transaction is all or nothing, and a change of policy takes the guest's waiting reviews
  with it. When a command fails, whether it was refused or the policy file could not be written, the
  state is the one before (a drawn UUID apart). When it succeeds, no review of a guest whose approval,
  pin or kill flag changed is left waiting, so that no decision of the host can release it any more.
\<close>

theorem policy_change_cancels_reviews:
  assumes "state_ok s" and "update_policy t fault (command_update cmd) s = (r, s')"
  shows "(if r = Inr () then \<forall>c. guest_decision s' c = guest_decision s c \<or> map_of (containers s) c = None
                               \<or> guest_count (reviews s') c = 0
          else s' = s\<lparr>uuid_supply := uuid_supply s'\<rparr>)"
proof -
  have ok: "distinct (keys (containers s))" using assms(1) by (simp add: state_ok_def)
  note cancels = policy_writer.update_policy_cancels [OF command_writer ok]
  note rejects = policy_writer.update_policy_rejected [OF command_writer ok]
  show ?thesis
  proof (cases "r = Inr ()")
    case True
    have "guest_decision s' c = guest_decision s c \<or> map_of (containers s) c = None \<or> guest_count (reviews s') c = 0" for c
      using cancels [of t fault cmd s' c] assms(2) True by (cases "map_of (containers s) c") (blast, metis)
    then show ?thesis using True by simp
  next
    case False
    then show ?thesis using rejects [of t fault cmd] assms(2) by auto
  qed
qed

section \<open>What the policy file holds\<close>

definition record_ok :: "nat \<Rightarrow> string list \<Rightarrow> string \<Rightarrow> ContainerRecord \<Rightarrow> bool" where
  "record_ok u kill n r \<longleftrightarrow> length (comment_permissions r) \<le> 32 \<and> distinct (map grant_id (comment_permissions r))
     \<and> list_all (\<lambda>g. grant_id g < u) (comment_permissions r)
     \<and> (managed r \<or> \<not> approved r \<and> pinned_ip r = None \<and> comment_permissions r = []
          \<and> record_cline_access r = Basic \<and> n \<notin> set kill)"

definition registry_ok :: "nat \<Rightarrow> registry \<Rightarrow> string list \<Rightarrow> bool" where
  "registry_ok u reg kill \<longleftrightarrow> distinct (keys reg) \<and> set kill \<subseteq> set (keys reg)
     \<and> (\<forall>n r. map_of reg n = Some r \<longrightarrow> record_ok u kill n r)"

definition agrees :: "SavedContainers option \<Rightarrow> registry \<Rightarrow> string list \<Rightarrow> bool" where
  "agrees saved reg kill \<longleftrightarrow> (case saved of
       None \<Rightarrow> saved_containers (saved_of reg kill) = []
     | Some f \<Rightarrow> saved_version f = 1 \<and> sort_key saved_name (saved_containers f) = saved_containers (saved_of reg kill))"

definition durable :: "AppState \<Rightarrow> bool" where
  "durable s \<longleftrightarrow> registry_ok (uuid_supply s) (containers s) (killed s)
     \<and> (policy_path s \<longrightarrow> agrees (policy_file s) (containers s) (killed s))"

text \<open>Changes of a record that the file does not show.\<close>

definition unsaved_change :: "(ContainerRecord \<Rightarrow> ContainerRecord) \<Rightarrow> bool" where
  "unsaved_change f \<longleftrightarrow> (\<forall>r. instance_id (f r) = instance_id r \<and> approved (f r) = approved r \<and> pinned_ip (f r) = pinned_ip r
     \<and> comment_permissions (f r) = comment_permissions r \<and> record_cline_access (f r) = record_cline_access r
     \<and> managed (f r) = managed r)"

lemma modify_absent: "n \<notin> set (keys reg) \<Longrightarrow> map (\<lambda>(k, r). (k, if k = n then f r else r)) reg = reg"
  by (induction reg) auto

lemma update_eq_map:
  "distinct (keys reg) \<Longrightarrow> map_of reg n = Some r \<Longrightarrow>
     AList.update n (f r) reg = map (\<lambda>(k, r). (k, if k = n then f r else r)) reg"
proof (induction reg)
  case (Cons p reg)
  then show ?case using modify_absent [of n reg f] by (cases p) (auto split: if_splits)
qed simp

lemma modify_eq_map: "distinct (keys reg) \<Longrightarrow> modify n f reg = map (\<lambda>(k, r). (k, if k = n then f r else r)) reg"
  using update_eq_map [of reg n] modify_absent [of n reg f]
  by (cases "map_of reg n") (simp_all add: modify_def map_of_eq_None_iff [symmetric])

lemma saved_of_modify:
  assumes "unsaved_change f" and "distinct (keys reg)"
  shows "saved_of (modify n f reg) kill = saved_of reg kill"
proof -
  have "map g (filter (\<lambda>(_, r). managed r) (map (\<lambda>(k, r). (k, if k = n then f r else r)) reg))
      = map g (filter (\<lambda>(_, r). managed r) reg)" if "\<And>k r. g (k, f r) = g (k, r)" for g :: "string \<times> ContainerRecord \<Rightarrow> SavedContainer"
    using that assms(1) by (induction reg) (auto simp: unsaved_change_def split: if_splits)
  then show ?thesis using assms by (simp add: saved_of_def modify_eq_map unsaved_change_def)
qed

lemma record_ok_unsaved: "unsaved_change f \<Longrightarrow> record_ok u kill n (f r) = record_ok u kill n r"
  by (simp add: record_ok_def unsaved_change_def)

lemma record_ok_mono: "record_ok u kill n r \<Longrightarrow> u \<le> u' \<Longrightarrow> record_ok u' kill n r"
  by (auto simp: record_ok_def list_all_iff)

lemma registry_ok_modify:
  "unsaved_change f \<Longrightarrow> registry_ok u reg kill \<Longrightarrow> registry_ok u (modify n f reg) kill"
  by (auto simp: registry_ok_def map_of_modify record_ok_unsaved split: if_splits)

lemma registry_ok_mono: "registry_ok u reg kill \<Longrightarrow> u \<le> u' \<Longrightarrow> registry_ok u' reg kill"
  unfolding registry_ok_def using record_ok_mono by blast

lemma record_ok_default: "n \<notin> set kill \<Longrightarrow> record_ok u kill n (default_record v)"
  by (simp add: record_ok_def default_record_def)

lemma or_default_ok:
  assumes "or_default n u reg = (u', reg')" and "registry_ok u reg kill"
  shows "registry_ok u' reg' kill" and "saved_of reg' kill = saved_of reg kill"
    and "n \<in> set (keys reg')"
proof -
  have fresh: "n \<notin> set kill" if "map_of reg n = None"
    using assms(2) that by (auto simp: registry_ok_def map_of_eq_None_iff)
  have "record_ok u' kill m r" if m: "map_of reg' m = Some r" for m r
  proof (cases "m = n \<and> map_of reg n = None")
    case True
    then show ?thesis using m or_default_simps(3) [OF assms(1), of m] fresh record_ok_default by auto
  next
    case False
    then have "record_ok u kill m r" using m or_default_simps(3) [OF assms(1), of m] assms(2) by (auto simp: registry_ok_def)
    then show ?thesis using record_ok_mono or_default_simps(1) [OF assms(1)] by blast
  qed
  moreover have "set (keys reg) \<subseteq> set (keys reg')" using assms(1) by (auto simp: or_default_def split: if_splits)
  ultimately show "registry_ok u' reg' kill"
    using assms(2) or_default_simps(2) [OF assms(1)] by (auto simp: registry_ok_def)
  show "saved_of reg' kill = saved_of reg kill" "n \<in> set (keys reg')"
    using assms(1) by (auto simp: or_default_def saved_of_def map_of_eq_None_iff split: if_splits)
qed

lemma renew_epochs_ok:
  "renew_epochs t changed old (u, reg, q) = (u', reg', q') \<Longrightarrow> registry_ok u reg kill \<Longrightarrow>
     registry_ok u' reg' kill \<and> saved_of reg' kill = saved_of reg kill"
proof (induction old arbitrary: u reg q)
  case (Cons p old)
  obtain n r0 where p: "p = (n, r0)" by (cases p)
  let ?f = "\<lambda>r. r\<lparr>policy_epoch := u\<rparr>"
  have f: "unsaved_change ?f" by (simp add: unsaved_change_def)
  have mod: "registry_ok (u + 1) (modify n ?f reg) kill" "saved_of (modify n ?f reg) kill = saved_of reg kill"
    using registry_ok_mono [OF registry_ok_modify [OF f Cons.prems(2)]] saved_of_modify [OF f] Cons.prems(2)
    by (simp_all add: registry_ok_def)
  show ?case
  proof (cases "changed n r0")
    case True
    show ?thesis
    proof (cases "map_of reg n")
      case None
      then show ?thesis using Cons.IH [of u reg] Cons.prems True p by simp
    next
      case (Some r)
      then have "modify n ?f reg = AList.update n (r\<lparr>policy_epoch := u\<rparr>) reg" by (simp add: modify_def)
      then show ?thesis using Cons.IH [of "u + 1" "modify n ?f reg"] Cons.prems True p Some mod by simp
    qed
  next
    case False
    then show ?thesis using Cons p by simp
  qed
qed simp

lemma agrees_saved: "agrees (Some (saved_of reg kill)) reg kill"
  by (simp add: agrees_def saved_of_def sort_key_id_if_sorted)


section \<open>Every policy operation keeps the registry well-formed\<close>

locale registry_writer =
  fixes f :: policy_update
  assumes keeps_registry: "f u reg kill = Inr (u', reg', kill') \<Longrightarrow> registry_ok u reg kill \<Longrightarrow> registry_ok u' reg' kill'"

lemma registry_ok_update:
  assumes "registry_ok u reg kill" and "map_of reg n = Some r" and "record_ok u' kill n x" and "u \<le> u'"
  shows "registry_ok u' (AList.update n x reg) kill"
  using registry_ok_mono [OF assms(1,4)] assms(2,3)
  by (auto simp: registry_ok_def keys_update_present update_conv' split: if_splits)

lemma record_ok_managed:
  assumes "record_ok u kill n r" and "managed x" and "comment_permissions x = comment_permissions r"
  shows "record_ok u kill' n x"
  using assms by (simp add: record_ok_def)

lemma registry_okD: "registry_ok u reg kill \<Longrightarrow> map_of reg n = Some r \<Longrightarrow> record_ok u kill n r"
  by (simp add: registry_ok_def)

lemma registry_ok_set:
  assumes "registry_ok u reg kill" and "map_of reg n = Some r" and "managed x"
    and "comment_permissions x = comment_permissions r"
  shows "registry_ok u (AList.update n x reg) kill"
  using registry_ok_update [OF assms(1,2) record_ok_managed [OF registry_okD [OF assms(1,2)] assms(3,4)] order_refl] .

interpretation keep_registry: registry_writer keep_update
  by unfold_locales (auto simp: keep_update_def)

interpretation reset_registry: registry_writer reset_update
  by unfold_locales (auto simp: reset_update_def registry_ok_def)

interpretation cline_registry: registry_writer "cline_update n access" for n access
  by unfold_locales (auto simp: cline_update_def split: option.splits intro: registry_ok_set)

interpretation pin_registry: registry_writer "set_pin_update n ip" for n ip
  by unfold_locales (auto simp: set_pin_update_def bind_res_Inr_iff split: option.splits intro: registry_ok_set)

interpretation approve_registry: registry_writer "approve_update n pin" for n pin
  by unfold_locales (auto simp: approve_update_def bind_res_Inr_iff split: option.splits if_splits intro!: registry_ok_set)

interpretation remove_registry: registry_writer "remove_update n" for n
proof
  fix u reg kill u' reg' kill'
  assume f: "remove_update n u reg kill = Inr (u', reg', kill')" and ok: "registry_ok u reg kill"
  have "record_ok u' kill' m r" if "map_of reg' m = Some r" for m r
    using f that registry_okD [OF ok, of m r]
    by (auto simp: remove_update_def delete_conv' record_ok_def split: if_splits)
  moreover have "keys reg' = removeAll n (keys reg)" "kill' = removeAll n kill"
    using f by (auto simp: remove_update_def delete_keys)
  ultimately show "registry_ok u' reg' kill'"
    unfolding registry_ok_def using ok by (auto simp: registry_ok_def distinct_removeAll)
qed

lemma registry_ok_managed_all:
  assumes ok: "registry_ok u reg kill" and n: "n \<in> set (keys reg)"
    and f: "\<And>r. managed (f r)" "\<And>r. comment_permissions (f r) = comment_permissions r"
    and kill: "set kill' \<subseteq> insert n (set kill)"
  shows "registry_ok u (modify n f reg) kill'"
proof -
  have "record_ok u kill' m x" if m: "map_of (modify n f reg) m = Some x" for m x
  proof (cases "m = n")
    case True
    then obtain r where "map_of reg n = Some r" "x = f r" using m by (auto simp: map_of_modify)
    then show ?thesis using registry_okD [OF ok] f True by (auto simp: record_ok_def)
  next
    case False
    then have "map_of reg m = Some x" using m by (simp add: map_of_modify)
    then show ?thesis using registry_okD [OF ok] kill False by (auto simp: record_ok_def)
  qed
  then show ?thesis using ok n kill by (auto simp: registry_ok_def)
qed

interpretation kill_registry: registry_writer "kill_update c kill_it" for c kill_it
proof
  fix u reg kill u' reg' kill'
  assume f: "kill_update c kill_it u reg kill = Inr (u', reg', kill')" and ok: "registry_ok u reg kill"
  then obtain reg1 where d: "or_default c u reg = (u', reg1)" and reg': "reg' = modify c (\<lambda>r. r\<lparr>managed := True\<rparr>) reg1"
    by (auto simp: kill_update_def split: prod.splits)
  have "set kill' \<subseteq> insert c (set kill)" using f by (auto simp: kill_update_def split: prod.splits if_splits)
  then show "registry_ok u' reg' kill'"
    unfolding reg' using or_default_ok(1,3) [OF d ok] by (intro registry_ok_managed_all [where kill = kill]) simp_all
qed

lemma registry_ok_transfer: "registry_ok u reg kill \<Longrightarrow> registry_ok u (transfer_pin n ip reg) kill"
proof -
  assume ok: "registry_ok u reg kill"
  have "record_ok u kill m x" if "map_of (transfer_pin n ip reg) m = Some x" for m x
  proof -
    obtain r where r: "map_of reg m = Some r" "x = r \<or> managed x \<and> comment_permissions x = comment_permissions r"
      using \<open>map_of (transfer_pin n ip reg) m = Some x\<close> by (auto simp: transfer_pin_simps split: if_splits)
    show ?thesis using r(2) registry_okD [OF ok r(1)] record_ok_managed by blast
  qed
  then show ?thesis using ok by (simp add: registry_ok_def transfer_pin_simps(1))
qed

interpretation add_registry: registry_writer "add_container_update n ip" for n ip
proof
  fix u reg kill u' reg' kill'
  assume f: "add_container_update n ip u reg kill = Inr (u', reg', kill')" and ok: "registry_ok u reg kill"
  define reg1 where "reg1 = (case ip of None \<Rightarrow> reg | Some a \<Rightarrow> transfer_pin n a reg)"
  obtain v reg2 where d: "or_default n u reg1 = (v, reg2)" by fastforce
  let ?set = "\<lambda>r. let r' = r\<lparr>approved := True, managed := True\<rparr> in if ip \<noteq> None then r'\<lparr>pinned_ip := ip\<rparr> else r'"
  have res: "u' = v" "reg' = modify n ?set reg2" "kill' = kill"
    using f d by (simp_all add: add_container_update_def reg1_def)
  have "registry_ok u reg1 kill" using ok registry_ok_transfer by (simp add: reg1_def split: option.splits)
  from or_default_ok(1,3) [OF d this] show "registry_ok u' reg' kill'"
    unfolding res by (intro registry_ok_managed_all [where kill = kill]) (auto simp: Let_def)
qed

interpretation revoke_registry: registry_writer "revoke_grant c i" for c i
proof
  fix u reg kill u' reg' kill'
  assume f: "revoke_grant c i u reg kill = Inr (u', reg', kill')" and ok: "registry_ok u reg kill"
  then obtain r where r: "map_of reg c = Some r" "list_ex (\<lambda>g. grant_id g = i) (comment_permissions r)"
      "u' = u + 1" "kill' = kill"
      "reg' = AList.update c (r\<lparr>comment_permissions := filter (\<lambda>g. grant_id g \<noteq> i) (comment_permissions r), comment_revision := u\<rparr>) reg"
    by (auto simp: revoke_grant_def split: option.splits if_splits)
  have "length (filter (\<lambda>g. grant_id g \<noteq> i) (comment_permissions r)) \<le> length (comment_permissions r)" by (rule length_filter_le)
  also have "length (comment_permissions r) \<le> 32" using registry_okD [OF ok r(1)] by (simp add: record_ok_def)
  finally have "record_ok u kill c (r\<lparr>comment_permissions := filter (\<lambda>g. grant_id g \<noteq> i) (comment_permissions r), comment_revision := u\<rparr>)"
    using registry_okD [OF ok r(1)] r(2) by (auto simp: record_ok_def list_all_iff distinct_map_filter)
  then show "registry_ok u' reg' kill'"
    unfolding r(3-5) using ok r(1) by (intro registry_ok_update) (auto intro: record_ok_mono)
qed

lemma command_registry: "registry_writer (command_update cmd)"
  by (cases cmd) (simp_all add: keep_registry.registry_writer_axioms remove_registry.registry_writer_axioms
      reset_registry.registry_writer_axioms cline_registry.registry_writer_axioms pin_registry.registry_writer_axioms
      approve_registry.registry_writer_axioms kill_registry.registry_writer_axioms add_registry.registry_writer_axioms)

lemma add_grant_registry:
  assumes "add_grant t gid c ctx target (gid + 1) reg kill = Inr (u', reg', kill')" and ok: "registry_ok gid reg kill"
  shows "registry_ok u' reg' kill'"
proof -
  obtain r where r: "map_of reg c = Some r" "length (comment_permissions r) < 32" "u' = gid + 1 + 1" "kill' = kill"
    and reg': "reg' = AList.update c (r\<lparr>comment_permissions := filter (\<lambda>g. \<not> (target_node_id (grant_target g) = target_node_id target
                  \<and> grant_binding g = context_binding ctx)) (comment_permissions r)
                @ [\<lparr>grant_id = gid, grant_target = target, grant_binding = context_binding ctx, created_at = utc t\<rparr>],
            comment_revision := gid + 1, managed := True\<rparr>) reg"
    using assms(1) by (auto simp: add_grant_def split: option.splits if_splits)
  let ?kept = "filter (\<lambda>g. \<not> (target_node_id (grant_target g) = target_node_id target
                  \<and> grant_binding g = context_binding ctx)) (comment_permissions r)"
  have "length ?kept \<le> length (comment_permissions r)" by (rule length_filter_le)
  with r(2) have "length ?kept < 32" by (rule le_less_trans [rotated])
  then have "record_ok (gid + 1 + 1) kill c (r\<lparr>comment_permissions := ?kept
                @ [\<lparr>grant_id = gid, grant_target = target, grant_binding = context_binding ctx, created_at = utc t\<rparr>],
            comment_revision := gid + 1, managed := True\<rparr>)"
    using registry_okD [OF ok r(1)] by (auto simp: record_ok_def list_all_iff distinct_map_filter)
  then show ?thesis unfolding r(3,4) reg' using ok r(1) by (intro registry_ok_update) auto
qed


section \<open>The invariant\<close>

lemma durable_update:
  assumes ok: "durable s"
    and keeps: "\<And>u reg kill. f (uuid_supply s) (containers s) (killed s) = Inr (u, reg, kill) \<Longrightarrow>
           uuid_supply s \<le> u \<and> registry_ok u reg kill"
  shows "durable (snd (update_policy t fault f s))"
proof (cases "f (uuid_supply s) (containers s) (killed s)")
  case (Inl e)
  then show ?thesis using ok by (simp add: update_policy_def)
next
  case (Inr v)
  obtain u reg kill where v: "v = (u, reg, kill)" by (cases v)
  have u: "uuid_supply s \<le> u" "registry_ok u reg kill" using keeps Inr v by auto
  obtain u' reg' q where ren: "renew_epochs t (policy_changed (containers s) (killed s) reg kill)
      (containers s) (u, reg, reviews s) = (u', reg', q)" by (metis prod_cases3)
  note new = renew_epochs_ok [OF ren u(2)]
  show ?thesis
  proof (cases "policy_path s \<and> fault \<noteq> No_fault")
    case True
    then have "snd (update_policy t fault f s) = s\<lparr>uuid_supply := u\<rparr>"
      using Inr v by (cases fault) (simp_all add: update_policy_def atomic_write_def)
    then show ?thesis using ok u(1) by (auto simp: durable_def intro: registry_ok_mono)
  next
    case False
    then have "snd (update_policy t fault f s) = notify_state (s\<lparr>containers := reg', killed := kill,
        policy_file := (if policy_path s then Some (saved_of reg kill) else policy_file s), reviews := q, uuid_supply := u'\<rparr>)"
      using Inr v ren by (cases fault) (auto simp: update_policy_def atomic_write_def)
    then show ?thesis using new agrees_saved [of reg' kill] by (auto simp: durable_def)
  qed
qed

lemma durable_supply: "durable s \<Longrightarrow> uuid_supply s \<le> u \<Longrightarrow> durable (s\<lparr>uuid_supply := u\<rparr>)"
  by (auto simp: durable_def intro: registry_ok_mono)

lemma durable_same:
  assumes "durable s" and "containers s' = containers s" and "killed s' = killed s" and "uuid_supply s \<le> uuid_supply s'"
    and "policy_path s' = policy_path s" and "policy_file s' = policy_file s"
  shows "durable s'"
  using assms by (auto simp: durable_def intro: registry_ok_mono)

lemma durable_touch: "durable s \<Longrightarrow> durable (touch_container t n ip s)"
proof -
  assume ok: "durable s"
  obtain u reg where d: "or_default n (uuid_supply s) (containers s) = (u, reg)" by fastforce
  have reg: "registry_ok (uuid_supply s) (containers s) (killed s)" using ok by (simp add: durable_def)
  let ?f = "\<lambda>r. let r' = r\<lparr>last_activity := Some (utc t)\<rparr> in if ip \<noteq> None then r'\<lparr>last_ip := ip\<rparr> else r'"
  have f: "unsaved_change ?f" by (simp add: unsaved_change_def Let_def)
  have "distinct (keys reg)" using or_default_ok(1) [OF d reg] by (simp add: registry_ok_def)
  then have saved: "saved_of (modify n ?f reg) (killed s) = saved_of (containers s) (killed s)"
    using saved_of_modify [OF f] or_default_ok(2) [OF d reg] by simp
  have "registry_ok u (modify n ?f reg) (killed s)" using registry_ok_modify [OF f or_default_ok(1) [OF d reg]] .
  then show ?thesis using ok saved d by (simp add: durable_def touch_container_def agrees_def split: option.splits)
qed

lemma durable_record: "durable s \<Longrightarrow> durable (snd (record_activity t c m u v guest s))"
proof -
  assume ok: "durable s"
  let ?s = "if guest then touch_container t c None s else s"
  have "durable ?s" using ok durable_touch by simp
  then show ?thesis by (rule durable_same) (simp_all add: record_activity_def Let_def)
qed

lemma durable_notify [simp]: "durable (notify_state s) = durable s"
  by (simp add: durable_def)

lemma durable_reviews [simp]: "durable (s\<lparr>reviews := q\<rparr>) = durable s"
  by (simp add: durable_def)

lemma durable_amend [simp]: "durable (amend_event i f s) = durable s"
  by (simp add: durable_def)

lemma durable_permit:
  assumes "durable s"
  shows "durable (snd (add_comment_permission sh t fault c ctx target s))"
proof (cases "validate_target target")
  case (Inr v)
  let ?s = "s\<lparr>uuid_supply := uuid_supply s + 1\<rparr>"
  have reg: "registry_ok (uuid_supply s) (containers s) (killed s)" using assms by (simp add: durable_def)
  have "durable (snd (update_policy t fault (add_grant t (uuid_supply s) c ctx target) ?s))"
    using durable_supply [OF assms, of "uuid_supply s + 1"] add_grant_registry [OF _ reg]
    by (intro durable_update) (auto simp: add_grant_def split: option.splits if_splits)
  then show ?thesis
    using Inr durable_record by (auto simp: add_comment_permission_def Let_def split: prod.splits sum.splits)
qed (simp add: add_comment_permission_def assms)

lemma durable_apply: "durable s \<Longrightarrow> durable (apply_state_op op s)"
proof -
  assume ok: "durable s"
  have reg: "registry_ok (uuid_supply s) (containers s) (killed s)" using ok by (simp add: durable_def)
  show ?thesis
  proof (cases op)
    case (Policy_op t fault cmd)
    have "durable (snd (update_policy t fault (command_update cmd) s))"
      using ok policy_writer.writer_supply [OF command_writer] registry_writer.keeps_registry [OF command_registry _ reg]
      by (intro durable_update) auto
    then show ?thesis using Policy_op by simp
  next
    case (Revoke_op sh t fault c i)
    have "durable (snd (update_policy t fault (revoke_grant c i) s))"
      using ok revoke_writer.writer_supply revoke_registry.keeps_registry [OF _ reg] by (intro durable_update) auto
    then show ?thesis
      using Revoke_op durable_record by (auto simp: revoke_comment_permission_def split: prod.splits sum.splits)
  next
    case (Grant_op sh t fault i fp rid target)
    then show ?thesis using ok durable_permit by (auto simp: grant_reviewed_comment_def split: option.splits)
  qed (use ok durable_record durable_permit durable_touch in
    \<open>auto simp: annotate_def mark_blocked_def admit_request_def admit_review_def admit_comment_def enqueue_review_def
       authorize_def announce_guest_def authorize_proxy_peer_def Let_def
       split: option.splits sum.splits prod.splits list.splits\<close>)
qed

lemma durable_run: "durable s \<Longrightarrow> durable (run ops s)"
  unfolding run_def by (induction ops arbitrary: s) (simp_all add: durable_apply)


section \<open>Loading\<close>

definition saved_entry :: "string list \<Rightarrow> string \<times> ContainerRecord \<Rightarrow> SavedContainer" where
  "saved_entry kill nr = (case nr of (n, r) \<Rightarrow>
     \<lparr>saved_name = n, saved_instance = instance_id r, saved_approved = approved r, saved_killed = (n \<in> set kill),
      saved_pinned_ip = pinned_ip r, saved_comment_permissions = comment_permissions r,
      saved_cline_access = record_cline_access r\<rparr>)"

lemma saved_of_entries:
  "saved_containers (saved_of reg kill) = sort_key saved_name (map (saved_entry kill) (filter (\<lambda>(_, r). managed r) reg))"
  by (simp add: saved_of_def saved_entry_def [abs_def] case_prod_unfold)

lemma saved_entry_simps [simp]: "saved_name (saved_entry kill nr) = fst nr"
  by (simp add: saved_entry_def case_prod_unfold)

lemma check_grants:
  "(\<exists>ids'. fold_res (\<lambda>g ids. bind_res (validate_grant g) (\<lambda>_.
       if grant_id g \<in> set ids then Inl ''duplicate comment permission ID'' else Inr (grant_id g # ids))) gs ids = Inr ids')
   \<longleftrightarrow> list_all (\<lambda>g. validate_grant g = Inr ()) gs \<and> distinct (map grant_id gs)
       \<and> set (map grant_id gs) \<inter> set ids = {}"
proof (induction gs arbitrary: ids)
  case (Cons g gs)
  show ?case
  proof (cases "validate_grant g = Inr () \<and> grant_id g \<notin> set ids")
    case True
    then show ?thesis using Cons.IH [of "grant_id g # ids"] by (auto simp: bind_res_Inr_iff)
  next
    case False
    then show ?thesis by (auto simp: bind_res_Inr_iff split: if_splits)
  qed
qed simp

definition loadable :: "SavedContainer \<Rightarrow> bool" where
  "loadable e \<longleftrightarrow> str_trim (saved_name e) \<noteq> [] \<and> length (saved_comment_permissions e) \<le> 32
     \<and> list_all (\<lambda>g. validate_grant g = Inr ()) (saved_comment_permissions e)
     \<and> distinct (map grant_id (saved_comment_permissions e))"

lemma load_entry_Inr_iff:
  "load_entry e (u, reg, kill) = Inr (u', reg', kill') \<longleftrightarrow>
     loadable e \<and> saved_name e \<notin> set (keys reg) \<and> u' = u + 3
     \<and> reg' = reg @ [(saved_name e, (default_record u)\<lparr>approved := saved_approved e, instance_id := saved_instance e,
                 pinned_ip := saved_pinned_ip e, managed := True,
                 comment_permissions := saved_comment_permissions e, record_cline_access := saved_cline_access e\<rparr>)]
     \<and> kill' = (if saved_killed e then List.insert (saved_name e) kill else kill)"
  using check_grants [of "saved_comment_permissions e" "[]"]
  by (auto simp: load_entry_def loadable_def bind_res_Inr_iff map_of_eq_None_iff)

lemma load_entries_result:
  assumes "fold_res load_entry es (u, reg, kill) = Inr (u', reg', kill')" and "registry_ok u reg kill"
    and "list_all (\<lambda>(_, r). managed r) reg" and "list_all (\<lambda>e. list_all (\<lambda>g. grant_id g < u) (saved_comment_permissions e)) es"
  shows "u \<le> u' \<and> registry_ok u' reg' kill' \<and> list_all (\<lambda>(_, r). managed r) reg'
    \<and> map (saved_entry kill') reg' = map (saved_entry kill) reg @ es"
  using assms
proof (induction es arbitrary: u reg kill)
  case (Cons e es)
  obtain u1 reg1 kill1 where one: "load_entry e (u, reg, kill) = Inr (u1, reg1, kill1)"
    and rest: "fold_res load_entry es (u1, reg1, kill1) = Inr (u', reg', kill')"
    using Cons.prems(1) by (auto simp: bind_res_Inr_iff)
  note e = one [unfolded load_entry_Inr_iff]
  have new: "saved_name e \<notin> set kill" using e Cons.prems(2) by (auto simp: registry_ok_def)
  have ok: "record_ok u1 kill1 m r" if "map_of reg1 m = Some r" for m r
  proof (cases "m = saved_name e")
    case True
    have "list_all (\<lambda>g. grant_id g < u1) (saved_comment_permissions e)" using Cons.prems(4) e by (fastforce simp: list_all_iff)
    then show ?thesis using True that e
      by (auto simp: record_ok_def loadable_def map_add_def map_of_eq_None_iff [symmetric] split: option.splits)
  next
    case False
    then have "map_of reg m = Some r" using that e by (auto simp: map_add_def split: option.splits if_splits)
    then have "record_ok u1 kill m r" using record_ok_mono [OF registry_okD [OF Cons.prems(2)]] e by auto
    then show ?thesis using False e by (auto simp: record_ok_def split: if_splits)
  qed
  have reg1: "registry_ok u1 reg1 kill1"
    using ok e Cons.prems(2) by (auto simp: registry_ok_def split: if_splits)
  have "map (saved_entry kill1) reg = map (saved_entry kill) reg"
    using e by (intro map_cong) (auto simp: saved_entry_def rev_image_eqI split: if_splits)
  moreover have "saved_entry kill1 (last reg1) = e" using e new by (simp add: saved_entry_def)
  ultimately have "map (saved_entry kill1) reg1 = map (saved_entry kill) reg @ [e]" using e by simp
  moreover have "list_all (\<lambda>(_, r). managed r) reg1" using e Cons.prems(3) by simp
  moreover have "list_all (\<lambda>e. list_all (\<lambda>g. grant_id g < u1) (saved_comment_permissions e)) es"
    using Cons.prems(4) e by (fastforce simp: list_all_iff)
  ultimately show ?case using Cons.IH [OF rest reg1] e by auto
qed simp

definition ids_below :: "nat \<Rightarrow> policy_read \<Rightarrow> bool" where
  "ids_below u rd \<longleftrightarrow> (case rd of
       Contents f \<Rightarrow> list_all (\<lambda>e. list_all (\<lambda>g. grant_id g < u) (saved_comment_permissions e)) (saved_containers f)
     | _ \<Rightarrow> True)"

lemma durable_load:
  assumes "load_state rd u0 = Inr s" and "ids_below u0 rd"
  shows "durable s" and "policy_path s"
    and "policy_file s = (case rd of Contents c \<Rightarrow> Some c | _ \<Rightarrow> None)" and "u0 \<le> uuid_supply s"
proof -
  obtain saved u reg kill where saved: "(case rd of Contents c \<Rightarrow> Inr c | Missing \<Rightarrow> Inr \<lparr>saved_version = 1, saved_containers = []\<rparr>
        | Malformed \<Rightarrow> Inl ''invalid container policy (restore or repair this file before starting)'' | Unreadable \<Rightarrow> Inl ''read'') = Inr saved"
    and v: "saved_version saved = 1" and l: "fold_res load_entry (saved_containers saved) (u0, [], []) = Inr (u, reg, kill)"
    and s: "s = (initial_state PolicyReview)\<lparr>killed := kill, containers := reg, policy_path := True,
                policy_file := (case rd of Contents c \<Rightarrow> Some c | _ \<Rightarrow> None), uuid_supply := u\<rparr>"
    using assms(1) by (auto simp: load_state_def bind_res_Inr_iff split: if_splits)
  have below: "list_all (\<lambda>e. list_all (\<lambda>g. grant_id g < u0) (saved_comment_permissions e)) (saved_containers saved)"
    using saved assms(2) by (auto simp: ids_below_def split: policy_read.splits)
  have res: "u0 \<le> u" "registry_ok u reg kill" "list_all (\<lambda>(_, r). managed r) reg" "map (saved_entry kill) reg = saved_containers saved"
    using load_entries_result [OF l _ _ below] by (auto simp: registry_ok_def)
  have "filter (\<lambda>(_, r). managed r) reg = reg" using res(3) by (auto simp: filter_id_conv list_all_iff)
  then have "saved_containers (saved_of reg kill) = sort_key saved_name (saved_containers saved)"
    by (simp add: saved_of_entries res(4))
  then show "durable s" using res(2) v saved by (auto simp: durable_def s agrees_def split: policy_read.splits)
  show "policy_path s" "policy_file s = (case rd of Contents c \<Rightarrow> Some c | _ \<Rightarrow> None)" "u0 \<le> uuid_supply s"
    using res(1) by (simp_all add: s)
qed

lemma load_entries_succeed:
  "list_all loadable es \<Longrightarrow> distinct (map saved_name es) \<Longrightarrow> set (map saved_name es) \<inter> set (keys reg) = {} \<Longrightarrow>
     \<exists>x. fold_res load_entry es (u, reg, kill) = Inr x"
proof (induction es arbitrary: u reg kill)
  case (Cons e es)
  let ?r = "(default_record u)\<lparr>approved := saved_approved e, instance_id := saved_instance e,
                 pinned_ip := saved_pinned_ip e, managed := True,
                 comment_permissions := saved_comment_permissions e, record_cline_access := saved_cline_access e\<rparr>"
  let ?k = "if saved_killed e then List.insert (saved_name e) kill else kill"
  have one: "load_entry e (u, reg, kill) = Inr (u + 3, reg @ [(saved_name e, ?r)], ?k)"
    unfolding load_entry_Inr_iff using Cons.prems by auto
  have "set (map saved_name es) \<inter> set (keys (reg @ [(saved_name e, ?r)])) = {}" using Cons.prems by auto
  then show ?case using Cons.IH [of "reg @ [(saved_name e, ?r)]" "u + 3" ?k] Cons.prems one by simp
qed simp


section \<open>A restart restores the policy\<close>

text \<open>What the broker decides by: approval, pin, kill flag, comment permissions and Cline mode of a name.\<close>

definition policy_view :: "registry \<Rightarrow> string list \<Rightarrow> string \<Rightarrow> bool \<times> IpAddr option \<times> bool \<times> Grant list \<times> ClineAccess" where
  "policy_view reg kill c =
     (case map_of reg c of
        None \<Rightarrow> (False, None, c \<in> set kill, [], Basic)
      | Some r \<Rightarrow> (approved r, pinned_ip r, c \<in> set kill, comment_permissions r, record_cline_access r))"

definition entry_view :: "SavedContainer option \<Rightarrow> bool \<times> IpAddr option \<times> bool \<times> Grant list \<times> ClineAccess" where
  "entry_view e =
     (case e of
        None \<Rightarrow> (False, None, False, [], Basic)
      | Some x \<Rightarrow> (saved_approved x, saved_pinned_ip x, saved_killed x, saved_comment_permissions x, saved_cline_access x))"

abbreviation by_name :: "SavedContainer list \<Rightarrow> (string \<times> SavedContainer) list" where
  "by_name \<equiv> map (\<lambda>e. (saved_name e, e))"

lemma distinct_names_sort: "distinct (map saved_name (sort_key saved_name es)) = distinct (map saved_name es)"
  by (simp add: distinct_map)

lemma distinct_names_saved:
  assumes "registry_ok u reg kill"
  shows "distinct (map saved_name (map (saved_entry kill) (filter (\<lambda>(_, r). managed r) reg)))"
proof -
  have "map saved_name (map (saved_entry kill) xs) = keys xs" for xs by simp
  moreover have "distinct (keys (filter P reg))" for P using assms by (simp add: registry_ok_def distinct_map_filter)
  ultimately show ?thesis by (simp only:)
qed

lemma by_name_sort:
  assumes "distinct (map saved_name es)"
  shows "map_of (by_name (sort_key saved_name es)) = map_of (by_name es)"
proof -
  have names: "map fst (by_name xs) = map saved_name xs" for xs by simp
  have "distinct (map fst (by_name (sort_key saved_name es)))" unfolding names distinct_names_sort
    by (rule assms)
  moreover have "distinct (map fst (by_name es))" unfolding names by (rule assms)
  ultimately show ?thesis by (subst map_of_inject_set) simp_all
qed

lemma map_of_saved:
  "distinct (keys reg) \<Longrightarrow> map_of (by_name (map (saved_entry kill) (filter (\<lambda>(_, r). managed r) reg))) c
     = Option.bind (map_of reg c) (\<lambda>r. if managed r then Some (saved_entry kill (c, r)) else None)"
proof (induction reg)
  case (Cons p reg)
  obtain n r where p: "p = (n, r)" by (cases p)
  have "map_of reg n = None" using Cons.prems p by (simp add: map_of_eq_None_iff)
  then show ?case using Cons p by auto
qed simp

lemma policy_view_saved:
  assumes "registry_ok u reg kill"
  shows "policy_view reg kill c = entry_view (map_of (by_name (saved_containers (saved_of reg kill))) c)"
proof -
  have reg: "distinct (keys reg)" using assms by (simp add: registry_ok_def)
  have "map_of (by_name (saved_containers (saved_of reg kill))) c
      = Option.bind (map_of reg c) (\<lambda>r. if managed r then Some (saved_entry kill (c, r)) else None)"
    by (simp only: saved_of_entries by_name_sort [OF distinct_names_saved [OF assms]] map_of_saved [OF reg])
  moreover have "c \<notin> set kill" if "map_of reg c = None"
    using assms that by (auto simp: registry_ok_def map_of_eq_None_iff)
  ultimately show ?thesis
    using registry_okD [OF assms, of c]
    by (cases "map_of reg c") (auto simp: policy_view_def entry_view_def saved_entry_def record_ok_def)
qed

text \<open>
  The records a start-up accepts. The bounds of the grants are an invariant; that names are not blank
  and that stored grants validate depends on the callers of the policy operations.
\<close>

definition well_named :: "AppState \<Rightarrow> bool" where
  "well_named s \<longleftrightarrow> list_all (\<lambda>(n, r). managed r \<longrightarrow>
     str_trim n \<noteq> [] \<and> list_all (\<lambda>g. validate_grant g = Inr ()) (comment_permissions r)) (containers s)"

lemma saved_loadable:
  assumes "registry_ok (uuid_supply s) (containers s) (killed s)" and "well_named s"
    and "e \<in> set (saved_containers (saved_of (containers s) (killed s)))"
  shows "loadable e" and "list_all (\<lambda>g. grant_id g < uuid_supply s) (saved_comment_permissions e)"
proof -
  obtain n r where nr: "(n, r) \<in> set (containers s)" "managed r" "e = saved_entry (killed s) (n, r)"
    using assms(3) by (auto simp: saved_of_entries)
  have "map_of (containers s) n = Some r" using nr(1) assms(1) by (simp add: registry_ok_def)
  then have "record_ok (uuid_supply s) (killed s) n r" using registry_okD [OF assms(1)] by blast
  then show "loadable e" "list_all (\<lambda>g. grant_id g < uuid_supply s) (saved_comment_permissions e)"
    using nr assms(2) by (auto simp: loadable_def record_ok_def saved_entry_def well_named_def list_all_iff)
qed

definition on_disk :: "AppState \<Rightarrow> policy_read" where
  "on_disk s = (case policy_file s of None \<Rightarrow> Missing | Some f \<Rightarrow> Contents f)"

lemma reload:
  assumes ok: "durable s" and path: "policy_path s" and named: "well_named s" and u: "uuid_supply s \<le> u"
  obtains s' where "load_state (on_disk s) u = Inr s'"
    and "\<And>c. policy_view (containers s') (killed s') c = policy_view (containers s) (killed s) c"
proof -
  let ?es = "case policy_file s of None \<Rightarrow> [] | Some f \<Rightarrow> saved_containers f"
  have reg: "registry_ok (uuid_supply s) (containers s) (killed s)" using ok by (simp add: durable_def)
  have ag: "sort_key saved_name ?es = saved_containers (saved_of (containers s) (killed s))"
    using ok path by (auto simp: durable_def agrees_def split: option.splits)
  have es: "set ?es = set (saved_containers (saved_of (containers s) (killed s)))" using ag [symmetric] by simp
  note entry = saved_loadable [OF reg named, folded es]
  have all: "list_all loadable ?es" using entry(1) by (simp add: list_all_iff)
  have below: "ids_below u (on_disk s)" using entry(2) u
    by (fastforce simp: ids_below_def on_disk_def list_all_iff split: option.splits)
  have "distinct (map saved_name (sort_key saved_name ?es))"
    unfolding ag saved_of_entries distinct_names_sort by (rule distinct_names_saved [OF reg])
  then have "distinct (map saved_name ?es)" by (simp only: distinct_names_sort)
  then obtain x where "fold_res load_entry ?es (u, [], []) = Inr x"
    using load_entries_succeed [OF all, of "[]" u "[]"] by auto
  then obtain s' where s': "load_state (on_disk s) u = Inr s'"
    using ok path by (cases x) (auto simp: load_state_def on_disk_def durable_def agrees_def split: option.splits)
  note new = durable_load [OF s' below]
  have "saved_containers (saved_of (containers s') (killed s')) = saved_containers (saved_of (containers s) (killed s))"
    using new(1-3) ag by (auto simp: durable_def agrees_def on_disk_def split: option.splits)
  then have "policy_view (containers s') (killed s') c = policy_view (containers s) (killed s) c" for c
    using policy_view_saved [OF reg] policy_view_saved [of "uuid_supply s'" "containers s'" "killed s'"] new(1)
    by (simp add: durable_def)
  with s' show ?thesis by (rule that)
qed


lemma policy_path_update [simp]: "policy_path (snd (update_policy t fault f s)) = policy_path s"
  by (auto simp: update_policy_def split: sum.splits prod.splits)

lemma policy_path_record [simp]: "policy_path (snd (record_activity t c m u v guest s)) = policy_path s"
  by (simp add: record_activity_def touch_container_def Let_def split: prod.splits)

lemma policy_path_touch [simp]: "policy_path (touch_container t n ip s) = policy_path s"
  by (simp add: touch_container_def split: prod.splits)

lemma policy_path_permit [simp]: "policy_path (snd (add_comment_permission sh t fault c ctx target s)) = policy_path s"
proof -
  let ?s = "s\<lparr>uuid_supply := uuid_supply s + 1\<rparr>"
  have "policy_path (snd (update_policy t fault f ?s)) = policy_path s" for f by simp
  then show ?thesis
    by (auto simp: add_comment_permission_def Let_def simp del: policy_path_update split: prod.splits sum.splits) (metis snd_conv)+
qed

lemma policy_path_revoke [simp]: "policy_path (snd (revoke_comment_permission sh t fault c i s)) = policy_path s"
  using policy_path_update [of t fault "revoke_grant c i" s]
  by (auto simp: revoke_comment_permission_def simp del: policy_path_update split: prod.splits sum.splits)

lemma policy_path_apply: "policy_path (apply_state_op op s) = policy_path s"
  by (cases op) (auto simp: annotate_def mark_blocked_def admit_request_def admit_review_def admit_comment_def
      enqueue_review_def authorize_def announce_guest_def authorize_proxy_peer_def grant_reviewed_comment_def Let_def
      split: option.splits sum.splits prod.splits list.splits)

lemma policy_path_run: "policy_path (run ops s) = policy_path s"
  unfolding run_def by (induction ops arbitrary: s) (simp_all add: policy_path_apply)

text \<open>
  C24. Memory and the policy file agree. After a start-up and any interleaving of operations, whichever
  of their writes fail, the file on disk holds exactly the managed guests of memory with their
  approval, pin, kill flag, permissions and Cline mode, up to order. A guest that the host never
  touched holds nothing: no approval, no pin, no permission. No guest has more than 32 comment
  permissions or two with one id.
\<close>

theorem policy_file_agrees:
  assumes "load_state rd u0 = Inr s0" and "ids_below u0 rd"
  shows "durable (run ops s0) \<and> policy_path (run ops s0)"
  using durable_run [OF durable_load(1) [OF assms]] durable_load(2) [OF assms] policy_path_run by simp

text \<open>
  C29. A restart restores the policy. Whatever happened since the last start-up, a new start-up from the
  file on disk succeeds and gives every name the approval, pin, kill flag, comment permissions and Cline
  mode it had, an unknown name included. It is asked of the managed guests that no name is blank and
  that every stored grant validates: a policy file with a blank name stops the start-up.
\<close>

theorem restart_restores_policy:
  assumes "load_state rd u0 = Inr s0" and "ids_below u0 rd" and "well_named (run ops s0)"
    and "uuid_supply (run ops s0) \<le> u"
  shows "\<exists>s'. load_state (on_disk (run ops s0)) u = Inr s'
    \<and> policy_view (containers s') (killed s') = policy_view (containers (run ops s0)) (killed (run ops s0))"
proof -
  have "durable (run ops s0)" "policy_path (run ops s0)"
    using durable_run [OF durable_load(1) [OF assms(1,2)]] durable_load(2) [OF assms(1,2)] policy_path_run by simp_all
  from reload [OF this assms(3,4)] obtain s' where "load_state (on_disk (run ops s0)) u = Inr s'"
    "\<And>c. policy_view (containers s') (killed s') c = policy_view (containers (run ops s0)) (killed (run ops s0)) c" by blast
  then show ?thesis by (intro exI [of _ s']) auto
qed


definition sample_ops :: "state_op list" where
  "sample_ops = [Policy_op (sample_clock 5) No_fault (Add ''g'' (Some (V4 7))), Authorize_op (sample_clock 6) ''h'' (V4 9),
     Policy_op (sample_clock 7) Fault_rename (Kill ''g'' True), Policy_op (sample_clock 8) No_fault (Cline ''g'' Full)]"

definition sample_start :: AppState where
  "sample_start = projr (load_state Missing 0)"

lemma sample_start_loaded: "load_state Missing 0 = Inr sample_start"
  by code_simp

theorem policy_file_agrees_witness: "durable (run sample_ops sample_start) \<and> policy_path (run sample_ops sample_start)"
  using policy_file_agrees [OF sample_start_loaded] by (simp add: ids_below_def)

theorem restart_restores_policy_witness:
  "\<exists>s'. load_state (on_disk (run sample_ops sample_start)) 99 = Inr s'
    \<and> policy_view (containers s') (killed s') = policy_view (containers (run sample_ops sample_start)) (killed (run sample_ops sample_start))"
proof (rule restart_restores_policy [OF sample_start_loaded])
  show "ids_below 0 Missing" by (simp add: ids_below_def)
  show "well_named (run sample_ops sample_start)" by code_simp
  show "uuid_supply (run sample_ops sample_start) \<le> 99" by code_simp
qed

theorem policy_change_cancels_reviews_witness:
  "guest_decision (snd (update_policy (sample_clock 5) No_fault (command_update (Kill ''g'' True)) sample_state)) ''g''
      \<noteq> guest_decision sample_state ''g''
   \<and> guest_count (reviews (snd (update_policy (sample_clock 5) No_fault (command_update (Kill ''g'' True)) sample_state))) ''g'' = 0"
proof -
  let ?r = "update_policy (sample_clock 5) No_fault (command_update (Kill ''g'' True)) sample_state"
  have "state_ok sample_state" by code_simp
  from policy_change_cancels_reviews [OF this, of "sample_clock 5" No_fault "Kill ''g'' True" "fst ?r" "snd ?r"]
  have "if fst ?r = Inr () then \<forall>c. guest_decision (snd ?r) c = guest_decision sample_state c \<or> map_of (containers sample_state) c = None
          \<or> guest_count (reviews (snd ?r)) c = 0 else snd ?r = sample_state\<lparr>uuid_supply := uuid_supply (snd ?r)\<rparr>" by simp
  moreover have "fst ?r = Inr ()" "map_of (containers sample_state) ''g'' \<noteq> None" by code_simp+
  moreover have "guest_decision (snd ?r) ''g'' \<noteq> guest_decision sample_state ''g''" by code_simp
  ultimately show ?thesis by metis
qed

section \<open>Blank names\<close>

lemma load_entries_loadable: "fold_res load_entry es st = Inr x \<Longrightarrow> e \<in> set es \<Longrightarrow> loadable e"
proof (induction es arbitrary: st)
  case (Cons a es)
  obtain u reg kill where st: "st = (u, reg, kill)" by (cases st)
  obtain u1 reg1 kill1 where one: "load_entry a (u, reg, kill) = Inr (u1, reg1, kill1)"
    and rest: "fold_res load_entry es (u1, reg1, kill1) = Inr x"
    using Cons.prems(1) st by (auto simp: bind_res_Inr_iff)
  then show ?case using Cons load_entry_Inr_iff by auto
qed simp

lemma kill_saves:
  assumes "policy_path s" and "distinct (keys (containers s))"
  shows "\<exists>f e. policy_file (apply_state_op (Policy_op t No_fault (Kill n kill_it)) s) = Some f
     \<and> e \<in> set (saved_containers f) \<and> saved_name e = n"
proof -
  obtain u reg where d: "or_default n (uuid_supply s) (containers s) = (u, reg)" by fastforce
  let ?reg = "modify n (\<lambda>r. r\<lparr>managed := True\<rparr>) reg" and ?kill = "if kill_it then List.insert n (killed s) else removeAll n (killed s)"
  have f: "policy_file (apply_state_op (Policy_op t No_fault (Kill n kill_it)) s) = Some (saved_of ?reg ?kill)"
    using assms(1) d by (auto simp: update_policy_def kill_update_def atomic_write_def notify_state_def split: prod.splits)
  have "map_of reg n \<noteq> None" using or_default_simps(3) [OF d, of n] by auto
  then obtain r where "map_of ?reg n = Some r" "managed r" by (auto simp: map_of_modify)
  then have "(n, r) \<in> set ?reg" "managed r" by (auto dest: map_of_SomeD)
  then have "saved_entry ?kill (n, r) \<in> set (saved_containers (saved_of ?reg ?kill))"
    by (force simp: saved_of_entries)
  then show ?thesis using f by (intro exI [of _ "saved_of ?reg ?kill"] exI [of _ "saved_entry ?kill (n, r)"]) simp
qed

text \<open>
  C39. A blank name locks the broker out. \<open>set_killed\<close> accepts any name, a blank one included, and makes
  it a managed guest; the policy file then holds a name that \<open>AppState::load\<close> refuses, so that after
  such a call, at any time, the next start-up fails.
\<close>

theorem blank_name_blocks_restart:
  assumes "load_state rd u0 = Inr s0" and "ids_below u0 rd" and "str_trim n = []"
  shows "\<exists>e. load_state (on_disk (run (ops @ [Policy_op t No_fault (Kill n kill_it)]) s0)) u = Inl e"
proof -
  let ?s = "run ops s0" and ?op = "Policy_op t No_fault (Kill n kill_it)"
  have run: "run (ops @ [?op]) s0 = apply_state_op ?op ?s" by (simp add: run_def)
  have path: "policy_path ?s" using durable_load(2) [OF assms(1,2)] policy_path_run by simp
  have "distinct (keys (containers ?s))"
    using durable_run [OF durable_load(1) [OF assms(1,2)], of ops] by (simp add: durable_def registry_ok_def)
  then obtain f e where f: "policy_file (apply_state_op ?op ?s) = Some f" "e \<in> set (saved_containers f)" "saved_name e = n"
    using kill_saves [OF path] by blast
  have "\<not> loadable e" using f(3) assms(3) by (simp add: loadable_def)
  then have "fold_res load_entry (saved_containers f) (u, [], []) \<noteq> Inr x" for x
    using load_entries_loadable f(2) by blast
  then obtain m where "fold_res load_entry (saved_containers f) (u, [], []) = Inl m" by (metis sum.exhaust_sel)
  then show ?thesis unfolding run on_disk_def f(1) by (simp add: load_state_def)
qed

theorem blank_name_blocks_restart_witness:
  "\<exists>e. load_state (on_disk (run (sample_ops @ [Policy_op (sample_clock 9) No_fault (Kill '' '' True)]) sample_start)) 99 = Inl e"
proof (rule blank_name_blocks_restart [OF sample_start_loaded])
  show "ids_below 0 Missing" by (simp add: ids_below_def)
  show "str_trim '' '' = []" by code_simp
qed

end
