(* ===== verification/App_Gate.thy ===== *)
theory App_Gate
  imports App_Durable
begin

text \<open>
  The gates of \<open>state.rs\<close>: a source address belongs to at most one guest, proxied traffic is attributed to
  the guest that owns its address, traffic never widens a guest's policy, and a revoked comment
  permission is never honoured again.
\<close>

section \<open>Pins\<close>

definition pin_of :: "registry \<Rightarrow> string \<Rightarrow> IpAddr option" where
  "pin_of reg n = Option.bind (map_of reg n) pinned_ip"

definition unique_pins :: "registry \<Rightarrow> bool" where
  "unique_pins reg \<longleftrightarrow> (\<forall>n m a. pin_of reg n = Some a \<longrightarrow> pin_of reg m = Some a \<longrightarrow> n = m)"

lemma pin_of_update [simp]: "pin_of (AList.update n x reg) = (pin_of reg)(n := pinned_ip x)"
  by (simp add: pin_of_def fun_eq_iff update_conv')

lemma pin_of_or_default: "or_default n u reg = (u', reg') \<Longrightarrow> pin_of reg' = pin_of reg"
  using or_default_simps(3) [of n u reg u' reg'] by (auto simp: pin_of_def fun_eq_iff)

lemma pin_of_modify: "(\<And>r. pinned_ip (f r) = pinned_ip r) \<Longrightarrow> pin_of (modify n f reg) = pin_of reg"
  by (auto simp: pin_of_def map_of_modify fun_eq_iff split: option.splits) (auto split: bind_splits)

lemma pin_of_delete: "pin_of (AList.delete n reg) = (pin_of reg)(n := None)"
  by (simp add: pin_of_def fun_eq_iff delete_conv')

lemma pin_of_transfer:
  "pin_of (transfer_pin n ip reg) c = (if c \<noteq> n \<and> pin_of reg c = Some ip then None else pin_of reg c)"
  by (cases "map_of reg c") (auto simp: pin_of_def transfer_pin_simps)

lemma check_unique_pin_iff:
  assumes "distinct (keys reg)"
  shows "check_unique_pin reg n ip = Inr x \<longleftrightarrow> (\<forall>a m. ip = Some a \<longrightarrow> m \<noteq> n \<longrightarrow> pin_of reg m \<noteq> Some a)"
proof -
  have "(m, r) \<in> set reg \<longleftrightarrow> map_of reg m = Some r" for m r using assms by simp
  then show ?thesis
    by (auto simp: check_unique_pin_def list_ex_iff pin_of_def bind_eq_Some_conv split: option.splits)
qed

lemma unique_pins_upd:
  assumes "unique_pins reg" and "\<And>a m. ip = Some a \<Longrightarrow> m \<noteq> n \<Longrightarrow> pin_of reg m \<noteq> Some a"
    and "pin_of reg' = (pin_of reg)(n := ip)"
  shows "unique_pins reg'"
  using assms by (auto simp: unique_pins_def split: if_splits)

lemma unique_pins_update:
  assumes "unique_pins reg" and "\<And>a m. pinned_ip x = Some a \<Longrightarrow> m \<noteq> n \<Longrightarrow> pin_of reg m \<noteq> Some a"
  shows "unique_pins (AList.update n x reg)"
  using unique_pins_upd [OF assms] by simp

section \<open>Grants\<close>

definition lacks :: "uuid \<Rightarrow> string \<Rightarrow> registry \<Rightarrow> bool" where
  "lacks i c reg \<longleftrightarrow> opt_all (\<lambda>r. list_all (\<lambda>g. grant_id g \<noteq> i) (comment_permissions r)) (map_of reg c)"

lemma lacks_or_default: "or_default n u reg = (u', reg') \<Longrightarrow> lacks i c reg \<Longrightarrow> lacks i c reg'"
  using or_default_simps(3) [of n u reg u' reg' c] by (auto simp: lacks_def)

lemma lacks_modify:
  "(\<And>r. comment_permissions (f r) = comment_permissions r) \<Longrightarrow> lacks i c (modify n f reg) = lacks i c reg"
  by (auto simp: lacks_def map_of_modify opt_all_def split: option.splits)

lemma lacks_update:
  "lacks i c reg \<Longrightarrow> map_of reg n = Some r \<Longrightarrow> comment_permissions x = comment_permissions r \<Longrightarrow> lacks i c (AList.update n x reg)"
  by (auto simp: lacks_def update_conv')

lemma lacks_delete: "lacks i c reg \<Longrightarrow> lacks i c (AList.delete n reg)"
  by (auto simp: lacks_def delete_conv')

lemma lacks_transfer: "lacks i c (transfer_pin n ip reg) = lacks i c reg"
  by (auto simp: lacks_def transfer_pin_simps opt_all_def split: option.splits)

section \<open>What every policy operation keeps\<close>

lemma renewed_fields:
  assumes "renewed u u' a b"
  shows "map_option pinned_ip b = map_option pinned_ip a" "map_option comment_permissions b = map_option comment_permissions a"
proof -
  have "map_option pinned_ip b = map_option pinned_ip a \<and> map_option comment_permissions b = map_option comment_permissions a"
  proof (cases a)
    case (Some r)
    then obtain r' where b: "b = Some r'" and eq: "r' = r\<lparr>policy_epoch := policy_epoch r'\<rparr>"
      using assms by (auto simp: renewed_def opt_any_iff)
    have "pinned_ip r' = pinned_ip r" "comment_permissions r' = comment_permissions r"
      using arg_cong [OF eq, of pinned_ip] arg_cong [OF eq, of comment_permissions] by simp_all
    then show ?thesis using Some b by simp
  qed (use assms in \<open>simp add: renewed_def\<close>)
  then show "map_option pinned_ip b = map_option pinned_ip a" "map_option comment_permissions b = map_option comment_permissions a"
    by simp_all
qed

lemma renew_epochs_gate:
  assumes "renew_epochs t changed old (u, reg, q) = (u', reg', q')" and "distinct (keys old)"
  shows "pin_of reg' = pin_of reg" and "lacks i c reg' = lacks i c reg"
proof -
  have eq: "map_option pinned_ip (map_of reg' n) = map_option pinned_ip (map_of reg n)
      \<and> map_option comment_permissions (map_of reg' n) = map_option comment_permissions (map_of reg n)" for n
    using renew_epochs_result [OF assms] renewed_fields [of u u' "map_of reg n" "map_of reg' n"]
    by (auto dest!: spec [of _ n] split: if_splits)
  have "pin_of reg' n = pin_of reg n" for n
    using eq [of n] by (cases "map_of reg n"; cases "map_of reg' n") (simp_all add: pin_of_def)
  then show "pin_of reg' = pin_of reg" by blast
  show "lacks i c reg' = lacks i c reg"
    using eq [of c] by (auto simp: lacks_def opt_all_def split: option.splits)
qed

locale guest_writer = policy_writer f for f +
  assumes keeps_pins: "f u reg kill = Inr (u', reg', kill') \<Longrightarrow> distinct (keys reg) \<Longrightarrow> unique_pins reg \<Longrightarrow> unique_pins reg'"
    and keeps_lacks: "f u reg kill = Inr (u', reg', kill') \<Longrightarrow> lacks i c reg \<Longrightarrow> lacks i c reg'"
begin

lemma update_policy_guest:
  assumes ok: "distinct (keys (containers s))"
  shows "unique_pins (containers s) \<Longrightarrow> unique_pins (containers (snd (update_policy t fault f s)))"
    and "lacks i c (containers s) \<Longrightarrow> lacks i c (containers (snd (update_policy t fault f s)))"
proof -
  consider (same) "containers (snd (update_policy t fault f s)) = containers s"
    | (new) u reg kill u' reg' q where "f (uuid_supply s) (containers s) (killed s) = Inr (u, reg, kill)"
      "renew_epochs t (policy_changed (containers s) (killed s) reg kill) (containers s) (u, reg, reviews s) = (u', reg', q)"
      "containers (snd (update_policy t fault f s)) = reg'"
    using ok by (cases rule: update_policy_cases [of s t fault]) (auto simp: notify_state_def)
  then have "(unique_pins (containers s) \<longrightarrow> unique_pins (containers (snd (update_policy t fault f s))))
      \<and> (lacks i c (containers s) \<longrightarrow> lacks i c (containers (snd (update_policy t fault f s))))"
  proof cases
    case new
    then show ?thesis
      using keeps_pins [OF new(1) ok] keeps_lacks [OF new(1)] renew_epochs_gate [OF new(2) ok] by (simp add: unique_pins_def)
  qed simp
  then show "unique_pins (containers s) \<Longrightarrow> unique_pins (containers (snd (update_policy t fault f s)))"
    "lacks i c (containers s) \<Longrightarrow> lacks i c (containers (snd (update_policy t fault f s)))" by simp_all
qed

end

interpretation keep_guest: guest_writer keep_update
  by unfold_locales (auto simp: keep_update_def)

interpretation reset_guest: guest_writer reset_update
  by unfold_locales (auto simp: reset_update_def unique_pins_def pin_of_def lacks_def)

interpretation cline_guest: guest_writer "cline_update n access" for n access
  by unfold_locales (auto simp: cline_update_def pin_of_def unique_pins_def update_conv' split: option.splits if_splits intro: lacks_update)

interpretation remove_guest: guest_writer "remove_update n" for n
  by unfold_locales (auto simp: remove_update_def lacks_delete unique_pins_def pin_of_delete)


interpretation pin_guest: guest_writer "set_pin_update n ip" for n ip
proof
  fix u reg kill u' reg' kill'
  assume "set_pin_update n ip u reg kill = Inr (u', reg', kill')"
  then obtain r where r: "check_unique_pin reg n ip = Inr ()" "map_of reg n = Some r"
      "reg' = AList.update n (r\<lparr>pinned_ip := ip, managed := True\<rparr>) reg"
    by (auto simp: set_pin_update_def bind_res_Inr_iff split: option.splits)
  show "unique_pins reg'" if "distinct (keys reg)" "unique_pins reg"
    unfolding r(3) using r(1) [unfolded check_unique_pin_iff [OF that(1)]]
    by (intro unique_pins_update [OF that(2)]) simp
  show "lacks i c reg'" if "lacks i c reg" for i c
    unfolding r(3) by (rule lacks_update [OF that r(2)]) simp
qed

interpretation approve_guest: guest_writer "approve_update n pin" for n pin
proof
  fix u reg kill u' reg' kill'
  assume f: "approve_update n pin u reg kill = Inr (u', reg', kill')"
  then obtain ip r where r: "check_unique_pin reg n ip = Inr ()" "map_of reg n = Some r"
      "reg' = AList.update n ((if ip \<noteq> None then r\<lparr>pinned_ip := ip\<rparr> else r)\<lparr>approved := True, managed := True\<rparr>) reg"
    by (auto simp: approve_update_def bind_res_Inr_iff split: option.splits if_splits)
  show "unique_pins reg'" if "distinct (keys reg)" "unique_pins reg"
  proof (cases ip)
    case None
    then have "pin_of reg' = pin_of reg" using r(2,3) by (auto simp: pin_of_def fun_eq_iff update_conv')
    then show ?thesis using that(2) by (simp add: unique_pins_def)
  next
    case (Some a)
    show ?thesis
      unfolding r(3) using r(1) [unfolded check_unique_pin_iff [OF that(1)]] Some
      by (intro unique_pins_update [OF that(2)]) simp
  qed
  show "lacks i c reg'" if "lacks i c reg" for i c
    unfolding r(3) by (rule lacks_update [OF that r(2)]) simp
qed

interpretation kill_guest: guest_writer "kill_update c kill_it" for c kill_it
proof
  fix u reg kill u' reg' kill'
  assume "kill_update c kill_it u reg kill = Inr (u', reg', kill')"
  then obtain reg1 where d: "or_default c u reg = (u', reg1)" and reg': "reg' = modify c (\<lambda>r. r\<lparr>managed := True\<rparr>) reg1"
    by (auto simp: kill_update_def split: prod.splits)
  have "pin_of reg' = pin_of reg" using pin_of_or_default [OF d] unfolding reg' by (simp add: pin_of_modify)
  then show "unique_pins reg'" if "unique_pins reg" using that by (simp add: unique_pins_def)
  show "lacks i m reg'" if "lacks i m reg" for i m using lacks_or_default [OF d that] unfolding reg' by (simp add: lacks_modify)
qed

interpretation add_guest: guest_writer "add_container_update n ip" for n ip
proof
  fix u reg kill u' reg' kill'
  assume f: "add_container_update n ip u reg kill = Inr (u', reg', kill')"
  define reg1 where "reg1 = (case ip of None \<Rightarrow> reg | Some a \<Rightarrow> transfer_pin n a reg)"
  obtain v reg2 where d: "or_default n u reg1 = (v, reg2)" by fastforce
  let ?set = "\<lambda>r. let r' = r\<lparr>approved := True, managed := True\<rparr> in if ip \<noteq> None then r'\<lparr>pinned_ip := ip\<rparr> else r'"
  have res: "reg' = modify n ?set reg2" using f d by (simp add: add_container_update_def reg1_def)
  have n: "map_of reg2 n \<noteq> None" using or_default_simps(3) [OF d, of n] by auto
  show "unique_pins reg'" if "unique_pins reg"
  proof (cases ip)
    case None
    then have "pin_of reg' = pin_of reg"
      unfolding res using pin_of_or_default [OF d] by (simp add: pin_of_modify reg1_def)
    then show ?thesis using that by (simp add: unique_pins_def)
  next
    case (Some a)
    have "pin_of reg' = (pin_of reg1)(n := Some a)"
      using n pin_of_or_default [OF d] Some unfolding res
      by (auto simp: pin_of_def fun_eq_iff map_of_modify Let_def)
    moreover have "unique_pins reg1" using that Some by (auto simp: unique_pins_def reg1_def pin_of_transfer split: if_splits)
    moreover have "pin_of reg1 m \<noteq> Some a" if "m \<noteq> n" for m using that Some by (simp add: reg1_def pin_of_transfer)
    ultimately show ?thesis using unique_pins_upd [of reg1 "Some a" n reg'] by blast
  qed
  show "lacks i c reg'" if "lacks i c reg" for i c
  proof -
    have "lacks i c reg1" using that by (simp add: reg1_def lacks_transfer split: option.splits)
    from lacks_or_default [OF d this] show ?thesis unfolding res by (simp add: lacks_modify Let_def)
  qed
qed

interpretation revoke_guest: guest_writer "revoke_grant c i" for c i
proof
  fix u reg kill u' reg' kill'
  assume "revoke_grant c i u reg kill = Inr (u', reg', kill')"
  then obtain r where r: "map_of reg c = Some r"
      "reg' = AList.update c (r\<lparr>comment_permissions := filter (\<lambda>g. grant_id g \<noteq> i) (comment_permissions r), comment_revision := u\<rparr>) reg"
    by (auto simp: revoke_grant_def split: option.splits if_splits)
  have "pin_of reg' = pin_of reg" using r by (auto simp: pin_of_def fun_eq_iff update_conv')
  then show "unique_pins reg'" if "unique_pins reg" using that by (simp add: unique_pins_def)
  show "lacks j m reg'" if "lacks j m reg" for j m
    using that r by (auto simp: lacks_def update_conv' list_all_iff)
qed

lemma command_guest: "guest_writer (command_update cmd)"
  by (cases cmd) (simp_all add: keep_guest.guest_writer_axioms remove_guest.guest_writer_axioms
      reset_guest.guest_writer_axioms cline_guest.guest_writer_axioms pin_guest.guest_writer_axioms
      approve_guest.guest_writer_axioms kill_guest.guest_writer_axioms add_guest.guest_writer_axioms)


section \<open>Every operation\<close>

text \<open>What an operation leaves of the registry of guests that matters to the gates.\<close>

definition gate_keeps :: "AppState \<Rightarrow> AppState \<Rightarrow> bool" where
  "gate_keeps s s' \<longleftrightarrow> (unique_pins (containers s) \<longrightarrow> unique_pins (containers s'))
     \<and> (\<forall>i c. i < uuid_supply s \<longrightarrow> lacks i c (containers s) \<longrightarrow> lacks i c (containers s'))"

lemma gate_keepsI:
  assumes "unique_pins (containers s) \<Longrightarrow> unique_pins (containers s')"
    and "\<And>i c. i < uuid_supply s \<Longrightarrow> lacks i c (containers s) \<Longrightarrow> lacks i c (containers s')"
  shows "gate_keeps s s'"
  using assms by (simp add: gate_keeps_def)

lemma gate_keeps_same: "containers s' = containers s \<Longrightarrow> gate_keeps s s'"
  by (simp add: gate_keeps_def)

lemma gate_keeps_trans:
  "gate_keeps s1 s2 \<Longrightarrow> gate_keeps s2 s3 \<Longrightarrow> uuid_supply s1 \<le> uuid_supply s2 \<Longrightarrow> gate_keeps s1 s3"
  by (auto simp: gate_keeps_def)

lemma gate_keeps_touch: "gate_keeps s (touch_container t n ip s)"
proof -
  obtain u reg where d: "or_default n (uuid_supply s) (containers s) = (u, reg)" by fastforce
  let ?f = "\<lambda>r. let r' = r\<lparr>last_activity := Some (utc t)\<rparr> in if ip \<noteq> None then r'\<lparr>last_ip := ip\<rparr> else r'"
  have c: "containers (touch_container t n ip s) = modify n ?f reg" by (simp add: touch_container_def d)
  have "pin_of (modify n ?f reg) = pin_of (containers s)" using pin_of_or_default [OF d] by (simp add: pin_of_modify Let_def)
  then show ?thesis
    unfolding gate_keeps_def c using lacks_or_default [OF d] by (simp add: unique_pins_def lacks_modify Let_def)
qed

lemma gate_keeps_record: "gate_keeps s (snd (record_activity t c m u v guest s))"
proof -
  let ?s = "if guest then touch_container t c None s else s"
  have "gate_keeps s ?s" using gate_keeps_touch gate_keeps_same by simp
  moreover have "containers (snd (record_activity t c m u v guest s)) = containers ?s"
    by (simp add: record_activity_def Let_def)
  ultimately show ?thesis by (simp only: gate_keeps_def)
qed

lemma gate_keeps_update:
  assumes "guest_writer f" and "distinct (keys (containers s))"
  shows "gate_keeps s (snd (update_policy t fault f s))"
  using guest_writer.update_policy_guest [OF assms] by (simp add: gate_keeps_def)

text \<open>A grant is a writer like the others once its fresh id is known to differ.\<close>

lemma grant_guest:
  assumes "add_grant t gid c ctx target u reg kill = Inr (u', reg', kill')"
  shows "pin_of reg' = pin_of reg" and "j \<noteq> gid \<Longrightarrow> lacks j m reg \<Longrightarrow> lacks j m reg'"
  using assms by (auto simp: add_grant_def pin_of_def fun_eq_iff update_conv' lacks_def list_all_iff
      split: option.splits if_splits) blast+

lemma gate_keeps_permit:
  assumes ok: "distinct (keys (containers s))"
  shows "gate_keeps s (snd (add_comment_permission sh t fault c ctx target s))"
proof (cases "validate_target target")
  case (Inr v)
  let ?gid = "uuid_supply s" and ?s = "s\<lparr>uuid_supply := uuid_supply s + 1\<rparr>"
  let ?f = "add_grant t ?gid c ctx target"
  let ?r = "update_policy t fault ?f ?s"
  have ok': "distinct (keys (containers ?s))" using ok by simp
  have pw: "policy_writer ?f" by (rule grant_writer.policy_writer_axioms)
  have keeps: "gate_keeps s (snd ?r)"
    using ok'
  proof (cases rule: policy_writer.update_policy_cases [OF pw, of ?s t fault, consumes 1, case_names rejected applied])
    case rejected
    then obtain v where "snd ?r = ?s\<lparr>uuid_supply := v\<rparr>" by blast
    then show ?thesis by (intro gate_keeps_same) simp
  next
    case (applied u reg kill u' reg' q saved)
    show ?thesis
      using grant_guest [OF applied(1)] renew_epochs_gate [OF applied(2) ok'] applied(4)
      by (simp add: gate_keeps_def unique_pins_def notify_state_def)
  qed
  have le: "uuid_supply s \<le> uuid_supply (snd ?r)"
    using policy_writer.update_policy_step [OF pw ok', of t fault] by (simp add: policy_step_def)
  show ?thesis
    using Inr keeps gate_keeps_trans [OF keeps gate_keeps_record le]
    by (auto simp: add_comment_permission_def Let_def split: prod.splits sum.splits)
qed (simp add: add_comment_permission_def gate_keeps_same)

lemma gate_keeps_revoke:
  assumes ok: "distinct (keys (containers s))"
  shows "gate_keeps s (snd (revoke_comment_permission sh t fault c i s))"
proof -
  let ?r = "update_policy t fault (revoke_grant c i) s"
  have keeps: "gate_keeps s (snd ?r)" by (rule gate_keeps_update [OF revoke_guest.guest_writer_axioms ok])
  have le: "uuid_supply s \<le> uuid_supply (snd ?r)"
    using revoke_writer.update_policy_step [OF ok, of t fault c i] by (simp add: policy_step_def)
  show ?thesis
    using keeps gate_keeps_trans [OF keeps gate_keeps_record le]
    by (auto simp: revoke_comment_permission_def split: prod.splits sum.splits)
qed

lemma gate_keeps_gates:
  "gate_keeps s (snd (authorize t c peer s))" "gate_keeps s (snd (announce_guest t c peer s))"
  "gate_keeps s (snd (authorize_proxy_peer t peer presented s))"
  using gate_keeps_touch
  by (auto simp: authorize_def announce_guest_def authorize_proxy_peer_def Let_def gate_keeps_def
      split: option.splits list.splits sum.splits)

lemma gate_keeps_apply:
  assumes "distinct (keys (containers s))"
  shows "gate_keeps s (apply_state_op op s)"
proof (cases op)
  case (Policy_op t fault cmd)
  then show ?thesis using gate_keeps_update [OF command_guest assms] by simp
next
  case (Grant_op sh t fault i fp rid target)
  then show ?thesis
    using gate_keeps_permit [OF assms] gate_keeps_same by (auto simp: grant_reviewed_comment_def split: option.splits)
qed (simp_all add: gate_keeps_permit [OF assms] gate_keeps_revoke [OF assms] gate_keeps_record gate_keeps_gates,
     (rule gate_keeps_same; auto simp: annotate_def mark_blocked_def admit_request_def admit_review_def admit_comment_def
       enqueue_review_def Let_def split: option.splits sum.splits prod.splits)+)

lemma gate_keeps_run:
  "distinct (keys (containers s)) \<Longrightarrow> gate_keeps s (run ops s)"
proof (induction ops arbitrary: s)
  case Nil
  then show ?case by (simp add: run_def gate_keeps_same)
next
  case (Cons op ops)
  have step: "policy_step s (apply_state_op op s)" using policy_step_apply [OF Cons.prems] .
  then have "gate_keeps (apply_state_op op s) (run ops (apply_state_op op s))"
    using Cons by (simp add: policy_step_def)
  with gate_keeps_apply [OF Cons.prems] have "gate_keeps s (run ops (apply_state_op op s))"
    by (rule gate_keeps_trans) (use step in \<open>simp add: policy_step_def\<close>)
  then show ?case by (simp add: run_def)
qed


section \<open>Addresses\<close>

lemma set_pinned_names:
  assumes "distinct (keys reg)"
  shows "set (pinned_names peer reg) = {n. pin_of reg n = Some peer}"
proof -
  have "(n, r) \<in> set reg \<longleftrightarrow> map_of reg n = Some r" for n r using assms by simp
  then show ?thesis by (force simp: pinned_names_def pin_of_def bind_eq_Some_conv)
qed

lemma pinned_names_unique:
  assumes "distinct (keys reg)" and "unique_pins reg"
  shows "length (pinned_names peer reg) \<le> 1"
proof -
  have "distinct (pinned_names peer reg)" using assms(1) by (simp add: pinned_names_def distinct_map_filter)
  moreover have "m = n" if "n \<in> set (pinned_names peer reg)" "m \<in> set (pinned_names peer reg)" for n m
    using that assms(2) set_pinned_names [OF assms(1)] by (auto simp: unique_pins_def)
  ultimately show ?thesis
  proof (cases "pinned_names peer reg")
    case (Cons n ns)
    assume "distinct (pinned_names peer reg)" "\<And>n m. n \<in> set (pinned_names peer reg) \<Longrightarrow> m \<in> set (pinned_names peer reg) \<Longrightarrow> m = n"
    with Cons have "n \<notin> set ns" "\<And>m. m \<in> set ns \<Longrightarrow> m = n" by auto
    then show ?thesis using Cons by (cases ns) auto
  qed simp
qed

text \<open>
  C35. An address belongs to at most one guest. However registrations, approvals with and without a
  pin, changes of pins, kills, removals and traffic are interleaved, and whichever of their writes
  fail, no address is pinned to two guests if none was at the start: proxied traffic is never refused
  as ambiguous.
\<close>

theorem pins_stay_unique:
  assumes "state_ok s" and "unique_pins (containers s)"
  shows "length (pinned_names peer (containers (run ops s))) \<le> 1"
proof -
  have ok: "distinct (keys (containers s))" using assms(1) by (simp add: state_ok_def)
  have "unique_pins (containers (run ops s))" using gate_keeps_run [OF ok] assms(2) by (simp add: gate_keeps_def)
  moreover have "distinct (keys (containers (run ops s)))" using policy_step_run [OF ok] ok by (simp add: policy_step_def)
  ultimately show ?thesis by (intro pinned_names_unique)
qed

theorem pins_stay_unique_witness:
  "length (pinned_names (V4 7) (containers (run [Policy_op (sample_clock 5) No_fault (Add ''g'' (Some (V4 7))),
     Policy_op (sample_clock 6) No_fault (Add ''h'' (Some (V4 7)))] sample_state))) \<le> 1"
proof (rule pins_stay_unique)
  show "state_ok sample_state" by code_simp
  have "list_all (\<lambda>(_, r). pinned_ip r = None) (containers sample_state)" by code_simp
  then have "pin_of (containers sample_state) n = None" for n
    by (cases "map_of (containers sample_state) n") (auto simp: pin_of_def list_all_iff dest: map_of_SomeD)
  then show "unique_pins (containers sample_state)" by (simp add: unique_pins_def)
qed

section \<open>Proxied traffic\<close>

lemma touched_touch:
  assumes "map_of (containers (touch_container t n ip s)) n = Some r'"
  shows "approved r' \<Longrightarrow> \<exists>r. map_of (containers s) n = Some r \<and> approved r \<and> pinned_ip r' = pinned_ip r"
proof -
  assume a: "approved r'"
  obtain u reg where d: "or_default n (uuid_supply s) (containers s) = (u, reg)" by fastforce
  obtain r where r: "map_of reg n = Some r" "approved r' = approved r" "pinned_ip r' = pinned_ip r"
    using assms by (auto simp: touch_container_def d map_of_modify Let_def split: if_splits)
  then show ?thesis using a or_default_simps(3) [OF d, of n] by (auto split: if_splits)
qed

lemma touched_known: "\<exists>r. map_of (containers (touch_container t n ip s)) n = Some r"
proof -
  obtain u reg where d: "or_default n (uuid_supply s) (containers s) = (u, reg)" by fastforce
  have "map_of reg n \<noteq> None" using or_default_simps(3) [OF d, of n] by auto
  then show ?thesis by (auto simp: touch_container_def d map_of_modify)
qed

lemma proxy_name_owner:
  assumes "proxy_name peer presented reg = Inr n"
  shows "set (pinned_names peer reg) \<subseteq> {n} \<and> opt_all (\<lambda>p. p = n) presented
    \<and> (presented = None \<longrightarrow> pinned_names peer reg = [n] \<or> pinned_names peer reg = [])"
proof (cases presented)
  case None
  then show ?thesis using assms by (auto simp: proxy_name_def split: list.splits)
next
  case (Some p)
  then show ?thesis
    using assms by (cases "pinned_names peer reg") (auto simp: proxy_name_def split: if_splits)
qed

lemma allowed_peer:
  assumes "authorize_proxy_peer t peer presented s = (Inr (n, Allowed), s')"
  shows "\<exists>r. map_of (containers s) n = Some r \<and> approved r \<and> (pinned_ip r = None \<or> pinned_ip r = Some peer)
    \<and> set (pinned_names peer (containers s)) \<subseteq> {n} \<and> (presented = Some n \<or> presented = None \<and> pinned_ip r = Some peer)"
proof -
  let ?s = "touch_container t n (Some peer) s"
  obtain r' where r': "map_of (containers ?s) n = Some r'" using touched_known by blast
  have name: "proxy_name peer presented (containers s) = Inr n"
    and ok: "approved r'" "\<not> opt_any (\<lambda>pin. pin \<noteq> peer) (pinned_ip r')" "presented = None \<longrightarrow> pinned_ip r' = Some peer"
    using assms r' by (auto simp: authorize_proxy_peer_def touched_def Let_def split: sum.splits if_splits)
  obtain r where r: "map_of (containers s) n = Some r" "approved r" "pinned_ip r' = pinned_ip r"
    using touched_touch [OF r' ok(1)] by blast
  show ?thesis using r ok(2,3) proxy_name_owner [OF name] by (cases presented; cases "pinned_ip r") auto
qed

text \<open>
  C23. Proxied traffic is allowed only for the guest it belongs to. When a connection from \<open>peer\<close> is
  allowed under a name, that guest was approved before the connection, its pin admits the address, no
  other guest is pinned to the address, and a presented name is the one allowed. Without a presented
  name the guest is the one the address is explicitly pinned to.
\<close>

theorem proxy_peer_allowed:
  assumes "authorize_proxy_peer t peer presented s = (Inr (n, Allowed), s')"
  shows "\<exists>r. map_of (containers s) n = Some r \<and> approved r \<and> (pinned_ip r = None \<or> pinned_ip r = Some peer)
    \<and> set (pinned_names peer (containers s)) \<subseteq> {n} \<and> (presented = Some n \<or> presented = None \<and> pinned_ip r = Some peer)"
  by (rule allowed_peer [OF assms])

theorem proxy_peer_allowed_witness:
  "\<exists>r. map_of (containers sample_state) ''g'' = Some r \<and> approved r \<and> (pinned_ip r = None \<or> pinned_ip r = Some (V4 7))
    \<and> set (pinned_names (V4 7) (containers sample_state)) \<subseteq> {''g''}
    \<and> (Some ''g'' = Some ''g'' \<or> Some ''g'' = None \<and> pinned_ip r = Some (V4 7))"
proof -
  let ?r = "authorize_proxy_peer (sample_clock 6) (V4 7) (Some ''g'') sample_state"
  have "fst ?r = Inr (''g'', Allowed)" by code_simp
  then have "?r = (Inr (''g'', Allowed), snd ?r)" by (metis prod.collapse)
  from proxy_peer_allowed [OF this] show ?thesis .
qed

text \<open>Operations that traffic triggers, and the host's operations on the queue.\<close>

definition host_policy :: "state_op \<Rightarrow> bool" where
  "host_policy op \<longleftrightarrow> (case op of Policy_op _ _ _ \<Rightarrow> True | Permit_op _ _ _ _ _ _ \<Rightarrow> True | Grant_op _ _ _ _ _ _ _ \<Rightarrow> True
     | Revoke_op _ _ _ _ _ \<Rightarrow> True | _ \<Rightarrow> False)"

lemma map_option_modify:
  "(\<And>r. g (f r) = g r) \<Longrightarrow> map_option g (map_of (modify n f reg) c) = map_option g (map_of reg c)"
  by (cases "map_of reg n") (auto simp: map_of_modify)

lemma decision_touch:
  "guest_decision (touch_container t n ip s) c = guest_decision s c
   \<or> map_of (containers s) c = None \<and> guest_decision (touch_container t n ip s) c = (Some (False, None), c \<in> set (killed s))"
proof -
  obtain u reg where d: "or_default n (uuid_supply s) (containers s) = (u, reg)" by fastforce
  have "map_option (\<lambda>r. (approved r, pinned_ip r)) (map_of (containers (touch_container t n ip s)) c)
      = map_option (\<lambda>r. (approved r, pinned_ip r)) (map_of reg c)"
    unfolding touch_container_def d by (simp add: map_option_modify Let_def)
  then show ?thesis
    using or_default_simps(3) [OF d, of c] by (auto simp: guest_decision_def touch_container_def d split: if_splits)
qed

lemma decision_same:
  "containers s' = containers s \<Longrightarrow> killed s' = killed s \<Longrightarrow> guest_decision s' c = guest_decision s c"
  by (simp add: guest_decision_def)

lemma decision_gates:
  "\<exists>n ip. guest_decision (snd (authorize t m peer s)) c = guest_decision (touch_container t n ip s) c"
  "guest_decision (snd (announce_guest t m peer s)) c = guest_decision s c
    \<or> (\<exists>n ip. guest_decision (snd (announce_guest t m peer s)) c = guest_decision (touch_container t n ip s) c)"
  "guest_decision (snd (authorize_proxy_peer t peer presented s)) c = guest_decision s c
    \<or> (\<exists>n ip. guest_decision (snd (authorize_proxy_peer t peer presented s)) c = guest_decision (touch_container t n ip s) c)"
  "guest_decision (snd (record_activity t m mm u v guest s)) c = guest_decision s c
    \<or> (\<exists>n ip. guest_decision (snd (record_activity t m mm u v guest s)) c = guest_decision (touch_container t n ip s) c)"
  by (auto simp: guest_decision_def authorize_def announce_guest_def authorize_proxy_peer_def record_activity_def Let_def
      split: option.splits sum.splits list.splits)

text \<open>
  Traffic never widens a policy. Nothing but the host's own policy operations changes what was
  decided about a guest: an unknown name becomes at most a pending guest, unapproved and without a pin,
  and every known guest keeps its approval, its pin and its kill flag.
\<close>

theorem traffic_never_widens:
  assumes "\<not> host_policy op"
  shows "guest_decision (apply_state_op op s) c = guest_decision s c
    \<or> map_of (containers s) c = None \<and> guest_decision (apply_state_op op s) c = (Some (False, None), c \<in> set (killed s))"
proof -
  have touch: "guest_decision s' c = guest_decision s c
      \<or> map_of (containers s) c = None \<and> guest_decision s' c = (Some (False, None), c \<in> set (killed s))"
    if "guest_decision s' c = guest_decision s c \<or> (\<exists>n t ip. guest_decision s' c = guest_decision (touch_container t n ip s) c)" for s'
    using that decision_touch by metis
  show ?thesis
  proof (cases op)
    case (Record_op t m mm u v guest)
    show ?thesis unfolding Record_op apply_state_op.simps by (rule touch) (use decision_gates(4) in blast)
  next
    case (Authorize_op t m peer)
    show ?thesis unfolding Authorize_op apply_state_op.simps by (rule touch) (use decision_gates(1) in blast)
  next
    case (Announce_op t m peer)
    show ?thesis unfolding Announce_op apply_state_op.simps by (rule touch) (use decision_gates(2) in blast)
  next
    case (Proxy_op t peer presented)
    show ?thesis unfolding Proxy_op apply_state_op.simps by (rule touch) (use decision_gates(3) in blast)
  qed (use assms in \<open>auto intro!: decision_same simp: host_policy_def annotate_def mark_blocked_def admit_request_def
        admit_review_def admit_comment_def enqueue_review_def Let_def split: option.splits sum.splits prod.splits\<close>)
qed

theorem traffic_never_widens_witness:
  "guest_decision (apply_state_op (Authorize_op (sample_clock 6) ''new'' (V4 9)) sample_state) ''new'' = guest_decision sample_state ''new''
   \<or> map_of (containers sample_state) ''new'' = None
     \<and> guest_decision (apply_state_op (Authorize_op (sample_clock 6) ''new'' (V4 9)) sample_state) ''new''
       = (Some (False, None), ''new'' \<in> set (killed sample_state))"
  by (rule traffic_never_widens) (simp add: host_policy_def)

section \<open>Revoked permissions\<close>

lemma revoke_lacks:
  assumes ok: "durable s" and ret: "revoke_comment_permission sh t fault c i s = (Inr (), s')"
  shows "lacks i c (containers s') \<and> i < uuid_supply s' \<and> distinct (keys (containers s'))"
proof -
  let ?r = "update_policy t fault (revoke_grant c i) s"
  have keys: "distinct (keys (containers s))" using ok by (simp add: durable_def registry_ok_def)
  have ur: "fst ?r = Inr ()" and s': "s' = snd (record_activity t c ''REVOKE'' (permission_url sh i) Allowed_verdict False (snd ?r))"
    using ret by (auto simp: revoke_comment_permission_def split: prod.splits sum.splits)
  have step: "policy_step s (snd ?r)" by (rule revoke_writer.update_policy_step [OF keys])
  have cont: "containers s' = containers (snd ?r)" "uuid_supply (snd ?r) \<le> uuid_supply s'"
    unfolding s' by (simp_all add: record_activity_def Let_def)
  have "lacks i c (containers (snd ?r)) \<and> i < uuid_supply s"
    using keys
  proof (cases rule: policy_writer.update_policy_cases [OF revoke_writer.policy_writer_axioms [of c i], of s t fault, consumes 1, case_names rejected applied])
    case (applied u reg kill u' reg' q saved)
    obtain r where r: "map_of (containers s) c = Some r" "list_ex (\<lambda>g. grant_id g = i) (comment_permissions r)"
      and reg: "reg = AList.update c (r\<lparr>comment_permissions := filter (\<lambda>g. grant_id g \<noteq> i) (comment_permissions r), comment_revision := uuid_supply s\<rparr>) (containers s)"
      using applied(1) by (auto simp: revoke_grant_def split: option.splits if_splits)
    have "lacks i c reg" by (simp add: lacks_def reg update_conv' list_all_iff)
    then have "lacks i c reg'" using renew_epochs_gate(2) [OF applied(2) keys] by simp
    moreover have "record_ok (uuid_supply s) (killed s) c r" using ok r(1) by (simp add: durable_def registry_ok_def)
    ultimately show ?thesis
      using applied(4) r(2) by (auto simp: notify_state_def record_ok_def list_all_iff list_ex_iff)
  qed (use ur in simp)
  then show ?thesis using cont step keys by (auto simp: policy_step_def)
qed

text \<open>
  A revoked comment permission is never honoured again. Once the host revoked the grant with id \<open>i\<close>
  of a guest, no later request of that guest is admitted under a grant with this id, whatever grants
  the host adds, whether the guest is removed and registered again, and in whatever order.
\<close>

theorem revoked_never_admitted:
  assumes "durable s" and "revoke_comment_permission sh t fault c i s = (Inr (), s')" and "grant_id g = i"
  shows "\<not> fst (admit_comment sh' ev c peer epoch g target (run ops s'))"
proof -
  note r = revoke_lacks [OF assms(1,2)]
  have "lacks i c (containers (run ops s'))" using gate_keeps_run [of s' ops] r by (auto simp: gate_keeps_def)
  then show ?thesis
    using assms(3) by (auto simp: admit_comment_def lacks_def opt_all_def list_all_iff list_ex_iff split: option.splits)
qed


lemma durable_initial: "durable (initial_state policy)"
  by (simp add: durable_def initial_state_def registry_ok_def)

definition sample_context :: CommentContext where
  "sample_context = \<lparr>context_binding = \<lparr>binding_entry = ''gh'', binding_digest = []\<rparr>, context_subject = ''I_1'',
     context_epoch = 0, context_revision = 2\<rparr>"

definition sample_granted :: AppState where
  "sample_granted = run [Policy_op (sample_clock 5) No_fault (Add ''g'' None),
     Permit_op (\<lambda>_. []) (sample_clock 6) No_fault ''g'' sample_context sample_target] (initial_state PolicyReview)"

definition sample_grant :: Grant where
  "sample_grant = \<lparr>grant_id = 3, grant_target = sample_target, grant_binding = context_binding sample_context, created_at = 6\<rparr>"

theorem revoked_never_admitted_witness:
  "fst (admit_comment (\<lambda>_. []) 0 ''g'' (V4 7) 0 sample_grant sample_target sample_granted)
   \<and> \<not> fst (admit_comment (\<lambda>_. []) 0 ''g'' (V4 7) 0 sample_grant sample_target
        (run [] (snd (revoke_comment_permission (\<lambda>_. []) (sample_clock 7) No_fault ''g'' 3 sample_granted))))"
proof -
  let ?r = "revoke_comment_permission (\<lambda>_. []) (sample_clock 7) No_fault ''g'' 3 sample_granted"
  have "durable sample_granted" unfolding sample_granted_def by (rule durable_run [OF durable_initial])
  moreover have "fst ?r = Inr ()" by code_simp
  then have "?r = (Inr (), snd ?r)" by (metis prod.collapse)
  moreover have "grant_id sample_grant = 3" by (simp add: sample_grant_def)
  moreover have "fst (admit_comment (\<lambda>_. []) 0 ''g'' (V4 7) 0 sample_grant sample_target sample_granted)" by code_simp
  ultimately show ?thesis using revoked_never_admitted by blast
qed

end
