(* ===== verification/App_Log.thy ===== *)
theory App_Log
  imports App_Durable
begin

text \<open>
  The request log of \<open>state.rs\<close>: a bounded history with gap-free sequence numbers, and the cursor
  pagination of \<open>log_page\<close> over it.
\<close>

section \<open>A bounded history\<close>

interpretation log_history: bounded_history push_request LOG_CAPACITY
proof
  show "0 < LOG_CAPACITY" by (simp add: LOG_CAPACITY_def)
  show "push_request x xs = drop (Suc (length xs) - LOG_CAPACITY) (xs @ [x])" if "length xs \<le> LOG_CAPACITY" for x xs
  proof (cases "length xs < LOG_CAPACITY")
    case True
    then show ?thesis by (simp add: push_request_def Let_def)
  next
    case False
    then have "length xs = LOG_CAPACITY" using that by simp
    then have "Suc (length xs) - LOG_CAPACITY = 1" "LOG_CAPACITY < length (xs @ [x])" by simp_all
    then show ?thesis by (simp only: push_request_def Let_def if_True drop_Suc One_nat_def drop_0)
  qed
qed

text \<open>The retained events carry consecutive numbers that end at the last one handed out.\<close>

definition log_ok :: "AppState \<Rightarrow> bool" where
  "log_ok s \<longleftrightarrow> length (requests s) \<le> LOG_CAPACITY \<and> length (requests s) \<le> next_sequence s
     \<and> map sequence (requests s) = [Suc (next_sequence s) - length (requests s)..<Suc (next_sequence s)]"

lemma log_ok_cong:
  "log_ok s \<Longrightarrow> map sequence (requests s') = map sequence (requests s) \<Longrightarrow> next_sequence s' = next_sequence s \<Longrightarrow> log_ok s'"
  using map_eq_imp_length_eq [of sequence "requests s'" sequence "requests s"] by (simp add: log_ok_def)

lemma log_ok_same:
  "log_ok s \<Longrightarrow> requests s' = requests s \<Longrightarrow> next_sequence s' = next_sequence s \<Longrightarrow> log_ok s'"
  by (simp add: log_ok_def)

lemma log_ok_amend: "(\<And>e. sequence (f e) = sequence e) \<Longrightarrow> log_ok s \<Longrightarrow> log_ok (amend_event i f s)"
  by (erule log_ok_cong) (simp_all add: amend_event_def rev_map [symmetric] map_update_first)

lemma log_ok_push:
  assumes "log_ok s" and "sequence ev = Suc (next_sequence s)"
  shows "log_ok (s\<lparr>next_sequence := Suc (next_sequence s), requests := push_request ev (requests s)\<rparr>)"
proof -
  let ?n = "length (requests s)" and ?k = "next_sequence s"
  have n: "?n \<le> LOG_CAPACITY" "?n \<le> ?k" and sq: "map sequence (requests s) = [Suc ?k - ?n..<Suc ?k]"
    using assms(1) by (simp_all only: log_ok_def)
  let ?d = "Suc ?n - LOG_CAPACITY"
  have "map sequence (push_request ev (requests s)) = drop ?d ([Suc ?k - ?n..<Suc ?k] @ [Suc ?k])"
    by (simp only: log_history.push_keeps_newest [OF n(1)] drop_map [symmetric] map_append sq list.map assms(2))
  also have "[Suc ?k - ?n..<Suc ?k] @ [Suc ?k] = [Suc ?k - ?n..<Suc (Suc ?k)]" using n(2) by simp
  also have "drop ?d [Suc ?k - ?n..<Suc (Suc ?k)] = [Suc ?k - ?n + ?d..<Suc (Suc ?k)]" by (rule drop_upt)
  finally have seqs: "map sequence (push_request ev (requests s)) = [Suc ?k - ?n + ?d..<Suc (Suc ?k)]" .
  have len: "length (push_request ev (requests s)) = Suc ?n - ?d"
    using log_history.push_keeps_newest [OF n(1)] by simp
  have "Suc ?k - ?n + ?d = Suc (Suc ?k) - (Suc ?n - ?d)" using n by (cases "?n < LOG_CAPACITY") auto
  moreover have "Suc ?n - ?d \<le> LOG_CAPACITY" "Suc ?n - ?d \<le> Suc ?k" using n by linarith+
  ultimately show ?thesis using seqs by (simp add: log_ok_def len del: upt_Suc)
qed

lemma log_ok_record: "log_ok s \<Longrightarrow> log_ok (snd (record_activity t c m u v guest s))"
proof -
  assume ok: "log_ok s"
  let ?s = "if guest then touch_container t c None s else s"
  have "log_ok ?s" using ok by (auto intro: log_ok_same simp: touch_container_def split: prod.splits)
  from log_ok_push [OF this] show ?thesis
    by (auto simp: record_activity_def Let_def notify_state_def log_ok_def)
qed

lemma log_update [simp]:
  "requests (snd (update_policy t fault f s)) = requests s" "next_sequence (snd (update_policy t fault f s)) = next_sequence s"
  by (auto simp: update_policy_def notify_state_def split: sum.splits prod.splits)

lemma log_touch [simp]:
  "requests (touch_container t n ip s) = requests s" "next_sequence (touch_container t n ip s) = next_sequence s"
  by (simp_all add: touch_container_def split: prod.splits)

lemma log_notify [simp]: "log_ok (notify_state s) = log_ok s" "log_ok (s\<lparr>reviews := q\<rparr>) = log_ok s"
  by (simp_all add: log_ok_def notify_state_def)

lemma log_ok_update: "log_ok s \<Longrightarrow> log_ok (snd (update_policy t fault f s))"
  by (simp add: log_ok_def)

lemma log_ok_permit: "log_ok s \<Longrightarrow> log_ok (snd (add_comment_permission sh t fault c ctx target s))"
proof -
  assume ok: "log_ok s"
  let ?s = "s\<lparr>uuid_supply := uuid_supply s + 1\<rparr>"
  have "log_ok (snd (update_policy t fault f ?s))" for f using ok by (intro log_ok_update) (simp add: log_ok_def)
  then show ?thesis
    using ok log_ok_record by (auto simp: add_comment_permission_def Let_def split: prod.splits sum.splits) (metis snd_conv)+
qed

lemma log_ok_apply: "log_ok s \<Longrightarrow> log_ok (apply_state_op op s)"
proof -
  assume ok: "log_ok s"
  have touch: "log_ok (touch_container t n ip s)" for t n ip using ok by (simp add: log_ok_def)
  show ?thesis
  proof (cases op)
    case (Revoke_op sh t fault c i)
    then show ?thesis
      using log_ok_record [OF log_ok_update [OF ok]] log_ok_update [OF ok, of t fault "revoke_grant c i"]
      by (auto simp: revoke_comment_permission_def split: prod.splits sum.splits) (metis snd_conv)+
  next
    case (Grant_op sh t fault i fp rid target)
    then show ?thesis using ok log_ok_permit by (auto simp: grant_reviewed_comment_def split: option.splits)
  qed (use ok touch log_ok_record log_ok_permit log_ok_update in
    \<open>auto simp: annotate_def mark_blocked_def admit_request_def admit_review_def admit_comment_def enqueue_review_def
       authorize_def announce_guest_def authorize_proxy_peer_def Let_def
       intro!: log_ok_amend split: option.splits sum.splits prod.splits list.splits\<close>)
qed

lemma log_ok_run: "log_ok s \<Longrightarrow> log_ok (run ops s)"
  unfolding run_def by (induction ops arbitrary: s) (simp_all add: log_ok_apply)

lemma log_ok_initial: "log_ok (initial_state policy)"
  by (simp add: log_ok_def initial_state_def)

lemma log_ok_load: "load_state rd u = Inr s \<Longrightarrow> log_ok s"
  by (auto simp: load_state_def bind_res_Inr_iff log_ok_def initial_state_def split: if_splits)


text \<open>
  The log is bounded and loses only its oldest entries. After a start-up and any interleaving of
  operations, the log holds at most 10,000 events, numbered consecutively up to the last number handed
  out, in the order they were recorded; annotations, blocks and admissions never renumber or reorder
  them; and \<open>evicted\<close> counts exactly the events that are gone.
\<close>

theorem log_is_gap_free:
  assumes "load_state rd u = Inr s0"
  shows "length (requests (run ops s0)) \<le> 10000
    \<and> map sequence (requests (run ops s0))
        = [Suc (next_sequence (run ops s0)) - length (requests (run ops s0))..<Suc (next_sequence (run ops s0))]
    \<and> evicted (log_page lower lq (run ops s0)) + retained (log_page lower lq (run ops s0)) = next_sequence (run ops s0)"
  using log_ok_run [OF log_ok_load [OF assms], of ops] by (simp add: log_ok_def LOG_CAPACITY_def log_page_def Let_def)

theorem log_is_gap_free_witness:
  "length (requests (run [Record_op (sample_clock 5) ''g'' ''GET'' ''/'' Pending_verdict True] sample_start)) \<le> 10000
    \<and> map sequence (requests (run [Record_op (sample_clock 5) ''g'' ''GET'' ''/'' Pending_verdict True] sample_start)) = [1]"
proof -
  let ?s = "run [Record_op (sample_clock 5) ''g'' ''GET'' ''/'' Pending_verdict True] sample_start"
  have "next_sequence ?s = 1" "length (requests ?s) = 1" by code_simp+
  then show ?thesis using log_is_gap_free [OF sample_start_loaded, of "[Record_op (sample_clock 5) ''g'' ''GET'' ''/'' Pending_verdict True]"]
    by simp
qed

section \<open>Pages\<close>

lemma log_ok_newest_first: "log_ok s \<Longrightarrow> sorted_wrt (\<lambda>a b. sequence b < sequence a) (rev (requests s))"
proof -
  assume "log_ok s"
  then have "sorted_wrt (<) (map sequence (requests s))" by (simp add: log_ok_def del: upt_Suc)
  then show ?thesis by (simp add: sorted_wrt_rev sorted_wrt_map)
qed

lemma page_split:
  assumes "sorted_wrt (\<lambda>a b. sequence b < sequence a) xs" and "0 < k" and "xs \<noteq> []"
  shows "filter (\<lambda>e. sequence e < sequence (last (take k xs))) xs = drop k xs"
proof -
  let ?l = "last (take k xs)"
  have split: "sorted_wrt (\<lambda>a b. sequence b < sequence a) (take k xs @ drop k xs)" using assms(1) by simp
  have ne: "take k xs \<noteq> []" using assms(2,3) by simp
  have "\<not> sequence e < sequence ?l" if "e \<in> set (take k xs)" for e
  proof -
    have "sorted_wrt (\<lambda>a b. sequence b < sequence a) (butlast (take k xs) @ [?l])"
      using split ne by (simp add: sorted_wrt_append)
    moreover have "e \<in> set (butlast (take k xs)) \<or> e = ?l"
      using that ne by (metis append_butlast_last_id in_set_conv_decomp rotate1.simps(2) set_ConsD set_rotate1)
    ultimately show ?thesis by (auto simp: sorted_wrt_append)
  qed
  then have "filter (\<lambda>e. sequence e < sequence ?l) (take k xs) = []" by (simp add: filter_empty_conv)
  moreover have "filter (\<lambda>e. sequence e < sequence ?l) (drop k xs) = drop k xs"
    using split [unfolded sorted_wrt_append] last_in_set [OF ne] by (auto simp: filter_id_conv)
  ultimately show ?thesis by (metis append_Nil append_take_drop_id filter_append)
qed

abbreviation found :: "(string \<Rightarrow> string) \<Rightarrow> LogQuery \<Rightarrow> AppState \<Rightarrow> RequestEvent list" where
  "found lower lq s \<equiv> filter (log_matches lower lq) (rev (requests s))"

lemma page_limit_pos: "0 < page_limit lq" "page_limit lq \<le> 500"
  by (auto simp: page_limit_def)

lemma next_page:
  assumes ok: "log_ok s" and b: "next_before (log_page lower lq s) = Some b"
  shows "found lower (lq\<lparr>log_before := Some b\<rparr>) s = drop (page_limit lq) (found lower lq s)"
    and "found lower lq s \<noteq> []"
proof -
  let ?f = "found lower lq s"
  have ne: "?f \<noteq> []" and b: "b = sequence (last (take (page_limit lq) ?f))"
    using b by (auto simp: log_page_def Let_def split: list.splits if_splits)
  show "?f \<noteq> []" by (rule ne)
  have "sorted_wrt (\<lambda>x y. sequence y < sequence x) ?f" using log_ok_newest_first [OF ok] by (rule sorted_wrt_filter)
  note split = page_split [OF this page_limit_pos(1) ne, of lq, folded b]
  have "last (take (page_limit lq) ?f) \<in> set ?f"
    using ne page_limit_pos(1) by (metis in_set_takeD last_in_set take_eq_Nil less_numeral_extra(3))
  then have "opt_all (\<lambda>x. b < x) (log_before lq)" using b by (auto simp: log_matches_def)
  then have "log_matches lower (lq\<lparr>log_before := Some b\<rparr>) e \<longleftrightarrow> sequence e < b \<and> log_matches lower lq e" for e
    by (cases "log_before lq") (auto simp: log_matches_def)
  then have "found lower (lq\<lparr>log_before := Some b\<rparr>) s = filter (\<lambda>e. sequence e < b) ?f"
    unfolding filter_filter by (intro filter_cong) (auto simp: conj_commute)
  then show "found lower (lq\<lparr>log_before := Some b\<rparr>) s = drop (page_limit lq) ?f" using split by simp
qed

text \<open>A reader that follows the cursor, for at most the given number of pages.\<close>

fun pages :: "(string \<Rightarrow> string) \<Rightarrow> nat \<Rightarrow> LogQuery \<Rightarrow> AppState \<Rightarrow> RequestEvent list" where
  "pages lower 0 lq s = []"
| "pages lower (Suc n) lq s =
     page_requests (log_page lower lq s)
     @ (case next_before (log_page lower lq s) of
          None \<Rightarrow> []
        | Some b \<Rightarrow> pages lower n (lq\<lparr>log_before := Some b\<rparr>) s)"

lemma pages_complete:
  "log_ok s \<Longrightarrow> length (found lower lq s) < n \<Longrightarrow> pages lower n lq s = found lower lq s"
proof (induction n arbitrary: lq)
  case (Suc n)
  let ?k = "page_limit lq" and ?f = "found lower lq s"
  have page: "page_requests (log_page lower lq s) = take ?k ?f" by (simp add: log_page_def Let_def)
  show ?case
  proof (cases "next_before (log_page lower lq s)")
    case None
    then have "drop ?k ?f = []" using page_limit_pos(1) [of lq]
      by (auto simp: log_page_def Let_def split: list.splits if_splits)
    then show ?thesis using None page by (simp add: take_all)
  next
    case (Some b)
    note nxt = next_page [OF Suc.prems(1) Some]
    have "length (drop ?k ?f) < n" using Suc.prems(2) nxt(2) page_limit_pos(1) [of lq] by (cases ?f) auto
    then have "pages lower n (lq\<lparr>log_before := Some b\<rparr>) s = drop ?k ?f"
      using Suc.IH [of "lq\<lparr>log_before := Some b\<rparr>"] Suc.prems(1) nxt(1) by simp
    then show ?thesis using Some page by simp
  qed
qed simp

text \<open>
  Searching before paging loses nothing. A reader that follows the cursor of \<open>log_page\<close> sees every
  retained event that matches the query, newest first, each exactly once; it ends after finitely many
  pages, none of more than 500 events.
\<close>

theorem pages_show_every_match:
  assumes "load_state rd u = Inr s0"
  shows "pages lower (Suc (length (requests (run ops s0)))) lq (run ops s0)
      = filter (log_matches lower lq) (rev (requests (run ops s0)))
    \<and> length (page_requests (log_page lower lq (run ops s0))) \<le> 500"
proof -
  have "log_ok (run ops s0)" by (rule log_ok_run [OF log_ok_load [OF assms]])
  moreover have "length (found lower lq (run ops s0)) < Suc (length (requests (run ops s0)))"
    using length_filter_le [of _ "rev (requests (run ops s0))"] by (simp add: less_Suc_eq_le)
  ultimately have "pages lower (Suc (length (requests (run ops s0)))) lq (run ops s0) = found lower lq (run ops s0)"
    by (rule pages_complete)
  moreover have "length (page_requests (log_page lower lq (run ops s0))) \<le> 500"
    using page_limit_pos(2) [of lq] by (simp add: log_page_def Let_def)
  ultimately show ?thesis by simp
qed

definition sample_log :: "state_op list" where
  "sample_log = [Record_op (sample_clock 5) ''g'' ''GET'' ''/a'' Pending_verdict True,
     Record_op (sample_clock 6) ''g'' ''GET'' ''/b'' Pending_verdict True]"

definition sample_log_query :: LogQuery where
  "sample_log_query = \<lparr>log_search = [], log_container = [], log_verdict = [], log_before = None, log_limit = Some 1\<rparr>"

theorem pages_show_every_match_witness:
  "map event_url (pages (\<lambda>s. s) 3 sample_log_query (run sample_log sample_start)) = [''/b'', ''/a'']
   \<and> length (page_requests (log_page (\<lambda>s. s) sample_log_query (run sample_log sample_start))) \<le> 500"
proof -
  let ?s = "run sample_log sample_start"
  have "length (requests ?s) = 2" by code_simp
  moreover have "map event_url (filter (log_matches (\<lambda>s. s) sample_log_query) (rev (requests ?s))) = [''/b'', ''/a'']" by code_simp
  ultimately show ?thesis
    using pages_show_every_match [OF sample_start_loaded, of "\<lambda>s. s" sample_log sample_log_query] by (simp add: eval_nat_numeral)
qed

end
