(* ===== verification/Graphql_Lex.thy ===== *)
theory Graphql_Lex
  imports Net "HOL-Library.Sublist"
begin

text \<open>
  The lexer of \<open>graphql.rs\<close>. The source is the list of its bytes; a reader takes what is left of it,
  and the byte offset of a position is the length of the source minus the length of what is left.
  \<open>lex\<close> is a total function: every token consumes at least one byte.
\<close>

section \<open>Errors and tokens\<close>

datatype gql_error =
    Msg string
  | At_byte string nat
  | At_token string "nat option"
  | Out_of_fuel

datatype Token =
    TName string
  | TNumber string
  | TString string
  | TPunct char
  | TSpread

record Located =
  token :: Token
  offset :: nat

definition MAX_TOKENS :: nat where "MAX_TOKENS = 8192"

type_synonym 'a lexer = "string \<Rightarrow> gql_error + ('a \<times> string)"

section \<open>Unicode escapes\<close>

definition hex_value :: "string \<Rightarrow> nat" where
  "hex_value ds = foldl (\<lambda>acc c. acc * 16 + the (to_digit 16 c)) 0 ds"

definition hex4 :: "nat lexer" where
  "hex4 s =
     (if length s < 4 then Inl (Msg ''unfinished Unicode escape'')
      else if \<not> list_all is_ascii_hexdigit (take 4 s) then Inl (Msg ''invalid Unicode escape'')
      else Inr (hex_value (take 4 s), drop 4 s))"

definition is_continuation :: "char \<Rightarrow> bool" where
  "is_continuation c \<longleftrightarrow> 128 \<le> byte c \<and> byte c < 192"

text \<open>\<open>source.get(pos..pos+4)\<close>: \<open>None\<close> past the end and inside a multi-byte character.\<close>

definition get4 :: "string \<Rightarrow> string option" where
  "get4 s =
     (if length s < 4 then None
      else if 4 < length s \<and> is_continuation (s ! 4) then None
      else Some (take 4 s))"

definition read_low_surrogate :: "nat \<Rightarrow> nat lexer" where
  "read_low_surrogate first s =
     (case strip_prefix [ch 92, CHR ''u''] s of
        None \<Rightarrow> Inl (Msg ''high surrogate without low surrogate'')
      | Some s1 \<Rightarrow>
          (case get4 s1 of
             None \<Rightarrow> Inl (Msg ''unfinished surrogate pair'')
           | Some low_text \<Rightarrow>
               if \<not> list_all is_ascii_hexdigit low_text then Inl (Msg ''invalid low surrogate'')
               else (let low = hex_value low_text
                     in if low < 0xdc00 \<or> 0xdfff < low then Inl (Msg ''invalid low surrogate'')
                        else Inr (0x10000 + (first - 0xd800) * 1024 + (low - 0xdc00), drop 4 s1))))"

definition char_from_u32 :: "nat \<Rightarrow> string option" where
  "char_from_u32 n =
     (if (0xd800 \<le> n \<and> n \<le> 0xdfff) \<or> 0x10ffff < n then None else Some (encode_utf8 n))"

definition read_unicode :: "string lexer" where
  "read_unicode s =
     bind_res
       (if starts_with ''{'' s then
          (let ds = takeWhile is_ascii_hexdigit (tl s); r = dropWhile is_ascii_hexdigit (tl s)
           in if ds = [] \<or> 6 < length ds \<or> \<not> starts_with ''}'' r
              then Inl (Msg ''invalid braced Unicode escape'')
              else Inr (hex_value ds, tl r))
        else
          bind_res (hex4 s) (\<lambda>(first, r).
            if 0xd800 \<le> first \<and> first \<le> 0xdbff then read_low_surrogate first r else Inr (first, r)))
       (\<lambda>(scal, r). case char_from_u32 scal of
            None \<Rightarrow> Inl (Msg ''invalid Unicode scalar'')
          | Some c \<Rightarrow> Inr (c, r))"

section \<open>Block strings\<close>

fun replace_crlf :: "string \<Rightarrow> string" where
  "replace_crlf (a # b # cs) =
     (if a = ch 13 \<and> b = ch 10 then ch 10 # replace_crlf cs else a # replace_crlf (b # cs))"
| "replace_crlf cs = cs"

definition blank :: "char \<Rightarrow> bool" where
  "blank c \<longleftrightarrow> c = CHR '' '' \<or> c = ch 9"

definition blank_line :: "string \<Rightarrow> bool" where
  "blank_line l \<longleftrightarrow> trim_matches blank l = []"

definition leading_blanks :: "string \<Rightarrow> nat" where
  "leading_blanks l = length (takeWhile blank l)"

definition normalize_block :: "string \<Rightarrow> string" where
  "normalize_block v =
     (let normalized = map (\<lambda>c. if c = ch 13 then ch 10 else c) (replace_crlf v);
          ls = split_on (ch 10) normalized;
          widths = map leading_blanks (filter (\<lambda>l. \<not> blank_line l) (tl ls));
          indent = (case widths of [] \<Rightarrow> 0 | w # ws \<Rightarrow> foldl min w ws);
          stripped = hd ls # map (\<lambda>l. drop (min indent (leading_blanks l)) l) (tl ls);
          kept = rev (dropWhile blank_line (rev stripped))
      in join [ch 10] (dropWhile blank_line kept))"

section \<open>Strings\<close>

definition QUOTES :: string where "QUOTES = [ch 34, ch 34, ch 34]"

definition escape_char :: "char \<Rightarrow> string option" where
  "escape_char e =
     (if e = ch 34 then Some [ch 34]
      else if e = ch 92 then Some [ch 92]
      else if e = CHR ''/'' then Some ''/''
      else if e = CHR ''b'' then Some [ch 8]
      else if e = CHR ''f'' then Some [ch 12]
      else if e = CHR ''n'' then Some [ch 10]
      else if e = CHR ''r'' then Some [ch 13]
      else if e = CHR ''t'' then Some [ch 9]
      else None)"

definition read_escape :: "nat \<Rightarrow> string lexer" where
  "read_escape n s =
     (case s of
        [] \<Rightarrow> Inl (Msg ''unfinished string escape'')
      | e # r \<Rightarrow>
          if e = CHR ''u'' then read_unicode r
          else (case escape_char e of
              None \<Rightarrow> Inl (At_byte ''invalid string escape'' (n - length s))
            | Some c \<Rightarrow> Inr (c, r)))"

definition read_character :: "nat \<Rightarrow> bool \<Rightarrow> string lexer" where
  "read_character n block s =
     (let w = utf8_width (hd s)
      in if byte (hd s) < 32 \<and> \<not> (block \<and> hd s \<in> set [ch 10, ch 13, ch 9])
         then Inl (At_byte ''invalid string control character'' (n - length s))
         else Inr (take w s, drop w s))"

lemma read_unicode_shrinks: "read_unicode s = Inr (c, r) \<Longrightarrow> length r < length s"
proof -
  assume a: "read_unicode s = Inr (c, r)"
  have low: "read_low_surrogate f t = Inr (x, r') \<Longrightarrow> length r' \<le> length t" for f t x r'
    by (auto simp: read_low_surrogate_def strip_prefix_Some_iff Let_def split: option.splits if_splits)
  have four: "hex4 t = Inr (x, r') \<Longrightarrow> length r' < length t" for t x r'
    by (auto simp: hex4_def split: if_splits)
  have drp: "length (dropWhile P t) \<le> length t" for P and t :: string
    by (rule length_dropWhile_le)
  have braced: "starts_with ''{'' s \<Longrightarrow> length (tl (dropWhile is_ascii_hexdigit (tl s))) < length s"
    using drp [of is_ascii_hexdigit "tl s"] by (auto simp: starts_with_iff)
  show ?thesis
    using a braced
    by (auto simp: read_unicode_def bind_res_Inr_iff Let_def split: if_splits option.splits prod.splits
        dest!: low four)
qed

lemma read_escape_shrinks: "read_escape n s = Inr (c, r) \<Longrightarrow> length r < length s"
  by (auto simp: read_escape_def split: list.splits if_splits option.splits dest: read_unicode_shrinks)

lemma read_character_shrinks: "s \<noteq> [] \<Longrightarrow> read_character n b s = Inr (c, r) \<Longrightarrow> length r < length s"
  by (auto simp: read_character_def Let_def split: if_splits)

definition read_piece :: "nat \<Rightarrow> bool \<Rightarrow> string lexer" where
  "read_piece n block s =
     (if \<not> block \<and> hd s = ch 92 then read_escape n (tl s) else read_character n block s)"

lemma read_piece_shrinks: "s \<noteq> [] \<Longrightarrow> read_piece n b s = Inr (c, r) \<Longrightarrow> length r < length s"
  using read_escape_shrinks [of n "tl s" c r] read_character_shrinks [of s n b c r]
  by (cases s) (auto simp: read_piece_def split: if_splits)

function read_string_body :: "nat \<Rightarrow> nat \<Rightarrow> bool \<Rightarrow> string \<Rightarrow> string lexer" where
  "read_string_body n start block v s =
     (if s = [] then Inl (At_byte ''unterminated string'' start)
      else if block \<and> starts_with (ch 92 # QUOTES) s
      then read_string_body n start block (v @ QUOTES) (drop 4 s)
      else if block \<and> starts_with QUOTES s then Inr (normalize_block v, drop 3 s)
      else if \<not> block \<and> hd s = ch 34 then Inr (v, tl s)
      else (case read_piece n block s of
          Inl e \<Rightarrow> Inl e
        | Inr (c, r) \<Rightarrow> read_string_body n start block (v @ c) r))"
  by pat_completeness auto
termination
  by (relation "measure (\<lambda>(_, _, _, _, s). length s)") (auto dest: read_piece_shrinks [rotated])

declare read_string_body.simps [simp del]

definition read_string :: "nat \<Rightarrow> string lexer" where
  "read_string n s =
     (let block = starts_with QUOTES s
      in read_string_body n (n - length s) block [] (drop (if block then 3 else 1) s))"

lemma read_string_body_shrinks:
  "read_string_body n start block v s = Inr (c, r) \<Longrightarrow> length r \<le> length s"
proof (induction n start block v s rule: read_string_body.induct)
  case (1 n start block v s)
  show ?case
  proof (cases "s = [] \<or> (block \<and> (starts_with (ch 92 # QUOTES) s \<or> starts_with QUOTES s))
      \<or> (\<not> block \<and> hd s = ch 34)")
    case True
    then show ?thesis
      using "1.prems" "1.IH"(1) by (subst (asm) read_string_body.simps) (auto split: if_splits)
  next
    case False
    then obtain c' r' where piece: "read_piece n block s = Inr (c', r')"
      and rest: "read_string_body n start block (v @ c') r' = Inr (c, r)"
      using "1.prems" by (subst (asm) read_string_body.simps) (auto split: sum.splits if_splits)
    have "length r \<le> length r'"
      using "1.IH"(2) False piece rest by auto
    moreover have "length r' < length s"
      using read_piece_shrinks [OF _ piece] False by auto
    ultimately show ?thesis by simp
  qed
qed

lemma read_string_shrinks: "s \<noteq> [] \<Longrightarrow> read_string n s = Inr (c, r) \<Longrightarrow> length r < length s"
  by (cases s) (auto simp: read_string_def Let_def dest!: read_string_body_shrinks split: if_splits)

section \<open>Numbers and names\<close>

definition name_start :: "char \<Rightarrow> bool" where
  "name_start c \<longleftrightarrow> is_ascii_alpha c \<or> c = CHR ''_''"

definition name_continue :: "char \<Rightarrow> bool" where
  "name_continue c \<longleftrightarrow> is_ascii_alphanumeric c \<or> c = CHR ''_''"

text \<open>Each step returns what is left of the source after it.\<close>

definition skip_integer :: "string \<Rightarrow> string" where
  "skip_integer s = (if hd s = CHR ''0'' then tl s else dropWhile is_ascii_digit s)"

definition skip_fraction :: "nat \<Rightarrow> string \<Rightarrow> gql_error + string" where
  "skip_fraction n s =
     (if starts_with ''.'' s then
        (if takeWhile is_ascii_digit (tl s) = []
         then Inl (At_byte ''fraction requires digits'' (n - length (tl s)))
         else Inr (dropWhile is_ascii_digit (tl s)))
      else Inr s)"

definition skip_exponent :: "nat \<Rightarrow> string \<Rightarrow> gql_error + string" where
  "skip_exponent n s =
     (if starts_with ''e'' s \<or> starts_with ''E'' s then
        (let t = tl s; u = (if starts_with ''+'' t \<or> starts_with ''-'' t then tl t else t)
         in if takeWhile is_ascii_digit u = []
            then Inl (At_byte ''exponent requires digits'' (n - length u))
            else Inr (dropWhile is_ascii_digit u))
      else Inr s)"

definition number_boundary :: "nat \<Rightarrow> string \<Rightarrow> gql_error + string" where
  "number_boundary n s =
     (if s \<noteq> [] \<and> (is_ascii_alphanumeric (hd s) \<or> hd s = CHR ''_'' \<or> hd s = CHR ''.'')
      then Inl (At_byte ''invalid number boundary'' (n - length s)) else Inr s)"

definition lex_number :: "nat \<Rightarrow> Token lexer" where
  "lex_number n s =
     (let t = (if hd s = CHR ''-'' then tl s else s)
      in if t = [] \<or> \<not> is_ascii_digit (hd t) then Inl (At_byte ''expected number'' (n - length s))
         else bind_res (skip_fraction n (skip_integer t)) (\<lambda>u.
              bind_res (skip_exponent n u) (\<lambda>v.
              bind_res (number_boundary n v) (\<lambda>r.
                Inr (TNumber (take (length s - length r) s), r)))))"

definition PUNCTUATION :: string where
  "PUNCTUATION = ''!$():=@[]{}''"

definition lex_token :: "nat \<Rightarrow> Token lexer" where
  "lex_token n s =
     (if name_start (hd s) then Inr (TName (takeWhile name_continue s), dropWhile name_continue s)
      else if hd s = CHR ''-'' \<or> is_ascii_digit (hd s) then lex_number n s
      else if hd s = ch 34 then
        bind_res (read_string n s) (\<lambda>(v, r). Inr (TString v, r))
      else if starts_with ''...'' s then Inr (TSpread, drop 3 s)
      else if hd s \<in> set PUNCTUATION then Inr (TPunct (hd s), tl s)
      else Inl (At_byte ''unexpected GraphQL token'' (n - length s)))"

lemma skip_shrinks:
  "skip_fraction n s = Inr r \<Longrightarrow> length r \<le> length s"
  "skip_exponent n s = Inr r \<Longrightarrow> length r \<le> length s"
  "number_boundary n s = Inr r \<Longrightarrow> r = s"
proof -
  have drp: "length (dropWhile P t) \<le> length t" for P and t :: string
    by (rule length_dropWhile_le)
  have less: "length (dropWhile P (tl t)) \<le> length t" "length (dropWhile P (tl (tl t))) \<le> length t"
    for P and t :: string
    using drp [of P "tl t"] drp [of P "tl (tl t)"] by auto
  show "skip_fraction n s = Inr r \<Longrightarrow> length r \<le> length s"
    "skip_exponent n s = Inr r \<Longrightarrow> length r \<le> length s" "number_boundary n s = Inr r \<Longrightarrow> r = s"
    using less by (auto simp: skip_fraction_def skip_exponent_def number_boundary_def Let_def split: if_splits)
qed

lemma skip_integer_shrinks:
  "t \<noteq> [] \<Longrightarrow> is_ascii_digit (hd t) \<Longrightarrow> length (skip_integer t) < length t"
  using length_dropWhile_le [of is_ascii_digit "tl t"]
  by (cases t) (auto simp: skip_integer_def less_Suc_eq_le)

lemma lex_number_shrinks:
  assumes "lex_number n s = Inr (t, r)"
  shows "length r < length s"
proof -
  define d where "d = (if hd s = CHR ''-'' then tl s else s)"
  from assms obtain u v where steps: "skip_fraction n (skip_integer d) = Inr u" "skip_exponent n u = Inr v"
      "number_boundary n v = Inr r" and digit: "d \<noteq> []" "is_ascii_digit (hd d)"
    unfolding lex_number_def Let_def d_def [symmetric] by (auto simp: bind_res_Inr_iff split: if_splits)
  have "length r \<le> length (skip_integer d)"
    using skip_shrinks(1) [OF steps(1)] skip_shrinks(2) [OF steps(2)] skip_shrinks(3) [OF steps(3)] by simp
  also have "\<dots> < length d" by (rule skip_integer_shrinks [OF digit])
  also have "\<dots> \<le> length s" by (simp add: d_def)
  finally show ?thesis .
qed

lemma lex_token_shrinks: "s \<noteq> [] \<Longrightarrow> lex_token n s = Inr (t, r) \<Longrightarrow> length r < length s"
proof (cases s)
  case (Cons c cs)
  moreover assume "lex_token n s = Inr (t, r)"
  moreover have "length (dropWhile name_continue cs) \<le> length cs" by (rule length_dropWhile_le)
  moreover have "name_start c \<Longrightarrow> name_continue c"
    by (auto simp: name_start_def name_continue_def is_ascii_alphanumeric_def)
  ultimately show ?thesis
    using lex_number_shrinks [of n s t r] read_string_shrinks [of s n]
    by (auto simp: lex_token_def bind_res_Inr_iff starts_with_iff split: if_splits)
qed simp

section \<open>The lexer\<close>

definition IGNORED :: string where
  "IGNORED = [CHR '' '', ch 9, ch 13, ch 10, CHR '','']"

definition BOM :: string where
  "BOM = [ch 239, ch 187, ch 191]"

function lex_loop :: "nat \<Rightarrow> nat \<Rightarrow> string \<Rightarrow> gql_error + Located list" where
  "lex_loop n k s =
     (if s = [] then Inr []
      else if hd s \<in> set IGNORED then lex_loop n k (tl s)
      else if hd s = CHR ''#'' then lex_loop n k (dropWhile (\<lambda>c. c \<noteq> ch 13 \<and> c \<noteq> ch 10) s)
      else if starts_with BOM s then lex_loop n k (drop 3 s)
      else case lex_token n s of
          Inl e \<Rightarrow> Inl e
        | Inr (t, r) \<Rightarrow>
            if MAX_TOKENS < Suc k
            then Inl (Msg ''GraphQL document exceeds the 8192-token review limit'')
            else bind_res (lex_loop n (Suc k) r) (\<lambda>ts. Inr (\<lparr>token = t, offset = n - length s\<rparr> # ts)))"
  by pat_completeness auto
termination
proof (relation "measure (\<lambda>(_, _, s). length s)", simp_all, goal_cases)
  case (1 s)
  have "length (dropWhile P (tl s)) \<le> length (tl s)" for P by (rule length_dropWhile_le)
  with 1 show ?case by (cases s) (auto simp: less_Suc_eq_le IGNORED_def)
qed (auto dest: lex_token_shrinks [rotated])

declare lex_loop.simps [simp del]

definition lex :: "string \<Rightarrow> gql_error + Located list" where
  "lex source = lex_loop (length source) 0 source"

section \<open>Tokens are cut from the source\<close>

lemma suffix_dropWhile_tl: "suffix (dropWhile P (tl s)) s"
  by (metis suffix_dropWhile suffix_order.order_trans suffix_tl)

lemmas suffix_steps = suffix_dropWhile suffix_drop suffix_tl suffix_dropWhile_tl

lemma strip_prefix_suffix: "strip_prefix p s = Some r \<Longrightarrow> suffix r s"
  by (auto simp: strip_prefix_Some_iff suffix_def)

lemma read_unicode_suffix:
  assumes "read_unicode s = Inr (c, r)"
  shows "suffix r s"
proof -
  have low: "read_low_surrogate f t = Inr (x, r') \<Longrightarrow> suffix r' t" for f t x r'
    by (auto simp: read_low_surrogate_def Let_def dest!: strip_prefix_suffix split: option.splits if_splits
        intro: suffix_order.order_trans [OF suffix_drop])
  have four: "hex4 t = Inr (x, r') \<Longrightarrow> suffix r' t" for t x r'
    by (auto simp: hex4_def suffix_drop split: if_splits)
  have braced: "suffix (tl (dropWhile is_ascii_hexdigit (tl s))) s"
    by (metis suffix_dropWhile_tl suffix_order.order_trans suffix_tl)
  from assms show ?thesis
    using braced
    by (auto simp: read_unicode_def bind_res_Inr_iff Let_def split: if_splits option.splits prod.splits
        dest!: low four intro: suffix_order.order_trans)
qed

lemma read_piece_suffix:
  assumes "read_piece n b s = Inr (c, r)"
  shows "suffix r s"
proof -
  have "read_escape n t = Inr (c, r) \<Longrightarrow> suffix r t" for t
    by (auto simp: read_escape_def split: list.splits if_splits option.splits
        intro: suffix_ConsI dest!: read_unicode_suffix)
  then show ?thesis
    using assms suffix_order.order_trans [OF _ suffix_tl, of r s]
    by (auto simp: read_piece_def read_character_def Let_def suffix_drop split: if_splits)
qed

lemma read_string_body_suffix:
  "read_string_body n start block v s = Inr (c, r) \<Longrightarrow> suffix r s"
proof (induction n start block v s rule: read_string_body.induct)
  case (1 n start block v s)
  show ?case
  proof (cases "s = [] \<or> (block \<and> (starts_with (ch 92 # QUOTES) s \<or> starts_with QUOTES s))
      \<or> (\<not> block \<and> hd s = ch 34)")
    case True
    then show ?thesis
      using "1.prems" "1.IH"(1)
      by (subst (asm) read_string_body.simps)
         (auto simp: suffix_drop suffix_tl split: if_splits intro: suffix_order.order_trans [OF _ suffix_drop])
  next
    case False
    then obtain c' r' where piece: "read_piece n block s = Inr (c', r')"
      and rest: "read_string_body n start block (v @ c') r' = Inr (c, r)"
      using "1.prems" by (subst (asm) read_string_body.simps) (auto split: sum.splits if_splits)
    then have "suffix r r'"
      using "1.IH"(2) False by auto
    then show ?thesis
      using read_piece_suffix [OF piece] by (rule suffix_order.order_trans)
  qed
qed

lemma lex_number_suffix:
  assumes "lex_number n s = Inr (t, r)"
  shows "suffix r s" "t = TNumber (take (length s - length r) s)"
proof -
  have fraction: "skip_fraction n u = Inr v \<Longrightarrow> suffix v u" for u v
    by (auto simp: skip_fraction_def suffix_dropWhile_tl split: if_splits)
  have exponent: "skip_exponent n u = Inr v \<Longrightarrow> suffix v u" for u v
    using suffix_order.order_trans [OF suffix_dropWhile_tl suffix_tl, of _ u]
    by (auto simp: skip_exponent_def suffix_dropWhile_tl Let_def split: if_splits)
  have integer: "suffix (skip_integer d) d" for d
    by (simp add: skip_integer_def suffix_steps)
  show "suffix r s"
    using assms
    by (auto simp: lex_number_def Let_def bind_res_Inr_iff split: if_splits
        dest!: skip_shrinks(3) fraction exponent
        intro: suffix_order.order_trans [OF suffix_order.order_trans] integer
          suffix_order.order_trans [OF integer suffix_tl])
  show "t = TNumber (take (length s - length r) s)"
    using assms by (auto simp: lex_number_def Let_def bind_res_Inr_iff split: if_splits)
qed

lemma lex_token_suffix: "lex_token n s = Inr (t, r) \<Longrightarrow> suffix r s"
  by (auto simp: lex_token_def read_string_def Let_def bind_res_Inr_iff suffix_steps split: if_splits
      dest: lex_number_suffix(1)
      dest!: read_string_body_suffix intro: suffix_order.order_trans [OF _ suffix_drop])

text \<open>What a token says of the source text at its offset.\<close>

definition lexed_at :: "string \<Rightarrow> Located \<Rightarrow> bool" where
  "lexed_at source lt =
     (let here = drop (offset lt) source
      in case token lt of
           TName x \<Rightarrow> x \<noteq> [] \<and> starts_with x here \<and> list_all name_continue x \<and> name_start (hd x)
         | TNumber x \<Rightarrow> x \<noteq> [] \<and> starts_with x here
         | TString _ \<Rightarrow> starts_with [ch 34] here
         | TPunct c \<Rightarrow> starts_with [c] here \<and> c \<in> set PUNCTUATION
         | TSpread \<Rightarrow> starts_with ''...'' here)"

lemma lex_token_lexed_at:
  assumes "lex_token n s = Inr (t, r)" and "s \<noteq> []" and "drop i source = s"
  shows "lexed_at source \<lparr>token = t, offset = i\<rparr>"
proof -
  have hd: "starts_with [hd s] s" using assms(2) by (cases s) (auto simp: starts_with_iff)
  have tw: "starts_with (takeWhile P s) s" for P
    unfolding starts_with_iff by (metis takeWhile_dropWhile_id)
  have tk: "starts_with (take k s) s" for k
    unfolding starts_with_iff by (metis append_take_drop_id)
  have start: "name_start (hd s) \<Longrightarrow> takeWhile name_continue s = hd s # takeWhile name_continue (tl s)"
    using assms(2) by (cases s) (auto simp: name_start_def name_continue_def is_ascii_alphanumeric_def)
  from assms(1) consider
      (name) "name_start (hd s)" "t = TName (takeWhile name_continue s)"
    | (number) "lex_number n s = Inr (t, r)"
    | (string) v where "hd s = ch 34" "t = TString v"
    | (spread) "starts_with ''...'' s" "t = TSpread"
    | (punct) "hd s \<in> set PUNCTUATION" "t = TPunct (hd s)"
    unfolding lex_token_def by (auto simp: bind_res_Inr_iff split: if_split_asm)
  then show ?thesis
  proof cases
    case name
    have "list_all name_continue (takeWhile name_continue s)"
      using set_takeWhileD by (fastforce simp: list_all_iff)
    with name start tw [of name_continue] show ?thesis
      unfolding lexed_at_def Located.simps assms(3) Let_def by simp
  next
    case number
    have "take (length s - length r) s \<noteq> []"
      using lex_number_shrinks [OF number] assms(2) by simp
    with lex_number_suffix(2) [OF number] tk show ?thesis
      unfolding lexed_at_def Located.simps assms(3) Let_def by simp
  next
    case string
    with hd show ?thesis unfolding lexed_at_def Located.simps assms(3) Let_def by simp
  next
    case spread
    then show ?thesis unfolding lexed_at_def Located.simps assms(3) Let_def by simp
  next
    case punct
    with hd show ?thesis unfolding lexed_at_def Located.simps assms(3) Let_def by simp
  qed
qed

definition lexed_from :: "nat \<Rightarrow> string \<Rightarrow> Located list \<Rightarrow> bool" where
  "lexed_from i source ts \<longleftrightarrow>
     sorted_wrt (<) (map offset ts)
     \<and> (\<forall>t \<in> set ts. i \<le> offset t \<and> offset t < length source \<and> lexed_at source t)"

lemma lexed_from_Cons:
  assumes "lexed_from j source ts" "i < j" "i < length source" "lexed_at source \<lparr>token = t, offset = i\<rparr>"
  shows "lexed_from i source (\<lparr>token = t, offset = i\<rparr> # ts)"
  using assms by (auto simp: lexed_from_def)

lemma lexed_from_mono: "lexed_from j source ts \<Longrightarrow> i \<le> j \<Longrightarrow> lexed_from i source ts"
  by (auto simp: lexed_from_def)

lemma lex_loop_lexed:
  assumes "lex_loop n k s = Inr ts" "n = length source" "suffix s source" "k \<le> MAX_TOKENS"
  shows "lexed_from (n - length s) source ts \<and> k + length ts \<le> MAX_TOKENS"
  using assms
proof (induction n k s arbitrary: ts rule: lex_loop.induct)
  case (1 n k s)
  have skip: "lexed_from (n - length s) source ts \<and> k + length ts \<le> MAX_TOKENS"
    if "lexed_from (n - length r) source ts \<and> k + length ts \<le> MAX_TOKENS" "suffix r s" for r
    using that by (auto intro: lexed_from_mono dest!: suffix_length_le)
  have sub: "suffix r s \<Longrightarrow> suffix r source" for r
    using "1.prems"(3) by (metis suffix_order.order_trans)
  consider (empty) "s = []"
    | (ignored) "s \<noteq> []" "hd s \<in> set IGNORED" "lex_loop n k (tl s) = Inr ts"
    | (comment) "s \<noteq> []" "hd s \<notin> set IGNORED" "hd s = CHR ''#''"
        "lex_loop n k (dropWhile (\<lambda>c. c \<noteq> ch 13 \<and> c \<noteq> ch 10) s) = Inr ts"
    | (bom) "s \<noteq> []" "hd s \<notin> set IGNORED" "hd s \<noteq> CHR ''#''" "starts_with BOM s"
        "lex_loop n k (drop 3 s) = Inr ts"
    | (token) t r ts' where "s \<noteq> []" "hd s \<notin> set IGNORED" "hd s \<noteq> CHR ''#''" "\<not> starts_with BOM s"
        "lex_token n s = Inr (t, r)" "\<not> MAX_TOKENS < Suc k" "lex_loop n (Suc k) r = Inr ts'"
        "ts = \<lparr>token = t, offset = n - length s\<rparr> # ts'"
    using "1.prems"(1) unfolding lex_loop.simps [of n k s]
    by (auto simp: bind_res_Inr_iff split: if_split_asm sum.split_asm prod.split_asm)
  then show ?case
  proof cases
    case empty
    with "1.prems" show ?thesis by (simp add: lex_loop.simps lexed_from_def)
  next
    case ignored
    then show ?thesis using skip [OF _ suffix_tl] "1.IH"(1) "1.prems"(2,4) sub [OF suffix_tl] by blast
  next
    case comment
    then show ?thesis
      using skip [OF _ suffix_dropWhile] "1.IH"(2) "1.prems"(2,4) sub [OF suffix_dropWhile] by blast
  next
    case bom
    then show ?thesis using skip [OF _ suffix_drop] "1.IH"(3) "1.prems"(2,4) sub [OF suffix_drop] by blast
  next
    case token
    have len: "length r < length s" "length s \<le> length source"
      using lex_token_shrinks [OF token(1,5)] suffix_length_le [OF "1.prems"(3)] by simp_all
    have "lexed_from (n - length r) source ts' \<and> Suc k + length ts' \<le> MAX_TOKENS"
      using "1.IH"(4) token "1.prems"(2,4) sub [OF lex_token_suffix [OF token(5)]] by auto
    moreover have "drop (n - length s) source = s"
      using "1.prems"(2,3) by (auto simp: suffix_def)
    ultimately show ?thesis
      using lexed_from_Cons [of "n - length r" source ts' "n - length s" t] token len "1.prems"(2)
        lex_token_lexed_at [OF token(5,1)] by auto
  qed
qed

text \<open>
  The lexer is bounded and exact: a successful run yields at most 8192 tokens, at strictly
  increasing byte offsets inside the document, and every name, number and punctuator it reports is
  the document's own text at its offset.
\<close>

theorem lex_tokens_from_source:
  assumes "lex source = Inr ts"
  shows "length ts \<le> 8192 \<and> sorted_wrt (<) (map offset ts)
    \<and> (\<forall>t \<in> set ts. offset t < length source \<and> lexed_at source t)"
  using lex_loop_lexed [of "length source" 0 source ts source] assms
  by (auto simp: lex_def lexed_from_def MAX_TOKENS_def)

theorem lex_tokens_from_source_witness:
  "length [\<lparr>token = TPunct CHR ''{'', offset = 0\<rparr>, \<lparr>token = TName ''a'', offset = 2\<rparr>,
           \<lparr>token = TPunct CHR ''}'', offset = 4\<rparr>] \<le> 8192
   \<and> lexed_at ''{ a }'' \<lparr>token = TName ''a'', offset = 2\<rparr>"
proof -
  have "lex ''{ a }'' = Inr [\<lparr>token = TPunct CHR ''{'', offset = 0\<rparr>, \<lparr>token = TName ''a'', offset = 2\<rparr>,
           \<lparr>token = TPunct CHR ''}'', offset = 4\<rparr>]" by code_simp
  from lex_tokens_from_source [OF this] show ?thesis by simp
qed

end
