(* ===== verification/Graphql_Parse.thy ===== *)
theory Graphql_Parse
  imports Graphql_Lex
begin

text \<open>
  The recursive descent parser of \<open>graphql.rs\<close>. The parser state is the list of the tokens that are
  left. Nesting is bounded by the source's own depth check: \<open>value\<close>, \<open>type_ref\<close> and \<open>selections\<close> take
  \<open>left = 33 - depth\<close>, the number of levels that may still be opened, and fail at 0 as
  \<open>check_depth\<close> does. The loops \<open>while !self.eat(c)\<close> carry fuel, one unit per round; every round
  consumes a token, so \<open>Suc (length tokens)\<close> units are enough (\<open>parse_document_no_fuel\<close>).
\<close>

section \<open>Syntax trees\<close>

datatype Value =
    Variable string
  | MissingVariable string
  | VInt string
  | VFloat string
  | VString string
  | VEnum string
  | VBoolean bool
  | VNull
  | VList "Value list"
  | VObject "(string \<times> Value) list"
  | Reference string

type_synonym args = "(string, Value) alist"

record Directive =
  directive_name :: string
  directive_arguments :: args

datatype Selection =
    Field string "string option" args "Directive list" "Selection list"
  | Spread string "Directive list"
  | Inline "string option" "Directive list" "Selection list"

record VariableDef =
  var_name :: string
  type_name :: string
  var_default :: "Value option"
  var_directives :: "Directive list"

record Operation =
  op_kind :: string
  op_name :: "string option"
  op_variables :: "VariableDef list"
  op_directives :: "Directive list"
  op_selections :: "Selection list"

record Fragment =
  fragment_name :: string
  on_type :: string
  fragment_directives :: "Directive list"
  fragment_selections :: "Selection list"

record Document =
  operations :: "Operation list"
  fragments :: "(string, Fragment) alist"

section \<open>Token access\<close>

type_synonym toks = "Located list"
type_synonym 'a parser = "toks \<Rightarrow> gql_error + ('a \<times> toks)"

definition MAX_DEPTH :: nat where "MAX_DEPTH = 32"

definition levels :: "nat \<Rightarrow> nat" where
  "levels depth = Suc MAX_DEPTH - depth"

definition DEPTH_ERROR :: gql_error where
  "DEPTH_ERROR = Msg ''GraphQL nesting exceeds the 32-level review limit''"

definition perror :: "string \<Rightarrow> toks \<Rightarrow> gql_error" where
  "perror m ts = At_token m (case ts of [] \<Rightarrow> None | t # _ \<Rightarrow> Some (offset t))"

definition peek :: "toks \<Rightarrow> Token option" where
  "peek ts = (case ts of [] \<Rightarrow> None | t # _ \<Rightarrow> Some (token t))"

definition at :: "char \<Rightarrow> toks \<Rightarrow> bool" where
  "at c ts \<longleftrightarrow> peek ts = Some (TPunct c)"

definition eat :: "char \<Rightarrow> toks \<Rightarrow> toks option" where
  "eat c ts = (if at c ts then Some (tl ts) else None)"

definition expect :: "char \<Rightarrow> unit parser" where
  "expect c ts = (case eat c ts of
       Some r \<Rightarrow> Inr ((), r)
     | None \<Rightarrow> Inl (perror (''expected '' @ [ch 39, c, ch 39]) ts))"

definition name :: "string parser" where
  "name ts = (case ts of
       t # r \<Rightarrow> (case token t of TName v \<Rightarrow> Inr (v, r) | _ \<Rightarrow> Inl (perror ''expected name'' ts))
     | [] \<Rightarrow> Inl (perror ''expected name'' ts))"

definition named :: "string \<Rightarrow> toks \<Rightarrow> bool" where
  "named n ts \<longleftrightarrow> peek ts = Some (TName n)"

text \<open>\<open>while !self.eat(c) { body }\<close> over an accumulator.\<close>

fun loop_until :: "nat \<Rightarrow> char \<Rightarrow> ('s \<Rightarrow> 's parser) \<Rightarrow> 's \<Rightarrow> 's parser" where
  "loop_until 0 c body acc ts = Inl Out_of_fuel"
| "loop_until (Suc n) c body acc ts =
     (case eat c ts of
        Some r \<Rightarrow> Inr (acc, r)
      | None \<Rightarrow> bind_res (body acc ts) (\<lambda>(acc', r). loop_until n c body acc' r))"

text \<open>\<open>while self.eat(c) { body }\<close> over an accumulator.\<close>

fun loop_while :: "nat \<Rightarrow> char \<Rightarrow> ('s \<Rightarrow> 's parser) \<Rightarrow> 's \<Rightarrow> 's parser" where
  "loop_while 0 c body acc ts = Inl Out_of_fuel"
| "loop_while (Suc n) c body acc ts =
     (case eat c ts of
        None \<Rightarrow> Inr (acc, ts)
      | Some r \<Rightarrow> bind_res (body acc r) (\<lambda>(acc', r'). loop_while n c body acc' r'))"

section \<open>Types, values, arguments, directives\<close>

fun type_ref :: "nat \<Rightarrow> string parser" where
  "type_ref 0 ts = Inl DEPTH_ERROR"
| "type_ref (Suc left) ts =
     bind_res
       (case eat CHR ''['' ts of
          Some r \<Rightarrow> bind_res (type_ref left r) (\<lambda>(inner, r1).
                    bind_res (expect CHR '']'' r1) (\<lambda>(_, r2). Inr (''['' @ inner @ '']'', r2)))
        | None \<Rightarrow> name ts)
       (\<lambda>(v, r). case eat CHR ''!'' r of Some r' \<Rightarrow> Inr (v @ ''!'', r') | None \<Rightarrow> Inr (v, r))"

text \<open>
  A named member of an object or of an argument list: \<open>name : value\<close>, refused when the name is
  already in the map. The value parser is an argument because it is the recursive one.
\<close>

definition member :: "gql_error \<Rightarrow> Value parser \<Rightarrow> args \<Rightarrow> args parser" where
  "member dup val m ts =
     bind_res (name ts) (\<lambda>(n, r).
     bind_res (expect CHR '':'' r) (\<lambda>(_, r1).
     bind_res (val r1) (\<lambda>(v, r2).
       if contains_key n m then Inl dup else Inr (btree_insert n v m, r2))))"

definition plain_value :: "Token \<Rightarrow> Value option" where
  "plain_value t =
     (case t of
        TString v \<Rightarrow> Some (VString v)
      | TNumber v \<Rightarrow> Some (if CHR ''.'' \<in> set v \<or> CHR ''e'' \<in> set v \<or> CHR ''E'' \<in> set v
                          then VFloat v else VInt v)
      | TName v \<Rightarrow> Some (if v = ''true'' then VBoolean True
                        else if v = ''false'' then VBoolean False
                        else if v = ''null'' then VNull else VEnum v)
      | _ \<Rightarrow> None)"

fun val :: "nat \<Rightarrow> bool \<Rightarrow> Value parser" where
  "val 0 constant ts = Inl DEPTH_ERROR"
| "val (Suc left) constant ts =
     (case eat CHR ''$'' ts of
        Some r \<Rightarrow>
          if constant then Inl (Msg ''variable references are not allowed in constant values'')
          else bind_res (name r) (\<lambda>(n, r1). Inr (Variable n, r1))
      | None \<Rightarrow>
     (case eat CHR ''['' ts of
        Some r \<Rightarrow>
          bind_res (loop_until (Suc (length r)) CHR '']''
              (\<lambda>vs ts'. bind_res (val left constant ts') (\<lambda>(v, r'). Inr (vs @ [v], r'))) [] r)
            (\<lambda>(vs, r1). Inr (VList vs, r1))
      | None \<Rightarrow>
     (case eat CHR ''{'' ts of
        Some r \<Rightarrow>
          bind_res (loop_until (Suc (length r)) CHR ''}''
              (\<lambda>m ts'. member (Msg ''duplicate input object field'') (\<lambda>us. val left constant us) m ts') [] r)
            (\<lambda>(m, r1). Inr (VObject m, r1))
      | None \<Rightarrow>
     (case ts of
        [] \<Rightarrow> Inl (perror ''expected value'' ts)
      | t # r \<Rightarrow> (case plain_value (token t) of
            Some v \<Rightarrow> Inr (v, r)
          | None \<Rightarrow> Inl (perror ''expected value'' r))))))"

definition arguments :: "nat \<Rightarrow> bool \<Rightarrow> args parser" where
  "arguments depth constant ts =
     (case eat CHR ''('' ts of
        None \<Rightarrow> Inr ([], ts)
      | Some r \<Rightarrow>
          bind_res (loop_until (Suc (length r)) CHR '')''
              (member (Msg ''duplicate argument'') (val (levels (Suc depth)) constant)) [] r)
            (\<lambda>(m, r1). if m = [] then Inl (Msg ''empty arguments'') else Inr (m, r1)))"

definition directives :: "nat \<Rightarrow> bool \<Rightarrow> Directive list parser" where
  "directives depth constant ts =
     loop_while (Suc (length ts)) CHR ''@''
       (\<lambda>ds r. bind_res (name r) (\<lambda>(n, r1).
               bind_res (arguments depth constant r1) (\<lambda>(m, r2).
                 Inr (ds @ [\<lparr>directive_name = n, directive_arguments = m\<rparr>], r2)))) [] ts"

section \<open>Selections\<close>

definition inline_or_spread :: "nat \<Rightarrow> Selection list parser \<Rightarrow> Selection parser" where
  "inline_or_spread depth children ts =
     (if named ''on'' ts \<or> at CHR ''@'' ts \<or> at CHR ''{'' ts then
        bind_res (if named ''on'' ts
                  then bind_res (name (tl ts)) (\<lambda>(n, r). Inr (Some n, r)) else Inr (None, ts))
          (\<lambda>(on, r).
        bind_res (directives depth False r) (\<lambda>(ds, r1).
        bind_res (children r1) (\<lambda>(sels, r2). Inr (Inline on ds sels, r2))))
      else
        bind_res (name ts) (\<lambda>(n, r).
        bind_res (directives depth False r) (\<lambda>(ds, r1). Inr (Spread n ds, r1))))"

definition field :: "nat \<Rightarrow> Selection list parser \<Rightarrow> Selection parser" where
  "field depth children ts =
     bind_res (name ts) (\<lambda>(first, r).
     bind_res (case eat CHR '':'' r of
                 Some r' \<Rightarrow> bind_res (name r') (\<lambda>(n, r1). Inr ((n, Some first), r1))
               | None \<Rightarrow> Inr ((first, None), r))
       (\<lambda>((n, alias), r1).
     bind_res (arguments depth False r1) (\<lambda>(m, r2).
     bind_res (directives depth False r2) (\<lambda>(ds, r3).
     bind_res (if at CHR ''{'' r3 then children r3 else Inr ([], r3)) (\<lambda>(sels, r4).
       Inr (Field n alias m ds sels, r4))))))"

definition selection :: "nat \<Rightarrow> Selection list parser \<Rightarrow> Selection parser" where
  "selection depth children ts =
     (if peek ts = Some TSpread then inline_or_spread depth children (tl ts)
      else field depth children ts)"

fun selections :: "nat \<Rightarrow> Selection list parser" where
  "selections 0 ts = Inl DEPTH_ERROR"
| "selections (Suc left) ts =
     bind_res (expect CHR ''{'' ts) (\<lambda>(_, r).
     bind_res (loop_until (Suc (length r)) CHR ''}''
         (\<lambda>sels us. bind_res (selection (MAX_DEPTH - left) (\<lambda>vs. selections left vs) us)
            (\<lambda>(s, r'). Inr (sels @ [s], r'))) [] r)
       (\<lambda>(sels, r1). if sels = [] then Inl (Msg ''empty selection set'') else Inr (sels, r1)))"

section \<open>Definitions and documents\<close>

definition variable_definition :: "VariableDef list \<Rightarrow> VariableDef list parser" where
  "variable_definition vs ts =
     bind_res (expect CHR ''$'' ts) (\<lambda>(_, r).
     bind_res (name r) (\<lambda>(n, r1).
       if n \<in> var_name ` set vs then Inl (Msg ''duplicate variable definition'')
       else
     bind_res (expect CHR '':'' r1) (\<lambda>(_, r2).
     bind_res (type_ref (levels 0) r2) (\<lambda>(ty, r3).
     bind_res (case eat CHR ''='' r3 of
                 Some r' \<Rightarrow> bind_res (val (levels 0) True r') (\<lambda>(v, r4). Inr (Some v, r4))
               | None \<Rightarrow> Inr (None, r3)) (\<lambda>(dflt, r4).
     bind_res (directives 0 True r4) (\<lambda>(ds, r5).
       Inr (vs @ [\<lparr>var_name = n, type_name = ty, var_default = dflt, var_directives = ds\<rparr>], r5)))))))"

definition variables :: "VariableDef list parser" where
  "variables ts =
     (case eat CHR ''('' ts of
        None \<Rightarrow> Inr ([], ts)
      | Some r \<Rightarrow>
          bind_res (loop_until (Suc (length r)) CHR '')'' variable_definition [] r) (\<lambda>(vs, r1).
            if vs = [] then Inl (Msg ''empty variable definitions'') else Inr (vs, r1)))"

record doc_acc =
  acc_operations :: "Operation list"
  acc_fragments :: "(string, Fragment) alist"
  acc_names :: "string list"

definition fragment_definition :: "doc_acc \<Rightarrow> doc_acc parser" where
  "fragment_definition acc ts =
     bind_res (name ts) (\<lambda>(n, r).
       if n = ''on'' then Inl (perror (''fragment name cannot be '' @ [ch 39] @ ''on'' @ [ch 39]) r)
       else
     bind_res (name r) (\<lambda>(kw, r1).
       if kw \<noteq> ''on'' then Inl (perror ''fragment requires type condition'' r1)
       else
     bind_res (name r1) (\<lambda>(ty, r2).
     bind_res (directives 0 False r2) (\<lambda>(ds, r3).
     bind_res (selections (levels 0) r3) (\<lambda>(sels, r4).
       if contains_key n (acc_fragments acc) then Inl (Msg ''duplicate fragment definition'')
       else Inr (acc\<lparr>acc_fragments := btree_insert n
              \<lparr>fragment_name = n, on_type = ty, fragment_directives = ds, fragment_selections = sels\<rparr>
              (acc_fragments acc)\<rparr>, r4))))))"

definition operation_definition :: "string \<Rightarrow> doc_acc \<Rightarrow> doc_acc parser" where
  "operation_definition kind acc ts =
     bind_res (case peek ts of
                 Some (TName _) \<Rightarrow> bind_res (name ts) (\<lambda>(n, r). Inr (Some n, r))
               | _ \<Rightarrow> Inr (None, ts)) (\<lambda>(nm, r).
       if opt_any (\<lambda>n. n \<in> set (acc_names acc)) nm then Inl (Msg ''duplicate operation name'')
       else
     bind_res (variables r) (\<lambda>(vs, r1).
     bind_res (directives 0 False r1) (\<lambda>(ds, r2).
     bind_res (selections (levels 0) r2) (\<lambda>(sels, r3).
       Inr (acc\<lparr>acc_operations := acc_operations acc @
                  [\<lparr>op_kind = kind, op_name = nm, op_variables = vs, op_directives = ds, op_selections = sels\<rparr>],
                acc_names := (case nm of None \<Rightarrow> acc_names acc | Some n \<Rightarrow> n # acc_names acc)\<rparr>, r3)))))"

definition document_item :: "doc_acc \<Rightarrow> doc_acc parser" where
  "document_item acc ts =
     (if at CHR ''{'' ts then
        bind_res (selections (levels 0) ts) (\<lambda>(sels, r).
          Inr (acc\<lparr>acc_operations := acc_operations acc @
                 [\<lparr>op_kind = ''query'', op_name = None, op_variables = [], op_directives = [],
                   op_selections = sels\<rparr>]\<rparr>, r))
      else
        bind_res (name ts) (\<lambda>(kind, r).
          if kind = ''fragment'' then fragment_definition acc r
          else if kind \<in> set [''query'', ''mutation'', ''subscription''] then operation_definition kind acc r
          else Inl (perror ''only executable query, mutation, subscription and fragment definitions are supported'' r)))"

fun document_loop :: "nat \<Rightarrow> doc_acc \<Rightarrow> toks \<Rightarrow> gql_error + doc_acc" where
  "document_loop 0 acc ts = Inl Out_of_fuel"
| "document_loop (Suc n) acc ts =
     (if ts = [] then Inr acc
      else bind_res (document_item acc ts) (\<lambda>(acc', r). document_loop n acc' r))"

definition parse_document :: "toks \<Rightarrow> gql_error + Document" where
  "parse_document ts =
     bind_res (document_loop (Suc (length ts)) \<lparr>acc_operations = [], acc_fragments = [], acc_names = []\<rparr> ts)
       (\<lambda>acc.
          if acc_operations acc = [] then Inl (Msg ''document contains no operation'')
          else if 1 < length (acc_operations acc) \<and> list_ex (\<lambda>op. op_name op = None) (acc_operations acc)
          then Inl (Msg ''anonymous operation must be the only operation'')
          else Inr \<lparr>operations = acc_operations acc, fragments = acc_fragments acc\<rparr>)"

section \<open>Progress of the loops\<close>

text \<open>
  The contract of a loop body: it consumes a token whenever it succeeds, and it does not run out of
  fuel itself. A loop over such a body consumes its closing token and never runs out of fuel when it
  starts with more fuel than tokens.
\<close>

locale consuming_body =
  fixes body :: "'s \<Rightarrow> 's parser"
  assumes body_shrinks: "body acc ts = Inr (acc', r) \<Longrightarrow> length r < length ts"
    and body_no_fuel: "body acc ts \<noteq> Inl Out_of_fuel"
begin

lemma loop_until_shrinks: "loop_until n c body acc ts = Inr (acc', r) \<Longrightarrow> length r < length ts"
proof (induction n arbitrary: acc ts)
  case (Suc n)
  show ?case
  proof (cases "eat c ts")
    case None
    then obtain acc1 r1 where "body acc ts = Inr (acc1, r1)" "loop_until n c body acc1 r1 = Inr (acc', r)"
      using Suc.prems by (auto simp: bind_res_Inr_iff)
    then show ?thesis using Suc.IH body_shrinks by (meson less_trans)
  next
    case (Some r1)
    then show ?thesis
      using Suc.prems by (cases ts) (auto simp: eat_def at_def peek_def split: if_splits)
  qed
qed simp

lemma loop_until_no_fuel: "length ts < n \<Longrightarrow> loop_until n c body acc ts \<noteq> Inl Out_of_fuel"
proof (induction n arbitrary: acc ts)
  case (Suc n)
  show ?case
  proof (cases "body acc ts")
    case (Inl e)
    then show ?thesis using body_no_fuel by (auto split: option.splits)
  next
    case (Inr b)
    then obtain acc1 r1 where b: "body acc ts = Inr (acc1, r1)" by (cases b) auto
    have "length r1 < n" using body_shrinks [OF b] Suc.prems by simp
    then show ?thesis using Suc.IH b by (auto split: option.splits)
  qed
qed simp

lemma loop_while_shrinks: "loop_while n c body acc ts = Inr (acc', r) \<Longrightarrow> length r \<le> length ts"
proof (induction n arbitrary: acc ts)
  case (Suc n)
  show ?case
  proof (cases "eat c ts")
    case None
    then show ?thesis using Suc.prems by simp
  next
    case (Some r1)
    then obtain acc1 r2 where step: "body acc r1 = Inr (acc1, r2)" "loop_while n c body acc1 r2 = Inr (acc', r)"
      using Suc.prems by (auto simp: bind_res_Inr_iff)
    have "length r1 \<le> length ts" using Some by (auto simp: eat_def split: if_splits)
    then show ?thesis using Suc.IH [OF step(2)] body_shrinks [OF step(1)] by simp
  qed
qed simp

lemma loop_while_no_fuel: "length ts < n \<Longrightarrow> loop_while n c body acc ts \<noteq> Inl Out_of_fuel"
proof (induction n arbitrary: acc ts)
  case (Suc n)
  show ?case
  proof (cases "eat c ts")
    case (Some r1)
    then have r1: "length r1 \<le> length ts" by (auto simp: eat_def split: if_splits)
    show ?thesis
    proof (cases "body acc r1")
      case (Inl e)
      then show ?thesis using Some body_no_fuel by auto
    next
      case (Inr b)
      then obtain acc1 r2 where b: "body acc r1 = Inr (acc1, r2)" by (cases b) auto
      have "length r2 < n" using body_shrinks [OF b] r1 Suc.prems by simp
      then show ?thesis using Suc.IH b Some by simp
    qed
  qed simp
qed simp

end

text \<open>Invariants of a loop do not need progress.\<close>

lemma loop_until_invariant:
  assumes step: "\<And>acc ts acc' r. I acc \<Longrightarrow> body acc ts = Inr (acc', r) \<Longrightarrow> I acc'"
  shows "loop_until n c body acc ts = Inr (acc', r) \<Longrightarrow> I acc \<Longrightarrow> I acc'"
  by (induction n arbitrary: acc ts) (auto simp: bind_res_Inr_iff split: option.splits dest: step)

lemma loop_while_invariant:
  assumes step: "\<And>acc ts acc' r. I acc \<Longrightarrow> body acc ts = Inr (acc', r) \<Longrightarrow> I acc'"
  shows "loop_while n c body acc ts = Inr (acc', r) \<Longrightarrow> I acc \<Longrightarrow> I acc'"
  by (induction n arbitrary: acc ts) (auto simp: bind_res_Inr_iff split: option.splits dest: step)

section \<open>Every parser makes progress\<close>

text \<open>The contract of a parser that consumes at least, respectively at most, something.\<close>

definition progress :: "'a parser \<Rightarrow> bool" where
  "progress p \<longleftrightarrow> (\<forall>ts. p ts \<noteq> Inl Out_of_fuel) \<and> (\<forall>ts x r. p ts = Inr (x, r) \<longrightarrow> length r < length ts)"

definition no_regress :: "'a parser \<Rightarrow> bool" where
  "no_regress p \<longleftrightarrow> (\<forall>ts. p ts \<noteq> Inl Out_of_fuel) \<and> (\<forall>ts x r. p ts = Inr (x, r) \<longrightarrow> length r \<le> length ts)"

named_theorems parser_progress \<open>progress of the parsers\<close>

lemma progress_no_regress: "progress p \<Longrightarrow> no_regress p"
  by (fastforce simp: progress_def no_regress_def)

lemma progressD: "progress p \<Longrightarrow> p ts = Inr (x, r) \<Longrightarrow> length r < length ts"
  and progress_fuelD: "progress p \<Longrightarrow> p ts \<noteq> Inl Out_of_fuel"
  by (auto simp: progress_def)

lemma no_regressD: "no_regress p \<Longrightarrow> p ts = Inr (x, r) \<Longrightarrow> length r \<le> length ts"
  and no_regress_fuelD: "no_regress p \<Longrightarrow> p ts \<noteq> Inl Out_of_fuel"
  by (auto simp: no_regress_def)

lemma eat_shrinks: "eat c ts = Some r \<Longrightarrow> length r < length ts"
  by (cases ts) (auto simp: eat_def at_def peek_def split: if_splits)

lemma expect_progress [parser_progress]: "progress (expect c)"
  by (auto simp: progress_def expect_def perror_def split: option.splits dest: eat_shrinks)

lemma name_progress [parser_progress]: "progress name"
  by (auto simp: progress_def name_def perror_def split: list.splits Token.splits)

lemma consuming_bodyI:
  assumes "\<And>acc. progress (body acc)"
  shows "consuming_body body"
  using assms by (unfold_locales) (auto simp: progress_def)

lemmas name_D = progressD [OF name_progress] progress_fuelD [OF name_progress]
lemmas expect_D = progressD [OF expect_progress] progress_fuelD [OF expect_progress]

lemma progressI:
  assumes "\<And>ts. p ts \<noteq> Inl Out_of_fuel" and "\<And>ts x r. p ts = Inr (x, r) \<Longrightarrow> length r < length ts"
  shows "progress p"
  using assms by (auto simp: progress_def)

lemma no_regressI:
  assumes "\<And>ts. p ts \<noteq> Inl Out_of_fuel" and "\<And>ts x r. p ts = Inr (x, r) \<Longrightarrow> length r \<le> length ts"
  shows "no_regress p"
  using assms by (auto simp: no_regress_def)

lemma progress_bind:
  assumes "progress p" and "\<And>x. no_regress (f x)"
  shows "progress (\<lambda>ts. bind_res (p ts) (\<lambda>(x, r). f x r))"
proof (rule progressI)
  fix ts show "bind_res (p ts) (\<lambda>(x, r). f x r) \<noteq> Inl Out_of_fuel"
    using assms by (auto simp: bind_res_Inl_iff progress_def no_regress_def)
next
  fix ts y r assume "bind_res (p ts) (\<lambda>(x, r). f x r) = Inr (y, r)"
  then obtain x r1 where "p ts = Inr (x, r1)" "f x r1 = Inr (y, r)" by (auto simp: bind_res_Inr_iff)
  then show "length r < length ts"
    using progressD [OF assms(1)] no_regressD [OF assms(2)] by (meson le_less_trans)
qed

lemma no_regress_bind:
  assumes "no_regress p" and "\<And>x. no_regress (f x)"
  shows "no_regress (\<lambda>ts. bind_res (p ts) (\<lambda>(x, r). f x r))"
proof (rule no_regressI)
  fix ts show "bind_res (p ts) (\<lambda>(x, r). f x r) \<noteq> Inl Out_of_fuel"
    using assms by (auto simp: bind_res_Inl_iff no_regress_def)
next
  fix ts y r assume "bind_res (p ts) (\<lambda>(x, r). f x r) = Inr (y, r)"
  then obtain x r1 where "p ts = Inr (x, r1)" "f x r1 = Inr (y, r)" by (auto simp: bind_res_Inr_iff)
  then show "length r \<le> length ts"
    using no_regressD [OF assms(1)] no_regressD [OF assms(2)] by (meson order_trans)
qed

lemma progress_bind_late:
  assumes "no_regress p" and "\<And>x. progress (f x)"
  shows "progress (\<lambda>ts. bind_res (p ts) (\<lambda>(x, r). f x r))"
proof (rule progressI)
  fix ts show "bind_res (p ts) (\<lambda>(x, r). f x r) \<noteq> Inl Out_of_fuel"
    using assms by (auto simp: bind_res_Inl_iff no_regress_def progress_def)
next
  fix ts y r assume "bind_res (p ts) (\<lambda>(x, r). f x r) = Inr (y, r)"
  then obtain x r1 where "p ts = Inr (x, r1)" "f x r1 = Inr (y, r)" by (auto simp: bind_res_Inr_iff)
  then show "length r < length ts"
    using no_regressD [OF assms(1)] progressD [OF assms(2)] by (meson less_le_trans)
qed

lemma no_regress_return: "no_regress (\<lambda>r. Inr (x, r))"
  by (simp add: no_regress_def)

lemma fail_progress: "e \<noteq> Out_of_fuel \<Longrightarrow> progress (\<lambda>_. Inl e)" "progress (\<lambda>ts. Inl (perror m ts))"
  by (simp_all add: progress_def perror_def)

lemmas fail_no_regress = fail_progress [THEN progress_no_regress]

lemma no_regress_if:
  "(b \<Longrightarrow> no_regress p) \<Longrightarrow> (\<not> b \<Longrightarrow> no_regress q) \<Longrightarrow> no_regress (\<lambda>ts. if b then p ts else q ts)"
  by (cases b) simp_all

lemma progress_if:
  "(b \<Longrightarrow> progress p) \<Longrightarrow> (\<not> b \<Longrightarrow> progress q) \<Longrightarrow> progress (\<lambda>ts. if b then p ts else q ts)"
  by (cases b) simp_all

lemma no_regress_test:
  "no_regress p \<Longrightarrow> no_regress q \<Longrightarrow> no_regress (\<lambda>ts. if B ts then p ts else q ts)"
  by (simp add: no_regress_def)

lemma progress_test:
  "progress p \<Longrightarrow> progress q \<Longrightarrow> progress (\<lambda>ts. if B ts then p ts else q ts)"
  by (simp add: progress_def)

lemma progress_eat:
  assumes "no_regress p" and "progress q"
  shows "progress (\<lambda>ts. case eat c ts of Some r \<Rightarrow> p r | None \<Rightarrow> q ts)"
  using assms by (fastforce simp: progress_def no_regress_def split: option.splits dest: eat_shrinks)

lemma no_regress_eat:
  assumes "no_regress p" and "no_regress q"
  shows "no_regress (\<lambda>ts. case eat c ts of Some r \<Rightarrow> p r | None \<Rightarrow> q ts)"
  using assms by (fastforce simp: no_regress_def split: option.splits dest: eat_shrinks)

lemma no_regress_tl: "no_regress p \<Longrightarrow> no_regress (\<lambda>ts. p (tl ts))"
  by (fastforce simp: no_regress_def)

lemma progress_loop_until:
  assumes "\<And>acc. progress (body acc)"
  shows "progress (\<lambda>ts. loop_until (Suc (length ts)) c body acc ts)"
  by (rule progressI)
    (auto intro: consuming_body.loop_until_shrinks [OF consuming_bodyI [OF assms]]
      simp del: loop_until.simps
      dest: consuming_body.loop_until_no_fuel [OF consuming_bodyI [OF assms], OF lessI, THEN notE])

lemma no_regress_loop_while:
  assumes "\<And>acc. progress (body acc)"
  shows "no_regress (\<lambda>ts. loop_while (Suc (length ts)) c body acc ts)"
  by (rule no_regressI)
    (auto intro: consuming_body.loop_while_shrinks [OF consuming_bodyI [OF assms]]
      simp del: loop_while.simps
      dest: consuming_body.loop_while_no_fuel [OF consuming_bodyI [OF assms], OF lessI, THEN notE])

lemma member_progress:
  assumes "progress v" and "dup \<noteq> Out_of_fuel"
  shows "progress (member dup v m)"
  unfolding member_def [abs_def]
  by (intro progress_bind name_progress no_regress_bind progress_no_regress [OF expect_progress]
      progress_no_regress [OF assms(1)] no_regress_if fail_no_regress(1) assms(2) no_regress_return)

lemmas no_regress_name = progress_no_regress [OF name_progress]
lemmas no_regress_expect = progress_no_regress [OF expect_progress]

lemma DEPTH_ERROR_progress: "progress (\<lambda>_. Inl DEPTH_ERROR)"
  by (rule fail_progress) (simp add: DEPTH_ERROR_def)

lemmas no_regress_rules = no_regress_bind no_regress_if no_regress_return no_regress_eat
  no_regress_name no_regress_expect fail_no_regress

lemma type_ref_progress: "progress (type_ref left)"
proof (induction left)
  case 0
  then show ?case using DEPTH_ERROR_progress by (simp cong: type_ref.simps add: type_ref.simps(1) [abs_def])
next
  case (Suc left)
  have eq: "type_ref (Suc left) = (\<lambda>ts. bind_res
       (case eat CHR ''['' ts of
          Some r \<Rightarrow> bind_res (type_ref left r) (\<lambda>(inner, r1).
                    bind_res (expect CHR '']'' r1) (\<lambda>(_, r2). Inr (''['' @ inner @ '']'', r2)))
        | None \<Rightarrow> name ts)
       (\<lambda>(v, r). case eat CHR ''!'' r of Some r' \<Rightarrow> Inr (v @ ''!'', r') | None \<Rightarrow> Inr (v, r)))"
    by (rule ext) (rule type_ref.simps(2))
  show ?case unfolding eq
    by (intro progress_bind progress_eat no_regress_rules progress_no_regress [OF Suc.IH] name_progress)
qed

lemma plain_progress:
  "progress (\<lambda>ts. case ts of
        [] \<Rightarrow> Inl (perror ''expected value'' ts)
      | t # r \<Rightarrow> (case plain_value (token t) of
            Some v \<Rightarrow> Inr (v, r)
          | None \<Rightarrow> Inl (perror ''expected value'' r)))"
  by (auto simp: progress_def perror_def split: list.splits option.splits)

lemma val_progress: "progress (val left constant)"
proof (induction left)
  case 0
  then show ?case using DEPTH_ERROR_progress by (simp add: val.simps(1) [abs_def])
next
  case (Suc left)
  note eq = ext [of "val (Suc left) constant", OF val.simps(2)]
  show ?case unfolding eq
    by (intro progress_bind progress_eat no_regress_rules progress_no_regress [OF progress_loop_until]
       plain_progress Suc.IH member_progress) simp_all
qed

lemma arguments_no_regress: "no_regress (arguments depth constant)"
  unfolding arguments_def [abs_def]
    by (intro no_regress_rules progress_no_regress [OF progress_loop_until]
       member_progress val_progress) simp_all

lemma directives_no_regress: "no_regress (directives depth constant)"
  unfolding directives_def [abs_def]
    by (intro no_regress_rules no_regress_loop_while progress_bind name_progress arguments_no_regress)

lemma tl_progress: "no_regress p \<Longrightarrow> peek ts = Some t \<Longrightarrow> p (tl ts) = Inr (x, r) \<Longrightarrow> length r < length ts"
  by (cases ts) (auto simp: peek_def no_regress_def less_Suc_eq_le)

lemma inline_or_spread_no_regress:
  assumes "no_regress children"
  shows "no_regress (inline_or_spread depth children)"
  unfolding inline_or_spread_def [abs_def]
  by (intro no_regress_test no_regress_rules directives_no_regress assms no_regress_tl)

lemma field_progress:
  assumes "no_regress children"
  shows "progress (field depth children)"
proof -
  have "no_regress (\<lambda>r. bind_res (case eat CHR '':'' r of
                 Some r' \<Rightarrow> bind_res (name r') (\<lambda>(n, r1). Inr ((n, Some first), r1))
               | None \<Rightarrow> Inr ((first, None), r))
       (\<lambda>(p, r1). (case p of (n, alias) \<Rightarrow> \<lambda>r1.
     bind_res (arguments depth False r1) (\<lambda>(m, r2).
     bind_res (directives depth False r2) (\<lambda>(ds, r3).
     bind_res (if at CHR ''{'' r3 then children r3 else Inr ([], r3)) (\<lambda>(sels, r4).
       Inr (Field n alias m ds sels, r4))))) r1))" (is "no_regress (?rest first)") for first
    by (intro no_regress_rules)
      (auto split: prod.splits intro!: no_regress_test no_regress_rules arguments_no_regress directives_no_regress assms)
  then have "progress (\<lambda>ts. bind_res (name ts) (\<lambda>(first, r). ?rest first r))"
    by (intro progress_bind name_progress)
  then show ?thesis
    by (simp add: field_def [abs_def] case_prod_unfold)
qed

lemma selection_progress:
  assumes "no_regress children"
  shows "progress (selection depth children)"
proof (rule progressI)
  show "selection depth children ts \<noteq> Inl Out_of_fuel" for ts
    using no_regress_fuelD [OF inline_or_spread_no_regress [OF assms]] progress_fuelD [OF field_progress [OF assms]]
    by (simp add: selection_def)
  show "selection depth children ts = Inr (x, r) \<Longrightarrow> length r < length ts" for ts x r
    using tl_progress [OF inline_or_spread_no_regress [OF assms]] progressD [OF field_progress [OF assms]]
    by (auto simp: selection_def split: if_splits)
qed

lemma selections_progress: "progress (selections left)"
proof (induction left)
  case 0
  then show ?case using DEPTH_ERROR_progress by (simp add: selections.simps(1) [abs_def])
next
  case (Suc left)
  show ?case unfolding ext [of "selections (Suc left)", OF selections.simps(2)]
    by (intro progress_bind expect_progress no_regress_rules progress_no_regress [OF progress_loop_until]
       selection_progress progress_no_regress [OF Suc.IH]) simp_all
qed

lemma variable_definition_progress: "progress (variable_definition vs)"
  unfolding variable_definition_def [abs_def]
  by (intro progress_bind expect_progress no_regress_rules directives_no_regress
       progress_no_regress [OF type_ref_progress] progress_no_regress [OF val_progress]) simp_all

lemma variables_no_regress: "no_regress variables"
  unfolding variables_def [abs_def]
  by (intro no_regress_rules progress_no_regress [OF progress_loop_until] variable_definition_progress) simp_all

lemma fragment_definition_progress: "progress (fragment_definition acc)"
  unfolding fragment_definition_def [abs_def]
  by (intro progress_bind name_progress no_regress_rules directives_no_regress
       progress_no_regress [OF selections_progress]) simp_all

lemma operation_name_no_regress:
  "no_regress (\<lambda>ts. case peek ts of
                 Some (TName _) \<Rightarrow> bind_res (name ts) (\<lambda>(n, r). Inr (Some n, r))
               | _ \<Rightarrow> Inr (None, ts))"
proof -
  have "no_regress (\<lambda>ts. bind_res (name ts) (\<lambda>(n, r). Inr (Some n, r)))"
    by (intro no_regress_rules)
  then show ?thesis
    by (fastforce simp: no_regress_def split: option.splits Token.splits)
qed

lemma operation_definition_no_regress: "no_regress (operation_definition kind acc)"
  unfolding operation_definition_def [abs_def]
  by (intro no_regress_rules operation_name_no_regress directives_no_regress variables_no_regress
       progress_no_regress [OF selections_progress]) simp_all

lemma document_item_progress: "progress (document_item acc)"
  unfolding document_item_def [abs_def]
  by (intro progress_test progress_bind name_progress no_regress_rules selections_progress
       operation_definition_no_regress progress_no_regress [OF fragment_definition_progress])

interpretation item_body: consuming_body document_item
  by (rule consuming_bodyI) (rule document_item_progress)

lemma document_loop_no_fuel: "length ts < n \<Longrightarrow> document_loop n acc ts \<noteq> Inl Out_of_fuel"
proof (induction n arbitrary: acc ts)
  case (Suc n)
  show ?case
  proof (cases "document_item acc ts")
    case (Inl e)
    then show ?thesis using item_body.body_no_fuel by auto
  next
    case (Inr b)
    then obtain acc1 r1 where b: "document_item acc ts = Inr (acc1, r1)" by (cases b) auto
    have "length r1 < n" using item_body.body_shrinks [OF b] Suc.prems by simp
    then show ?thesis using Suc.IH b by simp
  qed
qed simp

text \<open>
  C37. The parser terminates on every token sequence with a document or one of the source's errors:
  the fuel of its loops never runs out, because every round of every loop consumes a token.
\<close>

theorem parse_document_no_fuel: "parse_document ts \<noteq> Inl Out_of_fuel"
  using document_loop_no_fuel [of ts "Suc (length ts)"]
  by (auto simp: parse_document_def bind_res_Inl_iff simp del: document_loop.simps split: if_splits)

section \<open>Well-formed documents\<close>

text \<open>
  What a reader of the syntax tree may rely on: nesting below the 32-level limit, argument and object
  maps that are ordered with distinct keys, constants without variables, and no display-only
  constructor (\<open>Reference\<close>, \<open>MissingVariable\<close>) in parsed values.
\<close>

fun value_ok :: "nat \<Rightarrow> bool \<Rightarrow> Value \<Rightarrow> bool" where
  "value_ok 0 constant v = False"
| "value_ok (Suc n) constant (VList vs) = list_all (value_ok n constant) vs"
| "value_ok (Suc n) constant (VObject m) = (btree m \<and> list_all (value_ok n constant) (map snd m))"
| "value_ok (Suc n) constant (Variable x) = (\<not> constant)"
| "value_ok (Suc n) constant (MissingVariable x) = False"
| "value_ok (Suc n) constant (Reference x) = False"
| "value_ok (Suc n) constant v = True"

definition args_ok :: "nat \<Rightarrow> bool \<Rightarrow> args \<Rightarrow> bool" where
  "args_ok n constant m \<longleftrightarrow> btree m \<and> list_all (value_ok n constant) (map snd m)"

definition directives_ok :: "nat \<Rightarrow> bool \<Rightarrow> Directive list \<Rightarrow> bool" where
  "directives_ok n constant = list_all (\<lambda>d. args_ok n constant (directive_arguments d))"

fun selection_ok :: "nat \<Rightarrow> Selection \<Rightarrow> bool" where
  "selection_ok 0 s = False"
| "selection_ok (Suc n) (Field nm alias m ds sels) =
     (args_ok n False m \<and> directives_ok n False ds \<and> list_all (selection_ok n) sels)"
| "selection_ok (Suc n) (Spread nm ds) = directives_ok n False ds"
| "selection_ok (Suc n) (Inline on ds sels) =
     (directives_ok n False ds \<and> sels \<noteq> [] \<and> list_all (selection_ok n) sels)"

definition variable_ok :: "VariableDef \<Rightarrow> bool" where
  "variable_ok v \<longleftrightarrow> opt_all (value_ok (levels 0) True) (var_default v)
     \<and> directives_ok MAX_DEPTH True (var_directives v)"

definition variables_ok :: "VariableDef list \<Rightarrow> bool" where
  "variables_ok vs \<longleftrightarrow> distinct (map var_name vs) \<and> list_all variable_ok vs"

definition operation_ok :: "Operation \<Rightarrow> bool" where
  "operation_ok op \<longleftrightarrow>
     op_kind op \<in> set [''query'', ''mutation'', ''subscription'']
     \<and> variables_ok (op_variables op)
     \<and> directives_ok MAX_DEPTH False (op_directives op)
     \<and> op_selections op \<noteq> [] \<and> list_all (selection_ok (levels 0)) (op_selections op)"

definition fragment_ok :: "string \<times> Fragment \<Rightarrow> bool" where
  "fragment_ok kf \<longleftrightarrow> (case kf of (k, f) \<Rightarrow>
     fragment_name f = k \<and> k \<noteq> ''on''
     \<and> directives_ok MAX_DEPTH False (fragment_directives f)
     \<and> fragment_selections f \<noteq> [] \<and> list_all (selection_ok (levels 0)) (fragment_selections f))"

definition document_ok :: "Document \<Rightarrow> bool" where
  "document_ok d \<longleftrightarrow>
     operations d \<noteq> [] \<and> list_all operation_ok (operations d)
     \<and> distinct (List.map_filter op_name (operations d))
     \<and> (list_ex (\<lambda>op. op_name op = None) (operations d) \<longrightarrow> length (operations d) = 1)
     \<and> btree (fragments d) \<and> list_all fragment_ok (fragments d)"

lemma args_ok_insert: "args_ok n c m \<Longrightarrow> value_ok n c v \<Longrightarrow> args_ok n c (btree_insert k v m)"
  by (auto simp: args_ok_def list_all_iff dest!: set_btree_insert)

lemma args_ok_Nil [simp]: "args_ok n c []"
  by (simp add: args_ok_def)

lemma member_ok:
  assumes v: "\<And>us x r. v us = Inr (x, r) \<Longrightarrow> value_ok n c x"
    and "args_ok n c m" and "member dup v m ts = Inr (m', r)"
  shows "args_ok n c m'"
  using assms(2,3)
  by (auto simp: member_def bind_res_Inr_iff intro: args_ok_insert split: if_splits dest: v)

lemma plain_value_ok: "plain_value t = Some v \<Longrightarrow> value_ok (Suc n) c v"
  by (auto simp: plain_value_def split: Token.splits if_splits)

lemma val_ok: "val n c ts = Inr (v, r) \<Longrightarrow> value_ok n c v"
proof (induction n arbitrary: ts v r)
  case (Suc n)
  have lists: "list_all (value_ok n c) vs'"
    if "loop_until k d (\<lambda>vs ts'. bind_res (val n c ts') (\<lambda>(v, r'). Inr (vs @ [v], r'))) [] us = Inr (vs', r')" for k d us vs' r'
    by (rule loop_until_invariant [OF _ that, where I = "list_all (value_ok n c)"])
      (auto simp: bind_res_Inr_iff dest: Suc.IH)
  have objects: "args_ok n c m'"
    if "loop_until k d (\<lambda>m ts'. member dup (\<lambda>us. val n c us) m ts') [] us = Inr (m', r')" for k d dup us m' r'
    by (rule loop_until_invariant [OF _ that, where I = "args_ok n c"])
      (auto dest: Suc.IH intro: member_ok)
  show ?case
    using Suc.prems
    by (auto simp: bind_res_Inr_iff simp del: loop_until.simps split: option.splits if_splits list.splits
        dest!: lists objects dest: plain_value_ok simp: args_ok_def)
qed simp

lemma arguments_ok:
  assumes "arguments depth c ts = Inr (m, r)"
  shows "args_ok (MAX_DEPTH - depth) c m"
proof -
  have "args_ok (MAX_DEPTH - depth) c m'"
    if "loop_until k d (member dup (val (levels (Suc depth)) c)) [] us = Inr (m', r')" for k d dup us m' r'
    by (rule loop_until_invariant [OF _ that, where I = "args_ok (MAX_DEPTH - depth) c"])
      (auto dest: val_ok intro: member_ok simp: levels_def)
  then show ?thesis
    using assms by (auto simp: arguments_def bind_res_Inr_iff simp del: loop_until.simps
        split: option.splits if_splits)
qed

lemma directives_ok:
  assumes "directives depth c ts = Inr (ds, r)"
  shows "directives_ok (MAX_DEPTH - depth) c ds"
  unfolding directives_ok_def
  by (rule loop_while_invariant [OF _ assms [unfolded directives_def]])
    (auto simp: bind_res_Inr_iff dest: arguments_ok)

lemma selection_parsed_ok:
  assumes children: "\<And>us ss r. children us = Inr (ss, r) \<Longrightarrow> ss \<noteq> [] \<and> list_all (selection_ok (MAX_DEPTH - depth)) ss"
    and "selection depth children ts = Inr (s, r)"
  shows "selection_ok (Suc (MAX_DEPTH - depth)) s"
  using assms(2)
  by (auto simp: selection_def inline_or_spread_def field_def bind_res_Inr_iff
      split: if_splits option.splits dest!: arguments_ok directives_ok dest: children)

lemma selections_ok:
  "selections n ts = Inr (ss, r) \<Longrightarrow> n \<le> levels 0 \<Longrightarrow> ss \<noteq> [] \<and> list_all (selection_ok n) ss"
proof (induction n arbitrary: ts ss r)
  case (Suc n)
  then have n: "MAX_DEPTH - (MAX_DEPTH - n) = n" by (simp add: levels_def)
  have "list_all (selection_ok (Suc n)) ss'"
    if "loop_until k d (\<lambda>sels us. bind_res (selection (MAX_DEPTH - n) (\<lambda>vs. selections n vs) us)
            (\<lambda>(s, r'). Inr (sels @ [s], r'))) [] us = Inr (ss', r')" for k d us ss' r'
    by (rule loop_until_invariant [OF _ that, where I = "list_all (selection_ok (Suc n))"])
      (use Suc.IH Suc.prems(2) selection_parsed_ok [of "\<lambda>vs. selections n vs" "MAX_DEPTH - n", unfolded n]
       in \<open>auto simp: bind_res_Inr_iff simp del: selection_ok.simps\<close>)
  then show ?case
    using Suc.prems by (auto simp: bind_res_Inr_iff simp del: loop_until.simps selection_ok.simps split: if_splits)
qed simp

lemma variable_definition_ok:
  assumes "variables_ok vs" and "variable_definition vs ts = Inr (vs', r)"
  shows "variables_ok vs'"
proof -
  obtain v where v: "vs' = vs @ [v]" "var_name v \<notin> var_name ` set vs"
      "var_default v = None \<or> (\<exists>us x r. var_default v = Some x \<and> val (levels 0) True us = Inr (x, r))"
      "\<exists>us r. directives 0 True us = Inr (var_directives v, r)"
    using assms(2) by (fastforce simp: variable_definition_def bind_res_Inr_iff split: if_splits option.splits)
  then have "variable_ok v"
    unfolding variable_ok_def using val_ok directives_ok [of 0] by auto
  then show ?thesis using v(1,2) assms(1) by (simp add: variables_ok_def)
qed

lemma variables_parsed_ok:
  assumes "variables ts = Inr (vs, r)"
  shows "variables_ok vs"
proof -
  have "variables_ok vs'" if "loop_until k d variable_definition [] us = Inr (vs', r')" for k d us vs' r'
    by (rule loop_until_invariant [OF _ that, where I = variables_ok])
      (auto dest: variable_definition_ok, simp add: variables_ok_def)
  moreover have "variables_ok []" by (simp add: variables_ok_def)
  ultimately show ?thesis
    using assms by (auto simp: variables_def bind_res_Inr_iff simp del: loop_until.simps
        split: option.splits if_splits)
qed

text \<open>The invariant of the document loop.\<close>

definition acc_ok :: "doc_acc \<Rightarrow> bool" where
  "acc_ok acc \<longleftrightarrow>
     list_all operation_ok (acc_operations acc)
     \<and> distinct (List.map_filter op_name (acc_operations acc))
     \<and> set (List.map_filter op_name (acc_operations acc)) = set (acc_names acc)
     \<and> btree (acc_fragments acc) \<and> list_all fragment_ok (acc_fragments acc)"

lemma acc_ok_fragment:
  assumes "acc_ok acc" and "fragment_ok (k, f)"
  shows "acc_ok (acc\<lparr>acc_fragments := btree_insert k f (acc_fragments acc)\<rparr>)"
  using assms by (auto simp: acc_ok_def list_all_iff dest!: set_btree_insert)

lemma acc_ok_operation:
  assumes "acc_ok acc" and "operation_ok op" and "opt_all (\<lambda>n. n \<notin> set (acc_names acc)) (op_name op)"
  shows "acc_ok (acc\<lparr>acc_operations := acc_operations acc @ [op],
                     acc_names := (case op_name op of None \<Rightarrow> acc_names acc | Some n \<Rightarrow> n # acc_names acc)\<rparr>)"
  using assms by (auto simp: acc_ok_def List.map_filter_def split: option.splits)

lemma fragment_definition_ok:
  assumes "acc_ok acc" and "fragment_definition acc ts = Inr (acc', r)"
  shows "acc_ok acc'"
  using assms
  by (auto simp: fragment_definition_def bind_res_Inr_iff split: if_splits
      intro!: acc_ok_fragment simp: fragment_ok_def
      dest: directives_ok [of 0, simplified] selections_ok [OF _ order_refl])

lemma operation_definition_ok:
  assumes "acc_ok acc" and "operation_definition kind acc ts = Inr (acc', r)"
    and "kind \<in> set [''query'', ''mutation'', ''subscription'']"
  shows "acc_ok acc'"
proof -
  obtain nm us vs r1 ds r2 sels r3 where p: "\<not> opt_any (\<lambda>n. n \<in> set (acc_names acc)) nm"
      "variables us = Inr (vs, r1)" "directives 0 False r1 = Inr (ds, r2)"
      "selections (levels 0) r2 = Inr (sels, r3)"
      "acc' = acc\<lparr>acc_operations := acc_operations acc @
                  [\<lparr>op_kind = kind, op_name = nm, op_variables = vs, op_directives = ds, op_selections = sels\<rparr>],
                acc_names := (case nm of None \<Rightarrow> acc_names acc | Some n \<Rightarrow> n # acc_names acc)\<rparr>"
    using assms(2) by (auto simp: operation_definition_def bind_res_Inr_iff split: if_splits)
  let ?op = "\<lparr>op_kind = kind, op_name = nm, op_variables = vs, op_directives = ds, op_selections = sels\<rparr>"
  have "operation_ok ?op"
    using assms(3) variables_parsed_ok [OF p(2)] directives_ok [OF p(3)] selections_ok [OF p(4)]
    by (simp add: operation_ok_def)
  moreover have "opt_all (\<lambda>n. n \<notin> set (acc_names acc)) (op_name ?op)"
    using p(1) by (cases nm) simp_all
  ultimately show ?thesis using acc_ok_operation [OF assms(1), of ?op] p(5) by simp
qed

lemma document_item_ok:
  assumes "acc_ok acc" and "document_item acc ts = Inr (acc', r)"
  shows "acc_ok acc'"
proof (cases "at CHR ''{'' ts")
  case True
  then obtain sels where "selections (levels 0) ts = Inr (sels, r)"
    and acc': "acc' = acc\<lparr>acc_operations := acc_operations acc @
                 [\<lparr>op_kind = ''query'', op_name = None, op_variables = [], op_directives = [],
                   op_selections = sels\<rparr>]\<rparr>" (is "_ = _ \<lparr>acc_operations := _ @ [?op]\<rparr>")
    using assms(2) by (auto simp: document_item_def bind_res_Inr_iff)
  then have "operation_ok ?op"
    using selections_ok by (auto simp: operation_ok_def variables_ok_def directives_ok_def)
  then show ?thesis using acc_ok_operation [OF assms(1), of ?op] acc' by simp
next
  case False
  then show ?thesis
    using assms unfolding document_item_def
    by (auto simp del: set_simps simp: bind_res_Inr_iff split: if_splits
        intro: fragment_definition_ok operation_definition_ok)
qed

lemma document_loop_ok: "document_loop n acc ts = Inr acc' \<Longrightarrow> acc_ok acc \<Longrightarrow> acc_ok acc'"
  by (induction n arbitrary: acc ts)
    (auto simp: bind_res_Inr_iff split: if_splits dest: document_item_ok)

text \<open>
  C38. Whatever the parser accepts is a well-formed document: at least one operation, each of a known
  kind with distinct variables, constant defaults and a non-empty selection set; operation names
  distinct and an anonymous operation alone; fragments stored under their own names; argument maps
  ordered without duplicates; and no value or selection nested deeper than the 32-level limit.
\<close>

theorem parse_document_ok:
  assumes "parse_document ts = Inr d"
  shows "document_ok d"
proof -
  obtain acc where l: "document_loop (Suc (length ts)) \<lparr>acc_operations = [], acc_fragments = [], acc_names = []\<rparr> ts = Inr acc"
      "acc_operations acc \<noteq> []" "\<not> (1 < length (acc_operations acc) \<and> list_ex (\<lambda>op. op_name op = None) (acc_operations acc))"
      "d = \<lparr>operations = acc_operations acc, fragments = acc_fragments acc\<rparr>"
    using assms by (auto simp: parse_document_def bind_res_Inr_iff simp del: document_loop.simps split: if_splits)
  have "acc_ok \<lparr>acc_operations = [], acc_fragments = [], acc_names = []\<rparr>"
    by (simp add: acc_ok_def List.map_filter_def)
  then have "acc_ok acc" using document_loop_ok [OF l(1)] by simp
  then show ?thesis
    using l(2-4) by (cases "acc_operations acc") (auto simp: document_ok_def acc_ok_def)
qed

definition sample_tokens :: toks where
  "sample_tokens = map (\<lambda>t. \<lparr>token = t, offset = 0\<rparr>)
     [TName ''query'', TPunct CHR ''('', TPunct CHR ''$'', TName ''n'', TPunct CHR '':'', TName ''Int'',
      TPunct CHR '')'', TPunct CHR ''{'', TName ''a'', TPunct CHR ''('', TName ''first'', TPunct CHR '':'',
      TPunct CHR ''$'', TName ''n'', TPunct CHR '')'', TPunct CHR ''}'']"

definition sample_document :: Document where
  "sample_document =
     \<lparr>operations = [\<lparr>op_kind = ''query'', op_name = None,
        op_variables = [\<lparr>var_name = ''n'', type_name = ''Int'', var_default = None, var_directives = []\<rparr>],
        op_directives = [],
        op_selections = [Field ''a'' None [(''first'', Variable ''n'')] [] []]\<rparr>],
      fragments = []\<rparr>"

lemma parse_sample: "parse_document sample_tokens = Inr sample_document"
  by code_simp

theorem parse_document_ok_witness: "document_ok sample_document"
  by (rule parse_document_ok [OF parse_sample])

end
