(* ===== verification/Graphql_Check.thy ===== *)
theory Graphql_Check
  imports Graphql_Parse Json
begin

text \<open>
  What \<open>graphql.rs\<close> decides about a parsed document: the fragment graph (\<open>validate_fragments\<close>), the
  selection of the operation (\<open>parse_request_with_limit\<close>), and the admission of a request as a read
  (\<open>query_directives_supported\<close> and the first component of \<open>inspect_with_limit\<close>). A \<open>HashSet\<close> is the
  list of its elements, and the order in which Rust iterates it is a parameter (\<open>hash_order\<close>) of which
  only the elements are known. Where the code indexes a map, the result is \<open>Inl None\<close> for the panic at a
  missing key and \<open>Inl (Some e)\<close> for the error \<open>e\<close>.
\<close>

type_synonym 'a or_panic = "gql_error option + 'a"

definition no_panic :: "gql_error + 'a \<Rightarrow> 'a or_panic" where
  "no_panic r = (case r of Inl e \<Rightarrow> Inl (Some e) | Inr x \<Rightarrow> Inr x)"

lemma no_panic_simps [simp]:
  "no_panic r \<noteq> Inl None"
  "no_panic r = Inr x \<longleftrightarrow> r = Inr x"
  by (simp_all add: no_panic_def split: sum.splits)

section \<open>The fragment graph\<close>

fun collect :: "Selection \<Rightarrow> string list" where
  "collect (Spread n ds) = [n]"
| "collect (Field n alias m ds sels) = concat (map collect sels)"
| "collect (Inline on ds sels) = concat (map collect sels)"

definition collect_all :: "Selection list \<Rightarrow> string list" where
  "collect_all sels = remdups (concat (map collect sels))"

type_synonym edges = "(string, string list) alist"
type_synonym hash_order = "string list \<Rightarrow> string list"

definition fragment_edges :: "Document \<Rightarrow> edges" where
  "fragment_edges d = map (\<lambda>(n, f). (n, collect_all (fragment_selections f))) (fragments d)"

definition all_refs :: "Document \<Rightarrow> string list" where
  "all_refs d = concat (map (\<lambda>op. collect_all (op_selections op)) (operations d))
     @ concat (map snd (fragment_edges d))"

fun visit :: "hash_order \<Rightarrow> edges \<Rightarrow> nat \<Rightarrow> string \<Rightarrow> string list \<times> string list
    \<Rightarrow> (string list \<times> string list) or_panic" where
  "visit ord es 0 n (active, done) = Inl (Some DEPTH_ERROR)"
| "visit ord es (Suc left) n (active, done) =
     (if n \<in> set done then Inr (active, done)
      else if n \<in> set active then Inl (Some (Msg ''fragment cycle is not reviewable''))
      else case map_of es n of
        None \<Rightarrow> Inl None
      | Some refs \<Rightarrow>
          bind_res (fold_res (\<lambda>child s. visit ord es left child s) (ord refs) (n # active, done))
            (\<lambda>(active', done'). Inr (removeAll n active', n # done')))"

definition visit_root :: "hash_order \<Rightarrow> edges \<Rightarrow> string \<Rightarrow> string list \<Rightarrow> string list or_panic" where
  "visit_root ord es n done = bind_res (visit ord es (levels 0) n ([], done)) (\<lambda>(_, done'). Inr done')"

definition validate_fragments :: "hash_order \<Rightarrow> Document \<Rightarrow> unit or_panic" where
  "validate_fragments ord d =
     (if list_ex (\<lambda>n. \<not> contains_key n (fragments d)) (all_refs d)
      then Inl (Some (Msg ''undefined fragment reference''))
      else bind_res (fold_res (visit_root ord (fragment_edges d)) (keys (fragment_edges d)) [])
             (\<lambda>_. Inr ()))"

section \<open>The request envelope\<close>

record ParsedRequest =
  document :: Document
  selected :: nat
  supplied :: "(string, Json) alist"

definition envelope_query :: "(string, Json) alist \<Rightarrow> gql_error + string \<times> string option \<times> (string, Json) alist" where
  "envelope_query obj =
     (if list_ex (\<lambda>k. k \<notin> set [''query'', ''operationName'', ''variables'']) (keys obj)
      then Inl (Msg ''GraphQL envelope extensions/unknown fields are not supported for structured review'')
      else
        bind_res (ok_or (Msg ''query must be a string (persisted queries are not supported)'')
                   (Option.bind (map_of obj ''query'') as_str)) (\<lambda>query.
        bind_res (case map_of obj ''operationName'' of
                    None \<Rightarrow> Inr None
                  | Some JNull \<Rightarrow> Inr None
                  | Some (JString n) \<Rightarrow> Inr (Some n)
                  | _ \<Rightarrow> Inl (Msg ''operationName must be a string or null'')) (\<lambda>requested.
        bind_res (case map_of obj ''variables'' of
                    None \<Rightarrow> Inr []
                  | Some JNull \<Rightarrow> Inr []
                  | Some (JObject m) \<Rightarrow> Inr m
                  | _ \<Rightarrow> Inl (Msg ''variables must be an object or null'')) (\<lambda>vars.
          Inr (query, requested, vars)))))"

text \<open>\<open>from_str\<close> is \<open>serde_json::from_str\<close>: the tree of the text, or None when it is not JSON.\<close>

definition envelope :: "(string \<Rightarrow> Json option) \<Rightarrow> string \<Rightarrow> string
    \<Rightarrow> gql_error + string \<times> string option \<times> (string, Json) alist" where
  "envelope from_str body content_type =
     (let ct = to_ascii_lowercase (str_trim (hd (split_on CHR '';'' content_type))) in
      if ct = ''application/json'' then
        bind_res (ok_or (Msg ''invalid or ambiguous GraphQL JSON'') (Option.bind (from_str body) unique_json)) (\<lambda>json.
        bind_res (ok_or (Msg ''expected one GraphQL JSON object; batching is not supported'') (as_object json))
          envelope_query)
      else if ct = ''application/graphql'' then Inr (body, None, [])
      else Inl (Msg ''structured GraphQL review requires application/json or application/graphql''))"

fun position_from :: "('a \<Rightarrow> bool) \<Rightarrow> nat \<Rightarrow> 'a list \<Rightarrow> nat option" where
  "position_from p i [] = None"
| "position_from p i (x # xs) = (if p x then Some i else position_from p (Suc i) xs)"

definition select_operation :: "Operation list \<Rightarrow> string option \<Rightarrow> gql_error + nat" where
  "select_operation ops requested =
     (case requested of
        Some n \<Rightarrow> ok_or (Msg ''operationName does not select an operation'')
                    (position_from (\<lambda>op. op_name op = Some n) 0 ops)
      | None \<Rightarrow>
          if length ops = 1 then Inr 0
          else Inl (Msg ''multiple operations require operationName; no operation was guessed''))"

definition parse_request_with_limit :: "(string \<Rightarrow> Json option) \<Rightarrow> hash_order \<Rightarrow> string \<Rightarrow> string \<Rightarrow> nat
    \<Rightarrow> ParsedRequest or_panic" where
  "parse_request_with_limit from_str ord body content_type max_body =
     (if max_body < length body then Inl (Some (Msg ''GraphQL body exceeds the review limit''))
      else
        bind_res (no_panic (envelope from_str body content_type)) (\<lambda>(query, requested, vars).
        bind_res (no_panic (lex query)) (\<lambda>tokens.
        bind_res (no_panic (parse_document tokens)) (\<lambda>doc.
        bind_res (validate_fragments ord doc) (\<lambda>_.
        bind_res (no_panic (select_operation (operations doc) requested)) (\<lambda>i.
          Inr \<lparr>document = doc, selected = i, supplied = vars\<rparr>))))))"

section \<open>Admission of reads\<close>

definition supported_directive :: "Directive \<Rightarrow> bool" where
  "supported_directive d \<longleftrightarrow>
     directive_name d \<in> set [''skip'', ''include'']
     \<and> length (directive_arguments d) = 1
     \<and> (case map_of (directive_arguments d) ''if'' of
          Some (VBoolean _) \<Rightarrow> True | Some (Variable _) \<Rightarrow> True | _ \<Rightarrow> False)"

abbreviation supported :: "Directive list \<Rightarrow> bool" where
  "supported \<equiv> list_all supported_directive"

text \<open>
  The worklist \<open>pending\<close> with its last element first: \<open>pop\<close> takes the head, \<open>extend\<close> puts the reversed
  list in front. None is the panic of \<open>fragments[name]\<close> at an undefined fragment.
\<close>

function directive_walk :: "(string, Fragment) alist \<Rightarrow> string list \<Rightarrow> Selection list \<Rightarrow> bool option" where
  "directive_walk fr visited [] = Some True"
| "directive_walk fr visited (Field n alias m ds sels # pending) =
     (if \<not> supported ds then Some False else directive_walk fr visited (rev sels @ pending))"
| "directive_walk fr visited (Inline on ds sels # pending) =
     (if \<not> supported ds then Some False else directive_walk fr visited (rev sels @ pending))"
| "directive_walk fr visited (Spread n ds # pending) =
     (if \<not> supported ds then Some False
      else if n \<in> set visited then directive_walk fr visited pending
      else case map_of fr n of
        None \<Rightarrow> None
      | Some f \<Rightarrow>
          if fragment_directives f \<noteq> [] then Some False
          else directive_walk fr (n # visited) (rev (fragment_selections f) @ pending))"
  by pat_completeness auto

definition unvisited_work :: "(string, Fragment) alist \<Rightarrow> string list \<Rightarrow> nat" where
  "unvisited_work fr visited =
     sum_list (map (\<lambda>(n, f). if n \<in> set visited then 0 else size_list size (fragment_selections f)) fr)"

lemma unvisited_work_mono: "unvisited_work fr (n # visited) \<le> unvisited_work fr visited"
  unfolding unvisited_work_def by (rule sum_list_mono) auto

lemma unvisited_work_visit:
  "map_of fr n = Some f \<Longrightarrow> n \<notin> set visited \<Longrightarrow>
     unvisited_work fr (n # visited) + size_list size (fragment_selections f) \<le> unvisited_work fr visited"
proof (induction fr)
  case (Cons p fr)
  obtain k g where p: "p = (k, g)" by (cases p)
  show ?case
  proof (cases "k = n")
    case True
    then show ?thesis using Cons.prems p unvisited_work_mono [of fr n visited]
      by (simp add: unvisited_work_def)
  next
    case False
    then show ?thesis using Cons p by (auto simp: unvisited_work_def)
  qed
qed simp

lemma size_list_rev [simp]: "size_list f (rev xs) = size_list f xs"
  by (simp add: size_list_conv_sum_list rev_map [symmetric] sum_list_rev)

termination directive_walk
  by (relation "measure (\<lambda>(fr, visited, pending). unvisited_work fr visited + size_list size pending)")
    (auto simp: less_Suc_eq_le intro: unvisited_work_visit)

definition query_directives_supported :: "ParsedRequest \<Rightarrow> bool option" where
  "query_directives_supported p =
     (let op = operations (document p) ! selected p in
      if op_directives op \<noteq> [] \<or> list_ex (\<lambda>v. var_directives v \<noteq> []) (op_variables op) then Some False
      else directive_walk (fragments (document p)) [] (rev (op_selections op)))"

text \<open>The admission of \<open>inspect_with_limit\<close>: \<open>read_only\<close>, or None where the code would panic.\<close>

definition inspect_read_only :: "(string \<Rightarrow> Json option) \<Rightarrow> hash_order \<Rightarrow> string \<Rightarrow> string \<Rightarrow> nat \<Rightarrow> bool option" where
  "inspect_read_only from_str ord body content_type max_body =
     (case parse_request_with_limit from_str ord body content_type max_body of
        Inl None \<Rightarrow> None
      | Inl (Some _) \<Rightarrow> Some False
      | Inr p \<Rightarrow>
          if op_kind (operations (document p) ! selected p) = ''query''
          then query_directives_supported p else Some False)"

section \<open>Accepted fragment graphs are acyclic\<close>

text \<open>
  A list of fragment names in an order of evaluation: the references of each name come later in the
  list. \<open>visit\<close> keeps \<open>done\<close> such a list, which is why a cycle can never be completed.
\<close>

fun topological :: "edges \<Rightarrow> string list \<Rightarrow> bool" where
  "topological es [] = True"
| "topological es (n # ns) =
     (n \<notin> set ns \<and> (case map_of es n of None \<Rightarrow> False | Some refs \<Rightarrow> set refs \<subseteq> set ns) \<and> topological es ns)"

definition fragment_graph :: "edges \<Rightarrow> (string \<times> string) set" where
  "fragment_graph es = {(n, m). \<exists>refs. map_of es n = Some refs \<and> m \<in> set refs}"

text \<open>
  The contract of one visit: \<open>done\<close> grows, stays topological and contains the visited name, and the
  active names are as before. The active names are never done.
\<close>

definition walk_state :: "edges \<Rightarrow> string list \<times> string list \<Rightarrow> bool" where
  "walk_state es s \<longleftrightarrow> (case s of (active, done) \<Rightarrow> topological es done \<and> set active \<inter> set done = {})"

lemma visit_keeps:
  assumes ord: "\<And>ns. set (ord ns) = set ns"
  shows "visit ord es k n (a, d) = Inr (a', d') \<Longrightarrow> walk_state es (a, d) \<Longrightarrow>
     walk_state es (a', d') \<and> set a' = set a \<and> set d \<subseteq> set d' \<and> n \<in> set d'"
proof (induction k arbitrary: n a d a' d')
  case (Suc k)
  show ?case
  proof (cases "n \<in> set d")
    case True
    then show ?thesis using Suc.prems by auto
  next
    case False
    with Suc.prems obtain refs a1 d1 where refs: "n \<notin> set a" "map_of es n = Some refs"
      and loop: "fold_res (\<lambda>child s. visit ord es k child s) (ord refs) (n # a, d) = Inr (a1, d1)"
      and res: "a' = removeAll n a1" "d' = n # d1"
      by (auto simp: bind_res_Inr_iff split: if_splits option.splits)
    have children: "walk_state es t \<and> set (fst t) = set (fst s) \<and> set (snd s) \<subseteq> set (snd t) \<and> set cs \<subseteq> set (snd t)"
      if "fold_res (\<lambda>child s. visit ord es k child s) cs s = Inr t" "walk_state es s" for cs s t
      using that
    proof (induction cs arbitrary: s)
      case (Cons c cs)
      then obtain u where u: "visit ord es k c s = Inr u"
          "fold_res (\<lambda>child s. visit ord es k child s) cs u = Inr t"
        by (auto simp: bind_res_Inr_iff)
      have "walk_state es u \<and> set (fst u) = set (fst s) \<and> set (snd s) \<subseteq> set (snd u) \<and> c \<in> set (snd u)"
        using Suc.IH [of c "fst s" "snd s" "fst u" "snd u"] u(1) Cons.prems(2) by simp
      then show ?case using Cons.IH [OF u(2)] by auto
    qed simp
    have "walk_state es (n # a, d)"
      using Suc.prems(2) False by (auto simp: walk_state_def)
    from children [OF loop this] show ?thesis
      using refs res ord by (auto simp: walk_state_def)
  qed
qed simp

lemma visit_root_keeps:
  assumes ord: "\<And>ns. set (ord ns) = set ns"
    and "visit_root ord es n d = Inr d'" and "topological es d"
  shows "topological es d' \<and> set d \<subseteq> set d' \<and> n \<in> set d'"
proof -
  obtain a where "visit ord es (levels 0) n ([], d) = Inr (a, d')"
    using assms(2) by (auto simp: visit_root_def bind_res_Inr_iff)
  from visit_keeps [OF ord this] assms(3) show ?thesis by (simp add: walk_state_def)
qed

lemma visit_roots_keep:
  assumes ord: "\<And>ns. set (ord ns) = set ns"
  shows "fold_res (visit_root ord es) ns d = Inr d' \<Longrightarrow> topological es d \<Longrightarrow>
     topological es d' \<and> set ns \<union> set d \<subseteq> set d'"
proof (induction ns arbitrary: d)
  case (Cons n ns)
  then obtain d1 where "visit_root ord es n d = Inr d1" "fold_res (visit_root ord es) ns d1 = Inr d'"
    by (auto simp: bind_res_Inr_iff)
  with visit_root_keeps [OF ord this(1) Cons.prems(2)] Cons.IH [of d1] show ?case by auto
qed simp

text \<open>The distance of a name from the end of the list, a rank that decreases along references.\<close>

definition rank :: "string list \<Rightarrow> string \<Rightarrow> nat" where
  "rank ns n = length (dropWhile (\<lambda>m. m \<noteq> n) ns)"

lemma rank_le: "rank ns n \<le> length ns"
  unfolding rank_def by (rule length_dropWhile_le)

lemma topological_rank:
  "topological es ns \<Longrightarrow> n \<in> set ns \<Longrightarrow> (n, m) \<in> fragment_graph es \<Longrightarrow> rank ns m < rank ns n"
proof (induction ns)
  case (Cons k ns)
  show ?case
  proof (cases "k = n")
    case True
    with Cons.prems have "m \<in> set ns" "k \<notin> set ns" by (auto simp: fragment_graph_def)
    then have "rank (k # ns) m = rank ns m" by (auto simp: rank_def)
    also have "\<dots> < rank (k # ns) n" using True rank_le [of ns m] by (simp add: rank_def)
    finally show ?thesis .
  next
    case False
    with Cons.prems have n: "n \<in> set ns" "topological es ns" by auto
    have "m \<in> set ns" using n Cons.prems(3)
      by (induction ns) (auto simp: fragment_graph_def split: option.splits)
    with Cons.prems(1) have "m \<noteq> k" by auto
    with False Cons.IH [OF n(2,1) Cons.prems(3)] show ?thesis by (simp add: rank_def)
  qed
qed simp

lemma topological_acyclic:
  assumes "topological es ns" and "fst ` set es \<subseteq> set ns"
  shows "acyclic (fragment_graph es)"
proof -
  have "n \<in> set ns" if "(n, m) \<in> fragment_graph es" for n m
    using that assms(2) by (force simp: fragment_graph_def dest: map_of_SomeD)
  then have "fragment_graph es \<subseteq> (measure (rank ns))\<inverse>"
    using topological_rank [OF assms(1)] by auto
  then have "(fragment_graph es)\<inverse> \<subseteq> measure (rank ns)" by auto
  then have "wf ((fragment_graph es)\<inverse>)" by (rule wf_subset [OF wf_measure])
  then show ?thesis using wf_acyclic acyclic_converse by blast
qed

lemma map_of_fragment_edges:
  "map_of (fragment_edges d) n = map_option (\<lambda>f. collect_all (fragment_selections f)) (map_of (fragments d) n)"
  unfolding fragment_edges_def by (induction "fragments d") (auto simp: map_of_map)

lemma fragment_edges_refs:
  "map_of (fragment_edges d) n = Some refs \<Longrightarrow> set refs \<subseteq> set (all_refs d)"
  by (force simp: all_refs_def dest: map_of_SomeD)

text \<open>
  A document whose fragments pass validation has no dangling reference, in selected and
  unselected operations and in used and unused fragments alike, and its fragment graph has no
  cycle, whatever the iteration order of the hash sets.
\<close>

theorem validate_fragments_sound:
  assumes "\<And>ns. set (ord ns) = set ns" and "validate_fragments ord d = Inr ()"
  shows "set (all_refs d) \<subseteq> dom (map_of (fragments d)) \<and> acyclic (fragment_graph (fragment_edges d))"
proof
  show "set (all_refs d) \<subseteq> dom (map_of (fragments d))"
    using assms(2) by (auto simp: validate_fragments_def list_ex_iff split: if_splits)
  obtain seen where "fold_res (visit_root ord (fragment_edges d)) (keys (fragment_edges d)) [] = Inr seen"
    using assms(2) by (auto simp: validate_fragments_def bind_res_Inr_iff split: if_splits)
  from visit_roots_keep [OF assms(1) this]
  show "acyclic (fragment_graph (fragment_edges d))"
    by (intro topological_acyclic [of _ seen]) auto
qed

lemma visit_complete:
  assumes ord: "\<And>ns. set (ord ns) = set ns"
    and closed: "\<And>n refs. map_of es n = Some refs \<Longrightarrow> set refs \<subseteq> dom (map_of es)"
    and dec: "\<And>n m. (n, m) \<in> fragment_graph es \<Longrightarrow> r m < r n"
  shows "r n < k \<Longrightarrow> n \<in> dom (map_of es) \<Longrightarrow> \<forall>x \<in> set a. r n < r x \<Longrightarrow>
     \<exists>a' d'. visit ord es k n (a, d) = Inr (a', d') \<and> set a' = set a"
proof (induction k arbitrary: n a d)
  case (Suc k)
  show ?case
  proof (cases "n \<in> set d")
    case False
    obtain refs where refs: "map_of es n = Some refs" using Suc.prems(2) by auto
    have n: "n \<notin> set a" using Suc.prems(3) by auto
    have children: "\<exists>t. fold_res (\<lambda>child s. visit ord es k child s) cs s = Inr t \<and> set (fst t) = insert n (set a)"
      if "set cs \<subseteq> set refs" "set (fst s) = insert n (set a)" for cs s
      using that
    proof (induction cs arbitrary: s)
      case (Cons c cs)
      have c: "r c < r n" "c \<in> dom (map_of es)"
        using Cons.prems(1) refs dec closed [OF refs] by (auto simp: fragment_graph_def)
      have "r c < k" using c(1) Suc.prems(1) by simp
      moreover have "\<forall>x \<in> set (fst s). r c < r x" using Cons.prems(2) c(1) Suc.prems(3) by auto
      ultimately obtain a1 d1 where u: "visit ord es k c (fst s, snd s) = Inr (a1, d1)" "set a1 = set (fst s)"
        using Suc.IH c(2) by blast
      then show ?case using Cons.IH [of "(a1, d1)"] Cons.prems by simp
    qed simp
    obtain t where "fold_res (\<lambda>child s. visit ord es k child s) (ord refs) (n # a, d) = Inr t" "set (fst t) = insert n (set a)"
      using children [of "ord refs" "(n # a, d)"] ord by auto
    then show ?thesis using refs n False by (auto simp: case_prod_unfold)
  qed simp
qed simp

lemma visit_roots_complete:
  assumes "\<And>ns. set (ord ns) = set ns"
    and "\<And>n refs. map_of es n = Some refs \<Longrightarrow> set refs \<subseteq> dom (map_of es)"
    and "\<And>n m. (n, m) \<in> fragment_graph es \<Longrightarrow> r m < r n"
    and "\<And>n. n \<in> set ns \<Longrightarrow> r n \<le> MAX_DEPTH"
  shows "set ns \<subseteq> dom (map_of es) \<Longrightarrow> \<exists>d'. fold_res (visit_root ord es) ns d = Inr d'"
  using assms(4)
proof (induction ns arbitrary: d)
  case (Cons n ns)
  have "r n < levels 0" using Cons.prems(2) [of n] by (simp add: levels_def)
  then have "\<exists>a1 d1. visit ord es (levels 0) n ([], d) = Inr (a1, d1) \<and> set a1 = set []"
    using Cons.prems(1) by (intro visit_complete [where r = r] assms(1-3)) simp_all
  then obtain a1 d1 where "visit ord es (levels 0) n ([], d) = Inr (a1, d1)" by blast
  then show ?case using Cons by (auto simp: visit_root_def)
qed simp

text \<open>
  Validation rejects nothing else: a document whose references are all defined and whose
  fragment graph has no chain longer than the 32-level limit passes, whatever the iteration order.
\<close>

theorem validate_fragments_complete:
  assumes "\<And>ns. set (ord ns) = set ns"
    and "set (all_refs d) \<subseteq> dom (map_of (fragments d))"
    and "\<And>n m. (n, m) \<in> fragment_graph (fragment_edges d) \<Longrightarrow> r m < r n"
    and "\<And>n. n \<in> set (keys (fragments d)) \<Longrightarrow> r n \<le> MAX_DEPTH"
  shows "validate_fragments ord d = Inr ()"
proof -
  have dom: "dom (map_of (fragment_edges d)) = dom (map_of (fragments d))"
    by (auto simp: map_of_fragment_edges)
  have refs: "set refs \<subseteq> dom (map_of (fragment_edges d))" if "map_of (fragment_edges d) n = Some refs" for n refs
    using fragment_edges_refs [OF that] assms(2) dom by simp
  have keys: "keys (fragment_edges d) = keys (fragments d)" by (auto simp: fragment_edges_def case_prod_unfold)
  have "\<exists>seen. fold_res (visit_root ord (fragment_edges d)) (keys (fragment_edges d)) [] = Inr seen"
  proof (rule visit_roots_complete [where r = r])
    show "set (keys (fragment_edges d)) \<subseteq> dom (map_of (fragment_edges d))"
      by (simp add: dom_map_of_conv_image_fst)
  qed (use assms refs keys in auto)
  then obtain seen where "fold_res (visit_root ord (fragment_edges d)) (keys (fragment_edges d)) [] = Inr seen" by blast
  then show ?thesis
    using assms(2) by (auto simp: validate_fragments_def list_ex_iff)
qed

section \<open>Admitted reads use only the known directives\<close>

text \<open>The selections an execution of the roots can reach, through fields and fragments.\<close>

inductive reaches :: "(string, Fragment) alist \<Rightarrow> Selection list \<Rightarrow> Selection \<Rightarrow> bool"
  for fr :: "(string, Fragment) alist" and roots :: "Selection list" where
  root: "s \<in> set roots \<Longrightarrow> reaches fr roots s"
| in_field: "reaches fr roots (Field n alias m ds sels) \<Longrightarrow> s \<in> set sels \<Longrightarrow> reaches fr roots s"
| in_inline: "reaches fr roots (Inline on ds sels) \<Longrightarrow> s \<in> set sels \<Longrightarrow> reaches fr roots s"
| in_fragment: "reaches fr roots (Spread n ds) \<Longrightarrow> map_of fr n = Some f \<Longrightarrow>
    s \<in> set (fragment_selections f) \<Longrightarrow> reaches fr roots s"

fun plain_selection :: "(string, Fragment) alist \<Rightarrow> Selection \<Rightarrow> bool" where
  "plain_selection fr (Field n alias m ds sels) = supported ds"
| "plain_selection fr (Inline on ds sels) = supported ds"
| "plain_selection fr (Spread n ds) =
     (supported ds \<and> opt_any (\<lambda>f. fragment_directives f = []) (map_of fr n))"

text \<open>
  What a successful walk has covered: a set of selections with supported directives that is closed
  under children and under the fragments it refers to, those visited before the walk excepted.
\<close>

fun step_ok :: "(string, Fragment) alist \<Rightarrow> string set \<Rightarrow> Selection set \<Rightarrow> Selection \<Rightarrow> bool" where
  "step_ok fr visited S (Field n alias m ds sels) = (supported ds \<and> set sels \<subseteq> S)"
| "step_ok fr visited S (Inline on ds sels) = (supported ds \<and> set sels \<subseteq> S)"
| "step_ok fr visited S (Spread n ds) = (supported ds \<and> (n \<in> visited \<or>
     opt_any (\<lambda>f. fragment_directives f = [] \<and> set (fragment_selections f) \<subseteq> S) (map_of fr n)))"

definition covered :: "(string, Fragment) alist \<Rightarrow> string set \<Rightarrow> Selection set \<Rightarrow> bool" where
  "covered fr visited S \<longleftrightarrow> (\<forall>s \<in> S. step_ok fr visited S s)"

lemma step_ok_mono: "step_ok fr visited S s \<Longrightarrow> S \<subseteq> T \<Longrightarrow> step_ok fr visited T s"
  by (cases s) (auto simp: opt_any_iff)

lemma covered_insert: "covered fr visited S \<Longrightarrow> step_ok fr visited S s \<Longrightarrow> covered fr visited (insert s S)"
  by (auto simp: covered_def intro: step_ok_mono)

lemma covered_unvisit:
  assumes "covered fr (insert n visited) S" and "map_of fr n = Some f"
    and "fragment_directives f = []" and "set (fragment_selections f) \<subseteq> S"
  shows "covered fr visited S"
proof -
  have "step_ok fr visited S s" if "step_ok fr (insert n visited) S s" for s
    using that assms(2-4) by (cases s) (auto simp: opt_any_iff)
  then show ?thesis using assms(1) by (simp add: covered_def)
qed

lemma directive_walk_covered:
  "directive_walk fr visited pending = Some True \<Longrightarrow>
     \<exists>S. set pending \<subseteq> S \<and> covered fr (set visited) S"
proof (induction fr visited pending rule: directive_walk.induct)
  case (1 fr visited)
  then show ?case by (auto simp: covered_def)
next
  case (2 fr visited n al m ds sels pending)
  then obtain S where "set sels \<union> set pending \<subseteq> S" "covered fr (set visited) S" "supported ds"
    by (auto split: if_splits)
  then have "covered fr (set visited) (insert (Field n al m ds sels) S)" by (simp add: covered_insert)
  then show ?case using \<open>set sels \<union> set pending \<subseteq> S\<close>
    by (intro exI [of _ "insert (Field n al m ds sels) S"]) auto
next
  case (3 fr visited ty ds sels pending)
  then obtain S where "set sels \<union> set pending \<subseteq> S" "covered fr (set visited) S" "supported ds"
    by (auto split: if_splits)
  then have "covered fr (set visited) (insert (Inline ty ds sels) S)" by (simp add: covered_insert)
  then show ?case using \<open>set sels \<union> set pending \<subseteq> S\<close>
    by (intro exI [of _ "insert (Inline ty ds sels) S"]) auto
next
  case (4 fr visited n ds pending)
  have "\<exists>S. set pending \<subseteq> S \<and> covered fr (set visited) S \<and> step_ok fr (set visited) S (Spread n ds)"
  proof (cases "n \<in> set visited")
    case True
    with 4 show ?thesis by (auto split: if_splits)
  next
    case False
    with 4 obtain f S where f: "map_of fr n = Some f" "fragment_directives f = []" "supported ds"
        and S: "set (fragment_selections f) \<union> set pending \<subseteq> S" "covered fr (insert n (set visited)) S"
      by (auto split: if_splits option.splits)
    from covered_unvisit [OF S(2) f(1,2)] S(1) f show ?thesis by auto
  qed
  then obtain S where "set pending \<subseteq> S" "covered fr (set visited) (insert (Spread n ds) S)"
    using covered_insert by blast
  then show ?case by (intro exI [of _ "insert (Spread n ds) S"]) auto
qed

lemma covered_reaches:
  assumes "reaches fr roots s" and "set roots \<subseteq> S" and "covered fr {} S"
  shows "s \<in> S"
  using assms by (induction rule: reaches.induct) (fastforce simp: covered_def opt_any_iff)+

lemma covered_plain: "covered fr {} S \<Longrightarrow> s \<in> S \<Longrightarrow> plain_selection fr s"
  by (cases s) (fastforce simp: covered_def opt_any_iff)+

lemma reaches_trans: "reaches fr sels s \<Longrightarrow> (\<And>t. t \<in> set sels \<Longrightarrow> reaches fr roots t) \<Longrightarrow> reaches fr roots s"
  by (induction rule: reaches.induct) (blast intro: reaches.intros)+

text \<open>Every worklist of the walk is reachable from the one before it.\<close>

lemma reaches_pending:
  "reaches fr pending s \<Longrightarrow> reaches fr (x # pending) s"
  "reaches fr (rev sels @ pending) s \<Longrightarrow> reaches fr (Field n al m ds sels # pending) s"
  "reaches fr (rev sels @ pending) s \<Longrightarrow> reaches fr (Inline ty ds sels # pending) s"
  "map_of fr k = Some f \<Longrightarrow> reaches fr (rev (fragment_selections f) @ pending) s \<Longrightarrow>
     reaches fr (Spread k ds # pending) s"
  by (erule reaches_trans; use reaches.in_field [OF reaches.root [of "Field n al m ds sels"]]
      reaches.in_inline [OF reaches.root [of "Inline ty ds sels"]]
      reaches.in_fragment [OF reaches.root [of "Spread k ds"]] in \<open>auto intro: reaches.root\<close>)+

lemma reaches_head: "reaches fr (x # pending) x"
  by (rule reaches.root) simp

lemma directive_walk_complete:
  "(\<And>s. reaches fr pending s \<Longrightarrow> plain_selection fr s) \<Longrightarrow> directive_walk fr visited pending = Some True"
proof (induction fr visited pending rule: directive_walk.induct)
  case (2 fr visited n al m ds sels pending)
  then show ?case using 2(2) [OF reaches_head] by (simp add: reaches_pending)
next
  case (3 fr visited ty ds sels pending)
  then show ?case using 3(2) [OF reaches_head] by (simp add: reaches_pending)
next
  case (4 fr visited n ds pending)
  from 4(3) [OF reaches_head] obtain f where "supported ds" "map_of fr n = Some f" "fragment_directives f = []"
    by (auto simp: opt_any_iff)
  then show ?case using 4 by (simp add: reaches_pending)
qed simp

lemma directive_walk_no_panic:
  "(\<And>n ds. reaches fr pending (Spread n ds) \<Longrightarrow> n \<in> dom (map_of fr)) \<Longrightarrow> directive_walk fr visited pending \<noteq> None"
proof (induction fr visited pending rule: directive_walk.induct)
  case (2 fr visited n al m ds sels pending)
  have "k \<in> dom (map_of fr)" if "reaches fr (rev sels @ pending) (Spread k es)" for k es
    by (rule 2(2) [OF reaches_pending(2) [OF that]])
  then show ?case using 2(1) by auto
next
  case (3 fr visited ty ds sels pending)
  have "k \<in> dom (map_of fr)" if "reaches fr (rev sels @ pending) (Spread k es)" for k es
    by (rule 3(2) [OF reaches_pending(3) [OF that]])
  then show ?case using 3(1) by auto
next
  case (4 fr visited n ds pending)
  from 4(3) [OF reaches_head] obtain f where f: "map_of fr n = Some f" by auto
  then have "directive_walk fr (n # visited) (rev (fragment_selections f) @ pending) \<noteq> None"
    if "supported ds" "n \<notin> set visited" "fragment_directives f = []"
    using that 4(2,3) reaches_pending(4) by blast
  moreover have "directive_walk fr visited pending \<noteq> None" if "supported ds" "n \<in> set visited"
    using that 4(1,3) reaches_pending(1) by blast
  ultimately show ?case using f by (auto split: if_splits)
qed simp

lemma directive_walk_iff:
  "directive_walk fr [] pending = Some True \<longleftrightarrow> (\<forall>s. reaches fr pending s \<longrightarrow> plain_selection fr s)"
proof
  assume "directive_walk fr [] pending = Some True"
  from directive_walk_covered [OF this] obtain S where "set pending \<subseteq> S" "covered fr {} S" by auto
  then show "\<forall>s. reaches fr pending s \<longrightarrow> plain_selection fr s"
    using covered_reaches covered_plain by blast
qed (blast intro: directive_walk_complete)

lemma reaches_cong: "set xs = set ys \<Longrightarrow> reaches fr xs s = reaches fr ys s"
  by (metis reaches.root reaches_trans)

text \<open>
  C21. A GraphQL request is let through as a read exactly when its body parses, the operation it selects
  is a query without directives on the operation or its variables, and every selection that executing
  it can reach, through fields, inline fragments and fragment spreads, carries only \<open>@skip\<close> and \<open>@include\<close>
  with one \<open>if\<close> argument, the fragments it spreads carrying none.
\<close>

theorem inspect_read_only_iff:
  "inspect_read_only from_str ord body content_type max_body = Some True \<longleftrightarrow>
     (\<exists>p. parse_request_with_limit from_str ord body content_type max_body = Inr p \<and>
        (let op = operations (document p) ! selected p in
           op_kind op = ''query'' \<and> op_directives op = []
           \<and> (\<exists>vs. op_variables op = vs \<and> list_all (\<lambda>v. var_directives v = []) vs)
           \<and> {s. reaches (fragments (document p)) (op_selections op) s}
             \<subseteq> {s. plain_selection (fragments (document p)) s}))"
proof -
  have "reaches fr (rev sels) s = reaches fr sels s" for fr sels s
    by (rule reaches_cong) simp
  then show ?thesis
    by (auto simp: inspect_read_only_def query_directives_supported_def directive_walk_iff Let_def
        list_all_iff list_ex_iff subset_iff split: sum.splits option.splits if_splits)
qed

section \<open>Admission never panics\<close>

lemma collect_children: "s \<in> set sels \<Longrightarrow> set (collect s) \<subseteq> set (concat (map collect sels))"
  by auto

lemma reaches_collected:
  assumes "reaches (fragments d) roots s" and "\<And>s. s \<in> set roots \<Longrightarrow> set (collect s) \<subseteq> set (all_refs d)"
  shows "set (collect s) \<subseteq> set (all_refs d)"
  using assms
proof (induction rule: reaches.induct)
  case (in_fragment n ds f s)
  have "set (collect s) \<subseteq> set (collect_all (fragment_selections f))"
    using in_fragment.hyps(3) by (auto simp: collect_all_def)
  moreover have "map_of (fragment_edges d) n = Some (collect_all (fragment_selections f))"
    using in_fragment.hyps(2) by (simp add: map_of_fragment_edges)
  ultimately show ?case using fragment_edges_refs by blast
qed auto

lemma position_from_bound: "position_from q i xs = Some j \<Longrightarrow> i \<le> j \<and> j < i + length xs \<and> q (xs ! (j - i))"
  by (induction xs arbitrary: i) (force split: if_splits simp: nth_Cons')+

lemma select_operation_bound:
  assumes "select_operation ops requested = Inr i"
  shows "i < length ops \<and> opt_all (\<lambda>n. op_name (ops ! i) = Some n) requested"
  using assms by (auto simp: select_operation_def split: option.splits if_splits dest!: position_from_bound)

lemma parse_request_selects:
  assumes "parse_request_with_limit from_str ord body content_type max_body = Inr p"
  shows "selected p < length (operations (document p))"
    and "validate_fragments ord (document p) = Inr ()"
  using assms by (auto simp: parse_request_with_limit_def bind_res_Inr_iff dest!: select_operation_bound split: if_splits)

lemma validated_refs:
  "validate_fragments ord d = Inr () \<Longrightarrow> set (all_refs d) \<subseteq> dom (map_of (fragments d))"
  by (auto simp: validate_fragments_def list_ex_iff split: if_splits)

lemma visit_no_panic:
  assumes ord: "\<And>ns. set (ord ns) = set ns"
    and closed: "\<And>n refs. map_of es n = Some refs \<Longrightarrow> set refs \<subseteq> dom (map_of es)"
  shows "n \<in> dom (map_of es) \<Longrightarrow> visit ord es k n (a, d) \<noteq> Inl None"
proof (induction k arbitrary: n a d)
  case (Suc k)
  have "fold_res (\<lambda>child s. visit ord es k child s) cs s \<noteq> Inl None" if "set cs \<subseteq> dom (map_of es)" for cs s
    using that
  proof (induction cs arbitrary: s)
    case (Cons c cs)
    then show ?case using Suc.IH [of c "fst s" "snd s"] by (cases "visit ord es k c s") auto
  qed simp
  then have "fold_res (\<lambda>child s. visit ord es k child s) (ord refs) s \<noteq> Inl None"
    if "map_of es n = Some refs" for refs s
    using closed [OF that] ord by blast
  then show ?case using Suc.prems
    by (auto split: option.splits simp: bind_res_Inl_iff)
qed simp

lemma validate_fragments_no_panic:
  assumes ord: "\<And>ns. set (ord ns) = set ns"
  shows "validate_fragments ord d \<noteq> Inl None"
proof (cases "set (all_refs d) \<subseteq> dom (map_of (fragments d))")
  case True
  let ?es = "fragment_edges d"
  have "set refs \<subseteq> dom (map_of ?es)" if "map_of ?es n = Some refs" for n refs
    using fragment_edges_refs [OF that] True by (auto simp: map_of_fragment_edges)
  then have "visit_root ord ?es n s \<noteq> Inl None" if "n \<in> dom (map_of ?es)" for n s
    using visit_no_panic [of ord, OF ord _ that]
    by (auto simp: visit_root_def bind_res_Inl_iff)
  then have "fold_res (visit_root ord ?es) ns s \<noteq> Inl None" if "set ns \<subseteq> dom (map_of ?es)" for ns s
    using that by (induction ns arbitrary: s) (auto simp: bind_res_Inl_iff)
  then show ?thesis
    by (auto simp: validate_fragments_def bind_res_Inl_iff dom_map_of_conv_image_fst)
qed (auto simp: validate_fragments_def list_ex_iff)

text \<open>
  The admission of reads is total: \<open>inspect_with_limit\<close> decides every body, whatever the iteration
  order of its hash sets. Indexing the operations, the fragment edges and the fragments by a spread's
  name never panics.
\<close>

theorem inspect_read_only_no_panic:
  assumes "\<And>ns. set (ord ns) = set ns"
  shows "inspect_read_only from_str ord body content_type max_body \<noteq> None"
proof (cases "parse_request_with_limit from_str ord body content_type max_body")
  case (Inl e)
  have "parse_request_with_limit from_str ord body content_type max_body \<noteq> Inl None"
    using validate_fragments_no_panic [OF assms]
    by (auto simp: parse_request_with_limit_def bind_res_Inl_iff)
  then show ?thesis using Inl by (cases e) (auto simp: inspect_read_only_def)
next
  case (Inr p)
  let ?op = "operations (document p) ! selected p"
  have op: "?op \<in> set (operations (document p))" using parse_request_selects [OF Inr] by simp
  have refs: "set (all_refs (document p)) \<subseteq> dom (map_of (fragments (document p)))"
    using parse_request_selects [OF Inr] validated_refs by blast
  have "n \<in> dom (map_of (fragments (document p)))"
    if "reaches (fragments (document p)) (rev (op_selections ?op)) (Spread n ds)" for n ds
  proof -
    have "set (collect s) \<subseteq> set (all_refs (document p))" if "s \<in> set (rev (op_selections ?op))" for s
      using that op by (auto simp: all_refs_def collect_all_def)
    from reaches_collected [OF that this] refs show ?thesis by auto
  qed
  then have "query_directives_supported p \<noteq> None"
    unfolding query_directives_supported_def Let_def using directive_walk_no_panic by auto
  then show ?thesis using Inr by (auto simp: inspect_read_only_def)
qed

section \<open>Sample documents\<close>

definition sample_fragment :: Fragment where
  "sample_fragment = \<lparr>fragment_name = ''F'', on_type = ''User'', fragment_directives = [],
     fragment_selections = [Field ''login'' None [] [] []]\<rparr>"

definition sample_query :: Document where
  "sample_query =
     \<lparr>operations = [\<lparr>op_kind = ''query'', op_name = None, op_variables = [], op_directives = [],
        op_selections = [Field ''viewer'' None [] [] [Spread ''F'' []]]\<rparr>],
      fragments = [(''F'', sample_fragment)]\<rparr>"

lemma sample_validates: "validate_fragments (\<lambda>ns. ns) sample_query = Inr ()"
  by code_simp

lemma sample_edges: "fragment_edges sample_query = [(''F'', [])]" "all_refs sample_query = [''F'']"
  "fragments sample_query = [(''F'', sample_fragment)]"
  by code_simp+

theorem validate_fragments_sound_witness:
  "set (all_refs sample_query) \<subseteq> dom (map_of (fragments sample_query))
     \<and> acyclic (fragment_graph (fragment_edges sample_query))"
  by (rule validate_fragments_sound [of "\<lambda>ns. ns", OF refl sample_validates])

theorem validate_fragments_complete_witness: "validate_fragments rev sample_query = Inr ()"
  by (rule validate_fragments_complete [where r = "\<lambda>_. 0"])
    (auto simp: sample_edges fragment_graph_def split: if_splits)

theorem inspect_read_only_no_panic_witness:
  "inspect_read_only (\<lambda>_. None) rev ''{viewer{...F}} fragment F on User{login}'' ''application/graphql'' 1000 \<noteq> None"
  by (rule inspect_read_only_no_panic) simp

end
