(* ===== verification/Graphql_Comment.thy ===== *)
theory Graphql_Comment
  imports Graphql_Check
begin

text \<open>
  The printers of \<open>graphql.rs\<close> and the comment plan: the closed shape of an \<open>addComment\<close> mutation that a
  granted permission may execute, and the request the broker builds from it. \<open>to_json\<close> is
  \<open>serde_json::to_string\<close> of a string.
\<close>

section \<open>Printing\<close>

fun format_value :: "(string \<Rightarrow> string) \<Rightarrow> Value \<Rightarrow> string"
  and format_values :: "(string \<Rightarrow> string) \<Rightarrow> Value list \<Rightarrow> string list"
  and format_members :: "(string \<Rightarrow> string) \<Rightarrow> (string \<times> Value) list \<Rightarrow> string list" where
  "format_value to_json (Variable n) = ''$'' @ n"
| "format_value to_json (Reference i) = ''<value '' @ i @ ''>''"
| "format_value to_json (MissingVariable n) = ''<missing $'' @ n @ ''>''"
| "format_value to_json (VInt v) = v"
| "format_value to_json (VFloat v) = v"
| "format_value to_json (VEnum v) = v"
| "format_value to_json (VString v) = to_json v"
| "format_value to_json (VBoolean b) = (if b then ''true'' else ''false'')"
| "format_value to_json VNull = ''null''"
| "format_value to_json (VList vs) = ''['' @ join '', '' (format_values to_json vs) @ '']''"
| "format_value to_json (VObject m) = ''{'' @ join '', '' (format_members to_json m) @ ''}''"
| "format_values to_json [] = []"
| "format_values to_json (v # vs) = format_value to_json v # format_values to_json vs"
| "format_members to_json [] = []"
| "format_members to_json ((k, v) # m) = (k @ '': '' @ format_value to_json v) # format_members to_json m"

definition format_args :: "(string \<Rightarrow> string) \<Rightarrow> args \<Rightarrow> string" where
  "format_args to_json m = join '', '' (format_members to_json m)"

definition directives_text :: "(string \<Rightarrow> string) \<Rightarrow> Directive list \<Rightarrow> string" where
  "directives_text to_json ds = concat (map (\<lambda>d. '' @'' @ directive_name d @
     (if directive_arguments d = [] then '''' else ''('' @ format_args to_json (directive_arguments d) @ '')'')) ds)"

definition indent :: "nat \<Rightarrow> string" where
  "indent depth = concat (replicate depth ''  '')"

fun selection_text :: "(string \<Rightarrow> string) \<Rightarrow> nat \<Rightarrow> Selection \<Rightarrow> string" where
  "selection_text to_json depth (Field n alias m ds sels) =
     (case alias of None \<Rightarrow> '''' | Some a \<Rightarrow> a @ '': '') @ n
     @ (if m = [] then '''' else ''('' @ format_args to_json m @ '')'')
     @ directives_text to_json ds
     @ (if sels = [] then ''''
        else '' {'' @ [ch 10]
          @ concat (map (\<lambda>s. indent (Suc (Suc depth)) @ selection_text to_json (Suc depth) s @ [ch 10]) sels)
          @ indent (Suc depth) @ ''}'')"
| "selection_text to_json depth (Spread n ds) = ''...'' @ n @ directives_text to_json ds"
| "selection_text to_json depth (Inline on ds sels) =
     ''...'' @ (case on of None \<Rightarrow> '''' | Some ty \<Rightarrow> '' on '' @ ty) @ directives_text to_json ds
     @ '' {'' @ [ch 10]
     @ concat (map (\<lambda>s. indent (Suc (Suc depth)) @ selection_text to_json (Suc depth) s @ [ch 10]) sels)
     @ indent (Suc depth) @ ''}''"

definition selections_text :: "(string \<Rightarrow> string) \<Rightarrow> nat \<Rightarrow> Selection list \<Rightarrow> string" where
  "selections_text to_json depth sels =
     ''{'' @ [ch 10]
     @ concat (map (\<lambda>s. indent (Suc depth) @ selection_text to_json depth s @ [ch 10]) sels)
     @ indent depth @ ''}''"

definition operation_text :: "(string \<Rightarrow> string) \<Rightarrow> Operation \<Rightarrow> string" where
  "operation_text to_json op =
     op_kind op @ (case op_name op of None \<Rightarrow> '''' | Some n \<Rightarrow> '' '' @ n)
     @ (if op_variables op = [] then ''''
        else ''('' @ join '', '' (map (\<lambda>v. ''$'' @ var_name v @ '': '' @ type_name v
               @ (case var_default v of None \<Rightarrow> '''' | Some d \<Rightarrow> '' = '' @ format_value to_json d)
               @ directives_text to_json (var_directives v)) (op_variables op)) @ '')'')
     @ directives_text to_json (op_directives op) @ '' '' @ selections_text to_json 0 (op_selections op)"

definition fragment_text :: "(string \<Rightarrow> string) \<Rightarrow> Fragment \<Rightarrow> string" where
  "fragment_text to_json f =
     [ch 10, ch 10] @ ''fragment '' @ fragment_name f @ '' on '' @ on_type f
     @ directives_text to_json (fragment_directives f) @ '' '' @ selections_text to_json 0 (fragment_selections f)"

definition format_document :: "(string \<Rightarrow> string) \<Rightarrow> Document \<Rightarrow> string" where
  "format_document to_json d =
     join [ch 10, ch 10] (map (operation_text to_json) (operations d))
     @ concat (map (\<lambda>(_, f). fragment_text to_json f) (fragments d))"

section \<open>The comment plan\<close>

record CommentPlan =
  subject_id :: string
  comment_body :: string
  client_mutation_id :: "Json option"
  response :: string

text \<open>
  \<open>resolve\<close>: a variable reference is replaced by the variable's value when its declared type is the
  expected one, and is recorded as used; any other value stands for itself.
\<close>

definition resolve :: "VariableDef list \<Rightarrow> (string, Value) alist \<Rightarrow> string \<Rightarrow> Value \<Rightarrow> string list
    \<Rightarrow> (Value \<times> string list) option" where
  "resolve definitions vars expected v used =
     (case v of
        Variable n \<Rightarrow>
          (case find (\<lambda>d. var_name d = n) definitions of
             None \<Rightarrow> None
           | Some d \<Rightarrow>
               if trim_end_matches (\<lambda>c. c = CHR ''!'') (type_name d) \<noteq> expected then None
               else map_option (\<lambda>w. (w, List.insert n used)) (map_of vars n))
      | _ \<Rightarrow> Some (v, used))"

definition response_next :: "string \<Rightarrow> string \<Rightarrow> string option option" where
  "response_next parent n =
     (if parent = ''payload'' \<and> n = ''subject'' then Some (Some ''subject'')
      else if parent = ''payload'' \<and> n = ''commentEdge'' then Some (Some ''edge'')
      else if parent = ''edge'' \<and> n = ''node'' then Some (Some ''comment'')
      else if n = ''__typename'' \<or> parent = ''payload'' \<and> n = ''clientMutationId''
        \<or> parent = ''subject'' \<and> n = ''id''
        \<or> parent = ''comment'' \<and> n \<in> set [''id'', ''url'', ''body''] then Some None
      else None)"

fun response_field :: "Selection \<Rightarrow> string \<Rightarrow> string set \<Rightarrow> bool"
  and response_ok :: "Selection list \<Rightarrow> string \<Rightarrow> string set \<Rightarrow> bool" where
  "response_field (Spread n ds) parent names = False"
| "response_field (Inline on ds sels) parent names = False"
| "response_field (Field n alias m ds sels) parent names =
     (m = [] \<and> ds = [] \<and> (case alias of None \<Rightarrow> n | Some a \<Rightarrow> a) \<notin> names
      \<and> (case response_next parent n of
           None \<Rightarrow> False
         | Some None \<Rightarrow> sels = []
         | Some (Some next) \<Rightarrow> sels \<noteq> [] \<and> response_ok sels next {}))"
| "response_ok [] parent names = True"
| "response_ok (s # ss) parent names =
     (response_field s parent names
      \<and> response_ok ss parent
          (case s of Field n alias _ _ _ \<Rightarrow> insert (case alias of None \<Rightarrow> n | Some a \<Rightarrow> a) names | _ \<Rightarrow> names))"

text \<open>The local function \<open>response\<close>: a closed, non-empty response shape.\<close>

definition response_shape :: "Selection list \<Rightarrow> string \<Rightarrow> bool" where
  "response_shape sels parent \<longleftrightarrow> sels \<noteq> [] \<and> response_ok sels parent {}"

definition as_string :: "Value \<Rightarrow> string option" where
  "as_string v = (case v of VString s \<Rightarrow> Some s | _ \<Rightarrow> None)"

definition mutation_id :: "VariableDef list \<Rightarrow> (string, Value) alist \<Rightarrow> args \<Rightarrow> string list
    \<Rightarrow> (Json option \<times> string list) option" where
  "mutation_id definitions vars input used =
     (case map_of input ''clientMutationId'' of
        None \<Rightarrow> Some (None, used)
      | Some v \<Rightarrow> Option.bind (resolve definitions vars ''String'' v used) (\<lambda>(w, used').
          case w of
            VString t \<Rightarrow> Some (Some (JString t), used')
          | VNull \<Rightarrow> Some (Some JNull, used')
          | _ \<Rightarrow> None))"

definition comment_input :: "VariableDef list \<Rightarrow> (string, Value) alist \<Rightarrow> args
    \<Rightarrow> (string \<times> string \<times> Json option \<times> string list) option" where
  "comment_input definitions vars actuals =
     Option.bind (map_of actuals ''input'') (\<lambda>a.
     Option.bind (resolve definitions vars ''AddCommentInput'' a []) (\<lambda>(v, used).
     case v of
       VObject input \<Rightarrow>
         if list_ex (\<lambda>k. k \<notin> set [''subjectId'', ''body'', ''clientMutationId'']) (keys input) then None
         else
           Option.bind (map_of input ''subjectId'') (\<lambda>s.
           Option.bind (resolve definitions vars ''ID'' s used) (\<lambda>(sv, used1).
           Option.bind (as_string sv) (\<lambda>subject.
           Option.bind (map_of input ''body'') (\<lambda>b.
           Option.bind (resolve definitions vars ''String'' b used1) (\<lambda>(bv, used2).
           Option.bind (as_string bv) (\<lambda>body.
             if subject = [] \<or> 512 < length subject \<or> str_trim body = [] then None
             else Option.bind (mutation_id definitions vars input used2) (\<lambda>(cm, used3).
               Some (subject, body, cm, used3))))))))
     | _ \<Rightarrow> None))"

definition comment_plan :: "(string \<Rightarrow> string) \<Rightarrow> Document \<Rightarrow> Operation \<Rightarrow> (string, Value) alist
    \<Rightarrow> (string, Json) alist \<Rightarrow> CommentPlan option" where
  "comment_plan to_json d op vars supplied_json =
     (if length (operations d) \<noteq> 1 \<or> fragments d \<noteq> [] \<or> op_kind op \<noteq> ''mutation'' \<or> op_directives op \<noteq> []
         \<or> list_ex (\<lambda>v. var_directives v \<noteq> []) (op_variables op) \<or> length (op_selections op) \<noteq> 1
         \<or> list_ex (\<lambda>k. \<not> contains_key k vars) (keys supplied_json)
      then None
      else case hd (op_selections op) of
        Field n alias actuals ds sels \<Rightarrow>
          if n \<noteq> ''addComment'' \<or> ds \<noteq> [] \<or> length actuals \<noteq> 1 then None
          else Option.bind (comment_input (op_variables op) vars actuals) (\<lambda>(subject, body, cm, used).
            if length used \<noteq> length (op_variables op) then None
            else if \<not> response_shape sels ''payload'' then None
            else Some \<lparr>subject_id = subject, comment_body = body, client_mutation_id = cm,
                   response = (case alias of None \<Rightarrow> '''' | Some a \<Rightarrow> a @ '': '') @ ''addComment(input: $input) ''
                     @ selections_text to_json 0 sels\<rparr>)
      | _ \<Rightarrow> None)"

text \<open>The request the broker sends under a grant, before \<open>serde_json::to_vec\<close>.\<close>

definition request_body :: "CommentPlan \<Rightarrow> Json" where
  "request_body p =
     JObject [(''operationName'', JString ''FriendzoneComment''),
              (''query'', JString (''mutation FriendzoneComment($input: AddCommentInput!) { '' @ response p @ '' }'')),
              (''variables'', JObject [(''input'', JObject (btree_insert ''subjectId'' (JString (subject_id p))
                 (btree_insert ''body'' (JString (comment_body p))
                   (case client_mutation_id p of None \<Rightarrow> [] | Some v \<Rightarrow> [(''clientMutationId'', v)]))))])]"

section \<open>What a plan executes\<close>

text \<open>The value an argument has at execution: a variable's value, or the literal itself.\<close>

definition value_of :: "(string, Value) alist \<Rightarrow> Value \<Rightarrow> Value option" where
  "value_of vars v = (case v of Variable n \<Rightarrow> map_of vars n | _ \<Rightarrow> Some v)"

lemma resolve_value_of: "resolve defs vars expected v used = Some (w, used') \<Longrightarrow> value_of vars v = Some w"
  by (auto simp: resolve_def value_of_def split: Value.splits option.splits if_splits)

lemma as_string_Some [simp]: "as_string v = Some s \<longleftrightarrow> v = VString s"
  by (auto simp: as_string_def split: Value.splits)

text \<open>The mutation that a plan stands for, as a predicate on the selected operation.\<close>

definition input_is :: "(string, Value) alist \<Rightarrow> args \<Rightarrow> CommentPlan \<Rightarrow> bool" where
  "input_is vars input p \<longleftrightarrow>
     set (keys input) \<subseteq> set [''subjectId'', ''body'', ''clientMutationId'']
     \<and> Option.bind (map_of input ''subjectId'') (value_of vars) = Some (VString (subject_id p))
     \<and> Option.bind (map_of input ''body'') (value_of vars) = Some (VString (comment_body p))
     \<and> subject_id p \<noteq> [] \<and> length (subject_id p) \<le> 512 \<and> str_trim (comment_body p) \<noteq> []"

definition comment_operation :: "Operation \<Rightarrow> (string, Value) alist \<Rightarrow> CommentPlan \<Rightarrow> bool" where
  "comment_operation op vars p \<longleftrightarrow>
     op_kind op = ''mutation'' \<and> op_directives op = []
     \<and> (\<exists>alias arg input sels.
          op_selections op = [Field ''addComment'' alias [(''input'', arg)] [] sels]
          \<and> value_of vars arg = Some (VObject input) \<and> input_is vars input p
          \<and> response_shape sels ''payload'')"

lemma singleton_alist: "length m = 1 \<Longrightarrow> map_of m k = Some v \<Longrightarrow> m = [(k, v)]"
  by (cases m) (auto split: if_splits)

lemma comment_input_is:
  assumes "comment_input defs vars actuals = Some (subject, body, cm, used)"
  shows "\<exists>arg input. map_of actuals ''input'' = Some arg \<and> value_of vars arg = Some (VObject input)
    \<and> input_is vars input \<lparr>subject_id = subject, comment_body = body, client_mutation_id = cm, response = t\<rparr>"
proof -
  obtain arg v u where arg: "map_of actuals ''input'' = Some arg" "resolve defs vars ''AddCommentInput'' arg [] = Some (v, u)"
    using assms by (auto simp: comment_input_def bind_eq_Some_conv)
  then obtain input where input: "v = VObject input"
    using assms by (cases v) (auto simp: comment_input_def)
  obtain s sv u1 b bv u2 where
      "\<not> list_ex (\<lambda>k. k \<notin> set [''subjectId'', ''body'', ''clientMutationId'']) (keys input)"
      "map_of input ''subjectId'' = Some s" "resolve defs vars ''ID'' s u = Some (sv, u1)" "sv = VString subject"
      "map_of input ''body'' = Some b" "resolve defs vars ''String'' b u1 = Some (bv, u2)" "bv = VString body"
      "\<not> (subject = [] \<or> 512 < length subject \<or> str_trim body = [])"
    using assms arg input
    by (auto simp: comment_input_def bind_eq_Some_conv simp del: set_simps split: if_splits)
  then have "input_is vars input \<lparr>subject_id = subject, comment_body = body, client_mutation_id = cm, response = t\<rparr>"
    by (auto simp: input_is_def list_ex_iff simp del: set_simps dest: resolve_value_of)
  then show ?thesis using arg input resolve_value_of by blast
qed

text \<open>
  C34. A comment plan is derived only from a document that is one \<open>addComment\<close> mutation: no other
  operation, no fragment, no directive, no variable without a declaration; its one argument is the
  input object with the three known members; the plan's subject and body are the values the request
  itself would send, the subject of 1 to 512 bytes and the body not blank; and the response shape is
  the closed one.
\<close>

theorem comment_plan_sound:
  assumes "comment_plan to_json d op vars given = Some p"
  shows "length (operations d) = 1 \<and> fragments d = [] \<and> set (keys given) \<subseteq> dom (map_of vars)
     \<and> comment_operation op vars p"
proof -
  have guards: "length (operations d) = 1" "fragments d = []" "op_kind op = ''mutation''" "op_directives op = []"
      "length (op_selections op) = 1" "set (keys given) \<subseteq> dom (map_of vars)"
    using assms by (auto simp: comment_plan_def list_ex_iff split: if_splits)
  obtain n al actuals ds sels where sel: "hd (op_selections op) = Field n al actuals ds sels"
    using assms by (cases "hd (op_selections op)") (auto simp: comment_plan_def split: if_splits)
  obtain subject body cm used where field: "n = ''addComment''" "ds = []" "length actuals = 1"
      and inp: "comment_input (op_variables op) vars actuals = Some (subject, body, cm, used)"
      and shape: "response_shape sels ''payload''"
      and p: "\<exists>t. p = \<lparr>subject_id = subject, comment_body = body, client_mutation_id = cm, response = t\<rparr>"
    using assms sel by (auto simp: comment_plan_def bind_eq_Some_conv split: if_splits)
  have "op_selections op = [Field n al actuals ds sels]"
    using guards(5) sel by (cases "op_selections op") auto
  moreover obtain arg input where "map_of actuals ''input'' = Some arg" "value_of vars arg = Some (VObject input)"
      "input_is vars input p"
    using comment_input_is [OF inp] p by blast
  ultimately show ?thesis
    using guards field shape singleton_alist [OF field(3)] unfolding comment_operation_def by blast
qed

definition sample_mutation :: Operation where
  "sample_mutation =
     \<lparr>op_kind = ''mutation'', op_name = None, op_variables = [], op_directives = [],
      op_selections = [Field ''addComment'' None
        [(''input'', VObject [(''body'', VString ''Hi''), (''subjectId'', VString ''I_1'')])] []
        [Field ''clientMutationId'' None [] [] []]]\<rparr>"

definition sample_plan :: CommentPlan where
  "sample_plan = \<lparr>subject_id = ''I_1'', comment_body = ''Hi'', client_mutation_id = None,
     response = ''addComment(input: $input) {'' @ [ch 10] @ ''  clientMutationId'' @ [ch 10] @ ''}''\<rparr>"

lemma sample_planned:
  "comment_plan (\<lambda>s. s) \<lparr>operations = [sample_mutation], fragments = []\<rparr> sample_mutation [] [] = Some sample_plan"
  by code_simp

theorem comment_plan_sound_witness: "comment_operation sample_mutation [] sample_plan"
  using comment_plan_sound [OF sample_planned] by blast

end
