(* ===== verification/Secret_Store.thy ===== *)
theory Secret_Store
  imports Settings Storage
begin

text \<open>
  \<open>secret_store.rs\<close>: the vault that keeps secret snapshots as chunks in the entries of an operating-system
  credential store, the plaintext file store, and the migration from one to the other.

  Every call of the credential store can fail, and a failed write or delete may or may not have taken
  effect. A run takes a schedule of faults, one for each call in order; an exhausted schedule means no
  more faults. Since a failing call ends the operation, the states after a failure are also the states
  a crash between two calls can leave. Parameters stand for other packages: the JSON codecs of
  \<open>serde_json\<close>, \<open>base64\<close>, SHA-256 in hexadecimal and the text of a UUID.
\<close>

section \<open>Input and output under faults\<close>

datatype fault = Fine | Fail | Fail_applied

record vault =
  cells :: "string \<Rightarrow> string option"
  legacy_file :: "string option"
  marker_file :: "string option"
  fresh_uuid :: uuid

type_synonym 'a io = "fault list \<Rightarrow> vault \<Rightarrow> (string + 'a) \<times> fault list \<times> vault"

definition ret :: "'a \<Rightarrow> 'a io" where
  "ret x fs v = (Inr x, fs, v)"

definition throw :: "string \<Rightarrow> 'a io" where
  "throw e fs v = (Inl e, fs, v)"

definition bind_io :: "'a io \<Rightarrow> ('a \<Rightarrow> 'b io) \<Rightarrow> 'b io" where
  "bind_io c k fs v = (case c fs v of (Inl e, fs', v') \<Rightarrow> (Inl e, fs', v') | (Inr x, fs', v') \<Rightarrow> k x fs' v')"

definition next_fault :: "fault list \<Rightarrow> fault \<times> fault list" where
  "next_fault fs = (case fs of [] \<Rightarrow> (Fine, []) | f # fs' \<Rightarrow> (f, fs'))"

text \<open>The trait \<open>Entries\<close>, with its native implementation: a missing entry reads as \<open>None\<close>, deleting it succeeds.\<close>

definition cell_read :: "string \<Rightarrow> string option io" where
  "cell_read k fs v =
     (case next_fault fs of (f, fs') \<Rightarrow> if f = Fine then (Inr (cells v k), fs', v) else (Inl ''OS secret store'', fs', v))"

definition cell_set :: "string \<Rightarrow> string option \<Rightarrow> unit io" where
  "cell_set k b fs v =
     (case next_fault fs of (f, fs') \<Rightarrow>
        let v' = v\<lparr>cells := (cells v)(k := b)\<rparr> in
        (case f of Fine \<Rightarrow> (Inr (), fs', v') | Fail \<Rightarrow> (Inl ''OS secret store'', fs', v)
         | Fail_applied \<Rightarrow> (Inl ''OS secret store'', fs', v')))"

definition cell_write :: "string \<Rightarrow> string \<Rightarrow> unit io" where
  "cell_write k b = cell_set k (Some b)"

definition cell_delete :: "string \<Rightarrow> unit io" where
  "cell_delete k = cell_set k None"

definition new_uuid :: "uuid io" where
  "new_uuid fs v = (Inr (fresh_uuid v), fs, v\<lparr>fresh_uuid := fresh_uuid v + 1\<rparr>)"

text \<open>\<open>if action.is_err() { warn }\<close>\<close>

definition ignore_error :: "'a io \<Rightarrow> unit io" where
  "ignore_error c fs v = (case c fs v of (_, fs', v') \<Rightarrow> (Inr (), fs', v'))"

section \<open>Manifest\<close>

definition CHUNK_BYTES :: nat where "CHUNK_BYTES = 2000"
definition MAX_CHUNKS :: nat where "MAX_CHUNKS = 4096"

record Generation =
  gen_id :: uuid
  gen_chunks :: nat
  gen_digest :: string

record Manifest =
  m_version :: nat
  m_current :: "Generation option"
  m_pending :: "Generation option"
  m_retired :: "Generation option"

record vault_code =
  to_manifest :: "Manifest \<Rightarrow> string"
  parse_manifest :: "string \<Rightarrow> Manifest option"
  to_values :: "secret_values \<Rightarrow> string"
  parse_values :: "string \<Rightarrow> secret_values option"
  encode64 :: "string \<Rightarrow> string"
  decode64 :: "string \<Rightarrow> string option"
  digest_hex :: "string \<Rightarrow> string"
  uuid_text :: "uuid \<Rightarrow> string"

definition generation_key :: "vault_code \<Rightarrow> Generation \<Rightarrow> nat \<Rightarrow> string" where
  "generation_key vc g i = uuid_text vc (gen_id g) @ ''-'' @ show_base 10 i"

definition generation_keys :: "vault_code \<Rightarrow> Generation \<Rightarrow> string list" where
  "generation_keys vc g = map (generation_key vc g) [0..<gen_chunks g]"

definition EMPTY_MANIFEST :: Manifest where
  "EMPTY_MANIFEST = \<lparr>m_version = 1, m_current = None, m_pending = None, m_retired = None\<rparr>"

definition opt_list :: "'a option \<Rightarrow> 'a list" where
  "opt_list x = (case x of None \<Rightarrow> [] | Some a \<Rightarrow> [a])"

definition generations :: "Manifest \<Rightarrow> Generation list" where
  "generations m = opt_list (m_current m) @ opt_list (m_pending m) @ opt_list (m_retired m)"

definition generation_valid :: "Generation \<Rightarrow> bool" where
  "generation_valid g \<longleftrightarrow>
     \<not> (gen_chunks g = 0 \<or> MAX_CHUNKS < gen_chunks g \<or> length (gen_digest g) \<noteq> 64
        \<or> \<not> list_all is_ascii_hexdigit (gen_digest g))"

definition read_manifest :: "vault_code \<Rightarrow> Manifest io" where
  "read_manifest vc =
     bind_io (cell_read ''manifest'') (\<lambda>b.
       case b of
         None \<Rightarrow> ret EMPTY_MANIFEST
       | Some bytes \<Rightarrow>
           (case parse_manifest vc bytes of
              None \<Rightarrow> throw ''invalid OS secret manifest''
            | Some m \<Rightarrow>
                if m_version m \<noteq> 1 then throw ''unsupported OS secret manifest version''
                else if \<not> list_all generation_valid (generations m) then throw ''invalid OS secret generation''
                else if \<not> distinct (map gen_id (generations m))
                then throw ''OS secret manifest aliases active and discarded generations''
                else ret m))"

definition publish :: "vault_code \<Rightarrow> Manifest \<Rightarrow> unit io" where
  "publish vc m = cell_write ''manifest'' (to_manifest vc m)"

section \<open>The vault\<close>

fun read_all :: "string list \<Rightarrow> string \<Rightarrow> string io" where
  "read_all [] acc = ret acc"
| "read_all (k # ks) acc =
     bind_io (cell_read k) (\<lambda>b.
       case b of
         None \<Rightarrow> throw ''OS secret snapshot is incomplete''
       | Some chunk \<Rightarrow>
           if CHUNK_BYTES < length chunk then throw ''invalid OS secret chunk size'' else read_all ks (acc @ chunk))"

definition generation_bytes :: "vault_code \<Rightarrow> Generation \<Rightarrow> string io" where
  "generation_bytes vc g =
     bind_io (read_all (generation_keys vc g) []) (\<lambda>encoded.
       case decode64 vc encoded of
         None \<Rightarrow> throw ''invalid OS secret snapshot encoding''
       | Some bytes \<Rightarrow>
           if digest_hex vc bytes \<noteq> gen_digest g then throw ''OS secret snapshot digest mismatch'' else ret bytes)"

fun delete_all :: "string list \<Rightarrow> unit io" where
  "delete_all [] = ret ()"
| "delete_all (k # ks) = bind_io (cell_delete k) (\<lambda>_. delete_all ks)"

definition cleanup :: "vault_code \<Rightarrow> Manifest \<Rightarrow> Manifest io" where
  "cleanup vc m =
     bind_io (delete_all (concat (map (generation_keys vc) (opt_list (m_pending m) @ opt_list (m_retired m))))) (\<lambda>_.
       if m_pending m \<noteq> None \<or> m_retired m \<noteq> None
       then let m' = m\<lparr>m_pending := None, m_retired := None\<rparr> in bind_io (publish vc m') (\<lambda>_. ret m')
       else ret m)"

definition load_current :: "vault_code \<Rightarrow> Manifest \<Rightarrow> secret_values option io" where
  "load_current vc m =
     (case m_current m of
        None \<Rightarrow> ret None
      | Some g \<Rightarrow> bind_io (generation_bytes vc g) (\<lambda>bytes.
          case parse_values vc bytes of
            None \<Rightarrow> throw ''invalid OS credential snapshot''
          | Some vals \<Rightarrow> ret (Some vals)))"

definition vault_load :: "vault_code \<Rightarrow> secret_values option io" where
  "vault_load vc =
     bind_io (read_manifest vc) (\<lambda>m.
     bind_io (load_current vc m) (\<lambda>vals.
     bind_io (cleanup vc m) (\<lambda>_. ret vals)))"

text \<open>\<open>slice.chunks(n)\<close>\<close>

function chunk_list :: "nat \<Rightarrow> 'a list \<Rightarrow> 'a list list" where
  "chunk_list n xs = (if xs = [] \<or> n = 0 then [] else take n xs # chunk_list n (drop n xs))"
  by auto
termination by (relation "measure (length \<circ> snd)") auto

definition div_ceil :: "nat \<Rightarrow> nat \<Rightarrow> nat" where
  "div_ceil a b = a div b + (if a mod b = 0 then 0 else 1)"

fun write_all :: "(string \<times> string) list \<Rightarrow> unit io" where
  "write_all [] = ret ()"
| "write_all ((k, b) # rest) = bind_io (cell_write k b) (\<lambda>_. write_all rest)"

definition commit_generation :: "Generation \<Rightarrow> Manifest \<Rightarrow> Manifest" where
  "commit_generation g m = m\<lparr>m_retired := m_current m, m_current := Some g, m_pending := None\<rparr>"

text \<open>The part of \<open>save\<close> after the cleanup of the manifest.\<close>

definition save_snapshot :: "vault_code \<Rightarrow> secret_values \<Rightarrow> Manifest \<Rightarrow> unit io" where
  "save_snapshot vc vals m =
     (let bytes = to_values vc vals; encoded = encode64 vc bytes;
          chunks = div_ceil (length encoded) CHUNK_BYTES
      in if MAX_CHUNKS < chunks then throw ''credential snapshot exceeds OS store safety limit''
         else bind_io new_uuid (\<lambda>i.
           let g = \<lparr>gen_id = i, gen_chunks = chunks, gen_digest = digest_hex vc bytes\<rparr>;
               m1 = m\<lparr>m_pending := Some g\<rparr>
           in bind_io (publish vc m1) (\<lambda>_.
              bind_io (write_all (zip (map (generation_key vc g) [0..<length (chunk_list CHUNK_BYTES encoded)])
                                   (chunk_list CHUNK_BYTES encoded))) (\<lambda>_.
              bind_io (generation_bytes vc g) (\<lambda>written.
                if written \<noteq> bytes then throw ''OS credential write verification failed''
                else let m2 = commit_generation g m1
                     in bind_io (publish vc m2) (\<lambda>_. ignore_error (cleanup vc m2)))))))"

definition vault_save :: "vault_code \<Rightarrow> secret_values \<Rightarrow> unit io" where
  "vault_save vc vals =
     bind_io (read_manifest vc) (\<lambda>m0. bind_io (cleanup vc m0) (save_snapshot vc vals))"

section \<open>The plaintext file and the migration\<close>

text \<open>The fault of a call as one of the file system: a failed rename leaves the destination.\<close>

definition file_fault :: "fault \<Rightarrow> io_fault" where
  "file_fault f = (if f = Fine then No_fault else Fault_rename)"

definition write_legacy :: "string \<Rightarrow> unit io" where
  "write_legacy b fs v =
     (case next_fault fs of (f, fs') \<Rightarrow>
        case atomic_write (file_fault f) b (legacy_file v) of (r, x) \<Rightarrow> (r, fs', v\<lparr>legacy_file := x\<rparr>))"

definition write_marker :: "string \<Rightarrow> unit io" where
  "write_marker b fs v =
     (case next_fault fs of (f, fs') \<Rightarrow>
        case atomic_write (file_fault f) b (marker_file v) of (r, x) \<Rightarrow> (r, fs', v\<lparr>marker_file := x\<rparr>))"

definition read_file :: "(vault \<Rightarrow> string option) \<Rightarrow> string option io" where
  "read_file sel fs v =
     (case next_fault fs of (f, fs') \<Rightarrow> if f = Fine then (Inr (sel v), fs', v) else (Inl ''read'', fs', v))"

definition remove_legacy :: "unit io" where
  "remove_legacy fs v =
     (case next_fault fs of (f, fs') \<Rightarrow>
        if f = Fine then (Inr (), fs', v\<lparr>legacy_file := None\<rparr>)
        else (Inl ''credentials copied to OS store, but secrets.json could not be removed; startup stopped'', fs', v))"

definition read_legacy :: "vault_code \<Rightarrow> secret_values option io" where
  "read_legacy vc =
     bind_io (read_file legacy_file) (\<lambda>b.
       case b of
         None \<Rightarrow> ret None
       | Some bytes \<Rightarrow>
           (case parse_values vc bytes of
              None \<Rightarrow> throw ''invalid legacy secrets.json; repair it before migration''
            | Some vals \<Rightarrow> ret (Some vals)))"

definition file_save :: "vault_code \<Rightarrow> secret_values \<Rightarrow> unit io" where
  "file_save vc vals = write_legacy (to_values vc vals)"

definition MARKER :: string where
  "MARKER = CHR ''{'' # ch 34 # ''version'' @ ch 34 # '':1}'' @ [ch 10]"

definition marker_exists :: "bool io" where
  "marker_exists fs v = (Inr (marker_file v \<noteq> None), fs, v)"

definition ensure_marker :: "unit io" where
  "ensure_marker = bind_io marker_exists (\<lambda>exists. if exists then ret () else write_marker MARKER)"

definition check_marker :: "secret_values option \<Rightarrow> unit io" where
  "check_marker saved =
     bind_io marker_exists (\<lambda>exists.
       if \<not> exists then ret ()
       else bind_io (read_file marker_file) (\<lambda>bytes.
         if bytes \<noteq> Some MARKER then throw ''invalid OS credential-store marker''
         else if saved = None then throw ''OS credentials are missing for this initialized data directory''
         else ret ()))"

definition same_values :: "secret_values \<Rightarrow> secret_values \<Rightarrow> bool" where
  "same_values a b \<longleftrightarrow> set (keys a) = set (keys b) \<and> list_all (\<lambda>k. map_of a k = map_of b k) (keys a)"

text \<open>\<open>migrate\<close> over any \<open>Persistence\<close>, its two methods given.\<close>

definition without_legacy :: "(secret_values \<Rightarrow> unit io) \<Rightarrow> secret_values option \<Rightarrow> secret_values io" where
  "without_legacy save saved =
     bind_io (case saved of Some vals \<Rightarrow> ret vals | None \<Rightarrow> bind_io (save []) (\<lambda>_. ret [])) (\<lambda>vals.
     bind_io ensure_marker (\<lambda>_. ret vals))"

definition copy_legacy :: "(secret_values \<Rightarrow> unit io) \<Rightarrow> secret_values option \<Rightarrow> secret_values \<Rightarrow> unit io" where
  "copy_legacy save saved old =
     (case saved of
        Some vals \<Rightarrow>
          if \<not> same_values vals old
          then throw ''OS credentials conflict with secrets.json; neither source was overwritten. Resolve the duplicate stores before restarting''
          else ret ()
      | None \<Rightarrow> save old)"

definition finish_migration :: "secret_values option io \<Rightarrow> secret_values \<Rightarrow> secret_values io" where
  "finish_migration load old =
     bind_io load (\<lambda>again.
       if \<not> opt_any (\<lambda>vals. same_values vals old) again
       then throw ''OS credential migration verification failed; secrets.json retained''
       else bind_io ensure_marker (\<lambda>_. bind_io remove_legacy (\<lambda>_. ret old)))"

definition migrate :: "vault_code \<Rightarrow> secret_values option io \<Rightarrow> (secret_values \<Rightarrow> unit io) \<Rightarrow> secret_values io" where
  "migrate vc load save =
     bind_io load (\<lambda>saved.
     bind_io (check_marker saved) (\<lambda>_.
     bind_io (read_legacy vc) (\<lambda>legacy.
       case legacy of
         None \<Rightarrow> without_legacy save saved
       | Some old \<Rightarrow> bind_io (copy_legacy save saved old) (\<lambda>_. finish_migration load old))))"

datatype Mode = Os | File

definition open_store :: "vault_code \<Rightarrow> Mode \<Rightarrow> secret_values io" where
  "open_store vc mode =
     bind_io marker_exists (\<lambda>exists.
       if mode = File \<and> exists then throw ''this data directory uses OS credentials; file mode cannot reopen it''
       else case mode of
           File \<Rightarrow> bind_io (read_legacy vc) (\<lambda>vals. ret (case vals of None \<Rightarrow> [] | Some x \<Rightarrow> x))
         | Os \<Rightarrow> migrate vc (vault_load vc) (vault_save vc))"


section \<open>Contracts of steps\<close>

text \<open>
  A triple over any schedule: from a vault that satisfies \<open>P\<close> the step returns a value and a vault with
  \<open>Q\<close>, or fails leaving \<open>E\<close>. Unless \<open>may\<close> is set it fails only when the schedule holds a fault.
\<close>

definition triple :: "bool \<Rightarrow> (vault \<Rightarrow> bool) \<Rightarrow> 'a io \<Rightarrow> ('a \<Rightarrow> vault \<Rightarrow> bool) \<Rightarrow> (vault \<Rightarrow> bool) \<Rightarrow> bool" where
  "triple may P c Q E \<longleftrightarrow> (\<forall>fs v r fs' v'. P v \<longrightarrow> c fs v = (r, fs', v') \<longrightarrow>
     (fs = [] \<longrightarrow> fs' = []) \<and> (case r of Inr x \<Rightarrow> Q x v' | Inl _ \<Rightarrow> (may \<or> fs \<noteq> []) \<and> E v'))"

lemma tripleI:
  assumes "\<And>fs v r fs' v'. P v \<Longrightarrow> c fs v = (r, fs', v') \<Longrightarrow>
     (fs = [] \<longrightarrow> fs' = []) \<and> (case r of Inr x \<Rightarrow> Q x v' | Inl _ \<Rightarrow> (may \<or> fs \<noteq> []) \<and> E v')"
  shows "triple may P c Q E"
  using assms by (simp add: triple_def)

lemma tripleD:
  assumes "triple may P c Q E" and "P v" and "c fs v = (r, fs', v')"
  shows "(fs = [] \<longrightarrow> fs' = []) \<and> (case r of Inr x \<Rightarrow> Q x v' | Inl _ \<Rightarrow> (may \<or> fs \<noteq> []) \<and> E v')"
  using assms by (simp add: triple_def)

lemma triple_bind:
  assumes "triple may P c R E" and "\<And>x. triple may (R x) (k x) Q E"
  shows "triple may P (bind_io c k) Q E"
proof (rule tripleI)
  fix fs v r fs' v' assume P: "P v" and b: "bind_io c k fs v = (r, fs', v')"
  obtain y fs1 v1 where c: "c fs v = (y, fs1, v1)" by (cases "c fs v")
  note first = tripleD [OF assms(1) P c]
  show "(fs = [] \<longrightarrow> fs' = []) \<and> (case r of Inr x \<Rightarrow> Q x v' | Inl _ \<Rightarrow> (may \<or> fs \<noteq> []) \<and> E v')"
  proof (cases y)
    case (Inl e)
    then show ?thesis using first b c by (auto simp: bind_io_def)
  next
    case (Inr x)
    then have R: "R x v1" and fs: "fs = [] \<longrightarrow> fs1 = []" and k: "k x fs1 v1 = (r, fs', v')"
      using first b c by (auto simp: bind_io_def)
    show ?thesis using tripleD [OF assms(2) R k] fs by (auto split: sum.splits)
  qed
qed

lemma triple_conseq:
  assumes "triple may P c Q E" and "\<And>v. P' v \<Longrightarrow> P v" and "\<And>x v. Q x v \<Longrightarrow> Q' x v" and "\<And>v. E v \<Longrightarrow> E' v"
  shows "triple may P' c Q' E'"
proof (rule tripleI)
  fix fs v r fs' v' assume "P' v" and "c fs v = (r, fs', v')"
  then have "(fs = [] \<longrightarrow> fs' = []) \<and> (case r of Inr x \<Rightarrow> Q x v' | Inl _ \<Rightarrow> (may \<or> fs \<noteq> []) \<and> E v')"
    using tripleD [OF assms(1)] assms(2) by blast
  then show "(fs = [] \<longrightarrow> fs' = []) \<and> (case r of Inr x \<Rightarrow> Q' x v' | Inl _ \<Rightarrow> (may \<or> fs \<noteq> []) \<and> E' v')"
    using assms(3,4) by (cases r) auto
qed

lemma triple_ret: "(\<And>v. P v \<Longrightarrow> Q x v) \<Longrightarrow> triple may P (ret x) Q E"
  by (simp add: triple_def ret_def)

lemma triple_unreachable: "(\<And>v. \<not> P v) \<Longrightarrow> triple may P c Q E"
  by (simp add: triple_def)

lemma triple_throw: "(\<And>v. P v \<Longrightarrow> E v) \<Longrightarrow> triple True P (throw e) Q E"
  by (simp add: triple_def throw_def)

lemma triple_read: "(\<And>v. P v \<Longrightarrow> Q (cells v k) v \<and> E v) \<Longrightarrow> triple may P (cell_read k) Q E"
  by (auto simp: triple_def cell_read_def next_fault_def split: list.splits)

lemma triple_set:
  "(\<And>v. P v \<Longrightarrow> E v \<and> Q () (v\<lparr>cells := (cells v)(k := b)\<rparr>) \<and> E (v\<lparr>cells := (cells v)(k := b)\<rparr>)) \<Longrightarrow>
     triple may P (cell_set k b) Q E"
  by (auto simp: triple_def cell_set_def next_fault_def Let_def split: list.splits fault.splits)

lemma triple_ignore: "triple True P c (\<lambda>_. Q) Q \<Longrightarrow> triple may P (ignore_error c) (\<lambda>_. Q) E"
proof (rule tripleI)
  fix fs v r fs' v' assume t: "triple True P c (\<lambda>_. Q) Q" and P: "P v" and "ignore_error c fs v = (r, fs', v')"
  then obtain y where c: "c fs v = (y, fs', v')" and r: "r = Inr ()" by (auto simp: ignore_error_def split: prod.splits)
  then show "(fs = [] \<longrightarrow> fs' = []) \<and> (case r of Inr x \<Rightarrow> Q v' | Inl _ \<Rightarrow> (may \<or> fs \<noteq> []) \<and> E v')"
    using tripleD [OF t P c] by (auto split: sum.splits)
qed

lemma triple_case: "(\<And>v. P v \<Longrightarrow> R) \<Longrightarrow> (R \<Longrightarrow> triple may P c Q E) \<Longrightarrow> triple may P c Q E"
  unfolding triple_def by blast

section \<open>What is asked of the codecs\<close>

definition codec_ok :: "vault_code \<Rightarrow> bool" where
  "codec_ok vc \<longleftrightarrow> (\<forall>m. parse_manifest vc (to_manifest vc m) = Some m)
     \<and> (\<forall>vals. parse_values vc (to_values vc vals) = Some vals)
     \<and> (\<forall>b. decode64 vc (encode64 vc b) = Some b) \<and> (\<forall>vals. encode64 vc (to_values vc vals) \<noteq> [])
     \<and> (\<forall>b. length (digest_hex vc b) = 64 \<and> list_all is_ascii_hexdigit (digest_hex vc b)) \<and> inj (uuid_text vc)"

lemma codec_okD:
  assumes "codec_ok vc"
  shows "parse_manifest vc (to_manifest vc m) = Some m" "parse_values vc (to_values vc vals) = Some vals"
    "decode64 vc (encode64 vc b) = Some b" "encode64 vc (to_values vc vals) \<noteq> []"
    "length (digest_hex vc b) = 64" "list_all is_ascii_hexdigit (digest_hex vc b)" "inj (uuid_text vc)"
  using assms by (simp_all add: codec_ok_def)

section \<open>Keys\<close>

lemma show_base_no_dash: "CHR ''-'' \<notin> set (show_base 10 n)"
proof (induction n rule: less_induct)
  case (less n)
  have no: "CHR ''-'' \<noteq> (char_of (48 + m) :: char)" if "m < 10" for m :: nat
  proof
    assume "CHR ''-'' = (char_of (48 + m) :: char)"
    from arg_cong [OF this, of byte] have "(45 :: nat) = (48 + m) mod 256" by simp
    then show False using that by simp
  qed
  show ?case
  proof (cases "n < 10")
    case True
    then show ?thesis using no [of n] by (simp add: show_base_10 [of n])
  next
    case False
    then show ?thesis using less [of "n div 10"] no [of "n mod 10"] by (simp add: show_base_10 [of n])
  qed
qed

lemma generation_key_inj:
  assumes "codec_ok vc" and "generation_key vc g i = generation_key vc h j"
  shows "gen_id g = gen_id h \<and> i = j"
proof -
  have "rev (show_base 10 i) @ CHR ''-'' # rev (uuid_text vc (gen_id g)) = rev (show_base 10 j) @ CHR ''-'' # rev (uuid_text vc (gen_id h))"
    using arg_cong [OF assms(2), of rev] by (simp add: generation_key_def)
  then have "rev (show_base 10 i) = rev (show_base 10 j) \<and> rev (uuid_text vc (gen_id g)) = rev (uuid_text vc (gen_id h))"
    by (rule delimiter_cancel) (simp_all add: show_base_no_dash)
  then show ?thesis using show_base_injective codec_okD(7) [OF assms(1)] by (auto dest: injD)
qed

lemma generation_key_manifest: "generation_key vc g i \<noteq> ''manifest''"
proof
  assume "generation_key vc g i = ''manifest''"
  then have "CHR ''-'' \<in> set ''manifest''" by (metis generation_key_def in_set_conv_decomp append_Cons append_Nil)
  then show False by simp
qed

lemma generation_keys_disjoint:
  assumes "codec_ok vc" and "gen_id g \<noteq> gen_id h"
  shows "set (generation_keys vc g) \<inter> set (generation_keys vc h) = {}"
proof -
  have "generation_key vc g i \<noteq> generation_key vc h j" for i j using generation_key_inj [OF assms(1)] assms(2) by blast
  then show ?thesis by (auto simp: generation_keys_def)
qed

lemma generation_keys_distinct: "codec_ok vc \<Longrightarrow> distinct (generation_keys vc g)"
  unfolding generation_keys_def distinct_map inj_on_def using generation_key_inj distinct_upt by blast

lemma generation_keys_manifest: "''manifest'' \<notin> set (generation_keys vc g)"
  using generation_key_manifest by (simp add: generation_keys_def image_iff) metis

section \<open>Chunks\<close>

declare chunk_list.simps [simp del]

lemma chunk_list_props:
  "0 < n \<Longrightarrow> concat (chunk_list n xs) = xs \<and> (\<forall>c \<in> set (chunk_list n xs). length c \<le> n)
     \<and> length (chunk_list n xs) = div_ceil (length xs) n"
proof (induction n xs rule: chunk_list.induct)
  case (1 n xs)
  show ?case
  proof (cases "xs = []")
    case True
    then show ?thesis by (simp add: chunk_list.simps div_ceil_def)
  next
    case False
    note IH = "1.IH" [OF _ "1.prems"]
    have "div_ceil (length xs) n = Suc (div_ceil (length xs - n) n)"
    proof (cases "n \<le> length xs")
      case True
      then show ?thesis using "1.prems" by (simp add: div_ceil_def le_div_geq le_mod_geq)
    next
      case False
      then show ?thesis using "1.prems" \<open>xs \<noteq> []\<close> by (simp add: div_ceil_def)
    qed
    then show ?thesis using IH False "1.prems" by (auto simp: chunk_list.simps [of n xs])
  qed
qed


section \<open>The invariant of the vault\<close>

text \<open>
  \<open>vault_inv vc m saved v\<close>: the manifest entry holds \<open>m\<close>; its generations are valid, distinct and were
  drawn from the supply; the current one is a complete snapshot of \<open>saved\<close>; and every entry of the
  store is the manifest or a chunk of a generation the manifest names.
\<close>

definition has_manifest :: "vault_code \<Rightarrow> Manifest \<Rightarrow> vault \<Rightarrow> bool" where
  "has_manifest vc m v \<longleftrightarrow> cells v ''manifest'' = Some (to_manifest vc m) \<or> cells v ''manifest'' = None \<and> m = EMPTY_MANIFEST"

definition manifest_ok :: "Manifest \<Rightarrow> uuid \<Rightarrow> bool" where
  "manifest_ok m u \<longleftrightarrow> m_version m = 1 \<and> list_all generation_valid (generations m)
     \<and> distinct (map gen_id (generations m)) \<and> list_all (\<lambda>g. gen_id g < u) (generations m)"

definition snapshot :: "vault_code \<Rightarrow> Generation \<Rightarrow> string \<Rightarrow> vault \<Rightarrow> bool" where
  "snapshot vc g bytes v \<longleftrightarrow> (\<exists>cs. map (cells v) (generation_keys vc g) = map Some cs
     \<and> (\<forall>c \<in> set cs. length c \<le> CHUNK_BYTES) \<and> decode64 vc (concat cs) = Some bytes \<and> gen_digest g = digest_hex vc bytes)"

definition current_is :: "vault_code \<Rightarrow> Manifest \<Rightarrow> secret_values option \<Rightarrow> vault \<Rightarrow> bool" where
  "current_is vc m saved v \<longleftrightarrow> (case m_current m of
       None \<Rightarrow> saved = None
     | Some g \<Rightarrow> (\<exists>bytes vals. snapshot vc g bytes v \<and> parse_values vc bytes = Some vals \<and> saved = Some vals))"

definition accounted :: "vault_code \<Rightarrow> Manifest \<Rightarrow> vault \<Rightarrow> bool" where
  "accounted vc m v \<longleftrightarrow> dom (cells v) \<subseteq> insert ''manifest'' (\<Union>g \<in> set (generations m). set (generation_keys vc g))"

definition vault_inv :: "vault_code \<Rightarrow> Manifest \<Rightarrow> secret_values option \<Rightarrow> vault \<Rightarrow> bool" where
  "vault_inv vc m saved v \<longleftrightarrow> has_manifest vc m v \<and> manifest_ok m (fresh_uuid v) \<and> current_is vc m saved v \<and> accounted vc m v"

lemma generations_simps:
  "generations (m\<lparr>m_pending := p, m_retired := r\<rparr>) = opt_list (m_current m) @ opt_list p @ opt_list r"
  "generations (m\<lparr>m_pending := p\<rparr>) = opt_list (m_current m) @ opt_list p @ opt_list (m_retired m)"
  "generations (commit_generation g m) = g # opt_list (m_current m)"
  by (simp_all add: generations_def commit_generation_def opt_list_def)

lemma snapshot_cong:
  "(\<And>k. k \<in> set (generation_keys vc g) \<Longrightarrow> cells v' k = cells v k) \<Longrightarrow> snapshot vc g bytes v' = snapshot vc g bytes v"
  unfolding snapshot_def by (simp cong: map_cong)

lemma current_is_cong:
  "(\<And>g k. m_current m = Some g \<Longrightarrow> k \<in> set (generation_keys vc g) \<Longrightarrow> cells v' k = cells v k) \<Longrightarrow>
     current_is vc m saved v' = current_is vc m saved v"
  by (cases "m_current m") (auto simp: current_is_def cong: snapshot_cong)

text \<open>Entries of generations that are not current may change freely.\<close>

lemma vault_inv_other:
  assumes vc: "codec_ok vc" and inv: "vault_inv vc m saved v"
    and g: "g \<in> set (opt_list (m_pending m) @ opt_list (m_retired m))" and k: "k \<in> set (generation_keys vc g)"
  shows "vault_inv vc m saved (v\<lparr>cells := (cells v)(k := b)\<rparr>)"
proof -
  let ?v = "v\<lparr>cells := (cells v)(k := b)\<rparr>"
  have man: "k \<noteq> ''manifest''" using k generation_keys_manifest by metis
  have other: "k \<notin> set (generation_keys vc h)" if "m_current m = Some h" for h
  proof -
    have "gen_id g \<noteq> gen_id h" using inv g that by (auto simp: vault_inv_def manifest_ok_def generations_def opt_list_def split: option.splits)
    then show ?thesis using generation_keys_disjoint [OF vc] k by blast
  qed
  have "current_is vc m saved ?v = current_is vc m saved v" by (rule current_is_cong) (use other in auto)
  then have "current_is vc m saved ?v" using inv by (simp add: vault_inv_def)
  moreover have "accounted vc m ?v" using inv g k by (auto simp: vault_inv_def accounted_def generations_def)
  ultimately show ?thesis using inv man by (simp add: vault_inv_def has_manifest_def)
qed

lemma vault_inv_publish:
  assumes "vault_inv vc m saved v" and "manifest_ok m' (fresh_uuid v)"
    and "current_is vc m' saved' v" and "accounted vc m' v"
  shows "vault_inv vc m' saved' (v\<lparr>cells := (cells v)(''manifest'' \<mapsto> to_manifest vc m')\<rparr>)"
proof -
  let ?v = "v\<lparr>cells := (cells v)(''manifest'' \<mapsto> to_manifest vc m')\<rparr>"
  have "cells ?v k = cells v k" if "k \<in> set (generation_keys vc g)" for g k
    using that generation_keys_manifest by auto
  then have "current_is vc m' saved' ?v" using assms(3) current_is_cong [of m' vc ?v v saved'] by blast
  moreover have "accounted vc m' ?v" using assms(4) by (auto simp: accounted_def)
  ultimately show ?thesis using assms(2) by (simp add: vault_inv_def has_manifest_def)
qed

section \<open>Contracts of the operations\<close>

lemma triple_manifest:
  assumes "codec_ok vc"
  shows "triple may (vault_inv vc m saved) (read_manifest vc) (\<lambda>x v. x = m \<and> vault_inv vc m saved v) (vault_inv vc m saved)"
  unfolding read_manifest_def
proof (rule triple_bind [where R = "\<lambda>b v. vault_inv vc m saved v \<and> b = cells v ''manifest''"])
  show "triple may (vault_inv vc m saved) (cell_read ''manifest'') (\<lambda>b v. vault_inv vc m saved v \<and> b = cells v ''manifest'') (vault_inv vc m saved)"
    by (rule triple_read) simp
  fix b
  let ?P = "\<lambda>v. vault_inv vc m saved v \<and> b = cells v ''manifest''"
  let ?Q = "\<lambda>x v. x = m \<and> vault_inv vc m saved v"
  have cases: "b = None \<and> m = EMPTY_MANIFEST \<or> b = Some (to_manifest vc m) \<and> manifest_ok m (fresh_uuid v)" if "?P v" for v
    using that by (auto simp: vault_inv_def has_manifest_def)
  show "triple may ?P (case b of None \<Rightarrow> ret EMPTY_MANIFEST | Some bytes \<Rightarrow>
       (case parse_manifest vc bytes of None \<Rightarrow> throw ''invalid OS secret manifest''
        | Some m \<Rightarrow> if m_version m \<noteq> 1 then throw ''unsupported OS secret manifest version''
            else if \<not> list_all generation_valid (generations m) then throw ''invalid OS secret generation''
            else if \<not> distinct (map gen_id (generations m)) then throw ''OS secret manifest aliases active and discarded generations''
            else ret m)) ?Q (vault_inv vc m saved)"
  proof (rule triple_case [where R = "b = None \<and> m = EMPTY_MANIFEST \<or> b = Some (to_manifest vc m) \<and> (\<exists>u. manifest_ok m u)"])
    show "b = None \<and> m = EMPTY_MANIFEST \<or> b = Some (to_manifest vc m) \<and> (\<exists>u. manifest_ok m u)" if "?P v" for v
      using cases [OF that] by blast
  qed (auto simp: codec_okD(1) [OF assms] manifest_ok_def intro!: triple_ret)
qed

lemma triple_read_all:
  assumes "\<And>v. P v \<Longrightarrow> map (cells v) ks = map Some cs" and "\<forall>c \<in> set cs. length c \<le> CHUNK_BYTES"
  shows "triple may P (read_all ks acc) (\<lambda>x v. x = acc @ concat cs \<and> P v) P"
  using assms
proof (induction ks arbitrary: cs acc)
  case Nil
  show ?case
  proof (rule triple_case [where R = "cs = []"])
    show "cs = []" if "P v" for v using Nil.prems(1) [OF that] by simp
  qed (simp add: triple_ret)
next
  case (Cons k ks)
  show ?case
  proof (rule triple_case [where R = "\<exists>c cs'. cs = c # cs'"])
    show "\<exists>c cs'. cs = c # cs'" if "P v" for v using Cons.prems(1) [OF that] by (cases cs) simp_all
  next
    assume "\<exists>c cs'. cs = c # cs'"
    then obtain c cs' where cs: "cs = c # cs'" by blast
    have k: "cells v k = Some c" "map (cells v) ks = map Some cs'" if "P v" for v using Cons.prems(1) [OF that] cs by simp_all
    have rest: "triple may P (read_all ks (acc @ c)) (\<lambda>x v. x = acc @ concat cs \<and> P v) P"
      using Cons.IH [of cs' "acc @ c"] k(2) Cons.prems(2) cs by simp
    show ?thesis unfolding read_all.simps
    proof (rule triple_bind [where R = "\<lambda>b v. b = Some c \<and> P v"])
      show "triple may P (cell_read k) (\<lambda>b v. b = Some c \<and> P v) P" by (rule triple_read) (simp add: k)
      show "triple may (\<lambda>v. b = Some c \<and> P v) (case b of None \<Rightarrow> throw ''OS secret snapshot is incomplete''
          | Some chunk \<Rightarrow> if CHUNK_BYTES < length chunk then throw ''invalid OS secret chunk size'' else read_all ks (acc @ chunk))
          (\<lambda>x v. x = acc @ concat cs \<and> P v) P" for b
        by (rule triple_case [where R = "b = Some c"]) (use rest Cons.prems(2) cs in \<open>auto simp: triple_def\<close>)
    qed
  qed
qed


lemma triple_bytes:
  assumes "\<And>v. P v \<Longrightarrow> snapshot vc g bytes v"
  shows "triple may P (generation_bytes vc g) (\<lambda>x v. x = bytes \<and> P v) P"
proof -
  have fixed: "triple may (\<lambda>v. P v \<and> map (cells v) (generation_keys vc g) = map Some cs) (generation_bytes vc g) (\<lambda>x v. x = bytes \<and> P v) P"
    if cs: "\<forall>c \<in> set cs. length c \<le> CHUNK_BYTES" "decode64 vc (concat cs) = Some bytes" "gen_digest g = digest_hex vc bytes" for cs
    unfolding generation_bytes_def
  proof (rule triple_bind [where R = "\<lambda>x v. x = concat cs \<and> P v"])
    let ?P = "\<lambda>v. P v \<and> map (cells v) (generation_keys vc g) = map Some cs"
    have "triple may ?P (read_all (generation_keys vc g) []) (\<lambda>x v. x = [] @ concat cs \<and> ?P v) ?P"
      by (rule triple_read_all) (use cs in auto)
    then show "triple may ?P (read_all (generation_keys vc g) []) (\<lambda>x v. x = concat cs \<and> P v) P"
      by (rule triple_conseq) auto
    show "triple may (\<lambda>v. x = concat cs \<and> P v) (case decode64 vc x of None \<Rightarrow> throw ''invalid OS secret snapshot encoding''
        | Some bytes \<Rightarrow> if digest_hex vc bytes \<noteq> gen_digest g then throw ''OS secret snapshot digest mismatch'' else ret bytes)
        (\<lambda>x v. x = bytes \<and> P v) P" for x
      by (rule triple_case [where R = "x = concat cs"]) (use cs in \<open>auto intro: triple_ret\<close>)
  qed
  show ?thesis
  proof (rule tripleI)
    fix fs v r fs' v' assume P: "P v" and run: "generation_bytes vc g fs v = (r, fs', v')"
    obtain cs where cs: "map (cells v) (generation_keys vc g) = map Some cs" "\<forall>c \<in> set cs. length c \<le> CHUNK_BYTES"
        "decode64 vc (concat cs) = Some bytes" "gen_digest g = digest_hex vc bytes"
      using assms [OF P] by (auto simp: snapshot_def)
    show "(fs = [] \<longrightarrow> fs' = []) \<and> (case r of Inr x \<Rightarrow> x = bytes \<and> P v' | Inl _ \<Rightarrow> (may \<or> fs \<noteq> []) \<and> P v')"
      by (rule tripleD [OF fixed [OF cs(2-4)] _ run]) (simp add: P cs(1))
  qed
qed

lemma triple_delete_all:
  assumes "\<And>v k. P v \<Longrightarrow> k \<in> set ks \<Longrightarrow> P (v\<lparr>cells := (cells v)(k := None)\<rparr>)"
  shows "triple may (\<lambda>v. P v \<and> (\<forall>k \<in> S. cells v k = None)) (delete_all ks)
    (\<lambda>_ v. P v \<and> (\<forall>k \<in> S \<union> set ks. cells v k = None)) P"
  using assms
proof (induction ks arbitrary: S)
  case Nil
  then show ?case by (simp add: triple_ret)
next
  case (Cons k ks)
  show ?case unfolding delete_all.simps
  proof (rule triple_bind [where R = "\<lambda>_ v. P v \<and> (\<forall>k \<in> insert k S. cells v k = None)"])
    show "triple may (\<lambda>v. P v \<and> (\<forall>k \<in> S. cells v k = None)) (cell_delete k) (\<lambda>_ v. P v \<and> (\<forall>k \<in> insert k S. cells v k = None)) P"
      unfolding cell_delete_def
    proof (rule triple_set)
      fix v assume v: "P v \<and> (\<forall>k \<in> S. cells v k = None)"
      then have "P v" ..
      then have "P (v\<lparr>cells := (cells v)(k := None)\<rparr>)" by (rule Cons.prems) simp
      then show "P v \<and> (P (v\<lparr>cells := (cells v)(k := None)\<rparr>)
            \<and> (\<forall>j \<in> insert k S. cells (v\<lparr>cells := (cells v)(k := None)\<rparr>) j = None))
          \<and> P (v\<lparr>cells := (cells v)(k := None)\<rparr>)" using v by simp
    qed
    show "triple may (\<lambda>v. P v \<and> (\<forall>k \<in> insert k S. cells v k = None)) (delete_all ks)
        (\<lambda>_ v. P v \<and> (\<forall>k \<in> S \<union> set (k # ks). cells v k = None)) P" for x :: unit
      using Cons.IH [of "insert k S"] Cons.prems by simp
  qed
qed

lemma triple_cleanup:
  assumes vc: "codec_ok vc"
  shows "triple may (vault_inv vc m saved) (cleanup vc m)
    (\<lambda>x v. x = m\<lparr>m_pending := None, m_retired := None\<rparr> \<and> vault_inv vc x saved v)
    (\<lambda>v. vault_inv vc m saved v \<or> vault_inv vc (m\<lparr>m_pending := None, m_retired := None\<rparr>) saved v)"
  unfolding cleanup_def
proof (rule triple_bind)
  let ?m = "m\<lparr>m_pending := None, m_retired := None\<rparr>"
  let ?ks = "concat (map (generation_keys vc) (opt_list (m_pending m) @ opt_list (m_retired m)))"
  let ?E = "\<lambda>v. vault_inv vc m saved v \<or> vault_inv vc ?m saved v"
  have "vault_inv vc m saved (v\<lparr>cells := (cells v)(k := None)\<rparr>)" if inv: "vault_inv vc m saved v" and k: "k \<in> set ?ks" for v k
  proof -
    obtain g where g: "g \<in> set (opt_list (m_pending m) @ opt_list (m_retired m))" "k \<in> set (generation_keys vc g)"
      using k by auto
    show ?thesis by (rule vault_inv_other [OF vc inv g])
  qed
  then have "triple may (\<lambda>v. vault_inv vc m saved v \<and> (\<forall>k \<in> {}. cells v k = None)) (delete_all ?ks)
      (\<lambda>_ v. vault_inv vc m saved v \<and> (\<forall>k \<in> {} \<union> set ?ks. cells v k = None)) (vault_inv vc m saved)"
    by (rule triple_delete_all)
  then show "triple may (vault_inv vc m saved) (delete_all ?ks) (\<lambda>_ v. vault_inv vc m saved v \<and> (\<forall>k \<in> set ?ks. cells v k = None)) ?E"
    by (rule triple_conseq) simp_all
  let ?P = "\<lambda>v. vault_inv vc m saved v \<and> (\<forall>k \<in> set ?ks. cells v k = None)"
  have new: "vault_inv vc ?m saved (v\<lparr>cells := (cells v)(''manifest'' \<mapsto> to_manifest vc ?m)\<rparr>)" if P: "?P v" for v
  proof (rule vault_inv_publish)
    show "vault_inv vc m saved v" using P by simp
    then show "manifest_ok ?m (fresh_uuid v)"
      by (auto simp: vault_inv_def manifest_ok_def generations_simps generations_def opt_list_def split: option.splits)
    show "current_is vc ?m saved v" using P by (simp add: vault_inv_def current_is_def)
    have "dom (cells v) \<inter> set ?ks = {}" using P by (meson IntE domIff equals0I)
    moreover have "dom (cells v) \<subseteq> insert ''manifest'' (\<Union>g \<in> set (generations m). set (generation_keys vc g))"
      using P by (simp add: vault_inv_def accounted_def)
    ultimately have "dom (cells v) \<subseteq> insert ''manifest'' (\<Union>g \<in> set (generations m). set (generation_keys vc g)) - set ?ks"
      by blast
    then show "accounted vc ?m v" by (auto simp: accounted_def generations_simps generations_def opt_list_def split: option.splits)
  qed
  show "triple may ?P (if m_pending m \<noteq> None \<or> m_retired m \<noteq> None
      then let m' = ?m in bind_io (publish vc m') (\<lambda>_. ret m') else ret m)
      (\<lambda>x v. x = ?m \<and> vault_inv vc x saved v) ?E" for u :: unit
  proof (cases "m_pending m \<noteq> None \<or> m_retired m \<noteq> None")
    case True
    have "triple may ?P (bind_io (publish vc ?m) (\<lambda>_. ret ?m)) (\<lambda>x v. x = ?m \<and> vault_inv vc x saved v) ?E"
      by (rule triple_bind [where R = "\<lambda>_. vault_inv vc ?m saved"])
        (auto simp: publish_def cell_write_def intro!: triple_set triple_ret new)
    then show ?thesis using True by (simp add: Let_def)
  next
    case False
    then have "?m = m" by simp
    then show ?thesis using False by (auto intro!: triple_ret)
  qed
qed

lemma triple_load:
  assumes vc: "codec_ok vc"
  shows "triple may (vault_inv vc m saved) (vault_load vc)
    (\<lambda>x v. x = saved \<and> vault_inv vc (m\<lparr>m_pending := None, m_retired := None\<rparr>) saved v)
    (\<lambda>v. \<exists>m. vault_inv vc m saved v)"
  unfolding vault_load_def
proof (rule triple_bind [where R = "\<lambda>x v. x = m \<and> vault_inv vc m saved v"])
  show "triple may (vault_inv vc m saved) (read_manifest vc) (\<lambda>x v. x = m \<and> vault_inv vc m saved v) (\<lambda>v. \<exists>m. vault_inv vc m saved v)"
    by (rule triple_conseq [OF triple_manifest [OF vc]]) auto
next
  fix x
  have cur: "triple may (vault_inv vc m saved) (load_current vc m) (\<lambda>y v. y = saved \<and> vault_inv vc m saved v) (vault_inv vc m saved)"
  proof (cases "m_current m")
    case None
    then show ?thesis by (auto simp: load_current_def vault_inv_def current_is_def intro: triple_ret)
  next
    case (Some g)
    show ?thesis
    proof (rule triple_case [where R = "\<exists>vals. saved = Some vals"])
      show "\<exists>vals. saved = Some vals" if "vault_inv vc m saved v" for v using that Some by (auto simp: vault_inv_def current_is_def)
    next
      assume "\<exists>vals. saved = Some vals"
      then obtain vals where vals: "saved = Some vals" by blast
      show ?thesis
      proof (rule tripleI)
        fix fs v r fs' v' assume inv: "vault_inv vc m saved v" and run: "load_current vc m fs v = (r, fs', v')"
        obtain bytes where b: "snapshot vc g bytes v" "parse_values vc bytes = Some vals"
          using inv Some vals by (auto simp: vault_inv_def current_is_def)
        let ?P = "\<lambda>v. vault_inv vc m saved v \<and> snapshot vc g bytes v"
        have "triple may ?P (load_current vc m) (\<lambda>y v. y = saved \<and> vault_inv vc m saved v) (vault_inv vc m saved)"
          unfolding load_current_def Some option.case
        proof (rule triple_bind [where R = "\<lambda>y v. y = bytes \<and> ?P v"])
          show "triple may ?P (generation_bytes vc g) (\<lambda>y v. y = bytes \<and> ?P v) (vault_inv vc m saved)"
            by (rule triple_conseq [OF triple_bytes [of ?P]]) simp_all
          show "triple may (\<lambda>v. y = bytes \<and> ?P v) (case parse_values vc y of None \<Rightarrow> throw ''invalid OS credential snapshot''
              | Some vals \<Rightarrow> ret (Some vals)) (\<lambda>y v. y = saved \<and> vault_inv vc m saved v) (vault_inv vc m saved)" for y
            by (rule triple_case [where R = "y = bytes"]) (use b(2) vals in \<open>auto intro: triple_ret\<close>)
        qed
        from tripleD [OF this _ run] show "(fs = [] \<longrightarrow> fs' = []) \<and> (case r of Inr y \<Rightarrow> y = saved \<and> vault_inv vc m saved v'
            | Inl _ \<Rightarrow> (may \<or> fs \<noteq> []) \<and> vault_inv vc m saved v')" using inv b(1) by simp
      qed
    qed
  qed
  have rest: "triple may (\<lambda>v. y = saved \<and> vault_inv vc m saved v) (bind_io (cleanup vc m) (\<lambda>_. ret y))
      (\<lambda>x v. x = saved \<and> vault_inv vc (m\<lparr>m_pending := None, m_retired := None\<rparr>) saved v) (\<lambda>v. \<exists>m. vault_inv vc m saved v)" for y
  proof (rule triple_bind [where R = "\<lambda>_ v. y = saved \<and> vault_inv vc (m\<lparr>m_pending := None, m_retired := None\<rparr>) saved v"])
    show "triple may (\<lambda>v. y = saved \<and> vault_inv vc m saved v) (cleanup vc m)
        (\<lambda>_ v. y = saved \<and> vault_inv vc (m\<lparr>m_pending := None, m_retired := None\<rparr>) saved v) (\<lambda>v. \<exists>m. vault_inv vc m saved v)"
      by (rule triple_case [where R = "y = saved"], simp,
          rule triple_conseq [OF triple_cleanup [OF vc]]) auto
  qed (rule triple_ret; simp)
  show "triple may (\<lambda>v. x = m \<and> vault_inv vc m saved v) (bind_io (load_current vc x) (\<lambda>vals. bind_io (cleanup vc x) (\<lambda>_. ret vals)))
      (\<lambda>x v. x = saved \<and> vault_inv vc (m\<lparr>m_pending := None, m_retired := None\<rparr>) saved v) (\<lambda>v. \<exists>m. vault_inv vc m saved v)"
  proof (rule triple_case [where R = "x = m"])
    assume "x = m"
    have "triple may (vault_inv vc m saved) (load_current vc m) (\<lambda>y v. y = saved \<and> vault_inv vc m saved v) (\<lambda>v. \<exists>m. vault_inv vc m saved v)"
      by (rule triple_conseq [OF cur]) auto
    from triple_bind [OF this rest] show ?thesis unfolding \<open>x = m\<close> by simp
  qed simp
qed


section \<open>Saving\<close>

lemma triple_uuid: "(\<And>v. P v \<Longrightarrow> Q (fresh_uuid v) (v\<lparr>fresh_uuid := fresh_uuid v + 1\<rparr>)) \<Longrightarrow> triple may P new_uuid Q E"
  by (auto simp: triple_def new_uuid_def)

lemma triple_write_all:
  assumes "\<And>v k b. P v \<Longrightarrow> k \<in> fst ` set kbs \<Longrightarrow> P (v\<lparr>cells := (cells v)(k := Some b)\<rparr>)"
    and "distinct (map fst kbs)" and "fst ` S \<inter> fst ` set kbs = {}"
  shows "triple may (\<lambda>v. P v \<and> (\<forall>(k, b) \<in> S. cells v k = Some b)) (write_all kbs)
    (\<lambda>_ v. P v \<and> (\<forall>(k, b) \<in> S \<union> set kbs. cells v k = Some b)) P"
  using assms
proof (induction kbs arbitrary: S)
  case Nil
  then show ?case by (simp add: triple_ret)
next
  case (Cons kb kbs)
  obtain k b where kb: "kb = (k, b)" by (cases kb)
  show ?case unfolding kb write_all.simps
  proof (rule triple_bind [where R = "\<lambda>_ v. P v \<and> (\<forall>(k, b) \<in> insert (k, b) S. cells v k = Some b)"])
    show "triple may (\<lambda>v. P v \<and> (\<forall>(k, b) \<in> S. cells v k = Some b)) (cell_write k b)
        (\<lambda>_ v. P v \<and> (\<forall>(k, b) \<in> insert (k, b) S. cells v k = Some b)) P"
      unfolding cell_write_def
    proof (rule triple_set)
      fix v assume v: "P v \<and> (\<forall>(k, b) \<in> S. cells v k = Some b)"
      then have "P v" ..
      then have P': "P (v\<lparr>cells := (cells v)(k := Some b)\<rparr>)" by (rule Cons.prems(1)) (simp add: kb)
      have "k \<notin> fst ` S" using Cons.prems(3) kb by auto
      then have "\<forall>(j, c) \<in> insert (k, b) S. cells (v\<lparr>cells := (cells v)(k := Some b)\<rparr>) j = Some c"
        using v by (force simp: image_iff)
      then show "P v \<and> (P (v\<lparr>cells := (cells v)(k := Some b)\<rparr>)
            \<and> (\<forall>(j, c) \<in> insert (k, b) S. cells (v\<lparr>cells := (cells v)(k := Some b)\<rparr>) j = Some c))
          \<and> P (v\<lparr>cells := (cells v)(k := Some b)\<rparr>)" using v P' by blast
    qed
    have "triple may (\<lambda>v. P v \<and> (\<forall>(k, b) \<in> insert (k, b) S. cells v k = Some b)) (write_all kbs)
        (\<lambda>_ v. P v \<and> (\<forall>(k, b) \<in> insert (k, b) S \<union> set kbs. cells v k = Some b)) P"
    proof (rule Cons.IH)
      show "P (v\<lparr>cells := (cells v)(k := Some b)\<rparr>)" if "P v" "k \<in> fst ` set kbs" for v k b
        by (rule Cons.prems(1) [OF that(1)]) (use that(2) in simp)
    qed (use Cons.prems(2,3) kb in auto)
    then show "triple may (\<lambda>v. P v \<and> (\<forall>(k, b) \<in> insert (k, b) S. cells v k = Some b)) (write_all kbs)
        (\<lambda>_ v. P v \<and> (\<forall>(k, b) \<in> S \<union> set ((k, b) # kbs). cells v k = Some b)) P" for u :: unit
      by simp
  qed
qed

text \<open>The new generation of a save, and the manifests before and after its commit.\<close>

definition snapshot_chunks :: "vault_code \<Rightarrow> secret_values \<Rightarrow> string list" where
  "snapshot_chunks vc vals = chunk_list CHUNK_BYTES (encode64 vc (to_values vc vals))"

definition snapshot_size :: "vault_code \<Rightarrow> secret_values \<Rightarrow> nat" where
  "snapshot_size vc vals = div_ceil (length (encode64 vc (to_values vc vals))) CHUNK_BYTES"

definition new_generation :: "vault_code \<Rightarrow> secret_values \<Rightarrow> uuid \<Rightarrow> Generation" where
  "new_generation vc vals i =
     \<lparr>gen_id = i, gen_chunks = snapshot_size vc vals, gen_digest = digest_hex vc (to_values vc vals)\<rparr>"

definition journalled :: "vault_code \<Rightarrow> secret_values \<Rightarrow> uuid \<Rightarrow> Manifest \<Rightarrow> Manifest" where
  "journalled vc vals i m = m\<lparr>m_pending := Some (new_generation vc vals i)\<rparr>"

definition committed :: "vault_code \<Rightarrow> secret_values \<Rightarrow> uuid \<Rightarrow> Manifest \<Rightarrow> Manifest" where
  "committed vc vals i m = commit_generation (new_generation vc vals i) (journalled vc vals i m)"

definition before_save :: "vault_code \<Rightarrow> Manifest \<Rightarrow> uuid \<Rightarrow> secret_values option \<Rightarrow> vault \<Rightarrow> bool" where
  "before_save vc m i old v \<longleftrightarrow> vault_inv vc m old v \<and> m_pending m = None \<and> m_retired m = None
     \<and> list_all (\<lambda>h. gen_id h < i) (generations m) \<and> i < fresh_uuid v"

lemma chunks:
  "concat (snapshot_chunks vc vals) = encode64 vc (to_values vc vals)"
  "\<forall>c \<in> set (snapshot_chunks vc vals). length c \<le> CHUNK_BYTES"
  "length (snapshot_chunks vc vals) = snapshot_size vc vals"
  using chunk_list_props [of CHUNK_BYTES "encode64 vc (to_values vc vals)"]
  by (simp_all add: snapshot_chunks_def snapshot_size_def CHUNK_BYTES_def)

lemma new_generation_simps [simp]:
  "gen_id (new_generation vc vals i) = i" "gen_chunks (new_generation vc vals i) = snapshot_size vc vals"
  "gen_digest (new_generation vc vals i) = digest_hex vc (to_values vc vals)"
  by (simp_all add: new_generation_def)

lemma new_generation_valid:
  assumes "codec_ok vc" and "snapshot_size vc vals \<le> MAX_CHUNKS"
  shows "generation_valid (new_generation vc vals i)"
proof -
  have "concat (snapshot_chunks vc vals) \<noteq> []" using chunks(1) codec_okD(4) [OF assms(1)] by metis
  then have "snapshot_chunks vc vals \<noteq> []" by auto
  then have "snapshot_size vc vals \<noteq> 0" using chunks(3) [of vc vals] by (metis length_0_conv)
  then show ?thesis using assms(2) codec_okD(5,6) [OF assms(1)] by (simp add: generation_valid_def)
qed

lemma save_generations:
  assumes "m_pending m = None" and "m_retired m = None"
  shows "generations m = opt_list (m_current m)"
    "generations (journalled vc vals i m) = opt_list (m_current m) @ [new_generation vc vals i]"
    "generations (committed vc vals i m) = new_generation vc vals i # opt_list (m_current m)"
  using assms by (simp_all add: generations_def committed_def journalled_def commit_generation_def opt_list_def)

lemma journal_inv:
  assumes vc: "codec_ok vc" and size: "snapshot_size vc vals \<le> MAX_CHUNKS" and pre: "before_save vc m i old v"
  shows "vault_inv vc (journalled vc vals i m) old (v\<lparr>cells := (cells v)(''manifest'' \<mapsto> to_manifest vc (journalled vc vals i m))\<rparr>)"
proof (rule vault_inv_publish [of vc m old])
  have inv: "vault_inv vc m old v" and clean: "m_pending m = None" "m_retired m = None"
    using pre by (simp_all add: before_save_def)
  note gens = save_generations [OF clean]
  show "vault_inv vc m old v" by (rule inv)
  show "manifest_ok (journalled vc vals i m) (fresh_uuid v)"
    using inv pre new_generation_valid [OF vc size] gens
    by (auto simp: vault_inv_def manifest_ok_def before_save_def journalled_def list_all_iff)
  show "current_is vc (journalled vc vals i m) old v" using inv by (simp add: vault_inv_def current_is_def journalled_def)
  show "accounted vc (journalled vc vals i m) v" using inv gens by (auto simp: vault_inv_def accounted_def)
qed

lemma commit_inv:
  assumes vc: "codec_ok vc" and clean: "m_pending m = None" "m_retired m = None"
    and inv: "vault_inv vc (journalled vc vals i m) old v" and snap: "snapshot vc (new_generation vc vals i) (to_values vc vals) v"
  shows "vault_inv vc (committed vc vals i m) (Some vals) (v\<lparr>cells := (cells v)(''manifest'' \<mapsto> to_manifest vc (committed vc vals i m))\<rparr>)"
proof (rule vault_inv_publish [OF inv])
  note gens = save_generations [OF clean]
  show "manifest_ok (committed vc vals i m) (fresh_uuid v)"
    using inv gens by (auto simp: vault_inv_def manifest_ok_def committed_def journalled_def commit_generation_def)
  show "current_is vc (committed vc vals i m) (Some vals) v"
    using snap codec_okD(2) [OF vc] by (auto simp: current_is_def committed_def commit_generation_def)
  show "accounted vc (committed vc vals i m) v" using inv gens by (auto simp: vault_inv_def accounted_def)
qed

lemma snapshot_written:
  assumes vc: "codec_ok vc"
    and w: "\<forall>(k, b) \<in> set (zip (generation_keys vc (new_generation vc vals i)) (snapshot_chunks vc vals)). cells v k = Some b"
  shows "snapshot vc (new_generation vc vals i) (to_values vc vals) v"
proof -
  let ?ks = "generation_keys vc (new_generation vc vals i)" and ?cs = "snapshot_chunks vc vals"
  have len: "length ?ks = length ?cs" by (simp add: chunks(3) generation_keys_def)
  have "map (cells v) ?ks = map Some ?cs"
  proof (rule nth_equalityI)
    show "length (map (cells v) ?ks) = length (map Some ?cs)" using len by simp
    show "map (cells v) ?ks ! j = map Some ?cs ! j" if "j < length (map (cells v) ?ks)" for j
    proof -
      have "(?ks ! j, ?cs ! j) \<in> set (zip ?ks ?cs)" using that len by (auto simp: set_zip)
      then show ?thesis using w that len by auto
    qed
  qed
  then show ?thesis
    unfolding snapshot_def using chunks [of vc vals] codec_okD(3) [OF vc] by (intro exI [of _ ?cs]) simp
qed

lemma triple_chunks:
  assumes vc: "codec_ok vc"
  shows "triple may (vault_inv vc (journalled vc vals i m) old)
     (write_all (zip (map (generation_key vc (new_generation vc vals i)) [0..<length (snapshot_chunks vc vals)]) (snapshot_chunks vc vals)))
     (\<lambda>_ v. vault_inv vc (journalled vc vals i m) old v \<and> snapshot vc (new_generation vc vals i) (to_values vc vals) v)
     (vault_inv vc (journalled vc vals i m) old)"
proof -
  let ?g = "new_generation vc vals i" and ?P = "vault_inv vc (journalled vc vals i m) old" and ?cs = "snapshot_chunks vc vals"
  let ?ks = "generation_keys vc ?g"
  have ks: "map (generation_key vc ?g) [0..<length ?cs] = ?ks" by (simp add: chunks(3) generation_keys_def)
  have "length ?ks = length ?cs" by (simp add: chunks(3) generation_keys_def)
  then have fst: "map fst (zip ?ks ?cs) = ?ks" by simp
  have "triple may (\<lambda>v. ?P v \<and> (\<forall>(k, b) \<in> {}. cells v k = Some b)) (write_all (zip ?ks ?cs))
      (\<lambda>_ v. ?P v \<and> (\<forall>(k, b) \<in> {} \<union> set (zip ?ks ?cs). cells v k = Some b)) ?P"
  proof (rule triple_write_all)
    show "?P (v\<lparr>cells := (cells v)(k := Some b)\<rparr>)" if "?P v" "k \<in> fst ` set (zip ?ks ?cs)" for v k b
    proof (rule vault_inv_other [OF vc that(1), of ?g])
      show "?g \<in> set (opt_list (m_pending (journalled vc vals i m)) @ opt_list (m_retired (journalled vc vals i m)))"
        by (simp add: opt_list_def journalled_def)
      show "k \<in> set ?ks" using that(2) fst by (metis set_map)
    qed
    show "distinct (map fst (zip ?ks ?cs))" unfolding fst by (rule generation_keys_distinct [OF vc])
  qed simp
  then show ?thesis unfolding ks
    by (rule triple_conseq) (use snapshot_written [OF vc] in auto)
qed

text \<open>At every moment of a save the vault holds the old or the new snapshot, complete.\<close>

definition either :: "vault_code \<Rightarrow> secret_values option \<Rightarrow> secret_values option \<Rightarrow> vault \<Rightarrow> bool" where
  "either vc old new v \<longleftrightarrow> (\<exists>m. vault_inv vc m old v) \<or> (\<exists>m. vault_inv vc m new v)"

lemma eitherI: "vault_inv vc m old v \<Longrightarrow> either vc old new v" "vault_inv vc m new v \<Longrightarrow> either vc old new v"
  by (auto simp: either_def)

lemma triple_store:
  assumes vc: "codec_ok vc" and size: "snapshot_size vc vals \<le> MAX_CHUNKS"
  shows "triple may (before_save vc m i old)
    (bind_io (publish vc (journalled vc vals i m)) (\<lambda>_.
     bind_io (write_all (zip (map (generation_key vc (new_generation vc vals i)) [0..<length (snapshot_chunks vc vals)]) (snapshot_chunks vc vals))) (\<lambda>_.
     bind_io (generation_bytes vc (new_generation vc vals i)) (\<lambda>written.
       if written \<noteq> to_values vc vals then throw ''OS credential write verification failed''
       else bind_io (publish vc (committed vc vals i m)) (\<lambda>_. ignore_error (cleanup vc (committed vc vals i m)))))))
    (\<lambda>_ v. \<exists>m. vault_inv vc m (Some vals) v) (either vc old (Some vals))"
proof (rule triple_case [where R = "m_pending m = None \<and> m_retired m = None"])
  show "m_pending m = None \<and> m_retired m = None" if "before_save vc m i old v" for v using that by (simp add: before_save_def)
next
  assume clean: "m_pending m = None \<and> m_retired m = None"
  let ?g = "new_generation vc vals i" and ?bytes = "to_values vc vals"
  let ?m1 = "journalled vc vals i m" and ?m2 = "committed vc vals i m"
  let ?E = "either vc old (Some vals)" and ?S = "\<lambda>v. vault_inv vc ?m1 old v \<and> snapshot vc ?g ?bytes v"
  have commit: "triple may ?S (bind_io (publish vc ?m2) (\<lambda>_. ignore_error (cleanup vc ?m2))) (\<lambda>_ v. \<exists>m. vault_inv vc m (Some vals) v) ?E"
  proof (rule triple_bind [where R = "\<lambda>_. vault_inv vc ?m2 (Some vals)"])
    show "triple may ?S (publish vc ?m2) (\<lambda>_. vault_inv vc ?m2 (Some vals)) ?E"
      unfolding publish_def cell_write_def using commit_inv [OF vc] clean by (intro triple_set) (blast intro: eitherI)
    have "triple True (vault_inv vc ?m2 (Some vals)) (cleanup vc ?m2) (\<lambda>_ v. \<exists>m. vault_inv vc m (Some vals) v) (\<lambda>v. \<exists>m. vault_inv vc m (Some vals) v)"
      by (rule triple_conseq [OF triple_cleanup [OF vc]]) auto
    then show "triple may (vault_inv vc ?m2 (Some vals)) (ignore_error (cleanup vc ?m2)) (\<lambda>_ v. \<exists>m. vault_inv vc m (Some vals) v) ?E" for u :: unit
      by (rule triple_ignore)
  qed
  have verify: "triple may ?S (bind_io (generation_bytes vc ?g) (\<lambda>written.
       if written \<noteq> ?bytes then throw ''OS credential write verification failed''
       else bind_io (publish vc ?m2) (\<lambda>_. ignore_error (cleanup vc ?m2)))) (\<lambda>_ v. \<exists>m. vault_inv vc m (Some vals) v) ?E"
  proof (rule triple_bind [where R = "\<lambda>x v. x = ?bytes \<and> ?S v"])
    show "triple may ?S (generation_bytes vc ?g) (\<lambda>x v. x = ?bytes \<and> ?S v) ?E"
      by (rule triple_conseq [OF triple_bytes [of ?S]]) (auto intro: eitherI)
    show "triple may (\<lambda>v. x = ?bytes \<and> ?S v) (if x \<noteq> ?bytes then throw ''OS credential write verification failed''
        else bind_io (publish vc ?m2) (\<lambda>_. ignore_error (cleanup vc ?m2))) (\<lambda>_ v. \<exists>m. vault_inv vc m (Some vals) v) ?E" for x
      by (rule triple_case [where R = "x = ?bytes"]) (use commit in simp_all)
  qed
  have chunked: "triple may (vault_inv vc ?m1 old)
     (write_all (zip (map (generation_key vc ?g) [0..<length (snapshot_chunks vc vals)]) (snapshot_chunks vc vals))) (\<lambda>_. ?S) ?E"
    by (rule triple_conseq [OF triple_chunks [OF vc]]) (auto intro: eitherI)
  show ?thesis
  proof (rule triple_bind [where R = "\<lambda>_. vault_inv vc ?m1 old"])
    show "triple may (before_save vc m i old) (publish vc ?m1) (\<lambda>_. vault_inv vc ?m1 old) ?E"
      unfolding publish_def cell_write_def
    proof (rule triple_set)
      fix v assume pre: "before_save vc m i old v"
      then have "vault_inv vc m old v" by (simp add: before_save_def)
      with journal_inv [OF vc size pre] show "?E v
          \<and> vault_inv vc ?m1 old (v\<lparr>cells := (cells v)(''manifest'' := Some (to_manifest vc ?m1))\<rparr>)
          \<and> ?E (v\<lparr>cells := (cells v)(''manifest'' := Some (to_manifest vc ?m1))\<rparr>)" by (blast intro: eitherI)
    qed
  qed (rule triple_bind [OF chunked verify])
qed

lemma draw_inv:
  assumes inv: "vault_inv vc m old v" and clean: "m_pending m = None" "m_retired m = None"
  shows "before_save vc m (fresh_uuid v) old (v\<lparr>fresh_uuid := fresh_uuid v + 1\<rparr>)"
proof -
  have "current_is vc m old (v\<lparr>fresh_uuid := fresh_uuid v + 1\<rparr>) = current_is vc m old v" by (rule current_is_cong) simp
  then show ?thesis using inv clean
    by (auto simp: before_save_def vault_inv_def has_manifest_def manifest_ok_def accounted_def list_all_iff intro: less_SucI)
qed

lemma triple_snapshot:
  assumes vc: "codec_ok vc" and may: "may \<or> snapshot_size vc vals \<le> MAX_CHUNKS"
    and clean: "m_pending m = None" "m_retired m = None"
  shows "triple may (vault_inv vc m old) (save_snapshot vc vals m)
    (\<lambda>_ v. \<exists>m. vault_inv vc m (Some vals) v) (either vc old (Some vals))"
proof (cases "snapshot_size vc vals \<le> MAX_CHUNKS")
  case True
  have "triple may (vault_inv vc m old) new_uuid (\<lambda>i. before_save vc m i old) (either vc old (Some vals))"
    by (rule triple_uuid) (rule draw_inv [OF _ clean])
  note stores = triple_bind [OF this triple_store [OF vc True]]
  have "save_snapshot vc vals m = (if MAX_CHUNKS < snapshot_size vc vals then throw ''credential snapshot exceeds OS store safety limit''
      else bind_io new_uuid (\<lambda>i. bind_io (publish vc (journalled vc vals i m)) (\<lambda>_.
        bind_io (write_all (zip (map (generation_key vc (new_generation vc vals i)) [0..<length (snapshot_chunks vc vals)]) (snapshot_chunks vc vals))) (\<lambda>_.
        bind_io (generation_bytes vc (new_generation vc vals i)) (\<lambda>written.
          if written \<noteq> to_values vc vals then throw ''OS credential write verification failed''
          else bind_io (publish vc (committed vc vals i m)) (\<lambda>_. ignore_error (cleanup vc (committed vc vals i m))))))))"
    unfolding save_snapshot_def Let_def snapshot_chunks_def new_generation_def journalled_def committed_def snapshot_size_def by (rule refl)
  then show ?thesis using stores True by (simp only: not_less [symmetric] if_False)
next
  case False
  then have "save_snapshot vc vals m = throw ''credential snapshot exceeds OS store safety limit''"
    by (simp add: save_snapshot_def Let_def snapshot_size_def)
  then show ?thesis using False may by (auto intro!: triple_throw intro: eitherI(1))
qed

text \<open>Any continuation of the manifest and the cleanup.\<close>

lemma triple_after_cleanup:
  assumes vc: "codec_ok vc" and E: "\<And>m v. vault_inv vc m old v \<Longrightarrow> E v"
    and k: "triple may (vault_inv vc (m\<lparr>m_pending := None, m_retired := None\<rparr>) old) (k (m\<lparr>m_pending := None, m_retired := None\<rparr>)) Q E"
  shows "triple may (vault_inv vc m old) (bind_io (read_manifest vc) (\<lambda>m0. bind_io (cleanup vc m0) k)) Q E"
proof (rule triple_bind [where R = "\<lambda>x v. x = m \<and> vault_inv vc m old v"])
  let ?m = "m\<lparr>m_pending := None, m_retired := None\<rparr>"
  show "triple may (vault_inv vc m old) (read_manifest vc) (\<lambda>x v. x = m \<and> vault_inv vc m old v) E"
    by (rule triple_conseq [OF triple_manifest [OF vc]]) (auto intro: E)
  have "triple may (vault_inv vc m old) (bind_io (cleanup vc m) k) Q E"
  proof (rule triple_bind [where R = "\<lambda>x v. x = ?m \<and> vault_inv vc ?m old v"])
    show "triple may (vault_inv vc m old) (cleanup vc m) (\<lambda>x v. x = ?m \<and> vault_inv vc ?m old v) E"
      by (rule triple_conseq [OF triple_cleanup [OF vc]]) (auto intro: E)
    show "triple may (\<lambda>v. x = ?m \<and> vault_inv vc ?m old v) (k x) Q E" for x
      by (rule triple_case [where R = "x = ?m"]) (use k in simp_all)
  qed
  note run = this
  show "triple may (\<lambda>v. m0 = m \<and> vault_inv vc m old v) (bind_io (cleanup vc m0) k) Q E" for m0
    by (rule triple_case [where R = "m0 = m"]) (use run in simp_all)
qed

lemma triple_save:
  assumes "codec_ok vc" and "may \<or> snapshot_size vc vals \<le> MAX_CHUNKS"
  shows "triple may (vault_inv vc m old) (vault_save vc vals) (\<lambda>_ v. \<exists>m. vault_inv vc m (Some vals) v) (either vc old (Some vals))"
  unfolding vault_save_def
  by (rule triple_after_cleanup [OF assms(1)]) (auto intro: eitherI(1) triple_snapshot [OF assms])

section \<open>What a vault stores\<close>

definition vault_ok :: "vault_code \<Rightarrow> vault \<Rightarrow> bool" where
  "vault_ok vc v \<longleftrightarrow> (\<exists>m saved. vault_inv vc m saved v)"

text \<open>What a load without faults returns.\<close>

definition stored :: "vault_code \<Rightarrow> vault \<Rightarrow> secret_values option" where
  "stored vc v = (case fst (vault_load vc [] v) of Inl _ \<Rightarrow> None | Inr x \<Rightarrow> x)"

lemma stored_eq:
  assumes vc: "codec_ok vc" and inv: "vault_inv vc m saved v"
  shows "stored vc v = saved"
proof -
  obtain r fs' v' where run: "vault_load vc [] v = (r, fs', v')" by (cases "vault_load vc [] v")
  show ?thesis using tripleD [OF triple_load [OF vc, where may = False] inv run] run by (auto simp: stored_def split: sum.splits)
qed

lemma vault_okI: "codec_ok vc \<Longrightarrow> vault_inv vc m saved v \<Longrightarrow> vault_ok vc v \<and> stored vc v = saved"
  using stored_eq by (auto simp: vault_ok_def)

lemma vault_okE:
  assumes "codec_ok vc" and "vault_ok vc v"
  obtains m where "vault_inv vc m (stored vc v) v"
  using assms stored_eq by (auto simp: vault_ok_def)

lemma empty_vault_ok: "vault_ok vc \<lparr>cells = Map.empty, legacy_file = l, marker_file = k, fresh_uuid = u\<rparr>"
  unfolding vault_ok_def
  by (intro exI [of _ EMPTY_MANIFEST] exI [of _ None])
    (simp add: vault_inv_def has_manifest_def manifest_ok_def current_is_def accounted_def EMPTY_MANIFEST_def generations_def opt_list_def)

lemma too_large_keeps:
  assumes vc: "codec_ok vc" and inv: "vault_inv vc m old v" and size: "MAX_CHUNKS < snapshot_size vc vals"
    and run: "vault_save vc vals fs v = (r, fs', v')"
  shows "r \<noteq> Inr () \<and> (\<exists>m. vault_inv vc m old v')"
proof -
  have throws: "save_snapshot vc vals m' = throw ''credential snapshot exceeds OS store safety limit''" for m'
    using size by (simp add: save_snapshot_def Let_def snapshot_size_def)
  have "triple True (vault_inv vc m old) (vault_save vc vals) (\<lambda>_ _. False) (\<lambda>v. \<exists>m. vault_inv vc m old v)"
    unfolding vault_save_def by (rule triple_after_cleanup [OF vc]) (auto simp: throws intro: triple_throw)
  from tripleD [OF this inv run] show ?thesis by (auto split: sum.splits)
qed

lemma save_run:
  assumes vc: "codec_ok vc" and ok: "vault_ok vc v" and run: "vault_save vc vals fs v = (r, fs', v')"
  shows "vault_ok vc v' \<and> stored vc v' \<in> {stored vc v, Some vals}
    \<and> (r = Inr () \<longrightarrow> stored vc v' = Some vals)
    \<and> (MAX_CHUNKS < snapshot_size vc vals \<longrightarrow> r \<noteq> Inr () \<and> stored vc v' = stored vc v)
    \<and> (fs = [] \<and> snapshot_size vc vals \<le> MAX_CHUNKS \<longrightarrow> r = Inr ())"
proof -
  obtain m where inv: "vault_inv vc m (stored vc v) v" by (rule vault_okE [OF vc ok])
  have any: "(case r of Inr _ \<Rightarrow> \<exists>m. vault_inv vc m (Some vals) v' | Inl _ \<Rightarrow> either vc (stored vc v) (Some vals) v')"
    using tripleD [OF triple_save [OF vc, where may = True] inv run] by (auto split: sum.splits)
  have fine: "r = Inr ()" if "fs = []" "snapshot_size vc vals \<le> MAX_CHUNKS"
    using tripleD [OF triple_save [OF vc, where may = False] inv run] that by (auto split: sum.splits)
  have large: "r \<noteq> Inr () \<and> stored vc v' = stored vc v" if "MAX_CHUNKS < snapshot_size vc vals"
    using too_large_keeps [OF vc inv that run] stored_eq [OF vc] by blast
  show ?thesis
  proof (cases r)
    case (Inl e)
    then show ?thesis using any fine large vault_okI [OF vc] by (auto simp: either_def)
  next
    case (Inr u)
    then show ?thesis using any large vault_okI [OF vc] by auto
  qed
qed

text \<open>
  C20. Saving is atomic under every schedule of faults. Whichever calls of the credential store fail, and
  whether or not a failing write took effect, the vault holds afterwards the old snapshot or the
  new one, complete and verified; success is reported only for the new one; a snapshot over the
  limit leaves the old one; and without faults every snapshot within the limit is saved.
\<close>

theorem vault_save_atomic:
  assumes "codec_ok vc" and "vault_ok vc v" and "vault_save vc vals fs v = (r, fs', v')"
  shows "vault_ok vc v' \<and> stored vc v' \<in> {stored vc v, Some vals}
    \<and> (r = Inr () \<longrightarrow> stored vc v' = Some vals)
    \<and> (MAX_CHUNKS < snapshot_size vc vals \<longrightarrow> r \<noteq> Inr () \<and> stored vc v' = stored vc v)
    \<and> (fs = [] \<and> snapshot_size vc vals \<le> MAX_CHUNKS \<longrightarrow> r = Inr ())"
  by (rule save_run [OF assms])

definition within_current :: "vault_code \<Rightarrow> vault \<Rightarrow> bool" where
  "within_current vc v \<longleftrightarrow> (\<exists>g. generation_valid g \<and> dom (cells v) \<subseteq> insert ''manifest'' (set (generation_keys vc g)))
     \<or> dom (cells v) \<subseteq> {''manifest''}"

lemma clean_within_current:
  assumes "vault_inv vc (m\<lparr>m_pending := None, m_retired := None\<rparr>) saved v"
  shows "within_current vc v"
  using assms by (cases "m_current m") (auto simp: within_current_def vault_inv_def accounted_def manifest_ok_def
      generations_simps opt_list_def)

lemma within_current_bound:
  assumes "within_current vc v"
  shows "card (dom (cells v)) \<le> 1 + MAX_CHUNKS"
proof -
  have key_set: "card (set (generation_keys vc g)) \<le> MAX_CHUNKS" if "generation_valid g" for g
    using that card_length [of "generation_keys vc g"] by (simp add: generation_valid_def generation_keys_def)
  have bound: "card (insert ''manifest'' (set (generation_keys vc g))) \<le> 1 + MAX_CHUNKS" if "generation_valid g" for g
    using key_set [OF that] by (simp add: card_insert_if)
  from assms show ?thesis unfolding within_current_def
  proof (elim disjE exE conjE)
    fix g assume "generation_valid g" and "dom (cells v) \<subseteq> insert ''manifest'' (set (generation_keys vc g))"
    then show ?thesis using card_mono [of "insert ''manifest'' (set (generation_keys vc g))" "dom (cells v)"] bound by fastforce
  next
    assume "dom (cells v) \<subseteq> {''manifest''}"
    then have "card (dom (cells v)) \<le> 1" using card_mono [of "{''manifest''}" "dom (cells v)"] by simp
    then show ?thesis by simp
  qed
qed

text \<open>
  Loading returns what is stored, keeps it whatever fails, and collects the garbage: after a load
  that succeeds only the manifest and the chunks of one generation remain, at most 4097 entries,
  however many saves were cut short before. Without faults the load succeeds.
\<close>

theorem vault_load_collects:
  assumes vc: "codec_ok vc" and ok: "vault_ok vc v" and run: "vault_load vc fs v = (r, fs', v')"
  shows "vault_ok vc v' \<and> stored vc v' = stored vc v
    \<and> (\<forall>x. r = Inr x \<longrightarrow> x = stored vc v \<and> within_current vc v' \<and> card (dom (cells v')) \<le> 4097)
    \<and> (fs = [] \<longrightarrow> r = Inr (stored vc v))"
proof -
  obtain m where inv: "vault_inv vc m (stored vc v) v" by (rule vault_okE [OF vc ok])
  note post = tripleD [OF triple_load [OF vc, where may = False] inv run]
  show ?thesis
  proof (cases r)
    case (Inl e)
    then show ?thesis using post vault_okI [OF vc] by auto
  next
    case (Inr x)
    then have x: "x = stored vc v" "vault_inv vc (m\<lparr>m_pending := None, m_retired := None\<rparr>) (stored vc v) v'"
      using post by auto
    then show ?thesis using Inr vault_okI [OF vc x(2)] clean_within_current [OF x(2)]
      within_current_bound [OF clean_within_current [OF x(2)]] by (simp add: MAX_CHUNKS_def)
  qed
qed

end
