(* ===== verification/Secret_Open.thy ===== *)
theory Secret_Open
  imports Secret_Store
begin

text \<open>
  Opening the secret store of \<open>secret_store.rs\<close>: the migration from the plaintext file, the refusal to fall
  back to it, and the two stores as instances of the contract the settings rely on.
\<close>

section \<open>Entries leave the files alone\<close>

definition keeps_files :: "'a io \<Rightarrow> bool" where
  "keeps_files c \<longleftrightarrow> (\<forall>fs v r fs' v'. c fs v = (r, fs', v') \<longrightarrow> legacy_file v' = legacy_file v \<and> marker_file v' = marker_file v)"

named_theorems keeps

lemma keeps_bind [keeps]: "keeps_files c \<Longrightarrow> (\<And>x. keeps_files (k x)) \<Longrightarrow> keeps_files (bind_io c k)"
  unfolding keeps_files_def bind_io_def by (fastforce split: prod.splits sum.splits)

lemma keeps_basic [keeps]:
  "keeps_files (ret x)" "keeps_files (throw e)" "keeps_files (cell_read k)" "keeps_files (cell_set k b)" "keeps_files new_uuid"
  by (auto simp: keeps_files_def ret_def throw_def cell_read_def cell_set_def new_uuid_def Let_def split: prod.splits if_splits fault.splits)

lemma keeps_ignore [keeps]: "keeps_files c \<Longrightarrow> keeps_files (ignore_error c)"
  unfolding keeps_files_def ignore_error_def by (fastforce split: prod.splits)

lemma keeps_cells [keeps]: "keeps_files (cell_write k b)" "keeps_files (cell_delete k)" "keeps_files (publish vc m)"
  by (simp_all add: cell_write_def cell_delete_def publish_def keeps)

lemma keeps_read_all [keeps]: "keeps_files (read_all ks acc)"
  by (induction ks arbitrary: acc) (auto intro!: keeps split: option.splits)

lemma keeps_delete_all [keeps]: "keeps_files (delete_all ks)"
  by (induction ks) (auto intro!: keeps)

lemma keeps_write_all [keeps]: "keeps_files (write_all kbs)"
  by (induction kbs rule: write_all.induct) (auto intro!: keeps)

lemma keeps_manifest [keeps]: "keeps_files (read_manifest vc)" "keeps_files (generation_bytes vc g)"
  unfolding read_manifest_def generation_bytes_def by (auto intro!: keeps split: option.splits)

lemma keeps_cleanup [keeps]: "keeps_files (cleanup vc m)"
  unfolding cleanup_def Let_def by (auto intro!: keeps)

lemma keeps_load: "keeps_files (vault_load vc)"
  unfolding vault_load_def load_current_def by (auto intro!: keeps split: option.splits)

lemma keeps_save: "keeps_files (vault_save vc vals)"
  unfolding vault_save_def save_snapshot_def Let_def by (auto intro!: keeps)

lemma triple_frame:
  assumes "triple may P c Q E" and "keeps_files c"
  shows "triple may (\<lambda>v. P v \<and> legacy_file v = l \<and> marker_file v = k) c
    (\<lambda>x v. Q x v \<and> legacy_file v = l \<and> marker_file v = k) (\<lambda>v. E v \<and> legacy_file v = l \<and> marker_file v = k)"
proof (rule tripleI)
  fix fs v r fs' v' assume pre: "P v \<and> legacy_file v = l \<and> marker_file v = k" and run: "c fs v = (r, fs', v')"
  have "legacy_file v' = l \<and> marker_file v' = k" using assms(2) run pre by (auto simp: keeps_files_def)
  then show "(fs = [] \<longrightarrow> fs' = []) \<and> (case r of Inr x \<Rightarrow> Q x v' \<and> legacy_file v' = l \<and> marker_file v' = k
      | Inl _ \<Rightarrow> (may \<or> fs \<noteq> []) \<and> E v' \<and> legacy_file v' = l \<and> marker_file v' = k)"
    using tripleD [OF assms(1) _ run] pre by (auto split: sum.splits)
qed

section \<open>Contracts of the steps of the migration\<close>

definition holds :: "vault_code \<Rightarrow> secret_values option \<Rightarrow> string option \<Rightarrow> string option \<Rightarrow> vault \<Rightarrow> bool" where
  "holds vc saved l k v \<longleftrightarrow> (\<exists>m. vault_inv vc m saved v) \<and> legacy_file v = l \<and> marker_file v = k"

lemma triple_ex: "(\<And>y. triple may (P y) c Q E) \<Longrightarrow> triple may (\<lambda>v. \<exists>y. P y v) c Q E"
  unfolding triple_def by blast

lemma holds_load:
  assumes "codec_ok vc"
  shows "triple may (holds vc s l k) (vault_load vc) (\<lambda>x v. x = s \<and> holds vc s l k v) (holds vc s l k)"
proof -
  have "triple may (\<lambda>v. \<exists>m. vault_inv vc m s v) (vault_load vc) (\<lambda>x v. x = s \<and> (\<exists>m. vault_inv vc m s v)) (\<lambda>v. \<exists>m. vault_inv vc m s v)"
    by (rule triple_ex) (rule triple_conseq [OF triple_load [OF assms]], auto)
  from triple_frame [OF this keeps_load, of l k] show ?thesis
    by (rule triple_conseq) (auto simp: holds_def)
qed

lemma holds_save:
  assumes "codec_ok vc" and "may \<or> snapshot_size vc vals \<le> MAX_CHUNKS"
  shows "triple may (holds vc s l k) (vault_save vc vals) (\<lambda>_. holds vc (Some vals) l k)
    (\<lambda>v. holds vc s l k v \<or> holds vc (Some vals) l k v)"
proof -
  have "triple may (\<lambda>v. \<exists>m. vault_inv vc m s v) (vault_save vc vals) (\<lambda>_ v. \<exists>m. vault_inv vc m (Some vals) v) (either vc s (Some vals))"
    by (rule triple_ex) (rule triple_save [OF assms])
  from triple_frame [OF this keeps_save, of l k] show ?thesis
    by (rule triple_conseq) (auto simp: holds_def either_def)
qed

lemma holds_marker_exists: "triple may (holds vc s l k) marker_exists (\<lambda>x v. x = (k \<noteq> None) \<and> holds vc s l k v) E"
  by (auto simp: triple_def marker_exists_def holds_def)

lemma holds_write_marker: "triple may (holds vc s l k) (write_marker b) (\<lambda>_. holds vc s l (Some b)) (holds vc s l k)"
  by (auto simp: triple_def write_marker_def holds_def atomic_write_def file_fault_def next_fault_def vault_inv_def has_manifest_def
      current_is_def snapshot_def accounted_def split: list.splits option.splits if_splits)

lemma holds_remove_legacy: "triple may (holds vc s l k) remove_legacy (\<lambda>_. holds vc s None k) (holds vc s l k)"
  by (auto simp: triple_def remove_legacy_def holds_def next_fault_def vault_inv_def has_manifest_def
      current_is_def snapshot_def accounted_def split: list.splits option.splits if_splits)

lemma holds_read_file:
  "triple may (holds vc s l k) (read_file marker_file) (\<lambda>x v. x = k \<and> holds vc s l k v) (holds vc s l k)"
  "triple may (holds vc s l k) (read_file legacy_file) (\<lambda>x v. x = l \<and> holds vc s l k v) (holds vc s l k)"
  by (auto simp: triple_def read_file_def holds_def next_fault_def split: list.splits if_splits)

lemma triple_bind_value:
  assumes "triple may P c (\<lambda>x v. x = a \<and> R v) E" and "triple may R (k a) Q E"
  shows "triple may P (bind_io c k) Q E"
proof (rule triple_bind [OF assms(1)])
  show "triple may (\<lambda>v. x = a \<and> R v) (k x) Q E" for x
    by (rule triple_case [where R = "x = a"]) (use assms(2) in simp_all)
qed

lemma holds_ensure_marker:
  "triple may (holds vc s l k) ensure_marker (\<lambda>_. holds vc s l (if k = None then Some MARKER else k)) (holds vc s l k)"
  unfolding ensure_marker_def
proof (rule triple_bind_value [OF holds_marker_exists])
  show "triple may (holds vc s l k) (if k \<noteq> None then ret () else write_marker MARKER)
      (\<lambda>_. holds vc s l (if k = None then Some MARKER else k)) (holds vc s l k)"
    using holds_write_marker by (auto intro: triple_ret)
qed

definition marker_fits :: "string option \<Rightarrow> secret_values option \<Rightarrow> bool" where
  "marker_fits k s \<longleftrightarrow> k = None \<or> k = Some MARKER \<and> s \<noteq> None"

lemma holds_check_marker:
  assumes "may \<or> marker_fits k s"
  shows "triple may (holds vc s l k) (check_marker s) (\<lambda>_ v. marker_fits k s \<and> holds vc s l k v) (holds vc s l k)"
  unfolding check_marker_def
proof (rule triple_bind_value [OF holds_marker_exists])
  have "triple may (holds vc s l k) (bind_io (read_file marker_file) (\<lambda>bytes.
         if bytes \<noteq> Some MARKER then throw ''invalid OS credential-store marker''
         else if s = None then throw ''OS credentials are missing for this initialized data directory''
         else ret ())) (\<lambda>_ v. marker_fits k s \<and> holds vc s l k v) (holds vc s l k)" if "k \<noteq> None"
    by (rule triple_bind_value [OF holds_read_file(1)])
      (use that assms in \<open>auto simp: marker_fits_def intro!: triple_throw triple_ret\<close>)
  then show "triple may (holds vc s l k) (if \<not> k \<noteq> None then ret ()
       else bind_io (read_file marker_file) (\<lambda>bytes.
         if bytes \<noteq> Some MARKER then throw ''invalid OS credential-store marker''
         else if s = None then throw ''OS credentials are missing for this initialized data directory''
         else ret ())) (\<lambda>_ v. marker_fits k s \<and> holds vc s l k v) (holds vc s l k)"
    by (auto simp: marker_fits_def intro: triple_ret)
qed

lemma holds_read_legacy:
  assumes "\<forall>b. l = Some b \<longrightarrow> parse_values vc b \<noteq> None"
  shows "triple may (holds vc s l k) (read_legacy vc) (\<lambda>x v. x = Option.bind l (parse_values vc) \<and> holds vc s l k v) (holds vc s l k)"
  unfolding read_legacy_def
  by (rule triple_bind_value [OF holds_read_file(2)]) (use assms in \<open>auto intro: triple_ret split: option.splits\<close>)

section \<open>Migration\<close>

lemma same_values_refl [simp]: "same_values x x"
  by (simp add: same_values_def list_all_iff)

text \<open>The snapshot after a migration, and the states a failed one may leave: the plaintext file is still there.\<close>

definition migrated :: "secret_values option \<Rightarrow> secret_values \<Rightarrow> secret_values option" where
  "migrated s old = (case s of None \<Rightarrow> Some old | Some _ \<Rightarrow> s)"

definition file_kept :: "vault_code \<Rightarrow> secret_values option \<Rightarrow> secret_values \<Rightarrow> string option \<Rightarrow> vault \<Rightarrow> bool" where
  "file_kept vc s old l v \<longleftrightarrow> (\<exists>s' k. s' \<in> {s, migrated s old} \<and> holds vc s' l k v)"

definition agrees :: "secret_values option \<Rightarrow> secret_values \<Rightarrow> bool" where
  "agrees s old \<longleftrightarrow> (case s of None \<Rightarrow> True | Some vals \<Rightarrow> same_values vals old)"

lemma file_keptI: "holds vc s l k v \<Longrightarrow> file_kept vc s old l v" "holds vc (migrated s old) l k v \<Longrightarrow> file_kept vc s old l v"
  by (auto simp: file_kept_def)

lemma agrees_migrated: "agrees s old \<Longrightarrow> opt_any (\<lambda>vals. same_values vals old) (migrated s old)"
  by (cases s) (simp_all add: agrees_def migrated_def opt_any_def)

lemma holds_copy:
  assumes vc: "codec_ok vc" and may: "may \<or> agrees s old \<and> (s = None \<longrightarrow> snapshot_size vc old \<le> MAX_CHUNKS)"
  shows "triple may (holds vc s l k) (copy_legacy (vault_save vc) s old)
    (\<lambda>_ v. agrees s old \<and> holds vc (migrated s old) l k v) (file_kept vc s old l)"
proof (cases s)
  case None
  have "triple may (holds vc s l k) (vault_save vc old) (\<lambda>_ v. agrees s old \<and> holds vc (migrated s old) l k v) (file_kept vc s old l)"
    by (rule triple_conseq [OF holds_save [OF vc]]) (use may None in \<open>auto simp: agrees_def migrated_def file_kept_def\<close>)
  then show ?thesis by (simp add: None copy_legacy_def)
next
  case (Some vals)
  have "copy_legacy (vault_save vc) s old
      = (if same_values vals old then ret ()
         else throw ''OS credentials conflict with secrets.json; neither source was overwritten. Resolve the duplicate stores before restarting'')"
    by (simp add: copy_legacy_def Some)
  then show ?thesis using may Some
    by (cases "same_values vals old") (auto simp: agrees_def migrated_def intro!: triple_ret triple_throw file_keptI)
qed

lemma holds_finish:
  assumes vc: "codec_ok vc" and same: "agrees s old" and k: "marker_fits k s'"
  shows "triple may (holds vc (migrated s old) l k) (finish_migration (vault_load vc) old)
    (\<lambda>x v. x = old \<and> holds vc (migrated s old) None (Some MARKER) v) (file_kept vc s old l)"
proof -
  have loaded: "triple may (holds vc (migrated s old) l k) (vault_load vc) (\<lambda>x v. x = migrated s old \<and> holds vc (migrated s old) l k v) (file_kept vc s old l)"
    by (rule triple_conseq [OF holds_load [OF vc]]) (auto intro: file_keptI)
  have mark: "(if k = None then Some MARKER else k) = Some MARKER" using k by (auto simp: marker_fits_def)
  have removed: "triple may (holds vc (migrated s old) l (Some MARKER)) (bind_io remove_legacy (\<lambda>_. ret old))
      (\<lambda>x v. x = old \<and> holds vc (migrated s old) None (Some MARKER) v) (file_kept vc s old l)"
  proof (rule triple_bind)
    show "triple may (holds vc (migrated s old) l (Some MARKER)) remove_legacy (\<lambda>_. holds vc (migrated s old) None (Some MARKER)) (file_kept vc s old l)"
      by (rule triple_conseq [OF holds_remove_legacy]) (auto intro: file_keptI)
  qed (simp add: triple_ret)
  have "triple may (holds vc (migrated s old) l k) (bind_io ensure_marker (\<lambda>_. bind_io remove_legacy (\<lambda>_. ret old)))
      (\<lambda>x v. x = old \<and> holds vc (migrated s old) None (Some MARKER) v) (file_kept vc s old l)"
  proof (rule triple_bind)
    show "triple may (holds vc (migrated s old) l k) ensure_marker (\<lambda>_. holds vc (migrated s old) l (Some MARKER)) (file_kept vc s old l)"
      using holds_ensure_marker [of may vc "migrated s old" l k] unfolding mark by (rule triple_conseq) (auto intro: file_keptI)
  qed (rule removed)
  then have "triple may (holds vc (migrated s old) l k)
      (if \<not> opt_any (\<lambda>vals. same_values vals old) (migrated s old)
       then throw ''OS credential migration verification failed; secrets.json retained''
       else bind_io ensure_marker (\<lambda>_. bind_io remove_legacy (\<lambda>_. ret old)))
      (\<lambda>x v. x = old \<and> holds vc (migrated s old) None (Some MARKER) v) (file_kept vc s old l)"
    using agrees_migrated [OF same] by simp
  then show ?thesis unfolding finish_migration_def by (rule triple_bind_value [OF loaded])
qed

definition migratable :: "vault_code \<Rightarrow> secret_values option \<Rightarrow> string option \<Rightarrow> secret_values \<Rightarrow> bool" where
  "migratable vc s k old \<longleftrightarrow> marker_fits k s \<and> agrees s old \<and> (s = None \<longrightarrow> snapshot_size vc old \<le> MAX_CHUNKS)"

lemma triple_pure: "(R \<Longrightarrow> triple may P c Q E) \<Longrightarrow> triple may (\<lambda>v. R \<and> P v) c Q E"
  unfolding triple_def by blast

text \<open>The two reads before anything is written.\<close>

lemma holds_migrate_reads:
  assumes vc: "codec_ok vc" and l: "\<forall>b. l = Some b \<longrightarrow> parse_values vc b \<noteq> None" and may: "may \<or> marker_fits k s"
    and E: "\<And>v. holds vc s l k v \<Longrightarrow> E v"
    and rest: "marker_fits k s \<Longrightarrow> triple may (holds vc s l k)
      (case Option.bind l (parse_values vc) of None \<Rightarrow> without_legacy (vault_save vc) s
       | Some old \<Rightarrow> bind_io (copy_legacy (vault_save vc) s old) (\<lambda>_. finish_migration (vault_load vc) old)) Q E"
  shows "triple may (holds vc s l k) (migrate vc (vault_load vc) (vault_save vc)) Q E"
  unfolding migrate_def
proof (rule triple_bind_value [OF triple_conseq [OF holds_load [OF vc]]])
  let ?k = "\<lambda>legacy. case legacy of None \<Rightarrow> without_legacy (vault_save vc) s
       | Some old \<Rightarrow> bind_io (copy_legacy (vault_save vc) s old) (\<lambda>_. finish_migration (vault_load vc) old)"
  have read: "triple may (holds vc s l k) (read_legacy vc) (\<lambda>x v. x = Option.bind l (parse_values vc) \<and> holds vc s l k v) E"
    by (rule triple_conseq [OF holds_read_legacy [OF l]]) (auto intro: E)
  have "triple may (holds vc s l k) (bind_io (read_legacy vc) ?k) Q E" if "marker_fits k s"
    by (rule triple_bind_value [OF read]) (rule rest [OF that])
  then show "triple may (holds vc s l k) (bind_io (check_marker s) (\<lambda>_. bind_io (read_legacy vc) ?k)) Q E"
    by (intro triple_bind [OF triple_conseq [OF holds_check_marker [OF may]] triple_pure]) (auto intro: E)
qed (auto intro: E)

lemma holds_migrate:
  assumes vc: "codec_ok vc" and b: "parse_values vc b = Some old" and may: "may \<or> migratable vc s k old"
  shows "triple may (holds vc s (Some b) k) (migrate vc (vault_load vc) (vault_save vc))
    (\<lambda>x v. agrees s old \<and> x = old \<and> holds vc (migrated s old) None (Some MARKER) v) (file_kept vc s old (Some b))"
proof (rule holds_migrate_reads [OF vc])
  let ?E = "file_kept vc s old (Some b)"
  let ?Q = "\<lambda>x v. agrees s old \<and> x = old \<and> holds vc (migrated s old) None (Some MARKER) v"
  show "may \<or> marker_fits k s" using may by (auto simp: migratable_def)
  assume fits: "marker_fits k s"
  have "triple may (holds vc s (Some b) k) (bind_io (copy_legacy (vault_save vc) s old) (\<lambda>_. finish_migration (vault_load vc) old)) ?Q ?E"
  proof (rule triple_bind [OF holds_copy [OF vc] triple_pure])
    show "may \<or> agrees s old \<and> (s = None \<longrightarrow> snapshot_size vc old \<le> MAX_CHUNKS)" using may by (auto simp: migratable_def)
    show "triple may (holds vc (migrated s old) (Some b) k) (finish_migration (vault_load vc) old) ?Q ?E" if "agrees s old" for u :: unit
      by (rule triple_conseq [OF holds_finish [OF vc that fits]]) (use that in auto)
  qed
  then show "triple may (holds vc s (Some b) k) (case Option.bind (Some b) (parse_values vc) of None \<Rightarrow> without_legacy (vault_save vc) s
       | Some old \<Rightarrow> bind_io (copy_legacy (vault_save vc) s old) (\<lambda>_. finish_migration (vault_load vc) old)) ?Q ?E"
    by (simp add: b)
qed (auto simp: b intro: file_keptI)


lemma open_os_run: "open_store vc Os fs v = migrate vc (vault_load vc) (vault_save vc) fs v"
  by (simp add: open_store_def bind_io_def marker_exists_def)

lemma holds_stored: "codec_ok vc \<Longrightarrow> holds vc s l k v \<Longrightarrow> vault_ok vc v \<and> stored vc v = s \<and> legacy_file v = l \<and> marker_file v = k"
  using vault_okI by (auto simp: holds_def)

lemma holds_now: "codec_ok vc \<Longrightarrow> vault_ok vc v \<Longrightarrow> holds vc (stored vc v) (legacy_file v) (marker_file v) v"
  unfolding holds_def by (metis vault_okE)

text \<open>
  Migration never loses a credential. Opened in OS mode over a readable plaintext file, under any
  schedule of faults: an error leaves the plaintext file as it was and never replaces a stored snapshot;
  success returns its values, and only then is the file gone, with the marker written and the vault
  holding the same values. Two sources that disagree are an error. Without faults the migration
  succeeds whenever the marker, the stored snapshot and the size allow it.
\<close>

theorem migration_keeps_credentials:
  assumes vc: "codec_ok vc" and ok: "vault_ok vc v" and plain: "legacy_file v = Some b" "parse_values vc b = Some old"
    and run: "open_store vc Os fs v = (r, fs', v')"
  shows "vault_ok vc v'
    \<and> (case r of
        Inl _ \<Rightarrow> legacy_file v' = Some b \<and> (stored vc v' = stored vc v \<or> stored vc v = None \<and> stored vc v' = Some old)
      | Inr x \<Rightarrow> x = old \<and> legacy_file v' = None \<and> marker_file v' = Some MARKER
          \<and> opt_any (\<lambda>vals. same_values vals old) (stored vc v'))
    \<and> (\<not> agrees (stored vc v) old \<longrightarrow> (\<exists>e. r = Inl e))
    \<and> (fs = [] \<and> migratable vc (stored vc v) (marker_file v) old \<longrightarrow> r = Inr old)"
proof -
  have pre: "holds vc (stored vc v) (Some b) (marker_file v) v" using holds_now [OF vc ok] plain(1) by simp
  note run' = run [unfolded open_os_run]
  note any = tripleD [OF holds_migrate [OF vc plain(2), where may = True] pre run', simplified]
  have fine: "r = Inr old" if "fs = []" "migratable vc (stored vc v) (marker_file v) old"
    using tripleD [OF holds_migrate [OF vc plain(2), where may = False] pre run'] that by (auto split: sum.splits)
  show ?thesis
  proof (cases r)
    case (Inl e)
    then obtain s' k where "s' \<in> {stored vc v, migrated (stored vc v) old}" "holds vc s' (Some b) k v'"
      using any by (auto simp: file_kept_def)
    then show ?thesis using Inl fine holds_stored [OF vc] by (cases "stored vc v") (auto simp: migrated_def)
  next
    case (Inr x)
    then have x: "agrees (stored vc v) old" "x = old" "holds vc (migrated (stored vc v) old) None (Some MARKER) v'"
      using any by auto
    then show ?thesis using Inr holds_stored [OF vc x(3)] agrees_migrated [OF x(1)] by simp
  qed
qed

lemma bind_ret: "bind_io (ret x) k = k x"
  by (simp add: bind_io_def ret_def fun_eq_iff)

lemma reopen_returns:
  assumes vc: "codec_ok vc" and pre: "holds vc (Some vals) None (Some MARKER) v" and run: "open_store vc Os [] v = (r, fs', v')"
  shows "r = Inr vals"
proof -
  have "triple False (holds vc (Some vals) None (Some MARKER)) (migrate vc (vault_load vc) (vault_save vc)) (\<lambda>x _. x = vals) (\<lambda>_. True)"
  proof (rule holds_migrate_reads [OF vc])
    have "triple False (holds vc (Some vals) None (Some MARKER)) (bind_io ensure_marker (\<lambda>_. ret vals)) (\<lambda>x _. x = vals) (\<lambda>_. True)"
      by (rule triple_bind [OF triple_conseq [OF holds_ensure_marker]]) (auto intro: triple_ret)
    then have "triple False (holds vc (Some vals) None (Some MARKER)) (without_legacy (vault_save vc) (Some vals)) (\<lambda>x _. x = vals) (\<lambda>_. True)"
      by (simp add: without_legacy_def bind_ret)
    then show "triple False (holds vc (Some vals) None (Some MARKER)) (case Option.bind None (parse_values vc) of
        None \<Rightarrow> without_legacy (vault_save vc) (Some vals)
      | Some old \<Rightarrow> bind_io (copy_legacy (vault_save vc) (Some vals) old) (\<lambda>_. finish_migration (vault_load vc) old)) (\<lambda>x _. x = vals) (\<lambda>_. True)"
      by simp
  qed (auto simp: marker_fits_def)
  from tripleD [OF this pre run [unfolded open_os_run]] show ?thesis by (auto split: sum.splits)
qed

text \<open>
  There is no fallback. Once the marker of the OS store is written, a broker that finds no snapshot
  behind it, or that is started in file mode, stops with an error under every schedule: it neither
  starts with an empty set of credentials nor reads the plaintext file, and it changes neither.
\<close>

theorem initialized_store_has_no_fallback:
  assumes vc: "codec_ok vc" and ok: "vault_ok vc v" and mark: "marker_file v \<noteq> None"
    and lost: "mode = File \<or> stored vc v = None"
    and run: "open_store vc mode fs v = (r, fs', v')"
  shows "(\<exists>e. r = Inl e) \<and> vault_ok vc v' \<and> stored vc v' = stored vc v
    \<and> legacy_file v' = legacy_file v \<and> marker_file v' = marker_file v"
proof (cases mode)
  case File
  then show ?thesis using run mark ok by (auto simp: open_store_def bind_io_def marker_exists_def throw_def)
next
  case Os
  with lost have none: "stored vc v = None" by simp
  let ?H = "holds vc (stored vc v) (legacy_file v) (marker_file v)"
  have "triple True ?H (migrate vc (vault_load vc) (vault_save vc)) (\<lambda>_ _. False) ?H"
    unfolding migrate_def
  proof (rule triple_bind_value [OF holds_load [OF vc]], rule triple_bind)
    show "triple True ?H (check_marker (stored vc v)) (\<lambda>_ _. False) ?H"
      by (rule triple_conseq [OF holds_check_marker]) (use none mark in \<open>auto simp: marker_fits_def\<close>)
  qed (simp add: triple_unreachable)
  from tripleD [OF this holds_now [OF vc ok] run [unfolded Os open_os_run]]
  show ?thesis using holds_stored [OF vc] by (auto split: sum.splits)
qed

section \<open>The stores behind the settings\<close>

text \<open>A store with the faults still to come; the two implementations of \<open>Persistence::save\<close> as savers.\<close>

type_synonym store = "fault list \<times> vault"

definition vault_saver :: "vault_code \<Rightarrow> store saver" where
  "vault_saver vc p vals = (case vault_save vc vals (fst p) (snd p) of (r, fs', v') \<Rightarrow> (r = Inr (), (fs', v')))"

definition file_saver :: "vault_code \<Rightarrow> store saver" where
  "file_saver vc p vals = (case file_save vc vals (fst p) (snd p) of (r, fs', v') \<Rightarrow> (r = Inr (), (fs', v')))"

definition file_stored :: "vault_code \<Rightarrow> vault \<Rightarrow> secret_values option" where
  "file_stored vc v = Option.bind (legacy_file v) (parse_values vc)"

lemma vault_saver_run:
  assumes "codec_ok vc \<and> vault_ok vc (snd p)" and "vault_saver vc p vals = (ok, p')"
  shows "vault_ok vc (snd p')" "ok \<Longrightarrow> stored vc (snd p') = Some vals" "stored vc (snd p') \<in> {stored vc (snd p), Some vals}"
proof -
  obtain r fs' v' where run: "vault_save vc vals (fst p) (snd p) = (r, fs', v')" by (cases "vault_save vc vals (fst p) (snd p)")
  then have p: "p' = (fs', v')" "ok \<longleftrightarrow> r = Inr ()" using assms(2) by (auto simp: vault_saver_def)
  have all: "vault_ok vc v' \<and> stored vc v' \<in> {stored vc (snd p), Some vals} \<and> (r = Inr () \<longrightarrow> stored vc v' = Some vals)"
    using save_run [of vc "snd p" vals "fst p" r fs' v'] assms(1) run by blast
  show "vault_ok vc (snd p')" "ok \<Longrightarrow> stored vc (snd p') = Some vals" "stored vc (snd p') \<in> {stored vc (snd p), Some vals}"
    using all p by auto
qed

interpretation vault_secrets: secret_persistence "vault_saver vc" "\<lambda>p. stored vc (snd p)" "\<lambda>p. codec_ok vc \<and> vault_ok vc (snd p)"
  for vc
  by unfold_locales (use vault_saver_run in blast)+

interpretation file_secrets: secret_persistence "file_saver vc" "\<lambda>p. file_stored vc (snd p)" "\<lambda>_. codec_ok vc"
  for vc
  by unfold_locales
    (auto simp: file_saver_def file_save_def write_legacy_def atomic_write_def file_fault_def file_stored_def codec_okD
      split: prod.splits if_splits)

text \<open>
  Revocation is durable. Over the vault, whatever its calls do, removing an escrow entry that does not
  report a failed save leaves neither the entry's secret nor its Cline session in memory, and the next
  start of the broker, in OS mode with its marker in place, loads a set of secrets without them. When
  the save fails the secrets in memory stay as they were.
\<close>

theorem removed_secret_stays_removed:
  assumes vc: "codec_ok vc" and ok: "vault_ok vc (snd (persistence (secrets s)))"
    and run: "remove_entry (vault_saver vc) written s name = (r, s')"
    and v: "v = snd (persistence (secrets s'))" and start: "legacy_file v = None" "marker_file v = Some MARKER"
  shows "(r = Inl Secret_save_failed \<longrightarrow> secret s' = secret s)
    \<and> (r \<noteq> Inl Secret_save_failed \<longrightarrow> secret s' name = None \<and> secret s' (session_secret_name name) = None
        \<and> (\<exists>vals fs' v'. open_store vc Os [] v = (Inr vals, fs', v')
            \<and> map_of vals name = None \<and> map_of vals (session_secret_name name) = None))"
proof (intro conjI impI)
  assume "r = Inl Secret_save_failed"
  then show "secret s' = secret s"
    using run by (auto simp: remove_entry_def secrets_save_def secret_def Let_def fun_eq_iff split: prod.splits if_splits)
next
  assume fine: "r \<noteq> Inl Secret_save_failed"
  have pre: "codec_ok vc \<and> vault_ok vc (snd (persistence (secrets s)))" using vc ok ..
  note revoked = vault_secrets.remove_entry_revokes [OF pre run fine]
  show gone: "secret s' name = None" "secret s' (session_secret_name name) = None" by (rule revoked)+
  have "vault_ok vc v" using vault_secrets.remove_entry_keeps_store [OF pre run] v by simp
  then have "holds vc (stored vc v) (legacy_file v) (marker_file v) v" by (rule holds_now [OF vc])
  then have "holds vc (Some (secret_map (secrets s'))) None (Some MARKER) v"
    using start revoked(3) unfolding v by simp
  moreover obtain x fs' v' where run': "open_store vc Os [] v = (x, fs', v')" by (cases "open_store vc Os [] v")
  ultimately have "x = Inr (secret_map (secrets s'))"
    using reopen_returns [OF vc] by blast
  then show "\<exists>vals fs' v'. open_store vc Os [] v = (Inr vals, fs', v') \<and> map_of vals name = None \<and> map_of vals (session_secret_name name) = None"
    using run' gone by (auto simp: secret_def)
qed

section \<open>Sample codecs\<close>

text \<open>
  Self-delimiting codes: a list is each element behind a \<open>1\<close>, closed by a \<open>0\<close>. They satisfy what is asked
  of the codecs, so the hypotheses above can be met.
\<close>

type_synonym 'a decoder = "string \<Rightarrow> ('a \<times> string) option"

definition code_list :: "('a \<Rightarrow> string) \<Rightarrow> 'a list \<Rightarrow> string" where
  "code_list c xs = concat (map (\<lambda>x. CHR ''1'' # c x) xs) @ ''0''"

fun uncode_list :: "'a decoder \<Rightarrow> string \<Rightarrow> 'a list decoder" where
  "uncode_list d [] s = None"
| "uncode_list d (f # fuel) [] = None"
| "uncode_list d (f # fuel) (c # s) =
     (if c = CHR ''0'' then Some ([], s)
      else case d s of None \<Rightarrow> None
        | Some (x, s1) \<Rightarrow> (case uncode_list d fuel s1 of None \<Rightarrow> None | Some (xs, s2) \<Rightarrow> Some (x # xs, s2)))"

lemma uncode_code_list:
  assumes "\<And>x rest. d (c x @ rest) = Some (x, rest)" and "length xs < length fuel"
  shows "uncode_list d fuel (code_list c xs @ rest) = Some (xs, rest)"
  using assms(2)
proof (induction xs arbitrary: fuel)
  case Nil
  then show ?case by (cases fuel) (simp_all add: code_list_def)
next
  case (Cons x xs)
  then obtain f fs where "fuel = f # fs" by (cases fuel) auto
  then show ?case using Cons by (simp add: code_list_def assms(1))
qed

lemma length_code_list: "length xs < length (code_list c xs)"
  by (induction xs) (simp_all add: code_list_def)

definition uncode :: "'a decoder \<Rightarrow> 'a list decoder" where
  "uncode d s = uncode_list d s s"

lemma uncode_code:
  assumes "\<And>x rest. d (c x @ rest) = Some (x, rest)"
  shows "uncode d (code_list c xs @ rest) = Some (xs, rest)"
  unfolding uncode_def by (rule uncode_code_list [OF assms]) (use length_code_list [of xs c] in simp)

definition one_char :: "char decoder" where
  "one_char s = (case s of [] \<Rightarrow> None | c # s' \<Rightarrow> Some (c, s'))"

abbreviation text_code :: "string \<Rightarrow> string" where
  "text_code \<equiv> code_list (\<lambda>c. [c])"

abbreviation text_decode :: "string decoder" where
  "text_decode \<equiv> uncode one_char"

definition pair_decode :: "'a decoder \<Rightarrow> 'b decoder \<Rightarrow> ('a \<times> 'b) decoder" where
  "pair_decode d e s = (case d s of None \<Rightarrow> None
     | Some (x, s1) \<Rightarrow> (case e s1 of None \<Rightarrow> None | Some (y, s2) \<Rightarrow> Some ((x, y), s2)))"

lemma text_decode_code: "text_decode (text_code s @ rest) = Some (s, rest)"
  by (rule uncode_code) (simp add: one_char_def)

abbreviation entry_code :: "string \<times> string \<Rightarrow> string" where
  "entry_code \<equiv> \<lambda>(k, x). text_code k @ text_code x"

lemma entry_decode_code: "pair_decode text_decode text_decode (entry_code kx @ rest) = Some (kx, rest)"
  by (cases kx) (simp add: pair_decode_def text_decode_code)

definition sample_to_values :: "secret_values \<Rightarrow> string" where
  "sample_to_values = code_list entry_code"

definition sample_parse_values :: "string \<Rightarrow> secret_values option" where
  "sample_parse_values s = map_option fst (uncode (pair_decode text_decode text_decode) s)"

lemma sample_values: "sample_parse_values (sample_to_values vals) = Some vals"
  using uncode_code [OF entry_decode_code, of vals "[]"] by (simp add: sample_parse_values_def sample_to_values_def)

lemma sample_nonempty: "sample_to_values vals \<noteq> []"
  by (simp add: sample_to_values_def code_list_def)

definition sample_uuid_text :: "uuid \<Rightarrow> string" where
  "sample_uuid_text n = replicate n CHR ''a''"

text \<open>A manifest as lists of texts: numbers in unary, an absent generation as no element.\<close>

definition generation_texts :: "Generation \<Rightarrow> string list" where
  "generation_texts g = [sample_uuid_text (gen_id g), sample_uuid_text (gen_chunks g), gen_digest g]"

definition sample_to_manifest :: "Manifest \<Rightarrow> string" where
  "sample_to_manifest m = code_list (code_list text_code)
     [[sample_uuid_text (m_version m)], concat (map generation_texts (opt_list (m_current m))),
      concat (map generation_texts (opt_list (m_pending m))), concat (map generation_texts (opt_list (m_retired m)))]"

definition texts_generation :: "string list \<Rightarrow> Generation option" where
  "texts_generation ts = (case ts of [i, n, d] \<Rightarrow> Some \<lparr>gen_id = length i, gen_chunks = length n, gen_digest = d\<rparr> | _ \<Rightarrow> None)"

definition sample_parse_manifest :: "string \<Rightarrow> Manifest option" where
  "sample_parse_manifest s = (case uncode (uncode text_decode) s of
       Some ([[v], c, p, r], _) \<Rightarrow>
         Some \<lparr>m_version = length v, m_current = texts_generation c, m_pending = texts_generation p, m_retired = texts_generation r\<rparr>
     | _ \<Rightarrow> None)"

lemma texts_generation_opt: "texts_generation (concat (map generation_texts (opt_list g))) = g"
  by (cases g) (simp_all add: texts_generation_def generation_texts_def opt_list_def sample_uuid_text_def)

lemma sample_manifest: "sample_parse_manifest (sample_to_manifest m) = Some m"
proof -
  have "uncode text_decode (code_list text_code ts @ rest) = Some (ts, rest)" for ts rest
    by (rule uncode_code) (rule text_decode_code)
  then have "uncode (uncode text_decode) (code_list (code_list text_code) tss @ []) = Some (tss, [])" for tss
    by (rule uncode_code)
  then show ?thesis by (simp add: sample_parse_manifest_def sample_to_manifest_def texts_generation_opt sample_uuid_text_def)
qed

definition sample_vc :: vault_code where
  "sample_vc = \<lparr>to_manifest = sample_to_manifest, parse_manifest = sample_parse_manifest, to_values = sample_to_values,
     parse_values = sample_parse_values, encode64 = (\<lambda>s. s), decode64 = Some,
     digest_hex = (\<lambda>_. replicate 64 CHR ''0''), uuid_text = sample_uuid_text\<rparr>"

lemma sample_codec: "codec_ok sample_vc"
proof -
  have hex: "is_ascii_hexdigit CHR ''0''" by code_simp
  have "inj sample_uuid_text"
    by (rule inj_on_inverseI [where g = length]) (simp add: sample_uuid_text_def)
  then show ?thesis using hex
    by (simp add: codec_ok_def sample_vc_def sample_values sample_manifest sample_nonempty list_all_iff)
qed

definition sample_vault :: vault where
  "sample_vault = \<lparr>cells = Map.empty, legacy_file = Some (sample_to_values [(''k'', ''s'')]), marker_file = None, fresh_uuid = 1\<rparr>"

lemma sample_vault_ok: "vault_ok sample_vc sample_vault"
  unfolding sample_vault_def by (rule empty_vault_ok)

lemma sample_stored: "stored sample_vc sample_vault = None"
  by (simp add: stored_def vault_load_def read_manifest_def bind_io_def cell_read_def next_fault_def sample_vault_def ret_def
      load_current_def EMPTY_MANIFEST_def cleanup_def opt_list_def)

lemma sample_size: "snapshot_size sample_vc [(''k'', ''s'')] \<le> MAX_CHUNKS"
  by code_simp

theorem vault_save_atomic_witness:
  "stored sample_vc (snd (snd (vault_save sample_vc [(''k'', ''s'')] [] sample_vault))) = Some [(''k'', ''s'')]"
proof -
  obtain r fs' v' where run: "vault_save sample_vc [(''k'', ''s'')] [] sample_vault = (r, fs', v')"
    by (cases "vault_save sample_vc [(''k'', ''s'')] [] sample_vault")
  show ?thesis using vault_save_atomic [OF sample_codec sample_vault_ok run] sample_size run by simp
qed

theorem vault_load_collects_witness:
  "fst (vault_load sample_vc [] sample_vault) = Inr (stored sample_vc sample_vault)"
proof -
  obtain r fs' v' where run: "vault_load sample_vc [] sample_vault = (r, fs', v')" by (cases "vault_load sample_vc [] sample_vault")
  have "r = Inr (stored sample_vc sample_vault)" using vault_load_collects [OF sample_codec sample_vault_ok run] by blast
  then show ?thesis unfolding run fst_conv .
qed

theorem migration_keeps_credentials_witness:
  "\<exists>fs' v'. open_store sample_vc Os [] sample_vault = (Inr [(''k'', ''s'')], fs', v') \<and> legacy_file v' = None"
proof -
  obtain r fs' v' where run: "open_store sample_vc Os [] sample_vault = (r, fs', v')" by (cases "open_store sample_vc Os [] sample_vault")
  have plain: "legacy_file sample_vault = Some (sample_to_values [(''k'', ''s'')])" by (simp add: sample_vault_def)
  have parse: "parse_values sample_vc (sample_to_values [(''k'', ''s'')]) = Some [(''k'', ''s'')]"
    by (simp add: sample_vc_def sample_values)
  have "migratable sample_vc (stored sample_vc sample_vault) (marker_file sample_vault) [(''k'', ''s'')]"
    unfolding sample_stored using sample_size by (simp add: migratable_def marker_fits_def agrees_def sample_vault_def)
  then show ?thesis using migration_keeps_credentials [OF sample_codec sample_vault_ok plain parse run] run by auto
qed

theorem initialized_store_has_no_fallback_witness:
  "\<exists>e fs' v'. open_store sample_vc File [] (sample_vault\<lparr>marker_file := Some MARKER\<rparr>) = (Inl e, fs', v')"
proof -
  let ?v = "sample_vault\<lparr>marker_file := Some MARKER\<rparr>"
  obtain r fs' v' where run: "open_store sample_vc File [] ?v = (r, fs', v')" by (cases "open_store sample_vc File [] ?v")
  have "vault_ok sample_vc ?v" unfolding sample_vault_def vault.simps by (rule empty_vault_ok)
  from initialized_store_has_no_fallback [OF sample_codec this _ _ run] show ?thesis using run by auto
qed

definition sample_vault_settings :: "store Settings" where
  "sample_vault_settings = \<lparr>escrow = [sample_entry], secrets = \<lparr>secret_map = [(''gh'', ''ghp-1'')],
     persistence = ([], sample_vault\<lparr>legacy_file := None, marker_file := Some MARKER\<rparr>)\<rparr>, escrow_file = None\<rparr>"

theorem removed_secret_stays_removed_witness:
  "secret (snd (remove_entry (vault_saver sample_vc) True sample_vault_settings ''gh'')) ''gh'' = None"
proof -
  let ?run = "remove_entry (vault_saver sample_vc) True sample_vault_settings ''gh''"
  have ok: "vault_ok sample_vc (snd (persistence (secrets sample_vault_settings)))"
    unfolding sample_vault_settings_def sample_vault_def by (simp add: empty_vault_ok)
  have run: "?run = (fst ?run, snd ?run)" by simp
  have fine: "fst ?run = Inr ()" by code_simp
  have start: "legacy_file (snd (persistence (secrets (snd ?run)))) = None"
    "marker_file (snd (persistence (secrets (snd ?run)))) = Some MARKER" by code_simp+
  show ?thesis using removed_secret_stays_removed [OF sample_codec ok run refl start] fine by simp
qed

end
