(* ===== verification/Lfs.thy ===== *)
theory Lfs
  imports Github
begin

text \<open>
  \<open>lfs.rs\<close>: which Git LFS batch requests are downloads and may pass the GitHub write gate. The reader of
  JSON text is a parameter (\<open>serde_json::from_slice\<close>, with the members of an object in text order,
  duplicates included); the derived deserializers of the three structs are modelled. Such a
  deserializer reads an object, refusing unknown and repeated members, or an array of the fields in
  their order.
\<close>

section \<open>The batch\<close>

record LfsObject =
  oid :: string
  object_size :: nat

record Batch =
  operation :: string
  transfers :: "string list option"
  batch_ref :: "string option"
  objects :: "LfsObject list"
  hash_algo :: "string option"

definition MEDIA_TYPE :: string where "MEDIA_TYPE = ''application/vnd.git-lfs+json''"
definition MAX_OBJECTS :: nat where "MAX_OBJECTS = 1000"

definition struct_members :: "string list \<Rightarrow> Json \<Rightarrow> (string, Json) alist option" where
  "struct_members names j =
     (case j of
        JObject m \<Rightarrow> if distinct (map fst m) \<and> list_all (\<lambda>(k, _). k \<in> set names) m then Some m else None
      | JArray xs \<Rightarrow> if length xs \<le> length names then Some (zip names xs) else None
      | _ \<Rightarrow> None)"

definition required :: "string \<Rightarrow> (Json \<Rightarrow> 'a option) \<Rightarrow> (string, Json) alist \<Rightarrow> 'a option" where
  "required k f m = Option.bind (map_of m k) f"

text \<open>An \<open>Option\<close> field with a default: absent and null read as \<open>None\<close>.\<close>

definition optional :: "string \<Rightarrow> (Json \<Rightarrow> 'a option) \<Rightarrow> (string, Json) alist \<Rightarrow> 'a option option" where
  "optional k f m =
     (case map_of m k of
        None \<Rightarrow> Some None
      | Some JNull \<Rightarrow> Some None
      | Some j \<Rightarrow> map_option Some (f j))"

fun all_some :: "'a option list \<Rightarrow> 'a list option" where
  "all_some [] = Some []"
| "all_some (x # xs) = (case x of None \<Rightarrow> None | Some y \<Rightarrow> map_option (Cons y) (all_some xs))"

definition vec_of :: "(Json \<Rightarrow> 'a option) \<Rightarrow> Json \<Rightarrow> 'a list option" where
  "vec_of f j = Option.bind (as_array j) (\<lambda>xs. all_some (map f xs))"

definition object_of_json :: "Json \<Rightarrow> LfsObject option" where
  "object_of_json j =
     Option.bind (struct_members [''oid'', ''size''] j) (\<lambda>m.
     Option.bind (required ''oid'' as_str m) (\<lambda>i.
     Option.bind (required ''size'' as_u64 m) (\<lambda>n. Some \<lparr>oid = i, object_size = n\<rparr>)))"

definition ref_of_json :: "Json \<Rightarrow> string option" where
  "ref_of_json j = Option.bind (struct_members [''name''] j) (required ''name'' as_str)"

definition batch_of_json :: "Json \<Rightarrow> Batch option" where
  "batch_of_json j =
     Option.bind (struct_members [''operation'', ''transfers'', ''ref'', ''objects'', ''hash_algo''] j) (\<lambda>m.
     Option.bind (required ''operation'' as_str m) (\<lambda>op.
     Option.bind (optional ''transfers'' (vec_of as_str) m) (\<lambda>ts.
     Option.bind (optional ''ref'' ref_of_json m) (\<lambda>r.
     Option.bind (required ''objects'' (vec_of object_of_json) m) (\<lambda>os.
     Option.bind (optional ''hash_algo'' as_str m) (\<lambda>h.
       Some \<lparr>operation = op, transfers = ts, batch_ref = r, objects = os, hash_algo = h\<rparr>))))))"

section \<open>Transport\<close>

definition valid_media_type :: "string \<Rightarrow> bool" where
  "valid_media_type v =
     (case map str_trim (split_on CHR '';'' v) of
        [] \<Rightarrow> False
      | media # parts \<Rightarrow>
          eq_ignore_ascii_case media MEDIA_TYPE
          \<and> list_all (\<lambda>p. eq_ignore_ascii_case p ''charset=utf-8''
                \<or> eq_ignore_ascii_case p (''charset='' @ [ch 34] @ ''utf-8'' @ [ch 34])) parts)"

definition is_batch_route :: "Request \<Rightarrow> bool" where
  "is_batch_route req \<longleftrightarrow>
     req_method req = ''POST'' \<and> scheme_str (uri req) = Some ''https''
     \<and> opt_any (\<lambda>h. eq_ignore_ascii_case h ''github.com'') (uri_host (uri req))
     \<and> opt_all (\<lambda>p. p = 443) (port_u16 (uri req))
     \<and> ends_with ''.git/info/lfs/objects/batch'' (path (uri req)) \<and> query (uri req) = None"

definition LFS_HEADERS :: "string list" where
  "LFS_HEADERS = [''authorization'', ''content-type'', ''content-length'', ''transfer-encoding'', ''host'',
     ''user-agent'', ''accept'', ''accept-encoding'', ''connection'']"

definition download_transport :: "Request \<Rightarrow> bool" where
  "download_transport req \<longleftrightarrow>
     \<not> (\<not> is_batch_route req \<or> get_header req ''content-encoding'' \<noteq> None)
     \<and> headers_allowed LFS_HEADERS [] (map fst (headers req))
     \<and> \<not> opt_any (\<lambda>v. \<not> opt_any (\<lambda>h. eq_ignore_ascii_case h ''github.com''
            \<or> eq_ignore_ascii_case h ''github.com:443'') (hv_str v)) (get_header req ''host'')
     \<and> \<not> opt_any (\<lambda>v. \<not> opt_any (\<lambda>s. eq_ignore_ascii_case s ''keep-alive''
            \<or> eq_ignore_ascii_case s ''close'') (hv_str v)) (get_header req ''connection'')
     \<and> opt_any valid_media_type (get_header_str req ''content-type'')
     \<and> opt_any (\<lambda>v. list_ex (\<lambda>p. valid_media_type (str_trim p)) (split_on CHR '','' v)) (get_header_str req ''accept'')"

section \<open>Recognition\<close>

definition transfer_char :: "char \<Rightarrow> bool" where
  "transfer_char c \<longleftrightarrow> is_ascii_alphanumeric c \<or> c \<in> set ''-_.''"

text \<open>The loop over the transfers with its set of those seen.\<close>

fun bad_transfer :: "string list \<Rightarrow> string list \<Rightarrow> bool" where
  "bad_transfer seen [] = False"
| "bad_transfer seen (v # vs) =
     (v = [] \<or> 64 < length v \<or> \<not> list_all transfer_char v \<or> v \<in> set seen \<or> bad_transfer (v # seen) vs)"

definition invalid_transfers :: "string list \<Rightarrow> bool" where
  "invalid_transfers vs \<longleftrightarrow> vs = [] \<or> 16 < length vs \<or> bad_transfer [] vs"

fun objects_ok :: "string list \<Rightarrow> LfsObject list \<Rightarrow> bool" where
  "objects_ok seen [] = True"
| "objects_ok seen (x # xs) =
     (length (oid x) = 64 \<and> list_all is_ascii_hexdigit (oid x) \<and> to_ascii_lowercase (oid x) \<notin> set seen
      \<and> object_size x \<le> 2 ^ 63 - 1 \<and> objects_ok (to_ascii_lowercase (oid x) # seen) xs)"

definition is_download :: "(string \<Rightarrow> Json option) \<Rightarrow> Request \<Rightarrow> string \<Rightarrow> bool" where
  "is_download from_slice req body =
     (if \<not> download_transport req then False
      else case Option.bind (from_slice body) batch_of_json of
          None \<Rightarrow> False
        | Some b \<Rightarrow>
            if operation b \<noteq> ''download'' \<or> objects b = [] \<or> MAX_OBJECTS < length (objects b)
               \<or> opt_any (\<lambda>a. a \<noteq> ''sha256'') (hash_algo b) \<or> opt_any invalid_transfers (transfers b)
               \<or> opt_any (\<lambda>n. n = [] \<or> 1024 < length n) (batch_ref b)
            then False
            else objects_ok [] (objects b))"

section \<open>What is recognised\<close>

lemma bad_transfer_iff:
  "\<not> bad_transfer seen vs \<longleftrightarrow>
     (\<forall>v \<in> set vs. v \<noteq> [] \<and> length v \<le> 64 \<and> list_all transfer_char v) \<and> distinct vs \<and> set vs \<inter> set seen = {}"
  by (induction vs arbitrary: seen) (auto simp: not_less)

lemma objects_ok_iff:
  "objects_ok seen xs \<longleftrightarrow>
     (\<forall>x \<in> set xs. length (oid x) = 64 \<and> list_all is_ascii_hexdigit (oid x) \<and> object_size x \<le> 2 ^ 63 - 1)
     \<and> distinct (map (to_ascii_lowercase \<circ> oid) xs) \<and> (to_ascii_lowercase \<circ> oid) ` set xs \<inter> set seen = {}"
  by (induction xs arbitrary: seen) auto

lemma batch_operation:
  assumes "batch_of_json j = Some b"
  shows "(\<exists>m. j = JObject m \<and> distinct (map fst m) \<and> (''operation'', JString (operation b)) \<in> set m)
    \<or> (\<exists>xs. j = JArray (JString (operation b) # xs))"
proof -
  obtain m where m: "struct_members [''operation'', ''transfers'', ''ref'', ''objects'', ''hash_algo''] j = Some m"
      "required ''operation'' as_str m = Some (operation b)"
    using assms unfolding batch_of_json_def by (auto simp: bind_eq_Some_conv)
  then have op: "map_of m ''operation'' = Some (JString (operation b))"
    by (auto simp: required_def bind_eq_Some_conv)
  show ?thesis
  proof (cases j)
    case (JObject m')
    then show ?thesis using m(1) map_of_SomeD [OF op] by (auto simp: struct_members_def split: if_splits)
  next
    case (JArray xs)
    then show ?thesis using m(1) op by (cases xs) (auto simp: struct_members_def split: if_splits)
  qed (use m(1) in \<open>auto simp: struct_members_def\<close>)
qed

text \<open>
  C33. Only downloads pass. A batch that is recognised goes over https to the batch endpoint of a
  repository of github.com, and every member of its body called \<open>operation\<close>, however often it would
  appear, says \<open>download\<close>; it names at most 1000 objects, all different by their SHA-256 in any case of
  letters. An upload is never recognised, whichever of two repeated members the server would read.
\<close>

theorem is_download_sound:
  assumes "is_download from_slice req body"
  shows "is_batch_route req \<and> (\<exists>j b. from_slice body = Some j \<and> batch_of_json j = Some b
    \<and> (\<forall>m v. j = JObject m \<longrightarrow> (''operation'', v) \<in> set m \<longrightarrow> v = JString ''download'')
    \<and> objects b \<noteq> [] \<and> length (objects b) \<le> 1000 \<and> distinct (map (to_ascii_lowercase \<circ> oid) (objects b))
    \<and> (\<forall>x \<in> set (objects b). length (oid x) = 64 \<and> list_all is_ascii_hexdigit (oid x) \<and> object_size x < 2 ^ 63))"
proof -
  from assms have route: "is_batch_route req" by (simp add: is_download_def download_transport_def split: if_splits)
  from assms obtain j b where b: "from_slice body = Some j" "batch_of_json j = Some b" "operation b = ''download''"
      "objects b \<noteq> []" "length (objects b) \<le> MAX_OBJECTS" "objects_ok [] (objects b)"
    by (auto simp: is_download_def bind_eq_Some_conv not_less split: if_splits option.splits)
  have "v = JString ''download''" if "j = JObject m" "(''operation'', v) \<in> set m" for m v
    using batch_operation [OF b(2)] that b(3) by (auto dest: eq_key_imp_eq_value)
  then show ?thesis using route b objects_ok_iff [of "[]" "objects b"] by (fastforce simp: MAX_OBJECTS_def)
qed

definition sample_lfs_request :: Request where
  "sample_lfs_request = \<lparr>req_method = ''POST'',
     uri = \<lparr>uri_text = ''https://github.com/o/r.git/info/lfs/objects/batch'', scheme_str = Some ''https'',
       uri_host = Some ''github.com'', port_u16 = None, path = ''/o/r.git/info/lfs/objects/batch'', query = None\<rparr>,
     headers = [(''content-type'', \<lparr>hv_bytes = MEDIA_TYPE, hv_str = Some MEDIA_TYPE\<rparr>),
       (''accept'', \<lparr>hv_bytes = MEDIA_TYPE, hv_str = Some MEDIA_TYPE\<rparr>)]\<rparr>"

definition sample_lfs_json :: Json where
  "sample_lfs_json = JObject [(''operation'', JString ''download''),
     (''objects'', JArray [JObject [(''oid'', JString (replicate 64 CHR ''a'')), (''size'', JInt 3)]])]"

theorem is_download_sound_witness:
  "is_batch_route sample_lfs_request \<and> is_download (\<lambda>_. Some sample_lfs_json) sample_lfs_request ''''"
proof -
  have "is_download (\<lambda>_. Some sample_lfs_json) sample_lfs_request ''''" by code_simp
  then show ?thesis using is_download_sound by blast
qed

end
