(* ===== verification/Proxy.thy ===== *)
theory Proxy
  imports App_Policy Graphql_Comment Lfs
begin

text \<open>
  \<open>proxy.rs\<close>: the handler of one proxied request, from the identity of the peer to the request that goes
  upstream. It composes the gates, the policy, the review queue and the substitution of credentials.

  The handler takes several locks and awaits several events. Whatever other tasks do to the state
  meanwhile is a list of operations: \<open>gap w k\<close> before the \<open>k\<close>-th critical section, \<open>during_body\<close>,
  \<open>during_lookup\<close> and \<open>during_wait\<close> while the handler awaits. The settings and the clock may differ
  each time they are read (\<open>cfg w k\<close>, \<open>now w k\<close>). Of the tracing only what reaches the network is here: the trace
  headers of a forwarded request. What the propagator would write for the client span is \<open>client_context w\<close>, or None
  when the context of the span is not valid. Spans, events and counters are left out.
\<close>

section \<open>Handler and messages\<close>

record EventHandler =
  pending_upstream :: "(uuid \<times> string) option"
  tunnel_identity :: "string option"
  tunnel_requires_pin :: bool
  management_port :: nat
  bootstrap_port :: nat
  broker_proxy :: "(IpAddr \<times> nat) option"
  response_watch :: "uuid option"

definition new_handler :: "nat \<Rightarrow> nat \<Rightarrow> EventHandler" where
  "new_handler management bootstrap =
     \<lparr>pending_upstream = None, tunnel_identity = None, tunnel_requires_pin = False, management_port = management,
      bootstrap_port = bootstrap, broker_proxy = None, response_watch = None\<rparr>"

definition protect_broker_listener :: "IpAddr \<times> nat \<Rightarrow> EventHandler \<Rightarrow> EventHandler" where
  "protect_broker_listener addr h = h\<lparr>broker_proxy := Some addr\<rparr>"

record Response =
  response_status :: nat
  response_fields :: "(string \<times> string) list"
  response_body :: string

text \<open>The body of a forwarded request: the guest's stream, or bytes the broker holds.\<close>

datatype Body = Stream | Bytes string

datatype RequestOrResponse = Answer Response | Tunnel Request | Forward Request Body

datatype body_read = Body_timeout | Body_error | Collected string bool

record proxy_code =
  net :: net_code
  crypto :: crypto_code
  views :: view_code
  view_comment :: "Json \<Rightarrow> CommentPlan option"
  uri_eq :: "Uri \<Rightarrow> string \<Rightarrow> bool"
  json_read :: "string \<Rightarrow> Json option"
  json_write :: "Json \<Rightarrow> string"
  show_uuid :: "uuid \<Rightarrow> string"
  parse_header_name :: "string \<Rightarrow> string option"
  parse_header_value :: "string \<Rightarrow> header_value option"
  endpoint_uri :: Uri

record 'p waits =
  now :: "nat \<Rightarrow> clock"
  cfg :: "nat \<Rightarrow> 'p Settings"
  gap :: "nat \<Rightarrow> state_op list"
  slot_free :: bool
  body_outcome :: body_read
  during_body :: "state_op list"
  lookup_permit :: bool
  lookup_reply :: http_outcome
  during_lookup :: "state_op list"
  during_wait :: "state_op list"
  client_context :: "(string \<times> string) list option"

definition denial :: "string \<Rightarrow> Response" where
  "denial why = \<lparr>response_status = 403, response_fields = [], response_body = why\<rparr>"

text \<open>\<open>HeaderMap::remove\<close> and \<open>insert\<close>; \<open>get\<close> with a text folds its case.\<close>

definition remove_header :: "string \<Rightarrow> Request \<Rightarrow> Request" where
  "remove_header n req = req\<lparr>headers := filter (\<lambda>(m, _). m \<noteq> n) (headers req)\<rparr>"

definition insert_header :: "string \<Rightarrow> header_value \<Rightarrow> Request \<Rightarrow> Request" where
  "insert_header n v req = req\<lparr>headers := filter (\<lambda>(m, _). m \<noteq> n) (headers req) @ [(n, v)]\<rparr>"

definition header_lookup :: "Request \<Rightarrow> string \<Rightarrow> string option" where
  "header_lookup req n = get_header_str req (to_ascii_lowercase n)"

definition host_of :: "Request \<Rightarrow> string" where
  "host_of req = (case uri_host (uri req) of None \<Rightarrow> [] | Some h \<Rightarrow> h)"

section \<open>Identity\<close>

definition PROXY_AUTHORIZATION :: string where
  "PROXY_AUTHORIZATION = ''proxy-authorization''"

definition basic_username :: "net_code \<Rightarrow> string \<Rightarrow> string option" where
  "basic_username nc v =
     Option.bind (strip_prefix ''Basic '' v) (\<lambda>encoded.
     Option.bind (b64_decode nc encoded) (\<lambda>decoded.
       if \<not> valid_utf8 decoded then None
       else Option.bind (split_once CHR '':'' decoded) (\<lambda>(username, _). if username = [] then None else Some username)))"

definition identify :: "proxy_code \<Rightarrow> clock \<Rightarrow> EventHandler \<Rightarrow> Request \<Rightarrow> IpAddr \<Rightarrow> AppState
    \<Rightarrow> (string + string \<times> Authorization) \<times> AppState" where
  "identify pc t h req peer s =
     (case tunnel_identity h of
        Some c \<Rightarrow>
          if tunnel_requires_pin h
          then (case authorize_proxy_peer t peer None s of
                  (Inl e, s') \<Rightarrow> (Inl e, s')
                | (Inr ident, s') \<Rightarrow>
                    if fst ident \<noteq> c then (Inl ''source address no longer owns the intercepted tunnel'', s')
                    else (Inr ident, s'))
          else authorize_proxy_peer t peer (Some c) s
      | None \<Rightarrow>
          authorize_proxy_peer t peer
            (Option.bind (get_header_str req PROXY_AUTHORIZATION) (basic_username (net pc))) s)"

section \<open>Destinations\<close>

definition destination_port :: "Uri \<Rightarrow> nat option" where
  "destination_port u =
     (case port_u16 u of
        Some p \<Rightarrow> Some p
      | None \<Rightarrow> if scheme_str u = Some ''http'' then Some 80 else if scheme_str u = Some ''https'' then Some 443 else None)"

definition broker_destination_denial :: "url_parser \<Rightarrow> EventHandler \<Rightarrow> Uri \<Rightarrow> string option" where
  "broker_destination_denial up h u =
     (case broker_proxy h of
        None \<Rightarrow> None
      | Some (proxy_ip, proxy_port) \<Rightarrow>
          if destination_port u = Some proxy_port
          then Some ''friendzone: proxy access to the proxy listener is forbidden; contact guest services directly''
          else if opt_any (loopback_host up) (uri_host u) then None
          else case Option.bind (uri_host u) (normalize_host up) of
              None \<Rightarrow> None
            | Some host \<Rightarrow>
                (case parse_ip (trim_matches bracket host) of
                   None \<Rightarrow> None
                 | Some ip \<Rightarrow>
                     (let ip' = (case ip of V6 v6 \<Rightarrow> (case to_ipv4 v6 of None \<Rightarrow> ip | Some v4 \<Rightarrow> V4 v4) | _ \<Rightarrow> ip) in
                      if proxy_ip = ip' \<and> destination_port u \<noteq> Some (bootstrap_port h)
                      then Some ''friendzone: proxy access to the broker host is forbidden except on the guest-services listener''
                      else None)))"

definition destination_denial :: "url_parser \<Rightarrow> Uri \<Rightarrow> nat \<Rightarrow> nat \<Rightarrow> string option" where
  "destination_denial up u management bootstrap =
     (if destination_port u = Some management
      then Some ''friendzone: proxy access to the management UI port is forbidden''
      else if opt_any (\<lambda>h. is_infrastructure_host up h = Some True) (uri_host u)
      then Some ''friendzone: proxy access to instance-local infrastructure is forbidden; configure NO_PROXY/no_proxy for GCE metadata and link-local destinations and restart the guest client''
      else if opt_any (loopback_host up) (uri_host u) \<and> (bootstrap = 0 \<or> destination_port u \<noteq> Some bootstrap)
      then Some ''friendzone: proxy access to host loopback is forbidden except on the configured bootstrap port; configure NO_PROXY/no_proxy for localhost,127.0.0.1,::1,[::1] and restart the guest client''
      else None)"

definition any_denial :: "url_parser \<Rightarrow> EventHandler \<Rightarrow> Uri \<Rightarrow> string option" where
  "any_denial up h u =
     (case broker_destination_denial up h u of
        Some r \<Rightarrow> Some r
      | None \<Rightarrow> destination_denial up u (management_port h) (bootstrap_port h))"

section \<open>The gates in front of a request\<close>

text \<open>The end of the handler, or the request with its guest, log event and whether it needs a review.\<close>

datatype stage = Done RequestOrResponse | Go string uuid bool Request

text \<open>The record of a refused request: its log row and the response.\<close>

definition refuse :: "clock \<Rightarrow> string \<Rightarrow> Request \<Rightarrow> string \<Rightarrow> AppState \<Rightarrow> stage \<times> AppState" where
  "refuse t c req why s =
     (case record_request t c (req_method req) (uri_text (uri req)) Blocked_verdict s of
        (i, s') \<Rightarrow> (Done (Answer (denial why)), annotate i (Some 403) (Some why) s'))"

definition SYNTHETIC_NOTE :: string where
  "SYNTHETIC_NOTE = ''friendzone: answered locally with an empty cloud-session list (basic Cline access); not forwarded''"

definition gate_policy :: "proxy_code \<Rightarrow> 'p waits \<Rightarrow> string \<Rightarrow> bool \<Rightarrow> Request \<Rightarrow> EventHandler \<Rightarrow> AppState
    \<Rightarrow> stage \<times> EventHandler \<times> AppState" where
  "gate_policy pc w c dead req h s =
     (let up = url_parse (net pc);
          needs_review = (classify up req (github_policy s) = RequireReview);
          s1 = run (gap w 1) s;
          cline = (if dead then ClineVerdict.Allow
                   else cline_verdict up req (cline_access s1 c)
                     (is_cline_credential_host up (parse_session (net pc)) (cfg w 0)));
          blocked = (dead \<or> cline \<noteq> ClineVerdict.Allow);
          (i, s2) = record_request (now w 1) c (req_method req) (uri_text (uri req))
            (if blocked then Blocked_verdict else if needs_review then Pending_verdict else Allowed_verdict) (run (gap w 2) s1);
          h' = (if blocked then h else h\<lparr>pending_upstream := Some (i, host_of req)\<rparr>)
      in if dead
         then (Done (Answer (denial ''container is killed'')), h', annotate i (Some 403) (Some ''container is killed'') s2)
         else case cline of
             ClineVerdict.Deny why \<Rightarrow> (Done (Answer (denial why)), h', annotate i (Some 403) (Some why) s2)
           | ClineVerdict.Synthetic body \<Rightarrow>
               (Done (Answer \<lparr>response_status = 200,
                  response_fields = [(''content-type'', ''application/json''), (''cache-control'', ''no-store'')],
                  response_body = body\<rparr>), h', annotate i (Some 200) (Some SYNTHETIC_NOTE) s2)
           | ClineVerdict.Allow \<Rightarrow> (Go c i needs_review req, h', s2))"

definition gate_request :: "proxy_code \<Rightarrow> 'p waits \<Rightarrow> IpAddr \<Rightarrow> Request \<Rightarrow> EventHandler \<Rightarrow> AppState
    \<Rightarrow> stage \<times> EventHandler \<times> AppState" where
  "gate_request pc w peer req0 h0 s =
     (let h = h0\<lparr>pending_upstream := None, response_watch := None\<rparr>;
          hint = (get_header req0 PROXY_AUTHORIZATION \<noteq> None);
          credential_free_connect = (tunnel_identity h = None \<and> \<not> hint);
          has_presented_identity = (tunnel_identity h \<noteq> None \<or> hint)
      in case identify pc (now w 0) h req0 peer s of
          (Inl e, s1) \<Rightarrow>
            if \<not> has_presented_identity
            then (Done (Answer \<lparr>response_status = 407,
                    response_fields = [(''proxy-authenticate'', ''Basic realm='' @ [ch 34] @ ''Friendzone'' @ [ch 34])],
                    response_body = ''friendzone: '' @ e @ ''; credential-free proxy use requires a unique IP pin''\<rparr>), h, s1)
            else (Done (Answer (denial (''friendzone: '' @ e))), h, s1)
        | (Inr (c, auth), s1) \<Rightarrow>
            (let req = remove_header PROXY_AUTHORIZATION req0 in
             if auth \<noteq> Allowed
             then (case refuse (now w 1) c req
                     (if auth = Pending_approval
                      then ''friendzone: container awaiting approval; use Approve + pin IP in the UI inbox''
                      else ''friendzone: container name is pinned to a different address'') s1 of
                     (out, s2) \<Rightarrow> (out, h, s2))
             else
               (let s2 = run (gap w 0) s1; dead = is_killed s2 c in
                case any_denial (url_parse (net pc)) h (uri req) of
                  Some why \<Rightarrow> (case refuse (now w 1) c req why s2 of (out, s3) \<Rightarrow> (out, h, s3))
                | None \<Rightarrow>
                    if req_method req = ''CONNECT'' \<and> \<not> dead
                    then (Done (Tunnel req),
                          h\<lparr>tunnel_identity := Some c, tunnel_requires_pin := credential_free_connect\<rparr>, s2)
                    else gate_policy pc w c dead req h s2)))"

section \<open>Awaiting a review\<close>

definition block_text :: "block_reason \<Rightarrow> string" where
  "block_text b =
     (case b of
        Refresh_is_host_owned \<Rightarrow> ''friendzone: Cline OAuth refresh is host-owned; reconnect it in Friendzone settings''
      | Fake_to_unpinned_host n host \<Rightarrow>
          ''friendzone: fake credential '' @ [ch 39] @ n @ [ch 39] @ '' sent to non-pinned host '' @ host
      | No_real_value n \<Rightarrow> ''friendzone: no real value for '' @ [ch 39] @ n @ [ch 39] @ '' (connect it in settings)''
      | Invalid_for_basic n \<Rightarrow>
          ''friendzone: real value for '' @ [ch 39] @ n @ [ch 39] @ '' is invalid for Basic authentication'')"

text \<open>What a review ends with: nothing yet, an error, or the request that may go on.\<close>

type_synonym verdict_of_review = "(string + Request \<times> Body) option \<times> AppState"

definition not_forwarded :: "string \<Rightarrow> AppState \<Rightarrow> verdict_of_review" where
  "not_forwarded why s = (Some (Inl (''friendzone: GitHub request not forwarded: '' @ why)), s)"

definition substituted :: "proxy_code \<Rightarrow> 'p Settings \<Rightarrow> Request \<Rightarrow> Substitution" where
  "substituted pc st req = substitute (net pc) st (host_of req) (path (uri req)) (header_lookup req)"

text \<open>The checks before the body is read.\<close>

definition review_precheck :: "proxy_code \<Rightarrow> 'p waits \<Rightarrow> Request \<Rightarrow> string option" where
  "review_precheck pc w req =
     (case substituted pc (cfg w 1) req of
        Block b \<Rightarrow> Some (block_text b)
      | _ \<Rightarrow>
          if get_header req ''content-encoding'' \<noteq> None \<or> ends_with ''/git-receive-pack'' (path (uri req))
          then Some (case policy_note RequireReview of None \<Rightarrow> ''unreviewable request'' | Some n \<Rightarrow> n)
          else if \<not> slot_free w then Some ''review buffer capacity exceeded''
          else None)"

definition collect_body :: "'p waits \<Rightarrow> string + string" where
  "collect_body w =
     (case body_outcome w of
        Body_timeout \<Rightarrow> Inl ''request body upload timed out''
      | Body_error \<Rightarrow> Inl ''request body exceeds 64 KiB or could not be read''
      | Collected bytes trailers \<Rightarrow>
          if MAX_BODY < length bytes then Inl ''request body exceeds 64 KiB or could not be read''
          else if trailers then Inl ''HTTP trailers are not reviewable''
          else Inr bytes)"

definition plain_header :: "string \<Rightarrow> header_value" where
  "plain_header v = \<lparr>hv_bytes = v, hv_str = Some v\<rparr>"

text \<open>The command the broker sends in place of the guest's own request.\<close>

definition reconstruct :: "proxy_code \<Rightarrow> CommentPlan \<Rightarrow> Github.Target \<Rightarrow> Credential \<Rightarrow> Request \<times> Body" where
  "reconstruct pc plan target cred =
     (\<lparr>req_method = ''POST'', uri = endpoint_uri pc,
        headers = [(''content-type'', plain_header ''application/json''), (''accept'', plain_header ''application/json''),
          (''user-agent'', plain_header ''Friendzone comment permission''),
          (''authorization'', plain_header (credential_header cred))]\<rparr>,
      Bytes (json_write pc (request_body (plan\<lparr>subject_id := target_node_id target\<rparr>))))"

definition redact_entries :: "EscrowEntry list \<Rightarrow> Detail \<Rightarrow> Detail" where
  "redact_entries es d = d\<lparr>detail_headers := map (\<lambda>(n, v).
     (n, if list_ex (\<lambda>e. eq_ignore_ascii_case n (header e)) es then ''[redacted]'' else v)) (detail_headers d)\<rparr>"

text \<open>The queue: enqueue, wait for the host, and ask for the policy once more.\<close>

definition await_decision :: "proxy_code \<Rightarrow> 'p waits \<Rightarrow> string \<Rightarrow> IpAddr \<Rightarrow> uuid \<Rightarrow> uuid \<Rightarrow> Request \<Rightarrow> string \<Rightarrow> Detail
    \<Rightarrow> AppState \<Rightarrow> verdict_of_review" where
  "await_decision pc w c peer ev epoch req bytes d s =
     (let s1 = annotate ev None (Some (''awaiting host review '' @ show_uuid pc ev @ '' (120s limit)'')) s in
      case enqueue_review (now w 3) (redact_entries (escrow (cfg w 3)) d) peer epoch (run (gap w 5) s1) of
        (Inl e, s2) \<Rightarrow> not_forwarded e s2
      | (Inr i, s2) \<Rightarrow>
          (let s3 = run (during_wait w) s2 in
           case ticket_wait (now w 4) (mono (now w 3) + WAIT_LIMIT) i (reviews s3) of
             (None, q) \<Rightarrow> (None, s3\<lparr>reviews := q\<rparr>)
           | (Some (Inl e), q) \<Rightarrow> not_forwarded e (s3\<lparr>reviews := q\<rparr>)
           | (Some (Inr Decision_kind.Deny), q) \<Rightarrow> not_forwarded ''denied by host reviewer'' (s3\<lparr>reviews := q\<rparr>)
           | (Some (Inr Decision_kind.Approve), q) \<Rightarrow>
               (case admit_review (now w 5) ev c peer epoch (run (gap w 6) (s3\<lparr>reviews := q\<rparr>)) of
                  (False, s4) \<Rightarrow> not_forwarded ''container policy changed while awaiting approval'' s4
                | (True, s4) \<Rightarrow> (Some (Inr (req, Bytes bytes)), s4))))"

text \<open>A comment that a permission of the guest covers goes out as the broker's own command.\<close>

definition comment_context_of :: "Credential \<Rightarrow> CommentPlan \<Rightarrow> uuid \<Rightarrow> uuid \<Rightarrow> CommentContext" where
  "comment_context_of cred plan epoch revision =
     \<lparr>context_binding = credential_binding cred, context_subject = subject_id plan, context_epoch = epoch,
      context_revision = revision\<rparr>"

definition granted_comment :: "proxy_code \<Rightarrow> 'p waits \<Rightarrow> string \<Rightarrow> IpAddr \<Rightarrow> uuid \<Rightarrow> uuid \<Rightarrow> Credential \<Rightarrow> CommentPlan
    \<Rightarrow> AppState \<Rightarrow> (Request \<times> Body) option \<times> AppState" where
  "granted_comment pc w c peer ev epoch cred plan s =
     (let grants = comment_permissions_for s c (credential_binding cred) in
      if grants = [] then (None, s)
      else
        (let s1 = run (during_lookup w) s in
         case resolve_node (json_read pc) (lookup_permit w) (lookup_reply w) (subject_id plan) of
           Inl _ \<Rightarrow> (None, s1)
         | Inr target \<Rightarrow>
             (case find (\<lambda>g. same_identity (grant_target g) target) grants of
                None \<Rightarrow> (None, s1)
              | Some g \<Rightarrow>
                  if current (net pc) (crypto pc) (cfg w 2) (credential_binding cred) = None then (None, s1)
                  else (case admit_comment (show_uuid pc) ev c peer epoch g target s1 of
                          (True, s2) \<Rightarrow> (Some (reconstruct pc plan target cred), s2)
                        | (False, s2) \<Rightarrow> (None, s2)))))"

definition review_detail :: "proxy_code \<Rightarrow> 'p waits \<Rightarrow> string \<Rightarrow> IpAddr \<Rightarrow> uuid \<Rightarrow> uuid \<Rightarrow> Request \<Rightarrow> string \<Rightarrow> Detail
    \<Rightarrow> AppState \<Rightarrow> verdict_of_review" where
  "review_detail pc w c peer ev epoch req bytes d s =
     (case (comment_credential (net pc) (crypto pc) (uri_eq pc) (cfg w 6) req, Option.bind (graphql d) (view_comment pc)) of
        (Some cred, Some plan) \<Rightarrow>
          (case comment_revision_of s c of
             None \<Rightarrow> not_forwarded ''container was removed'' s
           | Some revision \<Rightarrow>
               (let d1 = d\<lparr>comment_permission_supported := True,
                      comment_context := Some (comment_context_of cred plan epoch revision)\<rparr> in
                case granted_comment pc w c peer ev epoch cred plan (run (gap w 4) s) of
                  (Some out, s1) \<Rightarrow> (Some (Inr out), s1)
                | (None, s1) \<Rightarrow> await_decision pc w c peer ev epoch req bytes d1 s1))
      | _ \<Rightarrow> await_decision pc w c peer ev epoch req bytes d s)"

definition review_body :: "proxy_code \<Rightarrow> 'p waits \<Rightarrow> string \<Rightarrow> IpAddr \<Rightarrow> uuid \<Rightarrow> uuid \<Rightarrow> Request \<Rightarrow> string
    \<Rightarrow> AppState \<Rightarrow> verdict_of_review" where
  "review_body pc w c peer ev epoch req bytes s =
     (if is_batch_route req then
        (if \<not> is_download (json_read pc) req bytes
         then not_forwarded ''Git LFS uploads and malformed/unsupported batch requests remain blocked'' s
         else case admit_lfs_download ev c peer epoch s of
             (False, s1) \<Rightarrow> not_forwarded ''container policy changed while reading the Git LFS batch body'' s1
           | (True, s1) \<Rightarrow> (Some (Inr (req, Bytes bytes)), s1))
      else case from_request (views pc) (sha256_hex (crypto pc)) (now w 2) ev c req bytes of
          Inl e \<Rightarrow> not_forwarded e s
        | Inr d \<Rightarrow>
            (let d' = d\<lparr>summary := (summary d)\<lparr>summary_id := ev,
                   display_binding := map_option credential_binding (display_credential (net pc) (crypto pc) (cfg w 5) req)\<rparr>\<rparr> in
             if graphql_read d' then
               (case admit_graphql_read ev c peer epoch s of
                  (False, s1) \<Rightarrow> not_forwarded ''container policy changed while reading the GraphQL body'' s1
                | (True, s1) \<Rightarrow> (Some (Inr (req, Bytes bytes)), s1))
             else review_detail pc w c peer ev epoch req bytes d' s))"

definition review_held :: "proxy_code \<Rightarrow> 'p waits \<Rightarrow> string \<Rightarrow> IpAddr \<Rightarrow> uuid \<Rightarrow> Request \<Rightarrow> AppState \<Rightarrow> verdict_of_review" where
  "review_held pc w c peer ev req s =
     (case review_epoch s c peer of
        None \<Rightarrow> not_forwarded ''container is no longer authorized'' s
      | Some epoch \<Rightarrow>
          (case review_precheck pc w req of
             Some why \<Rightarrow> not_forwarded why s
           | None \<Rightarrow>
               (case collect_body w of
                  Inl why \<Rightarrow> not_forwarded why (run (during_body w) s)
                | Inr bytes \<Rightarrow> review_body pc w c peer ev epoch req bytes (run (during_body w) s))))"

text \<open>\<open>ReviewLogGuard::drop\<close>: every way out but the successful ones marks the event.\<close>

definition guard_drop :: "clock \<Rightarrow> uuid \<Rightarrow> AppState \<Rightarrow> AppState" where
  "guard_drop t ev s =
     mark_blocked t ev 403 ''review cancelled; waiting proxy handler ended without forwarding''
       (s\<lparr>reviews := observe t ev Cancelled None ''Review cancelled before forwarding. Not sent.'' (reviews s)\<rparr>)"

definition await_review :: "proxy_code \<Rightarrow> 'p waits \<Rightarrow> string \<Rightarrow> IpAddr \<Rightarrow> Request \<Rightarrow> uuid \<Rightarrow> AppState \<Rightarrow> verdict_of_review" where
  "await_review pc w c peer req ev s =
     (case review_held pc w c peer ev req s of
        (Some (Inl e), s1) \<Rightarrow> (Some (Inl e), guard_drop (now w 6) ev s1)
      | (r, s1) \<Rightarrow> (r, s1))"

section \<open>Trace headers\<close>

text \<open>\<open>HeaderInjector::set\<close> of telemetry.rs: what is no header is dropped.\<close>

definition set_field :: "proxy_code \<Rightarrow> string \<times> string \<Rightarrow> Request \<Rightarrow> Request" where
  "set_field pc kv req =
     (case parse_header_name pc (fst kv) of
        None \<Rightarrow> req
      | Some n \<Rightarrow> (case parse_header_value pc (snd kv) of None \<Rightarrow> req | Some v \<Rightarrow> insert_header n v req))"

text \<open>\<open>telemetry::inject\<close>: the trace headers of the guest go, those of the client span come.\<close>

definition inject :: "proxy_code \<Rightarrow> (string \<times> string) list option \<Rightarrow> Request \<Rightarrow> Request" where
  "inject pc ctx req =
     (let clean = remove_header ''tracestate'' (remove_header ''traceparent'' req) in
      case ctx of None \<Rightarrow> clean | Some written \<Rightarrow> fold (set_field pc) written clean)"

definition begin_forwarding :: "proxy_code \<Rightarrow> 'p waits \<Rightarrow> EventHandler \<Rightarrow> Request \<Rightarrow> Request" where
  "begin_forwarding pc w h req = (if pending_upstream h = None then req else inject pc (client_context w) req)"

section \<open>Substitution and the whole handler\<close>

definition forward_substituted :: "proxy_code \<Rightarrow> 'p waits \<Rightarrow> uuid \<Rightarrow> Request \<Rightarrow> Body \<Rightarrow> EventHandler \<Rightarrow> AppState
    \<Rightarrow> RequestOrResponse option \<times> EventHandler \<times> AppState" where
  "forward_substituted pc w i req body h s =
     (case substituted pc (cfg w 4) req of
        SubNone \<Rightarrow> (Some (Forward (begin_forwarding pc w h req) body), h, s)
      | Replace hdr v \<Rightarrow>
          (Some (Forward (begin_forwarding pc w h (case parse_header_value pc v of
              None \<Rightarrow> req | Some hv \<Rightarrow> insert_header (to_ascii_lowercase hdr) hv req)) body), h, s)
      | Block b \<Rightarrow>
          (Some (Answer (denial (block_text b))), h\<lparr>pending_upstream := None\<rparr>, mark_blocked (now w 7) i 403 (block_text b) s))"

definition handle_from_peer :: "proxy_code \<Rightarrow> 'p waits \<Rightarrow> IpAddr \<Rightarrow> Request \<Rightarrow> EventHandler \<Rightarrow> AppState
    \<Rightarrow> RequestOrResponse option \<times> EventHandler \<times> AppState" where
  "handle_from_peer pc w peer req h s =
     (case gate_request pc w peer req h s of
        (Done out, h1, s1) \<Rightarrow> (Some out, h1, s1)
      | (Go c i needs_review req1, h1, s1) \<Rightarrow>
          if \<not> needs_review then forward_substituted pc w i req1 Stream h1 (run (gap w 3) s1)
          else case await_review pc w c peer req1 i (run (gap w 3) s1) of
              (None, s2) \<Rightarrow> (None, h1, s2)
            | (Some (Inl why), s2) \<Rightarrow>
                (Some (Answer (denial why)), h1\<lparr>pending_upstream := None\<rparr>, mark_blocked (now w 7) i 403 why s2)
            | (Some (Inr (req2, body)), s2) \<Rightarrow>
                forward_substituted pc w i req2 body (h1\<lparr>response_watch := Some i\<rparr>) s2)"

section \<open>Responses\<close>

text \<open>
  \<open>handle_error\<close>: the transport failed. Whether the connection was made and the text of the failure come
  from the HTTP client.
\<close>

definition handle_error :: "clock \<Rightarrow> bool \<Rightarrow> string \<Rightarrow> EventHandler \<Rightarrow> AppState \<Rightarrow> Response \<times> EventHandler \<times> AppState" where
  "handle_error t is_connect failure h s =
     (\<lparr>response_status = 502, response_fields = [], response_body = ''friendzone: '' @ failure\<rparr>,
      h\<lparr>pending_upstream := None\<rparr>,
      case pending_upstream h of
        None \<Rightarrow> s
      | Some (i, _) \<Rightarrow>
          annotate i (Some 502) (Some failure) (s\<lparr>reviews := observe t i UpstreamError (Some 502)
            (if is_connect then ''Upstream connection could not be established. No request was sent.''
             else ''Upstream request failed while sending. Delivery is uncertain; check upstream before retrying.'')
            (reviews s)\<rparr>))"

text \<open>The copy of a reviewed response that is watched for GraphQL errors, and its end.\<close>

record ReviewResponseBody =
  watch_id :: uuid
  copied :: "string option"
  watch_content_type :: "string option"
  watch_headers :: "(string \<times> string) list"
  watch_ended :: bool

definition handle_response :: "clock \<Rightarrow> nat \<Rightarrow> (string \<times> header_value) list \<Rightarrow> EventHandler \<Rightarrow> AppState
    \<Rightarrow> ReviewResponseBody option \<times> EventHandler \<times> AppState" where
  "handle_response t code hs h s =
     (case pending_upstream h of
        None \<Rightarrow> (None, h, s)
      | Some (i, host) \<Rightarrow>
          (let s1 = s\<lparr>reviews := observe t i ResponseReceived (Some code)
                 (if 400 \<le> code then ''Upstream returned an HTTP error.''
                  else ''Upstream response received. HTTP status alone does not confirm the operation succeeded.'')
                 (reviews s)\<rparr>;
               is_json = opt_any (starts_with ''application/json'') (Option.bind (map_of hs ''content-type'') hv_str);
               watched = (eq_ignore_ascii_case host ''api.github.com'' \<and> tracks_response i (reviews s1));
               safe = diagnostic_response_headers hs;
               s2 = annotate i (Some code) None s1
           in (if watched \<and> is_json
               then Some \<lparr>watch_id = i, copied = Some [], watch_content_type = map_of safe ''content-type'',
                 watch_headers = safe, watch_ended = False\<rparr>
               else None, h\<lparr>pending_upstream := None\<rparr>, s2)))"

definition watch_chunk :: "string \<Rightarrow> ReviewResponseBody \<Rightarrow> ReviewResponseBody" where
  "watch_chunk chunk b =
     b\<lparr>copied := Option.bind (copied b) (\<lambda>bytes. if length bytes + length chunk \<le> MAX_BODY then Some (bytes @ chunk) else None)\<rparr>"

definition watch_finish :: "(string \<Rightarrow> Json option) \<Rightarrow> clock \<Rightarrow> ReviewResponseBody \<Rightarrow> AppState \<Rightarrow> ReviewResponseBody \<times> AppState" where
  "watch_finish from_slice t b s =
     (if watch_ended b then (b, s)
      else (b\<lparr>watch_ended := True\<rparr>,
            case Option.bind (copied b) (\<lambda>bytes. graphql_response_diagnostics from_slice bytes (watch_content_type b) (watch_headers b)) of
              None \<Rightarrow> s
            | Some diag \<Rightarrow> s\<lparr>reviews := graphql_response_detail t (watch_id b) diag (reviews s)\<rparr>))"

definition watch_drop :: "clock \<Rightarrow> ReviewResponseBody \<Rightarrow> AppState \<Rightarrow> AppState" where
  "watch_drop t b s =
     (if watch_ended b then s
      else s\<lparr>reviews := response_detail t (watch_id b) Unknown
        ''HTTP response was not fully observed. Check upstream before retrying.'' (reviews s)\<rparr>)"

definition response_watch_drop :: "clock \<Rightarrow> uuid \<Rightarrow> AppState \<Rightarrow> AppState" where
  "response_watch_drop t i s = s\<lparr>reviews := observe t i Unknown None
     ''Proxy request ended without a response. The operation may have executed; check upstream before retrying.'' (reviews s)\<rparr>"

end
