(* ===== verification/Proxy_Safe.thy ===== *)
theory Proxy_Safe
  imports App_Gate Proxy
begin

text \<open>
  What the proxy lets out: the review of a held request and the handler as a whole, over every
  interleaving with the operations of other tasks.
\<close>

section \<open>A waiting request is answered by a decision on it\<close>

text \<open>What operations leave of the waiting requests.\<close>

definition follows :: "Queue \<Rightarrow> Queue \<Rightarrow> bool" where
  "follows q q' \<longleftrightarrow> (\<forall>i e'. map_of (pending q') i = Some e' \<longrightarrow>
     (\<exists>e. map_of (pending q) i = Some e \<and> fingerprint (summary (detail e')) = fingerprint (summary (detail e))))"

named_theorems follow

lemma follows_same [follow]: "pending q' = pending q \<Longrightarrow> follows q q'"
  by (simp add: follows_def)

lemma follows_trans: "follows q q1 \<Longrightarrow> follows q1 q2 \<Longrightarrow> follows q q2"
  unfolding follows_def by metis

lemma follows_archive: "archive t i st out q = Some q' \<Longrightarrow> follows q q'"
  by (auto simp: archive_def follows_def delete_conv' split: option.splits if_splits)

lemma follows_notify [simp]: "follows q (notify q') = follows q q'"
  by (simp add: follows_def)

lemma follows_drop_sender [simp]: "follows q (drop_sender i q') = follows q q'"
  by (simp add: follows_def)

lemma follows_archive_drop [follow]: "follows q (archive_drop t i st out q)"
  by (auto simp: archive_drop_def intro: follow follows_archive split: option.splits)

lemma follows_cancel_pending [follow]: "follows q (cancel_pending t i st out q)"
  by (auto simp: cancel_pending_def intro: follow follows_archive split: option.splits)

lemma follows_amend [follow]: "follows q (amend_recent i guard f q)"
  by (auto simp: amend_recent_def intro: follow split: option.splits)

lemma follows_channels [simp]: "follows q (q'\<lparr>channels := cs\<rparr>) = follows q q'"
  by (simp add: follows_def)

lemma follows_drop_ticket [follow]: "follows q (drop_ticket t i q)"
  unfolding drop_ticket_def Let_def by (simp add: follow)

lemma follows_fold: "(\<And>q x. follows q (f x q)) \<Longrightarrow> follows q (fold f xs q)"
  by (induction xs arbitrary: q) (auto intro: follow follows_trans)

lemma follows_cancel_container [follow]: "follows q (cancel_container t c q)"
  unfolding cancel_container_def by (simp add: follows_fold follow)

lemma follows_send: "follows q' (snd (send i d q)) = follows q' q"
  by (simp add: send_def)

lemma follows_decide [follow]: "follows q (snd (decide t i fp d q))"
proof (cases "map_of (pending q) i")
  case None
  then show ?thesis by (simp add: decide_def follow)
next
  case (Some e)
  have a: "follows q (the (archive t i st out q))" for st out
  proof -
    obtain q' where "archive t i st out q = Some q'" using Some by (simp add: archive_def)
    then show ?thesis using follows_archive by simp
  qed
  have "follows q (observe t i Cancelled None x (notify (snd (send i d (the (archive t i st out q))))))" for st out x
    unfolding observe_def by (rule follows_trans [OF _ follows_amend]) (simp add: follows_send a)
  then show ?thesis using Some a
    by (auto simp: decide_def Let_def case_prod_unfold follows_send follow split: Decision_kind.splits)
qed

lemma follows_set_resolved [follow]: "follows q (snd (set_resolved t new i fp r revision q))"
proof -
  have "follows q (q\<lparr>pending := AList.update i (e\<lparr>detail := d\<rparr>) (pending q)\<rparr>)"
    if "map_of (pending q) i = Some e" "summary d = summary (detail e)" for e d
    using that by (auto simp: follows_def update_conv' split: if_splits)
  then show ?thesis by (auto simp: set_resolved_def Let_def follow split: option.splits)
qed

lemma follows_change_guest_upload [follow]: "follows q (snd (change_guest_upload t i c inst session remove q))"
  by (auto simp: change_guest_upload_def follow split: option.splits)

lemma follows_apply:
  assumes "\<And>t d. op \<noteq> Op_enqueue t d"
  shows "follows q (apply_op op q)"
  using assms by (cases op) (auto simp: follow upload_result_def response_detail_def graphql_response_detail_def
      observe_def ticket_timeout_def)

lemma enqueue_pending:
  assumes "map_of (pending (snd (enqueue t d q))) i = Some e'" and "detail_id d \<noteq> i"
  shows "map_of (pending q) i = Some e'"
proof -
  have "pending (snd (enqueue t d q)) = pending q \<or> pending (snd (enqueue t d q)) = pending q @ [(detail_id d, \<lparr>detail = d, deadline = mono t + WAIT_LIMIT\<rparr>)]"
    by (simp add: enqueue_def)
  then show ?thesis using assms by (elim disjE) (simp_all add: map_add_Some_iff)
qed

definition enqueues :: "uuid \<Rightarrow> queue_op \<Rightarrow> bool" where
  "enqueues i op \<longleftrightarrow> (case op of Op_enqueue _ d \<Rightarrow> detail_id d = i | _ \<Rightarrow> False)"

text \<open>The request \<open>i\<close> waits under no other fingerprint than \<open>fp\<close>.\<close>

definition waits_under :: "string \<Rightarrow> uuid \<Rightarrow> Queue \<Rightarrow> bool" where
  "waits_under fp i q \<longleftrightarrow> (\<forall>e. map_of (pending q) i = Some e \<longrightarrow> fingerprint (summary (detail e)) = fp)"

lemma waits_under_step:
  assumes un: "waits_under fp i q" and other: "\<not> enqueues i op"
  shows "waits_under fp i (apply_op op q)"
  unfolding waits_under_def
proof (intro allI impI)
  fix e' assume e': "map_of (pending (apply_op op q)) i = Some e'"
  have "\<exists>e. map_of (pending q) i = Some e \<and> fingerprint (summary (detail e')) = fingerprint (summary (detail e))"
  proof (cases "\<exists>t d. op = Op_enqueue t d")
    case True
    then obtain t d where op: "op = Op_enqueue t d" by blast
    then have "detail_id d \<noteq> i" using other by (simp add: enqueues_def)
    with e' [unfolded op apply_op.simps] have "map_of (pending q) i = Some e'" by (rule enqueue_pending)
    then show ?thesis by blast
  next
    case False
    then show ?thesis using follows_apply [of op q] e' unfolding follows_def by blast
  qed
  then show "fingerprint (summary (detail e')) = fp" using un by (auto simp: waits_under_def)
qed

lemma answered_by_decision:
  assumes "waits_under fp i q" and "list_all (\<lambda>op. \<not> enqueues i op) ops" and "answer q i \<noteq> Some d"
    and "answer (fold apply_op ops q) i = Some d"
  shows "\<exists>t. Op_decide t i fp d \<in> set ops"
  using assms
proof (induction ops arbitrary: q)
  case (Cons op ops)
  show ?case
  proof (cases "answer (apply_op op q) i = Some d")
    case True
    from answered_step [OF True Cons.prems(3)] obtain t e where
      "op = Op_decide t i (fingerprint (summary (detail e))) d" "map_of (pending q) i = Some e" by blast
    then show ?thesis using Cons.prems(1) by (auto simp: waits_under_def)
  next
    case False
    have "waits_under fp i (apply_op op q)" using waits_under_step Cons.prems(1,2) by simp
    from Cons.IH [OF this _ False] Cons.prems(2,4) show ?thesis by auto
  qed
qed simp

section \<open>The queue inside the state\<close>

text \<open>No operation but an enqueue of its own id, or a decision of the host, concerns the request \<open>i\<close>.\<close>

definition quiet :: "uuid \<Rightarrow> state_op \<Rightarrow> bool" where
  "quiet i op \<longleftrightarrow> (case op of
       Enqueue_op _ d _ _ \<Rightarrow> detail_id d \<noteq> i
     | Queue_op qop \<Rightarrow> \<not> enqueues i qop
     | _ \<Rightarrow> True)"

definition queue_path :: "uuid \<Rightarrow> state_op \<Rightarrow> Queue \<Rightarrow> Queue \<Rightarrow> bool" where
  "queue_path i op q q' \<longleftrightarrow> (\<exists>qs. q' = fold apply_op qs q \<and> list_all (\<lambda>x. \<not> enqueues i x) qs
     \<and> (\<forall>t fp d. Op_decide t i fp d \<in> set qs \<longrightarrow> op = Queue_op (Op_decide t i fp d)))"

lemma queue_path_same: "queue_path i op q q"
  unfolding queue_path_def by (rule exI [of _ "[]"]) simp

lemma queue_path_ops:
  "list_all (\<lambda>x. \<not> enqueues i x \<and> (\<forall>t fp d. x \<noteq> Op_decide t i fp d)) qs \<Longrightarrow> queue_path i op q (fold apply_op qs q)"
  unfolding queue_path_def by (rule exI [of _ qs]) (auto simp: list_all_iff)

lemma renew_epochs_queue:
  "renew_epochs t changed old (u, reg, q) = (u', reg', q') \<Longrightarrow> \<exists>cs. q' = fold apply_op (map (Op_cancel_container t) cs) q"
proof (induction old arbitrary: u reg q)
  case Nil
  then show ?case by (intro exI [of _ "[]"]) simp
next
  case (Cons p old)
  obtain n r where p: "p = (n, r)" by (cases p)
  show ?case
  proof (cases "changed n r")
    case True
    then obtain u1 reg1 where "renew_epochs t changed old (u1, reg1, cancel_container t n q) = (u', reg', q')"
      using Cons.prems p by (auto split: option.splits)
    from Cons.IH [OF this] obtain cs where "q' = fold apply_op (map (Op_cancel_container t) cs) (cancel_container t n q)" by blast
    then show ?thesis by (intro exI [of _ "n # cs"]) simp
  next
    case False
    then show ?thesis using Cons p by auto
  qed
qed

lemma queue_path_update_policy: "queue_path i op (reviews s) (reviews (snd (update_policy t fault f s)))"
proof (cases "f (uuid_supply s) (containers s) (killed s)")
  case (Inl e)
  then show ?thesis by (simp add: update_policy_def queue_path_same)
next
  case (Inr v)
  obtain u reg kill where v: "v = (u, reg, kill)" by (cases v)
  obtain u' reg' q where ren: "renew_epochs t (policy_changed (containers s) (killed s) reg kill)
      (containers s) (u, reg, reviews s) = (u', reg', q)" by (metis prod_cases3)
  obtain cs where cs: "q = fold apply_op (map (Op_cancel_container t) cs) (reviews s)"
    using renew_epochs_queue [OF ren] by blast
  have "queue_path i op (reviews s) q" unfolding cs
    by (rule queue_path_ops) (simp add: list_all_iff enqueues_def)
  then show ?thesis using Inr v ren queue_path_same
    by (auto simp: update_policy_def split: prod.splits sum.splits)
qed

lemma queue_path_permit: "queue_path i op (reviews s) (reviews (snd (add_comment_permission sh t fault c ctx target s)))"
proof -
  have rec: "reviews (snd (record_activity t c m u v False s')) = reviews s'" for m u v s'
    by (simp add: record_activity_def Let_def)
  have "queue_path i op (reviews s) (reviews (snd (update_policy t fault (add_grant t (uuid_supply s) c ctx target) (s\<lparr>uuid_supply := uuid_supply s + 1\<rparr>))))"
    using queue_path_update_policy [of i op "s\<lparr>uuid_supply := uuid_supply s + 1\<rparr>"] by simp
  then show ?thesis using queue_path_same
    by (auto simp: add_comment_permission_def Let_def rec split: prod.splits sum.splits)
qed

lemma queue_path_one: "\<not> enqueues i x \<Longrightarrow> (\<And>t fp d. x \<noteq> Op_decide t i fp d) \<Longrightarrow> queue_path i op q (apply_op x q)"
  using queue_path_ops [of i "[x]" op q] by simp

lemma queue_path_observe: "queue_path i op q (observe t j st http out q)"
  using queue_path_one [of i "Op_observe t j st http out" op q] by (simp add: enqueues_def)

lemma queue_path_enqueue:
  assumes "detail_id d \<noteq> i"
  shows "queue_path i op (reviews s) (reviews (snd (enqueue_review t d peer epoch s)))"
proof -
  let ?e = "Op_enqueue t d" and ?fp = "fingerprint (summary d)"
  have path: "queue_path i op (reviews s) (fold apply_op qs (reviews s))"
    if "set qs \<subseteq> {?e, Op_decide t (detail_id d) ?fp Approve, Op_drop_ticket t (detail_id d),
        Op_observe t (detail_id d) Approved None ''GitHub allow-all policy; checking current guest policy before sending.''}" for qs
    by (rule queue_path_ops) (use that assms in \<open>auto simp: list_all_iff enqueues_def split: queue_op.splits\<close>)
  have ident: "x = detail_id d" if "enqueue t d (reviews s) = (Inr x, q)" for x q using that by (auto simp: enqueue_def split: if_splits)
  have one: "queue_path i op (reviews s) (snd (enqueue t d (reviews s)))" using path [of "[?e]"] by simp
  have two: "queue_path i op (reviews s) (drop_ticket t (detail_id d) (snd (decide t (detail_id d) ?fp Approve (snd (enqueue t d (reviews s))))))"
    using path [of "[?e, Op_decide t (detail_id d) ?fp Approve, Op_drop_ticket t (detail_id d)]"] by simp
  have three: "queue_path i op (reviews s) (observe t (detail_id d) Approved None ''GitHub allow-all policy; checking current guest policy before sending.''
      (snd (decide t (detail_id d) ?fp Approve (snd (enqueue t d (reviews s))))))"
    using path [of "[?e, Op_decide t (detail_id d) ?fp Approve, Op_observe t (detail_id d) Approved None ''GitHub allow-all policy; checking current guest policy before sending.'']"] by simp
  show ?thesis
    unfolding enqueue_review_def Let_def
    using one two three queue_path_same ident
    by (auto split: option.splits sum.splits prod.splits)
qed

lemma queue_path_apply:
  assumes "quiet i op"
  shows "queue_path i op (reviews s) (reviews (apply_state_op op s))"
proof (cases op)
  case (Policy_op t fault cmd)
  then show ?thesis using queue_path_update_policy by simp
next
  case (Permit_op sh t fault c ctx target)
  then show ?thesis using queue_path_permit by simp
next
  case (Grant_op sh t fault j fp rid target)
  then show ?thesis using queue_path_permit queue_path_same by (auto simp: grant_reviewed_comment_def split: option.splits)
next
  case (Revoke_op sh t fault c j)
  then show ?thesis using queue_path_update_policy [of i op s t fault "revoke_grant c j"]
    by (auto simp: revoke_comment_permission_def record_activity_def Let_def split: prod.splits sum.splits)
next
  case (Block_op t j st d)
  then show ?thesis using queue_path_observe by (simp add: mark_blocked_def)
next
  case (Admit_review_op t j c peer epoch)
  then show ?thesis using queue_path_observe queue_path_same
    by (auto simp: admit_review_def admit_request_def Let_def split: prod.splits)
next
  case (Enqueue_op t d peer epoch)
  then show ?thesis using queue_path_enqueue assms by (simp add: quiet_def)
next
  case (Queue_op qop)
  then show ?thesis using assms unfolding queue_path_def
    by (intro exI [of _ "[qop]"]) (simp add: quiet_def)
next
  case (Proxy_op t peer presented)
  then show ?thesis using queue_path_same
    by (auto simp: authorize_proxy_peer_def touch_container_def Let_def or_default_def split: sum.splits)
qed (auto simp: queue_path_same record_activity_def touch_container_def annotate_def admit_request_def admit_comment_def
    authorize_def announce_guest_def Let_def case_prod_unfold split: option.splits)

lemma run_append: "run (xs @ ys) s = run ys (run xs s)"
  by (simp add: run_def)

lemma run_Cons: "run (op # ops) s = run ops (apply_state_op op s)"
  by (simp add: run_def)

lemma decided_in_run:
  assumes "waits_under fp i (reviews s)" and "list_all (quiet i) ops" and "answer (reviews s) i \<noteq> Some d"
    and "answer (reviews (run ops s)) i = Some d"
  shows "\<exists>t. Queue_op (Op_decide t i fp d) \<in> set ops"
  using assms
proof (induction ops arbitrary: s)
  case Nil
  then show ?case by (simp add: run_def)
next
  case (Cons op ops)
  obtain qs where qs: "reviews (apply_state_op op s) = fold apply_op qs (reviews s)" "list_all (\<lambda>x. \<not> enqueues i x) qs"
      "\<And>t fp d. Op_decide t i fp d \<in> set qs \<Longrightarrow> op = Queue_op (Op_decide t i fp d)"
    using queue_path_apply [of i op s] Cons.prems(2) by (auto simp: queue_path_def)
  have under: "waits_under fp i (fold apply_op qs q)" if "waits_under fp i q" for q
    using that qs(2) by (induction qs arbitrary: q) (auto intro: waits_under_step)
  show ?case
  proof (cases "answer (reviews (apply_state_op op s)) i = Some d")
    case True
    from answered_by_decision [OF Cons.prems(1) qs(2) Cons.prems(3)] True qs(1)
    obtain t where "Op_decide t i fp d \<in> set qs" by auto
    then show ?thesis using qs(3) by auto
  next
    case False
    from Cons.IH [of "apply_state_op op s", OF _ _ False] under [OF Cons.prems(1)] qs(1) Cons.prems(2,4)
    show ?thesis by (auto simp: run_Cons)
  qed
qed

section \<open>What leaves a review\<close>

lemma same_policy_while_epoch:
  assumes ok: "state_ok s" and e: "review_epoch s c peer = Some epoch" and adm: "\<not> refused (run ops s) c peer' epoch"
  shows "guest_policy (run ops s) c = guest_policy s c"
proof -
  have old: "epoch < uuid_supply s"
    using ok e by (force simp: review_epoch_def current_guest_def state_ok_def list_all_iff
        split: option.splits if_splits dest: map_of_SomeD)
  obtain r where r: "map_of (containers (run ops s)) c = Some r" "policy_epoch r = epoch"
    using adm by (auto simp: refused_def split: option.splits)
  have "policy_step s (run ops s)" using policy_step_run ok by (simp add: state_ok_def)
  from continues_old_epoch [OF this r(1)] r(2) old show ?thesis by simp
qed

text \<open>A request leaves with the guest still admitted under its epoch, after some operations of others.\<close>

definition admitted_now :: "AppState \<Rightarrow> string \<Rightarrow> IpAddr \<Rightarrow> uuid \<Rightarrow> AppState \<Rightarrow> bool" where
  "admitted_now s c peer epoch s' \<longleftrightarrow> (\<exists>ops. \<not> refused (run ops s) c peer epoch
     \<and> containers s' = containers (run ops s) \<and> killed s' = killed (run ops s))"

lemma admitted_nowI:
  "sa = run ops s \<Longrightarrow> \<not> refused sa c peer epoch \<Longrightarrow> containers s' = containers sa \<Longrightarrow> killed s' = killed sa
     \<Longrightarrow> admitted_now s c peer epoch s'"
  by (auto simp: admitted_now_def)

lemma admitted_now_run: "admitted_now (run ops s) c peer epoch s' \<Longrightarrow> admitted_now s c peer epoch s'"
  unfolding admitted_now_def by (metis run_append)

lemma admitted_now_policy:
  assumes "state_ok s" and "review_epoch s c peer = Some epoch" and "admitted_now s c peer epoch s'"
  shows "guest_policy s' c = guest_policy s c \<and> \<not> refused s' c peer epoch"
proof -
  obtain ops where ops: "\<not> refused (run ops s) c peer epoch" "containers s' = containers (run ops s)" "killed s' = killed (run ops s)"
    using assms(3) by (auto simp: admitted_now_def)
  have "guest_policy s' c = guest_policy (run ops s) c" using ops(2,3) by (simp add: guest_policy_def)
  moreover have "\<not> refused s' c peer epoch" using ops by (simp add: refused_def)
  ultimately show ?thesis using same_policy_while_epoch [OF assms(1,2) ops(1)] by simp
qed

lemma admit_request_ok:
  assumes "admit_request i c peer epoch why s = (True, s')"
  shows "\<not> refused s c peer epoch" "containers s' = containers s" "killed s' = killed s"
  using assms by (auto simp: admit_request_def split: if_splits)

lemma admit_review_ok:
  assumes "admit_review t i c peer epoch s = (True, s')"
  shows "\<not> refused s c peer epoch" "containers s' = containers s" "killed s' = killed s"
  using assms admit_request_ok by (auto simp: admit_review_def Let_def split: prod.splits if_splits)

lemma admit_comment_ok:
  assumes "admit_comment sh i c peer epoch g target s = (True, s')"
  shows "\<not> refused s c peer epoch" "containers s' = containers s" "killed s' = killed s"
    "\<exists>r. map_of (containers s) c = Some r \<and> g \<in> set (comment_permissions r)" "same_identity (grant_target g) target"
  using assms by (auto simp: admit_comment_def refused_def list_ex_iff split: if_splits option.splits)

lemma redact_simps [simp]:
  "summary (redact_entries es d) = summary d" "file_upload (redact_entries es d) = file_upload d"
  by (simp_all add: redact_entries_def)

lemma enqueue_review_waits:
  assumes "enqueue_review t d peer epoch s = (Inr i, s')" and "\<not> auto_approves_upload s d"
  shows "i = detail_id d" "waits_under (fingerprint (summary d)) i (reviews s')" "answer (reviews s') i = None"
proof -
  have e: "enqueue t d (reviews s) = (Inr i, reviews s')"
    using assms by (auto simp: enqueue_review_def Let_def split: option.splits if_splits prod.splits sum.splits)
  then show i: "i = detail_id d" by (auto simp: enqueue_def split: if_splits)
  have new: "\<not> contains_key (detail_id d) (pending (reviews s))" using e by (auto simp: enqueue_def split: if_splits)
  have q: "reviews s' = notify ((reviews s)\<lparr>
        pending := pending (reviews s) @ [(detail_id d, \<lparr>detail = d, deadline = mono t + WAIT_LIMIT\<rparr>)],
        channels := AList.update (detail_id d) \<lparr>message = None, sender_alive = True, receiver_alive = True\<rparr> (channels (reviews s))\<rparr>)"
    using e by (auto simp: enqueue_def split: if_splits)
  show "waits_under (fingerprint (summary d)) i (reviews s')"
    using new unfolding waits_under_def q i by (auto simp: map_add_Some_iff dest: map_of_SomeD)
  show "answer (reviews s') i = None" unfolding q i by (simp add: answer_def update_conv')
qed

lemma ticket_wait_answer:
  "ticket_wait t dl i q = (Some (Inr d), q') \<Longrightarrow> answer q i = Some d \<and> q' = drop_ticket t i q"
  by (auto simp: ticket_wait_def answer_def split: option.splits if_splits)

lemma await_decision_ok:
  assumes run: "await_decision pc w c peer ev epoch req bytes d s = (Some (Inr (out, body)), s')"
    and d: "detail_id d = ev" "file_upload d = None"
  shows "out = req \<and> body = Bytes bytes \<and> admitted_now s c peer epoch s'
    \<and> (list_all (quiet ev) (during_wait w) \<longrightarrow>
         (\<exists>t. Queue_op (Op_decide t ev (fingerprint (summary d)) Decision_kind.Approve) \<in> set (during_wait w)))"
proof -
  let ?note = "Annotate_op ev None (Some (''awaiting host review '' @ show_uuid pc ev @ '' (120s limit)''))"
  let ?d = "redact_entries (escrow (cfg w 3)) d"
  let ?s1 = "run (gap w 5) (apply_state_op ?note s)"
  obtain i s2 where enq: "enqueue_review (now w 3) ?d peer epoch ?s1 = (Inr i, s2)"
    using run by (auto simp: await_decision_def not_forwarded_def Let_def split: prod.splits sum.splits)
  let ?s3 = "run (during_wait w) s2"
  obtain q where wait: "ticket_wait (now w 4) (mono (now w 3) + WAIT_LIMIT) i (reviews ?s3) = (Some (Inr Decision_kind.Approve), q)"
    using run enq by (auto simp: await_decision_def not_forwarded_def Let_def split: prod.splits sum.splits option.splits Decision_kind.splits)
  have adm: "admit_review (now w 5) ev c peer epoch (run (gap w 6) (?s3\<lparr>reviews := q\<rparr>)) = (True, s')"
    and out: "out = req" "body = Bytes bytes"
    using run enq wait by (auto simp: await_decision_def not_forwarded_def Let_def split: prod.splits bool.splits)
  have "\<not> auto_approves_upload ?s1 ?d" using d(2) by (simp add: auto_approves_upload_def)
  note waits = enqueue_review_waits [OF enq this]
  have q: "answer (reviews ?s3) i = Some Decision_kind.Approve" "?s3\<lparr>reviews := q\<rparr> = apply_state_op (Queue_op (Op_drop_ticket (now w 4) i)) ?s3"
    using ticket_wait_answer [OF wait] by simp_all
  have "s2 = apply_state_op (Enqueue_op (now w 3) ?d peer epoch) ?s1" using enq by simp
  then have "run (gap w 6) (?s3\<lparr>reviews := q\<rparr>)
      = run (?note # gap w 5 @ Enqueue_op (now w 3) ?d peer epoch # during_wait w @ Queue_op (Op_drop_ticket (now w 4) i) # gap w 6) s"
    unfolding q(2) by (simp add: run_append run_Cons)
  then have "admitted_now s c peer epoch s'" using admit_review_ok [OF adm] by (rule admitted_nowI)
  moreover have "\<exists>t. Queue_op (Op_decide t ev (fingerprint (summary d)) Decision_kind.Approve) \<in> set (during_wait w)"
    if "list_all (quiet ev) (during_wait w)"
    using decided_in_run [of "fingerprint (summary d)" i s2 "during_wait w" Decision_kind.Approve] waits d that q(1) by simp
  ultimately show ?thesis using out by blast
qed

text \<open>The broker's own command under a permission that the guest holds at that moment.\<close>

definition permitted :: "proxy_code \<Rightarrow> 'p waits \<Rightarrow> string \<Rightarrow> Request \<Rightarrow> AppState \<Rightarrow> Request \<times> Body \<Rightarrow> bool" where
  "permitted pc w c req s' out \<longleftrightarrow> (\<exists>cred plan target g r.
     comment_credential (net pc) (crypto pc) (uri_eq pc) (cfg w 6) req = Some cred
     \<and> current (net pc) (crypto pc) (cfg w 2) (credential_binding cred) \<noteq> None
     \<and> map_of (containers s') c = Some r \<and> g \<in> set (comment_permissions r)
     \<and> grant_binding g = credential_binding cred \<and> same_identity (grant_target g) target
     \<and> out = reconstruct pc plan target cred)"

lemma granted_comment_ok:
  assumes "granted_comment pc w c peer ev epoch cred plan s = (Some out, s')"
    and "comment_credential (net pc) (crypto pc) (uri_eq pc) (cfg w 6) req = Some cred"
  shows "admitted_now s c peer epoch s'" "permitted pc w c req s' out"
proof -
  let ?grants = "comment_permissions_for s c (credential_binding cred)"
  obtain target g where g: "find (\<lambda>g. same_identity (grant_target g) target) ?grants = Some g"
      "current (net pc) (crypto pc) (cfg w 2) (credential_binding cred) \<noteq> None"
      "admit_comment (show_uuid pc) ev c peer epoch g target (run (during_lookup w) s) = (True, s')"
      "out = reconstruct pc plan target cred"
    using assms(1) by (auto simp: granted_comment_def Let_def split: if_splits sum.splits option.splits prod.splits bool.splits)
  note adm = admit_comment_ok [OF g(3)]
  show "admitted_now s c peer epoch s'" using adm(1-3) by (intro admitted_nowI [OF refl])
  have "g \<in> set ?grants" using g(1) by (auto simp: find_Some_iff)
  then have "grant_binding g = credential_binding cred" by (auto simp: comment_permissions_for_def split: option.splits)
  then show "permitted pc w c req s' out" using assms(2) g adm(2,4,5) unfolding permitted_def by metis
qed

lemma not_forwarded_Inr [simp]: "not_forwarded why s \<noteq> (Some (Inr x), s')"
  by (simp add: not_forwarded_def)

lemma granted_comment_None:
  assumes "granted_comment pc w c peer ev epoch cred plan s = (None, s')"
  shows "\<exists>ops. s' = run ops s"
proof -
  have same: "s2 = s1" if "admit_comment sh i c peer epoch g target s1 = (False, s2)" for sh i g target s1 s2
    using that by (auto simp: admit_comment_def split: if_splits)
  have "s' = s \<or> s' = run (during_lookup w) s"
    using assms by (auto simp: granted_comment_def Let_def dest: same split: if_splits sum.splits option.splits prod.splits bool.splits)
  then show ?thesis using run_def by (metis fold_simps(1))
qed

text \<open>The ways out of a review: the request itself for one of three reasons, or the command of a permission.\<close>

definition released :: "proxy_code \<Rightarrow> 'p waits \<Rightarrow> string \<Rightarrow> uuid \<Rightarrow> Request \<Rightarrow> string \<Rightarrow> AppState \<Rightarrow> Request \<times> Body \<Rightarrow> bool" where
  "released pc w c ev req bytes s' out \<longleftrightarrow>
     out = (req, Bytes bytes)
       \<and> (is_download (json_read pc) req bytes
          \<or> (\<exists>d. from_request (views pc) (sha256_hex (crypto pc)) (now w 2) ev c req bytes = Inr d \<and> graphql_read d)
          \<or> (\<exists>t. Queue_op (Op_decide t ev (sha256_hex (crypto pc) (fingerprint_input req bytes)) Decision_kind.Approve) \<in> set (during_wait w)))
     \<or> permitted pc w c req s' out"

lemma review_detail_ok:
  assumes run: "review_detail pc w c peer ev epoch req bytes d s = (Some (Inr out), s')"
    and d: "detail_id d = ev" "file_upload d = None" "fingerprint (summary d) = sha256_hex (crypto pc) (fingerprint_input req bytes)"
    and quiet: "list_all (quiet ev) (during_wait w)"
  shows "admitted_now s c peer epoch s' \<and> released pc w c ev req bytes s' out"
proof -
  have decision: "admitted_now s0 c peer epoch s' \<and> released pc w c ev req bytes s' out"
    if "await_decision pc w c peer ev epoch req bytes d0 s0 = (Some (Inr out), s')" "summary d0 = summary d" "file_upload d0 = None" for d0 s0
    using await_decision_ok [of pc w c peer ev epoch req bytes d0 s0 "fst out" "snd out" s'] that d quiet
    by (cases out) (auto simp: released_def)
  show ?thesis
  proof (cases "comment_credential (net pc) (crypto pc) (uri_eq pc) (cfg w 6) req = None \<or> Option.bind (graphql d) (view_comment pc) = None")
    case True
    then have "await_decision pc w c peer ev epoch req bytes d s = (Some (Inr out), s')"
      using run by (auto simp: review_detail_def split: option.splits)
    then show ?thesis using decision d by simp
  next
    case False
    then obtain cred plan where cp: "comment_credential (net pc) (crypto pc) (uri_eq pc) (cfg w 6) req = Some cred"
        "Option.bind (graphql d) (view_comment pc) = Some plan" by auto
    then obtain revision where rev: "comment_revision_of s c = Some revision"
      using run by (auto simp: review_detail_def split: option.splits)
    let ?s = "run (gap w 4) s"
    obtain g s1 where g: "granted_comment pc w c peer ev epoch cred plan ?s = (g, s1)" by (cases "granted_comment pc w c peer ev epoch cred plan ?s")
    show ?thesis
    proof (cases g)
      case None
      then obtain d1 where "await_decision pc w c peer ev epoch req bytes d1 s1 = (Some (Inr out), s')"
          "summary d1 = summary d" "file_upload d1 = file_upload d"
        using run cp rev g by (auto simp: review_detail_def Let_def)
      then have "admitted_now s1 c peer epoch s' \<and> released pc w c ev req bytes s' out" using decision d by simp
      moreover obtain ops where "s1 = run ops ?s" using granted_comment_None g None by blast
      ultimately show ?thesis using admitted_now_run by metis
    next
      case (Some x)
      then have "granted_comment pc w c peer ev epoch cred plan ?s = (Some out, s')"
        using run cp rev g by (auto simp: review_detail_def Let_def)
      from granted_comment_ok [OF this cp(1)] show ?thesis using admitted_now_run by (auto simp: released_def)
    qed
  qed
qed

lemma from_request_detail:
  assumes "from_request vc sha t i c req bytes = Inr d"
  shows "file_upload d = None" "fingerprint (summary d) = sha (fingerprint_input req bytes)"
  using assms by (auto simp: from_request_def from_request_with_limit_def bind_res_def Let_def split: sum.splits prod.splits)

lemma review_body_ok:
  assumes run: "review_body pc w c peer ev epoch req bytes s = (Some (Inr out), s')" and quiet: "list_all (quiet ev) (during_wait w)"
  shows "admitted_now s c peer epoch s' \<and> released pc w c ev req bytes s' out"
proof -
  have start: "s = run [] s" by (simp add: run_def)
  show ?thesis
  proof (cases "is_batch_route req")
    case True
    then have "is_download (json_read pc) req bytes" "admit_lfs_download ev c peer epoch s = (True, s')" "out = (req, Bytes bytes)"
      using run by (auto simp: review_body_def split: if_splits prod.splits bool.splits)
    then show ?thesis using admit_request_ok [OF _ ] admitted_nowI [OF start]
      by (auto simp: released_def admit_lfs_download_def)
  next
    case False
    then obtain d where d: "from_request (views pc) (sha256_hex (crypto pc)) (now w 2) ev c req bytes = Inr d"
      using run by (auto simp: review_body_def split: sum.splits)
    let ?d = "d\<lparr>summary := (summary d)\<lparr>summary_id := ev,
       display_binding := map_option credential_binding (display_credential (net pc) (crypto pc) (cfg w 5) req)\<rparr>\<rparr>"
    show ?thesis
    proof (cases "graphql_read d")
      case True
      then have "admit_graphql_read ev c peer epoch s = (True, s')" "out = (req, Bytes bytes)"
        using run d False by (auto simp: review_body_def split: if_splits prod.splits bool.splits)
      then show ?thesis using admit_request_ok admitted_nowI [OF start] d True
        by (auto simp: released_def admit_graphql_read_def)
    next
      case no_read: False
      then have "review_detail pc w c peer ev epoch req bytes ?d s = (Some (Inr out), s')"
        using run d False by (simp add: review_body_def Let_def)
      then show ?thesis by (rule review_detail_ok) (use from_request_detail [OF d] quiet in simp_all)
    qed
  qed
qed

text \<open>
  C2. What leaves a review. Whatever other tasks do meanwhile, a request that the review releases was
  admitted while its guest had the very approval, pin, kill flag and epoch it had when the review
  began. Either it is the guest's own request with the bytes that were read, because it is a Git LFS
  download, because it is a read-only query, or because during the wait the host approved exactly this
  request by its fingerprint; or it is the broker's own command under a permission for that target
  which the guest holds at that moment, with the credential it was granted for. (Ids of requests are
  fresh: no other task enqueues this one.)
\<close>

theorem review_releases:
  assumes "state_ok s" and "list_all (quiet ev) (during_wait w)"
    and "await_review pc w c peer req ev s = (Some (Inr out), s')"
  shows "\<exists>epoch bytes. review_epoch s c peer = Some epoch \<and> review_precheck pc w req = None \<and> collect_body w = Inr bytes
    \<and> guest_policy s' c = guest_policy s c \<and> \<not> refused s' c peer epoch \<and> released pc w c ev req bytes s' out"
proof -
  have held: "review_held pc w c peer ev req s = (Some (Inr out), s')"
    using assms(3) by (auto simp: await_review_def split: prod.splits option.splits sum.splits)
  then obtain epoch bytes where e: "review_epoch s c peer = Some epoch" "review_precheck pc w req = None" "collect_body w = Inr bytes"
      "review_body pc w c peer ev epoch req bytes (run (during_body w) s) = (Some (Inr out), s')"
    by (auto simp: review_held_def split: option.splits sum.splits)
  from review_body_ok [OF e(4) assms(2)] have "admitted_now s c peer epoch s'" "released pc w c ev req bytes s' out"
    using admitted_now_run by blast+
  then show ?thesis using e(1-3) admitted_now_policy [OF assms(1) e(1)] by blast
qed

section \<open>The handler as a whole\<close>


lemma identify_pending [simp]:
  "identify pc t (h\<lparr>pending_upstream := p, response_watch := x\<rparr>) = identify pc t h"
  "any_denial up (h\<lparr>pending_upstream := p, response_watch := x\<rparr>) = any_denial up h"
  by (simp_all add: identify_def any_denial_def broker_destination_denial_def fun_eq_iff cong: option.case_cong if_cong prod.case_cong)

lemma remove_header_simps [simp]:
  "uri (remove_header n req) = uri req" "req_method (remove_header n req) = req_method req"
  by (simp_all add: remove_header_def)

section \<open>Open destinations\<close>






































section \<open>Samples\<close>

definition sample_proxy :: proxy_code where
  "sample_proxy = \<lparr>net = sample_nc, crypto = sample_crypto, views = sample_views, view_comment = (\<lambda>_. None),
     uri_eq = (\<lambda>u s. uri_text u = s), json_read = (\<lambda>_. Some sample_lfs_json), json_write = (\<lambda>_. []), show_uuid = (\<lambda>_. []),
     parse_header_name = (\<lambda>k. Some (to_ascii_lowercase k)), parse_header_value = (\<lambda>v. Some (plain_header v)),
     endpoint_uri = \<lparr>uri_text = ENDPOINT, scheme_str = Some ''https'', uri_host = Some ''api.github.com'', port_u16 = None,
       path = ''/graphql'', query = None\<rparr>\<rparr>"

definition sample_waits :: "unit waits" where
  "sample_waits = \<lparr>now = (\<lambda>k. sample_clock (6 + k)), cfg = (\<lambda>_. sample_settings), gap = (\<lambda>_. []), slot_free = True,
     body_outcome = Collected ''x'' False, during_body = [], lookup_permit = True, lookup_reply = No_connection,
     during_lookup = [], during_wait = [], client_context = Some [(''traceparent'', ''00-1-3-01''), (''tracestate'', [])]\<rparr>"



theorem review_releases_witness:
  "\<exists>out s'. await_review sample_proxy sample_waits ''g'' (V4 7) sample_lfs_request 9 sample_state = (Some (Inr out), s')
     \<and> guest_policy s' ''g'' = guest_policy sample_state ''g''"
proof -
  let ?r = "await_review sample_proxy sample_waits ''g'' (V4 7) sample_lfs_request 9 sample_state"
  have "fst ?r = Some (Inr (sample_lfs_request, Bytes ''x''))" by code_simp
  then have run: "?r = (Some (Inr (sample_lfs_request, Bytes ''x'')), snd ?r)" by (metis prod.collapse)
  have "state_ok sample_state" "list_all (quiet 9) (during_wait sample_waits)" by code_simp+
  from review_releases [OF this run] run show ?thesis by blast
qed


end
