(* ===== verification/Durable.thy ===== *)
theory Durable
  imports App_Policy
begin

text \<open>
  What the durable queues of the broker (GraphQL jobs, Git pushes) share: the policy under which work was
  accepted, as it is pinned by the epoch of its guest, and the contract of a store that is changed by
  transactions on a copy.
\<close>

section \<open>Policy of accepted work\<close>

type_synonym policy_now = "(bool \<times> IpAddr option \<times> uuid) option \<times> bool"

text \<open>As long as guest \<open>c\<close> has this epoch, its policy is \<open>pol\<close>.\<close>

definition epoch_kept :: "AppState \<Rightarrow> string \<Rightarrow> uuid \<Rightarrow> policy_now \<Rightarrow> bool" where
  "epoch_kept app c epoch pol \<longleftrightarrow> epoch < uuid_supply app
     \<and> (\<forall>r. map_of (containers app) c = Some r \<longrightarrow> policy_epoch r = epoch \<longrightarrow> guest_policy app c = pol)"

text \<open>A new process: its guests have epochs that were never used before.\<close>

definition fresh_start :: "nat \<Rightarrow> AppState \<Rightarrow> bool" where
  "fresh_start u app \<longleftrightarrow> state_ok app \<and> u \<le> uuid_supply app \<and> list_all (\<lambda>(_, r). u \<le> policy_epoch r) (containers app)"

lemma with_async_identity_eq:
  "with_async_identity app c peer inst epoch dflt action =
     (if async_identity app c peer = Some (inst, epoch) then action () else Inr dflt)"
  by (auto simp: with_async_identity_def async_identity_def current_guest_def opt_any_iff opt_all_iff split: option.splits)

lemma epoch_kept_step:
  assumes "epoch_kept app c epoch pol" and "policy_step app app'"
  shows "epoch_kept app' c epoch pol"
  unfolding epoch_kept_def
proof (intro conjI allI impI)
  show "epoch < uuid_supply app'" using assms by (auto simp: epoch_kept_def policy_step_def)
  fix r assume r: "map_of (containers app') c = Some r" "policy_epoch r = epoch"
  then have same: "guest_policy app c = guest_policy app' c"
    using continues_old_epoch [OF assms(2)] assms(1) by (auto simp: epoch_kept_def)
  then obtain r0 where "map_of (containers app) c = Some r0" "policy_epoch r0 = epoch"
    using r by (auto simp: guest_policy_def)
  with same assms(1) show "guest_policy app' c = pol" by (auto simp: epoch_kept_def)
qed

lemma epoch_kept_new:
  assumes "state_ok app" and "policy_step app app'" and "async_identity app c peer = Some (inst, epoch)"
  shows "epoch_kept app' c epoch (guest_policy app c)"
proof -
  have old: "epoch < uuid_supply app"
    using assms(1,3) by (force simp: async_identity_def current_guest_def state_ok_def list_all_iff
        split: option.splits if_splits dest: map_of_SomeD)
  then have "epoch < uuid_supply app'" using assms(2) by (simp add: policy_step_def)
  then show ?thesis
    using continues_old_epoch [OF assms(2)] old by (auto simp: epoch_kept_def)
qed

lemma epoch_kept_restart:
  assumes "epoch_kept app c epoch pol" and "fresh_start (uuid_supply app) app'"
  shows "epoch_kept app' c epoch pol"
proof -
  have old: "epoch < uuid_supply app" using assms(1) by (simp add: epoch_kept_def)
  have "policy_epoch r \<noteq> epoch" if "map_of (containers app') c = Some r" for r
    using assms(2) old map_of_SomeD [OF that] by (auto simp: fresh_start_def list_all_iff)
  then show ?thesis using old assms(2) by (auto simp: epoch_kept_def fresh_start_def)
qed

lemma epoch_kept_now:
  assumes "epoch_kept app c epoch pol" and "async_identity app c peer = Some (inst, epoch)"
  shows "guest_policy app c = pol"
  using assms by (auto simp: epoch_kept_def async_identity_def current_guest_def split: option.splits if_splits)

text \<open>The state after a guest's identity was read, its policy written, and a UUID drawn.\<close>

lemma identity_steps:
  assumes "state_ok app" and "persist_guest_identity t fault (run gap app) = (r, app1)"
  shows "policy_step app app1" and "policy_step app (app1\<lparr>uuid_supply := uuid_supply app1 + 1\<rparr>)"
proof -
  have "app1 = run (gap @ [Policy_op t fault Persist]) app"
    using assms(2) by (simp add: run_def persist_guest_identity_def)
  then show "policy_step app app1" using policy_step_run assms(1) by (simp add: state_ok_def)
  then show "policy_step app (app1\<lparr>uuid_supply := uuid_supply app1 + 1\<rparr>)"
    by (rule policy_step_trans) (rule policy_step_same, simp_all)
qed

section \<open>Durable stores\<close>

text \<open>
  An edit of a store: a function of the copy in memory that fails or gives a result and the next copy, which is
  then committed.
\<close>

definition transact :: "('st \<Rightarrow> 's) \<Rightarrow> (io_fault \<Rightarrow> 's \<Rightarrow> 'st \<Rightarrow> (string + unit) \<times> 'st) \<Rightarrow> io_fault
    \<Rightarrow> ('s \<Rightarrow> string + 'a \<times> 's) \<Rightarrow> 'st \<Rightarrow> (string + 'a) \<times> 'st" where
  "transact mem commit fault edit st =
     (case edit (mem st) of
        Inl e \<Rightarrow> (Inl e, st)
      | Inr (r, s) \<Rightarrow> (case commit fault s st of (Inl e, st') \<Rightarrow> (Inl e, st') | (Inr _, st') \<Rightarrow> (Inr r, st')))"

text \<open>
  The contract of a durable store: from a state in which file and memory agree (\<open>synced\<close>), a commit changes nothing,
  or it replaces the copy in memory and the states agree again.
\<close>

locale durable_store =
  fixes mem :: "'st \<Rightarrow> 's" and synced :: "'st \<Rightarrow> bool" and commit :: "io_fault \<Rightarrow> 's \<Rightarrow> 'st \<Rightarrow> (string + unit) \<times> 'st"
  assumes commit_atomic: "synced st \<Longrightarrow> (\<exists>e. commit fault s st = (Inl e, st))
      \<or> (\<exists>st'. commit fault s st = (Inr (), st') \<and> synced st' \<and> mem st' = s)"
begin

lemma transact_cases:
  assumes "synced st"
  obtains (failed) e where "transact mem commit fault edit st = (Inl e, st)"
    | (committed) r s st' where "edit (mem st) = Inr (r, s)" "transact mem commit fault edit st = (Inr r, st')" "synced st'" "mem st' = s"
proof (cases "edit (mem st)")
  case (Inl e)
  then show thesis using failed by (simp add: transact_def)
next
  case (Inr p)
  obtain r s where p: "p = (r, s)" by (cases p)
  from commit_atomic [OF assms, of fault s] show thesis
  proof (elim disjE exE conjE)
    fix e assume "commit fault s st = (Inl e, st)"
    then show thesis using failed Inr p by (simp add: transact_def)
  next
    fix st' assume "commit fault s st = (Inr (), st')" "synced st'" "mem st' = s"
    then show thesis using committed Inr p by (simp add: transact_def)
  qed
qed

lemma transact_keeps:
  assumes "synced st" and "P (mem st)" and "\<And>r s. edit (mem st) = Inr (r, s) \<Longrightarrow> P s"
  shows "synced (snd (transact mem commit fault edit st)) \<and> P (mem (snd (transact mem commit fault edit st)))"
  using assms(1)
proof (cases rule: transact_cases [where fault = fault and edit = edit])
  case (failed e)
  then show ?thesis using assms(1,2) by simp
next
  case (committed r s st')
  then show ?thesis using assms(3) by simp
qed

lemma transact_done:
  assumes "synced st" and "transact mem commit fault edit st = (Inr r, st')"
  shows "\<exists>s. edit (mem st) = Inr (r, s) \<and> synced st' \<and> mem st' = s"
  using assms(1)
proof (cases rule: transact_cases [where fault = fault and edit = edit])
  case (committed r2 s st2)
  then show ?thesis using assms(2) by simp
qed (use assms(2) in simp)

lemma transact_failed:
  assumes "synced st" and "transact mem commit fault edit st = (Inl e, st')"
  shows "st' = st"
  using assms(1) by (cases rule: transact_cases [where fault = fault and edit = edit]) (use assms(2) in auto)

end

end
