(* ===== verification/Jobs.thy ===== *)
theory Jobs
  imports Durable
begin

text \<open>
  \<open>jobs.rs\<close>: durable GraphQL jobs. A guest submits a job and may disconnect; the host approves it; a worker
  executes it once and keeps the result until the guest collects it. Every change is one transaction
  on a copy of the store, written to disk before it is published. The file is the value \<open>Saved\<close> it
  encodes; \<open>saved_len\<close> is the length of its JSON. The worker awaits between its critical sections, so it is
  a machine with a program counter (\<open>worker\<close>), one step per critical section.
\<close>

section \<open>Limits and time\<close>

definition MAX_PAYLOAD :: nat where "MAX_PAYLOAD = 10 * 1024 * 1024"
definition MAX_RESULT :: nat where "MAX_RESULT = 4 * 1024 * 1024"
definition MAX_STORAGE :: nat where "MAX_STORAGE = 256 * 1024 * 1024"
definition MAX_JOBS :: nat where "MAX_JOBS = 100"
definition REVIEW_HOURS :: nat where "REVIEW_HOURS = 24 * 3600 * 1000"
definition UNACKNOWLEDGED_RETENTION_HOURS :: nat where "UNACKNOWLEDGED_RETENTION_HOURS = 3600 * 1000"

text \<open>What is kept free for the result of each job that has none yet.\<close>

definition RESERVATION :: nat where "RESERVATION = MAX_RESULT * 6 + 4096"

definition elapsed_ms :: "clock \<Rightarrow> clock \<Rightarrow> nat" where
  "elapsed_ms start t = min (mono t - mono start) (2 ^ 64 - 1)"

definition wall_elapsed_ms :: "instant \<Rightarrow> instant \<Rightarrow> nat" where
  "wall_elapsed_ms a b = b - a"

text \<open>The questions \<open>reqwest\<close> answers about an error.\<close>

record transport_failure =
  is_timeout :: bool
  is_connect :: bool
  is_body :: bool
  is_request :: bool

definition transport_error_kind :: "transport_failure \<Rightarrow> string" where
  "transport_error_kind e =
     (if is_timeout e then ''timeout''
      else if is_connect e then ''connection_failed''
      else if is_body e then ''body_transfer_failed''
      else if is_request e then ''request_failed''
      else ''transport_failed'')"

definition no_diagnostics :: UpstreamDiagnostics where
  "no_diagnostics =
     \<lparr>approved_at = None, started_at = None, headers_at = None, finished_at = None, accepted_to_approval_ms = None,
      approval_to_admission_ms = None, accepted_to_admission_ms = None, time_to_headers_ms = None, total_ms = None,
      remote_addr = None, http_version = None, upstream_headers = [], upstream_bytes = None,
      response_complete = None, transport_error = None\<rparr>"

section \<open>Jobs\<close>

record Submission =
  sub_request_key :: string
  session_id :: string
  sub_query :: string
  variables :: Json
  operation_name :: "string option"

record Job =
  job_id :: uuid
  job_container :: string
  job_instance :: uuid
  job_epoch :: uuid
  job_peer :: IpAddr
  submission :: Submission
  job_body :: string
  job_fingerprint :: string
  job_binding :: Binding
  job_status :: Status
  job_created_at :: instant
  job_updated_at :: instant
  job_expires_at :: instant
  job_http_status :: "nat option"
  job_outcome :: string
  job_result :: "string option"
  job_facts :: "Json option"
  job_upstream :: "UpstreamDiagnostics option"
  acknowledged_at :: "instant option"

definition job_summary :: "Job \<Rightarrow> Summary" where
  "job_summary j =
     \<lparr>summary_id = job_id j, container = job_container j, summary_method = ''POST'', summary_url = ENDPOINT,
      summary_created_at = job_created_at j, expires_at_utc = job_expires_at j, fingerprint = job_fingerprint j,
      body_bytes = length (job_body j),
      reason = ''Async GraphQL job '' @ encode_utf8 183 @ '' client may disconnect'',
      status = job_status j, updated_at = job_updated_at j, http_status = job_http_status j,
      outcome = Some (job_outcome j), asynchronous = True, facts = job_facts j,
      request_key = Some (sub_request_key (submission j)), upstream = job_upstream j,
      display_binding = Some (job_binding j)\<rparr>"

definition terminal :: "Job \<Rightarrow> bool" where
  "terminal j \<longleftrightarrow> job_status j \<notin> {Pending, Approved, Sending}"

definition set_job :: "clock \<Rightarrow> Status \<Rightarrow> string \<Rightarrow> Job \<Rightarrow> Job" where
  "set_job t st out j = j\<lparr>job_status := st, job_outcome := out, job_updated_at := utc t\<rparr>"

definition automatically_removable :: "instant \<Rightarrow> Job \<Rightarrow> bool" where
  "automatically_removable now j \<longleftrightarrow>
     terminal j \<and> job_status j \<noteq> Unknown
     \<and> (acknowledged_at j \<noteq> None \<or> job_updated_at j + UNACKNOWLEDGED_RETENTION_HOURS \<le> now)"

section \<open>The store\<close>

record Saved =
  jobs_version :: nat
  job_map :: "(uuid, Job) alist"

record Jobs =
  data :: Saved
  stored :: bool
  store_file :: "Saved option"
  job_changes :: nat

text \<open>Code of other packages, and the analysis of GraphQL bodies for display.\<close>

record job_code =
  saved_len :: "Saved \<Rightarrow> nat"
  job_views :: view_code
  job_net :: net_code
  job_crypto :: crypto_code
  json_to_string :: "Json \<Rightarrow> string"
  json_from_slice :: "string \<Rightarrow> Json option"
  endpoint :: Uri

abbreviation empty_saved :: Saved where
  "empty_saved \<equiv> \<lparr>jobs_version = 1, job_map = []\<rparr>"

definition new_jobs :: Jobs where
  "new_jobs = \<lparr>data = empty_saved, stored = False, store_file = None, job_changes = 0\<rparr>"

definition active_jobs :: "Saved \<Rightarrow> Job list" where
  "active_jobs s = filter (\<lambda>j. \<not> terminal j) (map snd (job_map s))"

definition reserved :: "Saved \<Rightarrow> nat" where
  "reserved s = length (active_jobs s) * RESERVATION"

text \<open>The end of a transaction, when the edit succeeded: the limit, the file, the published copy.\<close>

definition finish_transaction :: "job_code \<Rightarrow> io_fault \<Rightarrow> string + 'a \<times> Saved \<Rightarrow> Jobs \<Rightarrow> (string + 'a) \<times> Jobs" where
  "finish_transaction jc fault edited js =
     (case edited of
        Inl e \<Rightarrow> (Inl e, js)
      | Inr (r, next) \<Rightarrow>
          if MAX_STORAGE < saved_len jc next + reserved next
          then (Inl ''async job state exceeds its durable storage limit'', js)
          else case (if stored js then atomic_write fault next (store_file js) else (Inr (), store_file js)) of
              (Inl e, file) \<Rightarrow> (Inl e, js\<lparr>store_file := file\<rparr>)
            | (Inr _, file) \<Rightarrow> (Inr r, js\<lparr>data := next, store_file := file, job_changes := (job_changes js + 1) mod 2 ^ 64\<rparr>))"

definition transaction :: "job_code \<Rightarrow> io_fault \<Rightarrow> (Saved \<Rightarrow> string + 'a \<times> Saved) \<Rightarrow> Jobs \<Rightarrow> (string + 'a) \<times> Jobs" where
  "transaction jc fault edit js = finish_transaction jc fault (edit (data js)) js"

text \<open>\<open>get_mut\<close> on the B-tree map, with the value written back.\<close>

definition put_job :: "uuid \<Rightarrow> Job \<Rightarrow> Saved \<Rightarrow> Saved" where
  "put_job i j s = s\<lparr>job_map := btree_insert i j (job_map s)\<rparr>"

section \<open>Loading\<close>

text \<open>What the file shows at start-up: its length and the value it encodes.\<close>

datatype store_read = Store_missing | Store_unreadable | Store_malformed nat | Store_contents nat Saved

definition settle :: "job_code \<Rightarrow> clock \<Rightarrow> Job \<Rightarrow> Job" where
  "settle jc t j =
     (let j1 = (if job_facts j = None
                then j\<lparr>job_facts := review_facts (job_views jc)
                       (snd (inspect_view (job_views jc) (job_body j) ''application/json'' MAX_PAYLOAD))\<rparr>
                else j)
      in case job_status j1 of
          Sending \<Rightarrow> set_job t Unknown ''Broker restarted during execution. Not retried; inspect upstream state.'' j1
        | Pending \<Rightarrow> set_job t Cancelled
            ''Broker restarted before execution. Not sent; submit a new request if still needed.'' j1
        | Approved \<Rightarrow> set_job t Cancelled
            ''Broker restarted before execution. Not sent; submit a new request if still needed.'' j1
        | _ \<Rightarrow> j1)"

definition load_jobs :: "job_code \<Rightarrow> clock \<Rightarrow> io_fault \<Rightarrow> store_read \<Rightarrow> string + Jobs" where
  "load_jobs jc t fault file =
     bind_res (case file of
         Store_missing \<Rightarrow> Inr (empty_saved, None)
       | Store_unreadable \<Rightarrow> Inl ''read''
       | Store_malformed n \<Rightarrow> Inl (if MAX_STORAGE < n then ''async job store exceeds limit'' else ''invalid async job store'')
       | Store_contents n s \<Rightarrow> if MAX_STORAGE < n then Inl ''async job store exceeds limit'' else Inr (s, Some s)) (\<lambda>(s, old).
       if jobs_version s \<noteq> 1 \<or> MAX_JOBS < length (job_map s) then Inl ''unsupported async job store''
       else case transaction jc fault (\<lambda>next. Inr ((), next))
              \<lparr>data = s\<lparr>job_map := map (\<lambda>(i, j). (i, settle jc t j)) (job_map s)\<rparr>, stored = True, store_file = old,
               job_changes = 0\<rparr> of
           (Inl e, _) \<Rightarrow> Inl e
         | (Inr _, js) \<Rightarrow> Inr js)"

section \<open>Admission of a job\<close>

definition storage_usage :: "job_code \<Rightarrow> Saved \<Rightarrow> string + nat" where
  "storage_usage jc s =
     (if 2 ^ 64 \<le> reserved s then Inl ''async job storage reservation overflow''
      else if 2 ^ 64 \<le> saved_len jc s + reserved s then Inl ''async job storage size overflow''
      else Inr (saved_len jc s + reserved s))"

definition fits :: "job_code \<Rightarrow> Saved \<Rightarrow> string + bool" where
  "fits jc s =
     (if MAX_JOBS < length (job_map s) then Inr False
      else bind_res (storage_usage jc s) (\<lambda>n. Inr (n \<le> MAX_STORAGE)))"

definition older :: "Job \<Rightarrow> Job \<Rightarrow> bool" where
  "older a b \<longleftrightarrow> job_updated_at a < job_updated_at b \<or> job_updated_at a = job_updated_at b \<and> job_id a < job_id b"

text \<open>\<open>min_by_key\<close> over the update time and the id.\<close>

fun oldest :: "Job list \<Rightarrow> Job option" where
  "oldest [] = None"
| "oldest (j # js) = (case oldest js of None \<Rightarrow> Some j | Some k \<Rightarrow> Some (if older k j then k else j))"

text \<open>
  The loop removes the candidate by its own id. That the loop ends rests on every job being filed under
  its id, which is not checked when the file is read: \<open>None\<close> is the loop that never returns.
\<close>

partial_function (option) prune_for_admission :: "job_code \<Rightarrow> instant \<Rightarrow> Saved \<Rightarrow> (string + Saved) option" where
  "prune_for_admission jc now s =
     (case fits jc s of
        Inl e \<Rightarrow> Some (Inl e)
      | Inr ok \<Rightarrow>
          if ok then Some (Inr s)
          else (case oldest (filter (automatically_removable now) (map snd (job_map s))) of
             None \<Rightarrow> Some (Inl ''async job capacity is occupied by active, uncertain, or recent results; wait for completion delivery or explicitly remove a result'')
           | Some j \<Rightarrow> prune_for_admission jc now (s\<lparr>job_map := AList.delete (job_id j) (job_map s)\<rparr>)))"

declare prune_for_admission.simps [code]

record guest_job =
  gv_id :: uuid
  gv_request_key :: string
  gv_session_id :: string
  gv_status :: Status
  gv_created_at :: instant
  gv_updated_at :: instant
  gv_http_status :: "nat option"
  gv_outcome :: string
  gv_terminal :: bool
  gv_acknowledged :: bool
  gv_upstream :: "UpstreamDiagnostics option"
  gv_result :: "string option"

definition guest_value :: "Job \<Rightarrow> bool \<Rightarrow> guest_job" where
  "guest_value j with_result =
     \<lparr>gv_id = job_id j, gv_request_key = sub_request_key (submission j), gv_session_id = session_id (submission j),
      gv_status = job_status j, gv_created_at = job_created_at j, gv_updated_at = job_updated_at j,
      gv_http_status = job_http_status j, gv_outcome = job_outcome j, gv_terminal = terminal j,
      gv_acknowledged = (acknowledged_at j \<noteq> None), gv_upstream = job_upstream j,
      gv_result = (if with_result then job_result j else None)\<rparr>"

definition admit_job :: "job_code \<Rightarrow> instant \<Rightarrow> Job \<Rightarrow> Saved \<Rightarrow> (string + guest_job \<times> Saved) option" where
  "admit_job jc now j s =
     (if 32 \<le> length (active_jobs s)
      then Some (Inl ''32 async jobs are still active; wait for them to finish or cancel pending jobs'')
      else if 8 \<le> length (filter (\<lambda>k. job_container k = job_container j) (active_jobs s))
      then Some (Inl ''this guest already has 8 active async jobs; wait for them to finish or cancel pending jobs'')
      else map_option (\<lambda>r. bind_res r (\<lambda>next. Inr (guest_value j False, next)))
             (prune_for_admission jc now (put_job (job_id j) j s)))"

section \<open>Submission\<close>

definition check_submission :: "Submission \<Rightarrow> string + unit" where
  "check_submission sub =
     (if sub_request_key sub = [] \<or> 128 < length (sub_request_key sub) \<or> session_id sub = [] \<or> 256 < length (session_id sub)
      then Inl ''request_key and session_id required (128/256 byte limits)''
      else if sub_query sub = [] \<or> \<not> (variables sub = JNull \<or> as_object (variables sub) \<noteq> None)
      then Inl ''query required; variables must be object or null''
      else Inr ())"

definition submission_body :: "job_code \<Rightarrow> Submission \<Rightarrow> string" where
  "submission_body jc sub =
     json_to_string jc (JObject [(''operationName'', case operation_name sub of None \<Rightarrow> JNull | Some n \<Rightarrow> JString n),
       (''query'', JString (sub_query sub)), (''variables'', variables sub)])"

definition job_request :: "job_code \<Rightarrow> Request" where
  "job_request jc =
     \<lparr>req_method = ''POST'', uri = endpoint jc,
      headers = [(''content-type'', \<lparr>hv_bytes = ''application/json'', hv_str = Some ''application/json''\<rparr>)]\<rparr>"

definition new_job :: "clock \<Rightarrow> AppState \<Rightarrow> string \<Rightarrow> IpAddr \<Rightarrow> uuid \<times> uuid \<Rightarrow> Submission \<Rightarrow> string \<Rightarrow> Binding \<Rightarrow> Detail \<Rightarrow> Job" where
  "new_job t app c peer ident sub body b d =
     (let (st, out) = (if graphql_read d then (Approved, ''Read-only query queued'')
                       else if allows_all (github_policy app) then (Approved, ''GitHub allow-all policy; queued for execution'')
                       else (Pending, ''Awaiting host approval''))
      in \<lparr>job_id = detail_id d, job_container = c, job_instance = fst ident, job_epoch = snd ident, job_peer = peer,
          submission = sub, job_body = body, job_fingerprint = fingerprint (summary d), job_binding = b,
          job_status = st, job_created_at = utc t, job_updated_at = utc t, job_expires_at = utc t + REVIEW_HOURS,
          job_http_status = None, job_outcome = out, job_result = None, job_facts = facts (summary d),
          job_upstream = None, acknowledged_at = None\<rparr>)"

text \<open>
  \<open>submit\<close>: identity, policy file, credential, analysis, and one transaction. Operations of other tasks on
  the state (\<open>gap\<close>) may fall between the identity and the rest. The id is the next UUID.
\<close>

definition prepare_job :: "job_code \<Rightarrow> clock \<Rightarrow> io_fault \<Rightarrow> 'p Settings \<Rightarrow> state_op list \<Rightarrow> string \<Rightarrow> IpAddr \<Rightarrow> Submission \<Rightarrow> AppState
    \<Rightarrow> (string + Job) \<times> AppState" where
  "prepare_job jc t fault cfg gap c peer sub app =
     (case check_submission sub of
        Inl e \<Rightarrow> (Inl e, app)
      | Inr _ \<Rightarrow>
          if MAX_PAYLOAD < length (submission_body jc sub) then (Inl ''GraphQL job exceeds 10 MiB'', app)
          else case async_identity app c peer of
              None \<Rightarrow> (Inl ''guest is not authorized'', app)
            | Some ident \<Rightarrow>
                (case persist_guest_identity t fault (run gap app) of
                   (Inl e, app1) \<Rightarrow> (Inl e, app1)
                 | (Inr _, app1) \<Rightarrow>
                     (case List.map_filter (from_entry (job_net jc) (job_crypto jc) cfg) (escrow cfg) of
                        [cred] \<Rightarrow>
                          (let i = uuid_supply app1; app2 = app1\<lparr>uuid_supply := i + 1\<rparr> in
                           case from_request_with_limit (job_views jc) (sha256_hex (job_crypto jc)) t i c (job_request jc)
                                  (submission_body jc sub) MAX_PAYLOAD of
                             Inl e \<Rightarrow> (Inl e, app2)
                           | Inr d \<Rightarrow> (Inr (new_job t app c peer ident sub (submission_body jc sub) (credential_binding cred) d), app2))
                      | _ \<Rightarrow> (Inl ''configure exactly one GitHub Bearer escrow credential before submitting jobs'', app1))))"

definition submit :: "job_code \<Rightarrow> clock \<Rightarrow> io_fault \<Rightarrow> io_fault \<Rightarrow> 'p Settings \<Rightarrow> state_op list \<Rightarrow> string \<Rightarrow> IpAddr \<Rightarrow> Submission
    \<Rightarrow> AppState \<times> Jobs \<Rightarrow> ((string + guest_job) \<times> AppState \<times> Jobs) option" where
  "submit jc t policy_fault fault cfg gap c peer sub st =
     (case st of (app, js) \<Rightarrow>
        case prepare_job jc t policy_fault cfg gap c peer sub app of
          (Inl e, app') \<Rightarrow> Some (Inl e, app', js)
        | (Inr j, app') \<Rightarrow>
            map_option (\<lambda>r. case finish_transaction jc fault r js of (v, js') \<Rightarrow> (v, app', js'))
              (admit_job jc (utc t) j (data js)))"

section \<open>Operations of the guest\<close>

definition owned_by :: "string \<Rightarrow> uuid \<Rightarrow> string \<Rightarrow> Job \<Rightarrow> bool" where
  "owned_by c inst session j \<longleftrightarrow>
     job_container j = c \<and> job_instance j = inst \<and> session_id (submission j) = session"

definition owned_job :: "string \<Rightarrow> uuid \<Rightarrow> uuid \<Rightarrow> string \<Rightarrow> Saved \<Rightarrow> string + Job" where
  "owned_job c inst i session s =
     (case map_of (job_map s) i of
        None \<Rightarrow> Inl ''job not found''
      | Some j \<Rightarrow> if owned_by c inst session j then Inr j else Inl ''job not found'')"

definition list_jobs :: "string \<Rightarrow> uuid \<Rightarrow> string \<Rightarrow> Jobs \<Rightarrow> guest_job list" where
  "list_jobs c inst session js =
     map (\<lambda>j. guest_value j False) (filter (owned_by c inst session) (map snd (job_map (data js))))"

definition get_job :: "string \<Rightarrow> uuid \<Rightarrow> uuid \<Rightarrow> string \<Rightarrow> Jobs \<Rightarrow> string + guest_job" where
  "get_job c inst i session js = bind_res (owned_job c inst i session (data js)) (\<lambda>j. Inr (guest_value j True))"

definition cancel :: "job_code \<Rightarrow> clock \<Rightarrow> io_fault \<Rightarrow> string \<Rightarrow> uuid \<Rightarrow> uuid \<Rightarrow> string \<Rightarrow> Jobs \<Rightarrow> (string + unit) \<times> Jobs" where
  "cancel jc t fault c inst i session =
     transaction jc fault (\<lambda>s. bind_res (owned_job c inst i session s) (\<lambda>j.
       if job_status j \<notin> {Pending, Approved} then Inl ''cannot cancel job after execution starts''
       else Inr ((), put_job i (set_job t Cancelled ''Cancelled by submitting guest. Not sent.'' j) s)))"

definition acknowledge :: "job_code \<Rightarrow> clock \<Rightarrow> io_fault \<Rightarrow> string \<Rightarrow> uuid \<Rightarrow> uuid \<Rightarrow> string \<Rightarrow> Jobs \<Rightarrow> (string + unit) \<times> Jobs" where
  "acknowledge jc t fault c inst i session =
     transaction jc fault (\<lambda>s. bind_res (owned_job c inst i session s) (\<lambda>j.
       if \<not> terminal j \<or> job_status j = Unknown then Inl ''only known terminal results can be acknowledged''
       else Inr ((), put_job i (case acknowledged_at j of None \<Rightarrow> j\<lparr>acknowledged_at := Some (utc t)\<rparr> | Some _ \<Rightarrow> j) s)))"

definition delete_job :: "job_code \<Rightarrow> io_fault \<Rightarrow> string \<Rightarrow> uuid \<Rightarrow> uuid \<Rightarrow> string \<Rightarrow> Jobs \<Rightarrow> (string + unit) \<times> Jobs" where
  "delete_job jc fault c inst i session =
     transaction jc fault (\<lambda>s. bind_res (owned_job c inst i session s) (\<lambda>j.
       if \<not> terminal j then Inl ''cancel or finish job before removing it''
       else Inr ((), s\<lparr>job_map := AList.delete i (job_map s)\<rparr>)))"

section \<open>Operations of the host\<close>

definition summaries :: "Jobs \<Rightarrow> Summary list \<times> Summary list" where
  "summaries js = partition (\<lambda>s. status s = Pending) (map (job_summary \<circ> snd) (job_map (data js)))"

definition inspect_job :: "job_code \<Rightarrow> clock \<Rightarrow> uuid \<Rightarrow> uuid \<Rightarrow> Jobs \<Rightarrow> Detail option" where
  "inspect_job jc t new_id i js =
     Option.bind (map_of (job_map (data js)) i) (\<lambda>j.
       case from_request_with_limit (job_views jc) (sha256_hex (job_crypto jc)) t new_id (job_container j) (job_request jc)
              (job_body j) MAX_PAYLOAD of
         Inl _ \<Rightarrow> None
       | Inr d \<Rightarrow>
           (let hs = (case job_upstream j of None \<Rightarrow> [] | Some u \<Rightarrow> upstream_headers u) in
            Some (d\<lparr>summary := job_summary j,
              graphql_response := (if job_status j = GraphqlError
                then Option.bind (job_result j) (\<lambda>r. graphql_response_diagnostics (json_from_slice jc) r
                       (map_of hs ''content-type'') hs)
                else graphql_response d)\<rparr>)))"

definition contains_job :: "uuid \<Rightarrow> Jobs \<Rightarrow> bool" where
  "contains_job i js \<longleftrightarrow> map_of (job_map (data js)) i \<noteq> None"

definition decide_job :: "job_code \<Rightarrow> clock \<Rightarrow> io_fault \<Rightarrow> uuid \<Rightarrow> string \<Rightarrow> Decision_kind \<Rightarrow> Jobs \<Rightarrow> (string + unit) \<times> Jobs" where
  "decide_job jc t fault i fp d =
     transaction jc fault (\<lambda>s.
       case map_of (job_map s) i of
         None \<Rightarrow> Inl ''job not found''
       | Some j \<Rightarrow>
           if job_status j \<noteq> Pending \<or> job_fingerprint j \<noteq> fp \<or> job_expires_at j \<le> utc t
           then Inl ''job no longer pending or fingerprint changed''
           else Inr ((), put_job i
             (case d of
                Approve \<Rightarrow> (set_job t Approved ''Approved; queued for execution'' j)
                  \<lparr>job_upstream := Some (no_diagnostics\<lparr>approved_at := Some (utc t),
                     accepted_to_approval_ms := Some (wall_elapsed_ms (job_created_at j) (utc t))\<rparr>)\<rparr>
              | Deny \<Rightarrow> set_job t Denied ''Denied by host. Not sent.'' j) s))"

section \<open>The reply\<close>

datatype chunk = Chunk string | Broken transport_failure

record upstream_reply =
  reply_status :: nat
  reply_addr :: "string option"
  reply_version :: string
  reply_headers :: "(string \<times> header_value) list"
  reply_chunks :: "chunk list"

text \<open>The loop over the chunks: bytes kept, bytes seen, and what ended it early.\<close>

fun read_chunks :: "chunk list \<Rightarrow> string \<Rightarrow> nat \<Rightarrow> string \<times> nat \<times> string option" where
  "read_chunks [] bytes seen = (bytes, seen, None)"
| "read_chunks (Chunk c # cs) bytes seen =
     (let seen' = min (seen + length c) (2 ^ 64 - 1) in
      if length bytes + length c \<le> MAX_RESULT then read_chunks cs (bytes @ c) seen'
      else (bytes, seen', Some ''response_too_large''))"
| "read_chunks (Broken e # cs) bytes seen = (bytes, seen, Some (transport_error_kind e))"

record job_end =
  end_status :: Status
  end_http :: "nat option"
  end_outcome :: string
  end_result :: "string option"
  end_upstream :: UpstreamDiagnostics

definition reply_errors :: "job_code \<Rightarrow> string \<Rightarrow> bool" where
  "reply_errors jc bytes =
     opt_any (\<lambda>v. case as_array v of None \<Rightarrow> True | Some xs \<Rightarrow> xs \<noteq> []) (Option.bind (json_from_slice jc bytes) (json_get ''errors''))"

definition no_reply :: "clock \<Rightarrow> clock \<Rightarrow> UpstreamDiagnostics \<Rightarrow> transport_failure \<Rightarrow> job_end" where
  "no_reply started t u e =
     \<lparr>end_status = Unknown, end_http = None,
      end_outcome = ''No reply after sending ('' @ transport_error_kind e @ ''); not automatically retried'',
      end_result = None,
      end_upstream = u\<lparr>finished_at := Some (utc t), total_ms := Some (elapsed_ms started t), upstream_bytes := Some 0,
        response_complete := Some False, transport_error := Some (transport_error_kind e)\<rparr>\<rparr>"

definition replied :: "job_code \<Rightarrow> clock \<Rightarrow> clock \<Rightarrow> clock \<Rightarrow> UpstreamDiagnostics \<Rightarrow> upstream_reply \<Rightarrow> job_end" where
  "replied jc started th t u r =
     (case read_chunks (reply_chunks r) [] 0 of (bytes, seen, broken) \<Rightarrow>
        let code = reply_status r;
            d = u\<lparr>headers_at := Some (utc th), finished_at := Some (utc t),
                 time_to_headers_ms := Some (elapsed_ms started th), total_ms := Some (elapsed_ms started t),
                 remote_addr := reply_addr r, http_version := Some (reply_version r),
                 upstream_headers := diagnostic_response_headers (reply_headers r), upstream_bytes := Some seen,
                 response_complete := Some (broken = None), transport_error := broken\<rparr>
        in case broken of
            Some why \<Rightarrow>
              \<lparr>end_status = Unknown, end_http = Some code,
               end_outcome = ''Response incomplete ('' @ why @ '') or over 4 MiB; inspect upstream before retrying'',
               end_result = None, end_upstream = d\<rparr>
          | None \<Rightarrow>
              \<lparr>end_status = (if 400 \<le> code then UpstreamError else if reply_errors jc bytes then GraphqlError else ResponseReceived),
               end_http = Some code,
               end_outcome =
                 (if 400 \<le> code then ''Upstream endpoint returned HTTP '' @ show_base 10 code @ ''; inspect the response before retrying''
                  else if reply_errors jc bytes then ''GraphQL errors returned'' else ''Response received''),
               end_result = Some (from_utf8_lossy bytes), end_upstream = d\<rparr>)"

section \<open>The worker\<close>

text \<open>
  The points of \<open>tick\<close> at which other tasks run, with the jobs of the snapshot that are left. \<open>Stale\<close>: expired or
  no longer the guest's; \<open>Cleared\<close>: to be checked for its credential; \<open>Unbound\<close>: without one; \<open>Ready\<close>: to be
  admitted; \<open>Transfer\<close>: sent, with its diagnostics and the time it was sent.
\<close>

datatype worker =
    Idle
  | Loop "Job list"
  | Stale Job "Job list"
  | Cleared Job "Job list"
  | Unbound Job "Job list"
  | Ready Job Credential "Job list"
  | Transfer Job Credential UpstreamDiagnostics clock "Job list"

text \<open>What a step of the worker reads: the clock, the outcome of a write, the settings, the reply.\<close>

record 'p worker_env =
  at :: clock
  headers_clock :: clock
  write_fault :: io_fault
  settings_now :: "'p Settings"
  reply :: "transport_failure + upstream_reply"

definition waiting :: "Status \<Rightarrow> bool" where
  "waiting st \<longleftrightarrow> st \<in> {Pending, Approved}"

definition tick_start :: "Jobs \<Rightarrow> worker" where
  "tick_start js = Loop (filter (\<lambda>j. waiting (job_status j)) (map snd (job_map (data js))))"

definition tick_check :: "clock \<Rightarrow> AppState \<Rightarrow> Job \<Rightarrow> Job list \<Rightarrow> worker" where
  "tick_check t app j rest =
     (if job_expires_at j \<le> utc t \<or> async_identity app (job_container j) (job_peer j) \<noteq> Some (job_instance j, job_epoch j)
      then Stale j rest
      else if job_status j \<noteq> Approved then Loop rest
      else Cleared j rest)"

text \<open>An error ends the tick: the \<open>?\<close> after each transaction.\<close>

definition next_tick :: "(string + 'a) \<times> Jobs \<Rightarrow> worker \<Rightarrow> worker \<times> Jobs" where
  "next_tick r w = (case r of (Inl _, js) \<Rightarrow> (Idle, js) | (Inr _, js) \<Rightarrow> (w, js))"

definition tick_expire :: "job_code \<Rightarrow> clock \<Rightarrow> io_fault \<Rightarrow> Job \<Rightarrow> Jobs \<Rightarrow> (string + unit) \<times> Jobs" where
  "tick_expire jc t fault j =
     transaction jc fault (\<lambda>s.
       case map_of (job_map s) (job_id j) of
         None \<Rightarrow> Inr ((), s)
       | Some k \<Rightarrow>
           if \<not> waiting (job_status k) then Inr ((), s)
           else if job_expires_at k \<le> utc t
           then Inr ((), put_job (job_id j) (set_job t Expired ''Review expired after 24 hours. Not sent.'' k) s)
           else Inr ((), put_job (job_id j) (set_job t Cancelled ''Guest permissions changed. Not sent.'' k) s))"

definition tick_credential :: "job_code \<Rightarrow> 'p Settings \<Rightarrow> Job \<Rightarrow> Job list \<Rightarrow> worker" where
  "tick_credential jc cfg j rest =
     (case current (job_net jc) (job_crypto jc) cfg (job_binding j) of
        None \<Rightarrow> Unbound j rest
      | Some cred \<Rightarrow> Ready j cred rest)"

definition tick_unbound :: "job_code \<Rightarrow> clock \<Rightarrow> io_fault \<Rightarrow> Job \<Rightarrow> Jobs \<Rightarrow> (string + unit) \<times> Jobs" where
  "tick_unbound jc t fault j =
     transaction jc fault (\<lambda>s.
       case map_of (job_map s) (job_id j) of
         None \<Rightarrow> Inr ((), s)
       | Some k \<Rightarrow>
           if job_status k = Approved
           then Inr ((), put_job (job_id j) (set_job t Blocked ''GitHub credential changed. Not sent; submit again.'' k) s)
           else Inr ((), s))"

definition sending_diagnostics :: "clock \<Rightarrow> Job \<Rightarrow> UpstreamDiagnostics" where
  "sending_diagnostics t j =
     (let u = (case job_upstream j of None \<Rightarrow> no_diagnostics | Some u \<Rightarrow> u) in
      u\<lparr>started_at := Some (utc t), accepted_to_admission_ms := Some (wall_elapsed_ms (job_created_at j) (utc t)),
        approval_to_admission_ms := map_option (\<lambda>a. wall_elapsed_ms a (utc t)) (approved_at u)\<rparr>)"

text \<open>The admission: under the lock of the policy, \<open>Sending\<close> is written before the first byte leaves.\<close>

definition tick_admit :: "job_code \<Rightarrow> clock \<Rightarrow> io_fault \<Rightarrow> AppState \<Rightarrow> Job \<Rightarrow> Jobs \<Rightarrow> (string + bool) \<times> Jobs" where
  "tick_admit jc t fault app j js =
     (let r = transaction jc fault (\<lambda>s.
            case map_of (job_map s) (job_id j) of
              None \<Rightarrow> Inr (False, s)
            | Some k \<Rightarrow>
                if job_status k \<noteq> Approved \<or> job_expires_at k \<le> utc t then Inr (False, s)
                else Inr (True, put_job (job_id j)
                  ((set_job t Sending ''Executing on GitHub'' k)\<lparr>job_upstream := Some (sending_diagnostics t j)\<rparr>) s)) js;
          admitted = with_async_identity app (job_container j) (job_peer j) (job_instance j) (job_epoch j) (False, js)
            (\<lambda>_. map_sum id (\<lambda>b. (b, snd r)) (fst r))
      in case admitted of Inl e \<Rightarrow> (Inl e, snd r) | Inr (b, js') \<Rightarrow> (Inr b, js'))"

definition tick_record :: "job_code \<Rightarrow> clock \<Rightarrow> io_fault \<Rightarrow> job_end \<Rightarrow> Job \<Rightarrow> Jobs \<Rightarrow> (string + unit) \<times> Jobs" where
  "tick_record jc t fault e j =
     transaction jc fault (\<lambda>s.
       case map_of (job_map s) (job_id j) of
         None \<Rightarrow> Inl ''job missing after execution''
       | Some k \<Rightarrow> Inr ((), put_job (job_id j)
           ((set_job t (end_status e) (end_outcome e) k)\<lparr>job_http_status := end_http e, job_result := end_result e,
              job_upstream := Some (end_upstream e)\<rparr>) s))"

definition job_ended :: "job_code \<Rightarrow> 'p worker_env \<Rightarrow> UpstreamDiagnostics \<Rightarrow> clock \<Rightarrow> job_end" where
  "job_ended jc e u started =
     (case reply e of
        Inl failure \<Rightarrow> no_reply started (at e) u failure
      | Inr r \<Rightarrow> replied jc started (headers_clock e) (at e) u r)"

definition worker_step :: "job_code \<Rightarrow> 'p worker_env \<Rightarrow> AppState \<Rightarrow> worker \<Rightarrow> Jobs \<Rightarrow> worker \<times> Jobs" where
  "worker_step jc e app w js =
     (case w of
        Idle \<Rightarrow> (tick_start js, js)
      | Loop [] \<Rightarrow> (Idle, js)
      | Loop (j # rest) \<Rightarrow> (tick_check (at e) app j rest, js)
      | Stale j rest \<Rightarrow> next_tick (tick_expire jc (at e) (write_fault e) j js) (Loop rest)
      | Cleared j rest \<Rightarrow> (tick_credential jc (settings_now e) j rest, js)
      | Unbound j rest \<Rightarrow> next_tick (tick_unbound jc (at e) (write_fault e) j js) (Loop rest)
      | Ready j cred rest \<Rightarrow>
          (case tick_admit jc (at e) (write_fault e) app j js of
             (Inl _, js') \<Rightarrow> (Idle, js')
           | (Inr False, js') \<Rightarrow> (Loop rest, js')
           | (Inr True, js') \<Rightarrow> (Transfer j cred (sending_diagnostics (at e) j) (at e) rest, js'))
      | Transfer j cred u started rest \<Rightarrow>
          next_tick (tick_record jc (at e) (write_fault e) (job_ended jc e u started) j js) (Loop rest))"

end
