(* ===== verification/Jobs_Admit.thy ===== *)
theory Jobs_Admit
  imports Jobs "HOL-Library.Product_Lexorder"
begin

text \<open>
  The admission of a job to a full store: which results make room for it.
\<close>

text \<open>Every job is filed under its own id, in the order of ids.\<close>

definition filed :: "Saved \<Rightarrow> bool" where
  "filed s \<longleftrightarrow> btree (job_map s) \<and> list_all (\<lambda>(i, j). job_id j = i) (job_map s)"

definition job_age :: "Job \<Rightarrow> instant \<times> uuid" where
  "job_age j = (job_updated_at j, job_id j)"

text \<open>The results that may go, the oldest first, and a store without some of its jobs.\<close>

definition removable :: "instant \<Rightarrow> Saved \<Rightarrow> Job list" where
  "removable now s = sort_key job_age (filter (automatically_removable now) (map snd (job_map s)))"

definition without :: "Job list \<Rightarrow> Saved \<Rightarrow> Saved" where
  "without js s = s\<lparr>job_map := filter (\<lambda>(i, _). i \<notin> job_id ` set js) (job_map s)\<rparr>"

lemma older_age: "older a b \<longleftrightarrow> \<not> job_age b \<le> job_age a"
  by (auto simp: older_def job_age_def less_eq_prod_def)

lemma oldest_sorted: "oldest js = (case sort_key job_age js of [] \<Rightarrow> None | j # _ \<Rightarrow> Some j)"
proof (induction js)
  case (Cons j js)
  then show ?case
    by (cases "sort_key job_age js") (auto simp: older_age)
qed simp

lemma filedD:
  assumes "filed s" and "(i, j) \<in> set (job_map s)"
  shows "job_id j = i" "map_of (job_map s) i = Some j"
  using assms map_of_in_distinct [OF btree_distinct, of "job_map s" i j] unfolding filed_def list_all_iff by blast+

lemma filed_ids: "filed s \<Longrightarrow> map job_id (map snd (job_map s)) = keys (job_map s)"
  by (auto simp: filed_def list_all_iff)

lemma filed_distinct:
  assumes "filed s"
  shows "distinct (map job_id (map snd (job_map s)))"
  unfolding filed_ids [OF assms] using assms btree_distinct [of "job_map s"] by (simp add: filed_def distinct_keys_def)

lemma without_Nil [simp]: "without [] s = s"
  by (simp add: without_def)

lemma without_without: "without xs (without ys s) = without (ys @ xs) s"
  by (auto simp: without_def image_Un intro!: arg_cong [where f = "\<lambda>m. s\<lparr>job_map := m\<rparr>"] filter_cong)

lemma delete_without: "s\<lparr>job_map := AList.delete (job_id j) (job_map s)\<rparr> = without [j] s"
  by (auto simp: without_def AList.delete_eq intro!: arg_cong [where f = "\<lambda>m. s\<lparr>job_map := m\<rparr>"] filter_cong)

lemma filed_without: "filed s \<Longrightarrow> filed (without js s)"
  by (auto simp: filed_def without_def btree_def list_all_iff sorted_wrt_map sorted_wrt_filter)

lemma removable_without:
  assumes "filed s" and "removable now s = j # q"
  shows "removable now (without [j] s) = q"
proof -
  let ?P = "automatically_removable now" and ?Q = "\<lambda>k. job_id k \<noteq> job_id j"
  have "map snd (job_map (without [j] s)) = filter ?Q (map snd (job_map s))"
    using filedD(1) [OF assms(1)] by (auto simp: without_def filter_map comp_def intro!: filter_cong arg_cong [where f = "map snd"])
  then have "removable now (without [j] s) = sort_key job_age (filter ?Q (filter ?P (map snd (job_map s))))"
    by (simp add: removable_def conj_commute)
  also have "\<dots> = filter ?Q (sort_key job_age (filter ?P (map snd (job_map s))))" by (simp only: filter_sort)
  also have "\<dots> = filter ?Q (j # q)" using assms(2) by (simp only: removable_def)
  also have "\<dots> = filter ?Q q" by simp
  also have "\<dots> = q"
  proof -
    have "distinct (map job_id (filter ?P (map snd (job_map s))))"
      using filed_distinct [OF assms(1)] distinct_map_filter by blast
    then have "distinct (map job_id (j # q))"
      using assms(2) by (metis distinct_map distinct_sort removable_def set_sort)
    then show ?thesis by (intro filter_True ballI) (metis distinct.simps(2) image_eqI list.simps(9) set_map)
  qed
  finally show ?thesis .
qed

lemma prune_step:
  "prune_for_admission jc now s =
     (case fits jc s of
        Inl e \<Rightarrow> Some (Inl e)
      | Inr ok \<Rightarrow>
          if ok then Some (Inr s)
          else (case removable now s of
             [] \<Rightarrow> Some (Inl ''async job capacity is occupied by active, uncertain, or recent results; wait for completion delivery or explicitly remove a result'')
           | j # _ \<Rightarrow> prune_for_admission jc now (without [j] s)))"
  by (subst prune_for_admission.simps)
    (auto simp: oldest_sorted removable_def delete_without split: sum.splits list.splits)

text \<open>The outcome of the loop: the first \<open>n\<close> of the removable results are gone, and \<open>n\<close> is as small as it can be.\<close>

definition pruned :: "job_code \<Rightarrow> instant \<Rightarrow> Saved \<Rightarrow> nat \<Rightarrow> string + Saved \<Rightarrow> bool" where
  "pruned jc now s n r \<longleftrightarrow>
     n \<le> length (removable now s) \<and> (\<forall>m < n. fits jc (without (take m (removable now s)) s) = Inr False)
     \<and> (case r of
          Inr s' \<Rightarrow> s' = without (take n (removable now s)) s \<and> fits jc s' = Inr True
        | Inl e \<Rightarrow> fits jc (without (take n (removable now s)) s) = Inl e
            \<or> n = length (removable now s) \<and> fits jc (without (removable now s) s) = Inr False)"

lemma pruned_later:
  assumes "filed s" and "removable now s = j # q" and "fits jc s = Inr False" and "pruned jc now (without [j] s) n r"
  shows "pruned jc now s (Suc n) r"
proof -
  have q: "removable now (without [j] s) = q" by (rule removable_without [OF assms(1,2)])
  have "fits jc (without (take m (j # q)) s) = Inr False" if "m < Suc n" for m
    using that assms(3,4) by (cases m) (auto simp: pruned_def q without_without)
  then show ?thesis using assms(4) by (auto simp: pruned_def q assms(2) without_without split: sum.splits)
qed

lemma prune_pruned:
  assumes "filed s"
  shows "\<exists>n r. prune_for_admission jc now s = Some r \<and> pruned jc now s n r"
  using assms
proof (induction "removable now s" arbitrary: s)
  case Nil
  then have rs: "removable now s = []" by simp
  show ?case
    by (subst prune_step, rule exI [of _ 0]) (auto simp: rs pruned_def split: sum.splits)
next
  case (Cons j q)
  then have rs: "removable now s = j # q" by simp
  show ?case
  proof (cases "fits jc s = Inr False")
    case True
    obtain n r where "prune_for_admission jc now (without [j] s) = Some r" "pruned jc now (without [j] s) n r"
      using Cons.hyps(1) [of "without [j] s"] removable_without [OF Cons.prems rs] filed_without [OF Cons.prems] by auto
    with pruned_later [OF Cons.prems rs True] show ?thesis by (subst prune_step) (auto simp: True rs)
  next
    case False
    then show ?thesis
      by (subst prune_step, intro exI [of _ 0]) (auto simp: rs pruned_def split: sum.splits)
  qed
qed

text \<open>
  An admission makes as little room as it can. On a store whose jobs are filed under their ids, the
  loop always returns. It removes only settled, known results that were acknowledged or are an hour old,
  the oldest first, and one fewer would not have been enough; it fails only when even all of them are
  not enough (or the size overflows).
\<close>

theorem admission_removes_least:
  assumes "filed s"
  shows "\<exists>n r. prune_for_admission jc now s = Some r \<and> pruned jc now s n r
    \<and> sorted (map job_age (take n (removable now s)))
    \<and> (\<forall>j \<in> set (take n (removable now s)). automatically_removable now j \<and> j \<in> snd ` set (job_map s))"
proof -
  obtain n r where "prune_for_admission jc now s = Some r" "pruned jc now s n r" using prune_pruned [OF assms] by blast
  moreover have "sorted (map job_age (take n (removable now s)))"
    by (simp add: removable_def take_map [symmetric] sorted_wrt_take)
  moreover have "automatically_removable now j \<and> j \<in> snd ` set (job_map s)" if "j \<in> set (take n (removable now s))" for j
    using in_set_takeD [OF that] by (auto simp: removable_def)
  ultimately show ?thesis by blast
qed

definition sample_old_job :: "uuid \<Rightarrow> instant option \<Rightarrow> Job" where
  "sample_old_job i ack = \<lparr>job_id = i, job_container = ''g'', job_instance = 1, job_epoch = 1, job_peer = V4 7,
     submission = \<lparr>sub_request_key = ''k'', session_id = ''s'', sub_query = ''q'', variables = JNull, operation_name = None\<rparr>,
     job_body = ''{}'', job_fingerprint = [], job_binding = credential_binding sample_credential, job_status = Denied,
     job_created_at = 1, job_updated_at = i, job_expires_at = 9, job_http_status = None, job_outcome = [], job_result = None,
     job_facts = None, job_upstream = None, acknowledged_at = ack\<rparr>"

definition sample_full :: Saved where
  "sample_full = \<lparr>jobs_version = 1, job_map = [(1, sample_old_job 1 None), (2, sample_old_job 2 (Some 3)), (4, sample_old_job 4 (Some 5))]\<rparr>"

definition sample_tight :: job_code where
  "sample_tight = \<lparr>saved_len = (\<lambda>s. if length (job_map s) \<le> 2 then 9 else 2 ^ 30), job_views = sample_views, job_net = sample_nc,
     job_crypto = sample_crypto, json_to_string = (\<lambda>_. []), json_from_slice = (\<lambda>_. None),
     endpoint = \<lparr>uri_text = ENDPOINT, scheme_str = None, uri_host = None, port_u16 = None, path = [], query = None\<rparr>\<rparr>"

theorem admission_removes_least_witness:
  "\<exists>n. pruned sample_tight 9 sample_full n (Inr (without [sample_old_job 2 (Some 3)] sample_full))"
proof -
  have "filed sample_full" by code_simp
  moreover have "prune_for_admission sample_tight 9 sample_full = Some (Inr (without [sample_old_job 2 (Some 3)] sample_full))" by code_simp
  ultimately show ?thesis using admission_removes_least [of sample_full sample_tight 9] by (metis option.inject)
qed

section \<open>The admitted store\<close>

lemma count_insert:
  "length (filter P (map snd (btree_insert k v m))) \<le> (if P v then 1 else 0) + length (filter P (map snd m))"
  by (induction k v m rule: btree_insert.induct) auto

lemma count_without: "length (filter P (map snd (job_map (without js s)))) \<le> length (filter P (map snd (job_map s)))"
  by (auto simp: without_def filter_map comp_def intro: length_filter_mono)

lemma filed_put:
  assumes "filed s" and "job_id j = i"
  shows "filed (put_job i j s)"
  using assms by (auto simp: filed_def put_job_def list_all_iff dest: set_btree_insert)

lemma removable_settled: "j \<in> set (removable now s) \<Longrightarrow> terminal j \<and> j \<in> snd ` set (job_map s)"
  by (auto simp: removable_def automatically_removable_def)

lemma without_keeps:
  assumes "filed s" and "set js \<subseteq> set (removable now s)" and "map_of (job_map s) i = Some j" and "\<not> terminal j"
  shows "map_of (job_map (without js s)) i = Some j"
proof -
  have "i \<notin> job_id ` set js"
  proof
    assume "i \<in> job_id ` set js"
    then obtain k where k: "k \<in> set js" "job_id k = i" by auto
    then have "terminal k" "k \<in> snd ` set (job_map s)" using removable_settled assms(2) by auto
    then have "map_of (job_map s) i = Some k" using filedD [OF assms(1)] k(2) by (metis imageE prod.collapse)
    with assms(3,4) \<open>terminal k\<close> show False by simp
  qed
  then have "(i, j) \<in> set (job_map (without js s))" using map_of_SomeD [OF assms(3)] by (auto simp: without_def)
  then show ?thesis using filedD(2) [OF filed_without [OF assms(1)]] by blast
qed

lemma without_origin:
  assumes "filed s" and "map_of (job_map (without js s)) i = Some j"
  shows "map_of (job_map s) i = Some j"
  using map_of_SomeD [OF assms(2)] filedD(2) [OF assms(1)] by (auto simp: without_def)

text \<open>What an admission leaves: the new job, all active jobs, and the results that had to stay.\<close>

lemma admit_job_done:
  assumes "filed s" and "admit_job jc now j s = Some (Inr (v, s'))"
  obtains js where "set js \<subseteq> set (removable now (put_job (job_id j) j s))" "s' = without js (put_job (job_id j) j s)"
    "v = guest_value j False" "length (job_map s') \<le> MAX_JOBS" "saved_len jc s' + reserved s' \<le> MAX_STORAGE"
    "length (active_jobs s) < 32" "length (filter (\<lambda>k. job_container k = job_container j) (active_jobs s)) < 8"
proof -
  let ?s = "put_job (job_id j) j s"
  have "filed ?s" using filed_put [OF assms(1)] by simp
  then obtain n r where r: "prune_for_admission jc now ?s = Some r" "pruned jc now ?s n r" using prune_pruned by blast
  have lim: "length (active_jobs s) < 32" "length (filter (\<lambda>k. job_container k = job_container j) (active_jobs s)) < 8"
      "r = Inr s'" "v = guest_value j False"
    using assms(2) r(1) by (auto simp: admit_job_def bind_res_Inr_iff split: if_splits)
  then have "s' = without (take n (removable now ?s)) ?s" "fits jc s' = Inr True" using r(2) by (auto simp: pruned_def)
  moreover from this(2) have "length (job_map s') \<le> MAX_JOBS" "saved_len jc s' + reserved s' \<le> MAX_STORAGE"
    by (auto simp: fits_def storage_usage_def bind_res_Inr_iff split: if_splits)
  ultimately show thesis using that [of "take n (removable now ?s)"] lim set_take_subset by fast
qed

end
