(* ===== verification/Jobs_World.thy ===== *)
theory Jobs_World
  imports Jobs_Admit
begin

text \<open>
  The history of a job store: guests, the host, the worker and restarts of the broker in any order, with
  the state of the broker beside it. The trace records submissions, approvals of the host, and every
  request that was sent.
\<close>

section \<open>Worlds\<close>

text \<open>
  A submission with the policy of its guest and whether the broker allowed all; an approval by its
  fingerprint; a request that left, with its credential and the policy at that moment.
\<close>

datatype event =
    Submitted Job policy_now bool
  | Host_approved uuid string
  | Sent Job Credential policy_now

record world =
  w_app :: AppState
  w_jobs :: Jobs
  w_worker :: worker
  w_trace :: "event list"

datatype 'p world_op =
    App_op state_op
  | Submit_op clock io_fault io_fault "'p Settings" "state_op list" string IpAddr Submission
  | Cancel_op clock io_fault string uuid uuid string
  | Acknowledge_op clock io_fault string uuid uuid string
  | Delete_op io_fault string uuid uuid string
  | Decide_op clock io_fault uuid string Decision_kind
  | Worker_op "'p worker_env"

definition submitted_event :: "world \<Rightarrow> string \<Rightarrow> Jobs \<Rightarrow> guest_job \<Rightarrow> event" where
  "submitted_event w c js v =
     Submitted (the (map_of (job_map (data js)) (gv_id v))) (guest_policy (w_app w) c) (allows_all (github_policy (w_app w)))"

definition sent_event :: "AppState \<Rightarrow> worker \<Rightarrow> worker \<Rightarrow> event list" where
  "sent_event app old new =
     (case (old, new) of
        (Ready _ _ _, Transfer j cred u started rest) \<Rightarrow> [Sent j cred (guest_policy app (job_container j))]
      | _ \<Rightarrow> [])"

fun world_step :: "job_code \<Rightarrow> 'p world_op \<Rightarrow> world \<Rightarrow> world" where
  "world_step jc (App_op op) w = w\<lparr>w_app := apply_state_op op (w_app w)\<rparr>"
| "world_step jc (Submit_op t pf f cfg gap c peer sub) w =
     (case submit jc t pf f cfg gap c peer sub (w_app w, w_jobs w) of
        None \<Rightarrow> w
      | Some (r, app, js) \<Rightarrow> w\<lparr>w_app := app, w_jobs := js,
          w_trace := (case r of Inl _ \<Rightarrow> w_trace w | Inr v \<Rightarrow> submitted_event w c js v # w_trace w)\<rparr>)"
| "world_step jc (Cancel_op t f c inst i session) w = w\<lparr>w_jobs := snd (cancel jc t f c inst i session (w_jobs w))\<rparr>"
| "world_step jc (Acknowledge_op t f c inst i session) w = w\<lparr>w_jobs := snd (acknowledge jc t f c inst i session (w_jobs w))\<rparr>"
| "world_step jc (Delete_op f c inst i session) w = w\<lparr>w_jobs := snd (delete_job jc f c inst i session (w_jobs w))\<rparr>"
| "world_step jc (Decide_op t f i fp d) w =
     (case decide_job jc t f i fp d (w_jobs w) of (r, js) \<Rightarrow>
        w\<lparr>w_jobs := js, w_trace := (if d = Decision_kind.Approve \<and> r = Inr () then Host_approved i fp # w_trace w else w_trace w)\<rparr>)"
| "world_step jc (Worker_op e) w =
     (case worker_step jc e (w_app w) (w_worker w) (w_jobs w) of (wk, js) \<Rightarrow>
        w\<lparr>w_jobs := js, w_worker := wk, w_trace := sent_event (w_app w) (w_worker w) wk @ w_trace w\<rparr>)"

text \<open>
  Worlds reached from a start without a file. A restart, at any moment, loses the memory and the worker and
  reads the file.
\<close>

inductive reachable :: "'p itself \<Rightarrow> job_code \<Rightarrow> world \<Rightarrow> bool" for P jc where
  start: "load_jobs jc t No_fault Store_missing = Inr js \<Longrightarrow> state_ok app
    \<Longrightarrow> reachable P jc \<lparr>w_app = app, w_jobs = js, w_worker = Idle, w_trace = []\<rparr>"
| step: "reachable P jc w \<Longrightarrow> reachable P jc (world_step jc (op :: 'p world_op) w)"
| restart: "reachable P jc w \<Longrightarrow> store_file (w_jobs w) = Some s
    \<Longrightarrow> load_jobs jc t fault (Store_contents (saved_len jc s) s) = Inr js \<Longrightarrow> fresh_start (uuid_supply (w_app w)) app
    \<Longrightarrow> reachable P jc (w\<lparr>w_app := app, w_jobs := js, w_worker := Idle\<rparr>)"

inductive_cases reachableE: "reachable P jc w"

section \<open>Edits of the store\<close>

text \<open>What no operation changes in a job, and how its status moves.\<close>

definition fixed_part :: "Job \<Rightarrow> uuid \<times> string \<times> uuid \<times> uuid \<times> IpAddr \<times> Submission \<times> string \<times> string \<times> Binding" where
  "fixed_part j = (job_id j, job_container j, job_instance j, job_epoch j, job_peer j, submission j, job_body j,
     job_fingerprint j, job_binding j)"

definition status_move :: "Status \<Rightarrow> Status \<Rightarrow> bool" where
  "status_move a b \<longleftrightarrow> a = b \<or> a \<in> {Pending, Approved, Sending} \<and> b \<notin> {Pending, Approved, Sending}
     \<or> a = Pending \<and> b = Approved \<or> a = Approved \<and> b = Sending"

definition edited :: "Saved \<Rightarrow> Saved \<Rightarrow> bool" where
  "edited s s' \<longleftrightarrow> s' = s
     \<or> (\<exists>i j j'. map_of (job_map s) i = Some j \<and> s' = put_job i j' s \<and> fixed_part j' = fixed_part j
          \<and> status_move (job_status j) (job_status j'))
     \<or> (\<exists>i j. map_of (job_map s) i = Some j \<and> terminal j \<and> s' = s\<lparr>job_map := AList.delete i (job_map s)\<rparr>)"

definition saved_ok :: "job_code \<Rightarrow> Saved \<Rightarrow> bool" where
  "saved_ok jc s \<longleftrightarrow> jobs_version s = 1 \<and> btree (job_map s) \<and> list_all (\<lambda>(i, j). job_id j = i) (job_map s)
     \<and> length (job_map s) \<le> MAX_JOBS \<and> saved_len jc s + reserved s \<le> MAX_STORAGE
     \<and> length (active_jobs s) \<le> 32
     \<and> (\<forall>c. length (filter (\<lambda>j. job_container j = c) (active_jobs s)) \<le> 8)"

definition store_ok :: "job_code \<Rightarrow> Jobs \<Rightarrow> bool" where
  "store_ok jc js \<longleftrightarrow> stored js \<and> store_file js = Some (data js) \<and> saved_ok jc (data js)"

lemma fixed_part_simps [simp]:
  "fixed_part (set_job t st out j) = fixed_part j"
  "fixed_part (j\<lparr>job_upstream := u\<rparr>) = fixed_part j"
  "fixed_part (j\<lparr>acknowledged_at := a\<rparr>) = fixed_part j"
  "fixed_part (j\<lparr>job_http_status := h\<rparr>) = fixed_part j"
  "fixed_part (j\<lparr>job_result := r\<rparr>) = fixed_part j"
  "fixed_part (j\<lparr>job_facts := f\<rparr>) = fixed_part j"
  by (simp_all add: fixed_part_def set_job_def)

lemma set_job_status [simp]: "job_status (set_job t st out j) = st"
  by (simp add: set_job_def)

lemma fixed_partD:
  assumes "fixed_part j = fixed_part k"
  shows "job_id j = job_id k" "job_container j = job_container k" "job_epoch j = job_epoch k" "job_peer j = job_peer k"
    "job_instance j = job_instance k" "job_body j = job_body k" "job_fingerprint j = job_fingerprint k"
    "job_binding j = job_binding k" "submission j = submission k"
  using assms by (simp_all add: fixed_part_def)

lemma put_job_simps [simp]:
  "map_of (job_map (put_job i j s)) = (map_of (job_map s))(i \<mapsto> j)"
  "jobs_version (put_job i j s) = jobs_version s"
  by (simp_all add: put_job_def)

lemma btree_insert_present:
  "btree m \<Longrightarrow> map_of m i = Some old \<Longrightarrow> btree_insert i v m = map (\<lambda>(k, x). (k, if k = i then v else x)) m"
proof (induction i v m rule: btree_insert.induct)
  case (2 k v a b m)
  have tail: "btree m" "\<forall>x \<in> set m. a < fst x" using "2.prems"(1) by (auto simp: btree_def)
  show ?case
  proof (cases "k = a")
    case True
    have "map (\<lambda>(x, y). (x, if x = k then v else y)) m = m"
      using tail(2) True by (induction m) auto
    with True show ?thesis by auto
  next
    case False
    then have "map_of m k = Some old" using "2.prems"(2) by simp
    then have "a < k" using tail(2) map_of_SomeD [of m k old] by fastforce
    with False "2.IH" tail(1) \<open>map_of m k = Some old\<close> show ?thesis by auto
  qed
qed simp

text \<open>An edit never makes a settled job active again, so the counts of active jobs do not grow.\<close>

lemma count_edited:
  assumes "btree (job_map s)" and "edited s s'"
  shows "length (filter (\<lambda>j. \<not> terminal j \<and> Q (fixed_part j)) (map snd (job_map s')))
    \<le> length (filter (\<lambda>j. \<not> terminal j \<and> Q (fixed_part j)) (map snd (job_map s)))"
  using assms(2) unfolding edited_def
proof (elim disjE exE conjE)
  fix i j j'
  assume j: "map_of (job_map s) i = Some j" and s': "s' = put_job i j' s"
    and f: "fixed_part j' = fixed_part j" "status_move (job_status j) (job_status j')"
  let ?f = "\<lambda>x. if fst x = i then j' else snd x" and ?P = "\<lambda>j. \<not> terminal j \<and> Q (fixed_part j)"
  have eq: "map snd (job_map s') = map ?f (job_map s)"
    using btree_insert_present [OF assms(1) j] by (simp add: s' put_job_def split_beta)
  have "?P (?f x) \<Longrightarrow> ?P (snd x)" if "x \<in> set (job_map s)" for x
  proof -
    have "fst x = i \<Longrightarrow> snd x = j"
      using that j map_of_in_distinct [OF btree_distinct [OF assms(1)], of "fst x" "snd x"] by (cases x) auto
    then show "?P (?f x) \<Longrightarrow> ?P (snd x)"
      using f by (cases "fst x = i") (auto simp: terminal_def status_move_def)
  qed
  then have "length (filter (\<lambda>x. ?P (?f x)) (job_map s)) \<le> length (filter (\<lambda>x. ?P (snd x)) (job_map s))"
    by (rule length_filter_mono)
  then show ?thesis by (simp add: eq filter_map comp_def)
qed (auto simp: AList.delete_eq filter_map comp_def intro: length_filter_mono)

lemma saved_ok_edited:
  assumes "saved_ok jc s" and "edited s s'" and "saved_len jc s' + reserved s' \<le> MAX_STORAGE"
  shows "saved_ok jc s'"
proof -
  have ok: "btree (job_map s)" "list_all (\<lambda>(i, j). job_id j = i) (job_map s)" using assms(1) by (auto simp: saved_ok_def)
  have "length (active_jobs s') \<le> length (active_jobs s)"
    using count_edited [OF ok(1) assms(2), of "\<lambda>_. True"] by (simp add: active_jobs_def)
  moreover have "length (filter (\<lambda>j. job_container j = c) (active_jobs s')) \<le> length (filter (\<lambda>j. job_container j = c) (active_jobs s))" for c
    using count_edited [OF ok(1) assms(2), of "\<lambda>p. fst (snd p) = c"]
    by (simp add: active_jobs_def fixed_part_def conj_commute)
  moreover have "jobs_version s' = 1 \<and> btree (job_map s') \<and> list_all (\<lambda>(i, j). job_id j = i) (job_map s')
      \<and> length (job_map s') \<le> MAX_JOBS"
    using assms(2) unfolding edited_def
  proof (elim disjE exE conjE)
    fix i j j'
    assume j: "map_of (job_map s) i = Some j" and s': "s' = put_job i j' s" and f: "fixed_part j' = fixed_part j"
    have "job_id j = i" using ok(2) map_of_SomeD [OF j] by (auto simp: list_all_iff)
    with assms(1) ok show ?thesis
      by (auto simp: s' put_job_def saved_ok_def list_all_iff btree_insert_present [OF ok(1) j] fixed_partD(1) [OF f]
          btree_def comp_def split_beta)
  next
    fix i j assume "s' = s\<lparr>job_map := AList.delete i (job_map s)\<rparr>"
    with assms(1) ok show ?thesis
      by (auto simp: saved_ok_def list_all_iff AList.delete_eq btree_def sorted_wrt_filter filter_map [symmetric]
          comp_def split_beta order_trans [OF length_filter_le] sorted_wrt_map)
  qed (use assms(1) in \<open>simp add: saved_ok_def\<close>)
  ultimately show ?thesis
    using assms(1,3) unfolding saved_ok_def by (meson order_trans)
qed

section \<open>History\<close>

definition submitted_ids :: "event list \<Rightarrow> uuid list" where
  "submitted_ids tr = List.map_filter (\<lambda>e. case e of Submitted j _ _ \<Rightarrow> Some (job_id j) | _ \<Rightarrow> None) tr"

definition sent_ids :: "event list \<Rightarrow> uuid list" where
  "sent_ids tr = List.map_filter (\<lambda>e. case e of Sent j _ _ \<Rightarrow> Some (job_id j) | _ \<Rightarrow> None) tr"

definition read_only_body :: "job_code \<Rightarrow> string \<Rightarrow> bool" where
  "read_only_body jc body \<longleftrightarrow> fst (graphql_view (job_views jc) (job_request jc) body MAX_PAYLOAD)"

text \<open>A job goes back to a submission; it may run because it reads, because all is allowed, or by the host.\<close>

definition submitted_as :: "event list \<Rightarrow> Job \<Rightarrow> policy_now \<Rightarrow> bool \<Rightarrow> bool" where
  "submitted_as tr j pol allow \<longleftrightarrow> (\<exists>j0. Submitted j0 pol allow \<in> set tr \<and> fixed_part j0 = fixed_part j)"

definition may_run :: "job_code \<Rightarrow> event list \<Rightarrow> Job \<Rightarrow> bool \<Rightarrow> bool" where
  "may_run jc tr j allow \<longleftrightarrow>
     read_only_body jc (job_body j) \<or> allow \<or> Host_approved (job_id j) (job_fingerprint j) \<in> set tr"

definition known :: "event list \<Rightarrow> Job \<Rightarrow> bool" where
  "known tr j \<longleftrightarrow> (\<exists>pol allow. submitted_as tr j pol allow)"

definition authorised :: "job_code \<Rightarrow> event list \<Rightarrow> Job \<Rightarrow> bool" where
  "authorised jc tr j \<longleftrightarrow> (\<exists>pol allow. submitted_as tr j pol allow \<and> may_run jc tr j allow)"

definition sent_properly :: "job_code \<Rightarrow> event list \<Rightarrow> Job \<Rightarrow> Credential \<Rightarrow> policy_now \<Rightarrow> bool" where
  "sent_properly jc pre j cred pol \<longleftrightarrow> job_id j \<notin> set (sent_ids pre) \<and> credential_binding cred = job_binding j
     \<and> (\<exists>allow. submitted_as pre j pol allow \<and> may_run jc pre j allow)"

fun trace_ok :: "job_code \<Rightarrow> event list \<Rightarrow> bool" where
  "trace_ok jc [] = True"
| "trace_ok jc (Sent j cred pol # pre) \<longleftrightarrow> sent_properly jc pre j cred pol \<and> trace_ok jc pre"
| "trace_ok jc (_ # pre) \<longleftrightarrow> trace_ok jc pre"

definition policy_kept :: "AppState \<Rightarrow> Job \<Rightarrow> policy_now \<Rightarrow> bool" where
  "policy_kept app j pol \<longleftrightarrow> epoch_kept app (job_container j) (job_epoch j) pol"

definition hist_ok :: "job_code \<Rightarrow> AppState \<Rightarrow> event list \<Rightarrow> bool" where
  "hist_ok jc app tr \<longleftrightarrow> state_ok app \<and> trace_ok jc tr \<and> distinct (submitted_ids tr)
     \<and> (\<forall>i \<in> set (submitted_ids tr). i < uuid_supply app)
     \<and> (\<forall>i \<in> set (sent_ids tr). i < uuid_supply app)
     \<and> (\<forall>j pol allow. Submitted j pol allow \<in> set tr \<longrightarrow> policy_kept app j pol)"

fun worker_jobs :: "worker \<Rightarrow> Job list" where
  "worker_jobs Idle = []"
| "worker_jobs (Loop js) = js"
| "worker_jobs (Stale j js) = j # js"
| "worker_jobs (Cleared j js) = j # js"
| "worker_jobs (Unbound j js) = j # js"
| "worker_jobs (Ready j _ js) = j # js"
| "worker_jobs (Transfer j _ _ _ js) = j # js"

fun worker_ok :: "Saved \<Rightarrow> worker \<Rightarrow> bool" where
  "worker_ok s (Ready j cred js) \<longleftrightarrow> credential_binding cred = job_binding j"
| "worker_ok s (Transfer j cred u started js) \<longleftrightarrow> (\<exists>k. map_of (job_map s) (job_id j) = Some k \<and> job_status k = Sending)"
| "worker_ok s _ \<longleftrightarrow> True"

definition link_ok :: "job_code \<Rightarrow> Saved \<Rightarrow> worker \<Rightarrow> event list \<Rightarrow> bool" where
  "link_ok jc s wk tr \<longleftrightarrow>
     (\<forall>i j. map_of (job_map s) i = Some j \<longrightarrow> known tr j \<and> (job_status j = Approved \<longrightarrow> authorised jc tr j)
        \<and> (waiting (job_status j) \<longrightarrow> job_id j \<notin> set (sent_ids tr)))
     \<and> list_all (known tr) (worker_jobs wk) \<and> worker_ok s wk"

definition world_ok :: "job_code \<Rightarrow> world \<Rightarrow> bool" where
  "world_ok jc w \<longleftrightarrow> store_ok jc (w_jobs w) \<and> hist_ok jc (w_app w) (w_trace w)
     \<and> link_ok jc (data (w_jobs w)) (w_worker w) (w_trace w)"

section \<open>Transactions\<close>

text \<open>A transaction changes nothing, or publishes what it wrote.\<close>

lemma finish_transaction_cases:
  assumes "stored js" and "store_file js = Some (data js)"
  shows "(\<exists>e. finish_transaction jc fault r js = (Inl e, js))
    \<or> (\<exists>v s. r = Inr (v, s) \<and> saved_len jc s + reserved s \<le> MAX_STORAGE \<and> finish_transaction jc fault r js
          = (Inr v, js\<lparr>data := s, store_file := Some s, job_changes := (job_changes js + 1) mod 2 ^ 64\<rparr>))"
proof (cases r)
  case (Inr p)
  obtain v s where p: "p = (v, s)" by (cases p)
  have same: "js\<lparr>store_file := Some (data js)\<rparr> = js" using assms(2) by (cases js) simp
  show ?thesis
    using assms by (cases "MAX_STORAGE < saved_len jc s + reserved s"; cases fault)
      (auto simp: Inr p finish_transaction_def atomic_write_def same)
qed (simp add: finish_transaction_def)

interpretation job_store: durable_store data "\<lambda>js :: Jobs. stored js \<and> store_file js = Some (data js)"
  "\<lambda>fault s. finish_transaction jc fault (Inr ((), s))" for jc
proof
  fix js :: Jobs and fault s assume "stored js \<and> store_file js = Some (data js)"
  then show "(\<exists>e. finish_transaction jc fault (Inr ((), s)) js = (Inl e, js))
    \<or> (\<exists>js'. finish_transaction jc fault (Inr ((), s)) js = (Inr (), js')
          \<and> (stored js' \<and> store_file js' = Some (data js')) \<and> data js' = s)"
    using finish_transaction_cases [of js jc fault "Inr ((), s)"] by auto
qed

lemma transaction_transact:
  "transaction jc fault edit js = transact data (\<lambda>fault s. finish_transaction jc fault (Inr ((), s))) fault edit js"
  by (auto simp: transaction_def transact_def finish_transaction_def split: sum.splits prod.splits)

lemma transaction_failed:
  assumes "store_ok jc js" and "transaction jc fault edit js = (Inl e, js')"
  shows "js' = js"
  using job_store.transact_failed [of js jc fault edit e js'] assms by (simp add: store_ok_def transaction_transact)

lemma transaction_done:
  assumes "store_ok jc js" and "transaction jc fault edit js = (Inr v, js')"
  obtains s where "edit (data js) = Inr (v, s)" "saved_len jc s + reserved s \<le> MAX_STORAGE"
    "js' = js\<lparr>data := s, store_file := Some s, job_changes := (job_changes js + 1) mod 2 ^ 64\<rparr>"
proof -
  have "stored js" "store_file js = Some (data js)" using assms(1) by (auto simp: store_ok_def)
  from finish_transaction_cases [OF this, of jc fault "edit (data js)"] assms(2) that show thesis
    unfolding transaction_def by fastforce
qed

definition edit_ok :: "job_code \<Rightarrow> worker \<Rightarrow> event list \<Rightarrow> Saved \<Rightarrow> Saved \<Rightarrow> bool" where
  "edit_ok jc wk tr s s' \<longleftrightarrow> edited s s' \<and> link_ok jc s' wk tr"

lemma transaction_keeps:
  assumes "store_ok jc js" and "link_ok jc (data js) wk tr"
    and "\<And>v s. edit (data js) = Inr (v, s) \<Longrightarrow> edit_ok jc wk tr (data js) s"
  shows "store_ok jc (snd (transaction jc fault edit js)) \<and> link_ok jc (data (snd (transaction jc fault edit js))) wk tr"
proof -
  have st: "stored js" "store_file js = Some (data js)" "saved_ok jc (data js)" using assms(1) by (auto simp: store_ok_def)
  show ?thesis
    using finish_transaction_cases [OF st(1,2), of jc fault "edit (data js)"]
  proof (elim disjE exE conjE)
    fix v s assume c: "edit (data js) = Inr (v, s)" "saved_len jc s + reserved s \<le> MAX_STORAGE"
      "finish_transaction jc fault (edit (data js)) js
        = (Inr v, js\<lparr>data := s, store_file := Some s, job_changes := (job_changes js + 1) mod 2 ^ 64\<rparr>)"
    from assms(3) [OF c(1)] saved_ok_edited [OF st(3) _ c(2)] c(3) st(1) show ?thesis
      by (simp add: transaction_def store_ok_def edit_ok_def)
  qed (use assms in \<open>simp add: transaction_def\<close>)
qed

lemma link_put:
  assumes "link_ok jc s wk tr" and "map_of (job_map s) i = Some j" and "fixed_part j' = fixed_part j"
    and "waiting (job_status j') \<Longrightarrow> waiting (job_status j)"
    and "job_status j' = Approved \<Longrightarrow> job_status j = Approved \<or> authorised jc tr j'"
    and "job_status j = Sending \<Longrightarrow> worker_ok (put_job i j' s) wk"
  shows "link_ok jc (put_job i j' s) wk tr"
proof -
  have same: "known tr j' = known tr j" "authorised jc tr j' = authorised jc tr j"
    by (simp_all add: known_def authorised_def submitted_as_def may_run_def assms(3) fixed_partD [OF assms(3)])
  have "worker_ok (put_job i j' s) wk"
    using assms(1,2,6) by (cases wk) (auto simp: link_ok_def)
  then show ?thesis
    using assms(1-5) unfolding link_ok_def by (auto simp: same fixed_partD(1) [OF assms(3)])
qed

lemma edited_put:
  assumes "map_of (job_map s) i = Some j" and "fixed_part j' = fixed_part j" and "status_move (job_status j) (job_status j')"
  shows "edited s (put_job i j' s)"
  using assms unfolding edited_def by blast

lemma link_delete:
  assumes "link_ok jc s wk tr" and "map_of (job_map s) i = Some j" and "terminal j"
  shows "link_ok jc (s\<lparr>job_map := AList.delete i (job_map s)\<rparr>) wk tr"
proof -
  have "worker_ok (s\<lparr>job_map := AList.delete i (job_map s)\<rparr>) wk"
    using assms by (cases wk) (auto simp: link_ok_def AList.delete_conv' terminal_def)
  then show ?thesis using assms(1) unfolding link_ok_def by (auto simp: AList.delete_conv')
qed

lemma link_worker:
  assumes "link_ok jc s wk tr" and "list_all (known tr) (worker_jobs wk')" and "worker_ok s wk'"
  shows "link_ok jc s wk' tr"
  using assms by (auto simp: link_ok_def)

text \<open>One edit under one key: the shape of every transaction but the admission.\<close>

lemma edit_one:
  assumes "link_ok jc s wk tr" and "map_of (job_map s) i = Some j" and "fixed_part j' = fixed_part j"
    and "job_status j \<in> {Pending, Approved} \<and> job_status j' \<notin> {Pending, Approved, Sending}
      \<or> job_status j' = job_status j \<and> terminal j
      \<or> job_status j = Pending \<and> job_status j' = Approved \<and> authorised jc tr j'"
  shows "edit_ok jc wk tr s (put_job i j' s)"
  unfolding edit_ok_def
proof
  show "edited s (put_job i j' s)"
    using assms(4) by (intro edited_put [OF assms(2,3)]) (auto simp: status_move_def)
  show "link_ok jc (put_job i j' s) wk tr"
    using assms(4) by (intro link_put [OF assms(1-3)]) (auto simp: waiting_def terminal_def)
qed

lemma edit_none: "link_ok jc s wk tr \<Longrightarrow> edit_ok jc wk tr s s"
  by (simp add: edit_ok_def edited_def)

lemma edit_delete:
  assumes "link_ok jc s wk tr" and "map_of (job_map s) i = Some j" and "terminal j"
  shows "edit_ok jc wk tr s (s\<lparr>job_map := AList.delete i (job_map s)\<rparr>)"
  using assms link_delete [OF assms] by (auto simp: edit_ok_def edited_def)

lemma owned_job_Inr: "owned_job c inst i session s = Inr j \<longleftrightarrow> map_of (job_map s) i = Some j \<and> owned_by c inst session j"
  by (auto simp: owned_job_def split: option.splits if_splits)

section \<open>Operations of guests and host\<close>

lemma cancel_keeps:
  assumes "store_ok jc js" and "link_ok jc (data js) wk tr"
  shows "store_ok jc (snd (cancel jc t fault c inst i session js))
    \<and> link_ok jc (data (snd (cancel jc t fault c inst i session js))) wk tr"
  unfolding cancel_def
proof (rule transaction_keeps [OF assms])
  fix v s
  assume "bind_res (owned_job c inst i session (data js)) (\<lambda>j.
       if job_status j \<notin> {Pending, Approved} then Inl ''cannot cancel job after execution starts''
       else Inr ((), put_job i (set_job t Cancelled ''Cancelled by submitting guest. Not sent.'' j) (data js))) = Inr (v, s)"
  then show "edit_ok jc wk tr (data js) s"
    by (auto simp: bind_res_Inr_iff owned_job_Inr split: if_splits intro: edit_one [OF assms(2)])
qed

lemma acknowledge_keeps:
  assumes "store_ok jc js" and "link_ok jc (data js) wk tr"
  shows "store_ok jc (snd (acknowledge jc t fault c inst i session js))
    \<and> link_ok jc (data (snd (acknowledge jc t fault c inst i session js))) wk tr"
  unfolding acknowledge_def
proof (rule transaction_keeps [OF assms])
  fix v s
  assume "bind_res (owned_job c inst i session (data js)) (\<lambda>j.
       if \<not> terminal j \<or> job_status j = Unknown then Inl ''only known terminal results can be acknowledged''
       else Inr ((), put_job i (case acknowledged_at j of None \<Rightarrow> j\<lparr>acknowledged_at := Some (utc t)\<rparr> | Some _ \<Rightarrow> j) (data js)))
     = Inr (v, s)"
  then show "edit_ok jc wk tr (data js) s"
    by (auto simp: bind_res_Inr_iff owned_job_Inr split: if_splits option.splits intro: edit_one [OF assms(2)])
qed

lemma delete_keeps:
  assumes "store_ok jc js" and "link_ok jc (data js) wk tr"
  shows "store_ok jc (snd (delete_job jc fault c inst i session js))
    \<and> link_ok jc (data (snd (delete_job jc fault c inst i session js))) wk tr"
  unfolding delete_job_def
proof (rule transaction_keeps [OF assms])
  fix v s
  assume "bind_res (owned_job c inst i session (data js)) (\<lambda>j.
       if \<not> terminal j then Inl ''cancel or finish job before removing it''
       else Inr ((), (data js)\<lparr>job_map := AList.delete i (job_map (data js))\<rparr>)) = Inr (v, s)"
  then show "edit_ok jc wk tr (data js) s"
    by (auto simp: bind_res_Inr_iff owned_job_Inr split: if_splits intro: edit_delete [OF assms(2)])
qed

lemma known_simps [simp]:
  "sent_ids (Host_approved i fp # tr) = sent_ids tr" "submitted_ids (Host_approved i fp # tr) = submitted_ids tr"
  "sent_ids (Submitted j pol al # tr) = sent_ids tr" "submitted_ids (Submitted j pol al # tr) = job_id j # submitted_ids tr"
  "sent_ids (Sent j cred pol # tr) = job_id j # sent_ids tr" "submitted_ids (Sent j cred pol # tr) = submitted_ids tr"
  "sent_ids [] = []" "submitted_ids [] = []"
  by (simp_all add: sent_ids_def submitted_ids_def List.map_filter_simps)

lemma known_mono: "known tr j \<Longrightarrow> known (e # tr) j"
  by (auto simp: known_def submitted_as_def)

lemma authorised_mono:
  assumes "authorised jc tr j"
  shows "authorised jc (e # tr) j"
proof -
  obtain pol allow where "submitted_as tr j pol allow" "may_run jc tr j allow" using assms by (auto simp: authorised_def)
  then have "submitted_as (e # tr) j pol allow" "may_run jc (e # tr) j allow"
    by (auto simp: submitted_as_def may_run_def)
  then show ?thesis unfolding authorised_def by blast
qed

lemma link_mono:
  assumes "link_ok jc s wk tr" and "\<And>j. map_of (job_map s) (job_id j) = Some j \<Longrightarrow> waiting (job_status j) \<Longrightarrow> job_id j \<notin> set (sent_ids [e])"
    and "list_all (\<lambda>(i, j). job_id j = i) (job_map s)"
  shows "link_ok jc s wk (e # tr)"
proof -
  have ids: "set (sent_ids (e # tr)) = set (sent_ids [e]) \<union> set (sent_ids tr)" by (cases e) auto
  have "waiting (job_status j) \<Longrightarrow> job_id j \<notin> set (sent_ids (e # tr))" if j: "map_of (job_map s) i = Some j" for i j
  proof -
    have "job_id j = i" using assms(3) map_of_SomeD [OF j] by (auto simp: list_all_iff)
    then show "waiting (job_status j) \<Longrightarrow> job_id j \<notin> set (sent_ids (e # tr))"
      using assms(2) [of j] assms(1) j unfolding ids link_ok_def by blast
  qed
  moreover have "list_all (known (e # tr)) (worker_jobs wk)"
    using assms(1) by (simp add: link_ok_def list_all_iff known_mono)
  moreover have "known (e # tr) j \<and> (job_status j = Approved \<longrightarrow> authorised jc (e # tr) j)"
    if "map_of (job_map s) i = Some j" for i j
    using assms(1) that known_mono authorised_mono unfolding link_ok_def by meson
  ultimately show ?thesis using assms(1) unfolding link_ok_def by blast
qed

lemma authorised_by_host:
  assumes "known tr j"
  shows "authorised jc (Host_approved (job_id j) (job_fingerprint j) # tr) j"
  using known_mono [OF assms] by (auto simp: known_def authorised_def may_run_def)

lemma decide_edit:
  assumes "link_ok jc s wk (Host_approved i fp # tr)" and "link_ok jc s wk tr" and "list_all (\<lambda>(i, j). job_id j = i) (job_map s)"
    and "map_of (job_map s) i = Some j" and "job_status j = Pending" and "job_fingerprint j = fp"
  shows "edit_ok jc wk (Host_approved i fp # tr) s (put_job i ((set_job t Approved out j)\<lparr>job_upstream := u\<rparr>) s)"
proof (rule edit_one [OF assms(1,4)])
  have "job_id j = i" using assms(3) map_of_SomeD [OF assms(4)] by (auto simp: list_all_iff)
  then have "authorised jc (Host_approved i fp # tr) j"
    using authorised_by_host assms(2,4,6) by (auto simp: link_ok_def)
  moreover have "authorised jc tr' ((set_job t Approved out j)\<lparr>job_upstream := u\<rparr>) = authorised jc tr' j" for tr'
    by (simp add: authorised_def submitted_as_def may_run_def) (simp add: set_job_def)
  ultimately show "job_status j \<in> {Pending, Approved} \<and> job_status ((set_job t Approved out j)\<lparr>job_upstream := u\<rparr>) \<notin> {Pending, Approved, Sending}
      \<or> job_status ((set_job t Approved out j)\<lparr>job_upstream := u\<rparr>) = job_status j \<and> terminal j
      \<or> job_status j = Pending \<and> job_status ((set_job t Approved out j)\<lparr>job_upstream := u\<rparr>) = Approved
         \<and> authorised jc (Host_approved i fp # tr) ((set_job t Approved out j)\<lparr>job_upstream := u\<rparr>)"
    using assms(5) by (simp add: set_job_def)
qed simp

lemma decide_keeps:
  assumes "store_ok jc js" and "link_ok jc (data js) wk tr" and "decide_job jc t fault i fp d js = (r, js')"
  shows "store_ok jc js' \<and> link_ok jc (data js') wk
    (if d = Decision_kind.Approve \<and> r = Inr () then Host_approved i fp # tr else tr)"
proof (cases r)
  case (Inl e)
  have "js' = js"
    using transaction_failed [OF assms(1)] assms(3) unfolding Inl decide_job_def by blast
  with assms Inl show ?thesis by simp
next
  case (Inr u)
  let ?tr = "if d = Decision_kind.Approve then Host_approved i fp # tr else tr"
  have ids: "list_all (\<lambda>(i, j). job_id j = i) (job_map (data js))" using assms(1) by (simp add: store_ok_def saved_ok_def)
  have link: "link_ok jc (data js) wk (Host_approved i fp # tr)" using link_mono [OF assms(2) _ ids] by simp
  have "store_ok jc (snd (decide_job jc t fault i fp d js)) \<and> link_ok jc (data (snd (decide_job jc t fault i fp d js))) wk ?tr"
    unfolding decide_job_def
    by (rule transaction_keeps [OF assms(1)], use assms(2) link in simp)
      (insert link, cases d; auto split: option.splits if_splits
        intro: decide_edit [OF _ assms(2) ids] edit_one [OF assms(2)])
  with assms(3) Inr show ?thesis by simp
qed

section \<open>The worker\<close>

lemma submitted_ids_in: "Submitted a p l \<in> set tr \<Longrightarrow> job_id a \<in> set (submitted_ids tr)"
proof (induction tr)
  case (Cons e tr)
  then show ?case by (cases e) auto
qed simp

lemma submitted_once:
  assumes "distinct (submitted_ids tr)" and "Submitted a p l \<in> set tr" and "Submitted b q m \<in> set tr" and "job_id a = job_id b"
  shows "a = b \<and> p = q \<and> l = m"
  using assms
proof (induction tr)
  case (Cons e tr)
  then show ?case by (cases e) (auto dest: submitted_ids_in)
qed simp

lemma known_unique:
  assumes "hist_ok jc app tr" and "known tr j" and "known tr k" and "job_id j = job_id k"
  shows "fixed_part j = fixed_part k"
proof -
  obtain a p l b q m where "Submitted a p l \<in> set tr" "fixed_part a = fixed_part j"
      "Submitted b q m \<in> set tr" "fixed_part b = fixed_part k"
    using assms(2,3) unfolding known_def submitted_as_def by blast
  with submitted_once [of tr a p l b q m] assms(1,4) show ?thesis
    by (metis fixed_partD(1) hist_ok_def)
qed

lemma stays_linked:
  assumes "store_ok jc js" and "link_ok jc (data js) wk tr" and "set (worker_jobs wk') \<subseteq> set (worker_jobs wk)"
    and "\<And>s. worker_ok s wk'" and "\<And>v s. edit (data js) = Inr (v, s) \<Longrightarrow> edit_ok jc wk' tr (data js) s"
    and "next_tick (transaction jc fault edit js) wk' = (wk2, js2)"
  shows "store_ok jc js2 \<and> link_ok jc (data js2) wk2 tr"
proof -
  have "list_all (known tr) (worker_jobs wk')" using assms(2,3) by (auto simp: link_ok_def list_all_iff)
  then have link: "link_ok jc (data js) wk' tr" using link_worker [OF assms(2)] assms(4) by blast
  have kept: "store_ok jc (snd (transaction jc fault edit js)) \<and> link_ok jc (data (snd (transaction jc fault edit js))) wk' tr"
    by (rule transaction_keeps [OF assms(1) link assms(5)])
  have "js2 = snd (transaction jc fault edit js) \<and> (wk2 = wk' \<or> wk2 = Idle)"
    using assms(6) by (auto simp: next_tick_def split: prod.splits sum.splits)
  moreover have "link_ok jc s wk' tr \<Longrightarrow> link_ok jc s Idle tr" for s by (rule link_worker) simp_all
  ultimately show ?thesis using kept by auto
qed

lemma expire_keeps:
  assumes "store_ok jc js" and "link_ok jc (data js) (Stale j rest) tr"
    and "next_tick (tick_expire jc t fault j js) (Loop rest) = (wk2, js2)"
  shows "store_ok jc js2 \<and> link_ok jc (data js2) wk2 tr"
proof (rule stays_linked [OF assms(1,2) _ _ _ assms(3) [unfolded tick_expire_def]])
  have link: "link_ok jc (data js) (Loop rest) tr"
    by (rule link_worker [OF assms(2)]) (use assms(2) in \<open>auto simp: link_ok_def\<close>)
  fix v s
  assume "(case map_of (job_map (data js)) (job_id j) of
         None \<Rightarrow> Inr ((), data js)
       | Some k \<Rightarrow>
           if \<not> waiting (job_status k) then Inr ((), data js)
           else if job_expires_at k \<le> utc t
           then Inr ((), put_job (job_id j) (set_job t Expired ''Review expired after 24 hours. Not sent.'' k) (data js))
           else Inr ((), put_job (job_id j) (set_job t Cancelled ''Guest permissions changed. Not sent.'' k) (data js))) = Inr (v, s)"
  then show "edit_ok jc (Loop rest) tr (data js) s"
    by (auto split: option.splits if_splits intro: edit_none [OF link] edit_one [OF link] simp: waiting_def)
qed auto

lemma unbound_keeps:
  assumes "store_ok jc js" and "link_ok jc (data js) (Unbound j rest) tr"
    and "next_tick (tick_unbound jc t fault j js) (Loop rest) = (wk2, js2)"
  shows "store_ok jc js2 \<and> link_ok jc (data js2) wk2 tr"
proof (rule stays_linked [OF assms(1,2) _ _ _ assms(3) [unfolded tick_unbound_def]])
  have link: "link_ok jc (data js) (Loop rest) tr"
    by (rule link_worker [OF assms(2)]) (use assms(2) in \<open>auto simp: link_ok_def\<close>)
  fix v s
  assume "(case map_of (job_map (data js)) (job_id j) of
         None \<Rightarrow> Inr ((), data js)
       | Some k \<Rightarrow>
           if job_status k = Approved
           then Inr ((), put_job (job_id j) (set_job t Blocked ''GitHub credential changed. Not sent; submit again.'' k) (data js))
           else Inr ((), data js)) = Inr (v, s)"
  then show "edit_ok jc (Loop rest) tr (data js) s"
    by (auto split: option.splits if_splits intro: edit_none [OF link] edit_one [OF link])
qed auto

lemma job_ended_terminal: "end_status (job_ended jc e u started) \<notin> {Pending, Approved, Sending}"
  by (auto simp: job_ended_def no_reply_def replied_def Let_def split: sum.splits prod.splits option.splits)

lemma record_keeps:
  assumes "store_ok jc js" and "link_ok jc (data js) (Transfer j cred u started rest) tr"
    and "next_tick (tick_record jc t fault (job_ended jc e u started) j js) (Loop rest) = (wk2, js2)"
  shows "store_ok jc js2 \<and> link_ok jc (data js2) wk2 tr"
proof (rule stays_linked [OF assms(1,2) _ _ _ assms(3) [unfolded tick_record_def]])
  let ?d = "job_ended jc e u started"
  have link: "link_ok jc (data js) (Loop rest) tr"
    by (rule link_worker [OF assms(2)]) (use assms(2) in \<open>auto simp: link_ok_def\<close>)
  obtain k where k: "map_of (job_map (data js)) (job_id j) = Some k" "job_status k = Sending"
    using assms(2) by (auto simp: link_ok_def)
  let ?k = "(set_job t (end_status ?d) (end_outcome ?d) k)\<lparr>job_http_status := end_http ?d, job_result := end_result ?d,
    job_upstream := Some (end_upstream ?d)\<rparr>"
  have st: "job_status ?k \<notin> {Pending, Approved, Sending}" using job_ended_terminal [of jc e u started] by (simp add: set_job_def)
  have f: "fixed_part ?k = fixed_part k" by simp
  have "edit_ok jc (Loop rest) tr (data js) (put_job (job_id j) ?k (data js))"
    unfolding edit_ok_def
    using st k(2) by (intro conjI edited_put [OF k(1) f] link_put [OF link k(1) f]) (auto simp: status_move_def waiting_def)
  then show "edit_ok jc (Loop rest) tr (data js) s"
    if "(case map_of (job_map (data js)) (job_id j) of
         None \<Rightarrow> Inl ''job missing after execution''
       | Some k \<Rightarrow> Inr ((), put_job (job_id j)
           ((set_job t (end_status ?d) (end_outcome ?d) k)\<lparr>job_http_status := end_http ?d, job_result := end_result ?d,
              job_upstream := Some (end_upstream ?d)\<rparr>) (data js))) = Inr (v, s)" for v s
    using that k(1) by auto
qed auto

text \<open>The admission: the one step that sends.\<close>

lemma tick_admit_True:
  assumes "store_ok jc js" and "tick_admit jc t fault app j js = (Inr True, js')"
  shows "async_identity app (job_container j) (job_peer j) = Some (job_instance j, job_epoch j)
    \<and> (\<exists>k. map_of (job_map (data js)) (job_id j) = Some k \<and> job_status k = Approved \<and> utc t < job_expires_at k
         \<and> store_ok jc js' \<and> data js' = put_job (job_id j)
              ((set_job t Sending ''Executing on GitHub'' k)\<lparr>job_upstream := Some (sending_diagnostics t j)\<rparr>) (data js))"
proof -
  let ?edit = "\<lambda>s. case map_of (job_map s) (job_id j) of
              None \<Rightarrow> Inr (False, s) :: string + bool \<times> Saved
            | Some k \<Rightarrow>
                if job_status k \<noteq> Approved \<or> job_expires_at k \<le> utc t then Inr (False, s)
                else Inr (True, put_job (job_id j)
                  ((set_job t Sending ''Executing on GitHub'' k)\<lparr>job_upstream := Some (sending_diagnostics t j)\<rparr>) s)"
  have st: "stored js" "store_file js = Some (data js)" "saved_ok jc (data js)" using assms(1) by (auto simp: store_ok_def)
  have ident: "async_identity app (job_container j) (job_peer j) = Some (job_instance j, job_epoch j)"
    and tr: "transaction jc fault ?edit js = (Inr True, js')"
    using assms(2) unfolding tick_admit_def with_async_identity_eq Let_def
    by (auto simp: map_sum_def prod_eq_iff split: if_splits sum.splits)
  obtain s where s: "?edit (data js) = Inr (True, s)" "saved_len jc s + reserved s \<le> MAX_STORAGE"
      "js' = js\<lparr>data := s, store_file := Some s, job_changes := (job_changes js + 1) mod 2 ^ 64\<rparr>"
    by (rule transaction_done [OF assms(1) tr]) (rule that)
  then obtain k where k: "map_of (job_map (data js)) (job_id j) = Some k" "job_status k = Approved" "utc t < job_expires_at k"
      "s = put_job (job_id j) ((set_job t Sending ''Executing on GitHub'' k)\<lparr>job_upstream := Some (sending_diagnostics t j)\<rparr>) (data js)"
    by (auto split: option.splits if_splits)
  have "edited (data js) s" unfolding k(4) by (rule edited_put [OF k(1)]) (simp_all add: status_move_def k(2))
  then have "store_ok jc js'" using saved_ok_edited [OF st(3) _ s(2)] s(3) st(1) by (simp add: store_ok_def)
  with ident k s(3) show ?thesis by auto
qed

lemma admit_sends:
  assumes "store_ok jc js" and "hist_ok jc app tr" and "link_ok jc (data js) (Ready j cred rest) tr"
    and "tick_admit jc t fault app j js = (Inr True, js')"
  shows "store_ok jc js' \<and> hist_ok jc app (Sent j cred (guest_policy app (job_container j)) # tr)
    \<and> link_ok jc (data js') (Transfer j cred u started rest) (Sent j cred (guest_policy app (job_container j)) # tr)"
proof -
  let ?pol = "guest_policy app (job_container j)"
  obtain k where k: "map_of (job_map (data js)) (job_id j) = Some k" "job_status k = Approved"
      and js': "store_ok jc js'" "data js' = put_job (job_id j)
        ((set_job t Sending ''Executing on GitHub'' k)\<lparr>job_upstream := Some (sending_diagnostics t j)\<rparr>) (data js)"
      and ident: "async_identity app (job_container j) (job_peer j) = Some (job_instance j, job_epoch j)"
    using tick_admit_True [OF assms(1,4)] by blast
  have ids: "list_all (\<lambda>(i, j). job_id j = i) (job_map (data js))" using assms(1) by (simp add: store_ok_def saved_ok_def)
  have id: "job_id k = job_id j" using ids map_of_SomeD [OF k(1)] by (auto simp: list_all_iff)
  have "known tr k \<and> authorised jc tr k \<and> job_id k \<notin> set (sent_ids tr)"
    using assms(3) k unfolding link_ok_def waiting_def by blast
  then have kn: "known tr j" "known tr k" "authorised jc tr k" "job_id j \<notin> set (sent_ids tr)" "credential_binding cred = job_binding j"
    using assms(3) id by (auto simp: link_ok_def)
  have f: "fixed_part k = fixed_part j" using known_unique [OF assms(2) kn(2,1) id] .
  obtain j0 pol allow where j0: "Submitted j0 pol allow \<in> set tr" "fixed_part j0 = fixed_part j" "may_run jc tr j allow"
    using kn(3) f unfolding authorised_def submitted_as_def may_run_def fixed_partD [OF f] by auto
  have "policy_kept app j0 pol" using assms(2) j0(1) unfolding hist_ok_def by blast
  then have pol: "?pol = pol"
    using epoch_kept_now ident by (auto simp: policy_kept_def fixed_partD [OF j0(2)])
  have sent: "sent_properly jc tr j cred ?pol"
    using kn(4,5) j0 unfolding sent_properly_def submitted_as_def pol by blast
  have "job_id j < uuid_supply app"
    using assms(2) submitted_ids_in [OF j0(1)] fixed_partD(1) [OF j0(2)] by (auto simp: hist_ok_def)
  then have hist: "hist_ok jc app (Sent j cred ?pol # tr)" using assms(2) sent by (auto simp: hist_ok_def)
  have "link_ok jc (data js) (Loop (j # rest)) tr"
    by (rule link_worker [OF assms(3)]) (use assms(3) in \<open>auto simp: link_ok_def\<close>)
  then have "link_ok jc (data js') (Loop (j # rest)) tr"
    unfolding js'(2) by (rule link_put [OF _ k(1)]) (simp_all add: k(2) waiting_def)
  then have "link_ok jc (data js') (Loop (j # rest)) (Sent j cred ?pol # tr)"
  proof (rule link_mono)
    show "list_all (\<lambda>(i, j). job_id j = i) (job_map (data js'))" using js'(1) by (simp add: store_ok_def saved_ok_def)
    fix i assume "map_of (job_map (data js')) (job_id i) = Some i" "waiting (job_status i)"
    then show "job_id i \<notin> set (sent_ids [Sent j cred ?pol])" by (auto simp: js'(2) waiting_def split: if_splits)
  qed
  then have "link_ok jc (data js') (Transfer j cred u started rest) (Sent j cred ?pol # tr)"
    by (rule link_worker) (use \<open>link_ok jc (data js') (Loop (j # rest)) (Sent j cred ?pol # tr)\<close> js'(2) in \<open>auto simp: link_ok_def\<close>)
  with js'(1) hist show ?thesis by blast
qed

lemma admit_refused:
  assumes "store_ok jc js" and "tick_admit jc t fault app j js = (r, js')" and "r \<noteq> Inr True"
  shows "store_ok jc js' \<and> data js' = data js"
proof -
  let ?edit = "\<lambda>s. case map_of (job_map s) (job_id j) of
              None \<Rightarrow> Inr (False, s) :: string + bool \<times> Saved
            | Some k \<Rightarrow>
                if job_status k \<noteq> Approved \<or> job_expires_at k \<le> utc t then Inr (False, s)
                else Inr (True, put_job (job_id j)
                  ((set_job t Sending ''Executing on GitHub'' k)\<lparr>job_upstream := Some (sending_diagnostics t j)\<rparr>) s)"
  consider "js' = js" | "transaction jc fault ?edit js = (Inr False, js')"
    using assms(2,3) transaction_failed [OF assms(1)] unfolding tick_admit_def with_async_identity_eq Let_def
    by (cases "transaction jc fault ?edit js") (auto simp: map_sum_def split: if_splits sum.splits)
  then show ?thesis
  proof cases
    case 2
    obtain s where s: "?edit (data js) = Inr (False, s)" "saved_len jc s + reserved s \<le> MAX_STORAGE"
      "js' = js\<lparr>data := s, store_file := Some s, job_changes := (job_changes js + 1) mod 2 ^ 64\<rparr>"
      by (rule transaction_done [OF assms(1) 2]) (rule that)
    then have "s = data js" by (auto split: option.splits if_splits)
    with s assms(1) show ?thesis by (simp add: store_ok_def)
  qed (use assms(1) in simp)
qed

lemma world_okI:
  assumes "store_ok jc (w_jobs w)" "hist_ok jc (w_app w) (w_trace w)" "link_ok jc (data (w_jobs w)) (w_worker w) (w_trace w)"
  shows "world_ok jc w"
  using assms by (simp add: world_ok_def)

lemma ready_keeps:
  assumes "world_ok jc w" and "w_worker w = Ready j cred rest"
  shows "world_ok jc (world_step jc (Worker_op e) w)"
proof -
  have w: "store_ok jc (w_jobs w)" "hist_ok jc (w_app w) (w_trace w)" "link_ok jc (data (w_jobs w)) (Ready j cred rest) (w_trace w)"
    using assms by (auto simp: world_ok_def)
  obtain r js' where a: "tick_admit jc (at e) (write_fault e) (w_app w) j (w_jobs w) = (r, js')" by fastforce
  show ?thesis
  proof (cases "r = Inr True")
    case True
    show ?thesis using admit_sends [OF w a [unfolded True]] by (simp add: world_ok_def assms(2) worker_step_def a True sent_event_def)
  next
    case False
    have kept: "store_ok jc js'" "data js' = data (w_jobs w)" using admit_refused [OF w(1) a False] by auto
    have "link_ok jc (data js') wk (w_trace w)" if "wk = Idle \<or> wk = Loop rest" for wk
      using that w(3) unfolding kept(2) by (auto simp: link_ok_def)
    with False kept(1) w(2) show ?thesis
      by (auto simp: world_ok_def assms(2) worker_step_def a sent_event_def split: sum.splits bool.splits)
  qed
qed

lemma worker_keeps:
  assumes "world_ok jc w"
  shows "world_ok jc (world_step jc (Worker_op e) w)"
proof -
  have w: "store_ok jc (w_jobs w)" "hist_ok jc (w_app w) (w_trace w)" "link_ok jc (data (w_jobs w)) (w_worker w) (w_trace w)"
    using assms by (auto simp: world_ok_def)
  obtain wk js where r: "worker_step jc e (w_app w) (w_worker w) (w_jobs w) = (wk, js)" by fastforce
  have quiet: "world_ok jc (world_step jc (Worker_op e) w)"
    if "\<And>j c l. w_worker w \<noteq> Ready j c l" "store_ok jc js \<and> link_ok jc (data js) wk (w_trace w)"
    using that w(2) r by (auto simp: world_ok_def sent_event_def split: worker.splits)
  show ?thesis
  proof (cases "w_worker w")
    case Idle
    have "known (w_trace w) j" if "(i, j) \<in> set (job_map (data (w_jobs w)))" for i j
      using w(1,3) map_of_in_distinct [OF btree_distinct, of "job_map (data (w_jobs w))" i j] that
      by (auto simp: link_ok_def store_ok_def saved_ok_def)
    then have "link_ok jc (data (w_jobs w)) (tick_start (w_jobs w)) (w_trace w)"
      by (intro link_worker [OF w(3)]) (auto simp: tick_start_def list_all_iff)
    with Idle r w show ?thesis by (intro quiet) (auto simp: worker_step_def)
  next
    case (Loop l)
    have "link_ok jc (data js) wk (w_trace w) \<and> js = w_jobs w"
      using Loop r w(3) by (cases l) (auto simp: worker_step_def tick_check_def link_ok_def)
    with Loop w(1) show ?thesis by (intro quiet) auto
  next
    case (Stale j l)
    have "store_ok jc js \<and> link_ok jc (data js) wk (w_trace w)"
      using w(3) r unfolding Stale worker_step_def by (intro expire_keeps [OF w(1)]) auto
    with Stale show ?thesis by (intro quiet) auto
  next
    case (Cleared j l)
    have "link_ok jc (data js) wk (w_trace w) \<and> js = w_jobs w"
      using Cleared r w(3) by (auto simp: worker_step_def tick_credential_def link_ok_def current_def split: option.splits if_splits)
    with Cleared w(1) show ?thesis by (intro quiet) auto
  next
    case (Unbound j l)
    have "store_ok jc js \<and> link_ok jc (data js) wk (w_trace w)"
      using w(3) r unfolding Unbound worker_step_def by (intro unbound_keeps [OF w(1)]) auto
    with Unbound show ?thesis by (intro quiet) auto
  next
    case (Ready j c l)
    then show ?thesis by (rule ready_keeps [OF assms])
  next
    case (Transfer j c u t l)
    have "store_ok jc js \<and> link_ok jc (data js) wk (w_trace w)"
      using w(3) r unfolding Transfer worker_step_def by (intro record_keeps [OF w(1)]) auto
    with Transfer show ?thesis by (intro quiet) auto
  qed
qed

section \<open>Submissions\<close>

lemma saved_ok_filed: "saved_ok jc s \<Longrightarrow> filed s"
  by (simp add: saved_ok_def filed_def)

lemma hist_step:
  assumes "hist_ok jc app tr" and "policy_step app app'"
  shows "hist_ok jc app' tr"
proof -
  have le: "uuid_supply app \<le> uuid_supply app'" using assms(2) by (simp add: policy_step_def)
  have "policy_kept app' j pol" if "policy_kept app j pol" for j pol
    using that epoch_kept_step [OF _ assms(2)] by (simp add: policy_kept_def)
  then show ?thesis
    using assms(1) state_ok_step [OF _ assms(2)] le unfolding hist_ok_def by (meson less_le_trans)
qed

text \<open>The new store of a submission, and the state beside it.\<close>

lemma saved_ok_admitted:
  assumes "saved_ok jc s" and "admit_job jc now j s = Some (Inr (v, s'))"
  shows "saved_ok jc s'"
proof -
  note f = saved_ok_filed [OF assms(1)]
  obtain js where js: "s' = without js (put_job (job_id j) j s)" "length (job_map s') \<le> MAX_JOBS"
      "saved_len jc s' + reserved s' \<le> MAX_STORAGE" "length (active_jobs s) < 32"
      "length (filter (\<lambda>k. job_container k = job_container j) (active_jobs s)) < 8"
    by (rule admit_job_done [OF f assms(2)]) (rule that)
  have count: "length (filter P (map snd (job_map s'))) \<le> (if P j then 1 else 0) + length (filter P (map snd (job_map s)))" for P
    using order_trans [OF count_without [of P js "put_job (job_id j) j s"]] count_insert [of P "job_id j" j "job_map s"]
    unfolding js(1) put_job_def by simp
  have "length (active_jobs s') \<le> 32" using count [of "\<lambda>j. \<not> terminal j"] js(4) by (simp add: active_jobs_def split: if_splits)
  moreover have "length (filter (\<lambda>j. job_container j = c) (active_jobs s')) \<le> 8" for c
  proof -
    have "length (filter (\<lambda>j. job_container j = c) (active_jobs s)) \<le> 8" using assms(1) by (simp add: saved_ok_def)
    with count [of "\<lambda>j. job_container j = c \<and> \<not> terminal j"] js(5) show ?thesis
      by (cases "job_container j = c") (auto simp: active_jobs_def conj_commute split: if_splits)
  qed
  moreover have "filed s'" unfolding js(1) by (intro filed_without filed_put [OF f]) simp
  moreover have "jobs_version s' = 1" using assms(1) by (simp add: js(1) without_def saved_ok_def put_job_def)
  ultimately show ?thesis using js(2,3) by (simp add: saved_ok_def filed_def)
qed

lemma link_admitted:
  assumes "saved_ok jc s" and "link_ok jc s wk tr" and "admit_job jc now j s = Some (Inr (v, s'))"
    and "\<not> terminal j" and "map_of (job_map s) (job_id j) = None"
    and "job_id j \<notin> set (sent_ids tr)" and "job_status j = Approved \<Longrightarrow> read_only_body jc (job_body j) \<or> allow"
  shows "map_of (job_map s') (job_id j) = Some j \<and> gv_id v = job_id j \<and> link_ok jc s' wk (Submitted j pol allow # tr)"
proof -
  let ?s = "put_job (job_id j) j s" and ?tr = "Submitted j pol allow # tr"
  note f = saved_ok_filed [OF assms(1)]
  obtain js where js: "set js \<subseteq> set (removable now ?s)" "s' = without js ?s" "v = guest_value j False"
    by (rule admit_job_done [OF f assms(3)]) (rule that)
  have fs: "filed ?s" by (rule filed_put [OF f]) simp
  have new: "known ?tr j" "job_status j = Approved \<Longrightarrow> authorised jc ?tr j"
  proof -
    have sub: "submitted_as ?tr j pol allow" by (auto simp: submitted_as_def)
    then show "known ?tr j" unfolding known_def by blast
    show "authorised jc ?tr j" if "job_status j = Approved"
      using sub assms(7) [OF that] unfolding authorised_def may_run_def by blast
  qed
  have keep: "map_of (job_map s') i = Some k" if "map_of (job_map ?s) i = Some k" "\<not> terminal k" for i k
    using without_keeps [OF fs js(1) that] by (simp add: js(2))
  have old: "link_ok jc s wk ?tr"
    using link_mono [OF assms(2)] f by (simp add: filed_def)
  have "known ?tr k \<and> (job_status k = Approved \<longrightarrow> authorised jc ?tr k) \<and> (waiting (job_status k) \<longrightarrow> job_id k \<notin> set (sent_ids ?tr))"
    if "map_of (job_map s') i = Some k" for i k
  proof -
    have "map_of (job_map ?s) i = Some k" using without_origin [OF fs, of js i k] that by (simp only: js(2))
    then have "k = j \<or> map_of (job_map s) i = Some k" unfolding put_job_simps by (cases "i = job_id j") simp_all
    then consider "k = j" | "map_of (job_map s) i = Some k" by blast
    then show ?thesis
    proof cases
      case 1
      then show ?thesis using new assms(6) by simp
    next
      case 2
      then show ?thesis using old unfolding link_ok_def by blast
    qed
  qed
  moreover have "worker_ok s' wk"
  proof (cases wk)
    case (Transfer k c u t l)
    then obtain k' where k': "map_of (job_map s) (job_id k) = Some k'" "job_status k' = Sending" using assms(2) by (auto simp: link_ok_def)
    with assms(5) have "map_of (job_map ?s) (job_id k) = Some k'" by auto
    with keep k'(2) show ?thesis by (simp add: Transfer terminal_def)
  qed (use assms(2) in \<open>auto simp: link_ok_def\<close>)
  moreover have "list_all (known ?tr) (worker_jobs wk)" using old by (simp add: link_ok_def)
  moreover have "map_of (job_map s') (job_id j) = Some j" using keep [of "job_id j" j] assms(4) by simp
  ultimately show ?thesis by (simp add: link_ok_def js(3) guest_value_def)
qed

text \<open>A submission that succeeds, taken apart.\<close>

lemma from_request_read:
  "from_request_with_limit vc h t i c req body n = Inr d \<Longrightarrow> detail_id d = i \<and> graphql_read d = fst (graphql_view vc req body n)"
  by (cases "graphql_view vc req body n") (auto simp: from_request_with_limit_def bind_res_Inr_iff)

definition prepared :: "job_code \<Rightarrow> string \<Rightarrow> IpAddr \<Rightarrow> AppState \<Rightarrow> AppState \<Rightarrow> Job \<Rightarrow> bool" where
  "prepared jc c peer app app' j \<longleftrightarrow>
     async_identity app c peer = Some (job_instance j, job_epoch j) \<and> job_container j = c
     \<and> uuid_supply app \<le> job_id j \<and> job_id j < uuid_supply app' \<and> \<not> terminal j
     \<and> (job_status j = Approved \<longrightarrow> read_only_body jc (job_body j) \<or> allows_all (github_policy app))"

lemma prepare_job_steps:
  assumes "prepare_job jc t pf cfg gap c peer sub app = (r, app')" and "state_ok app"
  shows "policy_step app app' \<and> (\<forall>j. r = Inr j \<longrightarrow> prepared jc c peer app app' j)"
proof -
  obtain pr app1 where p: "persist_guest_identity t pf (run gap app) = (pr, app1)" by fastforce
  let ?app2 = "app1\<lparr>uuid_supply := uuid_supply app1 + 1\<rparr>"
  note step1 = identity_steps(1) [OF assms(2) p] and step2 = identity_steps(2) [OF assms(2) p]
  have le: "uuid_supply app \<le> uuid_supply app1" using step1 by (simp add: policy_step_def)
  have "app' = app \<or> app' = app1 \<or> app' = ?app2"
    using assms(1) unfolding prepare_job_def by (auto simp: p Let_def split: sum.splits if_splits option.splits list.splits)
  then have "policy_step app app'" using step1 step2 policy_step_refl by auto
  moreover have "prepared jc c peer app app' j" if r: "r = Inr j" for j
  proof -
    obtain ident b d where j: "async_identity app c peer = Some ident" "app' = ?app2"
        "from_request_with_limit (job_views jc) (sha256_hex (job_crypto jc)) t (uuid_supply app1) c (job_request jc)
           (submission_body jc sub) MAX_PAYLOAD = Inr d"
        "j = new_job t app c peer ident sub (submission_body jc sub) b d"
      using assms(1) unfolding prepare_job_def r by (auto simp: p Let_def split: sum.splits if_splits option.splits list.splits)
    have "detail_id d = uuid_supply app1" "graphql_read d = read_only_body jc (submission_body jc sub)"
      using from_request_read [OF j(3)] by (auto simp: read_only_body_def)
    then show ?thesis
      using j(1,2) le unfolding j(4) new_job_def prepared_def by (auto simp: terminal_def Let_def split: if_splits)
  qed
  ultimately show ?thesis by blast
qed

lemma store_admitted:
  assumes "store_ok jc js" and "admit_job jc now j (data js) = Some r" and "finish_transaction jc fault r js = (v, js')"
  shows "store_ok jc js' \<and> (\<forall>x. v = Inr x \<longrightarrow> r = Inr (x, data js')) \<and> (\<forall>e. v = Inl e \<longrightarrow> js' = js)"
proof -
  have st: "stored js" "store_file js = Some (data js)" "saved_ok jc (data js)" using assms(1) by (auto simp: store_ok_def)
  from finish_transaction_cases [OF st(1,2), of jc fault r] assms(3)
  consider (failed) e where "v = Inl e" "js' = js"
    | (committed) x s where "v = Inr x" "r = Inr (x, s)" "js' = js\<lparr>data := s, store_file := Some s, job_changes := (job_changes js + 1) mod 2 ^ 64\<rparr>"
    by fastforce
  then show ?thesis
  proof cases
    case committed
    have "saved_ok jc s" using saved_ok_admitted [OF st(3)] assms(2) committed(2) by blast
    with committed st(1) show ?thesis by (simp add: store_ok_def)
  qed (use assms(1) in simp)
qed

lemma known_below:
  assumes "hist_ok jc app tr" and "known tr j"
  shows "job_id j < uuid_supply app"
  using assms submitted_ids_in fixed_partD(1) unfolding hist_ok_def known_def submitted_as_def by metis

lemma submit_keeps:
  assumes "world_ok jc w"
  shows "world_ok jc (world_step jc (Submit_op t pf fault cfg gap c peer sub) w)"
proof -
  let ?app = "w_app w" and ?js = "w_jobs w" and ?tr = "w_trace w"
  have w: "store_ok jc ?js" "hist_ok jc ?app ?tr" "link_ok jc (data ?js) (w_worker w) ?tr" using assms by (auto simp: world_ok_def)
  have sok: "saved_ok jc (data ?js)" "state_ok ?app" using w by (auto simp: store_ok_def hist_ok_def)
  obtain pr app' where p: "prepare_job jc t pf cfg gap c peer sub ?app = (pr, app')" by fastforce
  have step: "policy_step ?app app'" and prep: "\<And>j. pr = Inr j \<Longrightarrow> prepared jc c peer ?app app' j"
    using prepare_job_steps [OF p sok(2)] by auto
  have hist: "hist_ok jc app' ?tr" by (rule hist_step [OF w(2) step])
  show ?thesis
  proof (cases pr)
    case (Inl e)
    with p hist w show ?thesis by (simp add: submit_def world_ok_def)
  next
    case (Inr j)
    note j = prep [OF Inr, unfolded prepared_def]
    show ?thesis
    proof (cases "admit_job jc (utc t) j (data ?js)")
      case None
      with p Inr assms show ?thesis by (simp add: submit_def)
    next
      case (Some r)
      obtain v js' where fin: "finish_transaction jc fault r ?js = (v, js')" by fastforce
      note adm = store_admitted [OF w(1) Some fin]
      show ?thesis
      proof (cases v)
        case (Inl e)
        with p Inr Some fin hist w adm show ?thesis by (simp add: submit_def world_ok_def)
      next
        case v: (Inr x)
        have r: "r = Inr (x, data js')" using adm v by simp
        let ?ev = "Submitted j (guest_policy ?app c) (allows_all (github_policy ?app))"
        have fresh: "map_of (job_map (data ?js)) (job_id j) = None" "job_id j \<notin> set (sent_ids ?tr)" "job_id j \<notin> set (submitted_ids ?tr)"
        proof -
          have "job_id k < uuid_supply ?app" if "map_of (job_map (data ?js)) i = Some k" for i k
            using known_below [OF w(2)] w(3) that by (simp add: link_ok_def)
          moreover have "job_id k = i" if "map_of (job_map (data ?js)) i = Some k" for i k
            using filedD(1) [OF saved_ok_filed [OF sok(1)] map_of_SomeD [OF that]] .
          ultimately show "map_of (job_map (data ?js)) (job_id j) = None" using j by (metis not_le not_Some_eq)
        qed (use w(2) j in \<open>auto simp: hist_ok_def\<close>)
        have link: "map_of (job_map (data js')) (job_id j) = Some j" "gv_id x = job_id j"
            "link_ok jc (data js') (w_worker w) (?ev # ?tr)"
          using link_admitted [OF sok(1) w(3) Some [unfolded r]] fresh(1,2) j by auto
        have "policy_kept app' j (guest_policy ?app c)" using epoch_kept_new [OF sok(2) step, of c peer] j unfolding policy_kept_def by blast
        then have "hist_ok jc app' (?ev # ?tr)" using hist fresh(3) j by (auto simp: hist_ok_def)
        with adm [THEN conjunct1] link show ?thesis
          by (simp add: submit_def world_ok_def p Inr Some fin v submitted_event_def)
      qed
    qed
  qed
qed

end
