(* ===== verification/Jobs_Safe.thy ===== *)
theory Jobs_Safe
  imports Jobs_World
begin

text \<open>
  What the store of jobs guarantees: its invariant over every history, that a job is executed at most once
  and only as it was submitted and approved, that a finished execution is always recorded, what a
  restart does, and that guests reach only their own jobs.
\<close>

section \<open>Starts and restarts\<close>

lemma settle_terminal: "terminal (settle jc t j)"
  by (auto simp: settle_def Let_def terminal_def set_job_def split: Status.splits)

lemma settle_fixed [simp]: "fixed_part (settle jc t j) = fixed_part j"
  by (auto simp: settle_def Let_def split: Status.splits)

lemma settle_done: "terminal j \<Longrightarrow> job_facts j \<noteq> None \<Longrightarrow> settle jc t j = j"
  by (auto simp: settle_def terminal_def split: Status.splits)

definition settled_store :: "job_code \<Rightarrow> clock \<Rightarrow> Saved \<Rightarrow> Saved" where
  "settled_store jc t s = s\<lparr>job_map := map (\<lambda>(i, j). (i, settle jc t j)) (job_map s)\<rparr>"

lemma load_jobs_Inr:
  assumes "load_jobs jc t fault file = Inr js"
  obtains s where "file = Store_missing \<and> s = empty_saved \<or> (\<exists>n. file = Store_contents n s)"
    "data js = settled_store jc t s" "store_file js = Some (settled_store jc t s)" "stored js" "jobs_version s = 1"
    "length (job_map s) \<le> MAX_JOBS" "saved_len jc (settled_store jc t s) + reserved (settled_store jc t s) \<le> MAX_STORAGE"
proof -
  obtain s old where s: "file = Store_missing \<and> s = empty_saved \<or> (\<exists>n. file = Store_contents n s)"
      "jobs_version s = 1" "length (job_map s) \<le> MAX_JOBS"
      "transaction jc fault (\<lambda>next. Inr ((), next)) \<lparr>data = settled_store jc t s, stored = True, store_file = old, job_changes = 0\<rparr> = (Inr (), js)"
    using assms
    by (auto simp: load_jobs_def bind_res_Inr_iff settled_store_def split: store_read.splits if_splits prod.splits sum.splits)
  then have "data js = settled_store jc t s \<and> store_file js = Some (settled_store jc t s) \<and> stored js
      \<and> saved_len jc (settled_store jc t s) + reserved (settled_store jc t s) \<le> MAX_STORAGE"
    by (cases fault) (auto simp: transaction_def finish_transaction_def atomic_write_def split: if_splits)
  with s that show thesis by blast
qed

lemma settled_store_simps:
  "jobs_version (settled_store jc t s) = jobs_version s"
  "length (job_map (settled_store jc t s)) = length (job_map s)"
  "map_of (job_map (settled_store jc t s)) i = map_option (settle jc t) (map_of (job_map s) i)"
  "active_jobs (settled_store jc t s) = []"
  by (simp_all add: settled_store_def map_of_mapped active_jobs_def settle_terminal filter_empty_conv split_beta)

lemma filed_settled_store: "filed s \<Longrightarrow> filed (settled_store jc t s)"
  by (auto simp: filed_def settled_store_def btree_def list_all_iff comp_def split_beta fixed_partD(1) [OF settle_fixed])

lemma store_ok_loaded:
  assumes "load_jobs jc t fault file = Inr js" and "\<And>n s. file = Store_contents n s \<Longrightarrow> filed s"
  shows "store_ok jc js"
proof -
  obtain s where s: "file = Store_missing \<and> s = empty_saved \<or> (\<exists>n. file = Store_contents n s)"
    "data js = settled_store jc t s" "store_file js = Some (settled_store jc t s)" "stored js" "jobs_version s = 1"
    "length (job_map s) \<le> MAX_JOBS" "saved_len jc (settled_store jc t s) + reserved (settled_store jc t s) \<le> MAX_STORAGE"
    by (rule load_jobs_Inr [OF assms(1)]) (rule that)
  have "filed s" using s(1) assms(2) by (auto simp: filed_def)
  then have "filed (settled_store jc t s)" by (rule filed_settled_store)
  with s show ?thesis by (simp add: store_ok_def saved_ok_def settled_store_simps filed_def)
qed

section \<open>Every reachable world is in order\<close>

lemma restart_keeps:
  assumes "world_ok jc w" and "store_file (w_jobs w) = Some s"
    and "load_jobs jc t fault (Store_contents n s) = Inr js" and "fresh_start (uuid_supply (w_app w)) app"
  shows "world_ok jc (w\<lparr>w_app := app, w_jobs := js, w_worker := Idle\<rparr>)"
proof -
  have w: "store_ok jc (w_jobs w)" "hist_ok jc (w_app w) (w_trace w)" "link_ok jc (data (w_jobs w)) (w_worker w) (w_trace w)"
    using assms(1) by (auto simp: world_ok_def)
  have s: "s = data (w_jobs w)" using w(1) assms(2) by (simp add: store_ok_def)
  have "filed s" using w(1) saved_ok_filed by (auto simp: store_ok_def s)
  then have store: "store_ok jc js" using store_ok_loaded [OF assms(3)] by blast
  have d: "data js = settled_store jc t s" by (rule load_jobs_Inr [OF assms(3)]) auto
  have "known (w_trace w) (settle jc t j)" if "map_of (job_map s) i = Some j" for i j
    using w(3) that by (auto simp: link_ok_def s known_def submitted_as_def)
  moreover have "job_status (settle jc t j) \<notin> {Pending, Approved}" for j
    using settle_terminal [of jc t j] by (auto simp: terminal_def)
  ultimately have link: "link_ok jc (data js) Idle (w_trace w)"
    by (auto simp: link_ok_def d settled_store_simps waiting_def)
  have "policy_kept app j pol" if "policy_kept (w_app w) j pol" for j pol
    using epoch_kept_restart [OF _ assms(4)] that by (simp add: policy_kept_def)
  then have "hist_ok jc app (w_trace w)"
    using w(2) assms(4) unfolding hist_ok_def fresh_start_def by (meson less_le_trans)
  with store link show ?thesis by (simp add: world_ok_def)
qed

lemma app_keeps:
  assumes "world_ok jc w"
  shows "world_ok jc (world_step jc (App_op op) w)"
proof -
  have "state_ok (w_app w)" using assms by (simp add: world_ok_def hist_ok_def)
  then have "policy_step (w_app w) (apply_state_op op (w_app w))"
    using policy_step_apply by (simp add: state_ok_def)
  with assms hist_step show ?thesis by (auto simp: world_ok_def)
qed

lemma world_step_keeps:
  assumes "world_ok jc w"
  shows "world_ok jc (world_step jc op w)"
proof -
  have w: "store_ok jc (w_jobs w)" "hist_ok jc (w_app w) (w_trace w)" "link_ok jc (data (w_jobs w)) (w_worker w) (w_trace w)"
    using assms by (auto simp: world_ok_def)
  show ?thesis
  proof (cases op)
    case (Decide_op t f i fp d)
    obtain r js where r: "decide_job jc t f i fp d (w_jobs w) = (r, js)" by fastforce
    have "hist_ok jc (w_app w) (Host_approved i fp # w_trace w)" using w(2) by (auto simp: hist_ok_def)
    with decide_keeps [OF w(1,3) r] w(2) show ?thesis by (simp add: Decide_op r world_ok_def)
  next
    case (Cancel_op t f c inst i session)
    with cancel_keeps [OF w(1,3)] w(2) show ?thesis by (simp add: world_ok_def)
  next
    case (Acknowledge_op t f c inst i session)
    with acknowledge_keeps [OF w(1,3)] w(2) show ?thesis by (simp add: world_ok_def)
  next
    case (Delete_op f c inst i session)
    with delete_keeps [OF w(1,3)] w(2) show ?thesis by (simp add: world_ok_def)
  qed (use app_keeps [OF assms] submit_keeps [OF assms] worker_keeps [OF assms] in \<open>blast+\<close>)
qed

lemma reachable_ok:
  assumes "reachable P jc w"
  shows "world_ok jc w"
  using assms
proof induction
  case (start t js app)
  have "store_ok jc js" by (rule store_ok_loaded [OF start(1)]) simp
  moreover have "data js = settled_store jc t empty_saved" by (rule load_jobs_Inr [OF start(1)]) auto
  ultimately show ?case
    using start(2) by (simp add: world_ok_def hist_ok_def link_ok_def settled_store_def)
qed (blast intro: world_step_keeps restart_keeps)+

section \<open>Execution\<close>

lemma trace_ok_suffix: "trace_ok jc (post @ pre) \<Longrightarrow> trace_ok jc pre"
proof (induction post)
  case (Cons e post)
  then show ?case by (cases e) auto
qed simp

lemma sent_distinct: "trace_ok jc tr \<Longrightarrow> distinct (sent_ids tr)"
proof (induction tr)
  case (Cons e tr)
  then show ?case by (cases e) (auto simp: sent_properly_def)
qed simp

text \<open>
  C6. A job is executed at most once. Whatever guests, host and worker do, whichever writes fail, and
  however often and at whatever moment the broker is restarted, no job is sent twice, and a job that was
  sent is never again pending or approved, in memory or in the file.
\<close>

theorem job_executes_once:
  assumes "reachable P jc w"
  shows "distinct (sent_ids (w_trace w))
    \<and> (\<forall>i j. map_of (job_map (data (w_jobs w))) i = Some j \<and> waiting (job_status j) \<longrightarrow> i \<notin> set (sent_ids (w_trace w)))
    \<and> store_file (w_jobs w) = Some (data (w_jobs w))"
proof -
  have w: "store_ok jc (w_jobs w)" "hist_ok jc (w_app w) (w_trace w)" "link_ok jc (data (w_jobs w)) (w_worker w) (w_trace w)"
    using reachable_ok [OF assms] by (auto simp: world_ok_def)
  have "i \<notin> set (sent_ids (w_trace w))"
    if "map_of (job_map (data (w_jobs w))) i = Some j" "waiting (job_status j)" for i j
  proof -
    have "job_id j = i" using filedD(1) saved_ok_filed w(1) map_of_SomeD [OF that(1)] by (metis store_ok_def)
    then show ?thesis using w(3) that unfolding link_ok_def by blast
  qed
  then show ?thesis using w sent_distinct by (auto simp: store_ok_def hist_ok_def)
qed

text \<open>
  C7. A job is sent as it was submitted and allowed. Before every request that left there is a submission
  with the same guest, body and credential binding; the credential sent is the one of that binding; the
  guest's approval, pin, kill flag and epoch at the moment of sending are those at the submission; and the
  body was a read-only query, or the broker allowed all GitHub traffic, or the host had approved the job
  by its fingerprint.
\<close>

theorem job_sent_as_approved:
  assumes "reachable P jc w" and "w_trace w = later @ Sent j cred pol # before"
  shows "credential_binding cred = job_binding j
    \<and> (\<exists>j0 allow. Submitted j0 pol allow \<in> set before \<and> fixed_part j0 = fixed_part j
         \<and> (read_only_body jc (job_body j) \<or> allow \<or> Host_approved (job_id j) (job_fingerprint j) \<in> set before))"
proof -
  have "trace_ok jc (later @ Sent j cred pol # before)"
    using reachable_ok [OF assms(1)] by (simp add: world_ok_def hist_ok_def assms(2) [symmetric])
  from trace_ok_suffix [OF this] have "sent_properly jc before j cred pol" by simp
  then show ?thesis unfolding sent_properly_def submitted_as_def may_run_def by blast
qed

text \<open>
  C27. The store keeps its limits. In every reachable world the file holds exactly what memory holds; jobs
  are filed under their ids; there are at most 100, at most 32 of them active and at most 8 for one guest;
  and the JSON with the space reserved for results that are still to come stays within 256 MiB.
\<close>

theorem job_store_invariant:
  assumes "reachable P jc w"
  shows "store_file (w_jobs w) = Some (data (w_jobs w)) \<and> filed (data (w_jobs w))
    \<and> length (job_map (data (w_jobs w))) \<le> 100
    \<and> length (active_jobs (data (w_jobs w))) \<le> 32
    \<and> (\<forall>c. length (filter (\<lambda>j. job_container j = c) (active_jobs (data (w_jobs w)))) \<le> 8)
    \<and> saved_len jc (data (w_jobs w)) + reserved (data (w_jobs w)) \<le> 256 * 1024 * 1024"
  using reachable_ok [OF assms] saved_ok_filed
  by (auto simp: world_ok_def store_ok_def saved_ok_def MAX_JOBS_def MAX_STORAGE_def)

section \<open>Results\<close>

lemma count_settled:
  "btree m \<Longrightarrow> map_of m i = Some k \<Longrightarrow> P k \<Longrightarrow> \<not> P v
     \<Longrightarrow> Suc (length (filter P (map snd (btree_insert i v m)))) = length (filter P (map snd m))"
proof (induction i v m rule: btree_insert.induct)
  case (2 i v a b m)
  have tail: "btree m" "\<forall>x \<in> set m. a < fst x" using "2.prems"(1) by (auto simp: btree_def)
  show ?case
  proof (cases "i = a")
    case False
    then have m: "map_of m i = Some k" using "2.prems"(2) by simp
    then have "a < i" using tail(2) map_of_SomeD [of m i k] by fastforce
    with False "2.IH" tail(1) m "2.prems"(3,4) show ?thesis by auto
  qed (use "2.prems" in auto)
qed simp

text \<open>The job as it is recorded after its execution.\<close>

definition recorded :: "clock \<Rightarrow> job_end \<Rightarrow> Job \<Rightarrow> Job" where
  "recorded t d k = (set_job t (end_status d) (end_outcome d) k)\<lparr>job_http_status := end_http d, job_result := end_result d,
     job_upstream := Some (end_upstream d)\<rparr>"

text \<open>
  C26. A finished execution is recorded, or its job stays as being sent. While a request is under way its job is neither
  removed nor changed by anyone else. When the reply is in, its record is written, in memory and on disk, and the job is
  settled, exactly when the disk does not fail and the store with the record, and with 24 MiB and 4 KiB for each job that is
  still active, takes at most 256 MiB. It does whenever the record adds no more than these 24 MiB and 4 KiB, which were kept
  free for it. Otherwise (the response headers alone may add more) nothing is changed: the job stays sending in memory and
  on disk, so that it is not sent again, and the worker goes on with its next round.
\<close>

theorem transfer_is_recorded:
  fixes e :: "'p worker_env"
  assumes "reachable P jc w" and "w_worker w = Transfer j cred u started rest"
  shows "\<exists>k. map_of (job_map (data (w_jobs w))) (job_id j) = Some k \<and> job_status k = Sending
    \<and> terminal (recorded (at e) (job_ended jc e u started) k)
    \<and> (let s = data (w_jobs w); s' = put_job (job_id j) (recorded (at e) (job_ended jc e u started) k) s;
           w' = world_step jc (Worker_op e) w;
           fits = (saved_len jc s' + 25169920 * length (active_jobs s') \<le> 268435456) in
       (saved_len jc s' \<le> saved_len jc s + 25169920 \<longrightarrow> fits)
       \<and> (if write_fault e = No_fault \<and> fits
          then w_worker w' = Loop rest \<and> data (w_jobs w') = s' \<and> store_file (w_jobs w') = Some s'
          else w_worker w' = Idle \<and> data (w_jobs w') = s \<and> store_file (w_jobs w') = Some s))"
proof -
  let ?d = "job_ended jc e u started" and ?s = "data (w_jobs w)"
  have w: "store_ok jc (w_jobs w)" "link_ok jc ?s (Transfer j cred u started rest) (w_trace w)"
    using reachable_ok [OF assms(1)] assms(2) by (auto simp: world_ok_def)
  then have st: "stored (w_jobs w)" "saved_ok jc ?s" "store_file (w_jobs w) = Some ?s" by (auto simp: store_ok_def)
  obtain k where k: "map_of (job_map ?s) (job_id j) = Some k" "job_status k = Sending" using w(2) by (auto simp: link_ok_def)
  let ?k = "recorded (at e) ?d k" and ?s' = "put_job (job_id j) (recorded (at e) ?d k) ?s"
  let ?fits = "saved_len jc ?s' + 25169920 * length (active_jobs ?s') \<le> 268435456"
  have t: "terminal ?k" using job_ended_terminal [of jc e u started] by (simp add: terminal_def recorded_def set_job_def)
  have "Suc (length (active_jobs ?s')) = length (active_jobs ?s)"
    using count_settled [OF _ k(1), of "\<lambda>j. \<not> terminal j" ?k] st(2) k(2) t
    by (simp add: active_jobs_def put_job_def saved_ok_def terminal_def)
  then have "25169920 * length (active_jobs ?s') + 25169920 = 25169920 * length (active_jobs ?s)" by linarith
  moreover have "saved_len jc ?s + 25169920 * length (active_jobs ?s) \<le> 268435456"
    using st(2) by (simp add: saved_ok_def reserved_def RESERVATION_def MAX_RESULT_def MAX_STORAGE_def mult.commute)
  ultimately have room: "saved_len jc ?s' \<le> saved_len jc ?s + 25169920 \<longrightarrow> ?fits" by linarith
  have fits: "MAX_STORAGE < saved_len jc ?s' + reserved ?s' \<longleftrightarrow> \<not> ?fits"
    by (simp add: reserved_def RESERVATION_def MAX_RESULT_def MAX_STORAGE_def mult.commute not_le)
  have step: "tick_record jc (at e) (write_fault e) ?d j (w_jobs w) = finish_transaction jc (write_fault e) (Inr ((), ?s')) (w_jobs w)"
    using k(1) by (simp add: tick_record_def transaction_def recorded_def)
  have "worker_step jc e (w_app w) (w_worker w) (w_jobs w)
      = (if write_fault e = No_fault \<and> ?fits
         then (Loop rest, (w_jobs w)\<lparr>data := ?s', store_file := Some ?s', job_changes := (job_changes (w_jobs w) + 1) mod 2 ^ 64\<rparr>)
         else (Idle, w_jobs w))"
    unfolding assms(2) worker_step_def worker.case step finish_transaction_def sum.case prod.case fits using st(1,3)
    by (cases "write_fault e"; cases ?fits) (simp_all only: if_True if_False next_tick_def atomic_write_def, simp_all)
  then show ?thesis using k t room st(3) by (simp add: Let_def)
qed

section \<open>Restarts\<close>

definition result_of :: "Job \<Rightarrow> Status \<times> string \<times> nat option \<times> string option" where
  "result_of j = (job_status j, job_outcome j, job_http_status j, job_result j)"

lemma settle_result: "terminal j \<Longrightarrow> result_of (settle jc t j) = result_of j"
  by (auto simp: settle_def terminal_def result_of_def Let_def split: Status.splits)

lemma settle_status:
  "job_status j = Sending \<Longrightarrow> job_status (settle jc t j) = Unknown"
  "waiting (job_status j) \<Longrightarrow> job_status (settle jc t j) = Cancelled"
  by (auto simp: settle_def waiting_def Let_def)

text \<open>
  C28. A restart sends nothing again and loses no result. Loading a store file keeps every job: one that was
  being executed becomes unknown, one that waited becomes cancelled, and any other keeps its status,
  outcome and result; the new worker finds nothing to do; the same is already on disk; and loading a
  second time changes no status, outcome or result.
\<close>

theorem restart_settles_jobs:
  assumes "load_jobs jc t fault (Store_contents n s) = Inr js"
  shows "store_file js = Some (data js) \<and> tick_start js = Loop []
    \<and> (\<forall>i. case map_of (job_map s) i of
            None \<Rightarrow> map_of (job_map (data js)) i = None
          | Some j \<Rightarrow> (\<exists>j'. map_of (job_map (data js)) i = Some j' \<and> fixed_part j' = fixed_part j
              \<and> (if job_status j = Sending then job_status j' = Unknown
                 else if waiting (job_status j) then job_status j' = Cancelled
                 else result_of j' = result_of j)
              \<and> result_of (settle jc t' j') = result_of j'))"
proof -
  have d: "data js = settled_store jc t s" "store_file js = Some (settled_store jc t s)"
    by (rule load_jobs_Inr [OF assms], auto)+
  have "tick_start js = Loop []"
    using settle_terminal by (fastforce simp: tick_start_def d settled_store_def waiting_def terminal_def filter_empty_conv)
  moreover have "result_of (settle jc t j) = result_of j" if "job_status j \<noteq> Sending" "\<not> waiting (job_status j)" for j
    using that by (intro settle_result) (auto simp: terminal_def waiting_def)
  ultimately show ?thesis
    by (auto simp: d settled_store_simps settle_status settle_result [OF settle_terminal] split: option.splits)
qed

section \<open>Guests\<close>

definition guest_call :: "job_code \<Rightarrow> clock \<Rightarrow> io_fault \<Rightarrow> string \<Rightarrow> uuid \<Rightarrow> uuid \<Rightarrow> string \<Rightarrow> Jobs \<Rightarrow> (string + unit) \<times> Jobs \<Rightarrow> bool" where
  "guest_call jc t fault c inst i session js out \<longleftrightarrow>
     out = cancel jc t fault c inst i session js \<or> out = acknowledge jc t fault c inst i session js
     \<or> out = delete_job jc fault c inst i session js"

lemma guest_call_edit:
  assumes "guest_call jc t fault c inst i session js out"
  shows "\<exists>edit. out = transaction jc fault edit js
    \<and> (\<forall>v s. edit (data js) = Inr (v, s) \<longrightarrow> (\<exists>j. map_of (job_map (data js)) i = Some j \<and> owned_by c inst session j)
         \<and> (\<forall>k. k \<noteq> i \<longrightarrow> map_of (job_map s) k = map_of (job_map (data js)) k))"
  using assms unfolding guest_call_def
proof (elim disjE)
  assume "out = cancel jc t fault c inst i session js"
  then show ?thesis unfolding cancel_def
    by (intro exI conjI, assumption) (auto simp: bind_res_Inr_iff owned_job_Inr split: if_splits)
next
  assume "out = acknowledge jc t fault c inst i session js"
  then show ?thesis unfolding acknowledge_def
    by (intro exI conjI, assumption) (auto simp: bind_res_Inr_iff owned_job_Inr split: if_splits)
next
  assume "out = delete_job jc fault c inst i session js"
  then show ?thesis unfolding delete_job_def
    by (intro exI conjI, assumption) (auto simp: bind_res_Inr_iff owned_job_Inr AList.delete_conv' split: if_splits)
qed

lemma guest_call_others:
  assumes "store_ok jc js" and "guest_call jc t fault c inst i session js (r, js')"
  shows "r = Inl e \<Longrightarrow> js' = js"
    and "map_of (job_map (data js)) k = Some j \<Longrightarrow> k \<noteq> i \<or> \<not> owned_by c inst session j
      \<Longrightarrow> map_of (job_map (data js')) k = Some j"
proof -
  obtain edit where ed: "transaction jc fault edit js = (r, js')"
      "\<And>v s. edit (data js) = Inr (v, s) \<Longrightarrow> (\<exists>j. map_of (job_map (data js)) i = Some j \<and> owned_by c inst session j)
         \<and> (\<forall>k. k \<noteq> i \<longrightarrow> map_of (job_map s) k = map_of (job_map (data js)) k)"
    using guest_call_edit [OF assms(2)] by metis
  show fail: "js' = js" if "r = Inl e" for e using transaction_failed [OF assms(1)] ed(1) that by blast
  show "map_of (job_map (data js')) k = Some j"
    if j: "map_of (job_map (data js)) k = Some j" "k \<noteq> i \<or> \<not> owned_by c inst session j"
  proof (cases r)
    case (Inr v)
    obtain s where s: "edit (data js) = Inr (v, s)"
        "js' = js\<lparr>data := s, store_file := Some s, job_changes := (job_changes js + 1) mod 2 ^ 64\<rparr>"
      by (rule transaction_done [OF assms(1) ed(1) [unfolded Inr]]) (rule that)
    with ed(2) [OF s(1)] j show ?thesis by (cases "k = i") auto
  qed (use fail j(1) in simp)
qed

text \<open>
  Guests reach only their own jobs. What a guest reads is a job of its name, incarnation and session, and
  nothing it cancels, acknowledges or removes changes a job that is not; a failed call changes nothing.
\<close>

theorem guest_jobs_private:
  assumes "store_ok jc js"
  shows "(get_job c inst i session js = Inr v \<longrightarrow>
       (\<exists>j. map_of (job_map (data js)) i = Some j \<and> owned_by c inst session j \<and> v = guest_value j True))
    \<and> set (list_jobs c inst session js)
        = (\<lambda>j. guest_value j False) ` {j. \<exists>i. map_of (job_map (data js)) i = Some j \<and> owned_by c inst session j}
    \<and> (guest_call jc t fault c inst i session js (r, js') \<longrightarrow>
        (\<forall>k j. map_of (job_map (data js)) k = Some j \<and> (k \<noteq> i \<or> \<not> owned_by c inst session j)
            \<longrightarrow> map_of (job_map (data js')) k = Some j)
        \<and> (\<forall>e. r = Inl e \<longrightarrow> js' = js))"
proof (intro conjI impI)
  assume "get_job c inst i session js = Inr v"
  then show "\<exists>j. map_of (job_map (data js)) i = Some j \<and> owned_by c inst session j \<and> v = guest_value j True"
    by (auto simp: get_job_def bind_res_Inr_iff owned_job_Inr)
next
  have "filed (data js)" using assms saved_ok_filed by (auto simp: store_ok_def)
  then have "(\<exists>i. (i, j) \<in> set (job_map (data js))) \<longleftrightarrow> (\<exists>i. map_of (job_map (data js)) i = Some j)" for j
    using filedD(2) map_of_SomeD by metis
  then show "set (list_jobs c inst session js)
      = (\<lambda>j. guest_value j False) ` {j. \<exists>i. map_of (job_map (data js)) i = Some j \<and> owned_by c inst session j}"
    by (force simp: list_jobs_def)
next
  assume call: "guest_call jc t fault c inst i session js (r, js')"
  show "\<forall>k j. map_of (job_map (data js)) k = Some j \<and> (k \<noteq> i \<or> \<not> owned_by c inst session j)
            \<longrightarrow> map_of (job_map (data js')) k = Some j"
    and "\<forall>e. r = Inl e \<longrightarrow> js' = js"
    using guest_call_others [OF assms call] by blast+
qed

section \<open>Samples\<close>

definition sample_job_code :: job_code where
  "sample_job_code = \<lparr>saved_len = (\<lambda>s. length (job_map s)), job_views = sample_views, job_net = sample_nc, job_crypto = sample_crypto,
     json_to_string = (\<lambda>_. ''{}''), json_from_slice = (\<lambda>_. None),
     endpoint = \<lparr>uri_text = ENDPOINT, scheme_str = Some ''https'', uri_host = Some ''api.github.com'', port_u16 = None,
       path = ''/graphql'', query = None\<rparr>\<rparr>"

definition sample_submission :: Submission where
  "sample_submission = \<lparr>sub_request_key = ''k'', session_id = ''s'', sub_query = ''mutation{x}'', variables = JNull, operation_name = None\<rparr>"

definition sample_worker_env :: "nat \<Rightarrow> unit worker_env" where
  "sample_worker_env n = \<lparr>at = sample_clock n, headers_clock = sample_clock n, write_fault = No_fault, settings_now = sample_settings,
     reply = Inl \<lparr>is_timeout = True, is_connect = False, is_body = False, is_request = False\<rparr>\<rparr>"

definition sample_job_start :: world where
  "sample_job_start = \<lparr>w_app = sample_state,
     w_jobs = (case load_jobs sample_job_code (sample_clock 1) No_fault Store_missing of Inr js \<Rightarrow> js | Inl _ \<Rightarrow> new_jobs),
     w_worker = Idle, w_trace = []\<rparr>"

definition sample_job_id :: uuid where
  "sample_job_id = uuid_supply sample_state"

definition sample_submitted :: world where
  "sample_submitted = world_step sample_job_code
     (Submit_op (sample_clock 10) No_fault No_fault sample_settings [] ''g'' (V4 7) sample_submission) sample_job_start"

definition sample_sending :: world where
  "sample_sending = fold (world_step sample_job_code)
     [Decide_op (sample_clock 11) No_fault sample_job_id
        (job_fingerprint (the (map_of (job_map (data (w_jobs sample_submitted))) sample_job_id))) Decision_kind.Approve,
      Worker_op (sample_worker_env 12), Worker_op (sample_worker_env 13), Worker_op (sample_worker_env 14),
      Worker_op (sample_worker_env 15)] sample_submitted"

lemma reachable_fold: "reachable P jc w \<Longrightarrow> reachable P jc (fold (world_step jc) (ops :: 'p world_op list) w)" for P :: "'p itself"
  by (induction ops arbitrary: w) (auto intro: reachable.step)

lemma sample_start_reachable: "reachable TYPE(unit) sample_job_code sample_job_start"
proof -
  have "load_jobs sample_job_code (sample_clock 1) No_fault Store_missing = Inr (w_jobs sample_job_start)" by code_simp
  moreover have "state_ok sample_state" by code_simp
  ultimately show ?thesis
    using reachable.start [of sample_job_code "sample_clock 1" "w_jobs sample_job_start" sample_state]
    by (simp add: sample_job_start_def)
qed

lemma sample_sending_reachable: "reachable TYPE(unit) sample_job_code sample_sending"
  unfolding sample_sending_def sample_submitted_def
  by (intro reachable_fold reachable.step sample_start_reachable)

theorem job_executes_once_witness:
  "sent_ids (w_trace sample_sending) = [sample_job_id] \<and> distinct (sent_ids (w_trace sample_sending))"
proof
  show "sent_ids (w_trace sample_sending) = [sample_job_id]" by code_simp
  show "distinct (sent_ids (w_trace sample_sending))" using job_executes_once [OF sample_sending_reachable] by blast
qed

lemma sample_transfer:
  "\<exists>j cred pol before u started. w_trace sample_sending = [] @ Sent j cred pol # before
     \<and> w_worker sample_sending = Transfer j cred u started []"
proof -
  have "case w_trace sample_sending of Sent j cred pol # _ \<Rightarrow>
      (case w_worker sample_sending of Transfer j' cred' _ _ rest \<Rightarrow> j' = j \<and> cred' = cred \<and> rest = [] | _ \<Rightarrow> False) | _ \<Rightarrow> False"
    by code_simp
  then show ?thesis by (auto split: list.splits event.splits worker.splits)
qed

theorem job_sent_as_approved_witness:
  "\<exists>j cred pol before. w_trace sample_sending = Sent j cred pol # before
     \<and> credential_binding cred = job_binding j \<and> (\<exists>j0 allow. Submitted j0 pol allow \<in> set before \<and> fixed_part j0 = fixed_part j)"
proof -
  obtain j cred pol before where tr: "w_trace sample_sending = [] @ Sent j cred pol # before" using sample_transfer by blast
  from job_sent_as_approved [OF sample_sending_reachable tr] tr show ?thesis by fastforce
qed

theorem job_store_invariant_witness:
  "length (job_map (data (w_jobs sample_sending))) = 1
     \<and> store_file (w_jobs sample_sending) = Some (data (w_jobs sample_sending))"
proof
  show "length (job_map (data (w_jobs sample_sending))) = 1" by code_simp
  show "store_file (w_jobs sample_sending) = Some (data (w_jobs sample_sending))"
    using job_store_invariant [OF sample_sending_reachable] by blast
qed

theorem transfer_is_recorded_witness:
  "w_worker (world_step sample_job_code (Worker_op (sample_worker_env 16)) sample_sending) = Loop []"
proof -
  obtain j cred u started where wk: "w_worker sample_sending = Transfer j cred u started []" using sample_transfer by blast
  have size: "saved_len sample_job_code (put_job i k s) \<le> saved_len sample_job_code s + 25169920" for i k s
    using count_insert [of "\<lambda>_. True" i k "job_map s"] by (simp add: sample_job_code_def put_job_def)
  have "write_fault (sample_worker_env 16) = No_fault" by (simp add: sample_worker_env_def)
  with transfer_is_recorded [OF sample_sending_reachable wk, of "sample_worker_env 16"] size show ?thesis by (auto simp: Let_def)
qed

theorem restart_settles_jobs_witness:
  "\<exists>js. load_jobs sample_job_code (sample_clock 20) No_fault (Store_contents 1 (data (w_jobs sample_sending))) = Inr js
     \<and> map_option job_status (map_of (job_map (data js)) sample_job_id) = Some Unknown \<and> tick_start js = Loop []"
proof -
  let ?l = "load_jobs sample_job_code (sample_clock 20) No_fault (Store_contents 1 (data (w_jobs sample_sending)))"
  have "case ?l of Inr js \<Rightarrow> map_option job_status (map_of (job_map (data js)) sample_job_id) = Some Unknown | Inl _ \<Rightarrow> False"
    by code_simp
  then obtain js where js: "?l = Inr js" "map_option job_status (map_of (job_map (data js)) sample_job_id) = Some Unknown"
    by (auto split: sum.splits)
  from restart_settles_jobs [OF js(1)] js show ?thesis by blast
qed

theorem guest_jobs_private_witness:
  "map_of (job_map (data (snd (cancel sample_job_code (sample_clock 20) No_fault ''h'' 1 sample_job_id ''s'' (w_jobs sample_submitted)))))
     sample_job_id = map_of (job_map (data (w_jobs sample_submitted))) sample_job_id"
proof -
  let ?js = "w_jobs sample_submitted" and ?out = "cancel sample_job_code (sample_clock 20) No_fault ''h'' 1 sample_job_id ''s'' (w_jobs sample_submitted)"
  have "reachable TYPE(unit) sample_job_code sample_submitted"
    unfolding sample_submitted_def by (intro reachable.step sample_start_reachable)
  then have ok: "store_ok sample_job_code ?js" using reachable_ok by (auto simp: world_ok_def)
  have "case map_of (job_map (data ?js)) sample_job_id of None \<Rightarrow> False | Some j \<Rightarrow> \<not> owned_by ''h'' 1 ''s'' j" by code_simp
  then obtain j where j: "map_of (job_map (data ?js)) sample_job_id = Some j" "\<not> owned_by ''h'' 1 ''s'' j"
    by (auto split: option.splits)
  have "guest_call sample_job_code (sample_clock 20) No_fault ''h'' 1 sample_job_id ''s'' ?js (fst ?out, snd ?out)"
    by (simp add: guest_call_def)
  with guest_jobs_private [OF ok, of "''h''" 1 sample_job_id "''s''" "guest_value j True" "sample_clock 20" No_fault "fst ?out" "snd ?out"] j
  have "map_of (job_map (data (snd ?out))) sample_job_id = Some j" by blast
  with j(1) show ?thesis by simp
qed

end
