(* ===== verification/Push_Git.thy ===== *)
theory Push_Git
  imports Durable
begin

text \<open>
  The Git half of \<open>pushes.rs\<close>: validation of a submission, credentials, and the review that is derived from a
  bundle by running Git on it. Git, the remote and the file system are a machine with a state \<open>'g\<close> of its own,
  which answers commands; everything the broker makes of the answers is modelled.
\<close>

section \<open>Limits\<close>

definition MAX_BUNDLE :: nat where "MAX_BUNDLE = 32 * 1024 * 1024"
definition MAX_STORAGE :: nat where "MAX_STORAGE = 256 * 1024 * 1024"
definition MAX_PATCH :: nat where "MAX_PATCH = 2 * 1024 * 1024"
definition MAX_GIT_OUTPUT :: nat where "MAX_GIT_OUTPUT = 2 * 1024 * 1024"
definition MAX_OBJECTS :: nat where "MAX_OBJECTS = 20000"
definition MAX_OBJECT_BYTES :: nat where "MAX_OBJECT_BYTES = 64 * 1024 * 1024"
definition MAX_OBJECT_SIZE :: nat where "MAX_OBJECT_SIZE = 16 * 1024 * 1024"
definition MAX_COMMITS :: nat where "MAX_COMMITS = 100"
definition MAX_FILES :: nat where "MAX_FILES = 1000"
definition ZERO_OID :: string where "ZERO_OID = replicate 40 (CHR ''0'')"

section \<open>More methods of \<open>str\<close>\<close>

abbreviation newline :: char where "newline \<equiv> CHR 0x0A"

definition strip_cr :: "string \<Rightarrow> string" where
  "strip_cr s = (if ends_with [CHR 0x0D] s then butlast s else s)"

text \<open>\<open>str::lines\<close>: the end of the last line is optional.\<close>

definition str_lines :: "string \<Rightarrow> string list" where
  "str_lines s = (let ws = split_on newline s in map strip_cr (butlast ws) @ (if last ws = [] then [] else [last ws]))"

fun split_where :: "('a \<Rightarrow> bool) \<Rightarrow> 'a list \<Rightarrow> 'a list list" where
  "split_where P [] = [[]]"
| "split_where P (x # xs) =
     (if P x then [] # split_where P xs
      else case split_where P xs of [] \<Rightarrow> [[x]] | w # ws \<Rightarrow> (x # w) # ws)"

definition split_whitespace :: "string \<Rightarrow> string list" where
  "split_whitespace s = map concat (filter (\<lambda>w. w \<noteq> []) (split_where (char_is_whitespace \<circ> scalar) (chars s)))"

text \<open>\<open>str::replace\<close>: matches from left to right, without overlap.\<close>

function replace_all :: "string \<Rightarrow> string \<Rightarrow> string \<Rightarrow> string" where
  "replace_all p r s =
     (if p = [] then r @ concat (map (\<lambda>c. c @ r) (chars s))
      else case s of
          [] \<Rightarrow> []
        | c # cs \<Rightarrow> (case strip_prefix p s of Some rest \<Rightarrow> r @ replace_all p r rest | None \<Rightarrow> c # replace_all p r cs))"
  by pat_completeness auto
termination
  by (relation "measure (\<lambda>(_, _, s). length s)") (auto simp: strip_prefix_Some_iff)

declare replace_all.simps [simp del]

definition parse_u64 :: "string \<Rightarrow> nat option" where
  "parse_u64 s =
     (let ds = (case s of c # cs \<Rightarrow> if c = CHR ''+'' then cs else s | [] \<Rightarrow> [])
      in if ds = [] then None
         else case digits_value 0 ds of None \<Rightarrow> None | Some v \<Rightarrow> if v < 2 ^ 64 then Some v else None)"

definition from_utf8 :: "string \<Rightarrow> string \<Rightarrow> string + string" where
  "from_utf8 e s = (if valid_utf8 s then Inr s else Inl e)"

section \<open>Submissions\<close>

record Submission =
  sub_request_key :: string
  session_id :: string
  repository :: string
  branch :: string
  base_oid :: string
  expected_oid :: string

definition bad_repository_part :: "string \<Rightarrow> bool" where
  "bad_repository_part p \<longleftrightarrow> p = [] \<or> 100 < length p \<or> starts_with ''.'' p \<or> ends_with ''.'' p
     \<or> \<not> list_all (\<lambda>c. is_ascii_alphanumeric c \<or> c \<in> set ''-_.'') p"

definition check_repository :: "string \<Rightarrow> string + unit" where
  "check_repository r =
     (let parts = split_on (CHR ''/'') r in
      if length parts \<noteq> 2 \<or> list_ex bad_repository_part parts
      then Inl ''repository must be an owner/name GitHub repository'' else Inr ())"

definition bad_branch_part :: "string \<Rightarrow> bool" where
  "bad_branch_part p \<longleftrightarrow> p = [] \<or> starts_with ''.'' p \<or> ends_with ''.'' p \<or> ends_with ''.lock'' p"

definition validate_branch :: "string \<Rightarrow> string + unit" where
  "validate_branch b =
     (if b = [] \<or> 240 < length b \<or> starts_with ''refs/'' b \<or> starts_with ''/'' b \<or> starts_with ''.'' b
         \<or> ends_with ''/'' b \<or> ends_with ''.'' b \<or> contains_str ''..'' b \<or> contains_str ''//'' b
         \<or> contains_str (''@'' @ [CHR 0x7B]) b \<or> ends_with ''.lock'' b
         \<or> list_ex bad_branch_part (split_on (CHR ''/'') b)
         \<or> \<not> list_all (\<lambda>c. is_ascii_alphanumeric c \<or> c \<in> set ''/-_.'') b
      then Inl ''branch contains unsupported characters or ref syntax'' else Inr ())"

definition validate_sha256 :: "string \<Rightarrow> string + unit" where
  "validate_sha256 d =
     (if length d \<noteq> 64 \<or> \<not> list_all is_ascii_hexdigit d then Inl ''expected a 64-character SHA-256 digest'' else Inr ())"

definition validate_oid :: "string \<Rightarrow> bool \<Rightarrow> string + unit" where
  "validate_oid oid zero_allowed =
     (if length oid \<noteq> 40 \<or> \<not> list_all is_ascii_hexdigit oid \<or> (\<not> zero_allowed \<and> oid = ZERO_OID)
      then Inl ''expected a 40-character SHA-1 object ID'' else Inr ())"

definition validate_submission :: "Submission \<Rightarrow> string + unit" where
  "validate_submission sub =
     (if sub_request_key sub = [] \<or> 128 < length (sub_request_key sub) \<or> session_id sub = [] \<or> 256 < length (session_id sub)
      then Inl ''request_key and session_id required (128/256 byte limits)''
      else bind_res (check_repository (repository sub)) (\<lambda>_.
           bind_res (validate_branch (branch sub)) (\<lambda>_.
           bind_res (validate_oid (base_oid sub) False) (\<lambda>_. validate_oid (expected_oid sub) True))))"

definition remote_url :: "string \<Rightarrow> string" where
  "remote_url r = ''https://github.com/'' @ r @ ''.git''"

definition target_ref :: "string \<Rightarrow> string" where
  "target_ref br = ''refs/heads/'' @ br"

section \<open>Credentials and fingerprint\<close>

definition git_secret_ok :: "string \<Rightarrow> bool" where
  "git_secret_ok token \<longleftrightarrow> token \<noteq> [] \<and> \<not> list_ex is_ascii_control token"

definition git_entry :: "EscrowEntry \<Rightarrow> bool" where
  "git_entry e \<longleftrightarrow> list_ex (\<lambda>h. h = ''github.com'') (entry_hosts e)"

definition git_credential :: "net_code \<Rightarrow> crypto_code \<Rightarrow> 'p Settings \<Rightarrow> string + Binding \<times> string" where
  "git_credential nc cc cfg =
     (case List.map_filter (\<lambda>e. case from_entry nc cc cfg e of
              None \<Rightarrow> None
            | Some c \<Rightarrow> map_option (\<lambda>t. (credential_binding c, t)) (real_value (env nc) (parse_session nc) cfg e))
          (filter git_entry (escrow cfg)) of
        [(b, token)] \<Rightarrow> if git_secret_ok token then Inr (b, token) else Inl ''GitHub credential is invalid for Git HTTPS''
      | _ \<Rightarrow> Inl ''configure exactly one GitHub escrow credential for api.github.com and github.com'')"

definition current_git_token :: "net_code \<Rightarrow> crypto_code \<Rightarrow> 'p Settings \<Rightarrow> Binding \<Rightarrow> string option" where
  "current_git_token nc cc cfg b =
     (case current nc cc cfg b of
        None \<Rightarrow> None
      | Some _ \<Rightarrow>
          (case find (\<lambda>e. entry_name e = binding_entry b \<and> git_entry e) (escrow cfg) of
             None \<Rightarrow> None
           | Some e \<Rightarrow>
               (case real_value (env nc) (parse_session nc) cfg e of
                  None \<Rightarrow> None
                | Some token \<Rightarrow> if git_secret_ok token then Some token else None)))"

definition push_parts :: "Submission \<Rightarrow> string \<Rightarrow> Binding \<Rightarrow> string list" where
  "push_parts sub digest b =
     [repository sub, branch sub, base_oid sub, expected_oid sub, digest, binding_entry b, binding_digest b]"

definition push_fingerprint :: "crypto_code \<Rightarrow> Submission \<Rightarrow> string \<Rightarrow> Binding \<Rightarrow> string" where
  "push_fingerprint cc sub digest b = sha256_hex cc (concat (map digest_frame (push_parts sub digest b)))"

section \<open>The header of a bundle\<close>

record BundleHeader =
  header_base :: string
  header_head :: string
  header_reference :: string

fun header_end :: "string \<Rightarrow> nat option" where
  "header_end (a # b # s) = (if a = newline \<and> b = newline then Some 2 else map_option Suc (header_end (b # s)))"
| "header_end _ = None"

definition header_line :: "string \<Rightarrow> string option \<times> (string \<times> string) option \<Rightarrow> string + string option \<times> (string \<times> string) option" where
  "header_line line st =
     (case st of (prerequisite, reference) \<Rightarrow>
        if line = [] then Inr st
        else case strip_prefix ''-'' line of
            Some rest \<Rightarrow>
              (let oid = (case split_once (CHR '' '') rest of None \<Rightarrow> rest | Some (oid, _) \<Rightarrow> oid) in
               bind_res (validate_oid oid False) (\<lambda>_.
                 if prerequisite \<noteq> None then Inl ''bundle must declare exactly one prerequisite''
                 else Inr (Some (to_ascii_lowercase oid), reference)))
          | None \<Rightarrow>
              (case split_once (CHR '' '') line of
                 None \<Rightarrow> Inl ''invalid Git bundle reference''
               | Some (oid, name) \<Rightarrow>
                   bind_res (validate_oid oid False) (\<lambda>_.
                     if reference \<noteq> None then Inl ''bundle must advertise exactly one reference''
                     else Inr (prerequisite, Some (to_ascii_lowercase oid, name)))))"

definition header_of_lines :: "string \<Rightarrow> string list \<Rightarrow> string + BundleHeader" where
  "header_of_lines br ls =
     (case ls of
        [] \<Rightarrow> Inl ''only Git bundle version 2 with SHA-1 object IDs is supported''
      | first # rest \<Rightarrow>
          if first \<noteq> ''# v2 git bundle'' then Inl ''only Git bundle version 2 with SHA-1 object IDs is supported''
          else bind_res (fold_res header_line rest (None, None)) (\<lambda>(prerequisite, reference).
            bind_res (ok_or ''bundle must declare exactly one prerequisite'' prerequisite) (\<lambda>base.
            bind_res (ok_or ''bundle must advertise exactly one reference'' reference) (\<lambda>(head, name).
              if name \<noteq> target_ref br then Inl (''bundle reference must exactly match refs/heads/'' @ br)
              else Inr \<lparr>header_base = base, header_head = head, header_reference = name\<rparr>))))"

definition read_bundle_header :: "string \<Rightarrow> string \<Rightarrow> string + BundleHeader" where
  "read_bundle_header contents br =
     (let bytes = take (64 * 1024 + 1) contents in
      bind_res (ok_or ''Git bundle header exceeds 64 KiB or is incomplete'' (header_end bytes)) (\<lambda>end_index.
      bind_res (from_utf8 ''Git bundle header is not UTF-8'' (take end_index bytes)) (\<lambda>text. header_of_lines br (str_lines text))))"

section \<open>Running Git\<close>

type_synonym ('g, 'a) git_io = "'g \<Rightarrow> (string + 'a) \<times> 'g"

definition ret_io :: "'a \<Rightarrow> ('g, 'a) git_io" where "ret_io x g = (Inr x, g)"
definition lift_io :: "string + 'a \<Rightarrow> ('g, 'a) git_io" where "lift_io r g = (r, g)"

definition bind_io :: "('g, 'a) git_io \<Rightarrow> ('a \<Rightarrow> ('g, 'b) git_io) \<Rightarrow> ('g, 'b) git_io" where
  "bind_io m f g = (case m g of (Inl e, g') \<Rightarrow> (Inl e, g') | (Inr x, g') \<Rightarrow> f x g')"

fun fold_io :: "('a \<Rightarrow> 's \<Rightarrow> ('g, 's) git_io) \<Rightarrow> 'a list \<Rightarrow> 's \<Rightarrow> ('g, 's) git_io" where
  "fold_io f [] s = ret_io s"
| "fold_io f (x # xs) s = bind_io (f x s) (fold_io f xs)"

text \<open>A command in the repository of a job, and what became of the process: \<open>None\<close> is a read that failed.\<close>

record command =
  cmd_repo :: uuid
  cmd_args :: "string list"
  cmd_env :: "(string \<times> string) list"
  cmd_seconds :: nat

datatype process =
    Not_started
  | Wait_failed
  | Timed_out
  | Exited "nat option" bool "string option list" "string option list"

record 'g git_code =
  exec :: "command \<Rightarrow> 'g \<Rightarrow> process \<times> 'g"
  bundle_read :: "uuid \<Rightarrow> 'g \<Rightarrow> string + string"
  bundle_path :: "uuid \<Rightarrow> string"
  make_repository :: "uuid \<Rightarrow> ('g, unit) git_io"
  base64 :: "string \<Rightarrow> string"
  passed_env :: "string \<Rightarrow> string option"
  hash_hex :: "string \<Rightarrow> string"

record GitOutput =
  exit_status :: "nat option"
  stdout :: string
  stderr :: string

definition succeeded :: "GitOutput \<Rightarrow> bool" where
  "succeeded out \<longleftrightarrow> exit_status out = Some 0"

definition output_text :: "GitOutput \<Rightarrow> string" where
  "output_text out =
     (let o1 = from_utf8_lossy (stdout out) in
      str_trim (if stderr out = [] then o1
        else (if o1 = [] then o1 else o1 @ [newline]) @ from_utf8_lossy (stderr out)))"

definition success :: "string \<Rightarrow> GitOutput \<Rightarrow> string + GitOutput" where
  "success action out = (if succeeded out then Inr out else Inl (action @ '' failed: '' @ output_text out))"

definition basic_secret :: "(string \<Rightarrow> string) \<Rightarrow> string \<Rightarrow> string" where
  "basic_secret b64 token = b64 (''x-access-token:'' @ token)"

definition hide :: "(string \<Rightarrow> string) \<Rightarrow> string \<Rightarrow> string \<Rightarrow> string" where
  "hide b64 token s = replace_all (basic_secret b64 token) ''[redacted]'' (replace_all token ''[redacted]'' s)"

definition redacted :: "(string \<Rightarrow> string) \<Rightarrow> string \<Rightarrow> GitOutput \<Rightarrow> string" where
  "redacted b64 token out = (if token = [] then output_text out else hide b64 token (output_text out))"

definition scrub :: "(string \<Rightarrow> string) \<Rightarrow> string \<Rightarrow> GitOutput \<Rightarrow> GitOutput" where
  "scrub b64 token out =
     (if token = [] then out
      else out\<lparr>stdout := hide b64 token (from_utf8_lossy (stdout out)), stderr := hide b64 token (from_utf8_lossy (stderr out))\<rparr>)"

text \<open>The reader of one pipe: it goes on reading after the limit, and fails at the end.\<close>

fun drain_loop :: "nat \<Rightarrow> string \<Rightarrow> bool \<Rightarrow> string option list \<Rightarrow> string + string" where
  "drain_loop limit acc exceeded [] = (if exceeded then Inl ''Git command output exceeds the review limit'' else Inr acc)"
| "drain_loop limit acc exceeded (None # cs) = Inl ''read''"
| "drain_loop limit acc exceeded (Some c # cs) =
     (if length acc + length c \<le> limit then drain_loop limit (acc @ c) exceeded cs
      else drain_loop limit acc True cs)"

definition drain :: "nat \<Rightarrow> string option list \<Rightarrow> string + string" where
  "drain limit cs = drain_loop limit [] False cs"

definition ISOLATION :: "string list" where
  "ISOLATION = [''-c'', ''credential.helper='', ''-c'', ''core.hooksPath=empty-hooks'', ''-c'', ''protocol.allow=never'',
     ''-c'', ''protocol.https.allow=always'', ''-c'', ''protocol.file.allow=always'', ''-c'', ''http.followRedirects=false'',
     ''-c'', ''http.sslVerify=true'']"

definition PASSED :: "string list" where
  "PASSED = [''PATH'', ''SystemRoot'', ''WINDIR'', ''SystemDrive'', ''COMSPEC'', ''TEMP'', ''TMP'']"

definition git_env :: "'g git_code \<Rightarrow> string option \<Rightarrow> (string \<times> string) list" where
  "git_env gc token =
     [(''GIT_CONFIG_NOSYSTEM'', ''1''), (''GIT_CONFIG_GLOBAL'', ''/dev/null''), (''GIT_TERMINAL_PROMPT'', ''0''),
      (''GCM_INTERACTIVE'', ''Never''), (''LC_ALL'', ''C'')]
     @ List.map_filter (\<lambda>k. map_option (Pair k) (passed_env gc k)) PASSED
     @ (case token of
          None \<Rightarrow> []
        | Some tok \<Rightarrow> [(''GIT_CONFIG_COUNT'', ''1''), (''GIT_CONFIG_KEY_0'', ''http.https://github.com/.extraHeader''),
            (''GIT_CONFIG_VALUE_0'', ''Authorization: Basic '' @ basic_secret (base64 gc) tok)])"

definition git :: "'g git_code \<Rightarrow> uuid \<Rightarrow> string list \<Rightarrow> string option \<Rightarrow> nat \<Rightarrow> nat \<Rightarrow> ('g, GitOutput) git_io" where
  "git gc repo args token seconds limit g =
     (case exec gc \<lparr>cmd_repo = repo, cmd_args = ISOLATION @ args, cmd_env = git_env gc token, cmd_seconds = seconds\<rparr> g of
        (Not_started, g') \<Rightarrow> (Inl ''start isolated Git command'', g')
      | (Wait_failed, g') \<Rightarrow> (Inl ''wait'', g')
      | (Timed_out, g') \<Rightarrow> (Inl ''Git command timed out; inspect remote state before retrying'', g')
      | (Exited code written out err, g') \<Rightarrow>
          (if \<not> written then Inl ''join Git stdin writer''
           else bind_res (drain limit out) (\<lambda>o1. bind_res (drain limit err) (\<lambda>e1.
             Inr ((case token of None \<Rightarrow> id | Some tok \<Rightarrow> scrub (base64 gc) tok)
               \<lparr>exit_status = code, stdout = o1, stderr = e1\<rparr>))), g'))"

definition git_ok :: "'g git_code \<Rightarrow> string \<Rightarrow> uuid \<Rightarrow> string list \<Rightarrow> string option \<Rightarrow> nat \<Rightarrow> nat \<Rightarrow> ('g, GitOutput) git_io" where
  "git_ok gc action repo args token seconds limit = bind_io (git gc repo args token seconds limit) (\<lambda>out. lift_io (success action out))"

end
