(* ===== verification/Push_Review.thy ===== *)
theory Push_Review
  imports Push_Git
begin

text \<open>
  The review of a bundle: \<open>prepare_remote\<close> imports it into an empty repository beside the commit it builds on
  and reads off commits, files and patch; \<open>execute_remote\<close> publishes the reviewed head with one push, between
  two observations of the branch.
\<close>

section \<open>Records\<close>

record CommitReview =
  commit_oid :: string
  parents :: "string list"
  author :: string
  email :: string
  authored_at :: string
  subject :: string
  message :: string

record FileReview =
  file_commit :: string
  file_status :: string
  file_path :: string
  old_path :: "string option"

record Review =
  rv_repository :: string
  rv_branch :: string
  rv_expected_oid :: string
  rv_base_oid :: string
  rv_head_oid :: string
  rv_bundle_sha256 :: string
  rv_bundle_bytes :: nat
  rv_commits :: "CommitReview list"
  rv_files :: "FileReview list"
  rv_patch :: string

section \<open>Questions to Git\<close>

definition NOT_UTF8 :: string where "NOT_UTF8 = ''invalid utf-8 sequence''"

definition rev_parse :: "'g git_code \<Rightarrow> uuid \<Rightarrow> string \<Rightarrow> ('g, string) git_io" where
  "rev_parse gc repo name =
     bind_io (git_ok gc ''resolve Git object'' repo [''rev-parse'', ''--verify'', name] None 10 4096) (\<lambda>out.
       lift_io (bind_res (from_utf8 NOT_UTF8 (stdout out)) (\<lambda>text.
         let oid = to_ascii_lowercase (str_trim text) in bind_res (validate_oid oid False) (\<lambda>_. Inr oid))))"

definition rev_type :: "'g git_code \<Rightarrow> uuid \<Rightarrow> string \<Rightarrow> ('g, string) git_io" where
  "rev_type gc repo oid =
     bind_io (git_ok gc ''read Git object type'' repo [''cat-file'', ''-t'', oid] None 10 4096) (\<lambda>out.
       lift_io (bind_res (from_utf8 NOT_UTF8 (stdout out)) (\<lambda>text. Inr (str_trim text))))"

definition is_ancestor :: "'g git_code \<Rightarrow> uuid \<Rightarrow> string \<Rightarrow> string \<Rightarrow> ('g, bool) git_io" where
  "is_ancestor gc repo anc desc =
     bind_io (git gc repo [''merge-base'', ''--is-ancestor'', anc, desc] None 15 4096) (\<lambda>out.
       lift_io (if succeeded out then Inr True
         else if exit_status out = Some 1 then Inr False
         else Inl (''Git could not verify commit ancestry: '' @ output_text out)))"

definition object_name :: "string \<Rightarrow> string + string" where
  "object_name oid = bind_res (validate_oid oid False) (\<lambda>_. Inr (to_ascii_lowercase oid))"

definition all_objects :: "'g git_code \<Rightarrow> uuid \<Rightarrow> ('g, string list) git_io" where
  "all_objects gc repo =
     bind_io (git_ok gc ''enumerate Git objects'' repo [''cat-file'', ''--batch-all-objects'', ''--batch-check=%(objectname)'']
         None 30 MAX_GIT_OUTPUT) (\<lambda>out.
       lift_io (bind_res (from_utf8 NOT_UTF8 (stdout out)) (\<lambda>text. map_res object_name (str_lines text))))"

section \<open>The objects of a publication\<close>

definition listed_object :: "string \<Rightarrow> string + string" where
  "listed_object line =
     bind_res (from_utf8 NOT_UTF8 (case split_once (CHR '' '') line of None \<Rightarrow> line | Some (oid, _) \<Rightarrow> oid)) object_name"

definition measured_object :: "string \<Rightarrow> string + string \<times> nat" where
  "measured_object line =
     (case split_on (CHR '' '') line of
        oid # kind # bytes # _ \<Rightarrow>
          bind_res (ok_or ''invalid digit found in string'' (parse_u64 bytes)) (\<lambda>n. Inr (to_ascii_lowercase oid, n))
      | [oid, kind] \<Rightarrow> Inl ''missing object size''
      | [oid] \<Rightarrow> Inl ''missing object type''
      | [] \<Rightarrow> Inl ''missing object ID'')"

definition count_object :: "string list \<Rightarrow> string list \<Rightarrow> string \<Rightarrow> nat \<times> nat \<Rightarrow> string + nat \<times> nat" where
  "count_object baseline allowed line st =
     (case st of (count, bytes) \<Rightarrow>
        bind_res (measured_object line) (\<lambda>(oid, n).
          if oid \<in> set baseline then Inr st
          else if oid \<notin> set allowed then Inl ''Git bundle contains an object outside the reviewed branch history''
          else if MAX_OBJECTS < count + 1 then Inl ''Git publication contains more than 20000 objects''
          else if MAX_OBJECT_SIZE < n then Inl ''Git publication contains an object larger than 16 MiB''
          else if 2 ^ 64 \<le> bytes + n then Inl ''Git object size overflow''
          else if MAX_OBJECT_BYTES < bytes + n then Inl ''Git publication expands to more than 64 MiB of objects''
          else Inr (count + 1, bytes + n)))"

definition validate_objects :: "'g git_code \<Rightarrow> uuid \<Rightarrow> string \<Rightarrow> string \<Rightarrow> string list \<Rightarrow> ('g, unit) git_io" where
  "validate_objects gc repo base head baseline =
     bind_io (git_ok gc ''validate uploaded Git objects'' repo [''fsck'', ''--strict'', ''--no-reflogs'', head] None 45 MAX_GIT_OUTPUT) (\<lambda>_.
     bind_io (git_ok gc ''enumerate uploaded Git objects'' repo [''rev-list'', ''--objects'', base @ ''..'' @ head] None 30 MAX_GIT_OUTPUT) (\<lambda>objects.
     bind_io (lift_io (map_res listed_object (filter (\<lambda>l. l \<noteq> []) (split_on newline (stdout objects))))) (\<lambda>allowed.
     bind_io (git_ok gc ''measure uploaded Git objects'' repo
         [''cat-file'', ''--batch-all-objects'', ''--batch-check=%(objectname) %(objecttype) %(objectsize)''] None 30 MAX_GIT_OUTPUT) (\<lambda>sizes.
       lift_io (bind_res (from_utf8 NOT_UTF8 (stdout sizes)) (\<lambda>text.
         bind_res (fold_res (count_object baseline allowed) (str_lines text) (0, 0)) (\<lambda>_. Inr ())))))))"

section \<open>Commits\<close>

definition review_text :: "string \<Rightarrow> string \<Rightarrow> bool \<Rightarrow> nat \<Rightarrow> string + string" where
  "review_text label bytes multiline limit =
     (if limit < length bytes then Inl (label @ '' exceeds the review limit'')
      else bind_res (from_utf8 (label @ '' is not UTF-8 and cannot be faithfully reviewed'') bytes) (\<lambda>s.
        let text = trim_end_matches (\<lambda>c. c = CHR 0x0D \<or> c = newline) s in
        if list_ex (\<lambda>c. char_is_control (scalar c) \<and> \<not> (multiline \<and> c \<in> {[newline], [CHR 0x0D], [CHR 0x09]})) (chars text)
        then Inl (label @ '' contains control characters and cannot be faithfully reviewed'')
        else Inr text))"

definition first_line :: "string \<Rightarrow> string" where
  "first_line s = (case str_lines s of [] \<Rightarrow> [] | l # _ \<Rightarrow> l)"

definition commit_of_fields :: "string \<Rightarrow> string list \<Rightarrow> string + CommitReview" where
  "commit_of_fields expected_parent fs =
     (case fs of
        [f0, f1, f2, f3, f4, f5] \<Rightarrow>
          bind_res (review_text ''commit OID'' f0 False 40) (\<lambda>oid.
          bind_res (review_text ''commit parents'' f1 False 200) (\<lambda>ps.
            if split_whitespace ps \<noteq> [expected_parent]
            then Inl ''v1 Git publication requires linear, merge-free commits based directly on the exact prerequisite''
            else
              bind_res (review_text ''commit message'' f5 True (32 * 1024)) (\<lambda>msg.
              bind_res (review_text ''commit author'' f2 False 1000) (\<lambda>name.
              bind_res (review_text ''commit email'' f3 False 1000) (\<lambda>mail.
              bind_res (review_text ''commit date'' f4 False 100) (\<lambda>date.
                Inr \<lparr>commit_oid = oid, parents = split_whitespace ps, author = name, email = mail, authored_at = date,
                     subject = first_line msg, message = msg\<rparr>))))))
      | _ \<Rightarrow> Inl ''Git returned an unexpected commit representation'')"

definition inspect_commit :: "'g git_code \<Rightarrow> uuid \<Rightarrow> string \<Rightarrow> CommitReview list \<times> string \<Rightarrow> ('g, CommitReview list \<times> string) git_io" where
  "inspect_commit gc repo oid st =
     (case st of (result, expected_parent) \<Rightarrow>
        bind_io (lift_io (validate_oid oid False)) (\<lambda>_.
        bind_io (git_ok gc ''inspect commit'' repo [''show'', ''-s'', ''--format=%H%x00%P%x00%an%x00%ae%x00%aI%x00%B'', oid]
            None 10 (64 * 1024)) (\<lambda>out.
          lift_io (bind_res (commit_of_fields expected_parent (split_on (CHR 0x00) (stdout out))) (\<lambda>c.
            Inr (result @ [c], commit_oid c))))))"

definition commits :: "'g git_code \<Rightarrow> uuid \<Rightarrow> string \<Rightarrow> string \<Rightarrow> ('g, CommitReview list) git_io" where
  "commits gc repo base head =
     bind_io (git_ok gc ''enumerate commits'' repo [''rev-list'', ''--reverse'', base @ ''..'' @ head] None 15 (16 * 1024)) (\<lambda>listed.
     bind_io (lift_io (from_utf8 NOT_UTF8 (stdout listed))) (\<lambda>text.
       let oids = str_lines text in
       if oids = []
       then lift_io (Inl (''Git publication has no commits after prerequisite '' @ base
         @ ''; choose an exact ancestor commit strictly before submitted head '' @ head))
       else if MAX_COMMITS < length oids then lift_io (Inl ''Git publication contains more than 100 commits'')
       else bind_io (fold_io (inspect_commit gc repo) oids ([], base)) (\<lambda>(result, _). ret_io result)))"

section \<open>Files and patch\<close>

definition hex_digit :: "nat \<Rightarrow> char" where
  "hex_digit n = ch (if n < 10 then 48 + n else 87 + n)"

definition display_path :: "string \<Rightarrow> string" where
  "display_path bytes =
     (if valid_utf8 bytes \<and> \<not> list_ex (\<lambda>c. char_is_control (scalar c)) (chars bytes) then bytes
      else concat (map (\<lambda>b. [ch 92, CHR ''x'', hex_digit (byte b div 16), hex_digit (byte b mod 16)]) bytes))"

definition renamed :: "string \<Rightarrow> bool" where
  "renamed st \<longleftrightarrow> starts_with ''R'' st \<or> starts_with ''C'' st"

text \<open>The loop over the fields of one commit.\<close>

definition push_file :: "FileReview \<Rightarrow> FileReview list \<Rightarrow> string + FileReview list" where
  "push_file f files =
     (if MAX_FILES < length files + 1 then Inl ''Git publication touches more than 1000 commit/path entries'' else Inr (files @ [f]))"

fun file_fields :: "string \<Rightarrow> string list \<Rightarrow> FileReview list \<Rightarrow> string + FileReview list" where
  "file_fields oid [] files = Inr files"
| "file_fields oid [st] files =
     bind_res (from_utf8 ''invalid Git file status'' st) (\<lambda>_.
       Inl (if renamed st then ''missing renamed source path'' else ''missing changed path''))"
| "file_fields oid [st, p] files =
     bind_res (from_utf8 ''invalid Git file status'' st) (\<lambda>_.
       if renamed st then Inl ''missing changed path''
       else push_file \<lparr>file_commit = oid, file_status = st, file_path = display_path p, old_path = None\<rparr> files)"
| "file_fields oid (st # p # q # rest) files =
     bind_res (from_utf8 ''invalid Git file status'' st) (\<lambda>_.
       if renamed st
       then bind_res (push_file \<lparr>file_commit = oid, file_status = st, file_path = display_path q, old_path = Some (display_path p)\<rparr> files)
              (file_fields oid rest)
       else bind_res (push_file \<lparr>file_commit = oid, file_status = st, file_path = display_path p, old_path = None\<rparr> files)
              (file_fields oid (q # rest)))"

definition commit_files :: "'g git_code \<Rightarrow> uuid \<Rightarrow> CommitReview \<Rightarrow> FileReview list \<Rightarrow> ('g, FileReview list) git_io" where
  "commit_files gc repo c files =
     bind_io (lift_io (ok_or ''commit has no parent'' (case parents c of [] \<Rightarrow> None | p # _ \<Rightarrow> Some p))) (\<lambda>parent.
     bind_io (git_ok gc ''enumerate changed files'' repo
         [''diff'', ''--name-status'', ''-z'', ''--find-renames'', ''--no-ext-diff'', parent, commit_oid c] None 30 MAX_GIT_OUTPUT) (\<lambda>out.
       lift_io (file_fields (commit_oid c) (filter (\<lambda>v. v \<noteq> []) (split_on (CHR 0x00) (stdout out))) files)))"

definition changed_files :: "'g git_code \<Rightarrow> uuid \<Rightarrow> CommitReview list \<Rightarrow> ('g, FileReview list) git_io" where
  "changed_files gc repo cs =
     bind_io (fold_io (commit_files gc repo) cs []) (\<lambda>files.
       lift_io (if files = [] then Inl ''Git publication has no file changes'' else Inr files))"

definition commit_patch :: "'g git_code \<Rightarrow> uuid \<Rightarrow> CommitReview \<Rightarrow> string \<Rightarrow> ('g, string) git_io" where
  "commit_patch gc repo c patch =
     bind_io (lift_io (if MAX_PATCH < length patch then Inl ''Git patch exceeds the 2 MiB review limit'' else Inr (MAX_PATCH - length patch))) (\<lambda>remaining.
     bind_io (git_ok gc ''render Git commit patch'' repo
         [''-c'', ''core.quotePath=true'', ''show'', ''--format=fuller'', ''--binary'', ''--full-index'', ''--find-renames'',
          ''--no-ext-diff'', ''--no-textconv'', ''--no-color'', commit_oid c] None 45 remaining) (\<lambda>out.
       lift_io (bind_res (from_utf8 ''Git patch is not UTF-8; this publication cannot be faithfully reviewed'' (stdout out)) (\<lambda>text.
         let p = patch @ text in Inr (if ends_with [newline] p then p else p @ [newline])))))"

definition diff :: "'g git_code \<Rightarrow> uuid \<Rightarrow> CommitReview list \<Rightarrow> ('g, string) git_io" where
  "diff gc repo cs = fold_io (commit_patch gc repo) cs []"

section \<open>The remote branch\<close>

definition advertised :: "string \<Rightarrow> string \<Rightarrow> string option \<Rightarrow> string + string option" where
  "advertised expected_ref line found =
     (case split_once (CHR 0x09) line of
        None \<Rightarrow> Inl ''invalid ls-remote response''
      | Some (oid, name) \<Rightarrow>
          bind_res (validate_oid oid False) (\<lambda>_.
            if name \<noteq> expected_ref \<or> found \<noteq> None then Inl ''GitHub returned an unexpected branch advertisement''
            else Inr (Some (to_ascii_lowercase oid))))"

definition parse_ls_remote :: "string \<Rightarrow> string \<Rightarrow> string + string option" where
  "parse_ls_remote bytes expected_ref =
     (if bytes = [] then Inr None
      else bind_res (from_utf8 NOT_UTF8 bytes) (\<lambda>text. fold_res (advertised expected_ref) (str_lines text) None))"

definition observe_branch :: "'g git_code \<Rightarrow> string \<Rightarrow> uuid \<Rightarrow> string \<Rightarrow> string \<Rightarrow> string \<Rightarrow> ('g, string option) git_io" where
  "observe_branch gc action repo token remote target =
     bind_io (git_ok gc action repo [''ls-remote'', ''--heads'', remote, target] (Some token) 60 (128 * 1024)) (\<lambda>out.
       lift_io (parse_ls_remote (stdout out) target))"

section \<open>Preparation\<close>

definition HEAD_REF :: string where "HEAD_REF = ''refs/friendzone/head''"
definition BASE_REF :: string where "BASE_REF = ''refs/friendzone/base''"

definition check_expected :: "Submission \<Rightarrow> string option \<Rightarrow> string + unit" where
  "check_expected sub now =
     (if expected_oid sub = ZERO_OID
      then if now \<noteq> None then Inl ''target branch already exists; submit an update with its exact expected OID'' else Inr ()
      else if now \<noteq> Some (expected_oid sub)
      then Inl ''target branch does not match expected_oid; refresh before submitting'' else Inr ())"

definition read_bundle :: "'g git_code \<Rightarrow> uuid \<Rightarrow> ('g, string) git_io" where
  "read_bundle gc repo g = (bundle_read gc repo g, g)"

text \<open>The first half: the prerequisite, fetched from the remote, and the objects that came with it.\<close>

definition fetch_base :: "'g git_code \<Rightarrow> uuid \<Rightarrow> Submission \<Rightarrow> string \<Rightarrow> string \<Rightarrow> BundleHeader \<Rightarrow> ('g, string list) git_io" where
  "fetch_base gc repo sub token remote hdr =
     bind_io (make_repository gc repo) (\<lambda>_.
     bind_io (git_ok gc ''initialize isolated Git repository'' repo
         [''init'', ''--bare'', ''--template='', ''--object-format=sha1'', ''.''] None 15 (128 * 1024)) (\<lambda>_.
     bind_io (observe_branch gc ''read current GitHub branch'' repo token remote (target_ref (branch sub))) (\<lambda>now.
     bind_io (lift_io (check_expected sub now)) (\<lambda>_.
     bind_io (git_ok gc ''fetch exact bundle prerequisite from repository'' repo
         [''-c'', ''transfer.fsckObjects=true'', ''fetch'', ''--depth=1'', ''--no-tags'', remote, header_base hdr @ '':'' @ BASE_REF]
         (Some token) 90 MAX_GIT_OUTPUT) (\<lambda>_.
     bind_io (rev_parse gc repo BASE_REF) (\<lambda>found.
       if found \<noteq> header_base hdr then lift_io (Inl ''bundle prerequisite is not the exact repository commit requested'')
       else bind_io (rev_type gc repo BASE_REF) (\<lambda>kind.
         if kind \<noteq> ''commit'' then lift_io (Inl ''bundle prerequisite is not the exact repository commit requested'')
         else all_objects gc repo)))))))"

text \<open>The second half: the head, imported from the bundle.\<close>

definition import_head :: "'g git_code \<Rightarrow> uuid \<Rightarrow> BundleHeader \<Rightarrow> ('g, string) git_io" where
  "import_head gc repo hdr =
     bind_io (git_ok gc ''verify Git bundle prerequisites'' repo [''bundle'', ''verify'', bundle_path gc repo] None 30 MAX_GIT_OUTPUT) (\<lambda>_.
     bind_io (git_ok gc ''import Git bundle'' repo
         [''-c'', ''transfer.fsckObjects=true'', ''fetch'', ''--no-tags'', bundle_path gc repo, header_reference hdr @ '':'' @ HEAD_REF]
         None 60 MAX_GIT_OUTPUT) (\<lambda>_.
     bind_io (rev_parse gc repo HEAD_REF) (\<lambda>head.
       if head \<noteq> header_head hdr then lift_io (Inl ''imported bundle head does not match its advertised object ID'')
       else bind_io (rev_type gc repo head) (\<lambda>kind.
         if kind \<noteq> ''commit'' then lift_io (Inl ''bundle head must be a commit'')
         else if header_base hdr = head
         then lift_io (Inl (''Git publication has no commits after prerequisite '' @ header_base hdr
                @ ''; choose an exact ancestor commit strictly before the submitted head''))
         else bind_io (is_ancestor gc repo (header_base hdr) head) (\<lambda>yes.
           if \<not> yes then lift_io (Inl ''bundle head must descend from its exact prerequisite commit'')
           else ret_io head)))))"

definition prepare_remote :: "'g git_code \<Rightarrow> uuid \<Rightarrow> Submission \<Rightarrow> string \<Rightarrow> nat \<Rightarrow> string \<Rightarrow> ('g, Review) git_io" where
  "prepare_remote gc repo sub token bytes remote =
     bind_io (read_bundle gc repo) (\<lambda>bundle.
     bind_io (lift_io (read_bundle_header bundle (branch sub))) (\<lambda>hdr.
       if \<not> eq_ignore_ascii_case (base_oid sub) (header_base hdr)
       then lift_io (Inl (''base_oid must exactly match the bundle'' @ [CHR 0x27] @ ''s sole prerequisite OID''))
       else
         bind_io (read_bundle gc repo) (\<lambda>contents.
         bind_io (fetch_base gc repo sub token remote hdr) (\<lambda>baseline.
         bind_io (import_head gc repo hdr) (\<lambda>head.
         bind_io (validate_objects gc repo (header_base hdr) head baseline) (\<lambda>_.
         bind_io (commits gc repo (header_base hdr) head) (\<lambda>cs.
         bind_io (changed_files gc repo cs) (\<lambda>files.
         bind_io (diff gc repo cs) (\<lambda>patch.
           ret_io \<lparr>rv_repository = repository sub, rv_branch = branch sub, rv_expected_oid = to_ascii_lowercase (expected_oid sub),
             rv_base_oid = header_base hdr, rv_head_oid = head, rv_bundle_sha256 = hash_hex gc contents, rv_bundle_bytes = bytes,
             rv_commits = cs, rv_files = files, rv_patch = patch\<rparr>)))))))))"

section \<open>Execution\<close>

definition lease :: "Submission \<Rightarrow> string" where
  "lease sub = ''--force-with-lease='' @ target_ref (branch sub) @ '':''
     @ (if expected_oid sub = ZERO_OID then [] else expected_oid sub)"

definition push_args :: "Submission \<Rightarrow> string \<Rightarrow> string list" where
  "push_args sub remote =
     [''push'', ''--porcelain'', ''--no-verify'', lease sub, remote, HEAD_REF @ '':'' @ target_ref (branch sub)]"

definition execute_remote :: "'g git_code \<Rightarrow> uuid \<Rightarrow> Submission \<Rightarrow> Review option \<Rightarrow> string \<Rightarrow> string \<Rightarrow> ('g, string) git_io" where
  "execute_remote gc repo sub review token remote =
     bind_io (lift_io (ok_or ''approved Git push has no review'' review)) (\<lambda>rv.
     bind_io (read_bundle gc repo) (\<lambda>contents.
       if hash_hex gc contents \<noteq> rv_bundle_sha256 rv then lift_io (Inl ''stored Git bundle digest changed; not sent'')
       else
         bind_io (observe_branch gc ''recheck GitHub branch before publishing'' repo token remote (target_ref (branch sub))) (\<lambda>before.
           if before \<noteq> (if expected_oid sub \<noteq> ZERO_OID then Some (expected_oid sub) else None)
           then lift_io (Inl ''target branch changed after review; not sent'')
           else
             bind_io (git gc repo (push_args sub remote) (Some token) 120 MAX_GIT_OUTPUT) (\<lambda>out.
               let result = redacted (base64 gc) token out in
               if \<not> succeeded out
               then lift_io (Inl (''Git push did not report success; inspect remote before retrying.'' @ [newline] @ result))
               else
                 bind_io (observe_branch gc ''verify published GitHub branch'' repo token remote (target_ref (branch sub))) (\<lambda>observed.
                   if observed \<noteq> Some (rv_head_oid rv)
                   then lift_io (Inl ''GitHub branch did not verify at the reviewed head; inspect before retrying'')
                   else ret_io ((if result = [] then [] else result @ [newline])
                     @ ''Verified refs/heads/'' @ branch sub @ '' at '' @ rv_head_oid rv))))))"

end
