(* ===== verification/Pushes.thy ===== *)
theory Pushes
  imports Push_Review
begin

text \<open>
  \<open>pushes.rs\<close>: durable publications of Git branches. A guest uploads a bundle; a worker derives a review from it;
  the host approves; the worker publishes once. The metadata file is the value \<open>Saved\<close> it encodes, with
  \<open>push_len\<close> the length of its JSON; the bundles are a directory (\<open>art\<close>), by the id of the publication. The
  worker is a machine with a program counter, one step per critical section or run of Git.
\<close>

section \<open>Limits\<close>

definition MAX_JOBS :: nat where "MAX_JOBS = 32"
definition REVIEW_HOURS :: nat where "REVIEW_HOURS = 24 * 3600 * 1000"
definition UNACKNOWLEDGED_RETENTION_HOURS :: nat where "UNACKNOWLEDGED_RETENTION_HOURS = 3600 * 1000"
definition MAX_METADATA :: nat where "MAX_METADATA = 64 * 1024 * 1024"

section \<open>Publications\<close>

record Job =
  push_id :: uuid
  push_container :: string
  push_instance :: uuid
  push_epoch :: uuid
  push_peer :: IpAddr
  push_submission :: Submission
  push_review :: "Review option"
  bundle_sha256 :: string
  bundle_bytes :: nat
  push_print :: string
  push_binding :: Binding
  push_status :: Status
  push_created_at :: instant
  push_updated_at :: instant
  push_expires_at :: instant
  push_outcome :: string
  push_result :: "string option"
  push_acknowledged_at :: "instant option"

definition terminal :: "Job \<Rightarrow> bool" where
  "terminal j \<longleftrightarrow> push_status j \<notin> {Preparing, Pending, Approved, Sending}"

definition set_push :: "clock \<Rightarrow> Status \<Rightarrow> string \<Rightarrow> Job \<Rightarrow> Job" where
  "set_push t st out j = j\<lparr>push_status := st, push_outcome := out, push_updated_at := utc t\<rparr>"

definition automatically_removable :: "instant \<Rightarrow> Job \<Rightarrow> bool" where
  "automatically_removable now j \<longleftrightarrow>
     terminal j \<and> push_status j \<noteq> Unknown
     \<and> (push_acknowledged_at j \<noteq> None \<or> push_updated_at j + UNACKNOWLEDGED_RETENTION_HOURS \<le> now)"

definition push_facts :: "Submission \<Rightarrow> Json" where
  "push_facts sub =
     JObject [(''operation_name'', JString ''Publish Git branch''), (''operation_type'', JString ''git_push''),
       (''fields'', JArray [JString ''git-receive-pack'']), (''repositories'', JArray [JString (repository sub)]),
       (''targets'', JArray [JString (''branch '' @ branch sub)]), (''artifacts'', JArray []), (''more'', JBool False),
       (''operations'', JArray []), (''omitted_operations'', JInt 0)]"

definition push_summary :: "Job \<Rightarrow> Summary" where
  "push_summary j =
     \<lparr>summary_id = push_id j, container = push_container j, summary_method = ''GIT PUSH'',
      summary_url = remote_url (repository (push_submission j)), summary_created_at = push_created_at j,
      expires_at_utc = push_expires_at j, fingerprint = push_print j, body_bytes = bundle_bytes j,
      reason = (if push_status j = Preparing then ''Validating Git bundle before review.''
                else ''Git branch publication requires approval.''),
      status = push_status j, updated_at = push_updated_at j, http_status = None, outcome = Some (push_outcome j),
      asynchronous = True, facts = map_option (\<lambda>_. push_facts (push_submission j)) (push_review j),
      request_key = Some (sub_request_key (push_submission j)), upstream = None, display_binding = None\<rparr>"

definition commit_json :: "CommitReview \<Rightarrow> Json" where
  "commit_json c =
     JObject [(''oid'', JString (commit_oid c)), (''parents'', JArray (map JString (parents c))), (''author'', JString (author c)),
       (''email'', JString (email c)), (''authored_at'', JString (authored_at c)), (''subject'', JString (subject c)),
       (''message'', JString (message c))]"

definition file_json :: "FileReview \<Rightarrow> Json" where
  "file_json f =
     JObject [(''commit_oid'', JString (file_commit f)), (''status'', JString (file_status f)), (''path'', JString (file_path f)),
       (''old_path'', case old_path f of None \<Rightarrow> JNull | Some p \<Rightarrow> JString p)]"

definition review_json :: "Review \<Rightarrow> Json" where
  "review_json r =
     JObject [(''repository'', JString (rv_repository r)), (''branch'', JString (rv_branch r)),
       (''expected_oid'', JString (rv_expected_oid r)), (''base_oid'', JString (rv_base_oid r)), (''head_oid'', JString (rv_head_oid r)),
       (''bundle_sha256'', JString (rv_bundle_sha256 r)), (''bundle_bytes'', JInt (int (rv_bundle_bytes r))),
       (''commits'', JArray (map commit_json (rv_commits r))), (''files'', JArray (map file_json (rv_files r))),
       (''patch'', JString (rv_patch r))]"

definition push_detail :: "Job \<Rightarrow> Detail" where
  "push_detail j =
     (let sub = push_submission j; of_review = (\<lambda>f. case push_review j of None \<Rightarrow> ''(preparing)'' | Some r \<Rightarrow> f r) in
      \<lparr>summary = push_summary j, detail_headers = [],
       detail_body = ''Repository: '' @ repository sub @ [newline] @ ''Target: refs/heads/'' @ branch sub @ [newline]
         @ ''Expected remote OID: '' @ expected_oid sub @ [newline] @ ''Review base OID: '' @ of_review rv_base_oid @ [newline]
         @ ''Head: '' @ of_review rv_head_oid @ [newline] @ ''Bundle SHA-256: '' @ bundle_sha256 j,
       graphql = None, git_push = map_option review_json (push_review j), file_upload = None, graphql_response = None,
       graphql_read = False, comment_permission_supported = False, resolved_target = None, resolution_id = None,
       comment_context = None\<rparr>)"

section \<open>The store\<close>

record Saved =
  saved_version :: nat
  jobs :: "(uuid, Job) alist"

text \<open>What the directory of a publication holds.\<close>

datatype artifact =
    No_root
  | Unsafe_root
  | No_bundle
  | Unsafe_bundle
  | Unreadable nat
  | Bundle string

record Pushes =
  data :: Saved
  stored :: bool
  store_file :: "Saved option"
  push_changes :: nat
  art :: "uuid \<Rightarrow> artifact"

text \<open>Code of other packages, and Git.\<close>

record 'g push_code =
  push_len :: "Saved \<Rightarrow> nat"
  push_net :: net_code
  push_crypto :: crypto_code
  push_git :: "'g git_code"

abbreviation empty_saved :: Saved where
  "empty_saved \<equiv> \<lparr>saved_version = 2, jobs = []\<rparr>"

definition new_pushes :: Pushes where
  "new_pushes = \<lparr>data = empty_saved, stored = False, store_file = None, push_changes = 0, art = (\<lambda>_. No_root)\<rparr>"

text \<open>The end of a transaction: the limit, the file, the published copy.\<close>

definition publish :: "'g push_code \<Rightarrow> io_fault \<Rightarrow> Saved \<Rightarrow> Pushes \<Rightarrow> (string + unit) \<times> Pushes" where
  "publish pc fault next ps =
     (if MAX_METADATA < push_len pc next then (Inl ''Git push metadata exceeds its durable storage limit'', ps)
      else case (if stored ps then atomic_write fault next (store_file ps) else (Inr (), store_file ps)) of
          (Inl e, saved) \<Rightarrow> (Inl e, ps\<lparr>store_file := saved\<rparr>)
        | (Inr _, saved) \<Rightarrow> (Inr (), ps\<lparr>data := next, store_file := saved, push_changes := (push_changes ps + 1) mod 2 ^ 64\<rparr>))"

definition finish_transaction :: "'g push_code \<Rightarrow> io_fault \<Rightarrow> string + 'a \<times> Saved \<Rightarrow> Pushes \<Rightarrow> (string + 'a) \<times> Pushes" where
  "finish_transaction pc fault edited ps =
     (case edited of
        Inl e \<Rightarrow> (Inl e, ps)
      | Inr (r, next) \<Rightarrow> (case publish pc fault next ps of (Inl e, ps') \<Rightarrow> (Inl e, ps') | (Inr _, ps') \<Rightarrow> (Inr r, ps')))"

definition transaction :: "'g push_code \<Rightarrow> io_fault \<Rightarrow> (Saved \<Rightarrow> string + 'a \<times> Saved) \<Rightarrow> Pushes \<Rightarrow> (string + 'a) \<times> Pushes" where
  "transaction pc fault edit ps = finish_transaction pc fault (edit (data ps)) ps"

definition put_push :: "uuid \<Rightarrow> Job \<Rightarrow> Saved \<Rightarrow> Saved" where
  "put_push i j s = s\<lparr>jobs := btree_insert i j (jobs s)\<rparr>"

definition delete_push :: "uuid \<Rightarrow> Saved \<Rightarrow> Saved" where
  "delete_push i s = s\<lparr>jobs := AList.delete i (jobs s)\<rparr>"

section \<open>Loading\<close>

text \<open>The move of a store of version 1 to an archive: which of its steps the file system refuses.\<close>

record archive_faults =
  no_archive_dir :: bool
  no_archive_mode :: bool
  no_metadata_move :: bool
  has_artifacts :: bool
  no_artifacts_move :: bool
  no_rollback :: bool

text \<open>The result, and whether metadata and artifacts were moved.\<close>

definition archive_version_one :: "archive_faults \<Rightarrow> (string + unit) \<times> bool \<times> bool" where
  "archive_version_one f =
     (if no_archive_dir f then (Inl ''create archive; nothing was moved'', False, False)
      else if no_archive_mode f then (Inl ''secure legacy Git push archive'', False, False)
      else if no_metadata_move f then (Inl ''archive obsolete Git push metadata; nothing was moved'', False, False)
      else if has_artifacts f \<and> no_artifacts_move f
      then if no_rollback f then (Inl ''could not archive obsolete Git push artifacts; restoring also failed'', True, False)
           else (Inl ''metadata move was rolled back and startup made no change'', False, False)
      else (Inr (), True, has_artifacts f))"

datatype metadata_read =
    Metadata_missing
  | Metadata_unreadable
  | Metadata_malformed nat
  | Metadata_version nat nat
  | Metadata nat Saved

definition read_metadata :: "archive_faults \<Rightarrow> metadata_read \<Rightarrow> string + Saved \<times> Saved option" where
  "read_metadata af file =
     (let check = (\<lambda>n v result.
        if MAX_METADATA < n then Inl ''Saved Git push history exceeds the 64 MiB limit''
        else if v = 1 then bind_res (fst (archive_version_one af)) (\<lambda>_. Inr (empty_saved, None))
        else if v = 2 then result
        else Inl ''Saved Git push history uses an unsupported format'') in
      case file of
        Metadata_missing \<Rightarrow> Inr (empty_saved, None)
      | Metadata_unreadable \<Rightarrow> Inl ''Could not read saved Git push history''
      | Metadata_malformed n \<Rightarrow>
          Inl (if MAX_METADATA < n then ''Saved Git push history exceeds the 64 MiB limit'' else ''Saved Git push history is unreadable'')
      | Metadata_version n v \<Rightarrow> check n v (Inl ''Saved Git push history is invalid'')
      | Metadata n s \<Rightarrow> check n (saved_version s) (Inr (s, Some s)))"

definition archived :: "metadata_read \<Rightarrow> bool" where
  "archived file = (case file of Metadata_version _ v \<Rightarrow> v = 1 | Metadata _ s \<Rightarrow> saved_version s = 1 | _ \<Rightarrow> False)"

definition bundle_of :: "artifact \<Rightarrow> string + string" where
  "bundle_of a = (case a of Bundle b \<Rightarrow> Inr b | _ \<Rightarrow> Inl ''open'')"

definition check_bundle :: "'g push_code \<Rightarrow> artifact \<Rightarrow> Job \<Rightarrow> string + unit" where
  "check_bundle pc a j =
     (case a of
        No_root \<Rightarrow> Inl ''publication is missing its artifact directory''
      | Unsafe_root \<Rightarrow> Inl ''publication has an unsafe artifact directory''
      | No_bundle \<Rightarrow> Inl ''publication is missing its Git bundle''
      | Unsafe_bundle \<Rightarrow> Inl ''publication has a Git bundle that does not match its metadata''
      | Unreadable n \<Rightarrow>
          if n \<noteq> bundle_bytes j then Inl ''publication has a Git bundle that does not match its metadata''
          else bind_res (validate_sha256 (bundle_sha256 j)) (\<lambda>_. Inl ''could not verify the Git bundle of the publication'')
      | Bundle b \<Rightarrow>
          if length b \<noteq> bundle_bytes j then Inl ''publication has a Git bundle that does not match its metadata''
          else bind_res (validate_sha256 (bundle_sha256 j)) (\<lambda>_.
            let digest = sha256_hex (push_crypto pc) b in
            if digest \<noteq> bundle_sha256 j \<or> push_fingerprint (push_crypto pc) (push_submission j) digest (push_binding j) \<noteq> push_print j
            then Inl ''publication failed its integrity check'' else Inr ()))"

definition check_review :: "Job \<Rightarrow> string + unit" where
  "check_review j =
     (case push_review j of
        None \<Rightarrow> if push_status j \<in> {Preparing, Blocked, Cancelled} then Inr () else Inl ''publication is missing its derived review''
      | Some r \<Rightarrow>
          if rv_repository r \<noteq> repository (push_submission j) \<or> rv_branch r \<noteq> branch (push_submission j)
             \<or> \<not> eq_ignore_ascii_case (base_oid (push_submission j)) (rv_base_oid r)
             \<or> rv_expected_oid r \<noteq> to_ascii_lowercase (expected_oid (push_submission j))
             \<or> rv_bundle_sha256 r \<noteq> bundle_sha256 j \<or> rv_bundle_bytes r \<noteq> bundle_bytes j
          then Inl ''the review of the publication does not match its request'' else Inr ())"

definition check_push :: "'g push_code \<Rightarrow> (uuid \<Rightarrow> artifact) \<Rightarrow> uuid \<times> Job \<Rightarrow> nat \<Rightarrow> string + nat" where
  "check_push pc disk ij bytes =
     (case ij of (i, j) \<Rightarrow>
        if push_id j \<noteq> i then Inl ''publication has a mismatched ID''
        else bind_res (validate_submission (push_submission j)) (\<lambda>_.
          if bundle_bytes j = 0 \<or> MAX_BUNDLE < bundle_bytes j then Inl ''publication has an invalid bundle size''
          else if 2 ^ 64 \<le> bytes + bundle_bytes j then Inl ''saved bundle sizes overflow''
          else if MAX_STORAGE < bytes + bundle_bytes j then Inl ''saved bundles exceed the storage limit''
          else bind_res (check_bundle pc (disk i) j) (\<lambda>_.
               bind_res (check_review j) (\<lambda>_. Inr (bytes + bundle_bytes j)))))"

definition check_saved :: "'g push_code \<Rightarrow> (uuid \<Rightarrow> artifact) \<Rightarrow> Saved \<Rightarrow> string + unit" where
  "check_saved pc disk s =
     (if saved_version s \<noteq> 2 then Inl ''unexpected format version''
      else if MAX_JOBS < length (jobs s) then Inl ''more than 32 saved publications''
      else bind_res (fold_res (check_push pc disk) (jobs s) 0) (\<lambda>_. Inr ()))"

definition settle :: "clock \<Rightarrow> Job \<Rightarrow> Job" where
  "settle t j =
     (case push_status j of
        Sending \<Rightarrow> set_push t Unknown ''Broker restarted during Git push. Not retried; inspect the remote branch.'' j
      | Preparing \<Rightarrow> set_push t Cancelled ''Broker restarted before Git push. Not sent; submit a new bundle if still needed.'' j
      | Pending \<Rightarrow> set_push t Cancelled ''Broker restarted before Git push. Not sent; submit a new bundle if still needed.'' j
      | Approved \<Rightarrow> set_push t Cancelled ''Broker restarted before Git push. Not sent; submit a new bundle if still needed.'' j
      | _ \<Rightarrow> j)"

text \<open>The directories that belong to no publication are removed, as far as the file system lets them.\<close>

definition remove_orphans :: "(uuid \<Rightarrow> bool) \<Rightarrow> Pushes \<Rightarrow> Pushes" where
  "remove_orphans removable ps =
     (if \<not> stored ps then ps
      else ps\<lparr>art := (\<lambda>i. if map_of (jobs (data ps)) i = None \<and> removable i then No_root else art ps i)\<rparr>)"

definition load_pushes :: "'g push_code \<Rightarrow> clock \<Rightarrow> archive_faults \<Rightarrow> bool \<Rightarrow> io_fault \<Rightarrow> (uuid \<Rightarrow> bool) \<Rightarrow> metadata_read \<Rightarrow> (uuid \<Rightarrow> artifact)
    \<Rightarrow> string + Pushes" where
  "load_pushes pc t af dir_ok fault removable file disk0 =
     bind_res (read_metadata af file) (\<lambda>(s, old).
       let disk = (if archived file \<and> has_artifacts af then (\<lambda>_. No_root) else disk0) in
       if \<not> dir_ok then Inl ''create Git push artifact directory''
       else bind_res (check_saved pc disk s) (\<lambda>_.
         case transaction pc fault (\<lambda>next. Inr ((), next))
                \<lparr>data = s\<lparr>jobs := map (\<lambda>(i, j). (i, settle t j)) (jobs s)\<rparr>, stored = True, store_file = old, push_changes = 0,
                 art = disk\<rparr> of
           (Inl e, _) \<Rightarrow> Inl e
         | (Inr _, ps) \<Rightarrow> Inr (remove_orphans removable ps)))"

section \<open>Admission\<close>

definition older :: "Job \<Rightarrow> Job \<Rightarrow> bool" where
  "older a b \<longleftrightarrow> push_updated_at a < push_updated_at b \<or> push_updated_at a = push_updated_at b \<and> push_id a < push_id b"

fun oldest :: "Job list \<Rightarrow> Job option" where
  "oldest [] = None"
| "oldest (j # js) = (case oldest js of None \<Rightarrow> Some j | Some k \<Rightarrow> Some (if older k j then k else j))"

definition push_fits :: "nat \<Rightarrow> Saved \<Rightarrow> bool" where
  "push_fits incoming s \<longleftrightarrow>
     length (jobs s) \<le> MAX_JOBS \<and> min (sum_list (map (bundle_bytes \<circ> snd) (jobs s)) + incoming) (2 ^ 64 - 1) \<le> MAX_STORAGE"

text \<open>The loop removes the candidate by its own id; \<open>None\<close> would be a loop that never returns.\<close>

partial_function (option) prune_for_admission :: "instant \<Rightarrow> nat \<Rightarrow> Saved \<Rightarrow> uuid list \<Rightarrow> (string + uuid list \<times> Saved) option" where
  "prune_for_admission now incoming s removed =
     (if push_fits incoming s then Some (Inr (removed, s))
      else (case oldest (filter (automatically_removable now) (map snd (jobs s))) of
             None \<Rightarrow> Some (Inl ''Git push capacity is occupied by active, uncertain, or recent results; wait for completion delivery or explicitly remove a result'')
           | Some j \<Rightarrow> prune_for_admission now incoming (delete_push (push_id j) s) (removed @ [push_id j])))"

declare prune_for_admission.simps [code]

record guest_push =
  gp_id :: uuid
  gp_request_key :: string
  gp_session_id :: string
  gp_status :: Status
  gp_created_at :: instant
  gp_updated_at :: instant
  gp_outcome :: string
  gp_terminal :: bool
  gp_acknowledged :: bool
  gp_result :: "string option"
  gp_repository :: string
  gp_branch :: string
  gp_head_oid :: "string option"

definition guest_value :: "Job \<Rightarrow> bool \<Rightarrow> guest_push" where
  "guest_value j include_result =
     \<lparr>gp_id = push_id j, gp_request_key = sub_request_key (push_submission j), gp_session_id = session_id (push_submission j),
      gp_status = push_status j, gp_created_at = push_created_at j, gp_updated_at = push_updated_at j, gp_outcome = push_outcome j,
      gp_terminal = terminal j, gp_acknowledged = (push_acknowledged_at j \<noteq> None),
      gp_result = (if include_result then push_result j else None), gp_repository = repository (push_submission j),
      gp_branch = branch (push_submission j), gp_head_oid = map_option rv_head_oid (push_review j)\<rparr>"

definition active_pushes :: "Saved \<Rightarrow> Job list" where
  "active_pushes s = filter (\<lambda>j. \<not> terminal j) (map snd (jobs s))"

definition admit_push :: "instant \<Rightarrow> Job \<Rightarrow> Saved \<Rightarrow> (string + (guest_push \<times> uuid list) \<times> Saved) option" where
  "admit_push now j s =
     (if 8 \<le> length (active_pushes s)
      then Some (Inl ''8 Git publications are still active; wait for them to finish or cancel pending publications'')
      else if 4 \<le> length (filter (\<lambda>k. push_container k = push_container j) (active_pushes s))
      then Some (Inl ''this guest already has 4 active Git publications; wait for them to finish or cancel pending publications'')
      else map_option (\<lambda>r. bind_res r (\<lambda>(removed, next). Inr ((guest_value j False, removed), next)))
             (prune_for_admission now 0 (put_push (push_id j) j s) []))"

section \<open>Submission\<close>

record UploadedBundle =
  up_submission :: Submission
  up_staged :: "string option"
  up_bytes :: nat

text \<open>The refusals of the file system while a bundle is filed, and which old directories it lets go.\<close>

record filing_faults =
  no_directory :: bool
  no_rename :: bool
  removable :: "uuid \<Rightarrow> bool"

definition new_push :: "clock \<Rightarrow> uuid \<Rightarrow> string \<Rightarrow> IpAddr \<Rightarrow> uuid \<times> uuid \<Rightarrow> Submission \<Rightarrow> string \<Rightarrow> nat \<Rightarrow> string \<Rightarrow> Binding \<Rightarrow> Job" where
  "new_push t i c peer ident sub digest bytes print b =
     \<lparr>push_id = i, push_container = c, push_instance = fst ident, push_epoch = snd ident, push_peer = peer, push_submission = sub,
      push_review = None, bundle_sha256 = digest, bundle_bytes = bytes, push_print = print, push_binding = b, push_status = Preparing,
      push_created_at = utc t, push_updated_at = utc t, push_expires_at = utc t + REVIEW_HOURS,
      push_outcome = ''Validating bundle and deriving review'', push_result = None, push_acknowledged_at = None\<rparr>"

text \<open>
  Up to the transaction: identity, policy file, credential, digest. Operations of other tasks (\<open>gap\<close>) may fall
  between the identity and the rest.
\<close>

definition prepare_push :: "'g push_code \<Rightarrow> clock \<Rightarrow> io_fault \<Rightarrow> 'p Settings \<Rightarrow> state_op list \<Rightarrow> string \<Rightarrow> IpAddr \<Rightarrow> UploadedBundle \<Rightarrow> AppState
    \<Rightarrow> (string + Job \<times> string) \<times> AppState" where
  "prepare_push pc t fault cfg gap c peer up app =
     (case validate_submission (up_submission up) of
        Inl e \<Rightarrow> (Inl e, app)
      | Inr _ \<Rightarrow>
          if up_bytes up = 0 \<or> MAX_BUNDLE < up_bytes up then (Inl ''Git bundle must be a nonempty file up to 32 MiB'', app)
          else case async_identity app c peer of
              None \<Rightarrow> (Inl ''guest is not authorized'', app)
            | Some ident \<Rightarrow>
                (case persist_guest_identity t fault (run gap app) of
                   (Inl e, app1) \<Rightarrow> (Inl e, app1)
                 | (Inr _, app1) \<Rightarrow>
                     (case git_credential (push_net pc) (push_crypto pc) cfg of
                        Inl e \<Rightarrow> (Inl e, app1)
                      | Inr (b, _) \<Rightarrow>
                          (case up_staged up of
                             None \<Rightarrow> (Inl ''hash uploaded Git bundle'', app1)
                           | Some contents \<Rightarrow>
                               (let digest = sha256_hex (push_crypto pc) contents; i = uuid_supply app1 in
                                (Inr (new_push t i c peer ident (up_submission up) digest (up_bytes up)
                                   (push_fingerprint (push_crypto pc) (up_submission up) digest b) b, contents),
                                 app1\<lparr>uuid_supply := i + 1\<rparr>))))))"

definition drop_roots :: "(uuid \<Rightarrow> bool) \<Rightarrow> uuid list \<Rightarrow> Pushes \<Rightarrow> Pushes" where
  "drop_roots ok is ps = ps\<lparr>art := (\<lambda>i. if i \<in> set is \<and> ok i then No_root else art ps i)\<rparr>"

definition submit :: "'g push_code \<Rightarrow> clock \<Rightarrow> io_fault \<Rightarrow> io_fault \<Rightarrow> filing_faults \<Rightarrow> 'p Settings \<Rightarrow> state_op list \<Rightarrow> string \<Rightarrow> IpAddr \<Rightarrow> UploadedBundle
    \<Rightarrow> AppState \<times> Pushes \<Rightarrow> ((string + guest_push) \<times> AppState \<times> Pushes) option" where
  "submit pc t policy_fault fault ff cfg gap c peer up st =
     (case st of (app, ps) \<Rightarrow>
        case prepare_push pc t policy_fault cfg gap c peer up app of
          (Inl e, app') \<Rightarrow> Some (Inl e, app', ps)
        | (Inr (j, contents), app') \<Rightarrow>
            if \<not> stored ps then Some (Inl ''Git push storage is unavailable'', app', ps)
            else if no_directory ff then Some (Inl ''create'', app', ps)
            else if no_rename ff then Some (Inl ''publish uploaded Git bundle'', app', drop_roots (removable ff) [push_id j] (ps\<lparr>art := (art ps)(push_id j := No_bundle)\<rparr>))
            else
              (let ps1 = ps\<lparr>art := (art ps)(push_id j := Bundle contents)\<rparr> in
               map_option (\<lambda>r. case finish_transaction pc fault r ps1 of
                   (Inr (v, removed), ps2) \<Rightarrow> (Inr v, app', drop_roots (removable ff) removed ps2)
                 | (Inl e, ps2) \<Rightarrow> (Inl e, app', drop_roots (removable ff) [push_id j] ps2))
                 (admit_push (utc t) j (data ps1))))"

section \<open>Operations of the guest\<close>

definition owned_by :: "string \<Rightarrow> uuid \<Rightarrow> string \<Rightarrow> Job \<Rightarrow> bool" where
  "owned_by c inst session j \<longleftrightarrow>
     push_container j = c \<and> push_instance j = inst \<and> session_id (push_submission j) = session"

definition owned_job :: "string \<Rightarrow> uuid \<Rightarrow> uuid \<Rightarrow> string \<Rightarrow> Saved \<Rightarrow> string + Job" where
  "owned_job c inst i session s =
     (case map_of (jobs s) i of
        None \<Rightarrow> Inl ''job not found''
      | Some j \<Rightarrow> if owned_by c inst session j then Inr j else Inl ''job not found'')"

definition list_pushes :: "string \<Rightarrow> uuid \<Rightarrow> string \<Rightarrow> Pushes \<Rightarrow> guest_push list" where
  "list_pushes c inst session ps =
     map (\<lambda>j. guest_value j False) (filter (owned_by c inst session) (map snd (jobs (data ps))))"

definition get_push :: "string \<Rightarrow> uuid \<Rightarrow> uuid \<Rightarrow> string \<Rightarrow> Pushes \<Rightarrow> string + guest_push" where
  "get_push c inst i session ps = bind_res (owned_job c inst i session (data ps)) (\<lambda>j. Inr (guest_value j True))"

definition waiting :: "Status \<Rightarrow> bool" where
  "waiting st \<longleftrightarrow> st \<in> {Preparing, Pending, Approved}"

definition cancel :: "'g push_code \<Rightarrow> clock \<Rightarrow> io_fault \<Rightarrow> string \<Rightarrow> uuid \<Rightarrow> uuid \<Rightarrow> string \<Rightarrow> Pushes \<Rightarrow> (string + unit) \<times> Pushes" where
  "cancel pc t fault c inst i session =
     transaction pc fault (\<lambda>s. bind_res (owned_job c inst i session s) (\<lambda>j.
       if \<not> waiting (push_status j) then Inl ''cannot cancel job after execution starts''
       else Inr ((), put_push i (set_push t Cancelled ''Cancelled by submitting guest. Not sent.'' j) s)))"

definition acknowledge :: "'g push_code \<Rightarrow> clock \<Rightarrow> io_fault \<Rightarrow> string \<Rightarrow> uuid \<Rightarrow> uuid \<Rightarrow> string \<Rightarrow> Pushes \<Rightarrow> (string + unit) \<times> Pushes" where
  "acknowledge pc t fault c inst i session =
     transaction pc fault (\<lambda>s. bind_res (owned_job c inst i session s) (\<lambda>j.
       if \<not> terminal j \<or> push_status j = Unknown then Inl ''only known terminal results can be acknowledged''
       else Inr ((), put_push i (case push_acknowledged_at j of None \<Rightarrow> j\<lparr>push_acknowledged_at := Some (utc t)\<rparr> | Some _ \<Rightarrow> j) s)))"

definition delete_edit :: "string \<Rightarrow> uuid \<Rightarrow> uuid \<Rightarrow> string \<Rightarrow> Saved \<Rightarrow> string + unit \<times> Saved" where
  "delete_edit c inst i session s =
     bind_res (owned_job c inst i session s) (\<lambda>j.
       if \<not> terminal j then Inl ''cancel or finish job before removing it'' else Inr ((), delete_push i s))"

definition delete :: "'g push_code \<Rightarrow> io_fault \<Rightarrow> (uuid \<Rightarrow> bool) \<Rightarrow> string \<Rightarrow> uuid \<Rightarrow> uuid \<Rightarrow> string \<Rightarrow> Pushes \<Rightarrow> (string + unit) \<times> Pushes" where
  "delete pc fault ok c inst i session ps =
     (case transaction pc fault (delete_edit c inst i session) ps of
        (Inl e, ps') \<Rightarrow> (Inl e, ps')
      | (Inr _, ps') \<Rightarrow>
          if stored ps' \<and> art ps' i \<noteq> No_root \<and> \<not> ok i then (Inl ''remove Git push artifact'', ps')
          else (Inr (), if stored ps' then drop_roots ok [i] ps' else ps'))"

section \<open>Operations of the host\<close>

definition contains_push :: "uuid \<Rightarrow> Pushes \<Rightarrow> bool" where
  "contains_push i ps \<longleftrightarrow> map_of (jobs (data ps)) i \<noteq> None"

definition inspect_push :: "uuid \<Rightarrow> Pushes \<Rightarrow> Detail option" where
  "inspect_push i ps = map_option push_detail (map_of (jobs (data ps)) i)"

definition summaries :: "Pushes \<Rightarrow> Summary list \<times> Summary list" where
  "summaries ps = partition (\<lambda>s. status s \<in> {Preparing, Pending}) (map (push_summary \<circ> snd) (jobs (data ps)))"

definition decide_push :: "'g push_code \<Rightarrow> clock \<Rightarrow> io_fault \<Rightarrow> uuid \<Rightarrow> string \<Rightarrow> Decision_kind \<Rightarrow> Pushes \<Rightarrow> (string + unit) \<times> Pushes" where
  "decide_push pc t fault i fp d =
     transaction pc fault (\<lambda>s.
       case map_of (jobs s) i of
         None \<Rightarrow> Inl ''job not found''
       | Some j \<Rightarrow>
           if push_status j \<noteq> Pending \<or> push_print j \<noteq> fp \<or> push_expires_at j \<le> utc t
           then Inl ''job no longer pending or fingerprint changed''
           else Inr ((), put_push i
             (case d of
                Approve \<Rightarrow> set_push t Approved ''Approved; queued for Git push'' j
              | Deny \<Rightarrow> set_push t Denied ''Denied by host. Not sent.'' j) s))"

section \<open>The worker\<close>

text \<open>
  The points of \<open>tick_remote\<close> between which other tasks run, with the publications of the snapshot that are
  left. \<open>Stale\<close>: expired or no longer the guest's; \<open>To_prepare\<close>, \<open>To_push\<close>: to be checked for their credential;
  \<open>Unbound\<close>: without one, in the status it had; \<open>Importing\<close>: Git works on the bundle; \<open>Imported\<close>: with its result;
  \<open>Changed\<close>: the guest changed meanwhile; \<open>Ready\<close>: to be admitted; \<open>Publishing\<close>: about to push; \<open>Published\<close>: with the result.
\<close>

datatype worker =
    Idle
  | Loop "Job list"
  | Stale Job "Job list"
  | To_prepare Job "Job list"
  | To_push Job "Job list"
  | Unbound Job Status "Job list"
  | Importing Job string "Job list"
  | Imported Job "string + Review" "Job list"
  | Changed Job "Job list"
  | Ready Job string "Job list"
  | Publishing Job string "Job list"
  | Published Job "string + string" "Job list"

record 'p worker_env =
  at :: clock
  write_fault :: io_fault
  settings_now :: "'p Settings"

definition tick_start :: "Pushes \<Rightarrow> worker" where
  "tick_start ps = Loop (filter (\<lambda>j. waiting (push_status j)) (map snd (jobs (data ps))))"

definition tick_check :: "clock \<Rightarrow> AppState \<Rightarrow> Job \<Rightarrow> Job list \<Rightarrow> worker" where
  "tick_check t app j rest =
     (if push_expires_at j \<le> utc t \<or> async_identity app (push_container j) (push_peer j) \<noteq> Some (push_instance j, push_epoch j)
      then Stale j rest
      else if push_status j = Preparing then To_prepare j rest
      else if push_status j \<noteq> Approved then Loop rest
      else To_push j rest)"

definition next_tick :: "(string + 'a) \<times> Pushes \<Rightarrow> worker \<Rightarrow> worker \<times> Pushes" where
  "next_tick r w = (case r of (Inl _, ps) \<Rightarrow> (Idle, ps) | (Inr _, ps) \<Rightarrow> (w, ps))"

text \<open>An edit of a publication that still is in a given status.\<close>

definition if_still :: "(Status \<Rightarrow> bool) \<Rightarrow> (Job \<Rightarrow> Job) \<Rightarrow> uuid \<Rightarrow> Saved \<Rightarrow> string + unit \<times> Saved" where
  "if_still P f i s =
     (case map_of (jobs s) i of
        None \<Rightarrow> Inr ((), s)
      | Some k \<Rightarrow> if P (push_status k) then Inr ((), put_push i (f k) s) else Inr ((), s))"

definition tick_expire :: "'g push_code \<Rightarrow> clock \<Rightarrow> io_fault \<Rightarrow> Job \<Rightarrow> Pushes \<Rightarrow> (string + unit) \<times> Pushes" where
  "tick_expire pc t fault j =
     transaction pc fault (if_still waiting (\<lambda>k.
       if push_expires_at k \<le> utc t then set_push t Expired ''Review expired after 24 hours. Not sent.'' k
       else set_push t Cancelled ''Guest permissions changed. Not sent.'' k) (push_id j))"

definition tick_unbound :: "'g push_code \<Rightarrow> clock \<Rightarrow> io_fault \<Rightarrow> Job \<Rightarrow> Status \<Rightarrow> Pushes \<Rightarrow> (string + unit) \<times> Pushes" where
  "tick_unbound pc t fault j st =
     transaction pc fault (if_still (\<lambda>s. s = st) (set_push t Blocked ''GitHub credential changed. Not sent.'') (push_id j))"

definition tick_changed :: "'g push_code \<Rightarrow> clock \<Rightarrow> io_fault \<Rightarrow> Job \<Rightarrow> Pushes \<Rightarrow> (string + unit) \<times> Pushes" where
  "tick_changed pc t fault j =
     transaction pc fault (if_still (\<lambda>s. s = Preparing)
       (set_push t Cancelled ''Guest permissions changed during bundle validation. Not sent.'') (push_id j))"

definition take_review :: "clock \<Rightarrow> AppState \<Rightarrow> string + Review \<Rightarrow> Job \<Rightarrow> Job" where
  "take_review t app prepared k =
     (if push_expires_at k \<le> utc t then set_push t Expired ''Review expired after 24 hours. Not sent.'' k
      else case prepared of
          Inl e \<Rightarrow> set_push t Blocked (''Bundle rejected: '' @ e) k
        | Inr rv \<Rightarrow>
            if rv_bundle_sha256 rv \<noteq> bundle_sha256 k then set_push t Blocked ''Stored Git bundle digest changed. Not sent.'' k
            else if allows_all (github_policy app)
            then set_push t Approved ''GitHub allow-all policy; queued for Git push'' (k\<lparr>push_review := Some rv\<rparr>)
            else set_push t Pending ''Awaiting host approval'' (k\<lparr>push_review := Some rv\<rparr>))"

definition under_identity :: "AppState \<Rightarrow> Job \<Rightarrow> (string + bool) \<times> Pushes \<Rightarrow> Pushes \<Rightarrow> (string + bool) \<times> Pushes" where
  "under_identity app j r ps =
     (case with_async_identity app (push_container j) (push_peer j) (push_instance j) (push_epoch j) (False, ps)
             (\<lambda>_. map_sum id (\<lambda>b. (b, snd r)) (fst r)) of
        Inl e \<Rightarrow> (Inl e, snd r) | Inr (b, ps') \<Rightarrow> (Inr b, ps'))"

definition review_edit :: "clock \<Rightarrow> AppState \<Rightarrow> string + Review \<Rightarrow> uuid \<Rightarrow> Saved \<Rightarrow> string + bool \<times> Saved" where
  "review_edit t app prepared i s =
     (case map_of (jobs s) i of
        None \<Rightarrow> Inl ''Git push job disappeared''
      | Some k \<Rightarrow> Inr (True, if push_status k \<noteq> Preparing then s else put_push i (take_review t app prepared k) s))"

definition tick_prepared :: "'g push_code \<Rightarrow> clock \<Rightarrow> io_fault \<Rightarrow> AppState \<Rightarrow> Job \<Rightarrow> string + Review \<Rightarrow> Pushes \<Rightarrow> (string + bool) \<times> Pushes" where
  "tick_prepared pc t fault app j prepared ps =
     under_identity app j (transaction pc fault (review_edit t app prepared (push_id j)) ps) ps"

definition admit_edit :: "clock \<Rightarrow> uuid \<Rightarrow> Saved \<Rightarrow> string + bool \<times> Saved" where
  "admit_edit t i s =
     (case map_of (jobs s) i of
        None \<Rightarrow> Inr (False, s)
      | Some k \<Rightarrow>
          if push_status k \<noteq> Approved \<or> push_expires_at k \<le> utc t then Inr (False, s)
          else Inr (True, put_push i (set_push t Sending ''Publishing branch to GitHub'' k) s))"

definition tick_admit :: "'g push_code \<Rightarrow> clock \<Rightarrow> io_fault \<Rightarrow> AppState \<Rightarrow> Job \<Rightarrow> Pushes \<Rightarrow> (string + bool) \<times> Pushes" where
  "tick_admit pc t fault app j ps = under_identity app j (transaction pc fault (admit_edit t (push_id j)) ps) ps"

text \<open>\<open>expect\<close> of the review: the model has no text where the code would stop.\<close>

definition record_edit :: "clock \<Rightarrow> string + string \<Rightarrow> uuid \<Rightarrow> Saved \<Rightarrow> string + unit \<times> Saved" where
  "record_edit t result i s =
     (case map_of (jobs s) i of
        None \<Rightarrow> Inl ''Git push job disappeared''
      | Some k \<Rightarrow> Inr ((), put_push i
          (case result of
             Inr out \<Rightarrow>
               (set_push t ResponseReceived
                 (''Published '' @ branch (push_submission k) @ '' at '' @ (case push_review k of None \<Rightarrow> [] | Some r \<Rightarrow> rv_head_oid r)) k)
               \<lparr>push_result := Some out\<rparr>
           | Inl e \<Rightarrow>
               (set_push t Unknown ''Git push did not produce a verified result. Inspect the remote branch before retrying.'' k)
               \<lparr>push_result := Some e\<rparr>) s))"

definition tick_record :: "'g push_code \<Rightarrow> clock \<Rightarrow> io_fault \<Rightarrow> string + string \<Rightarrow> Job \<Rightarrow> Pushes \<Rightarrow> (string + unit) \<times> Pushes" where
  "tick_record pc t fault result j = transaction pc fault (record_edit t result (push_id j))"

text \<open>Git on the directory as it is now.\<close>

definition git_now :: "'g push_code \<Rightarrow> Pushes \<Rightarrow> 'g git_code" where
  "git_now pc ps = (push_git pc)\<lparr>bundle_read := (\<lambda>i _. bundle_of (art ps i)), hash_hex := sha256_hex (push_crypto pc)\<rparr>"

definition token_now :: "'g push_code \<Rightarrow> 'p worker_env \<Rightarrow> Job \<Rightarrow> string option" where
  "token_now pc e j = current_git_token (push_net pc) (push_crypto pc) (settings_now e) (push_binding j)"

definition worker_step :: "'g push_code \<Rightarrow> 'p worker_env \<Rightarrow> AppState \<Rightarrow> worker \<Rightarrow> 'g \<Rightarrow> Pushes \<Rightarrow> (worker \<times> Pushes) \<times> 'g" where
  "worker_step pc e app w g ps =
     (case w of
        Idle \<Rightarrow> ((tick_start ps, ps), g)
      | Loop [] \<Rightarrow> ((Idle, ps), g)
      | Loop (j # rest) \<Rightarrow> ((tick_check (at e) app j rest, ps), g)
      | Stale j rest \<Rightarrow> (next_tick (tick_expire pc (at e) (write_fault e) j ps) (Loop rest), g)
      | To_prepare j rest \<Rightarrow>
          ((case token_now pc e j of
              None \<Rightarrow> Unbound j Preparing rest
            | Some token \<Rightarrow> if stored ps then Importing j token rest else Idle, ps), g)
      | Unbound j st rest \<Rightarrow> (next_tick (tick_unbound pc (at e) (write_fault e) j st ps) (Loop rest), g)
      | Importing j token rest \<Rightarrow>
          (case prepare_remote (git_now pc ps) (push_id j) (push_submission j) token (bundle_bytes j)
                  (remote_url (repository (push_submission j))) g of
             (r, g') \<Rightarrow> ((Imported j r rest, ps), g'))
      | Imported j r rest \<Rightarrow>
          ((case tick_prepared pc (at e) (write_fault e) app j r ps of
              (Inl _, ps') \<Rightarrow> (Idle, ps')
            | (Inr b, ps') \<Rightarrow> (if b then Loop rest else Changed j rest, ps')), g)
      | Changed j rest \<Rightarrow> (next_tick (tick_changed pc (at e) (write_fault e) j ps) (Loop rest), g)
      | To_push j rest \<Rightarrow>
          ((case token_now pc e j of None \<Rightarrow> Unbound j Approved rest | Some token \<Rightarrow> Ready j token rest, ps), g)
      | Ready j token rest \<Rightarrow>
          ((case tick_admit pc (at e) (write_fault e) app j ps of
              (Inl _, ps') \<Rightarrow> (Idle, ps')
            | (Inr b, ps') \<Rightarrow> (if b then if stored ps' then Publishing j token rest else Idle else Loop rest, ps')), g)
      | Publishing j token rest \<Rightarrow>
          (case execute_remote (git_now pc ps) (push_id j) (push_submission j) (push_review j) token
                  (remote_url (repository (push_submission j))) g of
             (r, g') \<Rightarrow> ((Published j r rest, ps), g'))
      | Published j r rest \<Rightarrow> (next_tick (tick_record pc (at e) (write_fault e) r j ps) (Loop rest), g))"

end
