(* ===== verification/Push_Text.thy ===== *)
theory Push_Text
  imports Push_Git
begin

text \<open>
  Text that Git printed: limits on what is read, lossy decoding, and the redaction of credentials in everything
  that is kept of it.
\<close>

section \<open>Occurrences\<close>

lemma contains_str_iff: "contains_str p s \<longleftrightarrow> (\<exists>a b. s = a @ p @ b)"
proof (induction s)
  case (Cons c s)
  have "contains_str p (c # s) \<longleftrightarrow> (\<exists>b. c # s = [] @ p @ b) \<or> (\<exists>a b. c # s = (c # a) @ p @ b)"
    using Cons by (simp add: starts_with_iff)
  also have "\<dots> \<longleftrightarrow> (\<exists>a b. c # s = a @ p @ b)"
    by (metis Cons_eq_append_conv)
  finally show ?case .
qed auto

lemma contains_appendI: "contains_str p s \<Longrightarrow> contains_str p (a @ s @ b)"
  unfolding contains_str_iff by (metis append.assoc)

lemma contains_across:
  assumes "x \<notin> set p" and "p \<noteq> []"
  shows "contains_str p (u @ x # v) \<longleftrightarrow> contains_str p u \<or> contains_str p v"
proof
  assume "contains_str p (u @ x # v)"
  then obtain a b where "u @ x # v = a @ p @ b" by (auto simp: contains_str_iff)
  then consider (left) w where "u = a @ w" "w @ x # v = p @ b" | (right) w where "u @ w = a" "x # v = w @ p @ b"
    by (auto simp: append_eq_append_conv2)
  then show "contains_str p u \<or> contains_str p v"
  proof cases
    case left
    from left(2) consider w' where "w = p @ w'" | w' where "w @ w' = p" "x # v = w' @ b"
      by (metis append_eq_append_conv2)
    then show ?thesis
    proof cases
      case 1
      with left(1) show ?thesis by (auto simp: contains_str_iff)
    next
      case 2
      show ?thesis
      proof (cases w')
        case Nil
        with 2 left(1) show ?thesis unfolding contains_str_iff by (metis append.right_neutral)
      next
        case (Cons y ys)
        with 2 assms(1) show ?thesis by auto
      qed
    qed
  next
    case right
    show ?thesis
    proof (cases w)
      case Nil
      with right(2) assms show ?thesis by (cases p) auto
    next
      case (Cons y ys)
      with right(2) show ?thesis by (auto simp: contains_str_iff)
    qed
  qed
next
  show "contains_str p u \<or> contains_str p v \<Longrightarrow> contains_str p (u @ x # v)"
    using contains_appendI [of p u "[]" "x # v"] contains_appendI [of p v "u @ [x]" "[]"] by auto
qed

section \<open>Redaction\<close>

text \<open>A secret that cannot be mistaken for the mark that replaces it.\<close>

definition hideable :: "string \<Rightarrow> bool" where
  "hideable p \<longleftrightarrow> p \<noteq> [] \<and> CHR ''['' \<notin> set p \<and> CHR '']'' \<notin> set p \<and> \<not> contains_str p ''redacted''"

lemma redacted_mark: "''[redacted]'' @ s = [] @ CHR ''['' # ''redacted'' @ CHR '']'' # s"
  by simp

lemma contains_mark: "hideable q \<Longrightarrow> contains_str q (''[redacted]'' @ s) \<longleftrightarrow> contains_str q s"
  unfolding redacted_mark hideable_def by (subst contains_across; (subst contains_across)?) auto

lemma replace_all_Cons:
  "p \<noteq> [] \<Longrightarrow> replace_all p r (c # cs) =
     (case strip_prefix p (c # cs) of Some rest \<Rightarrow> r @ replace_all p r rest | None \<Rightarrow> c # replace_all p r cs)"
  by (subst replace_all.simps) simp

lemma replace_all_Nil: "p \<noteq> [] \<Longrightarrow> replace_all p r [] = []"
  by (subst replace_all.simps) simp

text \<open>A text without the mark's first character that starts the result starts the source.\<close>

lemma prefix_of_replaced:
  assumes "p \<noteq> []" and "CHR ''['' \<notin> set q" and "replace_all p ''[redacted]'' s = q @ b"
  shows "\<exists>b'. s = q @ b'"
  using assms(2,3)
proof (induction s arbitrary: q)
  case (Cons c s)
  show ?case
  proof (cases q)
    case (Cons d q')
    with Cons.prems assms(1) have no: "strip_prefix p (c # s) = None"
      by (cases "strip_prefix p (c # s)") (auto simp: replace_all_Cons)
    with Cons.prems Cons assms(1) have "d = c" "replace_all p ''[redacted]'' s = q' @ b" by (auto simp: replace_all_Cons)
    with Cons.IH [of q'] Cons.prems(1) Cons show ?thesis by auto
  qed simp
qed (use assms(1) in \<open>simp add: replace_all_Nil\<close>)

lemma replaced_contains:
  assumes "p \<noteq> []" and "hideable q" and "contains_str q (replace_all p ''[redacted]'' s)"
  shows "q \<noteq> p \<and> contains_str q s"
  using assms(3)
proof (induction "length s" arbitrary: s rule: less_induct)
  case less
  show ?case
  proof (cases s)
    case Nil
    with less.prems assms(1,2) show ?thesis by (simp add: replace_all_Nil hideable_def)
  next
    case (Cons c cs)
    show ?thesis
    proof (cases "strip_prefix p s")
      case None
      have "starts_with q s \<or> contains_str q (replace_all p ''[redacted]'' cs)"
      proof -
        have "starts_with q (c # replace_all p ''[redacted]'' cs) \<or> contains_str q (replace_all p ''[redacted]'' cs)"
          using less.prems None assms(1) by (simp add: Cons replace_all_Cons)
        moreover have "starts_with q s" if start: "starts_with q (c # replace_all p ''[redacted]'' cs)"
        proof -
          have "replace_all p ''[redacted]'' s = c # replace_all p ''[redacted]'' cs"
            using None assms(1) by (simp add: Cons replace_all_Cons)
          with start obtain b where "replace_all p ''[redacted]'' s = q @ b" by (auto simp: starts_with_iff)
          from prefix_of_replaced [OF assms(1) _ this] assms(2) show ?thesis by (auto simp: hideable_def starts_with_iff)
        qed
        ultimately show ?thesis by blast
      qed
      moreover have "q \<noteq> p" if "starts_with q s" using that None by (auto simp: starts_with_def)
      ultimately show ?thesis using less.hyps [of cs] by (auto simp: Cons)
    next
      case (Some rest)
      then have s: "s = p @ rest" by (simp add: strip_prefix_Some_iff)
      have "contains_str q (replace_all p ''[redacted]'' rest)"
        using less.prems Some assms(1) contains_mark [OF assms(2)] by (simp add: Cons replace_all_Cons)
      then have "q \<noteq> p \<and> contains_str q rest" using less.hyps [of rest] assms(1) by (auto simp: s)
      then show ?thesis using contains_appendI [of q rest p "[]"] by (simp add: s)
    qed
  qed
qed

lemma hide_hides:
  assumes "hideable token" and "hideable (basic_secret b64 token)"
  shows "\<not> contains_str token (hide b64 token s)" and "\<not> contains_str (basic_secret b64 token) (hide b64 token s)"
  using replaced_contains [of "basic_secret b64 token" token] replaced_contains [of token token]
    replaced_contains [of "basic_secret b64 token" "basic_secret b64 token"] assms
  unfolding hide_def by (auto simp: hideable_def)

text \<open>The documented alphabet and length of the encoder.\<close>

definition base64_code :: "(string \<Rightarrow> string) \<Rightarrow> bool" where
  "base64_code b64 \<longleftrightarrow> (\<forall>s. list_all (\<lambda>c. is_ascii_alphanumeric c \<or> c \<in> set ''+/='') (b64 s)
     \<and> length (b64 s) = 4 * ((length s + 2) div 3))"

lemma contains_length: "contains_str p s \<Longrightarrow> length p \<le> length s"
  by (auto simp: contains_str_iff)

lemma hideable_basic:
  assumes "base64_code b64"
  shows "hideable (basic_secret b64 token)"
proof -
  let ?s = "basic_secret b64 token"
  have "\<forall>c \<in> set ?s. is_ascii_alphanumeric c \<or> c \<in> set ''+/=''" and len: "length ?s = 4 * ((length token + 17) div 3)"
    using assms by (auto simp: base64_code_def basic_secret_def list_all_iff)
  moreover have "\<not> (is_ascii_alphanumeric (CHR ''['') \<or> CHR ''['' \<in> set ''+/='')" "\<not> (is_ascii_alphanumeric (CHR '']'') \<or> CHR '']'' \<in> set ''+/='')"
    by code_simp+
  ultimately have "CHR ''['' \<notin> set ?s" "CHR '']'' \<notin> set ?s" by blast+
  moreover have "8 < length ?s" using len by simp
  ultimately show ?thesis using contains_length [of ?s "''redacted''"] by (auto simp: hideable_def)
qed

section \<open>Output limits\<close>

lemma drain_loop_eq:
  "drain_loop limit acc exceeded cs =
     (if None \<in> set cs then Inl ''read''
      else if exceeded \<or> limit < length acc + length (concat (map the cs)) then
        (if exceeded \<or> cs \<noteq> [] then Inl ''Git command output exceeds the review limit'' else Inr acc)
      else Inr (acc @ concat (map the cs)))"
  by (induction limit acc exceeded cs rule: drain_loop.induct) auto

lemma drain_eq:
  "drain limit cs =
     (if None \<in> set cs then Inl ''read''
      else if limit < length (concat (map the cs)) then Inl ''Git command output exceeds the review limit''
      else Inr (concat (map the cs)))"
  by (auto simp: drain_def drain_loop_eq)

section \<open>Lossy decoding\<close>

lemma valid_utf8_step:
  "valid_utf8 (a # s) \<longleftrightarrow> fst (utf8_step a s) \<and> valid_utf8 (drop (snd (utf8_step a s)) (a # s))"
proof -
  consider "s = []" | b where "s = [b]" | b c where "s = [b, c]" | b c d t where "s = b # c # d # t"
    by (metis list.exhaust)
  then show ?thesis by cases (simp_all add: utf8_step_def Let_def)
qed

lemma utf8_step_length: "0 < snd (utf8_step a s)" "fst (utf8_step a s) \<Longrightarrow> snd (utf8_step a s) \<le> length (a # s)"
  by (auto simp: utf8_step_def Let_def split: list.splits if_splits)

declare utf8_step_def [simp del]

lemma lossy_valid: "valid_utf8 s \<Longrightarrow> from_utf8_lossy s = s"
proof (induction s rule: from_utf8_lossy.induct)
  case (2 a s)
  have step: "fst (utf8_step a s)" "valid_utf8 (drop (snd (utf8_step a s)) (a # s))"
    using "2.prems" valid_utf8_step by blast+
  obtain ok n where on: "utf8_step a s = (ok, n)" by fastforce
  with 2 step have "from_utf8_lossy (drop n (a # s)) = drop n (a # s)" by simp
  with on step show ?case by (simp add: append_take_drop_id del: take_Cons drop_Cons)
qed simp

lemma utf8_step_append: "fst (utf8_step a s) \<Longrightarrow> utf8_step a (s @ t) = utf8_step a s"
proof -
  consider "s = []" | b where "s = [b]" | b c where "s = [b, c]" | b c d t where "s = b # c # d # t"
    by (metis list.exhaust)
  then show "fst (utf8_step a s) \<Longrightarrow> utf8_step a (s @ t) = utf8_step a s"
    by cases (simp_all add: utf8_step_def Let_def split: if_splits)
qed

lemma valid_utf8_append: "valid_utf8 s \<Longrightarrow> valid_utf8 (s @ t) \<longleftrightarrow> valid_utf8 t"
proof (induction s rule: from_utf8_lossy.induct)
  case (2 a s)
  have step: "fst (utf8_step a s)" "valid_utf8 (drop (snd (utf8_step a s)) (a # s))"
    using "2.prems" valid_utf8_step by blast+
  obtain ok n where on: "utf8_step a s = (ok, n)" by fastforce
  have le: "n \<le> length (a # s)" using utf8_step_length(2) step on by (metis snd_conv)
  have "valid_utf8 ((a # s) @ t) \<longleftrightarrow> valid_utf8 (drop n (a # s @ t))"
    using valid_utf8_step [of a "s @ t"] utf8_step_append [OF step(1)] on step(1) by simp
  also have "drop n (a # s @ t) = drop n (a # s) @ t" using le drop_append [of n "a # s" t] by (simp del: drop_Cons)
  finally show ?case using 2 step on by simp
qed simp

lemma valid_utf8_ascii: "byte c < 128 \<Longrightarrow> valid_utf8 (c # s) \<longleftrightarrow> valid_utf8 s"
  by (simp add: byte_in_def)

lemma utf8_step_ascii: "byte c < 128 \<Longrightarrow> fst (utf8_step a (s @ c # t)) \<Longrightarrow> fst (utf8_step a s) \<and> utf8_step a (s @ c # t) = utf8_step a s"
proof -
  assume "byte c < 128" and ok: "fst (utf8_step a (s @ c # t))"
  then have no: "\<not> byte_in n 191 c" if "128 \<le> n" for n using that by (simp add: byte_in_def)
  have lead: "\<not> byte_in (if byte a = 224 then 160 else 128) u c" "\<not> byte_in (if byte a = 240 then 144 else 128) u c" for u
    using \<open>byte c < 128\<close> by (simp_all add: byte_in_def)
  consider "s = []" | b where "s = [b]" | b d where "s = [b, d]" | b d e t where "s = b # d # e # t"
    by (metis list.exhaust)
  then show ?thesis using ok no lead by cases (simp_all add: utf8_step_def Let_def split: if_splits)
qed

lemma valid_utf8_before_ascii:
  "byte c < 128 \<Longrightarrow> valid_utf8 (s @ c # t) \<Longrightarrow> valid_utf8 s"
proof (induction s rule: from_utf8_lossy.induct)
  case (2 a s)
  have step: "fst (utf8_step a (s @ c # t))" "valid_utf8 (drop (snd (utf8_step a (s @ c # t))) (a # s @ c # t))"
    using "2.prems"(2) valid_utf8_step [of a "s @ c # t"] by simp_all
  note same = utf8_step_ascii [OF "2.prems"(1) step(1)]
  obtain ok n where on: "utf8_step a s = (ok, n)" by fastforce
  have le: "n \<le> length (a # s)" using utf8_step_length(2) same on by (metis snd_conv)
  have "valid_utf8 (drop n (a # s) @ c # t)" using step(2) same on le drop_append [of n "a # s" "c # t"] by (simp del: drop_Cons)
  then have "valid_utf8 (drop n (a # s))" using 2 on by simp
  then show ?case using valid_utf8_step [of a s] same on by simp
qed simp

lemma valid_lossy: "valid_utf8 (from_utf8_lossy s)"
proof (induction s rule: from_utf8_lossy.induct)
  case (2 a s)
  obtain ok n where on: "utf8_step a s = (ok, n)" by fastforce
  have rest: "valid_utf8 (from_utf8_lossy (drop n (a # s)))" using 2 on by simp
  show ?case
  proof (cases ok)
    case True
    have "valid_utf8 (take n (a # s))"
    proof -
      consider "s = []" | b where "s = [b]" | b c where "s = [b, c]" | b c d t where "s = b # c # d # t"
        by (metis list.exhaust)
      then show ?thesis using True on by cases (auto simp: utf8_step_def Let_def split: if_splits)
    qed
    with rest on True show ?thesis by (simp add: valid_utf8_append del: take_Cons)
  next
    case False
    have "valid_utf8 (encode_utf8 65533)" by code_simp
    with rest on False show ?thesis by (simp add: valid_utf8_append)
  qed
qed simp

lemma replace_none: "p \<noteq> [] \<Longrightarrow> \<not> contains_str p s \<Longrightarrow> replace_all p r s = s"
  by (induction s) (auto simp: replace_all_Nil replace_all_Cons starts_with_def)

lemma replace_first:
  "p \<noteq> [] \<Longrightarrow> contains_str p s \<Longrightarrow> \<exists>u v. s = u @ p @ v \<and> replace_all p r s = u @ r @ replace_all p r v"
proof (induction s)
  case (Cons c s)
  show ?case
  proof (cases "strip_prefix p (c # s)")
    case None
    with Cons obtain u v where "s = u @ p @ v" "replace_all p r s = u @ r @ replace_all p r v" by (auto simp: starts_with_def)
    then have "c # s = (c # u) @ p @ v" "replace_all p r (c # s) = (c # u) @ r @ replace_all p r v"
      using None Cons.prems(1) by (simp_all add: replace_all_Cons)
    then show ?thesis by blast
  next
    case (Some rest)
    then have "replace_all p r (c # s) = [] @ r @ replace_all p r rest" using Cons.prems(1) by (simp add: replace_all_Cons)
    moreover have "c # s = [] @ p @ rest" using Some by (simp add: strip_prefix_Some_iff)
    ultimately have "c # s = [] @ p @ rest" "replace_all p r (c # s) = [] @ r @ replace_all p r rest" by blast+
    then show ?thesis by blast
  qed
qed simp

lemma valid_utf8_all_ascii: "list_all (\<lambda>c. byte c < 128) s \<Longrightarrow> valid_utf8 s"
  by (induction s) (simp_all add: byte_in_def)

lemma valid_replaced:
  assumes "p \<noteq> []" and "list_all (\<lambda>c. byte c < 128) p" and "valid_utf8 r"
  shows "valid_utf8 s \<Longrightarrow> valid_utf8 (replace_all p r s)"
proof (induction "length s" arbitrary: s rule: less_induct)
  case less
  show ?case
  proof (cases "contains_str p s")
    case False
    with less.prems assms(1) show ?thesis by (simp add: replace_none)
  next
    case True
    then obtain u v where uv: "s = u @ p @ v" "replace_all p r s = u @ r @ replace_all p r v"
      using replace_first [OF assms(1)] by blast
    obtain c p' where p: "p = c # p'" using assms(1) by (cases p) auto
    have "valid_utf8 u" using valid_utf8_before_ascii [of c u "p' @ v"] less.prems assms(2) by (simp add: uv(1) p)
    moreover from this have "valid_utf8 v"
      using less.prems valid_utf8_all_ascii [OF assms(2)] by (simp add: uv(1) valid_utf8_append)
    ultimately show ?thesis using less.hyps [of v] uv assms(1,3) by (simp add: valid_utf8_append)
  qed
qed

lemma str_trim_inside: "\<exists>a b. s = a @ str_trim s @ b"
proof -
  let ?W = "char_is_whitespace \<circ> scalar"
  have drop: "\<exists>a. xs = a @ dropWhile ?W xs" for xs using takeWhile_dropWhile_id [of ?W xs] by metis
  obtain a where a: "chars s = a @ dropWhile ?W (chars s)" using drop by blast
  obtain b where b: "rev (dropWhile ?W (chars s)) = b @ dropWhile ?W (rev (dropWhile ?W (chars s)))" using drop by blast
  have "dropWhile ?W (chars s) = rev (dropWhile ?W (rev (dropWhile ?W (chars s)))) @ rev b"
    using arg_cong [OF b, of rev] by simp
  then have "chars s = a @ rev (dropWhile ?W (rev (dropWhile ?W (chars s)))) @ rev b" using a by simp
  then have "concat (chars s) = concat a @ str_trim s @ concat (rev b)"
    unfolding str_trim_def by (metis concat_append)
  then show ?thesis by auto
qed

lemma contains_trim: "contains_str p (str_trim s) \<Longrightarrow> contains_str p s"
  using str_trim_inside [of s] contains_appendI [of p "str_trim s"] by metis

section \<open>What is kept of the output\<close>

definition secret_token :: "string \<Rightarrow> bool" where
  "secret_token token \<longleftrightarrow> git_secret_ok token \<and> hideable token \<and> list_all (\<lambda>c. byte c < 128) token"

definition shows_secret :: "(string \<Rightarrow> string) \<Rightarrow> string \<Rightarrow> string \<Rightarrow> bool" where
  "shows_secret b64 token s \<longleftrightarrow> contains_str token s \<or> contains_str (basic_secret b64 token) s"

lemma basic_ascii:
  assumes "base64_code b64"
  shows "list_all (\<lambda>c. byte c < 128) (basic_secret b64 token)" and "newline \<notin> set (basic_secret b64 token)"
proof -
  have plain: "\<forall>c \<in> set (basic_secret b64 token). is_ascii_alphanumeric c \<or> c \<in> set ''+/=''"
    using assms by (simp add: base64_code_def basic_secret_def list_all_iff)
  have "byte c < 128" if "is_ascii_alphanumeric c \<or> c \<in> set ''+/=''" for c
    using that by (auto simp: is_ascii_alphanumeric_def is_ascii_alpha_def is_ascii_upper_def is_ascii_lower_def is_ascii_digit_def)
  with plain show "list_all (\<lambda>c. byte c < 128) (basic_secret b64 token)" by (auto simp: list_all_iff)
  have "\<not> (is_ascii_alphanumeric newline \<or> newline \<in> set ''+/='')" by code_simp
  with plain show "newline \<notin> set (basic_secret b64 token)" by blast
qed

lemma secret_tokenD:
  assumes "secret_token token"
  shows "token \<noteq> []" "newline \<notin> set token" "hideable token" "list_all (\<lambda>c. byte c < 128) token"
proof -
  have "is_ascii_control newline" by code_simp
  with assms show "token \<noteq> []" "newline \<notin> set token" "hideable token" "list_all (\<lambda>c. byte c < 128) token"
    by (auto simp: secret_token_def git_secret_ok_def list_ex_iff)
qed

lemma valid_hide:
  assumes "secret_token token" and "base64_code b64" and "valid_utf8 s"
  shows "valid_utf8 (hide b64 token s)"
proof -
  have "valid_utf8 ''[redacted]''" by code_simp
  then show ?thesis
    using hideable_basic [OF assms(2), of token] secret_tokenD [OF assms(1)] basic_ascii(1) [OF assms(2), of token] assms(3)
    unfolding hide_def by (intro valid_replaced) (auto simp: hideable_def)
qed

lemma printable_secret:
  assumes "token \<noteq> []" and "\<forall>c \<in> set token. 32 \<le> byte c \<and> byte c < 127 \<and> c \<notin> set ''[]''" and "\<not> contains_str token ''redacted''"
  shows "secret_token token"
  using assms by (fastforce simp: secret_token_def git_secret_ok_def hideable_def is_ascii_control_def list_ex_iff list_all_iff)

text \<open>The broker also takes tokens that the mark itself shows: a part of the word \<open>redacted\<close>, for instance.\<close>

lemma part_of_mark_shows: "git_secret_ok ''e'' \<and> contains_str ''e'' (replace_all ''e'' ''[redacted]'' ''e'')"
  by code_simp

text \<open>
  C31. Redaction: whatever Git prints, in which reads, and whichever way it fails, the output that is kept of a
  command run with the credential shows neither the token nor the form in which Git sends it; neither does
  its text, which errors and results quote. This is shown for tokens of printable ASCII characters without square brackets
  that are no part of the word \<open>redacted\<close>, as the tokens of GitHub are; \<open>git_secret_ok\<close> of the source also takes others, of
  which the mark that replaces the token may show the token again.
\<close>

theorem git_output_redacted:
  assumes "token \<noteq> []" and "\<forall>c \<in> set token. 32 \<le> byte c \<and> byte c < 127 \<and> c \<notin> set ''[]''" and "\<not> contains_str token ''redacted''"
    and "base64_code (base64 gc)"
    and "git gc repo args (Some token) seconds limit g = (Inr out, g')"
  shows "\<not> shows_secret (base64 gc) token (stdout out) \<and> \<not> shows_secret (base64 gc) token (stderr out)
    \<and> \<not> shows_secret (base64 gc) token (output_text out) \<and> \<not> shows_secret (base64 gc) token (redacted (base64 gc) token out)"
proof -
  let ?h = "hide (base64 gc) token"
  have secret: "secret_token token" by (rule printable_secret [OF assms(1-3)])
  note tok = secret_tokenD [OF secret]
  have clean: "\<not> shows_secret (base64 gc) token (?h s)" for s
    using hide_hides [OF tok(3) hideable_basic [OF assms(4)]] by (simp add: shows_secret_def)
  obtain o1 e1 where out: "stdout out = ?h (from_utf8_lossy o1)" "stderr out = ?h (from_utf8_lossy e1)"
    using assms(5) tok(1) unfolding git_def
    by (auto simp: scrub_def bind_res_Inr_iff split: prod.splits process.splits if_splits)
  have valid: "from_utf8_lossy (stdout out) = stdout out" "from_utf8_lossy (stderr out) = stderr out"
    by (simp_all add: out lossy_valid valid_hide [OF secret assms(4)] valid_lossy)
  let ?text = "if stderr out = [] then stdout out else (if stdout out = [] then stdout out else stdout out @ [newline]) @ stderr out"
  have "\<not> contains_str p ?text"
    if "p \<noteq> []" "newline \<notin> set p" "\<not> contains_str p (stdout out)" "\<not> contains_str p (stderr out)" for p
    using that contains_across [of newline p "stdout out" "stderr out"] by auto
  then have "\<not> shows_secret (base64 gc) token ?text"
    using clean tok(1,2) basic_ascii(2) [OF assms(4)] hideable_basic [OF assms(4), of token] unfolding out shows_secret_def hideable_def by blast
  then have "\<not> shows_secret (base64 gc) token (output_text out)"
    using contains_trim unfolding output_text_def Let_def valid shows_secret_def by blast
  then show ?thesis using clean unfolding out redacted_def by (simp add: tok(1))
qed

end
