(* ===== verification/Push_Check.thy ===== *)
theory Push_Check
  imports Push_Text Push_Review
begin

text \<open>
  What is shown of the Git half of \<open>pushes.rs\<close>: the derived review is what the bundle contains, and the push is one
  guarded and verified attempt.
\<close>

section \<open>The derived review\<close>

lemma bind_io_Inr: "bind_io m f g = (Inr y, g') \<longleftrightarrow> (\<exists>x g1. m g = (Inr x, g1) \<and> f x g1 = (Inr y, g'))"
  by (auto simp: bind_io_def split: prod.splits sum.splits)

lemma lift_io_Inr: "lift_io r g = (Inr y, g') \<longleftrightarrow> r = Inr y \<and> g' = g"
  by (auto simp: lift_io_def)

lemma ret_io_Inr: "ret_io x g = (Inr y, g') \<longleftrightarrow> y = x \<and> g' = g"
  by (auto simp: ret_io_def)

lemmas io_simps = bind_io_Inr lift_io_Inr ret_io_Inr

lemma fold_io_invariant:
  assumes "fold_io f xs s g = (Inr t, g')" and "I s"
    and "\<And>x s t g g'. x \<in> set xs \<Longrightarrow> I s \<Longrightarrow> f x s g = (Inr t, g') \<Longrightarrow> I t"
  shows "I t"
  using assms
proof (induction xs arbitrary: s g)
  case (Cons x xs)
  then obtain s1 g1 where s1: "f x s g = (Inr s1, g1)" "fold_io f xs s1 g1 = (Inr t, g')" by (auto simp: io_simps)
  have "I s1" using Cons.prems(3) [OF _ Cons.prems(2) s1(1)] by simp
  then show ?case by (rule Cons.IH [OF s1(2)]) (rule Cons.prems(3), auto)
qed (simp add: ret_io_def)

text \<open>Commits that follow each other, each with one parent, from a base.\<close>

fun linear :: "string \<Rightarrow> CommitReview list \<Rightarrow> bool" where
  "linear base [] = True"
| "linear base (c # cs) \<longleftrightarrow> parents c = [base] \<and> linear (commit_oid c) cs"

definition plain :: "string \<Rightarrow> bool" where
  "plain s \<longleftrightarrow> list_all (\<lambda>c. \<not> char_is_control (scalar c)) (chars s)"

definition commit_plain :: "CommitReview \<Rightarrow> bool" where
  "commit_plain c \<longleftrightarrow> plain (commit_oid c) \<and> plain (author c) \<and> plain (email c) \<and> plain (authored_at c)"

lemma review_text_plain: "review_text label b False n = Inr t \<Longrightarrow> plain t"
  by (auto simp: review_text_def bind_res_Inr_iff plain_def Let_def list_all_iff list_ex_iff split: if_splits)

lemma commit_of_fields_ok: "commit_of_fields p fs = Inr c \<Longrightarrow> parents c = [p] \<and> commit_plain c"
  by (auto simp: commit_of_fields_def bind_res_Inr_iff commit_plain_def dest: review_text_plain split: list.splits if_splits)

lemma inspect_commit_ok:
  "inspect_commit gc repo oid (cs, p) g = (Inr st, g') \<Longrightarrow> \<exists>c. st = (cs @ [c], commit_oid c) \<and> parents c = [p] \<and> commit_plain c"
  by (auto simp: io_simps inspect_commit_def bind_res_Inr_iff dest!: commit_of_fields_ok)

lemma inspect_commits:
  assumes "fold_io (inspect_commit gc repo) oids (cs, p) g = (Inr (cs', p'), g')"
  shows "\<exists>new. cs' = cs @ new \<and> linear p new \<and> length new = length oids \<and> list_all commit_plain new"
  using assms
proof (induction oids arbitrary: cs p g)
  case (Cons oid oids)
  then obtain c g1 where c: "parents c = [p]" "commit_plain c"
      "fold_io (inspect_commit gc repo) oids (cs @ [c], commit_oid c) g1 = (Inr (cs', p'), g')"
    by (auto simp: io_simps dest!: inspect_commit_ok)
  from Cons.IH [OF c(3)] obtain new where "cs' = cs @ c # new" "linear (commit_oid c) new"
      "length new = length oids" "list_all commit_plain new"
    by auto
  then have "cs' = cs @ (c # new) \<and> linear p (c # new) \<and> length (c # new) = length (oid # oids) \<and> list_all commit_plain (c # new)"
    using c(1,2) by simp
  then show ?case by blast
qed (simp add: ret_io_def)

lemma commits_ok:
  assumes "commits gc repo base head g = (Inr cs, g')"
  shows "linear base cs" "cs \<noteq> []" "length cs \<le> 100" "list_all commit_plain cs"
proof -
  obtain oids p g1 where "oids \<noteq> []" "length oids \<le> 100" "fold_io (inspect_commit gc repo) oids ([], base) g1 = (Inr (cs, p), g')"
    using assms unfolding commits_def by (auto simp: io_simps Let_def MAX_COMMITS_def split: if_splits)
  with inspect_commits [OF this(3)] show "linear base cs" "cs \<noteq> []" "length cs \<le> 100" "list_all commit_plain cs"
    by auto
qed

lemma chars_ascii: "list_all (\<lambda>c. byte c < 128) s \<Longrightarrow> chars s = map (\<lambda>c. [c]) s"
  by (induction s) (simp_all add: utf8_width_def)

lemma plain_ascii:
  assumes "\<forall>c \<in> set s. 32 \<le> byte c \<and> byte c < 127"
  shows "plain s"
proof -
  have "list_all (\<lambda>c. byte c < 128) s" using assms by (force simp: list_all_iff)
  then show ?thesis using assms by (force simp: chars_ascii plain_def list_all_iff char_is_control_def)
qed

lemma plain_display_path: "plain (display_path p)"
proof -
  let ?hex = "concat (map (\<lambda>b. [ch 92, CHR ''x'', hex_digit (byte b div 16), hex_digit (byte b mod 16)]) p)"
  have digit: "32 \<le> byte (hex_digit n) \<and> byte (hex_digit n) < 127" if "n < 16" for n
    using that by (simp add: hex_digit_def of_char_of)
  have small: "byte b div 16 < 16" "byte b mod 16 < 16" for b using byte_less_256 [of b] by (simp_all add: less_mult_imp_div_less)
  have "\<forall>c \<in> set ?hex. 32 \<le> byte c \<and> byte c < 127"
    using digit small by auto
  then have "plain ?hex" by (rule plain_ascii)
  then show ?thesis
    by (auto simp: display_path_def plain_def list_all_iff list_ex_iff)
qed

definition files_of :: "CommitReview list \<Rightarrow> FileReview list \<Rightarrow> bool" where
  "files_of cs files \<longleftrightarrow> length files \<le> 1000
     \<and> list_all (\<lambda>f. file_commit f \<in> commit_oid ` set cs \<and> plain (file_path f) \<and> opt_all plain (old_path f)) files"

lemma push_file_ok: "push_file f files = Inr files' \<longleftrightarrow> length files < 1000 \<and> files' = files @ [f]"
  by (auto simp: push_file_def MAX_FILES_def)

lemma file_fields_ok:
  "file_fields (commit_oid c) fs files = Inr files' \<Longrightarrow> c \<in> set cs \<Longrightarrow> files_of cs files \<Longrightarrow> files_of cs files'"
  by (induction "commit_oid c" fs files rule: file_fields.induct)
    (auto simp: bind_res_Inr_iff push_file_ok files_of_def plain_display_path split: if_splits)

lemma changed_files_ok:
  assumes "changed_files gc repo cs g = (Inr files, g')"
  shows "files_of cs files \<and> files \<noteq> []"
proof -
  obtain g1 where f: "fold_io (commit_files gc repo) cs [] g = (Inr files, g1)" and ne: "files \<noteq> []"
    using assms by (auto simp: changed_files_def io_simps split: if_splits)
  have "files_of cs files"
    using f
  proof (rule fold_io_invariant)
    show "files_of cs []" by (simp add: files_of_def)
    show "files_of cs t" if "c \<in> set cs" "files_of cs s" "commit_files gc repo c s g = (Inr t, g')" for c s t g g'
      using that(3) file_fields_ok [OF _ that(1,2)] by (auto simp: commit_files_def io_simps)
  qed
  with ne show ?thesis by simp
qed

lemma git_limit:
  assumes "git_ok gc action repo args None seconds limit g = (Inr out, g')"
  shows "length (stdout out) \<le> limit"
  using assms unfolding git_ok_def git_def success_def
  by (auto simp: io_simps bind_res_Inr_iff drain_eq not_less split: prod.splits process.splits if_splits)

lemma diff_ok:
  assumes "diff gc repo cs g = (Inr patch, g')"
  shows "length patch \<le> 2 * 1024 * 1024 + 1"
proof -
  have "length patch \<le> MAX_PATCH + 1"
    using assms unfolding diff_def
  proof (rule fold_io_invariant)
    show "length t \<le> MAX_PATCH + 1" if patched: "commit_patch gc repo c s g = (Inr t, g')" for c s t g g'
    proof -
      obtain out g1 where "length s \<le> MAX_PATCH" "git_ok gc ''render Git commit patch'' repo
           [''-c'', ''core.quotePath=true'', ''show'', ''--format=fuller'', ''--binary'', ''--full-index'', ''--find-renames'',
            ''--no-ext-diff'', ''--no-textconv'', ''--no-color'', commit_oid c] None 45 (MAX_PATCH - length s) g = (Inr out, g1)"
          "t = s @ stdout out \<or> t = s @ stdout out @ [newline]"
        using patched by (auto simp: commit_patch_def io_simps bind_res_Inr_iff from_utf8_def Let_def split: if_splits)
      with git_limit [OF this(2)] show ?thesis by auto
    qed
  qed simp
  then show ?thesis by (simp add: MAX_PATCH_def)
qed

section \<open>What Git said\<close>

text \<open>An answer of Git: the text that a successful command printed.\<close>

definition answers :: "'g git_code \<Rightarrow> uuid \<Rightarrow> string list \<Rightarrow> string option \<Rightarrow> 'g \<Rightarrow> string \<Rightarrow> 'g \<Rightarrow> bool" where
  "answers gc repo args token g text g' \<longleftrightarrow>
     (\<exists>seconds limit out. git gc repo args token seconds limit g = (Inr out, g') \<and> succeeded out \<and> stdout out = text)"

lemma git_ok_answers: "git_ok gc action repo args token seconds limit g = (Inr out, g') \<Longrightarrow> answers gc repo args token g (stdout out) g'"
  unfolding git_ok_def success_def answers_def by (auto simp: io_simps split: if_splits)

text \<open>A text without the ends of lines behind it.\<close>

definition says :: "string \<Rightarrow> string \<Rightarrow> bool" where
  "says field text \<longleftrightarrow> (\<exists>e. field = text @ e \<and> set e \<subseteq> {CHR 0x0D, CHR 0x0A} \<and> (text = [] \<or> last text \<notin> {CHR 0x0D, CHR 0x0A}))"

lemma review_text_says: "review_text label b multiline n = Inr t \<Longrightarrow> says b t"
proof -
  let ?P = "\<lambda>c. c = CHR 0x0D \<or> c = newline"
  have "says s (trim_end_matches ?P s)" for s
  proof -
    have "s = trim_end_matches ?P s @ rev (takeWhile ?P (rev s))"
      unfolding trim_end_matches_def by (metis rev_append rev_rev_ident takeWhile_dropWhile_id)
    moreover have "trim_end_matches ?P s = [] \<or> last (trim_end_matches ?P s) \<notin> {CHR 0x0D, CHR 0x0A}"
      using hd_dropWhile [of ?P "rev s"] by (auto simp: trim_end_matches_def last_rev)
    moreover have "set (rev (takeWhile ?P (rev s))) \<subseteq> {CHR 0x0D, CHR 0x0A}" by (auto dest: set_takeWhileD)
    ultimately show ?thesis unfolding says_def by blast
  qed
  then show "review_text label b multiline n = Inr t \<Longrightarrow> says b t"
    by (auto simp: review_text_def bind_res_Inr_iff from_utf8_def Let_def split: if_splits)
qed

text \<open>The commits, from \<open>git show\<close> of each listed name.\<close>

definition commit_says :: "string \<Rightarrow> CommitReview \<Rightarrow> bool" where
  "commit_says text c \<longleftrightarrow> (\<exists>oid ps name mail date msg z.
     text = oid @ CHR 0x00 # ps @ CHR 0x00 # name @ CHR 0x00 # mail @ CHR 0x00 # date @ CHR 0x00 # msg
     \<and> list_all (\<lambda>f. CHR 0x00 \<notin> set f) [oid, ps, name, mail, date, msg]
     \<and> says oid (commit_oid c) \<and> says ps z \<and> parents c = split_whitespace z \<and> says name (author c) \<and> says mail (email c)
     \<and> says date (authored_at c) \<and> says msg (message c)
     \<and> subject c = (case str_lines (message c) of [] \<Rightarrow> [] | l # _ \<Rightarrow> l))"

fun shown :: "'g git_code \<Rightarrow> uuid \<Rightarrow> string list \<Rightarrow> CommitReview list \<Rightarrow> 'g \<Rightarrow> 'g \<Rightarrow> bool" where
  "shown gc repo [] cs g g' \<longleftrightarrow> cs = [] \<and> g' = g"
| "shown gc repo (name # names) cs g g' \<longleftrightarrow> (\<exists>text g1 c rest. cs = c # rest
     \<and> answers gc repo [''show'', ''-s'', ''--format=%H%x00%P%x00%an%x00%ae%x00%aI%x00%B'', name] None g text g1
     \<and> commit_says text c \<and> shown gc repo names rest g1 g')"

lemma split_on_join: "split_on d s = w # v # ws \<Longrightarrow> d \<notin> set w \<and> (\<exists>r. s = w @ d # r \<and> split_on d r = v # ws)"
  by (induction s arbitrary: w) (auto split: if_splits list.splits)

lemma commit_of_fields_says:
  assumes "commit_of_fields p (split_on (CHR 0x00) text) = Inr c"
  shows "commit_says text c"
proof -
  obtain f0 f1 f2 f3 f4 f5 where s: "split_on (CHR 0x00) text = [f0, f1, f2, f3, f4, f5]"
    using assms by (auto simp: commit_of_fields_def split: list.splits)
  obtain z where c: "says f0 (commit_oid c)" "says f1 z" "parents c = split_whitespace z" "says f2 (author c)" "says f3 (email c)"
      "says f4 (authored_at c)" "says f5 (message c)" "subject c = first_line (message c)"
    using assms unfolding s commit_of_fields_def by (auto simp: bind_res_Inr_iff dest!: review_text_says split: if_splits)
  have free: "list_all (\<lambda>f. CHR 0x00 \<notin> set f) [f0, f1, f2, f3, f4, f5]" using split_on_free [of _ "CHR 0x00" "text"] unfolding s list_all_iff by blast
  obtain r1 where "text = f0 @ CHR 0x00 # r1" "split_on (CHR 0x00) r1 = [f1, f2, f3, f4, f5]" using split_on_join [OF s] by blast
  moreover then obtain r2 where "r1 = f1 @ CHR 0x00 # r2" "split_on (CHR 0x00) r2 = [f2, f3, f4, f5]" using split_on_join by blast
  moreover then obtain r3 where "r2 = f2 @ CHR 0x00 # r3" "split_on (CHR 0x00) r3 = [f3, f4, f5]" using split_on_join by blast
  moreover then obtain r4 where "r3 = f3 @ CHR 0x00 # r4" "split_on (CHR 0x00) r4 = [f4, f5]" using split_on_join by blast
  moreover then have "r4 = f4 @ CHR 0x00 # f5" using split_on_two by blast
  ultimately have "text = f0 @ CHR 0x00 # f1 @ CHR 0x00 # f2 @ CHR 0x00 # f3 @ CHR 0x00 # f4 @ CHR 0x00 # f5" by simp
  then show ?thesis unfolding commit_says_def using free c by (metis first_line_def)
qed

lemma inspect_commit_shown:
  assumes "inspect_commit gc repo name (cs, p) g = (Inr st, g')"
  shows "\<exists>text c. st = (cs @ [c], commit_oid c) \<and> commit_says text c
    \<and> answers gc repo [''show'', ''-s'', ''--format=%H%x00%P%x00%an%x00%ae%x00%aI%x00%B'', name] None g text g'"
proof -
  obtain out c where c: "st = (cs @ [c], commit_oid c)" "commit_of_fields p (split_on (CHR 0x00) (stdout out)) = Inr c"
      "git_ok gc ''inspect commit'' repo [''show'', ''-s'', ''--format=%H%x00%P%x00%an%x00%ae%x00%aI%x00%B'', name] None 10 (64 * 1024) g
        = (Inr out, g')"
    using assms unfolding inspect_commit_def by (auto simp only: prod.case bind_io_Inr lift_io_Inr bind_res_Inr_iff sum.inject)
  then show ?thesis using git_ok_answers [OF c(3)] commit_of_fields_says [OF c(2)] by blast
qed

lemma inspect_shown:
  assumes "fold_io (inspect_commit gc repo) names (cs, p) g = (Inr (cs', p'), g')"
  shows "\<exists>new. cs' = cs @ new \<and> shown gc repo names new g g'"
  using assms
proof (induction names arbitrary: cs p g)
  case (Cons name names)
  then obtain st g1 where st: "inspect_commit gc repo name (cs, p) g = (Inr st, g1)"
      "fold_io (inspect_commit gc repo) names st g1 = (Inr (cs', p'), g')"
    by (auto simp: bind_io_Inr)
  obtain said c where c: "st = (cs @ [c], commit_oid c)" "commit_says said c"
      "answers gc repo [''show'', ''-s'', ''--format=%H%x00%P%x00%an%x00%ae%x00%aI%x00%B'', name] None g said g1"
    using inspect_commit_shown [OF st(1)] by blast
  from Cons.IH [OF st(2) [unfolded c(1)]] obtain new where "cs' = cs @ c # new" "shown gc repo names new g1 g'" by auto
  then show ?case using c by (intro exI [of _ "c # new"]) auto
qed (simp add: ret_io_def)

text \<open>A change: its status, the old path of a rename or a copy, and the path; and a path as the host sees it.\<close>

type_synonym change = "string \<times> string option \<times> string"

fun change_fields :: "change \<Rightarrow> string list" where
  "change_fields (st, old, p) = st # (case old of None \<Rightarrow> [] | Some q \<Rightarrow> [q]) @ [p]"

fun escapes :: "string \<Rightarrow> string \<Rightarrow> bool" where
  "escapes [] s \<longleftrightarrow> s = []"
| "escapes (b # p) s \<longleftrightarrow> (\<exists>i j t. i < 16 \<and> j < 16 \<and> byte b = 16 * i + j \<and> escapes p t
     \<and> s = CHR 0x5C # CHR ''x'' # ''0123456789abcdef'' ! i # ''0123456789abcdef'' ! j # t)"

definition displays :: "string \<Rightarrow> string \<Rightarrow> bool" where
  "displays p s \<longleftrightarrow> (if valid_utf8 p \<and> plain p then s = p else escapes p s)"

fun lists_change :: "string \<Rightarrow> change \<Rightarrow> FileReview \<Rightarrow> bool" where
  "lists_change oid (st, old, p) f \<longleftrightarrow> (old \<noteq> None \<longleftrightarrow> (\<exists>rest. st = CHR ''R'' # rest \<or> st = CHR ''C'' # rest))
     \<and> file_commit f = oid \<and> file_status f = st \<and> displays p (file_path f) \<and> rel_option displays old (old_path f)"

fun joined :: "char \<Rightarrow> string list \<Rightarrow> string" where
  "joined d [] = []"
| "joined d [w] = w"
| "joined d (w # ws) = w @ d # joined d ws"

definition lists_all :: "string \<Rightarrow> string \<Rightarrow> FileReview list \<Rightarrow> bool" where
  "lists_all oid text files \<longleftrightarrow> (\<exists>fs changes. text = joined (CHR 0x00) fs \<and> list_all (\<lambda>f. CHR 0x00 \<notin> set f) fs
     \<and> filter (\<lambda>f. f \<noteq> []) fs = concat (map change_fields changes) \<and> list_all2 (lists_change oid) changes files)"

fun listed :: "'g git_code \<Rightarrow> uuid \<Rightarrow> CommitReview list \<Rightarrow> FileReview list \<Rightarrow> 'g \<Rightarrow> 'g \<Rightarrow> bool" where
  "listed gc repo [] files g g' \<longleftrightarrow> files = [] \<and> g' = g"
| "listed gc repo (c # cs) files g g' \<longleftrightarrow> (\<exists>text g1 mine rest parent others. files = mine @ rest \<and> parents c = parent # others
     \<and> answers gc repo [''diff'', ''--name-status'', ''-z'', ''--find-renames'', ''--no-ext-diff'', parent, commit_oid c] None g text g1
     \<and> lists_all (commit_oid c) text mine \<and> listed gc repo cs rest g1 g')"

lemma joined_split: "joined d (split_on d s) = s"
proof (induction s)
  case (Cons c s)
  then show ?case by (cases "split_on d s"; cases "tl (split_on d s)") auto
qed simp

lemma hex_digit_nth: "n < 16 \<Longrightarrow> hex_digit n = ''0123456789abcdef'' ! n"
proof -
  assume "n < 16"
  moreover have "\<forall>n < (16::nat). hex_digit n = ''0123456789abcdef'' ! n" by code_simp
  ultimately show ?thesis by blast
qed

lemma display_path_displays: "displays p (display_path p)"
proof -
  let ?hex = "\<lambda>b. [ch 92, CHR ''x'', hex_digit (byte b div 16), hex_digit (byte b mod 16)]"
  have "escapes p (concat (map ?hex p))"
  proof (induction p)
    case (Cons b p)
    have "byte b div 16 < 16" "byte b mod 16 < 16" using byte_less_256 [of b] by (simp_all add: less_mult_imp_div_less)
    moreover have "ch 92 = CHR 0x5C" by code_simp
    ultimately show ?case using Cons
      by (simp del: nth_Cons_numeral) (intro exI [of _ "byte b div 16"] conjI exI [of _ "byte b mod 16"], simp_all add: hex_digit_nth)
  qed simp
  then show ?thesis by (auto simp: displays_def display_path_def plain_def list_all_iff list_ex_iff)
qed

lemma renamed_iff: "renamed st \<longleftrightarrow> (\<exists>rest. st = CHR ''R'' # rest \<or> st = CHR ''C'' # rest)"
  by (auto simp: renamed_def starts_with_iff)

lemma file_fields_all:
  assumes "file_fields oid fs files = Inr files'"
  shows "\<exists>changes mine. files' = files @ mine \<and> fs = concat (map change_fields changes) \<and> list_all2 (lists_change oid) changes mine"
  using assms
proof (induction oid fs files rule: file_fields.induct)
  case (1 oid files)
  then show ?case by (intro exI [of _ "[]"]) simp
next
  case (3 oid st p files)
  then have "files' = files @ [\<lparr>file_commit = oid, file_status = st, file_path = display_path p, old_path = None\<rparr>]" "\<not> renamed st"
    by (auto simp: bind_res_Inr_iff push_file_ok split: if_splits)
  then show ?case
    by (intro exI [of _ "[(st, None, p)]"] exI [of _ "[\<lparr>file_commit = oid, file_status = st, file_path = display_path p, old_path = None\<rparr>]"])
      (simp add: renamed_iff display_path_displays)
next
  case (4 oid st p q rest files)
  show ?case
  proof (cases "renamed st")
    case True
    let ?f = "\<lparr>file_commit = oid, file_status = st, file_path = display_path q, old_path = Some (display_path p)\<rparr>"
    obtain u where "file_fields oid rest (files @ [?f]) = Inr files'" "from_utf8 ''invalid Git file status'' st = Inr u"
        "push_file ?f files = Inr (files @ [?f])"
      using "4.prems" True by (auto simp: bind_res_Inr_iff push_file_ok)
    then obtain changes mine where "files' = (files @ [?f]) @ mine" "rest = concat (map change_fields changes)" "list_all2 (lists_change oid) changes mine"
      using "4.IH"(1) [OF True] by blast
    then show ?thesis using True
      by (intro exI [of _ "(st, Some p, q) # changes"] exI [of _ "?f # mine"]) (simp add: renamed_iff display_path_displays)
  next
    case False
    let ?f = "\<lparr>file_commit = oid, file_status = st, file_path = display_path p, old_path = None\<rparr>"
    obtain u where "file_fields oid (q # rest) (files @ [?f]) = Inr files'" "from_utf8 ''invalid Git file status'' st = Inr u"
        "push_file ?f files = Inr (files @ [?f])"
      using "4.prems" False by (auto simp: bind_res_Inr_iff push_file_ok)
    then obtain changes mine where "files' = (files @ [?f]) @ mine" "q # rest = concat (map change_fields changes)" "list_all2 (lists_change oid) changes mine"
      using "4.IH"(2) [OF False] by blast
    then show ?thesis using False
      by (intro exI [of _ "(st, None, p) # changes"] exI [of _ "?f # mine"]) (simp add: renamed_iff display_path_displays)
  qed
qed (auto simp: bind_res_Inr_iff)

lemma commit_files_all:
  assumes "commit_files gc repo c files g = (Inr files', g')"
  shows "\<exists>text mine parent others. files' = files @ mine \<and> parents c = parent # others \<and> lists_all (commit_oid c) text mine
    \<and> answers gc repo [''diff'', ''--name-status'', ''-z'', ''--find-renames'', ''--no-ext-diff'', parent, commit_oid c] None g text g'"
proof -
  obtain parent others out where p: "parents c = parent # others"
      "git_ok gc ''enumerate changed files'' repo [''diff'', ''--name-status'', ''-z'', ''--find-renames'', ''--no-ext-diff'', parent, commit_oid c]
        None 30 MAX_GIT_OUTPUT g = (Inr out, g')"
      "file_fields (commit_oid c) (filter (\<lambda>v. v \<noteq> []) (split_on (CHR 0x00) (stdout out))) files = Inr files'"
    using assms unfolding commit_files_def by (auto simp: io_simps split: list.splits)
  obtain changes mine where c: "files' = files @ mine"
      "filter (\<lambda>v. v \<noteq> []) (split_on (CHR 0x00) (stdout out)) = concat (map change_fields changes)"
      "list_all2 (lists_change (commit_oid c)) changes mine"
    using file_fields_all [OF p(3)] by blast
  have "list_all (\<lambda>f. CHR 0x00 \<notin> set f) (split_on (CHR 0x00) (stdout out))" by (simp add: list_all_iff split_on_free)
  then have "lists_all (commit_oid c) (stdout out) mine"
    unfolding lists_all_def using c by (metis joined_split)
  then show ?thesis using c(1) p(1) git_ok_answers [OF p(2)] by blast
qed

lemma changed_files_listed:
  assumes "fold_io (commit_files gc repo) cs files g = (Inr files', g')"
  shows "\<exists>new. files' = files @ new \<and> listed gc repo cs new g g'"
  using assms
proof (induction cs arbitrary: files g)
  case (Cons c cs)
  then obtain files1 g1 where 1: "commit_files gc repo c files g = (Inr files1, g1)"
      "fold_io (commit_files gc repo) cs files1 g1 = (Inr files', g')"
    by (auto simp: bind_io_Inr)
  obtain said mine parent others where c: "files1 = files @ mine" "parents c = parent # others" "lists_all (commit_oid c) said mine"
      "answers gc repo [''diff'', ''--name-status'', ''-z'', ''--find-renames'', ''--no-ext-diff'', parent, commit_oid c] None g said g1"
    using commit_files_all [OF 1(1)] by blast
  from Cons.IH [OF 1(2)] obtain new where "files' = files1 @ new" "listed gc repo cs new g1 g'" by blast
  then show ?case using c by (intro exI [of _ "mine @ new"] conjI) (simp, subst listed.simps(2), blast)
qed (simp add: ret_io_def)

text \<open>The patch: the rendering of every commit, each on lines of its own.\<close>

fun rendered :: "'g git_code \<Rightarrow> uuid \<Rightarrow> CommitReview list \<Rightarrow> string \<Rightarrow> 'g \<Rightarrow> 'g \<Rightarrow> bool" where
  "rendered gc repo [] patch g g' \<longleftrightarrow> patch = [] \<and> g' = g"
| "rendered gc repo (c # cs) patch g g' \<longleftrightarrow> (\<exists>text e g1 rest. patch = text @ e @ rest \<and> (e = [] \<or> e = [newline])
     \<and> (text @ e = [] \<or> last (text @ e) = newline)
     \<and> answers gc repo [''-c'', ''core.quotePath=true'', ''show'', ''--format=fuller'', ''--binary'', ''--full-index'', ''--find-renames'',
          ''--no-ext-diff'', ''--no-textconv'', ''--no-color'', commit_oid c] None g text g1
     \<and> rendered gc repo cs rest g1 g')"

lemma commit_patch_rendered:
  assumes "commit_patch gc repo c patch g = (Inr patch', g')"
  shows "\<exists>text e. patch' = patch @ text @ e \<and> (e = [] \<or> e = [newline]) \<and> (text @ e = [] \<or> last (text @ e) = newline)
     \<and> answers gc repo [''-c'', ''core.quotePath=true'', ''show'', ''--format=fuller'', ''--binary'', ''--full-index'', ''--find-renames'',
          ''--no-ext-diff'', ''--no-textconv'', ''--no-color'', commit_oid c] None g text g'"
proof -
  obtain out n where o: "git_ok gc ''render Git commit patch'' repo [''-c'', ''core.quotePath=true'', ''show'', ''--format=fuller'', ''--binary'',
        ''--full-index'', ''--find-renames'', ''--no-ext-diff'', ''--no-textconv'', ''--no-color'', commit_oid c] None 45 n g = (Inr out, g')"
      "patch' = (if ends_with [newline] (patch @ stdout out) then patch @ stdout out else patch @ stdout out @ [newline])"
    using assms unfolding commit_patch_def by (auto simp: io_simps bind_res_Inr_iff from_utf8_def Let_def split: if_splits)
  have "stdout out = [] \<or> last (stdout out) = newline" if "ends_with [newline] (patch @ stdout out)"
    using that by (cases "stdout out" rule: rev_cases) (auto simp: ends_with_iff)
  then show ?thesis using o(2) git_ok_answers [OF o(1)]
    by (intro exI [of _ "stdout out"] exI [of _ "if ends_with [newline] (patch @ stdout out) then [] else [newline]"]) auto
qed

lemma diff_rendered:
  assumes "fold_io (commit_patch gc repo) cs patch g = (Inr patch', g')"
  shows "\<exists>new. patch' = patch @ new \<and> rendered gc repo cs new g g'"
  using assms
proof (induction cs arbitrary: patch g)
  case (Cons c cs)
  then obtain patch1 g1 where 1: "commit_patch gc repo c patch g = (Inr patch1, g1)"
      "fold_io (commit_patch gc repo) cs patch1 g1 = (Inr patch', g')"
    by (auto simp: bind_io_Inr)
  from Cons.IH [OF 1(2)] obtain new where "patch' = patch1 @ new" "rendered gc repo cs new g1 g'" by blast
  moreover obtain said e where "patch1 = patch @ said @ e" "e = [] \<or> e = [newline]" "said @ e = [] \<or> last (said @ e) = newline"
      "answers gc repo [''-c'', ''core.quotePath=true'', ''show'', ''--format=fuller'', ''--binary'', ''--full-index'', ''--find-renames'',
          ''--no-ext-diff'', ''--no-textconv'', ''--no-color'', commit_oid c] None g said g1"
    using commit_patch_rendered [OF 1(1)] by blast
  ultimately show ?case
    by (intro exI [of _ "said @ e @ new"] conjI) (simp, subst rendered.simps(2), blast)
qed (simp add: ret_io_def)

text \<open>The review is read off the answers, in this order and up to the last one.\<close>

definition reads_off :: "'g git_code \<Rightarrow> uuid \<Rightarrow> Review \<Rightarrow> 'g \<Rightarrow> 'g \<Rightarrow> bool" where
  "reads_off gc repo rv g g' \<longleftrightarrow> (\<exists>text g1 g2 g3.
     answers gc repo [''rev-list'', ''--reverse'', rv_base_oid rv @ ''..'' @ rv_head_oid rv] None g text g1
     \<and> shown gc repo (str_lines text) (rv_commits rv) g1 g2
     \<and> listed gc repo (rv_commits rv) (rv_files rv) g2 g3
     \<and> rendered gc repo (rv_commits rv) (rv_patch rv) g3 g')"

lemma commits_shown:
  assumes "commits gc repo base head g = (Inr cs, g')"
  shows "\<exists>text g1. answers gc repo [''rev-list'', ''--reverse'', base @ ''..'' @ head] None g text g1 \<and> shown gc repo (str_lines text) cs g1 g'"
proof -
  obtain out g1 p where o: "git_ok gc ''enumerate commits'' repo [''rev-list'', ''--reverse'', base @ ''..'' @ head] None 15 (16 * 1024) g = (Inr out, g1)"
      "fold_io (inspect_commit gc repo) (str_lines (stdout out)) ([], base) g1 = (Inr (cs, p), g')"
    using assms unfolding commits_def by (auto simp: io_simps Let_def from_utf8_def split: if_splits)
  show ?thesis using git_ok_answers [OF o(1)] inspect_shown [OF o(2)] by auto
qed

definition review_describes :: "(string \<Rightarrow> string) \<Rightarrow> Submission \<Rightarrow> string \<Rightarrow> Review \<Rightarrow> bool" where
  "review_describes h sub contents rv \<longleftrightarrow>
     rv_repository rv = repository sub \<and> rv_branch rv = branch sub
     \<and> rv_expected_oid rv = to_ascii_lowercase (expected_oid sub) \<and> eq_ignore_ascii_case (base_oid sub) (rv_base_oid rv)
     \<and> read_bundle_header contents (branch sub)
         = Inr \<lparr>header_base = rv_base_oid rv, header_head = rv_head_oid rv, header_reference = target_ref (branch sub)\<rparr>
     \<and> rv_head_oid rv \<noteq> rv_base_oid rv \<and> rv_bundle_sha256 rv = h contents"

definition review_complete :: "Review \<Rightarrow> bool" where
  "review_complete rv \<longleftrightarrow>
     linear (rv_base_oid rv) (rv_commits rv) \<and> rv_commits rv \<noteq> [] \<and> length (rv_commits rv) \<le> 100
     \<and> list_all commit_plain (rv_commits rv)
     \<and> files_of (rv_commits rv) (rv_files rv) \<and> rv_files rv \<noteq> [] \<and> length (rv_patch rv) \<le> 2 * 1024 * 1024 + 1"

text \<open>
  The header of a bundle, by itself: it ends at the first blank line, within 64 KiB; after the signature it holds, in any
  order and among empty lines only, one prerequisite and one reference.
\<close>

definition oid_of :: "string \<Rightarrow> string \<Rightarrow> bool" where
  "oid_of s oid \<longleftrightarrow> length s = 40 \<and> list_all is_ascii_hexdigit s \<and> s \<noteq> replicate 40 (CHR ''0'') \<and> oid = to_ascii_lowercase s"

definition prerequisite_line :: "string \<Rightarrow> string \<Rightarrow> bool" where
  "prerequisite_line line base \<longleftrightarrow> (\<exists>s c. line = CHR ''-'' # s @ c \<and> oid_of s base \<and> (c = [] \<or> hd c = CHR '' ''))"

definition reference_line :: "string \<Rightarrow> string \<Rightarrow> string \<Rightarrow> bool" where
  "reference_line line head name \<longleftrightarrow> (\<exists>s. line = s @ CHR '' '' # name \<and> oid_of s head)"

definition declares :: "string \<Rightarrow> string \<Rightarrow> string \<Rightarrow> string \<Rightarrow> bool" where
  "declares contents br base head \<longleftrightarrow> (\<exists>header pack ls p r.
     contents = header @ pack \<and> length header \<le> 64 * 1024 + 1 \<and> ends_with [newline, newline] header
     \<and> (\<forall>a b. header = a @ [newline, newline] @ b \<longrightarrow> b = [])
     \<and> str_lines header = ''# v2 git bundle'' # ls \<and> filter (\<lambda>l. l \<noteq> []) ls \<in> {[p, r], [r, p]}
     \<and> prerequisite_line p base \<and> reference_line r head (''refs/heads/'' @ br))"

lemma validate_oid_of: "validate_oid s False = Inr u \<longleftrightarrow> oid_of s (to_ascii_lowercase s)"
  by (auto simp: validate_oid_def oid_of_def ZERO_OID_def)

lemma header_end_first:
  assumes "header_end s = Some n"
  shows "n \<le> length s \<and> ends_with [newline, newline] (take n s) \<and> (\<forall>a b. take n s = a @ [newline, newline] @ b \<longrightarrow> b = [])"
  using assms
proof (induction s arbitrary: n rule: header_end.induct)
  case (1 a b s)
  show ?case
  proof (cases "a = newline \<and> b = newline")
    case True
    with 1(2) have "n = 2" by simp
    with True show ?thesis by (auto simp: ends_with_iff append_eq_Cons_conv Cons_eq_append_conv)
  next
    case False
    with 1(2) obtain m where m: "n = Suc m" "header_end (b # s) = Some m" by auto
    have IH: "m \<le> length (b # s)" "ends_with [newline, newline] (take m (b # s))"
        "\<And>x y. take m (b # s) = x @ [newline, newline] @ y \<Longrightarrow> y = []"
      using 1(1) [OF False m(2)] by blast+
    have "y = []" if eq: "take n (a # b # s) = x @ [newline, newline] @ y" for x y
    proof (cases x)
      case Nil
      with eq False m(1) show ?thesis by (cases m) auto
    next
      case (Cons c x')
      with eq m(1) have "take m (b # s) = x' @ [newline, newline] @ y" by simp
      then show ?thesis by (rule IH(3))
    qed
    moreover have "ends_with [newline, newline] (take n (a # b # s))"
      using IH(2) m(1) unfolding ends_with_iff by (metis append_Cons take_Suc_Cons)
    ultimately show ?thesis using IH(1) m(1) by simp
  qed
qed simp_all

lemma header_line_kinds:
  assumes "header_line line (p, r) = Inr (p', r')"
  shows "line = [] \<and> p' = p \<and> r' = r
    \<or> line \<noteq> [] \<and> p = None \<and> r' = r \<and> (\<exists>base. p' = Some base \<and> prerequisite_line line base)
    \<or> line \<noteq> [] \<and> r = None \<and> p' = p \<and> (\<exists>head name. r' = Some (head, name) \<and> reference_line line head name)"
proof (cases "line = []")
  case False
  show ?thesis
  proof (cases "strip_prefix ''-'' line")
    case (Some rest)
    let ?s = "case split_once (CHR '' '') rest of None \<Rightarrow> rest | Some (oid, _) \<Rightarrow> oid"
    have l: "line = CHR ''-'' # rest" using Some by (simp add: strip_prefix_Some_iff)
    have s: "oid_of ?s (to_ascii_lowercase ?s)" "p = None" "p' = Some (to_ascii_lowercase ?s)" "r' = r"
      using assms False Some by (auto simp: header_line_def Let_def bind_res_Inr_iff validate_oid_of split: if_splits)
    have "\<exists>c. rest = ?s @ c \<and> (c = [] \<or> hd c = CHR '' '')"
      by (auto simp: split_once_Some_iff split: option.splits prod.splits)
    then have "prerequisite_line line (to_ascii_lowercase ?s)" unfolding prerequisite_line_def using l s(1) by auto
    then show ?thesis using s False by blast
  next
    case None
    then show ?thesis using assms False
      by (auto simp: header_line_def bind_res_Inr_iff validate_oid_of reference_line_def split_once_Some_iff split: option.splits if_splits)
  qed
qed (use assms in \<open>simp add: header_line_def\<close>)

lemma header_lines_kinds:
  assumes "fold_res header_line ls (p, r) = Inr (p', r')"
  shows "let L = filter (\<lambda>l. l \<noteq> []) ls in
      L = [] \<and> p' = p \<and> r' = r
    \<or> p = None \<and> r' = r \<and> (\<exists>l base. L = [l] \<and> p' = Some base \<and> prerequisite_line l base)
    \<or> r = None \<and> p' = p \<and> (\<exists>l head name. L = [l] \<and> r' = Some (head, name) \<and> reference_line l head name)
    \<or> p = None \<and> r = None \<and> (\<exists>l m base head name. L \<in> {[l, m], [m, l]} \<and> p' = Some base \<and> prerequisite_line l base
         \<and> r' = Some (head, name) \<and> reference_line m head name)"
  using assms
proof (induction ls arbitrary: p r)
  case (Cons line ls)
  then obtain p1 r1 where 1: "header_line line (p, r) = Inr (p1, r1)" "fold_res header_line ls (p1, r1) = Inr (p', r')"
    by (auto simp: bind_res_Inr_iff)
  from header_line_kinds [OF 1(1)] Cons.IH [OF 1(2)] show ?case
    unfolding Let_def by (elim disjE conjE exE) auto
qed simp

lemma header_of_lines_read:
  assumes "header_of_lines br lines = Inr hdr"
  shows "\<exists>ls. lines = ''# v2 git bundle'' # ls
    \<and> fold_res header_line ls (None, None) = Inr (Some (header_base hdr), Some (header_head hdr, ''refs/heads/'' @ br))"
  using assms unfolding header_of_lines_def
  by (auto simp: bind_res_Inr_iff target_ref_def split: list.splits if_splits)

lemma from_utf8_Inr: "from_utf8 e s = Inr t \<longleftrightarrow> valid_utf8 s \<and> t = s"
  by (auto simp: from_utf8_def)

lemma read_bundle_header_declares:
  assumes "read_bundle_header contents br = Inr hdr"
  shows "declares contents br (header_base hdr) (header_head hdr)"
proof -
  obtain n x where n: "header_end (take (64 * 1024 + 1) contents) = Some n"
      and x: "header_of_lines br (str_lines (take n (take (64 * 1024 + 1) contents))) = Inr hdr"
    using assms unfolding read_bundle_header_def Let_def bind_res_Inr_iff ok_or_Inr_iff from_utf8_Inr by blast
  obtain ls where ls: "str_lines (take n (take (64 * 1024 + 1) contents)) = ''# v2 git bundle'' # ls"
      and f: "fold_res header_line ls (None, None) = Inr (Some (header_base hdr), Some (header_head hdr, ''refs/heads/'' @ br))"
    using header_of_lines_read [OF x] by blast
  let ?h = "take n (take (64 * 1024 + 1) contents)"
  obtain p r where pr: "filter (\<lambda>l. l \<noteq> []) ls \<in> {[p, r], [r, p]}" "prerequisite_line p (header_base hdr)"
      "reference_line r (header_head hdr) (''refs/heads/'' @ br)"
    using header_lines_kinds [OF f] by (auto simp: Let_def)
  have "contents = ?h @ drop (min n (64 * 1024 + 1)) contents" by (metis append_take_drop_id take_take)
  moreover have "length ?h \<le> 64 * 1024 + 1" by simp
  ultimately show ?thesis unfolding declares_def using header_end_first [OF n] ls pr by blast
qed

lemma header_of_lines_ref: "header_of_lines br ls = Inr hdr \<Longrightarrow> header_reference hdr = target_ref br"
  by (cases ls) (auto simp: header_of_lines_def bind_res_Inr_iff split: if_splits)

lemma read_bundle_header_ref: "read_bundle_header contents br = Inr hdr \<Longrightarrow> header_reference hdr = target_ref br"
  unfolding read_bundle_header_def Let_def by (auto simp: bind_res_Inr_iff dest: header_of_lines_ref)

lemma import_head_ok: "import_head gc repo hdr g = (Inr head, g') \<Longrightarrow> head = header_head hdr \<and> head \<noteq> header_base hdr"
  unfolding import_head_def by (auto simp: io_simps split: if_splits)

lemma prepare_remote_sound:
  assumes "prepare_remote gc repo sub token bytes remote g = (Inr rv, g')"
  shows "\<exists>contents g1. bundle_read gc repo g = Inr contents \<and> review_describes (hash_hex gc) sub contents rv \<and> review_complete rv
    \<and> rv_bundle_bytes rv = bytes \<and> declares contents (branch sub) (rv_base_oid rv) (rv_head_oid rv) \<and> reads_off gc repo rv g1 g'"
proof -
  obtain contents hdr g1 g2 g3 g4 g5 head baseline where
      b: "bundle_read gc repo g = Inr contents" "read_bundle_header contents (branch sub) = Inr hdr"
        "eq_ignore_ascii_case (base_oid sub) (header_base hdr)"
    and h: "import_head gc repo hdr g1 = (Inr head, g2)"
    and c: "commits gc repo (header_base hdr) head g3 = (Inr (rv_commits rv), g4)"
    and f: "changed_files gc repo (rv_commits rv) g4 = (Inr (rv_files rv), g5)"
    and d: "diff gc repo (rv_commits rv) g5 = (Inr (rv_patch rv), g')"
    and rv: "rv_repository rv = repository sub" "rv_branch rv = branch sub" "rv_bundle_bytes rv = bytes"
      "rv_expected_oid rv = to_ascii_lowercase (expected_oid sub)" "rv_base_oid rv = header_base hdr" "rv_head_oid rv = head"
      "rv_bundle_sha256 rv = hash_hex gc contents"
    using assms unfolding prepare_remote_def by (auto simp: io_simps read_bundle_def split: if_splits)
  have head: "head = header_head hdr" using import_head_ok [OF h] by simp
  have "hdr = \<lparr>header_base = rv_base_oid rv, header_head = rv_head_oid rv, header_reference = target_ref (branch sub)\<rparr>"
    using head read_bundle_header_ref [OF b(2)] rv(5,6) by (cases hdr) simp
  then have "review_describes (hash_hex gc) sub contents rv" using b(2,3) rv import_head_ok [OF h] by (auto simp: review_describes_def)
  moreover have "review_complete rv"
    using commits_ok [OF c] changed_files_ok [OF f] diff_ok [OF d] rv(5) by (simp add: review_complete_def)
  moreover have "declares contents (branch sub) (rv_base_oid rv) (rv_head_oid rv)"
    using read_bundle_header_declares [OF b(2)] rv(5,6) head by simp
  moreover have "reads_off gc repo rv g3 g'"
  proof -
    have "fold_io (commit_files gc repo) (rv_commits rv) [] g4 = (Inr (rv_files rv), g5)"
      using f unfolding changed_files_def by (auto simp: io_simps split: if_splits)
    from changed_files_listed [OF this] diff_rendered [OF d [unfolded diff_def]] commits_shown [OF c]
    show ?thesis unfolding reads_off_def rv(5,6) by auto
  qed
  ultimately show ?thesis using b(1) rv(3) by blast
qed

text \<open>
  C10. The review is what the bundle contains: when the preparation of a bundle succeeds, the review names the
  repository, branch and expected state of the submission, the digest of this very bundle, and the one prerequisite
  and the one head that the lines of its header declare. Its commits are those that Git lists between the two, each
  with the texts that Git shows of it, at most 100 in one line without merges from the base; its files are all the
  changes that Git lists of these commits, in their order, at least one and at most 1,000, each with its status and
  its path, and with the old path exactly for a rename or copy; its patch is what Git renders of them, within its
  limit. Nothing is left out or added. No name, date or path that the host is
  shown contains a control character: a path that does, or is no UTF-8, is shown escaped byte by byte.
\<close>

theorem prepared_review_faithful:
  assumes "prepare_remote gc repo sub token bytes remote g = (Inr rv, g')"
  shows "\<exists>contents g1. bundle_read gc repo g = Inr contents \<and> review_describes (hash_hex gc) sub contents rv \<and> review_complete rv
    \<and> rv_bundle_bytes rv = bytes \<and> declares contents (branch sub) (rv_base_oid rv) (rv_head_oid rv) \<and> reads_off gc repo rv g1 g'"
  using assms by (rule prepare_remote_sound)

section \<open>The push\<close>

text \<open>A machine that also writes down the commands it is given.\<close>

definition recording :: "'g git_code \<Rightarrow> ('g \<times> command list) git_code" where
  "recording gc =
     \<lparr>exec = (\<lambda>c (g, cs). case exec gc c g of (p, g') \<Rightarrow> (p, g', cs @ [c])),
      bundle_read = (\<lambda>repo (g, cs). bundle_read gc repo g), bundle_path = bundle_path gc,
      make_repository = (\<lambda>repo (g, cs). case make_repository gc repo g of (r, g') \<Rightarrow> (r, g', cs)),
      base64 = base64 gc, passed_env = passed_env gc, hash_hex = hash_hex gc\<rparr>"

definition git_command :: "'g git_code \<Rightarrow> uuid \<Rightarrow> string list \<Rightarrow> string option \<Rightarrow> nat \<Rightarrow> command" where
  "git_command gc repo args token seconds =
     \<lparr>cmd_repo = repo, cmd_args = ISOLATION @ args, cmd_env = git_env gc token, cmd_seconds = seconds\<rparr>"

lemma git_recording:
  "git (recording gc) repo args token seconds limit (g, cs) =
     (case git gc repo args token seconds limit g of (r, g') \<Rightarrow> (r, g', cs @ [git_command gc repo args token seconds]))"
proof -
  have env: "git_env (recording gc) token = git_env gc token" by (simp add: git_env_def recording_def split: option.splits)
  have same: "exec (recording gc) c (g, cs) = (case exec gc c g of (p, g') \<Rightarrow> (p, g', cs @ [c]))" "base64 (recording gc) = base64 gc" for c
    by (simp_all add: recording_def)
  show ?thesis unfolding git_def env same git_command_def by (auto split: prod.splits process.splits)
qed

lemma recording_simps [simp]:
  "bundle_read (recording gc) repo (g, cs) = bundle_read gc repo g" "hash_hex (recording gc) = hash_hex gc"
  "base64 (recording gc) = base64 gc"
  by (simp_all add: recording_def)

lemma observe_recording:
  "observe_branch (recording gc) action repo token remote target (g, cs) =
     (case observe_branch gc action repo token remote target g of (r, g') \<Rightarrow>
        (r, g', cs @ [git_command gc repo [''ls-remote'', ''--heads'', remote, target] (Some token) 60]))"
  by (auto simp: observe_branch_def git_ok_def bind_io_def lift_io_def git_recording split: prod.splits sum.splits)

definition is_push :: "command \<Rightarrow> bool" where
  "is_push c \<longleftrightarrow> ''push'' \<in> set (cmd_args c)"

text \<open>The push that was reviewed, argument by argument, under the lease on the expected state.\<close>

definition reviewed_push :: "Submission \<Rightarrow> string list" where
  "reviewed_push sub =
     [''push'', ''--porcelain'', ''--no-verify'',
      ''--force-with-lease=refs/heads/'' @ branch sub @ '':''
        @ (if expected_oid sub = replicate 40 (CHR ''0'') then [] else expected_oid sub),
      ''https://github.com/'' @ repository sub @ ''.git'',
      ''refs/friendzone/head:refs/heads/'' @ branch sub]"

definition push_command :: "'g git_code \<Rightarrow> uuid \<Rightarrow> Submission \<Rightarrow> string \<Rightarrow> command" where
  "push_command gc repo sub token = git_command gc repo (reviewed_push sub) (Some token) 120"

lemma push_args_reviewed: "push_args sub (remote_url (repository sub)) = reviewed_push sub"
  by (simp add: push_args_def reviewed_push_def lease_def remote_url_def target_ref_def HEAD_REF_def ZERO_OID_def)

definition expected_state :: "Submission \<Rightarrow> string option" where
  "expected_state sub = (if expected_oid sub = replicate 40 (CHR ''0'') then None else Some (expected_oid sub))"

text \<open>Git lists the branch of the remote: no line, or the one line that names its head.\<close>

definition sees :: "'g git_code \<Rightarrow> uuid \<Rightarrow> Submission \<Rightarrow> string \<Rightarrow> 'g \<Rightarrow> string option \<Rightarrow> 'g \<Rightarrow> bool" where
  "sees gc repo sub token g state g' \<longleftrightarrow> (\<exists>text.
     answers gc repo [''ls-remote'', ''--heads'', ''https://github.com/'' @ repository sub @ ''.git'', ''refs/heads/'' @ branch sub]
       (Some token) g text g'
     \<and> (case state of None \<Rightarrow> text = []
        | Some oid \<Rightarrow> \<exists>s. oid_of s oid \<and> str_lines text = [s @ CHR 0x09 # ''refs/heads/'' @ branch sub]))"

lemma advertised_Inr:
  "advertised name line found = Inr now \<longleftrightarrow> found = None
     \<and> (\<exists>s. line = s @ CHR 0x09 # name \<and> CHR 0x09 \<notin> set s \<and> oid_of s (to_ascii_lowercase s) \<and> now = Some (to_ascii_lowercase s))"
proof (cases "split_once (CHR 0x09) line")
  case None
  moreover from None have "CHR 0x09 \<notin> set line" by (simp add: split_once_None_iff)
  ultimately show ?thesis by (auto simp: advertised_def)
next
  case (Some ab)
  obtain a b where ab: "split_once (CHR 0x09) line = Some (a, b)" using Some by (cases ab) auto
  then have line: "line = a @ CHR 0x09 # b" "CHR 0x09 \<notin> set a" by (simp_all add: split_once_Some_iff)
  have "s = a \<and> name = b" if "line = s @ CHR 0x09 # name" "CHR 0x09 \<notin> set s" for s
    using ab split_once_append [OF that(2)] that(1) by auto
  then show ?thesis using ab line by (auto simp: advertised_def bind_res_Inr_iff validate_oid_of)
qed

lemma advertised_lines:
  "fold_res (advertised name) ls None = Inr now \<Longrightarrow>
     (case now of None \<Rightarrow> ls = [] | Some oid \<Rightarrow> \<exists>s. oid_of s oid \<and> ls = [s @ CHR 0x09 # name])"
proof (cases ls)
  case (Cons l rest)
  assume "fold_res (advertised name) ls None = Inr now"
  moreover from this Cons obtain s where s: "l = s @ CHR 0x09 # name" "oid_of s (to_ascii_lowercase s)"
      "fold_res (advertised name) rest (Some (to_ascii_lowercase s)) = Inr now"
    by (auto simp: bind_res_Inr_iff advertised_Inr)
  moreover from s(3) have "rest = []" by (cases rest) (auto simp: bind_res_Inr_iff advertised_Inr)
  ultimately show ?thesis using Cons by auto
qed auto

lemma str_lines_Nil: "str_lines s = [] \<Longrightarrow> s = []"
  by (cases "split_on newline s"; cases "tl (split_on newline s)") (auto simp: str_lines_def Let_def split: if_splits dest: split_on_one)

lemma observe_sees:
  assumes "observe_branch gc action repo token (remote_url (repository sub)) (target_ref (branch sub)) g = (Inr now, g')"
  shows "sees gc repo sub token g now g'"
proof -
  obtain out where o: "git_ok gc action repo [''ls-remote'', ''--heads'', remote_url (repository sub), target_ref (branch sub)] (Some token)
        60 (128 * 1024) g = (Inr out, g')" "parse_ls_remote (stdout out) (target_ref (branch sub)) = Inr now"
    using assms unfolding observe_branch_def bind_io_Inr lift_io_Inr by blast
  have "case now of None \<Rightarrow> stdout out = [] | Some oid \<Rightarrow> \<exists>s. oid_of s oid \<and> str_lines (stdout out) = [s @ CHR 0x09 # target_ref (branch sub)]"
    using o(2) by (auto simp: parse_ls_remote_def bind_res_Inr_iff from_utf8_Inr split: if_splits option.splits
        dest!: advertised_lines str_lines_Nil)
  with git_ok_answers [OF o(1)] show ?thesis unfolding sees_def remote_url_def target_ref_def by blast
qed

lemma not_push_observe: "\<not> is_push (git_command gc repo [''ls-remote'', ''--heads'', remote_url name, target_ref b] token n)"
  by (simp add: is_push_def git_command_def ISOLATION_def remote_url_def target_ref_def)

lemma is_push_push: "is_push (push_command gc repo sub token)"
  by (simp add: is_push_def push_command_def git_command_def reviewed_push_def)

text \<open>
  C11. One attempt, under a lease, verified: executing an approved publication runs \<open>git push\<close> at most once, and
  then with exactly these arguments: the reviewed head to the submitted branch of the submitted repository, under
  \<open>--force-with-lease\<close> on the expected object, or on the absence of the branch when the submission expects none. It
  runs only when the stored bundle has the reviewed digest and \<open>git ls-remote\<close>, just before it, listed the branch in
  the expected state. The execution reports success only when that push succeeded and \<open>git ls-remote\<close>, after
  it, listed the branch at the reviewed head; when nothing is pushed, it reports an error.
\<close>

theorem push_attempted_once:
  assumes "execute_remote (recording gc) repo sub review token (remote_url (repository sub)) (g, []) = (r, g', cmds)"
  shows "filter is_push cmds = [] \<and> (\<forall>out. r \<noteq> Inr out)
    \<or> filter is_push cmds = [push_command gc repo sub token]
      \<and> (\<exists>rv contents g1. review = Some rv \<and> bundle_read gc repo g = Inr contents \<and> hash_hex gc contents = rv_bundle_sha256 rv
        \<and> sees gc repo sub token g (expected_state sub) g1
        \<and> (\<forall>out. r = Inr out \<longrightarrow> (\<exists>push_out g2. git gc repo (reviewed_push sub) (Some token) 120 MAX_GIT_OUTPUT g1 = (Inr push_out, g2)
            \<and> succeeded push_out \<and> sees gc repo sub token g2 (Some (rv_head_oid rv)) g')))"
proof (cases review)
  case None
  with assms show ?thesis by (auto simp: execute_remote_def bind_io_def lift_io_def)
next
  case (Some rv)
  note exec_def = bind_io_def lift_io_def ret_io_def read_bundle_def
  let ?url = "remote_url (repository sub)" and ?ref = "target_ref (branch sub)"
  obtain br g1 where before: "observe_branch gc ''recheck GitHub branch before publishing'' repo token ?url ?ref g = (br, g1)" by fastforce
  have zero: "(if expected_oid sub \<noteq> ZERO_OID then Some (expected_oid sub) else None) = expected_state sub"
    by (simp add: expected_state_def ZERO_OID_def)
  note run = assms [unfolded execute_remote_def Some push_args_reviewed zero]
  show ?thesis
  proof (cases "(\<exists>contents. bundle_read gc repo g = Inr contents \<and> hash_hex gc contents = rv_bundle_sha256 rv) \<and> br = Inr (expected_state sub)")
    case False
    have "filter is_push cmds = [] \<and> (\<forall>out. r \<noteq> Inr out)"
      using run False before
      by (auto simp: exec_def observe_recording not_push_observe split: sum.splits prod.splits if_splits)
    then show ?thesis by blast
  next
    case True
    then obtain contents where c: "bundle_read gc repo g = Inr contents" "hash_hex gc contents = rv_bundle_sha256 rv"
        and br: "br = Inr (expected_state sub)" by blast
    obtain pr g2 where p: "git gc repo (reviewed_push sub) (Some token) 120 MAX_GIT_OUTPUT g1 = (pr, g2)" by fastforce
    obtain vr g3 where v: "observe_branch gc ''verify published GitHub branch'' repo token ?url ?ref g2 = (vr, g3)" by fastforce
    note steps = exec_def observe_recording git_recording Let_def c before br p v
    note pushes = not_push_observe is_push_push [of gc repo sub token, unfolded push_command_def]
    have "filter is_push cmds = [push_command gc repo sub token]
        \<and> (\<forall>out. r = Inr out \<longrightarrow> (\<exists>push_out. pr = Inr push_out \<and> succeeded push_out \<and> vr = Inr (Some (rv_head_oid rv)) \<and> g' = g3))"
    proof (cases pr)
      case (Inl e)
      with run show ?thesis by (auto simp: steps pushes push_command_def)
    next
      case (Inr out)
      show ?thesis
      proof (cases "succeeded out")
        case True
        with run Inr show ?thesis by (cases vr) (auto simp: steps pushes push_command_def split: if_splits)
      next
        case False
        with run Inr show ?thesis by (auto simp: steps pushes push_command_def)
      qed
    qed
    moreover have "sees gc repo sub token g (expected_state sub) g1" by (rule observe_sees [OF before [unfolded br]])
    moreover have "sees gc repo sub token g2 (Some (rv_head_oid rv)) g3" if "vr = Inr (Some (rv_head_oid rv))"
      using v unfolding that by (rule observe_sees)
    ultimately show ?thesis using Some c p
      by (intro disjI2 conjI exI [of _ rv] exI [of _ contents] exI [of _ g1]) (simp_all, blast)
  qed
qed

section \<open>Witnesses\<close>

text \<open>A repository with one commit, a bundle with one more, and a Git that answers about them.\<close>

definition sample_base :: string where "sample_base = replicate 40 (CHR ''a'')"
definition sample_head :: string where "sample_head = replicate 40 (CHR ''b'')"

definition sample_bundle :: string where
  "sample_bundle = ''# v2 git bundle'' @ [newline] @ ''-'' @ sample_base @ '' first'' @ [newline]
     @ sample_head @ '' refs/heads/topic'' @ [newline, newline] @ ''PACK''"

definition sample_push :: Submission where
  "sample_push = \<lparr>sub_request_key = ''k'', session_id = ''s'', repository = ''o/r'', branch = ''topic'',
     base_oid = sample_base, expected_oid = ZERO_OID\<rparr>"

definition sample_answer :: "string list \<Rightarrow> bool \<Rightarrow> string" where
  "sample_answer args pushed =
     (let command = (case args of a # _ \<Rightarrow> a | [] \<Rightarrow> []) in
      if command = ''ls-remote'' then (if pushed then sample_head @ [CHR 0x09] @ ''refs/heads/topic'' @ [newline] else [])
      else if command = ''rev-parse'' then (if last args = BASE_REF then sample_base else sample_head) @ [newline]
      else if command = ''cat-file'' then
        (if args ! 1 = ''-t'' then ''commit'' @ [newline]
         else if last args = ''--batch-check=%(objectname)'' then sample_base @ [newline]
         else sample_base @ '' commit 200'' @ [newline] @ sample_head @ '' commit 210'' @ [newline])
      else if command = ''rev-list'' then sample_head @ [newline]
      else if command = ''diff'' then ''M'' @ [CHR 0x00] @ ''f.txt'' @ [CHR 0x00]
      else if command = ''show'' then
        sample_head @ [CHR 0x00] @ sample_base @ [CHR 0x00] @ ''A'' @ [CHR 0x00] @ ''a@b'' @ [CHR 0x00] @ ''2024'' @ [CHR 0x00] @ ''msg'' @ [newline]
      else if command = ''push'' then ''token ghp-1 used''
      else ''patch'')"

definition sample_b64 :: "string \<Rightarrow> string" where
  "sample_b64 s = replicate (4 * ((length s + 2) div 3)) (CHR ''A'')"

definition sample_git :: "bool git_code" where
  "sample_git =
     \<lparr>exec = (\<lambda>c pushed. let args = drop (length ISOLATION) (cmd_args c) in
        (Exited (Some 0) True [Some (sample_answer args pushed)] [], pushed \<or> ''push'' \<in> set args)),
      bundle_read = (\<lambda>_ _. Inr sample_bundle), bundle_path = (\<lambda>_. ''/b''), make_repository = (\<lambda>_. ret_io ()),
      base64 = sample_b64, passed_env = (\<lambda>_. None), hash_hex = (\<lambda>_. ''d'')\<rparr>"

definition sample_review :: Review where
  "sample_review =
     \<lparr>rv_repository = ''o/r'', rv_branch = ''topic'', rv_expected_oid = ZERO_OID, rv_base_oid = sample_base,
      rv_head_oid = sample_head, rv_bundle_sha256 = ''d'', rv_bundle_bytes = 9,
      rv_commits = [\<lparr>commit_oid = sample_head, parents = [sample_base], author = ''A'', email = ''a@b'', authored_at = ''2024'',
        subject = ''msg'', message = ''msg''\<rparr>],
      rv_files = [\<lparr>file_commit = sample_head, file_status = ''M'', file_path = ''f.txt'', old_path = None\<rparr>],
      rv_patch = ''patch'' @ [newline]\<rparr>"

lemma sample_prepared: "prepare_remote sample_git 7 sample_push ''ghp-1'' 9 (remote_url ''o/r'') False = (Inr sample_review, False)"
  by code_simp

lemma sample_executed:
  "execute_remote (recording sample_git) 7 sample_push (Some sample_review) ''ghp-1'' (remote_url (repository sample_push)) (False, [])
    = (Inr (''token [redacted] used'' @ [newline] @ ''Verified refs/heads/topic at '' @ sample_head), True,
       [git_command sample_git 7 [''ls-remote'', ''--heads'', remote_url ''o/r'', target_ref ''topic''] (Some ''ghp-1'') 60,
        push_command sample_git 7 sample_push ''ghp-1'',
        git_command sample_git 7 [''ls-remote'', ''--heads'', remote_url ''o/r'', target_ref ''topic''] (Some ''ghp-1'') 60])"
  by code_simp

lemma sample_base64: "base64_code sample_b64"
  by (auto simp: base64_code_def sample_b64_def list_all_iff) code_simp

theorem prepared_review_faithful_witness:
  "\<exists>contents g1. bundle_read sample_git 7 False = Inr contents \<and> review_describes (hash_hex sample_git) sample_push contents sample_review
     \<and> review_complete sample_review \<and> rv_bundle_bytes sample_review = 9
     \<and> declares contents (branch sample_push) (rv_base_oid sample_review) (rv_head_oid sample_review)
     \<and> reads_off sample_git 7 sample_review g1 False"
  by (rule prepared_review_faithful [OF sample_prepared])

theorem push_attempted_once_witness:
  "\<exists>contents g1 out g2. bundle_read sample_git 7 False = Inr contents \<and> hash_hex sample_git contents = ''d''
     \<and> sees sample_git 7 sample_push ''ghp-1'' False None g1
     \<and> git sample_git 7 (reviewed_push sample_push) (Some ''ghp-1'') 120 MAX_GIT_OUTPUT g1 = (Inr out, g2)
     \<and> succeeded out \<and> sees sample_git 7 sample_push ''ghp-1'' g2 (Some sample_head) True"
proof -
  have "repository sample_push = ''o/r''" "rv_head_oid sample_review = sample_head" "rv_bundle_sha256 sample_review = ''d''"
      "expected_state sample_push = None"
    by (simp_all add: sample_push_def sample_review_def expected_state_def ZERO_OID_def)
  with push_attempted_once [OF sample_executed] show ?thesis by fastforce
qed

theorem git_output_redacted_witness:
  "\<exists>out. git sample_git 7 (push_args sample_push (remote_url ''o/r'')) (Some ''ghp-1'') 120 MAX_GIT_OUTPUT False = (Inr out, True)
     \<and> stdout out = ''token [redacted] used'' \<and> \<not> shows_secret sample_b64 ''ghp-1'' (output_text out)"
proof -
  let ?out = "\<lparr>exit_status = Some 0, stdout = ''token [redacted] used'', stderr = []\<rparr>"
  have run: "git sample_git 7 (push_args sample_push (remote_url ''o/r'')) (Some ''ghp-1'') 120 MAX_GIT_OUTPUT False = (Inr ?out, True)"
    by code_simp
  have "\<forall>c \<in> set ''ghp-1''. 32 \<le> byte c \<and> byte c < 127 \<and> c \<notin> set ''[]''" "\<not> contains_str ''ghp-1'' ''redacted''" by code_simp+
  from git_output_redacted [OF _ this _ run] sample_base64 have "\<not> shows_secret sample_b64 ''ghp-1'' (output_text ?out)"
    by (simp add: sample_git_def)
  with run show ?thesis by (intro exI [of _ ?out]) simp
qed

end
