(* ===== verification/Push_Store.thy ===== *)
theory Push_Store
  imports Pushes Push_Check
begin

text \<open>
  The store of publications: every operation is a transaction of the durable store, and an invariant of the
  single publications survives it when the publications it writes have it.
\<close>

section \<open>Transactions\<close>

definition synced :: "Pushes \<Rightarrow> bool" where
  "synced ps \<longleftrightarrow> stored ps \<and> store_file ps = Some (data ps)"

interpretation push_store: durable_store data synced "publish pc" for pc
proof
  fix ps fault s assume ps: "synced ps"
  then have "ps\<lparr>store_file := Some (data ps)\<rparr> = ps" by (cases ps) (simp add: synced_def)
  with ps show "(\<exists>e. publish pc fault s ps = (Inl e, ps))
      \<or> (\<exists>ps'. publish pc fault s ps = (Inr (), ps') \<and> synced ps' \<and> data ps' = s)"
    by (cases "MAX_METADATA < push_len pc s"; cases fault) (auto simp: publish_def synced_def atomic_write_def)
qed

lemma push_transaction_transact: "transaction pc fault edit ps = transact data (publish pc) fault edit ps"
  by (auto simp: transaction_def transact_def finish_transaction_def split: sum.splits prod.splits)

lemma finish_transact: "finish_transaction pc fault r ps = transact data (publish pc) fault (\<lambda>_. r) ps"
  by (auto simp: transact_def finish_transaction_def split: sum.splits prod.splits)

text \<open>A publication under its own id, with an invariant.\<close>

definition saved_inv :: "(Job \<Rightarrow> bool) \<Rightarrow> Saved \<Rightarrow> bool" where
  "saved_inv Q s \<longleftrightarrow> saved_version s = 2 \<and> btree (jobs s) \<and> (\<forall>(i, j) \<in> set (jobs s). push_id j = i \<and> Q j)"

lemma saved_invD: "saved_inv Q s \<Longrightarrow> map_of (jobs s) i = Some j \<Longrightarrow> push_id j = i \<and> Q j"
  by (auto simp: saved_inv_def dest!: map_of_SomeD)

lemma saved_inv_mono: "saved_inv Q s \<Longrightarrow> (\<And>j. Q j \<Longrightarrow> R j) \<Longrightarrow> saved_inv R s"
  by (auto simp: saved_inv_def)

lemma saved_inv_put: "saved_inv Q s \<Longrightarrow> push_id j = i \<Longrightarrow> Q j \<Longrightarrow> saved_inv Q (put_push i j s)"
  by (auto simp: saved_inv_def put_push_def dest!: set_btree_insert)

lemma btree_delete: "btree m \<Longrightarrow> btree (AList.delete k m)"
  by (auto simp: btree_def AList.delete_eq sorted_wrt_filter filter_map [symmetric] comp_def split_beta sorted_wrt_map)

lemma saved_inv_delete: "saved_inv Q s \<Longrightarrow> saved_inv Q (delete_push i s)"
proof -
  have "set (AList.delete i (jobs s)) \<subseteq> set (jobs s)" by (auto simp: AList.delete_eq)
  then show "saved_inv Q s \<Longrightarrow> saved_inv Q (delete_push i s)"
    unfolding saved_inv_def delete_push_def by (auto simp: btree_delete dest!: subsetD)
qed

lemma put_push_simps [simp]:
  "map_of (jobs (put_push i j s)) = (map_of (jobs s))(i \<mapsto> j)"
  "saved_version (put_push i j s) = saved_version s"
  by (simp_all add: put_push_def)

lemma set_push_simps [simp]:
  "push_id (set_push t st out j) = push_id j" "push_status (set_push t st out j) = st" "push_review (set_push t st out j) = push_review j"
  "push_print (set_push t st out j) = push_print j"
  by (simp_all add: set_push_def)

lemma transaction_inv:
  assumes "synced ps" and "saved_inv Q (data ps)" and "\<And>r s. edit (data ps) = Inr (r, s) \<Longrightarrow> saved_inv Q s"
    and "transaction pc fault edit ps = (r, ps')"
  shows "synced ps' \<and> saved_inv Q (data ps')"
  using push_store.transact_keeps [of ps "saved_inv Q" edit pc fault] assms by (simp add: push_transaction_transact)

section \<open>Admission\<close>

lemma oldest_in: "oldest js = Some j \<Longrightarrow> j \<in> set js"
  by (induction js arbitrary: j) (auto split: option.splits if_splits)

text \<open>The loop ends and removes only settled publications.\<close>

lemma prune_returns:
  assumes "saved_inv Q s"
  shows "\<exists>r. prune_for_admission now incoming s removed = Some r
    \<and> (\<forall>is s'. r = Inr (is, s') \<longrightarrow> push_fits incoming s' \<and> saved_inv Q s'
         \<and> (\<forall>i j. map_of (jobs s') i = Some j \<longrightarrow> map_of (jobs s) i = Some j)
         \<and> (\<forall>i j. map_of (jobs s) i = Some j \<and> \<not> terminal j \<longrightarrow> map_of (jobs s') i = Some j))"
  using assms
proof (induction "length (jobs s)" arbitrary: s removed rule: less_induct)
  case less
  show ?case
  proof (cases "push_fits incoming s")
    case True
    with less.prems show ?thesis by (subst prune_for_admission.simps) simp
  next
    case False
    show ?thesis
    proof (cases "oldest (filter (automatically_removable now) (map snd (jobs s)))")
      case None
      with False show ?thesis by (subst prune_for_admission.simps) simp
    next
      case (Some j)
      let ?s = "delete_push (push_id j) s"
      have j: "terminal j" "j \<in> snd ` set (jobs s)" using oldest_in [OF Some] by (auto simp: automatically_removable_def)
      then have here: "(push_id j, j) \<in> set (jobs s)" using less.prems by (auto simp: saved_inv_def)
      then have of: "map_of (jobs s) (push_id j) = Some j"
        using less.prems map_of_in_distinct [OF btree_distinct, of "jobs s"] by (simp add: saved_inv_def)
      have shorter: "length (jobs ?s) < length (jobs s)"
        using here by (simp add: delete_push_def AList.delete_eq) (rule length_filter_less [of _ _], assumption, simp)
      obtain r where r: "prune_for_admission now incoming ?s (removed @ [push_id j]) = Some r"
        "\<forall>is s'. r = Inr (is, s') \<longrightarrow> push_fits incoming s' \<and> saved_inv Q s'
           \<and> (\<forall>i j. map_of (jobs s') i = Some j \<longrightarrow> map_of (jobs ?s) i = Some j)
           \<and> (\<forall>i j. map_of (jobs ?s) i = Some j \<and> \<not> terminal j \<longrightarrow> map_of (jobs s') i = Some j)"
        using less.hyps [OF shorter saved_inv_delete [OF less.prems]] by blast
      have eq: "map_of (jobs ?s) i = (if i = push_id j then None else map_of (jobs s) i)" for i
        by (simp add: delete_push_def AList.delete_conv')
      have "prune_for_admission now incoming s removed = Some r"
        using r(1) False Some by (subst prune_for_admission.simps) simp
      moreover have "\<forall>is s'. r = Inr (is, s') \<longrightarrow> push_fits incoming s' \<and> saved_inv Q s'
          \<and> (\<forall>i j. map_of (jobs s') i = Some j \<longrightarrow> map_of (jobs s) i = Some j)
          \<and> (\<forall>i j. map_of (jobs s) i = Some j \<and> \<not> terminal j \<longrightarrow> map_of (jobs s') i = Some j)"
        using r(2) j(1) of unfolding eq by (metis option.distinct(1) option.inject)
      ultimately show ?thesis by blast
    qed
  qed
qed

lemma admit_push_inv:
  assumes "saved_inv Q s" and "Q j" and "\<not> terminal j"
  shows "\<exists>r. admit_push now j s = Some r \<and> (\<forall>v is s'. r = Inr ((v, is), s') \<longrightarrow> saved_inv Q s' \<and> v = guest_value j False
    \<and> map_of (jobs s') (push_id j) = Some j)"
proof -
  have "saved_inv Q (put_push (push_id j) j s)" using assms by (intro saved_inv_put) simp_all
  from prune_returns [OF this, of now 0 "[]"] obtain r where r: "prune_for_admission now 0 (put_push (push_id j) j s) [] = Some r"
    "\<forall>is s'. r = Inr (is, s') \<longrightarrow> saved_inv Q s'
       \<and> (\<forall>i k. map_of (jobs (put_push (push_id j) j s)) i = Some k \<and> \<not> terminal k \<longrightarrow> map_of (jobs s') i = Some k)"
    by blast
  then show ?thesis using assms(3) by (auto simp: admit_push_def bind_res_Inr_iff)
qed

end
