(* ===== verification/Push_World.thy ===== *)
theory Push_World
  imports Push_Store
begin

text \<open>
  The history of a store of publications: guests, the host, the worker with Git, and restarts of the broker in any
  order. The trace records submissions, reviews, approvals, admissions and executed pushes.
\<close>

section \<open>Worlds\<close>

datatype event =
    Submitted Job policy_now
  | Reviewed Job Review bool
  | Host_approved uuid string
  | Admitted Job string policy_now
  | Executed Job string

record 'g world =
  w_app :: AppState
  w_pushes :: Pushes
  w_git :: 'g
  w_worker :: worker
  w_trace :: "event list"

datatype 'p world_op =
    App_op state_op
  | Submit_op clock io_fault io_fault filing_faults "'p Settings" "state_op list" string IpAddr UploadedBundle
  | Cancel_op clock io_fault string uuid uuid string
  | Acknowledge_op clock io_fault string uuid uuid string
  | Delete_op io_fault "uuid \<Rightarrow> bool" string uuid uuid string
  | Decide_op clock io_fault uuid string Decision_kind
  | Worker_op "'p worker_env"

definition stored_push :: "Pushes \<Rightarrow> uuid \<Rightarrow> Job" where
  "stored_push ps i = the (map_of (jobs (data ps)) i)"

text \<open>What a step of the worker adds to the trace: a review that was taken, an admission, a push that was run.\<close>

definition worker_events :: "AppState \<Rightarrow> worker \<Rightarrow> Pushes \<Rightarrow> worker \<Rightarrow> Pushes \<Rightarrow> event list" where
  "worker_events app old ps new ps' =
     (case old of
        Imported j (Inr rv) rest \<Rightarrow>
          (case (map_of (jobs (data ps)) (push_id j), map_of (jobs (data ps')) (push_id j)) of
             (Some k, Some k') \<Rightarrow>
               if push_status k = Preparing \<and> push_status k' \<in> {Pending, Approved}
               then [Reviewed k' rv (allows_all (github_policy app))] else []
           | _ \<Rightarrow> [])
      | Ready j token rest \<Rightarrow>
          (case new of Publishing _ _ _ \<Rightarrow> [Admitted j token (guest_policy app (push_container j))] | _ \<Rightarrow> [])
      | Publishing j token rest \<Rightarrow> [Executed j token]
      | _ \<Rightarrow> [])"

fun world_step :: "'g push_code \<Rightarrow> 'p world_op \<Rightarrow> 'g world \<Rightarrow> 'g world" where
  "world_step pc (App_op op) w = w\<lparr>w_app := apply_state_op op (w_app w)\<rparr>"
| "world_step pc (Submit_op t pf f ff cfg gap c peer up) w =
     (case submit pc t pf f ff cfg gap c peer up (w_app w, w_pushes w) of
        None \<Rightarrow> w
      | Some (r, app, ps) \<Rightarrow> w\<lparr>w_app := app, w_pushes := ps,
          w_trace := (case r of Inl _ \<Rightarrow> w_trace w
            | Inr v \<Rightarrow> Submitted (stored_push ps (gp_id v)) (guest_policy (w_app w) c) # w_trace w)\<rparr>)"
| "world_step pc (Cancel_op t f c inst i session) w = w\<lparr>w_pushes := snd (cancel pc t f c inst i session (w_pushes w))\<rparr>"
| "world_step pc (Acknowledge_op t f c inst i session) w = w\<lparr>w_pushes := snd (acknowledge pc t f c inst i session (w_pushes w))\<rparr>"
| "world_step pc (Delete_op f ok c inst i session) w = w\<lparr>w_pushes := snd (delete pc f ok c inst i session (w_pushes w))\<rparr>"
| "world_step pc (Decide_op t f i fp d) w =
     (case decide_push pc t f i fp d (w_pushes w) of (r, ps) \<Rightarrow>
        w\<lparr>w_pushes := ps, w_trace := (if d = Decision_kind.Approve \<and> r = Inr () then Host_approved i fp # w_trace w else w_trace w)\<rparr>)"
| "world_step pc (Worker_op e) w =
     (case worker_step pc e (w_app w) (w_worker w) (w_git w) (w_pushes w) of ((wk, ps), g) \<Rightarrow>
        w\<lparr>w_pushes := ps, w_worker := wk, w_git := g,
          w_trace := worker_events (w_app w) (w_worker w) (w_pushes w) wk ps @ w_trace w\<rparr>)"

text \<open>
  Worlds reached from a start without a file. A restart, at any moment, loses the memory and the worker and reads
  the file and the directory; Git and the remote may have moved on.
\<close>

inductive reachable :: "'p itself \<Rightarrow> 'g push_code \<Rightarrow> 'g world \<Rightarrow> bool" for P pc where
  start: "load_pushes pc t af dir_ok No_fault ok Metadata_missing disk = Inr ps \<Longrightarrow> state_ok app
    \<Longrightarrow> reachable P pc \<lparr>w_app = app, w_pushes = ps, w_git = g, w_worker = Idle, w_trace = []\<rparr>"
| step: "reachable P pc w \<Longrightarrow> reachable P pc (world_step pc (op :: 'p world_op) w)"
| restart: "reachable P pc w \<Longrightarrow> store_file (w_pushes w) = Some s
    \<Longrightarrow> load_pushes pc t af dir_ok fault ok (Metadata (push_len pc s) s) (art (w_pushes w)) = Inr ps
    \<Longrightarrow> fresh_start (uuid_supply (w_app w)) app
    \<Longrightarrow> reachable P pc (w\<lparr>w_app := app, w_pushes := ps, w_git := g, w_worker := Idle\<rparr>)"

inductive_cases push_reachableE: "reachable P pc w"

section \<open>History\<close>

text \<open>What no operation changes in a publication.\<close>

definition fixed_part :: "Job \<Rightarrow> uuid \<times> string \<times> uuid \<times> uuid \<times> IpAddr \<times> Submission \<times> string \<times> nat \<times> string \<times> Binding" where
  "fixed_part j = (push_id j, push_container j, push_instance j, push_epoch j, push_peer j, push_submission j,
     bundle_sha256 j, bundle_bytes j, push_print j, push_binding j)"

definition submitted_ids :: "event list \<Rightarrow> uuid list" where
  "submitted_ids tr = List.map_filter (\<lambda>e. case e of Submitted j _ \<Rightarrow> Some (push_id j) | _ \<Rightarrow> None) tr"

definition admitted_ids :: "event list \<Rightarrow> uuid list" where
  "admitted_ids tr = List.map_filter (\<lambda>e. case e of Admitted j _ _ \<Rightarrow> Some (push_id j) | _ \<Rightarrow> None) tr"

definition executed_ids :: "event list \<Rightarrow> uuid list" where
  "executed_ids tr = List.map_filter (\<lambda>e. case e of Executed j _ \<Rightarrow> Some (push_id j) | _ \<Rightarrow> None) tr"

definition submitted_as :: "event list \<Rightarrow> Job \<Rightarrow> policy_now \<Rightarrow> bool" where
  "submitted_as tr j pol \<longleftrightarrow> (\<exists>j0. Submitted j0 pol \<in> set tr \<and> fixed_part j0 = fixed_part j)"

definition known :: "event list \<Rightarrow> Job \<Rightarrow> bool" where
  "known tr j \<longleftrightarrow> (\<exists>pol. submitted_as tr j pol)"

text \<open>Its review was taken; and it was approved by its fingerprint, or the broker allowed all at that moment.\<close>

definition reviewed_as :: "event list \<Rightarrow> Job \<Rightarrow> Review \<Rightarrow> bool \<Rightarrow> bool" where
  "reviewed_as tr j rv allow \<longleftrightarrow> push_review j = Some rv \<and> (\<exists>k. Reviewed k rv allow \<in> set tr \<and> fixed_part k = fixed_part j)"

definition authorised :: "event list \<Rightarrow> Job \<Rightarrow> bool" where
  "authorised tr j \<longleftrightarrow> (\<exists>rv allow. reviewed_as tr j rv allow \<and> (allow \<or> Host_approved (push_id j) (push_print j) \<in> set tr))"

definition job_ok :: "event list \<Rightarrow> Job \<Rightarrow> bool" where
  "job_ok tr j \<longleftrightarrow> known tr j \<and> (push_status j = Pending \<longrightarrow> (\<exists>rv allow. reviewed_as tr j rv allow))
     \<and> (push_status j = Approved \<longrightarrow> authorised tr j)
     \<and> (waiting (push_status j) \<longrightarrow> push_id j \<notin> set (admitted_ids tr))"

text \<open>The review was derived from a bundle with the digest of the publication.\<close>

definition derived :: "'g push_code \<Rightarrow> Job \<Rightarrow> Review \<Rightarrow> bool" where
  "derived pc j rv \<longleftrightarrow> review_complete rv
     \<and> (\<exists>contents. review_describes (sha256_hex (push_crypto pc)) (push_submission j) contents rv)"

fun trace_ok :: "'g push_code \<Rightarrow> event list \<Rightarrow> bool" where
  "trace_ok pc [] = True"
| "trace_ok pc (Reviewed k rv allow # pre) \<longleftrightarrow> derived pc k rv \<and> rv_bundle_sha256 rv = bundle_sha256 k \<and> trace_ok pc pre"
| "trace_ok pc (Admitted j token pol # pre) \<longleftrightarrow>
     push_id j \<notin> set (admitted_ids pre) \<and> submitted_as pre j pol \<and> authorised pre j \<and> trace_ok pc pre"
| "trace_ok pc (Executed j token # pre) \<longleftrightarrow>
     push_id j \<notin> set (executed_ids pre) \<and> (\<exists>pol. Admitted j token pol \<in> set pre) \<and> trace_ok pc pre"
| "trace_ok pc (_ # pre) \<longleftrightarrow> trace_ok pc pre"

definition hist_ok :: "'g push_code \<Rightarrow> AppState \<Rightarrow> event list \<Rightarrow> bool" where
  "hist_ok pc app tr \<longleftrightarrow> state_ok app \<and> trace_ok pc tr \<and> distinct (submitted_ids tr)
     \<and> (\<forall>i \<in> set (submitted_ids tr). i < uuid_supply app) \<and> set (admitted_ids tr) \<subseteq> set (submitted_ids tr)
     \<and> (\<forall>j pol. Submitted j pol \<in> set tr \<longrightarrow> epoch_kept app (push_container j) (push_epoch j) pol)"

fun worker_jobs :: "worker \<Rightarrow> Job list" where
  "worker_jobs Idle = []"
| "worker_jobs (Loop js) = js"
| "worker_jobs (Stale j js) = j # js"
| "worker_jobs (To_prepare j js) = j # js"
| "worker_jobs (To_push j js) = j # js"
| "worker_jobs (Unbound j _ js) = j # js"
| "worker_jobs (Importing j _ js) = j # js"
| "worker_jobs (Imported j _ js) = j # js"
| "worker_jobs (Changed j js) = j # js"
| "worker_jobs (Ready j _ js) = j # js"
| "worker_jobs (Publishing j _ js) = j # js"
| "worker_jobs (Published j _ js) = j # js"

definition snap_ok :: "event list \<Rightarrow> Job \<Rightarrow> bool" where
  "snap_ok tr j \<longleftrightarrow> known tr j \<and> (push_status j = Approved \<longrightarrow> authorised tr j)"

fun point_ok :: "'g push_code \<Rightarrow> event list \<Rightarrow> worker \<Rightarrow> bool" where
  "point_ok pc tr (To_push j js) \<longleftrightarrow> push_status j = Approved"
| "point_ok pc tr (Ready j token js) \<longleftrightarrow> push_status j = Approved"
| "point_ok pc tr (Publishing j token js) \<longleftrightarrow> (\<exists>pol. Admitted j token pol \<in> set tr) \<and> push_id j \<notin> set (executed_ids tr)"
| "point_ok pc tr (Imported j (Inr rv) js) \<longleftrightarrow> derived pc j rv"
| "point_ok pc tr _ \<longleftrightarrow> True"

definition worker_ok :: "'g push_code \<Rightarrow> event list \<Rightarrow> worker \<Rightarrow> bool" where
  "worker_ok pc tr wk \<longleftrightarrow> list_all (snap_ok tr) (worker_jobs wk) \<and> point_ok pc tr wk"

definition store_ok :: "event list \<Rightarrow> Pushes \<Rightarrow> bool" where
  "store_ok tr ps \<longleftrightarrow> synced ps \<and> saved_inv (job_ok tr) (data ps)"

definition world_ok :: "'g push_code \<Rightarrow> 'g world \<Rightarrow> bool" where
  "world_ok pc w \<longleftrightarrow> store_ok (w_trace w) (w_pushes w) \<and> hist_ok pc (w_app w) (w_trace w) \<and> worker_ok pc (w_trace w) (w_worker w)"

section \<open>Facts of traces\<close>

lemma ids_simps [simp]:
  "submitted_ids [] = []" "admitted_ids [] = []" "executed_ids [] = []"
  "submitted_ids (e # tr) = (case e of Submitted j _ \<Rightarrow> push_id j # submitted_ids tr | _ \<Rightarrow> submitted_ids tr)"
  "admitted_ids (e # tr) = (case e of Admitted j _ _ \<Rightarrow> push_id j # admitted_ids tr | _ \<Rightarrow> admitted_ids tr)"
  "executed_ids (e # tr) = (case e of Executed j _ \<Rightarrow> push_id j # executed_ids tr | _ \<Rightarrow> executed_ids tr)"
  by (simp_all add: submitted_ids_def admitted_ids_def executed_ids_def List.map_filter_simps split: event.splits)

lemma fixed_push_simps [simp]:
  "fixed_part (set_push t st out j) = fixed_part j" "fixed_part (j\<lparr>push_review := r\<rparr>) = fixed_part j"
  "fixed_part (j\<lparr>push_result := x\<rparr>) = fixed_part j" "fixed_part (j\<lparr>push_acknowledged_at := a\<rparr>) = fixed_part j"
  by (simp_all add: fixed_part_def set_push_def)

lemma fixed_pushD:
  assumes "fixed_part j = fixed_part k"
  shows "push_id j = push_id k" "push_container j = push_container k" "push_epoch j = push_epoch k" "push_peer j = push_peer k"
    "push_instance j = push_instance k" "push_submission j = push_submission k" "bundle_sha256 j = bundle_sha256 k"
    "push_print j = push_print k" "push_binding j = push_binding k"
  using assms by (simp_all add: fixed_part_def)

lemma known_same: "fixed_part j = fixed_part k \<Longrightarrow> known tr j \<longleftrightarrow> known tr k"
  by (simp add: known_def submitted_as_def)

lemma trace_mono:
  assumes "set tr \<subseteq> set tr'"
  shows "known tr j \<Longrightarrow> known tr' j" "reviewed_as tr j rv allow \<Longrightarrow> reviewed_as tr' j rv allow" "authorised tr j \<Longrightarrow> authorised tr' j"
    "snap_ok tr j \<Longrightarrow> snap_ok tr' j" "submitted_as tr j pol \<Longrightarrow> submitted_as tr' j pol"
  using assms unfolding known_def submitted_as_def reviewed_as_def authorised_def snap_ok_def by blast+

lemma submitted_in: "Submitted a p \<in> set tr \<Longrightarrow> push_id a \<in> set (submitted_ids tr)"
  by (induction tr) (auto split: event.splits)

lemma admitted_in: "Admitted a x p \<in> set tr \<Longrightarrow> push_id a \<in> set (admitted_ids tr)"
  by (induction tr) (auto split: event.splits)

lemma submitted_unique:
  "distinct (submitted_ids tr) \<Longrightarrow> Submitted a p \<in> set tr \<Longrightarrow> Submitted b q \<in> set tr \<Longrightarrow> push_id a = push_id b \<Longrightarrow> a = b \<and> p = q"
proof (induction tr)
  case (Cons e tr)
  then show ?case by (cases e) (auto dest: submitted_in)
qed simp

lemma known_fixed:
  assumes "hist_ok pc app tr" and "known tr j" and "known tr k" and "push_id j = push_id k"
  shows "fixed_part j = fixed_part k"
proof -
  obtain a p b q where "Submitted a p \<in> set tr" "fixed_part a = fixed_part j" "Submitted b q \<in> set tr" "fixed_part b = fixed_part k"
    using assms(2,3) unfolding known_def submitted_as_def by blast
  with submitted_unique [of tr a p b q] assms(1,4) show ?thesis by (metis fixed_pushD(1) hist_ok_def)
qed

lemma known_old:
  assumes "hist_ok pc app tr" and "known tr j"
  shows "push_id j \<in> set (submitted_ids tr)" "push_id j < uuid_supply app"
  using assms submitted_in fixed_pushD(1) unfolding hist_ok_def known_def submitted_as_def by metis+

lemma job_ok_snap: "job_ok tr j \<Longrightarrow> snap_ok tr j"
  by (simp add: job_ok_def snap_ok_def)

text \<open>An event that is no admission leaves the store in order.\<close>

lemma job_ok_mono:
  assumes "job_ok tr j" and sub: "set tr \<subseteq> set tr'" and "set (admitted_ids tr') = set (admitted_ids tr)"
  shows "job_ok tr' j"
proof -
  have "known tr' j" using assms(1) trace_mono(1) [OF sub] by (simp add: job_ok_def)
  moreover have "\<exists>rv allow. reviewed_as tr' j rv allow" if "push_status j = Pending"
    using assms(1) that trace_mono(2) [OF sub] unfolding job_ok_def by meson
  moreover have "authorised tr' j" if "push_status j = Approved"
    using assms(1) that trace_mono(3) [OF sub] by (simp add: job_ok_def)
  ultimately show ?thesis using assms(1,3) by (simp add: job_ok_def)
qed

text \<open>A publication that stops waiting stays in order.\<close>

lemma job_ok_settled:
  "job_ok tr j \<Longrightarrow> fixed_part k = fixed_part j \<Longrightarrow> \<not> waiting (push_status k) \<Longrightarrow> job_ok tr k"
  using known_same [of k j tr] by (auto simp: job_ok_def waiting_def)

lemma derived_same: "fixed_part j = fixed_part k \<Longrightarrow> derived pc j rv = derived pc k rv"
  using fixed_pushD(6) [of j k] by (simp add: derived_def)

end
