(* ===== verification/Push_Steps.thy ===== *)
theory Push_Steps
  imports Push_World
begin

text \<open>Every step keeps a world in order: guests, host, worker, submissions and restarts.\<close>

section \<open>Operations of guests and host\<close>

lemma store_okD:
  assumes "store_ok tr ps" and "map_of (jobs (data ps)) i = Some j"
  shows "push_id j = i" "job_ok tr j"
  using saved_invD assms by (auto simp: store_ok_def)

lemma store_transaction:
  assumes "store_ok tr ps" and "transaction pc fault edit ps = (r, ps')"
    and "\<And>r s. edit (data ps) = Inr (r, s) \<Longrightarrow> saved_inv (job_ok tr) s"
  shows "store_ok tr ps'"
  using transaction_inv [OF _ _ assms(3,2)] assms(1) by (simp add: store_ok_def)

text \<open>The edit of one publication: it stays what it was, and it is settled or stays in order.\<close>

lemma put_keeps:
  assumes "store_ok tr ps" and "map_of (jobs (data ps)) i = Some j" and "fixed_part k = fixed_part j" and "job_ok tr k"
  shows "saved_inv (job_ok tr) (put_push i k (data ps))"
proof (rule saved_inv_put)
  show "push_id k = i" using fixed_pushD(1) [OF assms(3)] store_okD(1) [OF assms(1,2)] by simp
qed (use assms in \<open>auto simp: store_ok_def\<close>)

lemma put_settled:
  assumes "store_ok tr ps" and "map_of (jobs (data ps)) i = Some j" and "fixed_part k = fixed_part j" and "\<not> waiting (push_status k)"
  shows "saved_inv (job_ok tr) (put_push i k (data ps))"
  using put_keeps [OF assms(1-3)] job_ok_settled [OF store_okD(2) [OF assms(1,2)] assms(3,4)] by blast

lemma owned_push_Inr: "owned_job c inst i session s = Inr j \<longleftrightarrow> map_of (jobs s) i = Some j \<and> owned_by c inst session j"
  by (auto simp: owned_job_def split: option.splits if_splits)

lemma store_ok_saved: "store_ok tr ps \<Longrightarrow> saved_inv (job_ok tr) (data ps)"
  by (simp add: store_ok_def)

lemma push_cancel_keeps:
  assumes "store_ok tr ps" and "cancel pc t fault c inst i session ps = (r, ps')"
  shows "store_ok tr ps'"
proof (rule store_transaction [OF assms(1) assms(2) [unfolded cancel_def]])
  fix v s assume "bind_res (owned_job c inst i session (data ps)) (\<lambda>j.
       if \<not> waiting (push_status j) then Inl ''cannot cancel job after execution starts''
       else Inr ((), put_push i (set_push t Cancelled ''Cancelled by submitting guest. Not sent.'' j) (data ps))) = Inr (v, s)"
  then obtain j where "map_of (jobs (data ps)) i = Some j" "s = put_push i (set_push t Cancelled ''Cancelled by submitting guest. Not sent.'' j) (data ps)"
    by (auto simp: bind_res_Inr_iff owned_push_Inr split: if_splits)
  then show "saved_inv (job_ok tr) s" using put_settled [OF assms(1)] by (simp add: waiting_def)
qed

lemma push_acknowledge_keeps:
  assumes "store_ok tr ps" and "acknowledge pc t fault c inst i session ps = (r, ps')"
  shows "store_ok tr ps'"
proof (rule store_transaction [OF assms(1) assms(2) [unfolded acknowledge_def]])
  fix v s assume "bind_res (owned_job c inst i session (data ps)) (\<lambda>j.
       if \<not> terminal j \<or> push_status j = Unknown then Inl ''only known terminal results can be acknowledged''
       else Inr ((), put_push i (case push_acknowledged_at j of None \<Rightarrow> j\<lparr>push_acknowledged_at := Some (utc t)\<rparr> | Some _ \<Rightarrow> j) (data ps)))
     = Inr (v, s)"
  then obtain j where j: "map_of (jobs (data ps)) i = Some j" "terminal j"
      "s = put_push i (case push_acknowledged_at j of None \<Rightarrow> j\<lparr>push_acknowledged_at := Some (utc t)\<rparr> | Some _ \<Rightarrow> j) (data ps)"
    by (auto simp: bind_res_Inr_iff owned_push_Inr split: if_splits)
  then show "saved_inv (job_ok tr) s"
    using put_settled [OF assms(1) j(1)] by (auto simp: terminal_def waiting_def split: option.splits)
qed

lemma store_ok_art [simp]: "store_ok tr (ps\<lparr>art := a\<rparr>) = store_ok tr ps" "store_ok tr (drop_roots ok is ps) = store_ok tr ps"
  "store_ok tr (remove_orphans ok ps) = store_ok tr ps"
  by (simp_all add: store_ok_def synced_def drop_roots_def remove_orphans_def)

lemma push_delete_keeps:
  assumes "store_ok tr ps" and "delete pc fault ok c inst i session ps = (r, ps')"
  shows "store_ok tr ps'"
proof -
  obtain r1 ps1 where t: "transaction pc fault (delete_edit c inst i session) ps = (r1, ps1)" by fastforce
  have "store_ok tr ps1"
  proof (rule store_transaction [OF assms(1) t])
    fix v s assume "delete_edit c inst i session (data ps) = Inr (v, s)"
    then have "s = delete_push i (data ps)" by (auto simp: delete_edit_def bind_res_Inr_iff split: if_splits)
    then show "saved_inv (job_ok tr) s" using saved_inv_delete store_ok_saved [OF assms(1)] by simp
  qed
  then show ?thesis using assms(2) t by (auto simp: delete_def split: sum.splits if_splits)
qed

lemma push_decide_keeps:
  assumes "store_ok tr ps" and "decide_push pc t fault i fp d ps = (r, ps')"
  shows "store_ok (if d = Decision_kind.Approve \<and> r = Inr () then Host_approved i fp # tr else tr) ps'"
proof -
  let ?tr = "Host_approved i fp # tr"
  have more: "job_ok tr j \<Longrightarrow> job_ok ?tr j" for j by (rule job_ok_mono) auto
  have ok: "store_ok ?tr ps" using assms(1) saved_inv_mono more by (auto simp: store_ok_def)
  obtain edit where edit: "decide_push pc t fault i fp d = transaction pc fault edit"
      "edit = (\<lambda>s. case map_of (jobs s) i of
         None \<Rightarrow> Inl ''job not found''
       | Some j \<Rightarrow>
           if push_status j \<noteq> Pending \<or> push_print j \<noteq> fp \<or> push_expires_at j \<le> utc t
           then Inl ''job no longer pending or fingerprint changed''
           else Inr ((), put_push i (case d of Approve \<Rightarrow> set_push t Approved ''Approved; queued for Git push'' j
              | Deny \<Rightarrow> set_push t Denied ''Denied by host. Not sent.'' j) s))"
    unfolding decide_push_def by blast
  show ?thesis
  proof (cases "d = Decision_kind.Approve \<and> r = Inr ()")
    case True
    have "store_ok ?tr ps'"
    proof (rule store_transaction [OF ok])
      show "transaction pc fault edit ps = (r, ps')" using assms(2) edit(1) by simp
      fix v s assume "edit (data ps) = Inr (v, s)"
      then obtain j where j: "map_of (jobs (data ps)) i = Some j" "push_status j = Pending" "push_print j = fp"
          "s = put_push i (set_push t Approved ''Approved; queued for Git push'' j) (data ps)"
        using True by (auto simp: edit(2) split: option.splits if_splits)
      let ?k = "set_push t Approved ''Approved; queued for Git push'' j"
      have jo: "job_ok ?tr j" "push_id j = i" using store_okD [OF ok j(1)] by auto
      then obtain rv allow where "reviewed_as ?tr j rv allow" using j(2) by (auto simp: job_ok_def)
      then have "authorised ?tr ?k" using jo(2) j(3) by (auto simp: authorised_def reviewed_as_def)
      moreover have "known ?tr ?k" using jo(1) known_same [of ?k j] by (simp add: job_ok_def)
      ultimately have "job_ok ?tr ?k" using jo(1) j(2) by (simp add: job_ok_def waiting_def)
      then show "saved_inv (job_ok ?tr) s" unfolding j(4) by (intro put_keeps [OF ok j(1)]) simp_all
    qed
    with True show ?thesis by simp
  next
    case False
    have "store_ok tr ps'"
    proof (cases r)
      case (Inl e)
      have "ps' = ps"
        using push_store.transact_failed [of ps pc fault edit e ps'] assms Inl edit(1) by (simp add: store_ok_def push_transaction_transact)
      with assms(1) show ?thesis by simp
    next
      case (Inr u)
      with False have d: "d = Decision_kind.Deny" by (cases d) simp_all
      show ?thesis
      proof (rule store_transaction [OF assms(1)])
        show "transaction pc fault edit ps = (r, ps')" using assms(2) edit(1) by simp
        fix v s assume "edit (data ps) = Inr (v, s)"
        then obtain j where "map_of (jobs (data ps)) i = Some j" "s = put_push i (set_push t Denied ''Denied by host. Not sent.'' j) (data ps)"
          by (auto simp: edit(2) d split: option.splits if_splits)
        then show "saved_inv (job_ok tr) s" using put_settled [OF assms(1)] by (simp add: waiting_def)
      qed
    qed
    with False show ?thesis by auto
  qed
qed

section \<open>The worker\<close>

lemma if_still_keeps:
  assumes "store_ok tr ps" and "transaction pc fault (if_still P f i) ps = (r, ps')"
    and "\<And>k. fixed_part (f k) = fixed_part k" and "\<And>k. \<not> waiting (push_status (f k))"
  shows "store_ok tr ps'"
proof (rule store_transaction [OF assms(1,2)])
  fix v s assume "if_still P f i (data ps) = Inr (v, s)"
  then consider "s = data ps" | k where "map_of (jobs (data ps)) i = Some k" "s = put_push i (f k) (data ps)"
    by (auto simp: if_still_def split: option.splits if_splits)
  then show "saved_inv (job_ok tr) s"
  proof cases
    case 1
    then show ?thesis using store_ok_saved [OF assms(1)] by simp
  next
    case (2 k)
    then show ?thesis using put_settled [OF assms(1) 2(1) assms(3,4)] by simp
  qed
qed

lemma quiet_ticks:
  assumes "store_ok tr ps"
  shows "store_ok tr (snd (tick_expire pc t fault j ps))" "store_ok tr (snd (tick_unbound pc t fault j st ps))"
    "store_ok tr (snd (tick_changed pc t fault j ps))"
  unfolding tick_expire_def tick_unbound_def tick_changed_def
  by (rule if_still_keeps [OF assms prod.collapse [symmetric]]; simp add: waiting_def)+

lemma record_tick_keeps:
  assumes "store_ok tr ps"
  shows "store_ok tr (snd (tick_record pc t fault result j ps))"
  unfolding tick_record_def
proof (rule store_transaction [OF assms prod.collapse [symmetric]])
  fix v s assume "record_edit t result (push_id j) (data ps) = Inr (v, s)"
  then obtain k k' where "map_of (jobs (data ps)) (push_id j) = Some k" "s = put_push (push_id j) k' (data ps)"
      "fixed_part k' = fixed_part k" "\<not> waiting (push_status k')"
    by (auto simp: record_edit_def waiting_def split: option.splits sum.splits)
  then show "saved_inv (job_ok tr) s" using put_settled [OF assms] by simp
qed

lemma under_identity_eq:
  "under_identity app j r ps =
     (if async_identity app (push_container j) (push_peer j) = Some (push_instance j, push_epoch j) then r else (Inr False, ps))"
  by (cases r; cases "fst r") (auto simp: under_identity_def with_async_identity_eq)

lemma executed_admitted: "trace_ok pc tr \<Longrightarrow> set (executed_ids tr) \<subseteq> set (admitted_ids tr)"
proof (induction tr)
  case (Cons e tr)
  then show ?case by (cases e) (auto dest: admitted_in)
qed simp

lemma hist_reviewed:
  "hist_ok pc app tr \<Longrightarrow> derived pc k rv \<Longrightarrow> rv_bundle_sha256 rv = bundle_sha256 k \<Longrightarrow> hist_ok pc app (Reviewed k rv allow # tr)"
  by (simp add: hist_ok_def)

lemma store_ok_more:
  assumes "store_ok tr ps" and "set tr \<subseteq> set tr'" and "set (admitted_ids tr') = set (admitted_ids tr)"
  shows "store_ok tr' ps"
proof -
  have "saved_inv (job_ok tr') (data ps)"
    by (rule saved_inv_mono [OF store_ok_saved [OF assms(1)]]) (rule job_ok_mono [OF _ assms(2,3)])
  with assms(1) show ?thesis by (simp add: store_ok_def)
qed

text \<open>The review is taken: the one step that lets a publication be decided.\<close>

lemma take_review_cases:
  obtains (settled) "\<not> waiting (push_status (take_review t app prepared k))" "fixed_part (take_review t app prepared k) = fixed_part k"
    | (taken) rv where "prepared = Inr rv" "rv_bundle_sha256 rv = bundle_sha256 k"
        "push_review (take_review t app prepared k) = Some rv" "fixed_part (take_review t app prepared k) = fixed_part k"
        "push_status (take_review t app prepared k) = (if allows_all (github_policy app) then Approved else Pending)"
proof -
  let ?k = "take_review t app prepared k"
  have "\<not> waiting (push_status ?k) \<and> fixed_part ?k = fixed_part k
      \<or> (\<exists>rv. prepared = Inr rv \<and> rv_bundle_sha256 rv = bundle_sha256 k \<and> push_review ?k = Some rv \<and> fixed_part ?k = fixed_part k
           \<and> push_status ?k = (if allows_all (github_policy app) then Approved else Pending))"
    by (cases prepared) (simp_all add: take_review_def waiting_def)
  then show thesis using settled taken by blast
qed

lemma prepared_tick_keeps:
  assumes "store_ok tr ps" and "hist_ok pc app tr" and "worker_ok pc tr (Imported j result rest)"
    and "tick_prepared pc t fault app j result ps = (r, ps')"
  shows "store_ok (worker_events app (Imported j result rest) ps wk ps' @ tr) ps'
    \<and> hist_ok pc app (worker_events app (Imported j result rest) ps wk ps' @ tr)"
proof -
  let ?ev = "worker_events app (Imported j result rest) ps wk ps'"
  have quiet: "?ev = []" if "data ps' = data ps" using that
    by (auto simp: worker_events_def split: sum.splits option.splits)
  have sync: "synced ps" using assms(1) by (simp add: store_ok_def)
  show ?thesis
  proof (cases "async_identity app (push_container j) (push_peer j) = Some (push_instance j, push_epoch j)")
    case False
    then have "ps' = ps" using assms(4) by (simp add: tick_prepared_def under_identity_eq)
    with quiet assms(1,2) show ?thesis by simp
  next
    case True
    then have tx: "transact data (publish pc) fault (review_edit t app result (push_id j)) ps = (r, ps')"
      using assms(4) by (simp add: tick_prepared_def under_identity_eq push_transaction_transact)
    show ?thesis
    proof (cases r)
      case (Inl e)
      then have "ps' = ps" using push_store.transact_failed [OF sync] tx by blast
      with quiet assms(1,2) show ?thesis by simp
    next
      case (Inr b)
      obtain s where s: "review_edit t app result (push_id j) (data ps) = Inr (b, s)" "synced ps'" "data ps' = s"
        using push_store.transact_done [OF sync tx [unfolded Inr]] by blast
      then obtain k where k: "map_of (jobs (data ps)) (push_id j) = Some k"
          "s = (if push_status k \<noteq> Preparing then data ps else put_push (push_id j) (take_review t app result k) (data ps))"
        by (auto simp: review_edit_def split: option.splits)
      show ?thesis
      proof (cases "push_status k = Preparing")
        case False
        with k s have "data ps' = data ps" by simp
        with quiet s(2) assms(1,2) show ?thesis by (simp add: store_ok_def)
      next
        case prep: True
        let ?k = "take_review t app result k"
        have s': "data ps' = put_push (push_id j) ?k (data ps)" using k s prep by simp
        note jk = store_okD [OF assms(1) k(1)]
        show ?thesis
        proof (cases rule: take_review_cases [of t app result k])
          case settled
          then have "?ev = []"
            by (auto simp: worker_events_def s' k(1) waiting_def split: sum.splits)
          with put_settled [OF assms(1) k(1) settled(2,1)] s(2) s' assms(2) show ?thesis by (simp add: store_ok_def)
        next
          case (taken rv)
          let ?allow = "allows_all (github_policy app)" and ?tr = "Reviewed ?k rv (allows_all (github_policy app)) # tr"
          have ev: "?ev = [Reviewed ?k rv ?allow]" using taken(5) s' unfolding taken(1) by (simp add: worker_events_def k(1) prep)
          have "fixed_part j = fixed_part k"
            using known_fixed [OF assms(2), of j k] assms(3) jk by (simp add: worker_ok_def snap_ok_def job_ok_def)
          then have "derived pc ?k rv"
            using assms(3) taken(1) derived_same [of ?k j pc rv] taken(4) by (simp add: worker_ok_def)
          then have hist: "hist_ok pc app ?tr"
            using hist_reviewed [OF assms(2)] taken(2) fixed_pushD(7) [OF taken(4)] by simp
          have rev: "reviewed_as ?tr ?k rv ?allow" using taken(3) by (auto simp: reviewed_as_def)
          have "known ?tr ?k" using jk(2) known_same [OF taken(4)] trace_mono(1) [of tr ?tr] by (auto simp: job_ok_def)
          moreover have "authorised ?tr ?k" if ?allow using rev that unfolding authorised_def by blast
          moreover have "\<exists>rv allow. reviewed_as ?tr ?k rv allow" using rev by blast
          ultimately have "job_ok ?tr ?k"
            using taken(5) jk(2) prep fixed_pushD(1) [OF taken(4)] by (simp add: job_ok_def waiting_def)
          moreover have "store_ok ?tr ps" by (rule store_ok_more [OF assms(1)]) auto
          ultimately have "saved_inv (job_ok ?tr) (data ps')" unfolding s' using put_keeps [OF _ k(1) taken(4)] by blast
          with s(2) hist ev show ?thesis by (simp add: store_ok_def)
        qed
      qed
    qed
  qed
qed

text \<open>The admission: the one step that starts a push.\<close>

lemma hist_policy:
  assumes "hist_ok pc app tr" and "known tr j"
    and "async_identity app (push_container j) (push_peer j) = Some (push_instance j, push_epoch j)"
  shows "submitted_as tr j (guest_policy app (push_container j))"
proof -
  obtain j0 pol where j0: "Submitted j0 pol \<in> set tr" "fixed_part j0 = fixed_part j"
    using assms(2) unfolding known_def submitted_as_def by blast
  then have "epoch_kept app (push_container j0) (push_epoch j0) pol" using assms(1) unfolding hist_ok_def by blast
  then have "guest_policy app (push_container j) = pol"
    using epoch_kept_now assms(3) fixed_pushD(2,3) [OF j0(2)] by metis
  with j0 show ?thesis by (auto simp: submitted_as_def)
qed

lemma admit_tick_True:
  assumes "store_ok tr ps" and "tick_admit pc t fault app j ps = (Inr True, ps')"
  obtains k where "async_identity app (push_container j) (push_peer j) = Some (push_instance j, push_epoch j)"
    "map_of (jobs (data ps)) (push_id j) = Some k" "push_status k = Approved" "synced ps'"
    "data ps' = put_push (push_id j) (set_push t Sending ''Publishing branch to GitHub'' k) (data ps)"
proof -
  have sync: "synced ps" using assms(1) by (simp add: store_ok_def)
  have ident: "async_identity app (push_container j) (push_peer j) = Some (push_instance j, push_epoch j)"
    and tx: "transact data (publish pc) fault (admit_edit t (push_id j)) ps = (Inr True, ps')"
    using assms(2) by (auto simp: tick_admit_def under_identity_eq push_transaction_transact split: if_splits)
  obtain s where s: "admit_edit t (push_id j) (data ps) = Inr (True, s)" "synced ps'" "data ps' = s"
    using push_store.transact_done [OF sync tx] by blast
  then obtain k where "map_of (jobs (data ps)) (push_id j) = Some k" "push_status k = Approved"
      "s = put_push (push_id j) (set_push t Sending ''Publishing branch to GitHub'' k) (data ps)"
    by (auto simp: admit_edit_def split: option.splits if_splits)
  with ident s that show thesis by blast
qed

lemma admit_tick_other:
  assumes "store_ok tr ps" and "tick_admit pc t fault app j ps = (r, ps')" and "r \<noteq> Inr True"
  shows "store_ok tr ps'"
proof -
  have sync: "synced ps" using assms(1) by (simp add: store_ok_def)
  consider "ps' = ps" | "transact data (publish pc) fault (admit_edit t (push_id j)) ps = (r, ps')"
    using assms(2) by (auto simp: tick_admit_def under_identity_eq push_transaction_transact split: if_splits)
  then show ?thesis
  proof cases
    case 2
    show ?thesis
    proof (cases r)
      case (Inl e)
      then have "ps' = ps" using push_store.transact_failed [OF sync, of pc fault "admit_edit t (push_id j)" e ps'] 2 by simp
      with assms(1) show ?thesis by simp
    next
      case (Inr b)
      obtain s where "admit_edit t (push_id j) (data ps) = Inr (b, s)" "synced ps'" "data ps' = s"
        using push_store.transact_done [OF sync, of pc fault "admit_edit t (push_id j)" b ps'] 2 Inr by blast
      then show ?thesis
        using assms(1,3) Inr by (auto simp: admit_edit_def store_ok_def split: option.splits if_splits)
    qed
  qed (use assms(1) in simp)
qed

lemma in_btree_insert:
  assumes "btree m" and "(k, x) \<in> set (btree_insert i v m)"
  shows "k = i \<and> x = v \<or> k \<noteq> i \<and> (k, x) \<in> set m"
proof -
  have "map_of (btree_insert i v m) k = Some x"
    using assms map_of_in_distinct [OF btree_distinct [OF btree_insert_sorted [OF assms(1)]], of k x] by blast
  then show ?thesis by (auto split: if_splits dest: map_of_SomeD)
qed

lemma admitted_keeps:
  assumes "store_ok tr ps" and "hist_ok pc app tr" and "worker_ok pc tr (Ready j token rest)"
    and "tick_admit pc t fault app j ps = (Inr True, ps')"
  shows "store_ok (Admitted j token (guest_policy app (push_container j)) # tr) ps' \<and> synced ps'
    \<and> hist_ok pc app (Admitted j token (guest_policy app (push_container j)) # tr)
    \<and> worker_ok pc (Admitted j token (guest_policy app (push_container j)) # tr) (Publishing j token rest)"
proof -
  let ?tr = "Admitted j token (guest_policy app (push_container j)) # tr"
  obtain k where ident: "async_identity app (push_container j) (push_peer j) = Some (push_instance j, push_epoch j)"
    and k: "map_of (jobs (data ps)) (push_id j) = Some k" "push_status k = Approved" "synced ps'"
      "data ps' = put_push (push_id j) (set_push t Sending ''Publishing branch to GitHub'' k) (data ps)"
    by (rule admit_tick_True [OF assms(1,4)]) (rule that)
  note jk = store_okD [OF assms(1) k(1)]
  have w: "known tr j" "authorised tr j" "list_all (snap_ok tr) (j # rest)" using assms(3) by (auto simp: worker_ok_def snap_ok_def)
  have new: "push_id j \<notin> set (admitted_ids tr)" using jk k(2) by (auto simp: job_ok_def waiting_def)
  have hist: "hist_ok pc app ?tr"
    using assms(2) new w(2) hist_policy [OF assms(2) w(1) ident] known_old(1) [OF assms(2) w(1)] by (simp add: hist_ok_def)
  have sub: "set tr \<subseteq> set ?tr" by auto
  have "job_ok ?tr i" if "job_ok tr i" "push_id i \<noteq> push_id j \<or> \<not> waiting (push_status i)" for i
    using that trace_mono(1,3) [OF sub, of i] trace_mono(2) [OF sub, of i] unfolding job_ok_def by auto
  then have "job_ok ?tr (set_push t Sending ''Publishing branch to GitHub'' k)"
    and "\<forall>(i, x) \<in> set (jobs (data ps)). i \<noteq> push_id j \<longrightarrow> push_id x = i \<and> job_ok ?tr x"
    using job_ok_settled [OF jk(2), of "set_push t Sending ''Publishing branch to GitHub'' k"] store_ok_saved [OF assms(1)]
    by (auto simp: waiting_def saved_inv_def)
  then have "saved_inv (job_ok ?tr) (data ps')"
    using store_ok_saved [OF assms(1)] jk(1) unfolding k(4)
    by (auto simp: saved_inv_def put_push_def dest!: in_btree_insert [rotated])
  moreover have "worker_ok pc ?tr (Publishing j token rest)"
    unfolding worker_ok_def point_ok.simps
  proof (intro conjI)
    show "list_all (snap_ok ?tr) (worker_jobs (Publishing j token rest))"
      using w(3) trace_mono(4) [OF sub] by (simp add: list_all_iff)
    show "\<exists>pol. Admitted j token pol \<in> set ?tr" by (rule exI [of _ "guest_policy app (push_container j)"]) simp
    have "trace_ok pc tr" using assms(2) by (simp add: hist_ok_def)
    then show "push_id j \<notin> set (executed_ids ?tr)" using new executed_admitted by auto
  qed
  ultimately show ?thesis using hist k(3) by (simp add: store_ok_def)
qed

text \<open>All steps of the worker.\<close>

lemma worker_ok_rest:
  assumes "worker_ok pc tr wk" and "set (worker_jobs wk') \<subseteq> set (worker_jobs wk)" and "point_ok pc tr wk'"
  shows "worker_ok pc tr wk'"
  using assms by (auto simp: worker_ok_def list_all_iff)

lemma next_tick_cases: "next_tick r wk = (wk', ps') \<Longrightarrow> ps' = snd r \<and> (wk' = wk \<or> wk' = Idle)"
  by (auto simp: next_tick_def split: prod.splits sum.splits)

lemma imported_derived:
  assumes "prepare_remote (git_now pc ps) (push_id j) (push_submission j) token n remote g = (Inr rv, g')"
  shows "derived pc j rv"
  using prepare_remote_sound [OF assms] by (auto simp: derived_def git_now_def)

definition quiet_step :: "'g push_code \<Rightarrow> event list \<Rightarrow> worker \<times> Pushes \<Rightarrow> bool" where
  "quiet_step pc tr r \<longleftrightarrow> store_ok tr (snd r) \<and> worker_ok pc tr (fst r)"

lemma quiet_next_tick:
  assumes "store_ok tr (snd r)" and "worker_ok pc tr wk" and "set rest \<subseteq> set (worker_jobs wk)"
  shows "quiet_step pc tr (next_tick r (Loop rest))"
proof -
  obtain wk' ps' where n: "next_tick r (Loop rest) = (wk', ps')" by fastforce
  have "worker_ok pc tr wk'"
    using next_tick_cases [OF n] assms(3) by (intro worker_ok_rest [OF assms(2)]) auto
  then show ?thesis using next_tick_cases [OF n] assms(1) n by (simp add: quiet_step_def)
qed

lemma start_snaps: "store_ok tr ps \<Longrightarrow> worker_ok pc tr (tick_start ps)"
  using job_ok_snap by (fastforce simp: tick_start_def worker_ok_def list_all_iff store_ok_def saved_inv_def)

end
