(* ===== verification/Push_Reach.thy ===== *)
theory Push_Reach
  imports Push_Steps
begin

text \<open>Every reachable world of publications is in order.\<close>

section \<open>The worker\<close>

text \<open>The points from which a step adds to the trace.\<close>

fun traced :: "worker \<Rightarrow> bool" where
  "traced (Imported _ _ _) = True"
| "traced (Ready _ _ _) = True"
| "traced (Publishing _ _ _) = True"
| "traced _ = False"

lemma worker_events_quiet: "\<not> traced wk \<Longrightarrow> worker_events app wk ps wk' ps' = []"
  by (cases wk) (simp_all add: worker_events_def)

lemma quiet_worker:
  assumes "store_ok tr ps" and "worker_ok pc tr wk" and "worker_step pc e app wk g ps = (r, g')"
    and "\<not> traced wk"
  shows "quiet_step pc tr r"
proof (cases wk)
  case Idle
  with assms start_snaps [OF assms(1)] show ?thesis by (auto simp: worker_step_def quiet_step_def)
next
  case (Loop js)
  then have "\<exists>wk'. r = (wk', ps) \<and> set (worker_jobs wk') \<subseteq> set (worker_jobs wk) \<and> point_ok pc tr wk'"
    using assms(3) by (cases js) (auto simp: worker_step_def tick_check_def)
  then show ?thesis using worker_ok_rest [OF assms(2)] assms(1) by (auto simp: quiet_step_def)
next
  case (Stale j rest)
  then have "r = next_tick (tick_expire pc (at e) (write_fault e) j ps) (Loop rest)" using assms(3) by (simp add: worker_step_def)
  then show ?thesis using quiet_next_tick [OF quiet_ticks(1) [OF assms(1)] assms(2), of rest] Stale by (auto simp: subset_insertI)
next
  case (To_prepare j rest)
  have "quiet_step pc tr (wk', ps)" if "set (worker_jobs wk') \<subseteq> set (worker_jobs wk)" "point_ok pc tr wk'" for wk'
    using worker_ok_rest [OF assms(2) that] assms(1) by (simp add: quiet_step_def)
  with To_prepare assms(3) show ?thesis by (auto simp: worker_step_def split: option.splits)
next
  case (To_push j rest)
  have "quiet_step pc tr (wk', ps)" if "set (worker_jobs wk') \<subseteq> set (worker_jobs wk)" "point_ok pc tr wk'" for wk'
    using worker_ok_rest [OF assms(2) that] assms(1) by (simp add: quiet_step_def)
  moreover have "push_status j = Approved" using assms(2) To_push by (simp add: worker_ok_def)
  ultimately show ?thesis using To_push assms(3) by (auto simp: worker_step_def split: option.splits)
next
  case (Unbound j st rest)
  then have "r = next_tick (tick_unbound pc (at e) (write_fault e) j st ps) (Loop rest)" using assms(3) by (simp add: worker_step_def)
  then show ?thesis using quiet_next_tick [OF quiet_ticks(2) [OF assms(1)] assms(2), of rest] Unbound by (auto simp: subset_insertI)
next
  case (Importing j token rest)
  obtain x g2 where p: "prepare_remote (git_now pc ps) (push_id j) (push_submission j) token (bundle_bytes j)
      (remote_url (repository (push_submission j))) g = (x, g2)" by fastforce
  have "point_ok pc tr (Imported j x rest)" using imported_derived p by (cases x) auto
  then have "worker_ok pc tr (Imported j x rest)" using worker_ok_rest [OF assms(2)] Importing by simp
  with Importing assms(1,3) p show ?thesis by (auto simp: worker_step_def quiet_step_def)
next
  case (Changed j rest)
  then have "r = next_tick (tick_changed pc (at e) (write_fault e) j ps) (Loop rest)" using assms(3) by (simp add: worker_step_def)
  then show ?thesis using quiet_next_tick [OF quiet_ticks(3) [OF assms(1)] assms(2), of rest] Changed by (auto simp: subset_insertI)
next
  case (Published j x rest)
  then have "r = next_tick (tick_record pc (at e) (write_fault e) x j ps) (Loop rest)" using assms(3) by (simp add: worker_step_def)
  then show ?thesis using quiet_next_tick [OF record_tick_keeps [OF assms(1)] assms(2), of rest] Published by (auto simp: subset_insertI)
qed (use assms(4) in simp_all)

lemma worker_ok_more:
  assumes "worker_ok pc tr wk" and "set tr \<subseteq> set tr'" and "\<not> traced wk \<or> set (executed_ids tr') = set (executed_ids tr)"
  shows "worker_ok pc tr' wk"
proof -
  have "point_ok pc tr' wk"
  proof (cases wk)
    case (Publishing j token rest)
    then have "(\<exists>pol. Admitted j token pol \<in> set tr) \<and> push_id j \<notin> set (executed_ids tr)" using assms(1) by (simp add: worker_ok_def)
    with assms(2,3) show ?thesis unfolding Publishing by fastforce
  next
    case (Imported j x rest)
    then show ?thesis using assms(1) by (cases x) (simp_all add: worker_ok_def)
  qed (use assms(1) in \<open>simp_all add: worker_ok_def\<close>)
  then show ?thesis using assms(1) trace_mono(4) [OF assms(2)] by (auto simp: worker_ok_def list_all_iff)
qed

lemma push_worker_keeps:
  assumes "world_ok pc w"
  shows "world_ok pc (world_step pc (Worker_op e) w)"
proof -
  let ?tr = "w_trace w" and ?ps = "w_pushes w" and ?app = "w_app w"
  have w: "store_ok ?tr ?ps" "hist_ok pc ?app ?tr" "worker_ok pc ?tr (w_worker w)" using assms by (auto simp: world_ok_def)
  obtain wk ps g where r: "worker_step pc e ?app (w_worker w) (w_git w) ?ps = ((wk, ps), g)" by (metis prod.exhaust)
  have quiet: "world_ok pc (world_step pc (Worker_op e) w)"
    if "\<not> traced (w_worker w)"
  proof -
    have "store_ok ?tr ps" "worker_ok pc ?tr wk" using quiet_worker [OF w(1,3) r that] by (auto simp: quiet_step_def)
    moreover have "world_step pc (Worker_op e) w = w\<lparr>w_pushes := ps, w_worker := wk, w_git := g, w_trace := ?tr\<rparr>"
      unfolding world_step.simps r prod.case worker_events_quiet [OF that] append.append_Nil ..
    ultimately show ?thesis using w(2) by (simp add: world_ok_def del: world_step.simps)
  qed
  show ?thesis
  proof (cases "w_worker w")
    case imported: (Imported j x rest)
    obtain res ps2 where t: "tick_prepared pc (at e) (write_fault e) ?app j x ?ps = (res, ps2)" by fastforce
    have ps: "ps = ps2" "wk = Idle \<or> wk = Loop rest \<or> wk = Changed j rest"
      using r t by (auto simp: imported worker_step_def split: sum.splits if_splits)
    let ?ev = "worker_events ?app (w_worker w) ?ps wk ps"
    have kept: "worker_ok pc ?tr wk" using ps(2) by (intro worker_ok_rest [OF w(3)]) (auto simp: imported)
    have "worker_ok pc (?ev @ ?tr) wk" by (rule worker_ok_more [OF kept]) (use ps(2) in auto)
    with prepared_tick_keeps [OF w(1,2) w(3) [unfolded imported] t, of wk] r ps(1) show ?thesis
      by (simp add: world_ok_def imported)
  next
    case ready: (Ready j token rest)
    obtain res ps2 where t: "tick_admit pc (at e) (write_fault e) ?app j ?ps = (res, ps2)" by fastforce
    show ?thesis
    proof (cases "res = Inr True")
      case True
      note adm = admitted_keeps [OF w(1,2) w(3) [unfolded ready] t [unfolded True]]
      have "stored ps2" using adm by (simp add: synced_def)
      then have "wk = Publishing j token rest" "ps = ps2" using r t True by (auto simp: ready worker_step_def)
      with adm r show ?thesis by (simp add: world_ok_def worker_events_def ready)
    next
      case False
      have ps: "ps = ps2" "wk = Idle \<or> wk = Loop rest" using r t False by (auto simp: ready worker_step_def split: sum.splits if_splits)
      have "worker_ok pc ?tr wk" using ps(2) by (intro worker_ok_rest [OF w(3)]) (auto simp: ready)
      moreover have "worker_events ?app (w_worker w) ?ps wk ps = []" using ps(2) by (auto simp: worker_events_def ready)
      ultimately show ?thesis using admit_tick_other [OF w(1) t False] r ps(1) w(2) by (simp add: world_ok_def)
    qed
  next
    case publishing: (Publishing j token rest)
    obtain x where ps: "ps = ?ps" "wk = Published j x rest" using r by (auto simp: publishing worker_step_def split: prod.splits)
    let ?new = "Executed j token # ?tr"
    have kept: "worker_ok pc ?tr wk" using ps(2) by (intro worker_ok_rest [OF w(3)]) (auto simp: publishing)
    have "worker_ok pc ?new wk" by (rule worker_ok_more [OF kept]) (use ps(2) in auto)
    moreover have "store_ok ?new ?ps" by (rule store_ok_more [OF w(1)]) auto
    moreover have "hist_ok pc ?app ?new" using w(2,3) by (simp add: hist_ok_def worker_ok_def publishing)
    ultimately show ?thesis using r ps by (simp add: world_ok_def worker_events_def publishing)
  qed (rule quiet; simp)+
qed

section \<open>Submissions\<close>

definition prepared :: "string \<Rightarrow> IpAddr \<Rightarrow> AppState \<Rightarrow> AppState \<Rightarrow> Job \<Rightarrow> bool" where
  "prepared c peer app app' j \<longleftrightarrow>
     async_identity app c peer = Some (push_instance j, push_epoch j) \<and> push_container j = c
     \<and> uuid_supply app \<le> push_id j \<and> push_id j < uuid_supply app' \<and> push_status j = Preparing"

lemma prepare_push_steps:
  assumes "prepare_push pc t pf cfg gap c peer up app = (r, app')" and "state_ok app"
  shows "policy_step app app' \<and> (\<forall>j contents. r = Inr (j, contents) \<longrightarrow> prepared c peer app app' j)"
proof -
  obtain pr app1 where p: "persist_guest_identity t pf (run gap app) = (pr, app1)" by fastforce
  let ?app2 = "app1\<lparr>uuid_supply := uuid_supply app1 + 1\<rparr>"
  note step1 = identity_steps(1) [OF assms(2) p] and step2 = identity_steps(2) [OF assms(2) p]
  have le: "uuid_supply app \<le> uuid_supply app1" using step1 by (simp add: policy_step_def)
  have "app' = app \<or> app' = app1 \<or> app' = ?app2"
    using assms(1) unfolding prepare_push_def by (auto simp: p Let_def split: sum.splits if_splits option.splits)
  then have "policy_step app app'" using step1 step2 policy_step_refl by auto
  moreover have "prepared c peer app app' j" if r: "r = Inr (j, contents)" for j contents
  proof -
    show ?thesis
      using assms(1) le unfolding prepare_push_def r
      by (auto simp: p Let_def prepared_def new_push_def split: sum.splits if_splits option.splits)
  qed
  ultimately show ?thesis by blast
qed

lemma hist_push_step:
  assumes "hist_ok pc app tr" and "policy_step app app'"
  shows "hist_ok pc app' tr"
proof -
  have "uuid_supply app \<le> uuid_supply app'" using assms(2) by (simp add: policy_step_def)
  then show ?thesis
    using assms(1) state_ok_step [OF _ assms(2)] epoch_kept_step [OF _ assms(2)] unfolding hist_ok_def by (meson less_le_trans)
qed

lemma store_ok_submitted:
  assumes "hist_ok pc app tr" and "job_ok tr j"
  shows "job_ok (Submitted k pol # tr) j"
  by (rule job_ok_mono [OF assms(2)]) auto

text \<open>The transaction of a submission.\<close>

lemma admitted_push_store:
  assumes "store_ok tr ps" and "prepared c peer app app' j" and "hist_ok pc app tr"
    and "admit_push now j (data ps) = Some r" and "finish_transaction pc fault r ps = (v, ps')"
  shows "case v of Inl e \<Rightarrow> store_ok tr ps'
    | Inr (gv, gone) \<Rightarrow> store_ok (Submitted j pol # tr) ps' \<and> gp_id gv = push_id j \<and> stored_push ps' (push_id j) = j"
proof -
  let ?tr = "Submitted j pol # tr"
  have sync: "synced ps" using assms(1) by (simp add: store_ok_def)
  have tx: "transact data (publish pc) fault (\<lambda>_. r) ps = (v, ps')" using assms(5) by (simp add: finish_transact)
  show ?thesis
  proof (cases v)
    case (Inl e)
    then have "ps' = ps" using push_store.transact_failed [OF sync, of pc fault "\<lambda>_. r" e ps'] tx by simp
    with assms(1) Inl show ?thesis by simp
  next
    case (Inr p)
    obtain gv gone where p: "p = (gv, gone)" by (cases p)
    obtain s where s: "r = Inr ((gv, gone), s)" "synced ps'" "data ps' = s"
      using push_store.transact_done [OF sync, of pc fault "\<lambda>_. r" p ps'] tx Inr p by auto
    have "set (admitted_ids tr) \<subseteq> set (submitted_ids tr)" "\<forall>i \<in> set (submitted_ids tr). i < uuid_supply app"
      using assms(3) by (auto simp: hist_ok_def)
    then have "push_id j \<notin> set (admitted_ids tr)" using assms(2) by (fastforce simp: prepared_def)
    moreover have "known ?tr j" unfolding known_def submitted_as_def by (rule exI [of _ pol], rule exI [of _ j]) simp
    ultimately have "job_ok ?tr j" "\<not> terminal j" using assms(2) by (auto simp: job_ok_def prepared_def terminal_def)
    moreover have "saved_inv (job_ok ?tr) (data ps)"
      by (rule saved_inv_mono [OF store_ok_saved [OF assms(1)]]) (rule store_ok_submitted [OF assms(3)])
    ultimately have "saved_inv (job_ok ?tr) s \<and> gv = guest_value j False \<and> map_of (jobs s) (push_id j) = Some j"
      using admit_push_inv [of "job_ok ?tr" "data ps" j now] assms(4) s(1) by auto
    with s(2,3) Inr p show ?thesis by (simp add: store_ok_def guest_value_def stored_push_def)
  qed
qed

lemma hist_submitted:
  assumes "hist_ok pc app tr" and "prepared c peer app app' j" and "policy_step app app'"
  shows "hist_ok pc app' (Submitted j (guest_policy app c) # tr)"
proof -
  have st: "state_ok app" using assms(1) by (simp add: hist_ok_def)
  have ident: "async_identity app c peer = Some (push_instance j, push_epoch j)" "push_container j = c" using assms(2) by (auto simp: prepared_def)
  have "epoch_kept app' (push_container j) (push_epoch j) (guest_policy app c)"
    using epoch_kept_new [OF st assms(3) ident(1)] ident(2) by simp
  moreover have "push_id j \<notin> set (submitted_ids tr)" "push_id j < uuid_supply app'"
    using assms(1,2) by (auto simp: hist_ok_def prepared_def)
  ultimately show ?thesis using hist_push_step [OF assms(1,3)] by (auto simp: hist_ok_def)
qed

lemma push_submit_keeps:
  assumes "world_ok pc w"
  shows "world_ok pc (world_step pc (Submit_op t pf fault ff cfg gap c peer up) w)"
proof -
  let ?app = "w_app w" and ?ps = "w_pushes w" and ?tr = "w_trace w"
  have w: "store_ok ?tr ?ps" "hist_ok pc ?app ?tr" "worker_ok pc ?tr (w_worker w)" using assms by (auto simp: world_ok_def)
  have st: "state_ok ?app" using w(2) by (simp add: hist_ok_def)
  obtain pr app' where p: "prepare_push pc t pf cfg gap c peer up ?app = (pr, app')" by fastforce
  have step: "policy_step ?app app'" and prep: "\<And>j x. pr = Inr (j, x) \<Longrightarrow> prepared c peer ?app app' j"
    using prepare_push_steps [OF p st] by auto
  have hist: "hist_ok pc app' ?tr" by (rule hist_push_step [OF w(2) step])
  show ?thesis
  proof (cases pr)
    case (Inl e)
    with p hist w show ?thesis by (simp add: submit_def world_ok_def)
  next
    case (Inr jx)
    obtain j contents where jx: "jx = (j, contents)" by (cases jx)
    note pj = prep [OF Inr [unfolded jx]]
    let ?ps1 = "?ps\<lparr>art := (art ?ps)(push_id j := Bundle contents)\<rparr>"
    show ?thesis
    proof (cases "\<not> stored ?ps \<or> no_directory ff \<or> no_rename ff")
      case True
      then show ?thesis using p Inr jx hist w by (auto simp: submit_def world_ok_def)
    next
      case False
      show ?thesis
      proof (cases "admit_push (utc t) j (data ?ps1)")
        case None
        with False p Inr jx assms show ?thesis by (simp add: submit_def)
      next
        case (Some r)
        obtain v ps' where fin: "finish_transaction pc fault r ?ps1 = (v, ps')" by fastforce
        let ?pol = "guest_policy ?app c"
        have "store_ok ?tr ?ps1" using w(1) by simp
        note adm = admitted_push_store [OF this pj w(2) Some fin, of ?pol]
        show ?thesis
        proof (cases v)
          case v: (Inl e)
          with adm False p Inr jx Some fin hist w show ?thesis by (simp add: submit_def world_ok_def Let_def)
        next
          case v: (Inr gi)
          obtain gv gone where gi: "gi = (gv, gone)" by (cases gi)
          have a: "store_ok (Submitted j ?pol # ?tr) ps'" "gp_id gv = push_id j" "stored_push ps' (push_id j) = j"
            using adm v gi by auto
          have "submit pc t pf fault ff cfg gap c peer up (?app, ?ps) = Some (Inr gv, app', drop_roots (removable ff) gone ps')"
            using False p Inr jx Some fin v gi by (simp add: submit_def Let_def)
          moreover have "stored_push (drop_roots (removable ff) gone ps') (gp_id gv) = j" using a(2,3) by (simp add: stored_push_def drop_roots_def)
          moreover have "worker_ok pc (Submitted j ?pol # ?tr) (w_worker w)"
            by (rule worker_ok_more [OF w(3)]) auto
          ultimately show ?thesis using a(1) hist_submitted [OF w(2) pj step] by (simp add: world_ok_def)
        qed
      qed
    qed
  qed
qed

section \<open>Starts and restarts\<close>

lemma push_settle_fixed [simp]: "fixed_part (settle t j) = fixed_part j"
  by (auto simp: settle_def split: Status.splits)

lemma settle_settled: "\<not> waiting (push_status (settle t j))"
  by (auto simp: settle_def waiting_def split: Status.splits)

definition settled_store :: "clock \<Rightarrow> Saved \<Rightarrow> Saved" where
  "settled_store t s = s\<lparr>jobs := map (\<lambda>(i, j). (i, settle t j)) (jobs s)\<rparr>"

lemma load_pushes_Inr:
  assumes "load_pushes pc t af dir_ok fault ok file disk = Inr ps"
  obtains s old where "read_metadata af file = Inr (s, old)" "data ps = settled_store t s" "synced ps"
proof -
  obtain s old disk1 ps1 where s: "read_metadata af file = Inr (s, old)"
      "transaction pc fault (\<lambda>next. Inr ((), next)) \<lparr>data = settled_store t s, stored = True, store_file = old, push_changes = 0, art = disk1\<rparr>
         = (Inr (), ps1)" "ps = remove_orphans ok ps1"
    using assms by (auto simp: load_pushes_def bind_res_Inr_iff Let_def settled_store_def split: if_splits prod.splits sum.splits)
  then have "data ps = settled_store t s \<and> synced ps"
    by (cases fault) (auto simp: transaction_def finish_transaction_def publish_def atomic_write_def synced_def remove_orphans_def split: if_splits)
  with s that show thesis by blast
qed

lemma saved_inv_settled:
  assumes "saved_inv (job_ok tr) s"
  shows "saved_inv (job_ok tr) (settled_store t s)"
proof -
  have "push_id (settle t j) = push_id j" "job_ok tr j \<Longrightarrow> job_ok tr (settle t j)" for j
    using fixed_pushD(1) [OF push_settle_fixed] job_ok_settled [OF _ push_settle_fixed settle_settled] by auto
  with assms show ?thesis by (auto simp: saved_inv_def settled_store_def btree_def comp_def split_beta)
qed

lemma push_restart_keeps:
  assumes "world_ok pc w" and "store_file (w_pushes w) = Some s"
    and "load_pushes pc t af dir_ok fault ok (Metadata n s) disk = Inr ps" and "fresh_start (uuid_supply (w_app w)) app"
  shows "world_ok pc (w\<lparr>w_app := app, w_pushes := ps, w_git := g, w_worker := Idle\<rparr>)"
proof -
  have w: "store_ok (w_trace w) (w_pushes w)" "hist_ok pc (w_app w) (w_trace w)" using assms(1) by (auto simp: world_ok_def)
  have s: "saved_inv (job_ok (w_trace w)) s" using w(1) assms(2) by (auto simp: store_ok_def synced_def)
  obtain s' old where l: "read_metadata af (Metadata n s) = Inr (s', old)" "data ps = settled_store t s'" "synced ps"
    by (rule load_pushes_Inr [OF assms(3)]) (rule that)
  have "s' = s" using l(1) s by (simp add: read_metadata_def saved_inv_def split: if_splits)
  with l saved_inv_settled [OF s] have "store_ok (w_trace w) ps" by (simp add: store_ok_def)
  moreover have "hist_ok pc app (w_trace w)"
    using w(2) assms(4) epoch_kept_restart [OF _ assms(4)] unfolding hist_ok_def fresh_start_def by (meson less_le_trans)
  ultimately show ?thesis by (simp add: world_ok_def worker_ok_def)
qed

lemma push_step_keeps:
  assumes "world_ok pc w"
  shows "world_ok pc (world_step pc op w)"
proof -
  have w: "store_ok (w_trace w) (w_pushes w)" "hist_ok pc (w_app w) (w_trace w)" "worker_ok pc (w_trace w) (w_worker w)"
    using assms by (auto simp: world_ok_def)
  show ?thesis
  proof (cases op)
    case (App_op x)
    have "state_ok (w_app w)" using w(2) by (simp add: hist_ok_def)
    then have "policy_step (w_app w) (apply_state_op x (w_app w))" using policy_step_apply by (simp add: state_ok_def)
    with w hist_push_step show ?thesis by (auto simp: world_ok_def App_op)
  next
    case (Cancel_op t f c inst i session)
    with push_cancel_keeps [OF w(1) prod.collapse [symmetric]] w show ?thesis by (simp add: world_ok_def)
  next
    case (Acknowledge_op t f c inst i session)
    with push_acknowledge_keeps [OF w(1) prod.collapse [symmetric]] w show ?thesis by (simp add: world_ok_def)
  next
    case (Delete_op f ok c inst i session)
    with push_delete_keeps [OF w(1) prod.collapse [symmetric]] w show ?thesis by (simp add: world_ok_def)
  next
    case (Decide_op t f i fp d)
    obtain r ps where r: "decide_push pc t f i fp d (w_pushes w) = (r, ps)" by fastforce
    let ?tr = "if d = Decision_kind.Approve \<and> r = Inr () then Host_approved i fp # w_trace w else w_trace w"
    have "hist_ok pc (w_app w) ?tr" using w(2) by (simp add: hist_ok_def)
    moreover have "worker_ok pc ?tr (w_worker w)"
      by (rule worker_ok_more [OF w(3)]) auto
    ultimately show ?thesis using push_decide_keeps [OF w(1) r] by (simp add: Decide_op r world_ok_def)
  qed (use push_submit_keeps [OF assms] push_worker_keeps [OF assms] in \<open>blast+\<close>)
qed

lemma push_reachable_ok:
  assumes "reachable P pc w"
  shows "world_ok pc w"
  using assms
proof induction
  case (start t af dir_ok ok disk ps app g)
  obtain s old where l: "read_metadata af Metadata_missing = Inr (s, old)" "data ps = settled_store t s" "synced ps"
    by (rule load_pushes_Inr [OF start(1)]) (rule that)
  then have "saved_inv (job_ok []) (data ps)" by (auto simp: read_metadata_def saved_inv_def settled_store_def)
  with l(3) start(2) show ?case by (simp add: world_ok_def store_ok_def hist_ok_def worker_ok_def)
qed (blast intro: push_step_keeps push_restart_keeps)+

end
