(* ===== verification/Push_Safe.thy ===== *)
theory Push_Safe
  imports Push_Reach
begin

text \<open>
  What the store of publications guarantees: at most one push of a publication, only of the reviewed head and as
  approved; and where the code falls short of what it means to do.
\<close>

section \<open>Execution\<close>

lemma push_trace_suffix: "trace_ok pc (post @ pre) \<Longrightarrow> trace_ok pc pre"
proof (induction post)
  case (Cons e post)
  then show ?case by (cases e) auto
qed simp

lemma admitted_distinct: "trace_ok pc tr \<Longrightarrow> distinct (admitted_ids tr) \<and> distinct (executed_ids tr)"
proof (induction tr)
  case (Cons e tr)
  then show ?case by (cases e) auto
qed simp

text \<open>
  C9. A publication is pushed at most once. Whatever guests, host and worker do, whichever writes fail, however
  Git and the remote answer, and however often and at whatever moment the broker is restarted: the push of
  a publication runs at most once, only after it was written down as being sent, and a publication that was
  admitted never waits again, in memory or in the file.
\<close>

theorem publication_executes_once:
  assumes "reachable P pc w"
  shows "distinct (executed_ids (w_trace w)) \<and> set (executed_ids (w_trace w)) \<subseteq> set (admitted_ids (w_trace w))
    \<and> distinct (admitted_ids (w_trace w))
    \<and> (\<forall>i j. map_of (jobs (data (w_pushes w))) i = Some j \<and> waiting (push_status j) \<longrightarrow> i \<notin> set (admitted_ids (w_trace w)))
    \<and> store_file (w_pushes w) = Some (data (w_pushes w))"
proof -
  have w: "store_ok (w_trace w) (w_pushes w)" "trace_ok pc (w_trace w)"
    using push_reachable_ok [OF assms] by (auto simp: world_ok_def hist_ok_def)
  have "i \<notin> set (admitted_ids (w_trace w))"
    if "map_of (jobs (data (w_pushes w))) i = Some j" "waiting (push_status j)" for i j
    using store_okD [OF w(1) that(1)] that(2) by (auto simp: job_ok_def)
  then show ?thesis
    using admitted_distinct [OF w(2)] executed_admitted [OF w(2)] w(1) by (auto simp: store_ok_def synced_def)
qed

text \<open>
  C8. What is pushed was reviewed and approved. Before every push that ran there is the submission of this
  publication by its guest, under the policy that was in force when the push was admitted; a review that
  describes, completely, a bundle with the digest of the submitted one; and the approval of the host by the
  fingerprint of the publication, unless the broker allowed all GitHub traffic when the review was taken.
\<close>

theorem pushed_as_reviewed:
  assumes "reachable P pc w" and "w_trace w = later @ Executed j token # before"
  shows "\<exists>rv k j0 pol allow contents. push_review j = Some rv \<and> Reviewed k rv allow \<in> set before
    \<and> Submitted j0 pol \<in> set before \<and> Admitted j token pol \<in> set before
    \<and> fixed_part k = fixed_part j \<and> fixed_part j0 = fixed_part j
    \<and> review_describes (sha256_hex (push_crypto pc)) (push_submission j) contents rv \<and> review_complete rv
    \<and> rv_bundle_sha256 rv = bundle_sha256 j
    \<and> (allow \<or> Host_approved (push_id j) (push_print j) \<in> set before)"
proof -
  have "trace_ok pc (later @ Executed j token # before)"
    using push_reachable_ok [OF assms(1)] by (simp add: world_ok_def hist_ok_def assms(2) [symmetric])
  from push_trace_suffix [OF this] obtain pol where adm: "Admitted j token pol \<in> set before" and ok: "trace_ok pc before"
    by auto
  obtain mid early where split: "before = mid @ Admitted j token pol # early" using adm by (meson split_list)
  from push_trace_suffix [OF ok [unfolded split]] have early: "submitted_as early j pol" "authorised early j" "trace_ok pc early" by auto
  then obtain rv allow k where rv: "push_review j = Some rv" "Reviewed k rv allow \<in> set early" "fixed_part k = fixed_part j"
      "allow \<or> Host_approved (push_id j) (push_print j) \<in> set early"
    unfolding authorised_def reviewed_as_def by blast
  obtain m2 e2 where split2: "early = m2 @ Reviewed k rv allow # e2" using rv(2) by (meson split_list)
  from push_trace_suffix [OF early(3) [unfolded split2]] have "derived pc k rv" "rv_bundle_sha256 rv = bundle_sha256 k" by auto
  then obtain contents where d: "review_describes (sha256_hex (push_crypto pc)) (push_submission j) contents rv" "review_complete rv"
      "rv_bundle_sha256 rv = bundle_sha256 j"
    using fixed_pushD(6,7) [OF rv(3)] unfolding derived_def by auto
  have sub: "set early \<subseteq> set before" unfolding split by auto
  obtain j0 where "Submitted j0 pol \<in> set early" "fixed_part j0 = fixed_part j" using early(1) unfolding submitted_as_def by blast
  with rv d adm sub show ?thesis by blast
qed

section \<open>Expired preparations\<close>

lemma fold_res_step: "fold_res f xs s = Inr t \<Longrightarrow> x \<in> set xs \<Longrightarrow> \<exists>a b. f x a = Inr b"
  by (induction xs arbitrary: s) (auto simp: bind_res_Inr_iff)

lemma missing_review_refused:
  assumes "map_of (jobs s) i = Some j" and "push_review j = None" and "push_status j = Expired"
  shows "check_saved pc disk s \<noteq> Inr ()"
proof
  assume "check_saved pc disk s = Inr ()"
  then obtain n where "fold_res (check_push pc disk) (jobs s) 0 = Inr n"
    by (auto simp: check_saved_def bind_res_Inr_iff split: if_splits)
  from fold_res_step [OF this map_of_SomeD [OF assms(1)]] obtain a b where "check_push pc disk (i, j) a = Inr b" by blast
  then have "check_review j = Inr ()" by (auto simp: check_push_def bind_res_Inr_iff split: if_splits)
  with assms(2,3) show False by (simp add: check_review_def)
qed

text \<open>
  C40. A publication that expires before its review makes the next start fail. When the worker finds a
  publication past its 24 hours that is still being prepared, it writes it down as expired, without a review;
  every start of the broker from the file it has then written is refused, whatever the directory of bundles
  holds and whatever the file system does.
\<close>

theorem expired_preparation_blocks_restart:
  assumes "reachable P pc w" and "w_worker w = Stale j rest"
    and "map_of (jobs (data (w_pushes w))) (push_id j) = Some k" and "push_status k = Preparing" and "push_review k = None"
    and "push_expires_at k \<le> utc (at e)" and "w_worker (world_step pc (Worker_op e) w) = Loop rest"
  shows "\<exists>s. store_file (w_pushes (world_step pc (Worker_op e) w)) = Some s
    \<and> (\<forall>t af dir_ok fault ok n disk ps. load_pushes pc t af dir_ok fault ok (Metadata n s) disk \<noteq> Inr ps)"
proof -
  let ?k = "set_push (at e) Expired ''Review expired after 24 hours. Not sent.'' k"
  have ok: "store_ok (w_trace w) (w_pushes w)" using push_reachable_ok [OF assms(1)] by (simp add: world_ok_def)
  then have sync: "synced (w_pushes w)" by (simp add: store_ok_def)
  obtain r ps where t: "tick_expire pc (at e) (write_fault e) j (w_pushes w) = (r, ps)" by fastforce
  have step: "w_pushes (world_step pc (Worker_op e) w) = ps" "r = Inr ()"
    using t assms(2,7) by (auto simp: worker_step_def next_tick_def split: sum.splits)
  let ?edit = "if_still waiting (\<lambda>k. if push_expires_at k \<le> utc (at e) then set_push (at e) Expired ''Review expired after 24 hours. Not sent.'' k
     else set_push (at e) Cancelled ''Guest permissions changed. Not sent.'' k) (push_id j)"
  have "transact data (publish pc) (write_fault e) ?edit (w_pushes w) = (Inr (), ps)"
    using t step(2) by (simp add: tick_expire_def push_transaction_transact)
  from push_store.transact_done [OF sync this] have s: "data ps = put_push (push_id j) ?k (data (w_pushes w))" "store_file ps = Some (data ps)"
    using assms(3,4,6) by (auto simp: if_still_def waiting_def synced_def)
  have version: "saved_version (data ps) = 2" using ok by (simp add: s(1) store_ok_def saved_inv_def)
  have "map_of (jobs (data ps)) (push_id j) = Some ?k" "push_review ?k = None" "push_status ?k = Expired"
    using assms(5) by (simp_all add: s(1))
  then have "check_saved pc disk (data ps) \<noteq> Inr ()" for disk by (rule missing_review_refused)
  then have "load_pushes pc t af dir_ok fault ok (Metadata n (data ps)) disk \<noteq> Inr ps'" for t af dir_ok fault ok n disk ps'
    using version by (auto simp: load_pushes_def read_metadata_def bind_res_Inr_iff archived_def split: if_splits)
  with s(2) step(1) show ?thesis by blast
qed

section \<open>Case of the expected object id\<close>

lemma advertised_lower: "fold_res (advertised ref) ls found = Inr (Some oid) \<Longrightarrow> opt_all (\<lambda>x. to_ascii_lowercase x = x) found \<Longrightarrow> to_ascii_lowercase oid = oid"
  by (induction ls arbitrary: found)
    (auto simp: advertised_def bind_res_Inr_iff split: option.splits if_splits prod.splits)

text \<open>
  An expected object id with a capital letter is accepted by the validation and by every later check of the
  store, but never prepared: what Git advertises is put into lower case and then compared with the
  letters of the submission.
\<close>

theorem upper_case_expectation_refused:
  assumes "to_ascii_lowercase (expected_oid sub) \<noteq> expected_oid sub" and "validate_submission sub = Inr ()"
  shows "fst (prepare_remote gc repo sub token bytes remote g) \<noteq> Inr rv"
proof
  assume "fst (prepare_remote gc repo sub token bytes remote g) = Inr rv"
  then obtain g' where "prepare_remote gc repo sub token bytes remote g = (Inr rv, g')" by (metis prod.collapse)
  then obtain hdr g1 g2 baseline where "fetch_base gc repo sub token remote hdr g1 = (Inr baseline, g2)"
    unfolding prepare_remote_def by (auto simp: io_simps split: if_splits)
  then obtain out now where now: "parse_ls_remote out (target_ref (branch sub)) = Inr now" "check_expected sub now = Inr ()"
    unfolding fetch_base_def observe_branch_def by (fastforce simp: io_simps)
  have "to_ascii_lowercase ZERO_OID = ZERO_OID" by code_simp
  then have "expected_oid sub \<noteq> ZERO_OID" using assms(1) by auto
  then have "now = Some (expected_oid sub)" using now(2) by (auto simp: check_expected_def split: if_splits)
  then have "to_ascii_lowercase (expected_oid sub) = expected_oid sub"
    using now(1) advertised_lower [of "target_ref (branch sub)" "str_lines out" None] by (auto simp: parse_ls_remote_def bind_res_Inr_iff from_utf8_def split: if_splits)
  with assms(1) show False by simp
qed

section \<open>Samples\<close>

definition sample_git_settings :: "unit Settings" where
  "sample_git_settings = sample_settings\<lparr>escrow := [sample_entry\<lparr>entry_hosts := [''api.github.com'', ''github.com'']\<rparr>]\<rparr>"

definition sample_push_code :: "bool push_code" where
  "sample_push_code = \<lparr>push_len = (\<lambda>s. length (jobs s)), push_net = sample_nc,
     push_crypto = \<lparr>sha256_hex = (\<lambda>_. replicate 64 (CHR ''a'')), header_ok = (\<lambda>_. True)\<rparr>, push_git = sample_git\<rparr>"

definition sample_push_env :: "nat \<Rightarrow> unit worker_env" where
  "sample_push_env n = \<lparr>at = sample_clock n, write_fault = No_fault, settings_now = sample_git_settings\<rparr>"

definition sample_faults :: archive_faults where
  "sample_faults = \<lparr>no_archive_dir = False, no_archive_mode = False, no_metadata_move = False, has_artifacts = False,
     no_artifacts_move = False, no_rollback = False\<rparr>"

definition sample_upload :: UploadedBundle where
  "sample_upload = \<lparr>up_submission = sample_push, up_staged = Some sample_bundle, up_bytes = length sample_bundle\<rparr>"

definition sample_push_start :: "bool world" where
  "sample_push_start = \<lparr>w_app = sample_state,
     w_pushes = (case load_pushes sample_push_code (sample_clock 1) sample_faults True No_fault (\<lambda>_. True) Metadata_missing (\<lambda>_. No_root) of
        Inr ps \<Rightarrow> ps | Inl _ \<Rightarrow> new_pushes),
     w_git = False, w_worker = Idle, w_trace = []\<rparr>"

definition sample_push_id :: uuid where
  "sample_push_id = uuid_supply sample_state"

definition sample_received :: "bool world" where
  "sample_received = world_step sample_push_code
     (Submit_op (sample_clock 10) No_fault No_fault \<lparr>no_directory = False, no_rename = False, removable = (\<lambda>_. True)\<rparr>
        sample_git_settings [] ''g'' (V4 7) sample_upload) sample_push_start"

definition work :: "nat list \<Rightarrow> bool world \<Rightarrow> bool world" where
  "work ns = fold (\<lambda>n. world_step sample_push_code (Worker_op (sample_push_env n))) ns"

definition sample_reviewed :: "bool world" where
  "sample_reviewed = work [11, 12, 13, 14, 15, 16] sample_received"

definition sample_pushed :: "bool world" where
  "sample_pushed = work [21, 22, 23, 24, 25] (world_step sample_push_code
     (Decide_op (sample_clock 20) No_fault sample_push_id (replicate 64 (CHR ''a'')) Decision_kind.Approve :: unit world_op) sample_reviewed)"

definition sample_stale :: "bool world" where
  "sample_stale = work [11, REVIEW_HOURS + 10] sample_received"

lemma work_reachable: "reachable TYPE(unit) sample_push_code w \<Longrightarrow> reachable TYPE(unit) sample_push_code (work ns w)"
  unfolding work_def by (induction ns arbitrary: w) (auto intro: reachable.step simp del: world_step.simps)

lemma sample_received_reachable: "reachable TYPE(unit) sample_push_code sample_received"
proof -
  have "load_pushes sample_push_code (sample_clock 1) sample_faults True No_fault (\<lambda>_. True) Metadata_missing (\<lambda>_. No_root)
      = Inr (w_pushes sample_push_start)"
    by (simp add: sample_push_start_def load_pushes_def read_metadata_def check_saved_def transaction_def finish_transaction_def publish_def
        atomic_write_def sample_push_code_def MAX_METADATA_def Let_def)
  moreover have "state_ok sample_state" by code_simp
  ultimately have "reachable TYPE(unit) sample_push_code sample_push_start"
    using reachable.start [of sample_push_code "sample_clock 1" sample_faults True "\<lambda>_. True" "\<lambda>_. No_root" "w_pushes sample_push_start" sample_state]
    by (simp add: sample_push_start_def)
  then show ?thesis unfolding sample_received_def by (rule reachable.step)
qed

lemma sample_pushed_reachable: "reachable TYPE(unit) sample_push_code sample_pushed"
  unfolding sample_pushed_def sample_reviewed_def by (intro work_reachable reachable.step sample_received_reachable)

theorem publication_executes_once_witness:
  "executed_ids (w_trace sample_pushed) = [sample_push_id] \<and> distinct (executed_ids (w_trace sample_pushed))"
proof
  show "executed_ids (w_trace sample_pushed) = [sample_push_id]" by code_simp
  show "distinct (executed_ids (w_trace sample_pushed))" using publication_executes_once [OF sample_pushed_reachable] by blast
qed

theorem pushed_as_reviewed_witness:
  "\<exists>j token before rv. w_trace sample_pushed = Executed j token # before \<and> push_review j = Some rv \<and> review_complete rv
     \<and> rv_bundle_sha256 rv = bundle_sha256 j"
proof -
  have "case w_trace sample_pushed of Executed j token # _ \<Rightarrow> True | _ \<Rightarrow> False" by code_simp
  then obtain j token before where tr: "w_trace sample_pushed = [] @ Executed j token # before" by (auto split: list.splits event.splits)
  from pushed_as_reviewed [OF sample_pushed_reachable tr] tr show ?thesis by fastforce
qed

theorem expired_preparation_blocks_restart_witness:
  "\<exists>s. store_file (w_pushes (world_step sample_push_code (Worker_op (sample_push_env (REVIEW_HOURS + 10))) sample_stale)) = Some s
    \<and> (\<forall>t af dir_ok fault ok n disk ps. load_pushes sample_push_code t af dir_ok fault ok (Metadata n s) disk \<noteq> Inr ps)"
proof -
  let ?e = "sample_push_env (REVIEW_HOURS + 10)"
  have reach: "reachable TYPE(unit) sample_push_code sample_stale"
    unfolding sample_stale_def by (intro work_reachable sample_received_reachable)
  have "case w_worker sample_stale of Stale j rest \<Rightarrow> rest = [] \<and>
      (case map_of (jobs (data (w_pushes sample_stale))) (push_id j) of
         None \<Rightarrow> False
       | Some k \<Rightarrow> push_status k = Preparing \<and> push_review k = None \<and> push_expires_at k \<le> utc (at ?e)) | _ \<Rightarrow> False"
    by code_simp
  then obtain j k where j: "w_worker sample_stale = Stale j []" "map_of (jobs (data (w_pushes sample_stale))) (push_id j) = Some k"
      "push_status k = Preparing" "push_review k = None" "push_expires_at k \<le> utc (at ?e)"
    by (auto split: worker.splits option.splits)
  have "w_worker (world_step sample_push_code (Worker_op ?e) sample_stale) = Loop []" by code_simp
  from expired_preparation_blocks_restart [OF reach j this] show ?thesis .
qed

theorem upper_case_expectation_refused_witness:
  "fst (prepare_remote sample_git 7 (sample_push\<lparr>expected_oid := replicate 40 (CHR ''B'')\<rparr>) ''ghp-1'' 9 (remote_url ''o/r'') True)
     \<noteq> Inr sample_review"
proof (rule upper_case_expectation_refused)
  show "to_ascii_lowercase (expected_oid (sample_push\<lparr>expected_oid := replicate 40 (CHR ''B'')\<rparr>))
      \<noteq> expected_oid (sample_push\<lparr>expected_oid := replicate 40 (CHR ''B'')\<rparr>)"
    by code_simp
  show "validate_submission (sample_push\<lparr>expected_oid := replicate 40 (CHR ''B'')\<rparr>) = Inr ()" by code_simp
qed

end
