(* ===== verification/Uploads.thy ===== *)
theory Uploads
  imports App_Policy
begin

text \<open>
  \<open>uploads.rs\<close>: files of a guest, sent to GitHub or Linear with a credential of the host after a review. One call
  of \<open>upload\<close> is a function of what the other tasks do meanwhile and of what the services answer; at each \<open>await\<close>
  the client may go away, which drops the handler. Headers that the HTTP client adds to every request are left out.
\<close>

definition MAX_FILE :: nat where "MAX_FILE = 25 * 1024 * 1024"
definition GITHUB_IMAGE_LIMIT :: nat where "GITHUB_IMAGE_LIMIT = 10000000"
definition MAX_RESPONSE :: nat where "MAX_RESPONSE = 64 * 1024"

section \<open>Submissions\<close>

definition mime_char :: "char \<Rightarrow> bool" where
  "mime_char c \<longleftrightarrow> is_ascii_alphanumeric c \<or> c \<in> set ''!#$&^_.+-''"

definition bad_mime_part :: "string \<Rightarrow> bool" where
  "bad_mime_part p \<longleftrightarrow> p = [] \<or> \<not> list_all mime_char p"

definition bad_owner_part :: "string \<Rightarrow> bool" where
  "bad_owner_part p \<longleftrightarrow> p = [] \<or> p = ''.'' \<or> p = ''..'' \<or> \<not> list_all (\<lambda>c. is_ascii_alphanumeric c \<or> c \<in> set ''-_.'') p"

definition owner_parts :: "UploadSubmission \<Rightarrow> string list" where
  "owner_parts sub = split_on (CHR ''/'') (case upload_repository sub of None \<Rightarrow> [] | Some r \<Rightarrow> r)"

definition GITHUB_TYPES :: "string list" where
  "GITHUB_TYPES = [''image/png'', ''image/jpeg'', ''image/gif'', ''image/webp'', ''image/svg+xml'', ''video/mp4'', ''video/quicktime'',
     ''video/webm'']"

definition validate_destination :: "UploadSubmission \<Rightarrow> string + unit" where
  "validate_destination sub =
     (case destination sub of
        Github_destination \<Rightarrow>
          if length (owner_parts sub) \<noteq> 2 \<or> list_ex bad_owner_part (owner_parts sub)
          then Inl ''GitHub uploads require repository: owner/repository''
          else if upload_content_type sub \<notin> set GITHUB_TYPES
          then Inl ''Friendzone GitHub uploads support PNG, JPEG, GIF, WebP, SVG, MP4, MOV and WebM; use Linear for other files''
          else Inr ()
      | Linear_destination \<Rightarrow>
          if upload_repository sub \<noteq> None then Inl ''repository applies only to GitHub; Linear uploads need no issue ID'' else Inr ())"

definition validate_upload :: "UploadSubmission \<Rightarrow> string + unit" where
  "validate_upload sub =
     (let name = upload_filename sub in
      if name = [] \<or> 255 < length name \<or> list_ex (\<lambda>c. char_is_control (scalar c) \<or> c \<in> {''/'', [ch 92]}) (chars name)
         \<or> name = ''.'' \<or> name = ''..''
      then Inl ''filename must be a basename up to 255 bytes without controls''
      else if upload_session sub = [] \<or> 256 < length (upload_session sub) then Inl ''session_id required (up to 256 bytes)''
      else case split_once (CHR ''/'') (upload_content_type sub) of
          None \<Rightarrow> Inl ''content_type must be a MIME type''
        | Some (kind, subtype) \<Rightarrow>
            if list_ex bad_mime_part [kind, subtype] then Inl ''content_type must be a MIME type without parameters''
            else validate_destination sub)"

definition max_bytes :: "UploadSubmission \<Rightarrow> nat" where
  "max_bytes sub = (if destination sub = Github_destination then GITHUB_IMAGE_LIMIT else MAX_FILE)"

section \<open>Code of other packages\<close>

text \<open>A parsed URL; \<open>au_port\<close> is \<open>port_or_known_default\<close>.\<close>

record AssetUrl =
  au_scheme :: string
  au_username :: string
  au_password :: "string option"
  au_host :: "string option"
  au_port :: "nat option"
  au_path :: string
  au_query :: "string option"
  au_fragment :: "string option"

record upload_code =
  up_net :: net_code
  up_crypto :: crypto_code
  up_views :: view_code
  up_uri :: "string \<Rightarrow> Uri"
  up_write :: "Json \<Rightarrow> string"
  up_read :: "string \<Rightarrow> Json option"
  up_header_name :: "string \<Rightarrow> string option"
  up_asset :: "string \<Rightarrow> AssetUrl option"
  up_show_uuid :: "uuid \<Rightarrow> string"

section \<open>The credential\<close>

record UploadCredential =
  uc_entry :: string
  uc_digest :: string
  uc_header :: string

definition upload_host :: "Destination \<Rightarrow> string" where
  "upload_host d = (case d of Github_destination \<Rightarrow> ''uploads.github.com'' | Linear_destination \<Rightarrow> ''api.linear.app'')"

definition upload_entry :: "net_code \<Rightarrow> string \<Rightarrow> string \<Rightarrow> EscrowEntry \<Rightarrow> bool" where
  "upload_entry nc host presented e \<longleftrightarrow> fake e = presented \<and> presented \<noteq> [] \<and> header e = ''authorization'' \<and> pinned nc e host"

definition upload_digest :: "upload_code \<Rightarrow> EscrowEntry \<Rightarrow> string \<Rightarrow> string" where
  "upload_digest uc e real = sha256_hex (up_crypto uc) (up_write uc
     (JArray [JString (entry_name e), JString (fake e), JArray (map JString (entry_hosts e)), JString (header e),
        JString (EscrowEntry.prefix e), JString real]))"

definition resolve_upload :: "upload_code \<Rightarrow> 'p Settings \<Rightarrow> Destination \<Rightarrow> string \<Rightarrow> string + UploadCredential" where
  "resolve_upload uc cfg d presented =
     (let nc = up_net uc in
      case filter (upload_entry nc (upload_host d) presented) (escrow cfg) of
        [] \<Rightarrow> Inl (''No matching host credential pinned to '' @ upload_host d)
      | [e] \<Rightarrow>
          if d = Github_destination \<and> \<not> pinned nc e ''api.github.com''
          then Inl ''GitHub upload credential must also pin api.github.com for the repository lookup''
          else case real_value (env nc) (parse_session nc) cfg e of
              None \<Rightarrow> Inl ''Upload credential is disconnected; connect it in host Settings''
            | Some real \<Rightarrow>
                if \<not> header_ok (up_crypto uc) (EscrowEntry.prefix e @ real) then Inl ''invalid host upload credential''
                else if d = Github_destination \<and> \<not> list_ex (\<lambda>p. starts_with p real) [''ghp_'', ''gho_'', ''github_pat_'']
                then Inl ''GitHub attachments require a personal access or OAuth token, not an installation token''
                else Inr \<lparr>uc_entry = entry_name e, uc_digest = upload_digest uc e real, uc_header = EscrowEntry.prefix e @ real\<rparr>
      | _ \<Rightarrow> Inl ''ambiguous upload credential'')"

section \<open>Answers of the services\<close>

fun collect_response :: "string option list \<Rightarrow> string \<Rightarrow> string + string" where
  "collect_response [] bytes = Inr bytes"
| "collect_response (None # cs) bytes = Inl ''Upload response interrupted''"
| "collect_response (Some c # cs) bytes =
     (if MAX_RESPONSE < length bytes + length c then Inl ''Upload response exceeds limit'' else collect_response cs (bytes @ c))"

definition success_status :: "nat \<Rightarrow> bool" where
  "success_status n \<longleftrightarrow> 200 \<le> n \<and> n < 300"

definition response_json :: "upload_code \<Rightarrow> string \<Rightarrow> http_outcome \<Rightarrow> string + Json" where
  "response_json uc unsent reply =
     (case reply of
        No_connection \<Rightarrow> Inl unsent
      | Reply n chunks \<Rightarrow>
          if \<not> success_status n
          then Inl (''Upload service returned HTTP '' @ show_base 10 n @ '' (check credential access and file limits)'')
          else bind_res (collect_response chunks []) (\<lambda>bytes. ok_or ''Invalid upload response JSON'' (up_read uc bytes)))"

definition has_errors :: "Json \<Rightarrow> bool" where
  "has_errors j = opt_any (\<lambda>es. case as_array es of None \<Rightarrow> True | Some xs \<Rightarrow> xs \<noteq> []) (json_get ''errors'' j)"

definition repository_id :: "Json \<Rightarrow> string + nat" where
  "repository_id j =
     (if has_errors j then Inl ''GitHub repository lookup returned errors''
      else let repository = json_index (json_index j ''data'') ''repository'' in
        if \<not> opt_any (\<lambda>p. p \<in> {''WRITE'', ''MAINTAIN'', ''ADMIN''}) (as_str (json_index repository ''viewerPermission''))
        then Inl ''GitHub attachments require write access to the repository''
        else case as_u64 (json_index repository ''databaseId'') of
            None \<Rightarrow> Inl ''GitHub repository ID unavailable''
          | Some n \<Rightarrow> if 0 < n then Inr n else Inl ''GitHub repository ID unavailable'')"

text \<open>The tests that every URL of an answer must meet.\<close>

definition plain_https :: "AssetUrl \<Rightarrow> bool" where
  "plain_https u \<longleftrightarrow> au_scheme u = ''https'' \<and> au_port u = Some 443 \<and> au_username u = [] \<and> au_password u = None \<and> au_fragment u = None"

definition asset_place :: "Destination \<Rightarrow> AssetUrl \<Rightarrow> bool" where
  "asset_place d u \<longleftrightarrow>
     (case d of
        Github_destination \<Rightarrow> au_host u = Some ''github.com'' \<and> starts_with ''/user-attachments/assets/'' (au_path u)
      | Linear_destination \<Rightarrow> au_host u = Some ''uploads.linear.app'' \<and> au_path u \<noteq> ''/'')"

definition validate_asset :: "upload_code \<Rightarrow> string \<Rightarrow> Destination \<Rightarrow> string + unit" where
  "validate_asset uc raw d =
     (case up_asset uc raw of
        None \<Rightarrow> Inl ''invalid asset URL''
      | Some u \<Rightarrow>
          if \<not> asset_place d u \<or> \<not> plain_https u \<or> au_query u \<noteq> None
             \<or> list_ex (\<lambda>c. char_is_control (scalar c) \<or> c \<in> {''<'', ''>''}) (chars raw)
          then Inl ''Upload service returned an unexpected asset URL'' else Inr ())"

text \<open>The derived reading of a struct: an object with the members, or an array of as many values.\<close>

definition struct_values :: "string list \<Rightarrow> Json \<Rightarrow> Json list option" where
  "struct_values ks j =
     (case j of
        JObject m \<Rightarrow> those (map (map_of m) ks)
      | JArray xs \<Rightarrow> if length xs = length ks then Some xs else None
      | _ \<Rightarrow> None)"

record SignedHeader =
  sh_key :: string
  sh_value :: string

record Prepared =
  prepared_upload_url :: string
  prepared_asset_url :: string
  prepared_headers :: "SignedHeader list"

definition signed_header :: "Json \<Rightarrow> SignedHeader option" where
  "signed_header j =
     (case struct_values [''key'', ''value''] j of
        Some [JString k, JString v] \<Rightarrow> Some \<lparr>sh_key = k, sh_value = v\<rparr> | _ \<Rightarrow> None)"

definition read_prepared :: "Json \<Rightarrow> Prepared option" where
  "read_prepared j =
     (case struct_values [''uploadUrl'', ''assetUrl'', ''headers''] j of
        Some [JString u, JString a, JArray hs] \<Rightarrow>
          map_option (\<lambda>hs'. \<lparr>prepared_upload_url = u, prepared_asset_url = a, prepared_headers = hs'\<rparr>) (those (map signed_header hs))
      | _ \<Rightarrow> None)"

definition storage_place :: "AssetUrl \<Rightarrow> bool" where
  "storage_place u \<longleftrightarrow> au_host u \<in> {Some ''uploads.linear.app'', Some ''storage.googleapis.com''} \<and> plain_https u"

definition linear_prepared :: "upload_code \<Rightarrow> Json \<Rightarrow> string + Prepared" where
  "linear_prepared uc j =
     (let payload = json_index (json_index j ''data'') ''fileUpload'' in
      if has_errors j \<or> json_index payload ''success'' \<noteq> JBool True then Inl ''Linear could not prepare this upload''
      else case read_prepared (json_index payload ''uploadFile'') of
          None \<Rightarrow> Inl ''Linear returned incomplete upload details''
        | Some p \<Rightarrow>
            (case up_asset uc (prepared_upload_url p) of
               None \<Rightarrow> Inl ''invalid Linear storage URL''
             | Some u \<Rightarrow>
                 if \<not> storage_place u
                 then Inl ''Linear signed upload must target uploads.linear.app or storage.googleapis.com over HTTPS; arbitrary storage destinations are not allowed''
                 else if 32 < length (prepared_headers p)
                      \<or> MAX_HEADERS < sum_list (map (\<lambda>h. length (sh_key h) + length (sh_value h)) (prepared_headers p))
                 then Inl ''Linear signed headers exceed limit''
                 else bind_res (validate_asset uc (prepared_asset_url p) Linear_destination) (\<lambda>_. Inr p)))"

definition UNSAFE_HEADERS :: "string list" where
  "UNSAFE_HEADERS = [''authorization'', ''proxy-authorization'', ''cookie'', ''host'', ''transfer-encoding'', ''connection'']"

definition put_header :: "string \<Rightarrow> string \<Rightarrow> (string \<times> string) list \<Rightarrow> (string \<times> string) list" where
  "put_header n v hs = filter (\<lambda>(m, _). m \<noteq> n) hs @ [(n, v)]"

fun add_signed :: "upload_code \<Rightarrow> string \<Rightarrow> nat \<Rightarrow> string list \<Rightarrow> SignedHeader list \<Rightarrow> (string \<times> string) list \<Rightarrow> string + (string \<times> string) list" where
  "add_signed uc ct n seen [] hs = Inr hs"
| "add_signed uc ct n seen (h # rest) hs =
     (case up_header_name uc (sh_key h) of
        None \<Rightarrow> Inl ''invalid HTTP header name''
      | Some name \<Rightarrow>
          if name \<in> set seen \<or> name \<in> set UNSAFE_HEADERS then Inl ''Linear returned an unsafe or duplicate upload header''
          else if name = ''content-type'' \<and> sh_value h \<noteq> ct \<or> name = ''content-length'' \<and> sh_value h \<noteq> show_base 10 n
          then Inl ''Linear signed headers disagree with the reviewed file''
          else if \<not> header_ok (up_crypto uc) (sh_value h) then Inl ''failed to parse header value''
          else add_signed uc ct n (name # seen) rest (put_header name (sh_value h) hs))"

definition signed_headers :: "upload_code \<Rightarrow> SignedHeader list \<Rightarrow> string \<Rightarrow> nat \<Rightarrow> string + (string \<times> string) list" where
  "signed_headers uc listed ct n =
     (if \<not> header_ok (up_crypto uc) ct then Inl ''failed to parse header value''
      else add_signed uc ct n [] listed [(''content-type'', ct), (''cache-control'', ''public, max-age=31536000'')])"

section \<open>Views of an upload\<close>

definition destination_json :: "Destination \<Rightarrow> Json" where
  "destination_json d = JString (case d of Github_destination \<Rightarrow> ''github'' | Linear_destination \<Rightarrow> ''linear'')"

definition optional_string :: "string option \<Rightarrow> Json" where
  "optional_string v = (case v of None \<Rightarrow> JNull | Some s \<Rightarrow> JString s)"

definition upload_metadata :: "Upload \<Rightarrow> Json" where
  "upload_metadata u =
     (let sub = upload_submission u in
      JObject [(''destination'', destination_json (destination sub)), (''filename'', JString (upload_filename sub)),
        (''content_type'', JString (upload_content_type sub)), (''session_id'', JString (upload_session sub)),
        (''repository'', optional_string (upload_repository sub)), (''sha256'', JString (upload_sha256 u)),
        (''bytes'', JInt (int (upload_bytes u))), (''credential'', JString (upload_credential u)),
        (''url'', optional_string (upload_url u))])"

definition upload_label :: "string \<Rightarrow> string" where
  "upload_label name = map (\<lambda>c. if c \<in> {CHR ''['', CHR '']'', ch 92, ch 10, ch 13} then CHR ''_'' else c) name"

definition upload_markdown :: "UploadSubmission \<Rightarrow> string \<Rightarrow> string" where
  "upload_markdown sub url =
     (if starts_with ''image/'' (upload_content_type sub) then ''!'' else []) @ ''['' @ upload_label (upload_filename sub) @ ''](<'' @ url @ ''>)''"

definition GUIDANCE :: string where
  "GUIDANCE = ''Upload complete. Use this URL in the issue/PR description or comment body; uploading did not create or edit one. Linear URLs are private to Linear, not GitHub image hosting.''"

definition result_value :: "upload_code \<Rightarrow> UploadSubmission \<Rightarrow> string \<Rightarrow> uuid \<Rightarrow> Json" where
  "result_value uc sub url i =
     JObject [(''destination'', destination_json (destination sub)), (''filename'', JString (upload_filename sub)),
       (''guidance'', JString GUIDANCE), (''id'', JString (up_show_uuid uc i)), (''markdown'', JString (upload_markdown sub url)),
       (''url'', JString url)]"

record guest_upload =
  gu_id :: uuid
  gu_session :: string
  gu_status :: Status
  gu_terminal :: bool
  gu_updated_at :: instant
  gu_outcome :: "string option"
  gu_result :: "string option"

definition guest_result :: "upload_code \<Rightarrow> Detail \<Rightarrow> string \<Rightarrow> uuid \<Rightarrow> string \<Rightarrow> guest_upload option" where
  "guest_result uc d c inst session =
     (if \<not> guest_owns d c inst session then None
      else map_option (\<lambda>u. \<lparr>gu_id = detail_id d, gu_session = session, gu_status = detail_status d,
        gu_terminal = (detail_status d \<notin> {Pending, Approved, Sending}), gu_updated_at = updated_at (summary d),
        gu_outcome = outcome (summary d),
        gu_result = map_option (\<lambda>url. up_write uc (result_value uc (upload_submission u) url (detail_id d))) (upload_url u)\<rparr>)
        (file_upload d))"

definition guest_uploads :: "upload_code \<Rightarrow> string \<Rightarrow> uuid \<Rightarrow> string \<Rightarrow> Queue \<Rightarrow> guest_upload list" where
  "guest_uploads uc c inst session q =
     List.map_filter (\<lambda>d. guest_result uc d c inst session) (map (detail \<circ> snd) (pending q) @ recent q)"

section \<open>Requests\<close>

definition GITHUB_API :: string where "GITHUB_API = ''https://api.github.com/graphql''"
definition GITHUB_UPLOAD :: string where "GITHUB_UPLOAD = ''https://uploads.github.com/user-attachments/assets''"
definition LINEAR_API :: string where "LINEAR_API = ''https://api.linear.app/graphql''"

record sent_request =
  sent_method :: string
  sent_url :: string
  sent_query :: "(string \<times> string) list"
  sent_headers :: "(string \<times> string) list"
  sent_body :: string

definition json_post :: "upload_code \<Rightarrow> string \<Rightarrow> UploadCredential \<Rightarrow> Json \<Rightarrow> sent_request" where
  "json_post uc url cr j =
     \<lparr>sent_method = ''POST'', sent_url = url, sent_query = [],
      sent_headers = [(''authorization'', uc_header cr), (''content-type'', ''application/json'')], sent_body = up_write uc j\<rparr>"

definition lookup_request :: "upload_code \<Rightarrow> UploadCredential \<Rightarrow> UploadSubmission \<Rightarrow> sent_request" where
  "lookup_request uc cr sub =
     json_post uc GITHUB_API cr (JObject
       [(''query'', JString ''query FriendzoneUploadRepository($owner:String!,$name:String!){repository(owner:$owner,name:$name){databaseId viewerPermission}}''),
        (''variables'', JObject [(''name'', JString (owner_parts sub ! 1)), (''owner'', JString (owner_parts sub ! 0))])])"

definition github_request :: "UploadCredential \<Rightarrow> UploadSubmission \<Rightarrow> string \<Rightarrow> nat \<Rightarrow> sent_request" where
  "github_request cr sub contents rid =
     \<lparr>sent_method = ''POST'', sent_url = GITHUB_UPLOAD,
      sent_query = [(''name'', upload_filename sub), (''content_type'', upload_content_type sub), (''repository_id'', show_base 10 rid)],
      sent_headers = [(''authorization'', uc_header cr), (''accept'', ''application/vnd.github+json''), (''content-type'', ''application/octet-stream'')],
      sent_body = contents\<rparr>"

definition linear_request :: "upload_code \<Rightarrow> UploadCredential \<Rightarrow> UploadSubmission \<Rightarrow> nat \<Rightarrow> sent_request" where
  "linear_request uc cr sub n =
     json_post uc LINEAR_API cr (JObject
       [(''query'', JString ''mutation FriendzoneFileUpload($type:String!,$name:String!,$size:Int!){fileUpload(contentType:$type,filename:$name,size:$size,makePublic:false){success uploadFile{uploadUrl assetUrl headers{key value}}}}''),
        (''variables'', JObject [(''name'', JString (upload_filename sub)), (''size'', JInt (int n)), (''type'', JString (upload_content_type sub))])])"

definition storage_request :: "string \<Rightarrow> (string \<times> string) list \<Rightarrow> string \<Rightarrow> sent_request" where
  "storage_request url hs contents =
     \<lparr>sent_method = ''PUT'', sent_url = url, sent_query = [], sent_headers = hs, sent_body = contents\<rparr>"

section \<open>One upload\<close>

text \<open>
  What happens around the handler: the clock and the settings at its \<open>k\<close>-th reading, the operations of other tasks
  before its \<open>k\<close>-th critical section and at each \<open>await\<close>, and what the services answer. An answer \<open>None\<close> is a
  handler that is dropped there.
\<close>

record 'p upload_waits =
  un_now :: "nat \<Rightarrow> clock"
  un_cfg :: "nat \<Rightarrow> 'p Settings"
  un_gap :: "nat \<Rightarrow> state_op list"
  un_wait :: "state_op list"
  un_during :: "nat \<Rightarrow> state_op list"
  un_reply :: "nat \<Rightarrow> http_outcome option"

record UploadRequest =
  ur_container :: string
  ur_peer :: IpAddr
  ur_fake :: string
  ur_submission :: UploadSubmission
  ur_content :: string
  ur_epoch :: uuid

definition still_admitted :: "upload_code \<Rightarrow> 'p upload_waits \<Rightarrow> nat \<Rightarrow> UploadRequest \<Rightarrow> UploadCredential \<Rightarrow> AppState \<Rightarrow> string + unit" where
  "still_admitted uc w k r cr s =
     (if review_epoch s (ur_container r) (ur_peer r) \<noteq> Some (ur_epoch r) then Inl ''Guest policy changed; upload not sent''
      else bind_res (resolve_upload uc (un_cfg w k) (destination (ur_submission r)) (ur_fake r)) (\<lambda>now.
        if uc_digest now \<noteq> uc_digest cr then Inl ''Upload credential changed; submit again for review'' else Inr ()))"

text \<open>A phase: its result (none when the handler was dropped), the state, and the requests it sent.\<close>

type_synonym 'a upload_phase = "(string + 'a) option \<times> AppState \<times> sent_request list"

definition find_repository :: "upload_code \<Rightarrow> 'p upload_waits \<Rightarrow> UploadRequest \<Rightarrow> UploadCredential \<Rightarrow> AppState \<Rightarrow> nat option upload_phase" where
  "find_repository uc w r cr s =
     (if destination (ur_submission r) \<noteq> Github_destination then (Some (Inr None), s, [])
      else (map_option (\<lambda>reply. bind_res (response_json uc ''GitHub repository lookup failed'' reply) (\<lambda>j.
              bind_res (repository_id j) (\<lambda>n. Inr (Some n)))) (un_reply w 0),
            run (un_during w 0) s, [lookup_request uc cr (ur_submission r)]))"

definition send_github :: "upload_code \<Rightarrow> 'p upload_waits \<Rightarrow> UploadRequest \<Rightarrow> UploadCredential \<Rightarrow> nat \<Rightarrow> AppState \<Rightarrow> string upload_phase" where
  "send_github uc w r cr rid s =
     (map_option (\<lambda>reply. bind_res (response_json uc ''GitHub upload interrupted; inspect existing uploads before retrying'' reply) (\<lambda>j.
        bind_res (ok_or ''GitHub returned no asset URL'' (as_str (json_index j ''url''))) (\<lambda>url.
        bind_res (validate_asset uc url Github_destination) (\<lambda>_. Inr url)))) (un_reply w 1),
      run (un_during w 1) s, [github_request cr (ur_submission r) (ur_content r) rid])"

definition stored_at :: "string \<Rightarrow> http_outcome \<Rightarrow> string + string" where
  "stored_at url reply =
     (case reply of
        No_connection \<Rightarrow> Inl ''Linear upload interrupted; inspect existing uploads before retrying''
      | Reply n _ \<Rightarrow> if success_status n then Inr url else Inl (''Linear storage upload returned HTTP '' @ show_base 10 n))"

definition send_linear :: "upload_code \<Rightarrow> 'p upload_waits \<Rightarrow> UploadRequest \<Rightarrow> UploadCredential \<Rightarrow> AppState \<Rightarrow> string upload_phase" where
  "send_linear uc w r cr s =
     (let ct = upload_content_type (ur_submission r); n = length (ur_content r);
          first = linear_request uc cr (ur_submission r) n; s1 = run (un_during w 1) s in
      case map_option (\<lambda>reply. bind_res (response_json uc ''Linear upload preparation failed'' reply) (linear_prepared uc)) (un_reply w 1) of
        None \<Rightarrow> (None, s1, [first])
      | Some (Inl e) \<Rightarrow> (Some (Inl e), s1, [first])
      | Some (Inr p) \<Rightarrow>
          (case bind_res (still_admitted uc w 3 r cr s1) (\<lambda>_. signed_headers uc (prepared_headers p) ct n) of
             Inl e \<Rightarrow> (Some (Inl e), s1, [first])
           | Inr hs \<Rightarrow>
               (map_option (stored_at (prepared_asset_url p)) (un_reply w 2), run (un_during w 2) s1,
                [first, storage_request (prepared_upload_url p) hs (ur_content r)])))"

text \<open>The guarded part: the flag is \<open>outcome.sending\<close>.\<close>

definition send_file :: "upload_code \<Rightarrow> 'p upload_waits \<Rightarrow> UploadRequest \<Rightarrow> UploadCredential \<Rightarrow> uuid \<Rightarrow> AppState \<Rightarrow> bool \<times> string upload_phase" where
  "send_file uc w r cr i s =
     (case find_repository uc w r cr s of
        (None, s1, sent) \<Rightarrow> (False, None, s1, sent)
      | (Some (Inl e), s1, sent) \<Rightarrow> (False, Some (Inl e), s1, sent)
      | (Some (Inr rid), s1, sent) \<Rightarrow>
          (case still_admitted uc w 2 r cr s1 of
             Inl e \<Rightarrow> (False, Some (Inl e), s1, sent)
           | Inr _ \<Rightarrow>
               (case admit_review (un_now w 3) i (ur_container r) (ur_peer r) (ur_epoch r) (run (un_gap w 3) s1) of
                  (False, s2) \<Rightarrow> (False, Some (Inl ''Guest policy changed; upload not sent''), s2, sent)
                | (True, s2) \<Rightarrow>
                    (case rid of
                       Some n \<Rightarrow> (case send_github uc w r cr n s2 of (res, s3, extra) \<Rightarrow> (True, res, s3, sent @ extra))
                     | None \<Rightarrow> (case send_linear uc w r cr s2 of (res, s3, extra) \<Rightarrow> (True, res, s3, sent @ extra))))))"

text \<open>\<open>Outcome::drop\<close>.\<close>

definition outcome_drop :: "clock \<Rightarrow> uuid \<Rightarrow> bool \<Rightarrow> AppState \<Rightarrow> AppState" where
  "outcome_drop t i sending s = s\<lparr>reviews := observe t i (if sending then Unknown else Cancelled) None
     (if sending then ''Upload interrupted; outcome unknown. Not retried. Inspect existing uploads before retrying.''
      else ''Upload cancelled. Not sent.'') (reviews s)\<rparr>"

definition record_outcome :: "upload_code \<Rightarrow> clock \<Rightarrow> state_op list \<Rightarrow> UploadRequest \<Rightarrow> uuid \<Rightarrow> bool \<times> string upload_phase \<Rightarrow> Json upload_phase" where
  "record_outcome uc t gap r i run_result =
     (case run_result of
        (sending, None, s, sent) \<Rightarrow> (None, outcome_drop t i sending s, sent)
      | (sending, Some (Inl e), s, sent) \<Rightarrow>
          (Some (Inl e), s\<lparr>reviews := observe t i (if sending then Unknown else Blocked) None e (reviews s)\<rparr>, sent)
      | (sending, Some (Inr url), s, sent) \<Rightarrow>
          (Some (Inr (result_value uc (ur_submission r) url i)),
           (let s1 = run gap (s\<lparr>reviews := upload_result i url (reviews s)\<rparr>) in
            s1\<lparr>reviews := observe t i ResponseReceived None
              ''File uploaded. Use the returned URL in a separate description or comment.'' (reviews s1)\<rparr>), sent))"

text \<open>The snapshot for the reviewer.\<close>

definition upload_view :: "upload_code \<Rightarrow> UploadRequest \<Rightarrow> UploadCredential \<Rightarrow> uuid \<Rightarrow> Upload" where
  "upload_view uc r cr inst =
     \<lparr>upload_submission = ur_submission r, upload_sha256 = sha256_hex (up_crypto uc) (ur_content r),
      upload_bytes = length (ur_content r), upload_credential = uc_entry cr, upload_url = None, upload_instance = inst,
      upload_content = Some (ur_content r)\<rparr>"

definition upload_endpoint :: "Destination \<Rightarrow> string" where
  "upload_endpoint d = (case d of Github_destination \<Rightarrow> GITHUB_UPLOAD | Linear_destination \<Rightarrow> LINEAR_API)"

definition review_request :: "upload_code \<Rightarrow> Destination \<Rightarrow> Request" where
  "review_request uc d =
     \<lparr>req_method = ''POST'', uri = up_uri uc (upload_endpoint d), headers = [(''content-type'', \<lparr>hv_bytes = ''application/json'', hv_str = Some ''application/json''\<rparr>)]\<rparr>"

definition UPLOAD_REASON :: string where
  "UPLOAD_REASON = ''File upload only. Use the returned URL in a separate description or comment request. File content and metadata may contain private information.''"

definition upload_detail :: "upload_code \<Rightarrow> clock \<Rightarrow> uuid \<Rightarrow> UploadRequest \<Rightarrow> Upload \<Rightarrow> string + Detail" where
  "upload_detail uc t i r u =
     bind_res (from_request (up_views uc) (sha256_hex (up_crypto uc)) t i (ur_container r)
         (review_request uc (destination (ur_submission r))) (up_write uc (upload_metadata u))) (\<lambda>d.
       Inr (d\<lparr>summary := (summary d)\<lparr>body_bytes := length (ur_content r), reason := UPLOAD_REASON\<rparr>, file_upload := Some u\<rparr>))"

text \<open>Everything up to the snapshot: nothing is written yet.\<close>

definition prepare_upload :: "upload_code \<Rightarrow> 'p upload_waits \<Rightarrow> UploadRequest \<Rightarrow> AppState \<Rightarrow> string + UploadCredential \<times> Upload \<times> Detail" where
  "prepare_upload uc w r s =
     bind_res (validate_upload (ur_submission r)) (\<lambda>_.
       if ur_content r = [] \<or> max_bytes (ur_submission r) < length (ur_content r)
       then Inl ''File is empty or exceeds the destination upload limit''
       else case async_identity s (ur_container r) (ur_peer r) of
           None \<Rightarrow> Inl ''guest no longer authorized''
         | Some (inst, epoch) \<Rightarrow>
             if epoch \<noteq> ur_epoch r then Inl ''guest policy changed while uploading''
             else bind_res (resolve_upload uc (un_cfg w 0) (destination (ur_submission r)) (ur_fake r)) (\<lambda>cr.
               let u = upload_view uc r cr inst in
               bind_res (upload_detail uc (un_now w 0) (uuid_supply s) r u) (\<lambda>d. Inr (cr, u, d))))"

text \<open>The wait for the host. An error or a denial ends the handler, which drops its outcome.\<close>

definition await_upload :: "upload_code \<Rightarrow> 'p upload_waits \<Rightarrow> UploadRequest \<Rightarrow> UploadCredential \<Rightarrow> uuid \<Rightarrow> AppState \<Rightarrow> Json upload_phase" where
  "await_upload uc w r cr i s =
     (let s1 = run (un_wait w) s; stop = (\<lambda>e q. (Some (Inl e), outcome_drop (un_now w 2) i False (s1\<lparr>reviews := q\<rparr>), [])) in
      case ticket_wait (un_now w 2) (mono (un_now w 1) + WAIT_LIMIT) i (reviews s1) of
        (None, q) \<Rightarrow> (None, outcome_drop (un_now w 2) i False (s1\<lparr>reviews := drop_ticket (un_now w 2) i q\<rparr>), [])
      | (Some (Inl e), q) \<Rightarrow> stop e q
      | (Some (Inr Decision_kind.Deny), q) \<Rightarrow> stop ''File upload denied by host'' q
      | (Some (Inr Decision_kind.Approve), q) \<Rightarrow>
          (let s2 = run (un_gap w 2) (s1\<lparr>reviews := q\<rparr>) in
           case still_admitted uc w 1 r cr s2 of
             Inl e \<Rightarrow> (Some (Inl e), outcome_drop (un_now w 2) i False s2, [])
           | Inr _ \<Rightarrow> record_outcome uc (un_now w 4) (un_gap w 4) r i (send_file uc w r cr i s2)))"

definition upload :: "upload_code \<Rightarrow> 'p upload_waits \<Rightarrow> UploadRequest \<Rightarrow> AppState \<Rightarrow> Json upload_phase" where
  "upload uc w r s =
     (case prepare_upload uc w r s of
        Inl e \<Rightarrow> (Some (Inl e), s, [])
      | Inr (cr, u, d) \<Rightarrow>
          (let i = uuid_supply s; s1 = run (un_gap w 1) (s\<lparr>uuid_supply := i + 1\<rparr>) in
           case enqueue_review (un_now w 1) d (ur_peer r) (ur_epoch r) s1 of
             (Inl e, s2) \<Rightarrow> (Some (Inl e), outcome_drop (un_now w 1) i False s2, [])
           | (Inr _, s2) \<Rightarrow> await_upload uc w r cr i s2))"

end
