(* ===== verification/Upload_Safe.thy ===== *)
theory Upload_Safe
  imports Proxy_Safe Uploads
begin

text \<open>What an upload sends, where its credential goes, and what is written down about it.\<close>

section \<open>What was checked\<close>

lemma validate_asset_ok:
  "validate_asset uc raw d = Inr () \<longleftrightarrow> (\<exists>u. up_asset uc raw = Some u \<and> asset_place d u \<and> plain_https u \<and> au_query u = None
     \<and> \<not> list_ex (\<lambda>c. char_is_control (scalar c) \<or> c \<in> {''<'', ''>''}) (chars raw))"
  by (auto simp: validate_asset_def split: option.splits)

lemma linear_prepared_ok:
  assumes "linear_prepared uc j = Inr p"
  shows "\<exists>u. up_asset uc (prepared_upload_url p) = Some u \<and> storage_place u"
    "validate_asset uc (prepared_asset_url p) Linear_destination = Inr ()"
  using assms by (auto simp: linear_prepared_def Let_def bind_res_Inr_iff split: option.splits if_splits)

lemma add_signed_safe:
  assumes "add_signed uc ct n seen xs hs = Inr hs'" and "set UNSAFE_HEADERS \<inter> fst ` set hs = {}"
  shows "set UNSAFE_HEADERS \<inter> fst ` set hs' = {}"
  using assms
proof (induction xs arbitrary: seen hs)
  case (Cons x xs)
  then obtain name where name: "name \<notin> set UNSAFE_HEADERS" "add_signed uc ct n (name # seen) xs (put_header name (sh_value x) hs) = Inr hs'"
    by (auto split: option.splits if_splits)
  have "set UNSAFE_HEADERS \<inter> fst ` set (put_header name (sh_value x) hs) = {}" using Cons.prems(2) name(1) by (auto simp: put_header_def)
  then show ?case using Cons.IH name(2) by blast
qed simp

lemma signed_headers_safe:
  assumes "signed_headers uc xs ct n = Inr hs"
  shows "set UNSAFE_HEADERS \<inter> fst ` set hs = {}"
proof (rule add_signed_safe)
  show "add_signed uc ct n [] xs [(''content-type'', ct), (''cache-control'', ''public, max-age=31536000'')] = Inr hs"
    using assms by (simp add: signed_headers_def split: if_splits)
  show "set UNSAFE_HEADERS \<inter> fst ` set [(''content-type'', ct), (''cache-control'', ''public, max-age=31536000'')] = {}"
    by (simp add: UNSAFE_HEADERS_def)
qed

lemma signed_headers_names: "signed_headers uc xs ct n = Inr hs \<Longrightarrow> (a, b) \<in> set hs \<Longrightarrow> a \<in> set UNSAFE_HEADERS \<Longrightarrow> False"
  by (drule signed_headers_safe) force

lemma resolve_upload_ok:
  assumes "resolve_upload uc st d presented = Inr cr"
  shows "\<exists>e real. e \<in> set (escrow st) \<and> fake e = presented \<and> presented \<noteq> [] \<and> pinned (up_net uc) e (upload_host d)
    \<and> (d = Github_destination \<longrightarrow> pinned (up_net uc) e ''api.github.com'')
    \<and> real_value (env (up_net uc)) (parse_session (up_net uc)) st e = Some real \<and> uc_header cr = EscrowEntry.prefix e @ real"
proof -
  obtain e where e: "filter (upload_entry (up_net uc) (upload_host d) presented) (escrow st) = [e]"
    using assms by (auto simp: resolve_upload_def Let_def split: list.splits)
  then have "e \<in> set (escrow st)" "upload_entry (up_net uc) (upload_host d) presented e"
    by (auto dest!: arg_cong [where f = set] simp: set_eq_iff)
  then show ?thesis using assms e
    by (auto simp: resolve_upload_def Let_def upload_entry_def split: option.splits if_splits)
qed

section \<open>The messages of an upload\<close>

definition upload_message :: "upload_code \<Rightarrow> UploadRequest \<Rightarrow> UploadCredential \<Rightarrow> sent_request \<Rightarrow> bool" where
  "upload_message uc r cr q \<longleftrightarrow>
     (let sub = ur_submission r; contents = ur_content r in
      case destination sub of
        Github_destination \<Rightarrow> q = lookup_request uc cr sub \<or> (\<exists>n. q = github_request cr sub contents n)
      | Linear_destination \<Rightarrow> q = linear_request uc cr sub (length contents)
          \<or> (\<exists>j p hs. linear_prepared uc j = Inr p \<and> signed_headers uc (prepared_headers p) (upload_content_type sub) (length contents) = Inr hs
               \<and> q = storage_request (prepared_upload_url p) hs contents))"

lemma post_messages: "sent_method (lookup_request uc cr sub) = ''POST''" "sent_method (github_request cr sub contents n) = ''POST''"
    "sent_method (linear_request uc cr sub k) = ''POST''"
  by (simp_all add: lookup_request_def github_request_def linear_request_def json_post_def Let_def)

lemma send_github_posts: "send_github uc w r cr n s = (res, s', sent) \<Longrightarrow> q \<in> set sent \<Longrightarrow> sent_method q = ''POST''"
  by (auto simp: send_github_def post_messages)

lemma send_linear_stores:
  assumes "send_linear uc w r cr s = (res, s', sent)" and "q \<in> set sent" and "sent_method q = ''PUT''"
  shows "still_admitted uc w 3 r cr (run (un_during w 1) s) = Inr ()"
  using assms by (auto simp: send_linear_def Let_def post_messages bind_res_Inr_iff split: option.splits sum.splits)

lemma send_github_ok:
  assumes "send_github uc w r cr n s = (res, s', sent)" and "destination (ur_submission r) = Github_destination"
  shows "\<forall>q \<in> set sent. upload_message uc r cr q" "sent \<noteq> []"
    "res = Some (Inr url) \<Longrightarrow> validate_asset uc url Github_destination = Inr ()"
  using assms by (auto simp: send_github_def upload_message_def Let_def bind_res_Inr_iff split: option.splits)

lemma send_linear_ok:
  assumes "send_linear uc w r cr s = (res, s', sent)" and "destination (ur_submission r) = Linear_destination"
  shows "\<forall>q \<in> set sent. upload_message uc r cr q" "sent \<noteq> []"
    "res = Some (Inr url) \<Longrightarrow> validate_asset uc url Linear_destination = Inr ()"
proof -
  let ?p = "map_option (\<lambda>reply. bind_res (response_json uc ''Linear upload preparation failed'' reply) (linear_prepared uc)) (un_reply w 1)"
  have stored: "stored_at a reply = Inr url \<Longrightarrow> url = a" for a reply
    by (auto simp: stored_at_def split: http_outcome.splits if_splits)
  have "(\<forall>q \<in> set sent. upload_message uc r cr q) \<and> sent \<noteq> []
      \<and> (res = Some (Inr url) \<longrightarrow> validate_asset uc url Linear_destination = Inr ())"
  proof (cases "\<exists>p hs. ?p = Some (Inr p) \<and> bind_res (still_admitted uc w 3 r cr (run (un_during w 1) s))
        (\<lambda>_. signed_headers uc (prepared_headers p) (upload_content_type (ur_submission r)) (length (ur_content r))) = Inr hs")
    case False
    then show ?thesis using assms
      by (auto simp: send_linear_def Let_def upload_message_def split: option.splits sum.splits)
  next
    case True
    then obtain p hs where p: "?p = Some (Inr p)" and hs: "bind_res (still_admitted uc w 3 r cr (run (un_during w 1) s))
        (\<lambda>_. signed_headers uc (prepared_headers p) (upload_content_type (ur_submission r)) (length (ur_content r))) = Inr hs" by blast
    then obtain j where j: "linear_prepared uc j = Inr p" by (auto simp: bind_res_Inr_iff)
    have "sent = [linear_request uc cr (ur_submission r) (length (ur_content r)), storage_request (prepared_upload_url p) hs (ur_content r)]"
      "res = map_option (stored_at (prepared_asset_url p)) (un_reply w 2)"
      using assms(1) unfolding send_linear_def Let_def p option.case sum.case hs by simp_all
    moreover have "signed_headers uc (prepared_headers p) (upload_content_type (ur_submission r)) (length (ur_content r)) = Inr hs"
      using hs by (simp add: bind_res_Inr_iff)
    moreover from this have "upload_message uc r cr (storage_request (prepared_upload_url p) hs (ur_content r))"
      using assms(2) j by (simp add: upload_message_def Let_def) blast
    moreover have "upload_message uc r cr (linear_request uc cr (ur_submission r) (length (ur_content r)))"
      using assms(2) by (simp add: upload_message_def Let_def)
    ultimately show ?thesis using linear_prepared_ok(2) [OF j] stored by auto
  qed
  then show "\<forall>q \<in> set sent. upload_message uc r cr q" "sent \<noteq> []"
    "res = Some (Inr url) \<Longrightarrow> validate_asset uc url Linear_destination = Inr ()" by blast+
qed

text \<open>A guest and a credential that are still the ones of the review.\<close>

definition same_guest :: "UploadRequest \<Rightarrow> AppState \<Rightarrow> AppState \<Rightarrow> bool" where
  "same_guest r s sa \<longleftrightarrow> guest_policy sa (ur_container r) = guest_policy s (ur_container r)
     \<and> \<not> refused sa (ur_container r) (ur_peer r) (ur_epoch r)"

definition same_credential :: "upload_code \<Rightarrow> 'p upload_waits \<Rightarrow> nat \<Rightarrow> UploadRequest \<Rightarrow> UploadCredential \<Rightarrow> bool" where
  "same_credential uc w k r cr \<longleftrightarrow> (\<exists>again. resolve_upload uc (un_cfg w k) (destination (ur_submission r)) (ur_fake r) = Inr again
     \<and> uc_digest again = uc_digest cr)"

lemma review_epoch_not_refused: "review_epoch s c peer = Some epoch \<Longrightarrow> \<not> refused s c peer epoch"
  by (auto simp: review_epoch_def current_guest_def refused_def opt_all_def opt_any_def split: option.splits if_splits)

lemma still_admitted_ok:
  assumes "still_admitted uc w k r cr s = Inr ()"
  shows "\<not> refused s (ur_container r) (ur_peer r) (ur_epoch r)" and "same_credential uc w k r cr"
  using assms review_epoch_not_refused by (auto simp: still_admitted_def same_credential_def bind_res_Inr_iff split: if_splits)

text \<open>What other tasks do during the lookup, which only a GitHub upload makes.\<close>

definition lookup_ops :: "'p upload_waits \<Rightarrow> UploadRequest \<Rightarrow> state_op list" where
  "lookup_ops w r = (if destination (ur_submission r) = Github_destination then un_during w 0 else [])"

lemma find_repository_ok:
  assumes "find_repository uc w r cr s = (res, s', sent)"
  shows "s' = run (lookup_ops w r) s" "\<forall>q \<in> set sent. upload_message uc r cr q \<and> q = lookup_request uc cr (ur_submission r)"
    "res = Some (Inr rid) \<Longrightarrow> (rid = None \<longleftrightarrow> destination (ur_submission r) = Linear_destination)"
proof -
  show "s' = run (lookup_ops w r) s" using assms by (auto simp: find_repository_def lookup_ops_def run_def split: if_splits)
  show "\<forall>q \<in> set sent. upload_message uc r cr q \<and> q = lookup_request uc cr (ur_submission r)"
    "res = Some (Inr rid) \<Longrightarrow> (rid = None \<longleftrightarrow> destination (ur_submission r) = Linear_destination)"
    using assms by (cases "destination (ur_submission r)";
      auto simp: find_repository_def upload_message_def Let_def bind_res_Inr_iff split: option.splits)+
qed

lemma send_file_ok:
  assumes "send_file uc w r cr i s = (sending, res, s', sent)"
  shows "\<forall>q \<in> set sent. upload_message uc r cr q \<and> (q = lookup_request uc cr (ur_submission r) \<or> sending)"
    "sending \<Longrightarrow> same_credential uc w 2 r cr
       \<and> \<not> refused (run (lookup_ops w r @ un_gap w 3) s) (ur_container r) (ur_peer r) (ur_epoch r)"
    "q \<in> set sent \<Longrightarrow> sent_method q = ''PUT'' \<Longrightarrow> same_credential uc w 3 r cr
       \<and> \<not> refused (run (lookup_ops w r @ un_gap w 3 @ Admit_review_op (un_now w 3) i (ur_container r) (ur_peer r) (ur_epoch r) # un_during w 1) s)
           (ur_container r) (ur_peer r) (ur_epoch r)"
    "res = Some (Inr url) \<Longrightarrow> sending \<and> validate_asset uc url (destination (ur_submission r)) = Inr ()"
proof -
  let ?sub = "ur_submission r" and ?c = "ur_container r" and ?admit = "Admit_review_op (un_now w 3) i (ur_container r) (ur_peer r) (ur_epoch r)"
  obtain look s1 first where find: "find_repository uc w r cr s = (look, s1, first)" by (metis prod_cases3)
  note found = find_repository_ok [OF find]
  have *: "(\<forall>q \<in> set sent. upload_message uc r cr q \<and> (q = lookup_request uc cr ?sub \<or> sending))
      \<and> (sending \<longrightarrow> same_credential uc w 2 r cr \<and> \<not> refused (run (lookup_ops w r @ un_gap w 3) s) ?c (ur_peer r) (ur_epoch r))
      \<and> (\<forall>q \<in> set sent. sent_method q = ''PUT'' \<longrightarrow> same_credential uc w 3 r cr
           \<and> \<not> refused (run (lookup_ops w r @ un_gap w 3 @ ?admit # un_during w 1) s) ?c (ur_peer r) (ur_epoch r))
      \<and> (res = Some (Inr url) \<longrightarrow> sending \<and> validate_asset uc url (destination ?sub) = Inr ())"
  proof (cases "\<exists>rid s2. look = Some (Inr rid) \<and> still_admitted uc w 2 r cr s1 = Inr ()
      \<and> admit_review (un_now w 3) i (ur_container r) (ur_peer r) (ur_epoch r) (run (un_gap w 3) s1) = (True, s2)")
    case False
    then have "\<not> sending \<and> sent = first \<and> (\<nexists>url. res = Some (Inr url))"
      using assms find by (auto simp: send_file_def split: prod.splits option.splits sum.splits bool.splits)
    then show ?thesis using found(2) by (auto simp: post_messages)
  next
    case True
    then obtain rid s2 where ok: "look = Some (Inr rid)" "still_admitted uc w 2 r cr s1 = Inr ()"
      "admit_review (un_now w 3) i (ur_container r) (ur_peer r) (ur_epoch r) (run (un_gap w 3) s1) = (True, s2)" by blast
    have s2: "s2 = run (lookup_ops w r @ un_gap w 3 @ [?admit]) s" using ok(3) found(1) by (simp add: run_append run_Cons run_def)
    have un: "same_credential uc w 2 r cr" "\<not> refused (run (lookup_ops w r @ un_gap w 3) s) ?c (ur_peer r) (ur_epoch r)"
      using admit_review_ok(1) [OF ok(3)] found(1) still_admitted_ok(2) [OF ok(2)] by (simp_all add: run_append)
    obtain res2 s3 second where second: "(case rid of Some n \<Rightarrow> send_github uc w r cr n s2 | None \<Rightarrow> send_linear uc w r cr s2) = (res2, s3, second)"
      by (metis prod_cases3)
    have run: "sending" "res = res2" "sent = first @ second"
      using assms find ok second by (auto simp: send_file_def split: option.splits prod.splits)
    have puts: "still_admitted uc w 3 r cr (run (un_during w 1) s2) = Inr ()" if "q \<in> set sent" "sent_method q = ''PUT''" for q
    proof -
      have "q \<in> set second" using that run(3) found(2) by (auto simp: post_messages)
      then show ?thesis using second that(2) send_linear_stores send_github_posts by (cases rid) fastforce+
    qed
    have "(\<forall>q \<in> set second. upload_message uc r cr q) \<and> (res2 = Some (Inr url) \<longrightarrow> validate_asset uc url (destination ?sub) = Inr ())"
    proof (cases rid)
      case None
      then have "destination ?sub = Linear_destination" using found(3) ok(1) by blast
      then show ?thesis using send_linear_ok [of uc w r cr s2 res2 s3 second] second None by auto
    next
      case (Some n)
      then have "destination ?sub = Github_destination" using found(3) [OF ok(1)] by (cases "destination ?sub") auto
      then show ?thesis using send_github_ok [of uc w r cr n s2 res2 s3 second] second Some by auto
    qed
    moreover have "same_credential uc w 3 r cr
           \<and> \<not> refused (run (lookup_ops w r @ un_gap w 3 @ ?admit # un_during w 1) s) ?c (ur_peer r) (ur_epoch r)"
      if "q \<in> set sent" "sent_method q = ''PUT''" for q
    proof -
      have "run (un_during w 1) s2 = run (lookup_ops w r @ un_gap w 3 @ ?admit # un_during w 1) s"
        unfolding s2 by (simp only: run_append [symmetric] append_assoc append_Cons append_Nil)
      with still_admitted_ok [OF puts [OF that]] show ?thesis by simp
    qed
    ultimately show ?thesis using run un found(2) by auto
  qed
  then show "\<forall>q \<in> set sent. upload_message uc r cr q \<and> (q = lookup_request uc cr ?sub \<or> sending)"
    "sending \<Longrightarrow> same_credential uc w 2 r cr \<and> \<not> refused (run (lookup_ops w r @ un_gap w 3) s) ?c (ur_peer r) (ur_epoch r)"
    "q \<in> set sent \<Longrightarrow> sent_method q = ''PUT'' \<Longrightarrow> same_credential uc w 3 r cr
       \<and> \<not> refused (run (lookup_ops w r @ un_gap w 3 @ ?admit # un_during w 1) s) ?c (ur_peer r) (ur_epoch r)"
    "res = Some (Inr url) \<Longrightarrow> sending \<and> validate_asset uc url (destination ?sub) = Inr ()" by blast+
qed

section \<open>The whole upload\<close>

text \<open>The state after the id was drawn.\<close>

abbreviation with_id :: "AppState \<Rightarrow> AppState" where
  "with_id s \<equiv> s\<lparr>uuid_supply := uuid_supply s + 1\<rparr>"

definition host_agreed :: "'p upload_waits \<Rightarrow> UploadRequest \<Rightarrow> AppState \<Rightarrow> Detail \<Rightarrow> bool" where
  "host_agreed w r s d \<longleftrightarrow>
     (\<exists>t. Queue_op (Op_decide t (uuid_supply s) (fingerprint (summary d)) Decision_kind.Approve) \<in> set (un_wait w))
     \<or> destination (ur_submission r) = Github_destination \<and> allows_all (github_policy (run (un_gap w 1) (with_id s)))"

text \<open>What the reviewer is shown of an upload.\<close>

definition upload_shown :: "upload_code \<Rightarrow> UploadRequest \<Rightarrow> UploadCredential \<Rightarrow> Detail \<Rightarrow> bool" where
  "upload_shown uc r cr d \<longleftrightarrow> (\<exists>u. file_upload d = Some u \<and> upload_content u = Some (ur_content r) \<and> upload_submission u = ur_submission r
     \<and> upload_sha256 u = sha256_hex (up_crypto uc) (ur_content r) \<and> upload_credential u = uc_entry cr
     \<and> fingerprint (summary d) = sha256_hex (up_crypto uc)
         (fingerprint_input (review_request uc (destination (ur_submission r))) (up_write uc (upload_metadata u))))"

lemma from_request_id: "from_request vc sha t i c req bytes = Inr d \<Longrightarrow> detail_id d = i"
  unfolding from_request_def from_request_with_limit_def bind_res_Inr_iff Let_def case_prod_unfold
  by (elim exE conjE) (drule Inr_inject, drule sym, simp)

lemma prepare_upload_ok:
  assumes "prepare_upload uc w r s = Inr (cr, u, d)"
  shows "resolve_upload uc (un_cfg w 0) (destination (ur_submission r)) (ur_fake r) = Inr cr"
    "review_epoch s (ur_container r) (ur_peer r) = Some (ur_epoch r)" "detail_id d = uuid_supply s" "file_upload d = Some u"
    "upload_submission u = ur_submission r" "upload_shown uc r cr d"
proof -
  obtain inst epoch where id: "async_identity s (ur_container r) (ur_peer r) = Some (inst, epoch)" "epoch = ur_epoch r"
    using assms by (auto simp: prepare_upload_def bind_res_Inr_iff Let_def split: if_splits option.splits)
  then show "review_epoch s (ur_container r) (ur_peer r) = Some (ur_epoch r)" by (auto simp: async_identity_def review_epoch_def)
  from assms id have p: "resolve_upload uc (un_cfg w 0) (destination (ur_submission r)) (ur_fake r) = Inr cr"
      "u = upload_view uc r cr inst" "upload_detail uc (un_now w 0) (uuid_supply s) r u = Inr d"
    by (auto simp: prepare_upload_def bind_res_Inr_iff Let_def split: if_splits)
  show "resolve_upload uc (un_cfg w 0) (destination (ur_submission r)) (ur_fake r) = Inr cr" by (fact p(1))
  obtain d0 where d0: "from_request (up_views uc) (sha256_hex (up_crypto uc)) (un_now w 0) (uuid_supply s) (ur_container r)
        (review_request uc (destination (ur_submission r))) (up_write uc (upload_metadata u)) = Inr d0"
      "d = d0\<lparr>summary := (summary d0)\<lparr>body_bytes := length (ur_content r), reason := UPLOAD_REASON\<rparr>, file_upload := Some u\<rparr>"
    using p(3) by (auto simp: upload_detail_def bind_res_Inr_iff)
  show "detail_id d = uuid_supply s"
    using from_request_id [OF d0(1)] by (simp add: d0(2))
  show "file_upload d = Some u" "upload_submission u = ur_submission r" by (simp_all add: d0(2) p(2) upload_view_def)
  then show "upload_shown uc r cr d"
    using from_request_detail(2) [OF d0(1)] by (simp add: upload_shown_def d0(2) p(2) upload_view_def)
qed

lemma upload_enqueued:
  assumes "upload uc w r s = (res, s', sent)" and "sent \<noteq> [] \<or> res = Some (Inr v)"
  shows "\<exists>cr u d s2. prepare_upload uc w r s = Inr (cr, u, d)
    \<and> enqueue_review (un_now w 1) d (ur_peer r) (ur_epoch r) (run (un_gap w 1) (with_id s)) = (Inr (uuid_supply s), s2)
    \<and> await_upload uc w r cr (uuid_supply s) s2 = (res, s', sent)"
proof -
  obtain cr u d where p: "prepare_upload uc w r s = Inr (cr, u, d)"
    using assms by (auto simp: upload_def split: sum.splits)
  then obtain i s2 where e: "enqueue_review (un_now w 1) d (ur_peer r) (ur_epoch r) (run (un_gap w 1) (with_id s)) = (Inr i, s2)"
      "await_upload uc w r cr (uuid_supply s) s2 = (res, s', sent)"
    using assms by (auto simp: upload_def Let_def split: sum.splits prod.splits)
  have "i = detail_id d"
    using e(1) by (auto simp: enqueue_review_def enqueue_def Let_def split: option.splits if_splits prod.splits sum.splits)
  then show ?thesis using p e prepare_upload_ok(3) [OF p] by auto
qed

lemma await_upload_ok:
  assumes "await_upload uc w r cr i s = (res, s', sent)" and "sent \<noteq> [] \<or> res = Some (Inr v)"
  shows "\<exists>q sending phase. answer (reviews (run (un_wait w) s)) i = Some Decision_kind.Approve
    \<and> still_admitted uc w 1 r cr (run (un_gap w 2) ((run (un_wait w) s)\<lparr>reviews := drop_ticket (un_now w 2) i (reviews (run (un_wait w) s))\<rparr>)) = Inr ()
    \<and> send_file uc w r cr i (run (un_gap w 2) ((run (un_wait w) s)\<lparr>reviews := drop_ticket (un_now w 2) i (reviews (run (un_wait w) s))\<rparr>)) = (sending, phase)
    \<and> record_outcome uc (un_now w 4) (un_gap w 4) r i (sending, phase) = (res, s', sent)"
proof -
  let ?s1 = "run (un_wait w) s"
  obtain q where wait: "ticket_wait (un_now w 2) (mono (un_now w 1) + WAIT_LIMIT) i (reviews ?s1) = (Some (Inr Decision_kind.Approve), q)"
    using assms by (auto simp: await_upload_def Let_def split: prod.splits option.splits sum.splits Decision_kind.splits)
  note a = ticket_wait_answer [OF wait]
  have checked: "still_admitted uc w 1 r cr (run (un_gap w 2) (?s1\<lparr>reviews := q\<rparr>)) = Inr ()"
    using assms wait by (auto simp: await_upload_def Let_def split: sum.splits)
  then have "record_outcome uc (un_now w 4) (un_gap w 4) r i (send_file uc w r cr i (run (un_gap w 2) (?s1\<lparr>reviews := q\<rparr>))) = (res, s', sent)"
    using assms(1) wait by (simp add: await_upload_def Let_def)
  then show ?thesis using a checked by (metis surj_pair)
qed

text \<open>The last thing that is written about the review \<open>i\<close> is the status \<open>st\<close>.\<close>

definition marked :: "uuid \<Rightarrow> Status \<Rightarrow> AppState \<Rightarrow> bool" where
  "marked i st s' \<longleftrightarrow> (\<exists>s t out. s' = s\<lparr>reviews := observe t i st None out (reviews s)\<rparr>)"

lemma marked_simps [simp]:
  "marked i st (s\<lparr>reviews := observe t i st None out (reviews s)\<rparr>)"
  "marked i Unknown (outcome_drop t i True s)" "marked i Cancelled (outcome_drop t i False s)"
  unfolding marked_def outcome_drop_def by auto

lemma record_outcome_ok:
  assumes "record_outcome uc t ops r i (sending, res0, s0, sent0) = (res, s', sent)"
  shows "sent = sent0" "res = Some (Inr v) \<Longrightarrow> \<exists>url. res0 = Some (Inr url) \<and> v = result_value uc (ur_submission r) url i"
    "marked i (if \<exists>v. res = Some (Inr v) then ResponseReceived else if sending then Unknown else if res = None then Cancelled else Blocked) s'"
proof -
  consider "res0 = None" | e where "res0 = Some (Inl e)" | url where "res0 = Some (Inr url)" by (metis not_Some_eq sumE)
  then have "sent = sent0 \<and> (res = Some (Inr v) \<longrightarrow> (\<exists>url. res0 = Some (Inr url) \<and> v = result_value uc (ur_submission r) url i))
    \<and> marked i (if \<exists>v. res = Some (Inr v) then ResponseReceived else if sending then Unknown else if res = None then Cancelled else Blocked) s'"
  proof cases
    case 1
    then have "res = None" "sent = sent0" "s' = outcome_drop t i sending s0" using assms by (simp_all add: record_outcome_def)
    then show ?thesis by (cases sending) simp_all
  next
    case (2 e)
    then have "res = Some (Inl e)" "sent = sent0"
      "s' = s0\<lparr>reviews := observe t i (if sending then Unknown else Blocked) None e (reviews s0)\<rparr>" using assms by (simp_all add: record_outcome_def)
    then show ?thesis by (cases sending) simp_all
  next
    case (3 url)
    then show ?thesis using assms by (auto simp: record_outcome_def Let_def)
  qed
  then show "sent = sent0" "res = Some (Inr v) \<Longrightarrow> \<exists>url. res0 = Some (Inr url) \<and> v = result_value uc (ur_submission r) url i"
    "marked i (if \<exists>v. res = Some (Inr v) then ResponseReceived else if sending then Unknown else if res = None then Cancelled else Blocked) s'"
    by blast+
qed

lemma state_ok_supply: "state_ok s \<Longrightarrow> state_ok (with_id s)"
  by (auto simp: state_ok_def list_all_iff)

lemma upload_agreed:
  assumes "enqueue_review (un_now w 1) d (ur_peer r) (ur_epoch r) (run (un_gap w 1) (with_id s)) = (Inr (uuid_supply s), s2)"
    and "file_upload d = Some u" and "upload_submission u = ur_submission r"
    and "list_all (quiet (uuid_supply s)) (un_wait w)" and "answer (reviews (run (un_wait w) s2)) (uuid_supply s) = Some Decision_kind.Approve"
  shows "host_agreed w r s d"
proof (cases "auto_approves_upload (run (un_gap w 1) (with_id s)) d")
  case True
  then show ?thesis using assms(2,3) by (auto simp: host_agreed_def auto_approves_upload_def)
next
  case False
  note waits = enqueue_review_waits [OF assms(1) False]
  show ?thesis using decided_in_run [OF waits(2) assms(4) _ assms(5)] waits(3) by (auto simp: host_agreed_def)
qed

text \<open>
  The operations of other tasks, and of the upload itself on the shared state, up to each of the three moments at which the
  handler looks again: after the approval, before it sends the file, and before it writes to the storage.
\<close>

definition until_approval :: "'p upload_waits \<Rightarrow> UploadRequest \<Rightarrow> uuid \<Rightarrow> Detail \<Rightarrow> state_op list" where
  "until_approval w r i d = un_gap w 1 @ Enqueue_op (un_now w 1) d (ur_peer r) (ur_epoch r) # un_wait w
     @ Queue_op (Op_drop_ticket (un_now w 2) i) # un_gap w 2"

definition until_sending :: "'p upload_waits \<Rightarrow> UploadRequest \<Rightarrow> uuid \<Rightarrow> Detail \<Rightarrow> state_op list" where
  "until_sending w r i d = until_approval w r i d @ lookup_ops w r @ un_gap w 3"

definition until_storage :: "'p upload_waits \<Rightarrow> UploadRequest \<Rightarrow> uuid \<Rightarrow> Detail \<Rightarrow> state_op list" where
  "until_storage w r i d = until_sending w r i d
     @ Admit_review_op (un_now w 3) i (ur_container r) (ur_peer r) (ur_epoch r) # un_during w 1"

lemma same_guest_run:
  assumes "state_ok s" and "review_epoch s (ur_container r) (ur_peer r) = Some (ur_epoch r)"
    and "\<not> refused (run ops (with_id s)) (ur_container r) (ur_peer r) (ur_epoch r)"
  shows "same_guest r s (run ops (with_id s))"
proof -
  have "review_epoch (with_id s) (ur_container r) (ur_peer r) = Some (ur_epoch r)"
    using assms(2) by (simp add: review_epoch_def current_guest_def cong: option.case_cong)
  from same_policy_while_epoch [OF state_ok_supply [OF assms(1)] this assms(3)] assms(3)
  show ?thesis by (simp add: same_guest_def guest_policy_def)
qed

text \<open>
  C12. What an upload sends. Whatever other tasks do meanwhile and however the services answer, everything that is
  sent is one of the four messages of this upload, made of the file and the submission the reviewer was shown,
  and only after the host approved exactly this upload, or, for GitHub, under the allow-all policy. Everything is sent
  only if the guest, in the state that the operations of other tasks had led to after the approval, had the approval, pin,
  kill flag and epoch of the beginning, and the settings read then gave the credential of the review. For every message
  but the lookup of the repository the same held once more in the state after the lookup, and for the request that
  writes to the storage a third time, after the answer of Linear. (Ids are fresh: no other task enqueues this one.)
\<close>

theorem upload_sends_reviewed:
  assumes "state_ok s" and "list_all (quiet (uuid_supply s)) (un_wait w)" and "upload uc w r s = (res, s', sent)" and "q \<in> set sent"
  shows "\<exists>cr u d. prepare_upload uc w r s = Inr (cr, u, d) \<and> upload_shown uc r cr d \<and> host_agreed w r s d \<and> upload_message uc r cr q
    \<and> same_guest r s (run (until_approval w r (uuid_supply s) d) (s\<lparr>uuid_supply := uuid_supply s + 1\<rparr>)) \<and> same_credential uc w 1 r cr
    \<and> (q \<noteq> lookup_request uc cr (ur_submission r) \<longrightarrow>
         same_guest r s (run (until_sending w r (uuid_supply s) d) (s\<lparr>uuid_supply := uuid_supply s + 1\<rparr>)) \<and> same_credential uc w 2 r cr)
    \<and> (sent_method q = ''PUT'' \<longrightarrow>
         same_guest r s (run (until_storage w r (uuid_supply s) d) (s\<lparr>uuid_supply := uuid_supply s + 1\<rparr>)) \<and> same_credential uc w 3 r cr)"
proof -
  let ?i = "uuid_supply s"
  have "sent \<noteq> []" using assms(4) by auto
  from upload_enqueued [OF assms(3), of undefined] this obtain cr u d s2 where up: "prepare_upload uc w r s = Inr (cr, u, d)"
      "enqueue_review (un_now w 1) d (ur_peer r) (ur_epoch r) (run (un_gap w 1) (with_id s)) = (Inr ?i, s2)"
      "await_upload uc w r cr ?i s2 = (res, s', sent)" by blast
  note p = prepare_upload_ok [OF up(1)]
  let ?s4 = "run (un_gap w 2) ((run (un_wait w) s2)\<lparr>reviews := drop_ticket (un_now w 2) ?i (reviews (run (un_wait w) s2))\<rparr>)"
  from await_upload_ok [OF up(3), of undefined] \<open>sent \<noteq> []\<close> obtain sending res0 s0 sent0 where
    a: "answer (reviews (run (un_wait w) s2)) ?i = Some Decision_kind.Approve" "still_admitted uc w 1 r cr ?s4 = Inr ()"
    and send: "send_file uc w r cr ?i ?s4 = (sending, res0, s0, sent0)"
    and rec: "record_outcome uc (un_now w 4) (un_gap w 4) r ?i (sending, res0, s0, sent0) = (res, s', sent)"
    by (metis prod_cases3)
  have "s2 = apply_state_op (Enqueue_op (un_now w 1) d (ur_peer r) (ur_epoch r)) (run (un_gap w 1) (with_id s))" using up(2) by simp
  moreover have "?s4 = run (un_gap w 2) (apply_state_op (Queue_op (Op_drop_ticket (un_now w 2) ?i)) (run (un_wait w) s2))" by simp
  ultimately have s4: "?s4 = run (until_approval w r ?i d) (with_id s)"
    by (simp only: until_approval_def run_append run_Cons)
  note send_ok = send_file_ok [OF send, unfolded s4 run_append [symmetric], folded until_sending_def]
  note guest = same_guest_run [OF assms(1) p(2)]
  have q: "q \<in> set sent0" using record_outcome_ok(1) [OF rec] assms(4) by simp
  have "same_guest r s (run (until_approval w r ?i d) (with_id s))" "same_credential uc w 1 r cr"
    using guest still_admitted_ok [OF a(2) [unfolded s4]] by blast+
  moreover have "same_guest r s (run (until_sending w r ?i d) (with_id s)) \<and> same_credential uc w 2 r cr"
    if "q \<noteq> lookup_request uc cr (ur_submission r)"
    using guest send_ok(1,2) q that by blast
  moreover have "same_guest r s (run (until_storage w r ?i d) (with_id s)) \<and> same_credential uc w 3 r cr" if "sent_method q = ''PUT''"
    using guest send_ok(3) [OF q that] by (simp add: until_storage_def until_sending_def)
  moreover have "upload_message uc r cr q" using send_ok(1) q by blast
  moreover have "host_agreed w r s d" by (rule upload_agreed [OF up(2) p(4,5) assms(2) a(1)])
  ultimately show ?thesis using up(1) p(6) by blast
qed

text \<open>
  C13. Where the credential of an upload goes. It is the real value of an entry whose fake the guest presented and
  that pins the host of the service (for GitHub, also the host of the lookup); it is sent only to the fixed
  addresses of the service, and the storage request that carries a file for Linear goes over plain https to one of
  the two storage hosts and has none of the headers that could carry a credential.
\<close>

theorem upload_credential_confined:
  assumes "upload uc w r s = (res, s', sent)" and "q \<in> set sent"
  shows "\<exists>(cr::UploadCredential) e real. e \<in> set (escrow (un_cfg w 0)) \<and> fake e = ur_fake r \<and> ur_fake r \<noteq> []
    \<and> real_value (env (up_net uc)) (parse_session (up_net uc)) (un_cfg w 0) e = Some real \<and> uc_header cr = EscrowEntry.prefix e @ real
    \<and> pinned (up_net uc) e (upload_host (destination (ur_submission r)))
    \<and> (if sent_method q = ''POST''
       then map_of (sent_headers q) ''authorization'' = Some (uc_header cr)
         \<and> (sent_url q = LINEAR_API \<and> destination (ur_submission r) = Linear_destination
            \<or> sent_url q \<in> {GITHUB_API, GITHUB_UPLOAD} \<and> destination (ur_submission r) = Github_destination
              \<and> pinned (up_net uc) e ''api.github.com'')
       else set UNSAFE_HEADERS \<inter> fst ` set (sent_headers q) = {} \<and> (\<exists>u. up_asset uc (sent_url q) = Some u \<and> storage_place u))"
  (is "\<exists>cr e real. ?P cr e real")
proof -
  have "sent \<noteq> []" using assms(2) by auto
  from upload_enqueued [OF assms(1), of undefined] this obtain cr u d s2 where up: "prepare_upload uc w r s = Inr (cr, u, d)"
      "await_upload uc w r cr (uuid_supply s) s2 = (res, s', sent)" by blast
  from await_upload_ok [OF up(2), of undefined] \<open>sent \<noteq> []\<close> obtain sending res0 s0 sent0 sb where
    "send_file uc w r cr (uuid_supply s) sb = (sending, res0, s0, sent0)"
    "record_outcome uc (un_now w 4) (un_gap w 4) r (uuid_supply s) (sending, res0, s0, sent0) = (res, s', sent)"
    by (metis prod_cases3)
  then have q: "upload_message uc r cr q" using send_file_ok(1) [of uc w r cr "uuid_supply s" sb] record_outcome_ok(1) assms(2) by metis
  have form: "if sent_method q = ''POST''
      then map_of (sent_headers q) ''authorization'' = Some (uc_header cr)
        \<and> (sent_url q = LINEAR_API \<and> destination (ur_submission r) = Linear_destination
           \<or> sent_url q \<in> {GITHUB_API, GITHUB_UPLOAD} \<and> destination (ur_submission r) = Github_destination)
      else set UNSAFE_HEADERS \<inter> fst ` set (sent_headers q) = {} \<and> (\<exists>u. up_asset uc (sent_url q) = Some u \<and> storage_place u)"
    using q linear_prepared_ok(1)
    by (auto dest: signed_headers_names simp: upload_message_def Let_def lookup_request_def github_request_def linear_request_def storage_request_def json_post_def
        split: Destination.splits)
  from resolve_upload_ok [OF prepare_upload_ok(1) [OF up(1)]] obtain e real where
    "e \<in> set (escrow (un_cfg w 0)) \<and> fake e = ur_fake r \<and> ur_fake r \<noteq> []
      \<and> real_value (env (up_net uc)) (parse_session (up_net uc)) (un_cfg w 0) e = Some real \<and> uc_header cr = EscrowEntry.prefix e @ real
      \<and> pinned (up_net uc) e (upload_host (destination (ur_submission r)))
      \<and> (destination (ur_submission r) = Github_destination \<longrightarrow> pinned (up_net uc) e ''api.github.com'')" by blast
  then have "?P cr e real" using form by (auto split: if_splits)
  then show ?thesis by blast
qed

text \<open>
  What an upload leaves behind. A result names an address of the service that passed every test, so that the
  link made of it cannot be broken out of; the last thing the handler writes is that outcome, or unknown when
  more than the lookup was sent, or that nothing was sent.
\<close>

theorem upload_outcome_recorded:
  assumes "upload uc w r s = (res, s', sent)" and "sent \<noteq> [] \<or> res = Some (Inr v)"
  shows "(\<forall>v. res = Some (Inr v) \<longrightarrow> (\<exists>url. v = result_value uc (ur_submission r) url (uuid_supply s)
      \<and> validate_asset uc url (destination (ur_submission r)) = Inr ()))
    \<and> (if \<exists>v. res = Some (Inr v) then marked (uuid_supply s) ResponseReceived s'
       else if \<exists>cr. resolve_upload uc (un_cfg w 0) (destination (ur_submission r)) (ur_fake r) = Inr cr
              \<and> (\<exists>q \<in> set sent. q \<noteq> lookup_request uc cr (ur_submission r)) then marked (uuid_supply s) Unknown s'
       else \<exists>st \<in> {Unknown, Blocked, Cancelled}. marked (uuid_supply s) st s')"
proof -
  from upload_enqueued [OF assms] obtain cr u d s2 where up: "prepare_upload uc w r s = Inr (cr, u, d)"
      "await_upload uc w r cr (uuid_supply s) s2 = (res, s', sent)" by blast
  from await_upload_ok [OF up(2) assms(2)] obtain sending res0 s0 sent0 sb where
    send: "send_file uc w r cr (uuid_supply s) sb = (sending, res0, s0, sent0)"
    and rec: "record_outcome uc (un_now w 4) (un_gap w 4) r (uuid_supply s) (sending, res0, s0, sent0) = (res, s', sent)"
    by (metis prod_cases3)
  have cr: "resolve_upload uc (un_cfg w 0) (destination (ur_submission r)) (ur_fake r) = Inr cr" by (rule prepare_upload_ok(1) [OF up(1)])
  note out = record_outcome_ok [OF rec]
  have ok: "\<exists>url. v = result_value uc (ur_submission r) url (uuid_supply s) \<and> validate_asset uc url (destination (ur_submission r)) = Inr ()" 
    if "res = Some (Inr v)" for v
    using out(2) [OF that] send_file_ok(4) [OF send] by blast
  have "\<forall>q \<in> set sent. q = lookup_request uc cr (ur_submission r)" if "\<not> sending"
    using send_file_ok(1) [OF send] out(1) that by blast
  then show ?thesis using ok out(3) cr by (cases sending; cases "\<exists>v. res = Some (Inr v)"; cases "res = None") auto
qed


section \<open>Samples\<close>

definition sample_prepared_json :: Json where
  "sample_prepared_json = JObject [(''data'', JObject [(''fileUpload'', JObject [(''success'', JBool True),
     (''uploadFile'', JObject [(''assetUrl'', JString ''https://uploads.linear.app/f''), (''headers'', JArray []),
        (''uploadUrl'', JString ''https://uploads.linear.app/p'')])])])]"

definition sample_upload_code :: upload_code where
  "sample_upload_code = \<lparr>up_net = sample_nc, up_crypto = \<lparr>sha256_hex = (\<lambda>_. ''digest''), header_ok = (\<lambda>_. True)\<rparr>, up_views = sample_views,
     up_uri = (\<lambda>s. \<lparr>uri_text = s, scheme_str = Some ''https'', uri_host = Some ''api.linear.app'', port_u16 = None, path = ''/graphql'', query = None\<rparr>),
     up_write = (\<lambda>_. ''m''), up_read = (\<lambda>_. Some sample_prepared_json), up_header_name = Some,
     up_asset = (\<lambda>s. Some \<lparr>au_scheme = ''https'', au_username = [], au_password = None, au_host = Some ''uploads.linear.app'',
       au_port = Some 443, au_path = ''/f'', au_query = None, au_fragment = None\<rparr>),
     up_show_uuid = (\<lambda>_. ''u'')\<rparr>"

definition sample_linear_settings :: "unit Settings" where
  "sample_linear_settings = sample_settings\<lparr>escrow := [sample_entry\<lparr>entry_hosts := [''api.linear.app'']\<rparr>]\<rparr>"

definition sample_upload_waits :: "unit upload_waits" where
  "sample_upload_waits = \<lparr>un_now = (\<lambda>k. sample_clock (6 + k)), un_cfg = (\<lambda>_. sample_linear_settings), un_gap = (\<lambda>_. []),
     un_wait = [Queue_op (Op_decide (sample_clock 7) (uuid_supply sample_state) ''digest'' Decision_kind.Approve)],
     un_during = (\<lambda>_. []), un_reply = (\<lambda>_. Some (Reply 200 [Some ''x'']))\<rparr>"

definition sample_upload_request :: UploadRequest where
  "sample_upload_request = \<lparr>ur_container = ''g'', ur_peer = V4 7, ur_fake = ''fz-gh'',
     ur_submission = \<lparr>destination = Linear_destination, upload_filename = ''a.txt'', upload_content_type = ''text/plain'',
       upload_session = ''s'', upload_repository = None\<rparr>, ur_content = ''hello'', ur_epoch = 0\<rparr>"

abbreviation sample_uploaded :: "Json upload_phase" where
  "sample_uploaded \<equiv> upload sample_upload_code sample_upload_waits sample_upload_request sample_state"

lemma sample_uploaded_sent:
  "fst sample_uploaded = Some (Inr (result_value sample_upload_code (ur_submission sample_upload_request) ''https://uploads.linear.app/f''
     (uuid_supply sample_state)))"
  by code_simp

lemma sample_uploaded_run:
  "\<exists>s' a b. sample_uploaded = (Some (Inr (result_value sample_upload_code (ur_submission sample_upload_request) ''https://uploads.linear.app/f''
     (uuid_supply sample_state))), s', [a, b]) \<and> sent_url b = ''https://uploads.linear.app/p'' \<and> sent_method b = ''PUT''"
proof -
  have "map (\<lambda>q. (sent_url q, sent_method q)) (snd (snd sample_uploaded)) = [(LINEAR_API, ''POST''), (''https://uploads.linear.app/p'', ''PUT'')]"
    by code_simp
  then obtain a b where "snd (snd sample_uploaded) = [a, b]" "sent_url b = ''https://uploads.linear.app/p''" "sent_method b = ''PUT''"
    by (auto simp: map_eq_Cons_conv)
  then show ?thesis using sample_uploaded_sent by (metis prod.collapse)
qed

theorem upload_sends_reviewed_witness:
  "\<exists>res s' a b cr u d. sample_uploaded = (res, s', [a, b]) \<and> sent_url b = ''https://uploads.linear.app/p''
    \<and> prepare_upload sample_upload_code sample_upload_waits sample_upload_request sample_state = Inr (cr, u, d)
    \<and> host_agreed sample_upload_waits sample_upload_request sample_state d \<and> upload_message sample_upload_code sample_upload_request cr b
    \<and> same_guest sample_upload_request sample_state
        (run (until_storage sample_upload_waits sample_upload_request (uuid_supply sample_state) d)
          (sample_state\<lparr>uuid_supply := uuid_supply sample_state + 1\<rparr>))"
proof -
  from sample_uploaded_run obtain res s' a b where run: "sample_uploaded = (res, s', [a, b])" "sent_url b = ''https://uploads.linear.app/p''"
      "sent_method b = ''PUT''" by blast
  have "state_ok sample_state" "list_all (quiet (uuid_supply sample_state)) (un_wait sample_upload_waits)" by code_simp+
  from upload_sends_reviewed [OF this run(1), of b] run show ?thesis by auto
qed

theorem upload_credential_confined_witness:
  "\<exists>res s' a b. sample_uploaded = (res, s', [a, b]) \<and> set UNSAFE_HEADERS \<inter> fst ` set (sent_headers b) = {}
    \<and> (\<exists>u. up_asset sample_upload_code (sent_url b) = Some u \<and> storage_place u)"
proof -
  from sample_uploaded_run obtain res s' a b where run: "sample_uploaded = (res, s', [a, b])" "sent_method b = ''PUT''" by blast
  from upload_credential_confined [OF run(1), of b] run show ?thesis by auto
qed

theorem upload_outcome_recorded_witness:
  "\<exists>v s' sent. sample_uploaded = (Some (Inr v), s', sent) \<and> marked (uuid_supply sample_state) ResponseReceived s'
    \<and> (\<exists>url. v = result_value sample_upload_code (ur_submission sample_upload_request) url (uuid_supply sample_state)
         \<and> validate_asset sample_upload_code url Linear_destination = Inr ())"
proof -
  from sample_uploaded_run obtain v s' sent where run: "sample_uploaded = (Some (Inr v), s', sent)" by blast
  have "destination (ur_submission sample_upload_request) = Linear_destination" by (simp add: sample_upload_request_def)
  with upload_outcome_recorded [OF run, of v] run show ?thesis by auto
qed

end
