(* ===== verification/Web_Guest.thy ===== *)
theory Web_Guest
  imports Proxy Jobs Pushes Uploads
begin

text \<open>
  The guest-facing part of \<open>web.rs\<close>: who is calling, and the handlers under \<open>/guest\<close> that dispatch to publications,
  jobs and uploads. A handler is a sequence of critical sections; what other tasks do before its \<open>k\<close>-th one is an
  arbitrary function (\<open>between k\<close>). Routing and the extractors of the web framework are left out.
\<close>

section \<open>State and calls\<close>

record broker =
  b_app :: AppState
  b_jobs :: Jobs.Jobs
  b_pushes :: Pushes.Pushes

record 'g web_code =
  wc_net :: net_code
  wc_jobs :: job_code
  wc_pushes :: "'g push_code"
  wc_uploads :: upload_code
  wc_submission :: "string \<Rightarrow> Jobs.Submission option"

record web_call =
  peer_of :: IpAddr
  fields_of :: "(string \<times> header_value) list"
  clock_of :: clock
  fault_of :: io_fault
  removable_of :: "uuid \<Rightarrow> bool"
  between :: "nat \<Rightarrow> broker \<Rightarrow> broker"

datatype 'v answer = Refuse nat string | Give nat 'v

definition field_text :: "web_call \<Rightarrow> string \<Rightarrow> string option" where
  "field_text k n = Option.bind (map_of (fields_of k) n) hv_str"

definition on_app :: "(AppState \<Rightarrow> 'a \<times> AppState) \<Rightarrow> broker \<Rightarrow> 'a \<times> broker" where
  "on_app f b = (case f (b_app b) of (r, s) \<Rightarrow> (r, b\<lparr>b_app := s\<rparr>))"

definition on_jobs :: "(Jobs.Jobs \<Rightarrow> 'a \<times> Jobs.Jobs) \<Rightarrow> broker \<Rightarrow> 'a \<times> broker" where
  "on_jobs f b = (case f (b_jobs b) of (r, js) \<Rightarrow> (r, b\<lparr>b_jobs := js\<rparr>))"

definition on_pushes :: "(Pushes.Pushes \<Rightarrow> 'a \<times> Pushes.Pushes) \<Rightarrow> broker \<Rightarrow> 'a \<times> broker" where
  "on_pushes f b = (case f (b_pushes b) of (r, ps) \<Rightarrow> (r, b\<lparr>b_pushes := ps\<rparr>))"

definition on_reviews :: "(Queue \<Rightarrow> 'a \<times> Queue) \<Rightarrow> broker \<Rightarrow> 'a \<times> broker" where
  "on_reviews f = on_app (\<lambda>s. case f (reviews s) of (r, q) \<Rightarrow> (r, s\<lparr>reviews := q\<rparr>))"

section \<open>Who calls\<close>

definition presented_name :: "net_code \<Rightarrow> web_call \<Rightarrow> string option" where
  "presented_name nc k = Option.bind (field_text k ''authorization'') (basic_username nc)"

definition job_identity :: "net_code \<Rightarrow> web_call \<Rightarrow> broker \<Rightarrow> (string + string \<times> uuid) \<times> broker" where
  "job_identity nc k b =
     (case on_app (authorize_proxy_peer (clock_of k) (peer_of k) (presented_name nc k)) b of
        (Inl e, b1) \<Rightarrow> (Inl e, b1)
      | (Inr (n, auth), b1) \<Rightarrow>
          if auth \<noteq> Allowed then (Inl ''guest awaiting approval or IP pin mismatch'', b1)
          else let b2 = between k 0 b1 in
            (case async_identity (b_app b2) n (peer_of k) of
               None \<Rightarrow> (Inl ''guest killed or unauthorized'', b2)
             | Some (inst, _) \<Rightarrow> (Inr (n, inst), b2)))"

section \<open>Reading\<close>

datatype guest_view = Job_view guest_job | Push_view guest_push | Upload_view guest_upload

definition guest_list :: "'g web_code \<Rightarrow> web_call \<Rightarrow> string \<Rightarrow> broker \<Rightarrow> guest_view list answer \<times> broker" where
  "guest_list wc k session b =
     (case job_identity (wc_net wc) k b of
        (Inl e, b0) \<Rightarrow> (Refuse 403 e, b0)
      | (Inr (n, inst), b0) \<Rightarrow>
          (let b1 = between k 1 b0; b2 = between k 2 b1; b3 = between k 3 b2 in
           (Give 200 (map Job_view (list_jobs n inst session (b_jobs b1)) @ map Push_view (list_pushes n inst session (b_pushes b2))
              @ map Upload_view (guest_uploads (wc_uploads wc) n inst session (reviews (b_app b3)))), b3)))"

definition guest_get :: "'g web_code \<Rightarrow> web_call \<Rightarrow> uuid \<Rightarrow> string \<Rightarrow> broker \<Rightarrow> guest_view answer \<times> broker" where
  "guest_get wc k i session b =
     (case job_identity (wc_net wc) k b of
        (Inl e, b0) \<Rightarrow> (Refuse 403 e, b0)
      | (Inr (n, inst), b0) \<Rightarrow>
          (let b1 = between k 1 b0; b2 = between k 2 b1 in
           if contains_push i (b_pushes b1)
           then (case get_push n inst i session (b_pushes b2) of Inl e \<Rightarrow> Refuse 403 e | Inr v \<Rightarrow> Give 200 (Push_view v), b2)
           else case get_job n inst i session (b_jobs b2) of
               Inr v \<Rightarrow> (Give 200 (Job_view v), b2)
             | Inl e \<Rightarrow>
                 (let b3 = between k 3 b2 in
                  (case Option.bind (inspect i (reviews (b_app b3))) (\<lambda>d. guest_result (wc_uploads wc) d n inst session) of
                     None \<Rightarrow> Refuse 403 e | Some v \<Rightarrow> Give 200 (Upload_view v), b3))))"

section \<open>Cancelling, acknowledging and removing\<close>

datatype guest_op = Cancel_call | Acknowledge_call | Delete_call

definition push_call :: "'g web_code \<Rightarrow> web_call \<Rightarrow> guest_op \<Rightarrow> string \<Rightarrow> uuid \<Rightarrow> uuid \<Rightarrow> string \<Rightarrow> Pushes.Pushes \<Rightarrow> (string + unit) \<times> Pushes.Pushes" where
  "push_call wc k call n inst i session =
     (case call of
        Cancel_call \<Rightarrow> Pushes.cancel (wc_pushes wc) (clock_of k) (fault_of k) n inst i session
      | Acknowledge_call \<Rightarrow> Pushes.acknowledge (wc_pushes wc) (clock_of k) (fault_of k) n inst i session
      | Delete_call \<Rightarrow> Pushes.delete (wc_pushes wc) (fault_of k) (removable_of k) n inst i session)"

definition job_call :: "'g web_code \<Rightarrow> web_call \<Rightarrow> guest_op \<Rightarrow> string \<Rightarrow> uuid \<Rightarrow> uuid \<Rightarrow> string \<Rightarrow> Jobs.Jobs \<Rightarrow> (string + unit) \<times> Jobs.Jobs" where
  "job_call wc k call n inst i session =
     (case call of
        Cancel_call \<Rightarrow> Jobs.cancel (wc_jobs wc) (clock_of k) (fault_of k) n inst i session
      | Acknowledge_call \<Rightarrow> Jobs.acknowledge (wc_jobs wc) (clock_of k) (fault_of k) n inst i session
      | Delete_call \<Rightarrow> delete_job (wc_jobs wc) (fault_of k) n inst i session)"

definition upload_call :: "'g web_code \<Rightarrow> web_call \<Rightarrow> guest_op \<Rightarrow> string \<Rightarrow> uuid \<Rightarrow> uuid \<Rightarrow> string \<Rightarrow> Queue \<Rightarrow> (string + unit) \<times> Queue" where
  "upload_call wc k call n inst i session q =
     (case call of
        Cancel_call \<Rightarrow> change_guest_upload (clock_of k) i n inst session False q
      | Acknowledge_call \<Rightarrow>
          (case Option.bind (inspect i q) (\<lambda>d. guest_result (wc_uploads wc) d n inst session) of
             None \<Rightarrow> Inl ''upload not found'' | Some _ \<Rightarrow> Inr (), q)
      | Delete_call \<Rightarrow> change_guest_upload (clock_of k) i n inst session True q)"

definition settled_answer :: "string + unit \<Rightarrow> unit answer" where
  "settled_answer r = (case r of Inl e \<Rightarrow> Refuse 409 e | Inr _ \<Rightarrow> Give 204 ())"

definition guest_change :: "'g web_code \<Rightarrow> web_call \<Rightarrow> guest_op \<Rightarrow> uuid \<Rightarrow> string \<Rightarrow> broker \<Rightarrow> unit answer \<times> broker" where
  "guest_change wc k call i session b =
     (case job_identity (wc_net wc) k b of
        (Inl e, b0) \<Rightarrow> (Refuse 409 e, b0)
      | (Inr (n, inst), b0) \<Rightarrow>
          (let b1 = between k 1 b0; b2 = between k 2 b1 in
           if contains_push i (b_pushes b1)
           then (case on_pushes (push_call wc k call n inst i session) b2 of (r, b3) \<Rightarrow> (settled_answer r, b3))
           else case on_jobs (job_call wc k call n inst i session) b2 of
               (Inr _, b3) \<Rightarrow> (Give 204 (), b3)
             | (Inl e, b3) \<Rightarrow>
                 (case on_reviews (upload_call wc k call n inst i session) (between k 3 b3) of
                    (Inr _, b4) \<Rightarrow> (Give 204 (), b4)
                  | (Inl _, b4) \<Rightarrow> (Refuse 409 e, b4))))"

section \<open>Submitting\<close>

text \<open>The body of a request: its chunks until the end, an error (\<open>None\<close>) or the time limit.\<close>

datatype body_input = Body "string option list" | Body_too_late

fun bounded_body :: "nat \<Rightarrow> string option list \<Rightarrow> string \<Rightarrow> string option" where
  "bounded_body limit [] acc = Some acc"
| "bounded_body limit (None # cs) acc = None"
| "bounded_body limit (Some c # cs) acc = (if limit < length acc + length c then None else bounded_body limit cs (acc @ c))"

record 'p submit_env =
  slot_granted :: bool
  body_given :: body_input
  trailers_given :: bool
  settings_then :: "'p Settings"
  policy_fault :: io_fault
  app_gap :: "state_op list"
  staging_disk :: "nat \<Rightarrow> string option"

definition submit_job :: "'g web_code \<Rightarrow> 'p submit_env \<Rightarrow> web_call \<Rightarrow> broker \<Rightarrow> (guest_job answer \<times> broker) option" where
  "submit_job wc e k b =
     (case job_identity (wc_net wc) k b of
        (Inl why, b0) \<Rightarrow> Some (Refuse 403 why, b0)
      | (Inr (n, _), b0) \<Rightarrow>
          (let b1 = between k 1 b0 in
           if \<not> slot_granted e then Some (Refuse 429 ''upload slots busy'', b1)
           else case (case body_given e of Body cs \<Rightarrow> bounded_body (Jobs.MAX_PAYLOAD + 4096) cs [] | Body_too_late \<Rightarrow> None) of
               None \<Rightarrow> Some (Refuse 413 ''job upload incomplete or exceeds 10 MiB'', b1)
             | Some bytes \<Rightarrow>
                 (case wc_submission wc bytes of
                    None \<Rightarrow> Some (Refuse 400 ''invalid job submission JSON'', b1)
                  | Some sub \<Rightarrow>
                      map_option (\<lambda>(r, app, js). (case r of Inl why \<Rightarrow> Refuse 409 why | Inr v \<Rightarrow> Give 202 v, b1\<lparr>b_app := app, b_jobs := js\<rparr>))
                        (Jobs.submit (wc_jobs wc) (clock_of k) (policy_fault e) (fault_of k) (settings_then e) (app_gap e) n (peer_of k) sub
                           (b_app b1, b_jobs b1)))))"

text \<open>The streamed bundle: \<open>staged\<close> is the file the loop writes; \<open>disk i\<close> is the error of its \<open>i\<close>-th operation (open,
  writes, sync), if any.\<close>

fun stream_bundle :: "(nat \<Rightarrow> string option) \<Rightarrow> nat \<Rightarrow> string option list \<Rightarrow> string \<Rightarrow> string + string" where
  "stream_bundle disk i [] staged =
     (if staged = [] then Inl ''Git bundle is empty'' else case disk i of Some e \<Rightarrow> Inl e | None \<Rightarrow> Inr staged)"
| "stream_bundle disk i (None # cs) staged = Inl ''read Git bundle upload''"
| "stream_bundle disk i (Some c # cs) staged =
     (if MAX_BUNDLE < length staged + length c then Inl ''Git bundle exceeds 32 MiB''
      else case disk i of Some e \<Rightarrow> Inl e | None \<Rightarrow> stream_bundle disk (Suc i) cs (staged @ c))"

definition stage_bundle :: "(nat \<Rightarrow> string option) \<Rightarrow> string option list \<Rightarrow> string + string" where
  "stage_bundle disk cs = (case disk 0 of Some e \<Rightarrow> Inl e | None \<Rightarrow> stream_bundle disk 1 cs [])"

definition bundle_fields_ok :: "web_call \<Rightarrow> bool" where
  "bundle_fields_ok k \<longleftrightarrow> field_text k ''content-type'' = Some ''application/x-git-bundle'' \<and> map_of (fields_of k) ''content-encoding'' = None"

definition declared_length_bad :: "web_call \<Rightarrow> bool" where
  "declared_length_bad k \<longleftrightarrow> opt_any (\<lambda>n. n = 0 \<or> MAX_BUNDLE < n) (Option.bind (field_text k ''content-length'') parse_u64)"

definition submit_git_push :: "'g web_code \<Rightarrow> 'p submit_env \<Rightarrow> filing_faults \<Rightarrow> web_call \<Rightarrow> Push_Git.Submission \<Rightarrow> broker
    \<Rightarrow> (guest_push answer \<times> broker) option" where
  "submit_git_push wc e ff k sub b =
     (case job_identity (wc_net wc) k b of
        (Inl why, b0) \<Rightarrow> Some (Refuse 403 why, b0)
      | (Inr (n, _), b0) \<Rightarrow>
          (let b1 = between k 1 b0 in
           case validate_submission sub of
             Inl why \<Rightarrow> Some (Refuse 400 why, b1)
           | Inr _ \<Rightarrow>
               if \<not> bundle_fields_ok k
               then Some (Refuse 415 ''Git push submissions require an unencoded application/x-git-bundle body'', b1)
               else if declared_length_bad k then Some (Refuse 413 ''Git bundle exceeds 32 MiB'', b1)
               else if \<not> slot_granted e then Some (Refuse 429 ''Git bundle upload slots busy'', b1)
               else if \<not> Pushes.stored (b_pushes b1) then Some (Refuse 507 ''Git push storage is unavailable'', b1)
               else case body_given e of
                   Body_too_late \<Rightarrow> Some (Refuse 408 ''Git bundle upload timed out'', b1)
                 | Body cs \<Rightarrow>
                     (case stage_bundle (staging_disk e) cs of
                        Inl why \<Rightarrow> Some (Refuse 400 why, b1)
                      | Inr staged \<Rightarrow>
                          map_option (\<lambda>(r, app, ps). (case r of Inl why \<Rightarrow> Refuse 409 why | Inr v \<Rightarrow> Give 202 v, b1\<lparr>b_app := app, b_pushes := ps\<rparr>))
                            (Pushes.submit (wc_pushes wc) (clock_of k) (policy_fault e) (fault_of k) ff (settings_then e) (app_gap e) n (peer_of k)
                               \<lparr>up_submission = sub, up_staged = Some staged, up_bytes = length staged\<rparr> (b_app b1, b_pushes b1)))))"

definition upload_file :: "'g web_code \<Rightarrow> 'p submit_env \<Rightarrow> 'p upload_waits \<Rightarrow> web_call \<Rightarrow> UploadSubmission \<Rightarrow> broker \<Rightarrow> Json answer option \<times> broker" where
  "upload_file wc e w k sub b =
     (case job_identity (wc_net wc) k b of
        (Inl why, b0) \<Rightarrow> (Some (Refuse 403 why), b0)
      | (Inr (n, _), b0) \<Rightarrow>
          (let b1 = between k 1 b0 in
           case review_epoch (b_app b1) n (peer_of k) of
             None \<Rightarrow> (Some (Refuse 403 []), b1)
           | Some epoch \<Rightarrow>
               (case validate_upload sub of
                  Inl why \<Rightarrow> (Some (Refuse 400 why), b1)
                | Inr _ \<Rightarrow>
                    if map_of (fields_of k) ''content-encoding'' \<noteq> None then (Some (Refuse 400 ''encoded file uploads are not supported''), b1)
                    else if \<not> slot_granted e then (Some (Refuse 429 ''File upload slots busy''), b1)
                    else
                      (let b2 = between k 2 b1 in
                       case body_given e of
                         Body_too_late \<Rightarrow> (Some (Refuse 408 ''File upload timed out''), b2)
                       | Body cs \<Rightarrow>
                           (case bounded_body (max_bytes sub) cs [] of
                              None \<Rightarrow> (Some (Refuse 413 ''File exceeds destination limit or upload was interrupted''), b2)
                            | Some contents \<Rightarrow>
                                if trailers_given e then (Some (Refuse 400 ''File upload trailers are not supported''), b2)
                                else
                                  (case upload (wc_uploads wc) w
                                       \<lparr>ur_container = n, ur_peer = peer_of k,
                                        ur_fake = (case field_text k ''x-friendzone-token'' of None \<Rightarrow> [] | Some f \<Rightarrow> f),
                                        ur_submission = sub, ur_content = contents, ur_epoch = epoch\<rparr> (b_app b2) of
                                     (r, app, _) \<Rightarrow>
                                       (map_option (\<lambda>res. case res of Inl why \<Rightarrow> Refuse 409 why | Inr v \<Rightarrow> Give 200 v) r, b2\<lparr>b_app := app\<rparr>)))))))"

section \<open>Other calls of guests\<close>

text \<open>The announcement of a guest that runs its setup: the name it gets and whether it is approved and pinned.\<close>

definition bootstrap_hello :: "web_call \<Rightarrow> string \<Rightarrow> broker \<Rightarrow> (string \<times> bool) answer \<times> broker" where
  "bootstrap_hello k requested b =
     (case on_app (announce_guest (clock_of k) requested (peer_of k)) b of
        (Inl e, b1) \<Rightarrow> (Refuse 409 e, b1)
      | (Inr (n, auth, explicitly_pinned), b1) \<Rightarrow> (Give 200 (n, explicitly_pinned \<and> auth = Allowed), b1))"

text \<open>The relay of traces: who may use it, and what it takes.\<close>

definition relay_gate :: "bool \<Rightarrow> nat \<Rightarrow> 'p submit_env \<Rightarrow> web_call \<Rightarrow> broker \<Rightarrow> string answer \<times> broker" where
  "relay_gate enabled max_body e k b =
     (if \<not> enabled then (Refuse 404 [], b)
      else case on_app (authorize_proxy_peer (clock_of k) (peer_of k) None) b of
          (Inl _, b1) \<Rightarrow> (Refuse 403 [], b1)
        | (Inr (n, auth), b1) \<Rightarrow>
            (let b2 = between k 0 b1 in
             if auth \<noteq> Allowed \<or> is_killed (b_app b2) n then (Refuse 403 [], b2)
             else if field_text k ''content-type'' \<noteq> Some ''application/x-protobuf''
             then (Refuse 415 ''trace relay accepts application/x-protobuf only'', b2)
             else if \<not> slot_granted e then (Refuse 429 [], b2)
             else case body_given e of
                 Body_too_late \<Rightarrow> (Refuse 408 [], b2)
               | Body cs \<Rightarrow> (case bounded_body max_body cs [] of None \<Rightarrow> (Refuse 413 [], b2) | Some bytes \<Rightarrow> (Give 200 bytes, b2))))"

end
