(* ===== verification/Web_Owner.thy ===== *)
theory Web_Owner
  imports Web_Guest Jobs_Safe Push_Safe Upload_Safe
begin

text \<open>
  What guests see and change through the handlers of \<open>web.rs\<close>: only objects of the identified guest, of its present
  incarnation and of the named session.
\<close>

section \<open>Stores of owned objects\<close>

definition not_owned :: "('o \<Rightarrow> bool) \<Rightarrow> (uuid \<Rightarrow> 'o option) \<Rightarrow> uuid \<Rightarrow> 'o option" where
  "not_owned owns m k = Option.bind (m k) (\<lambda>x. if owns x then None else Some x)"

text \<open>
  The contract of the three stores behind the guest API: a call about the object \<open>i\<close> changes nothing else, and it only where
  it was owned; what it leaves there is owned too.
\<close>

locale guest_store =
  fixes obj :: "'st \<Rightarrow> uuid \<Rightarrow> 'o option"
    and owns :: "'o \<Rightarrow> bool"
    and do_call :: "guest_op \<Rightarrow> uuid \<Rightarrow> 'st \<Rightarrow> 'r \<times> 'st"
  assumes call_touches: "obj (snd (do_call c i st)) k \<noteq> obj st k \<Longrightarrow>
    k = i \<and> (\<exists>x. obj st i = Some x \<and> owns x) \<and> (\<forall>x. obj (snd (do_call c i st)) i = Some x \<longrightarrow> owns x)"
begin

lemma foreign_kept: "not_owned owns (obj (snd (do_call c i st))) = not_owned owns (obj st)"
proof
  fix k show "not_owned owns (obj (snd (do_call c i st))) k = not_owned owns (obj st) k"
    using call_touches [of c i st k] by (cases "obj (snd (do_call c i st)) k = obj st k")
      (auto simp: not_owned_def split: Option.bind_splits)
qed

end

text \<open>The objects that are not of the guest, in each store.\<close>

definition others :: "string \<Rightarrow> uuid \<Rightarrow> string \<Rightarrow> broker
    \<Rightarrow> (uuid \<Rightarrow> Jobs.Job option) \<times> (uuid \<Rightarrow> Pushes.Job option) \<times> (uuid \<Rightarrow> Entry option)" where
  "others n inst session b =
     (not_owned (Jobs.owned_by n inst session) (map_of (job_map (Jobs.data (b_jobs b)))),
      not_owned (Pushes.owned_by n inst session) (map_of (jobs (Pushes.data (b_pushes b)))),
      not_owned (\<lambda>e. guest_owns (detail e) n inst session) (map_of (pending (reviews (b_app b)))))"

section \<open>The three stores\<close>

definition touched_at :: "('o \<Rightarrow> bool) \<Rightarrow> uuid \<Rightarrow> (uuid \<Rightarrow> 'o option) \<Rightarrow> (uuid \<Rightarrow> 'o option) \<Rightarrow> bool" where
  "touched_at owns i m m' \<longleftrightarrow>
     (\<forall>k. m' k \<noteq> m k \<longrightarrow> k = i \<and> (\<exists>x. m i = Some x \<and> owns x) \<and> (\<forall>x. m' i = Some x \<longrightarrow> owns x))"

lemma touched_refl [simp]: "touched_at owns i m m"
  by (simp add: touched_at_def)

lemma touched_update: "m i = Some x \<Longrightarrow> owns x \<Longrightarrow> owns y \<Longrightarrow> touched_at owns i m (m(i \<mapsto> y))"
  by (auto simp: touched_at_def)

lemma touched_delete: "m i = Some x \<Longrightarrow> owns x \<Longrightarrow> touched_at owns i m (m(i := None))"
  by (auto simp: touched_at_def)

lemma job_edit_touches:
  assumes "\<And>v s. edit (Jobs.data js) = Inr (v, s) \<Longrightarrow> touched_at owns i (map_of (job_map (Jobs.data js))) (map_of (job_map s))"
  shows "touched_at owns i (map_of (job_map (Jobs.data js))) (map_of (job_map (Jobs.data (snd (Jobs.transaction jc fault edit js)))))"
  using assms by (auto simp: Jobs.transaction_def Jobs.finish_transaction_def split: sum.splits prod.splits)

lemma push_edit_touches:
  assumes "\<And>v s. edit (Pushes.data ps) = Inr (v, s) \<Longrightarrow> touched_at owns i (map_of (jobs (Pushes.data ps))) (map_of (jobs s))"
  shows "touched_at owns i (map_of (jobs (Pushes.data ps))) (map_of (jobs (Pushes.data (snd (Pushes.transaction pc fault edit ps)))))"
  using assms by (auto simp: Pushes.transaction_def Pushes.finish_transaction_def Pushes.publish_def split: sum.splits prod.splits if_splits)

lemma set_job_owned [simp]:
  "Jobs.owned_by n inst session (Jobs.set_job t st out j) = Jobs.owned_by n inst session j"
  "Jobs.owned_by n inst session (j\<lparr>acknowledged_at := a\<rparr>) = Jobs.owned_by n inst session j"
  by (simp_all add: Jobs.owned_by_def set_job_def)

lemma set_push_owned [simp]:
  "Pushes.owned_by n inst session (set_push t st out j) = Pushes.owned_by n inst session j"
  "Pushes.owned_by n inst session (j\<lparr>push_acknowledged_at := a\<rparr>) = Pushes.owned_by n inst session j"
  by (simp_all add: Pushes.owned_by_def set_push_def)

lemma push_job_Inr:
  "Pushes.owned_job c inst i session s = Inr j \<longleftrightarrow> map_of (jobs s) i = Some j \<and> Pushes.owned_by c inst session j"
  by (auto simp: Pushes.owned_job_def split: option.splits)

lemma job_call_touches:
  "touched_at (Jobs.owned_by n inst session) i (map_of (job_map (Jobs.data js)))
     (map_of (job_map (Jobs.data (snd (job_call wc k c n inst i session js)))))"
  by (cases c; simp only: job_call_def guest_op.case Jobs.cancel_def Jobs.acknowledge_def delete_job_def; rule job_edit_touches)
    (auto simp: put_job_def bind_res_Inr_iff owned_job_Inr AList.delete_conv' split: if_splits option.splits
      intro!: touched_update touched_delete)

lemma push_call_touches:
  "touched_at (Pushes.owned_by n inst session) i (map_of (jobs (Pushes.data ps)))
     (map_of (jobs (Pushes.data (snd (push_call wc k c n inst i session ps)))))"
proof -
  have del: "Pushes.data (snd (Pushes.delete pc fault ok n inst i session ps))
      = Pushes.data (snd (Pushes.transaction pc fault (delete_edit n inst i session) ps))" for pc :: "'a push_code" and fault ok
    by (auto simp: Pushes.delete_def drop_roots_def split: sum.splits prod.splits)
  show ?thesis
    by (cases c; simp only: push_call_def guest_op.case del Pushes.cancel_def Pushes.acknowledge_def delete_edit_def; rule push_edit_touches)
      (auto simp: put_push_def delete_push_def delete_edit_def bind_res_Inr_iff push_job_Inr AList.delete_conv' split: if_splits option.splits
        intro!: touched_update touched_delete)
qed

lemma upload_call_touches:
  "touched_at (\<lambda>e. guest_owns (detail e) n inst session) i (map_of (pending q)) (map_of (pending (snd (upload_call wc k c n inst i session q))))"
proof (cases "map_of (pending q) i")
  case None
  then show ?thesis
    by (cases c) (auto simp: upload_call_def change_guest_upload_def notify_def archive_drop_def archive_def split: option.splits)
next
  case (Some e)
  then show ?thesis
    by (cases c) (auto simp: upload_call_def change_guest_upload_def inspect_def notify_def archive_drop_def archive_def drop_sender_def
        AList.delete_conv' split: option.splits intro!: touched_delete)
qed

interpretation guest_jobs: guest_store "\<lambda>js. map_of (job_map (Jobs.data js))" "Jobs.owned_by n inst session"
  "\<lambda>c i. job_call wc k c n inst i session" for n inst session wc k
  by unfold_locales (rule job_call_touches [unfolded touched_at_def, rule_format])

interpretation guest_pushes: guest_store "\<lambda>ps. map_of (jobs (Pushes.data ps))" "Pushes.owned_by n inst session"
  "\<lambda>c i. push_call wc k c n inst i session" for n inst session wc k
  by unfold_locales (rule push_call_touches [unfolded touched_at_def, rule_format])

interpretation guest_files: guest_store "\<lambda>q. map_of (pending q)" "\<lambda>e. guest_owns (detail e) n inst session"
  "\<lambda>c i. upload_call wc k c n inst i session" for n inst session wc k
  by unfold_locales (rule upload_call_touches [unfolded touched_at_def, rule_format])


section \<open>Identity\<close>

lemma proxy_peer_keeps [simp]: "reviews (snd (authorize_proxy_peer t ip n s)) = reviews s"
  by (auto simp: authorize_proxy_peer_def touch_container_def notify_state_def Let_def split: sum.splits prod.splits if_splits)

lemma job_identity_Inr:
  assumes "job_identity nc k b = (Inr (n, inst), b')"
  obtains epoch b1 where "b' = between k 0 b1" "b_jobs b1 = b_jobs b" "b_pushes b1 = b_pushes b" "reviews (b_app b1) = reviews (b_app b)"
    "async_identity (b_app b') n (peer_of k) = Some (inst, epoch)"
proof -
  obtain r s where a: "authorize_proxy_peer (clock_of k) (peer_of k) (presented_name nc k) (b_app b) = (r, s)" by fastforce
  moreover have "reviews s = reviews (b_app b)" using proxy_peer_keeps [of "clock_of k" "peer_of k" "presented_name nc k" "b_app b"] a by simp
  ultimately show thesis
    using assms that [of "b\<lparr>b_app := s\<rparr>"]
    by (auto simp: job_identity_def on_app_def Let_def split: sum.splits prod.splits if_splits option.splits)
qed

section \<open>What a guest changes\<close>

lemma call_keeps_others:
  "others n inst session (snd (on_pushes (push_call wc k c n inst i session) b)) = others n inst session b"
  "others n inst session (snd (on_jobs (job_call wc k c n inst i session) b)) = others n inst session b"
  "others n inst session (snd (on_reviews (upload_call wc k c n inst i session) b)) = others n inst session b"
  using guest_pushes.foreign_kept [of n inst session wc k c i "b_pushes b"] guest_jobs.foreign_kept [of n inst session wc k c i "b_jobs b"]
    guest_files.foreign_kept [of n inst session wc k c i "reviews (b_app b)"]
  by (auto simp: others_def on_pushes_def on_jobs_def on_reviews_def on_app_def split: prod.splits)

text \<open>
  C14. A guest changes only what is its own. Whoever the call is identified as, cancelling, acknowledging and removing leave
  every job, publication and waiting upload of other guests, incarnations and sessions as it was, whatever other tasks do in
  between, unless they change it themselves.
\<close>

theorem guest_changes_own:
  assumes "job_identity (wc_net wc) k b = (Inr (n, inst), b0)"
    and "\<And>m c. others n inst session (between k m c) = others n inst session c"
  shows "others n inst session (snd (guest_change wc k call i session b)) = others n inst session b"
proof -
  obtain epoch b1 where "b0 = between k 0 b1" "b_jobs b1 = b_jobs b" "b_pushes b1 = b_pushes b" "reviews (b_app b1) = reviews (b_app b)"
    by (rule job_identity_Inr [OF assms(1)])
  then have b0: "others n inst session b0 = others n inst session b" using assms(2) by (simp add: others_def)
  define b2 where "b2 = between k 2 (between k 1 b0)"
  define bj where "bj = snd (on_jobs (job_call wc k call n inst i session) b2)"
  have "snd (guest_change wc k call i session b)
      \<in> {snd (on_pushes (push_call wc k call n inst i session) b2), bj, snd (on_reviews (upload_call wc k call n inst i session) (between k 3 bj))}"
    using assms(1) by (auto simp: guest_change_def Let_def b2_def bj_def split: sum.splits prod.splits if_splits)
  moreover have "others n inst session b2 = others n inst session b" using assms(2) b0 by (simp add: b2_def)
  ultimately show ?thesis
    using assms(2) by (auto simp: call_keeps_others bj_def simp del: insertCI)
qed

section \<open>What a guest reads\<close>

text \<open>A view shows an object of the guest.\<close>

fun shows_own :: "'g web_code \<Rightarrow> string \<Rightarrow> uuid \<Rightarrow> string \<Rightarrow> broker \<Rightarrow> guest_view \<Rightarrow> bool" where
  "shows_own wc n inst session b (Job_view v) \<longleftrightarrow>
     (\<exists>(i, j) \<in> set (job_map (Jobs.data (b_jobs b))). Jobs.owned_by n inst session j \<and> v \<in> {Jobs.guest_value j True, Jobs.guest_value j False})"
| "shows_own wc n inst session b (Push_view v) \<longleftrightarrow>
     (\<exists>(i, j) \<in> set (jobs (Pushes.data (b_pushes b))). Pushes.owned_by n inst session j \<and> v \<in> {Pushes.guest_value j True, Pushes.guest_value j False})"
| "shows_own wc n inst session b (Upload_view v) \<longleftrightarrow>
     (\<exists>d \<in> set (map (detail \<circ> snd) (pending (reviews (b_app b))) @ recent (reviews (b_app b))).
        guest_owns d n inst session \<and> guest_result (wc_uploads wc) d n inst session = Some v)"

lemma list_jobs_own: "v \<in> set (list_jobs n inst session (b_jobs b)) \<Longrightarrow> shows_own wc n inst session b (Job_view v)"
  by (force simp: list_jobs_def)

lemma list_pushes_own: "v \<in> set (list_pushes n inst session (b_pushes b)) \<Longrightarrow> shows_own wc n inst session b (Push_view v)"
  by (force simp: list_pushes_def)

lemma result_owned: "guest_result uc d n inst session = Some v \<Longrightarrow> guest_owns d n inst session"
  by (simp add: guest_result_def split: if_splits)

lemma uploads_own:
  "v \<in> set (guest_uploads (wc_uploads wc) n inst session (reviews (b_app b))) \<Longrightarrow> shows_own wc n inst session b (Upload_view v)"
  by (force simp: guest_uploads_def map_filter_def dest: result_owned)

lemma get_job_own: "get_job n inst i session (b_jobs b) = Inr v \<Longrightarrow> shows_own wc n inst session b (Job_view v)"
  by (force simp: get_job_def bind_res_Inr_iff owned_job_Inr dest!: map_of_SomeD)

lemma get_push_own: "get_push n inst i session (b_pushes b) = Inr v \<Longrightarrow> shows_own wc n inst session b (Push_view v)"
  by (force simp: get_push_def bind_res_Inr_iff push_job_Inr dest!: map_of_SomeD)

lemma inspect_in: "inspect i q = Some d \<Longrightarrow> d \<in> set (map (detail \<circ> snd) (pending q) @ recent q)"
  by (auto simp: inspect_def find_Some_iff split: option.splits dest!: map_of_SomeD) force

lemma get_upload_own:
  assumes "Option.bind (inspect i (reviews (b_app b))) (\<lambda>d. guest_result (wc_uploads wc) d n inst session) = Some v"
  shows "shows_own wc n inst session b (Upload_view v)"
proof -
  obtain d where "inspect i (reviews (b_app b)) = Some d" "guest_result (wc_uploads wc) d n inst session = Some v"
    using assms by (auto split: Option.bind_splits)
  then show ?thesis using inspect_in result_owned unfolding shows_own.simps by blast
qed

text \<open>
  C15. A guest reads only what is its own. Every element of a listing and every object returned belongs to the guest that the
  source address and the presented name identify, which is approved, alive and pinned to that address at that moment, and
  to its present incarnation and the named session.
\<close>

theorem guest_reads_own:
  assumes "guest_list wc k session b = (Give c vs, b') \<and> v \<in> set vs \<or> guest_get wc k i session b = (Give c v, b')"
  shows "\<exists>n inst b0 epoch b1. job_identity (wc_net wc) k b = (Inr (n, inst), b0)
    \<and> async_identity (b_app b0) n (peer_of k) = Some (inst, epoch)
    \<and> b1 \<in> {between k 1 b0, between k 2 (between k 1 b0), between k 3 (between k 2 (between k 1 b0))}
    \<and> shows_own wc n inst session b1 v"
proof -
  obtain n inst b0 where ident: "job_identity (wc_net wc) k b = (Inr (n, inst), b0)"
    using assms by (auto simp: guest_list_def guest_get_def split: sum.splits prod.splits)
  obtain epoch where "async_identity (b_app b0) n (peer_of k) = Some (inst, epoch)"
    using job_identity_Inr [OF ident] by blast
  moreover have "\<exists>b1 \<in> {between k 1 b0, between k 2 (between k 1 b0), between k 3 (between k 2 (between k 1 b0))}. shows_own wc n inst session b1 v"
    using assms
  proof
    assume "guest_list wc k session b = (Give c vs, b') \<and> v \<in> set vs"
    then show ?thesis
      using list_jobs_own [of _ n inst session "between k 1 b0" wc] list_pushes_own [of _ n inst session "between k 2 (between k 1 b0)" wc]
        uploads_own [of _ wc n inst session "between k 3 (between k 2 (between k 1 b0))"]
      by (auto simp: guest_list_def ident Let_def simp del: shows_own.simps)
  next
    assume "guest_get wc k i session b = (Give c v, b')"
    then show ?thesis
      using get_push_own [of n inst i session "between k 2 (between k 1 b0)" _ wc] get_job_own [of n inst i session "between k 2 (between k 1 b0)" _ wc]
        get_upload_own [of i "between k 3 (between k 2 (between k 1 b0))" wc n inst session]
      by (auto simp: guest_get_def ident Let_def simp del: shows_own.simps split: if_splits sum.splits option.splits)
  qed
  ultimately show ?thesis using ident by blast
qed


section \<open>Samples\<close>

definition sample_web_code :: "bool web_code" where
  "sample_web_code = \<lparr>wc_net = sample_nc\<lparr>b64_decode := \<lambda>s. Some (s @ '':'')\<rparr>, wc_jobs = sample_job_code, wc_pushes = sample_push_code,
     wc_uploads = sample_upload_code, wc_submission = (\<lambda>_. None)\<rparr>"

definition sample_web_call :: web_call where
  "sample_web_call = \<lparr>peer_of = V4 7, fields_of = [(''authorization'', \<lparr>hv_bytes = ''Basic g'', hv_str = Some ''Basic g''\<rparr>)], clock_of = sample_clock 20, fault_of = No_fault,
     removable_of = (\<lambda>_. True), between = (\<lambda>_ b. b)\<rparr>"

definition sample_broker :: broker where
  "sample_broker = \<lparr>b_app = Jobs_World.w_app sample_submitted, b_jobs = w_jobs sample_submitted, b_pushes = new_pushes\<rparr>"

text \<open>Another session of the same guest cannot cancel the job.\<close>

theorem guest_changes_own_witness:
  "map_of (job_map (Jobs.data (b_jobs (snd (guest_change sample_web_code sample_web_call Cancel_call sample_job_id ''t'' sample_broker))))) sample_job_id
     = map_of (job_map (Jobs.data (b_jobs sample_broker))) sample_job_id"
proof -
  have "case fst (job_identity (wc_net sample_web_code) sample_web_call sample_broker) of Inr x \<Rightarrow> x = (''g'', 1) | Inl _ \<Rightarrow> False" by code_simp
  then obtain b0 where "job_identity (wc_net sample_web_code) sample_web_call sample_broker = (Inr (''g'', 1), b0)"
    by (cases "job_identity (wc_net sample_web_code) sample_web_call sample_broker") (auto split: sum.splits)
  note same = guest_changes_own [OF this, of "''t''" Cancel_call sample_job_id]
  let ?b = "snd (guest_change sample_web_code sample_web_call Cancel_call sample_job_id ''t'' sample_broker)"
  have "case map_of (job_map (Jobs.data (b_jobs sample_broker))) sample_job_id of None \<Rightarrow> False | Some j \<Rightarrow> \<not> Jobs.owned_by ''g'' 1 ''t'' j"
    by code_simp
  moreover have "not_owned (Jobs.owned_by ''g'' 1 ''t'') (map_of (job_map (Jobs.data (b_jobs ?b)))) sample_job_id
      = not_owned (Jobs.owned_by ''g'' 1 ''t'') (map_of (job_map (Jobs.data (b_jobs sample_broker)))) sample_job_id"
    using same by (simp add: others_def sample_web_call_def)
  ultimately show ?thesis by (auto simp: not_owned_def split: option.splits Option.bind_splits if_splits)
qed

theorem guest_reads_own_witness:
  "\<exists>v. fst (guest_get sample_web_code sample_web_call sample_job_id ''s'' sample_broker) = Give 200 v
     \<and> (\<exists>n inst b. shows_own sample_web_code n inst ''s'' b v)"
proof -
  have "case fst (guest_get sample_web_code sample_web_call sample_job_id ''s'' sample_broker) of Give c _ \<Rightarrow> c = 200 | _ \<Rightarrow> False" by code_simp
  then obtain v b where v: "guest_get sample_web_code sample_web_call sample_job_id ''s'' sample_broker = (Give 200 v, b)"
    by (cases "guest_get sample_web_code sample_web_call sample_job_id ''s'' sample_broker") (auto split: answer.splits)
  show ?thesis using guest_reads_own [OF disjI2 [OF v]] v by auto
qed

end
