(* ===== verification/Mcp_Oauth.thy ===== *)
theory Mcp_Oauth
  imports Uploads
begin

text \<open>
  \<open>mcp_oauth.rs\<close>: the OAuth sessions of the MCP forwards, which the broker owns. Every critical section is one definition
  on the state, so that anything may happen between two of them; the network is the replies. Parameters stand for other
  packages: URLs (\<open>reqwest::Url\<close>), the JSON of a token record (\<open>serde_json\<close>), the PKCE digest (\<open>sha2\<close>, \<open>base64\<close>) and the
  text of a UUID.
\<close>

section \<open>URLs\<close>

record WebUrl =
  wu_text :: string
  wu_scheme :: string
  wu_username :: string
  wu_password :: "string option"
  wu_host :: "string option"
  wu_port :: "nat option"
  wu_path :: string
  wu_query :: "string option"
  wu_fragment :: "string option"

record TokenRecord =
  access_token :: string
  tr_refresh_token :: "string option"
  tr_expires_at :: "int option"
  token_endpoint :: string
  tr_client_id :: string
  server_url :: string
  resource :: string
  tr_scope :: "string option"

record oauth_code =
  oc_url :: "string \<Rightarrow> WebUrl option"
  oc_at_path :: "WebUrl \<Rightarrow> string \<Rightarrow> WebUrl"
  oc_pairs :: "WebUrl \<Rightarrow> (string \<times> string) list"
  oc_with_pairs :: "WebUrl \<Rightarrow> (string \<times> string) list \<Rightarrow> string"
  oc_read :: "string \<Rightarrow> TokenRecord option"
  oc_write :: "TokenRecord \<Rightarrow> string"
  oc_challenge :: "string \<Rightarrow> string"
  oc_simple :: "uuid \<Rightarrow> string"
  oc_status :: "nat \<Rightarrow> string"

definition loopback_name :: "string \<Rightarrow> bool" where
  "loopback_name h \<longleftrightarrow> h = ''localhost''
     \<or> opt_any (case_IpAddr v4_is_loopback v6_is_loopback) (parse_ip (trim_matches (\<lambda>c. c \<in> set ''[]'') h))"

definition url_loopback :: "WebUrl \<Rightarrow> bool" where
  "url_loopback u \<longleftrightarrow> opt_any loopback_name (wu_host u)"

definition insecure :: "WebUrl \<Rightarrow> bool" where
  "insecure u \<longleftrightarrow> wu_host u = None \<or> wu_username u \<noteq> [] \<or> wu_password u \<noteq> None \<or> wu_fragment u \<noteq> None
     \<or> \<not> (wu_scheme u = ''https'' \<or> wu_scheme u = ''http'' \<and> url_loopback u)"

definition secure_url :: "oauth_code \<Rightarrow> string \<Rightarrow> string + WebUrl" where
  "secure_url oc raw =
     bind_res (ok_or ''invalid OAuth URL'' (oc_url oc raw)) (\<lambda>u.
       if insecure u
       then Inl ''OAuth endpoints require HTTPS (HTTP is allowed only on loopback), without credentials or fragments''
       else Inr u)"

section \<open>Token records\<close>

definition token_key :: "string \<Rightarrow> string" where
  "token_key name = ''mcp-oauth:'' @ name"

definition load_token :: "oauth_code \<Rightarrow> 'p Settings \<Rightarrow> string \<Rightarrow> TokenRecord option" where
  "load_token oc s name = Option.bind (secret s (token_key name)) (oc_read oc)"

definition timestamp :: "clock \<Rightarrow> int" where
  "timestamp t = int (utc t div 1000)"

definition saturating_i64 :: "int \<Rightarrow> int" where
  "saturating_i64 i = max (- (2 ^ 63)) (min (2 ^ 63 - 1) i)"

definition expires_soon :: "clock \<Rightarrow> TokenRecord \<Rightarrow> bool" where
  "expires_soon t r = opt_any (\<lambda>e. saturating_i64 (e - 60) \<le> timestamp t) (tr_expires_at r)"

section \<open>Replies of an endpoint\<close>

text \<open>A reply: its status, its challenges (the \<open>WWW-Authenticate\<close> values that are text), and its body when it is JSON.\<close>

record oauth_reply =
  or_status :: nat
  or_challenges :: "string list"
  or_json :: "Json option"

record TokenResponse =
  rs_access_token :: string
  rs_token_type :: string
  rs_refresh_token :: "string option"
  rs_expires_in :: "nat option"
  rs_scope :: "string option"

text \<open>The derived reading of a struct whose last members may be absent: an object, or an array with the first \<open>n\<close> members
  at least.\<close>

definition struct_members :: "string list \<Rightarrow> nat \<Rightarrow> Json \<Rightarrow> (string \<Rightarrow> Json option) option" where
  "struct_members ks n j =
     (case j of
        JObject m \<Rightarrow> Some (map_of m)
      | JArray xs \<Rightarrow> if n \<le> length xs \<and> length xs \<le> length ks then Some (map_of (zip ks xs)) else None
      | _ \<Rightarrow> None)"

definition optional_member :: "(Json \<Rightarrow> 'a option) \<Rightarrow> Json option \<Rightarrow> 'a option option" where
  "optional_member f v = (case v of None \<Rightarrow> Some None | Some JNull \<Rightarrow> Some None | Some j \<Rightarrow> map_option Some (f j))"

definition string_list :: "Json \<Rightarrow> string list option" where
  "string_list j = Option.bind (as_array j) (\<lambda>xs. those (map as_str xs))"

definition read_token_response :: "Json \<Rightarrow> TokenResponse option" where
  "read_token_response j =
     Option.bind (struct_members [''access_token'', ''token_type'', ''refresh_token'', ''expires_in'', ''scope''] 5 j) (\<lambda>m.
     Option.bind (Option.bind (m ''access_token'') as_str) (\<lambda>a.
     Option.bind (Option.bind (m ''token_type'') as_str) (\<lambda>ty.
     Option.bind (optional_member as_str (m ''refresh_token'')) (\<lambda>r.
     Option.bind (optional_member as_u64 (m ''expires_in'')) (\<lambda>e.
     Option.bind (optional_member as_str (m ''scope'')) (\<lambda>s.
       Some \<lparr>rs_access_token = a, rs_token_type = ty, rs_refresh_token = r, rs_expires_in = e, rs_scope = s\<rparr>))))))"

definition http_success :: "nat \<Rightarrow> bool" where
  "http_success s \<longleftrightarrow> 200 \<le> s \<and> s < 300"

definition token_response :: "oauth_code \<Rightarrow> oauth_reply option \<Rightarrow> string \<Rightarrow> string + TokenResponse" where
  "token_response oc reply failed =
     (case reply of
        None \<Rightarrow> Inl failed
      | Some r \<Rightarrow>
          if \<not> http_success (or_status r) then Inl (''OAuth token endpoint returned '' @ oc_status oc (or_status r) @ ''; reauthorize in the host Friendzone UI'')
          else case or_json r of
              None \<Rightarrow> Inl ''invalid OAuth token response''
            | Some body \<Rightarrow>
                (case read_token_response body of
                   None \<Rightarrow> Inl ''invalid OAuth token response fields''
                 | Some ts \<Rightarrow>
                     if rs_access_token ts = [] \<or> \<not> eq_ignore_ascii_case (rs_token_type ts) ''bearer'' \<or> rs_refresh_token ts = Some []
                     then Inl ''OAuth endpoint did not issue valid Bearer credentials'' else Inr ts))"

definition expiry :: "clock \<Rightarrow> nat option \<Rightarrow> string + int option" where
  "expiry t seconds =
     (case seconds of
        None \<Rightarrow> Inr None
      | Some s \<Rightarrow>
          if 2 ^ 63 \<le> s \<or> 2 ^ 63 \<le> timestamp t + int s then Inl ''invalid OAuth token lifetime'' else Inr (Some (timestamp t + int s)))"


section \<open>Discovery\<close>

record ResourceMetadata =
  rm_resource :: string
  authorization_servers :: "string list"

record AuthorizationMetadata =
  issuer :: string
  authorization_endpoint :: string
  am_token_endpoint :: string
  registration_endpoint :: "string option"
  code_challenge_methods :: "string list"
  token_auth_methods :: "string list option"

record Discovery =
  d_resource :: string
  d_metadata :: AuthorizationMetadata

definition read_resource :: "Json \<Rightarrow> ResourceMetadata option" where
  "read_resource j =
     Option.bind (struct_members [''resource'', ''authorization_servers''] 2 j) (\<lambda>m.
     Option.bind (Option.bind (m ''resource'') as_str) (\<lambda>r.
     Option.bind (Option.bind (m ''authorization_servers'') string_list) (\<lambda>ss.
       Some \<lparr>rm_resource = r, authorization_servers = ss\<rparr>)))"

definition read_authorization :: "Json \<Rightarrow> AuthorizationMetadata option" where
  "read_authorization j =
     Option.bind (struct_members [''issuer'', ''authorization_endpoint'', ''token_endpoint'', ''registration_endpoint'',
         ''code_challenge_methods_supported'', ''token_endpoint_auth_methods_supported''] 4 j) (\<lambda>m.
     Option.bind (Option.bind (m ''issuer'') as_str) (\<lambda>i.
     Option.bind (Option.bind (m ''authorization_endpoint'') as_str) (\<lambda>a.
     Option.bind (Option.bind (m ''token_endpoint'') as_str) (\<lambda>te.
     Option.bind (optional_member as_str (m ''registration_endpoint'')) (\<lambda>re.
     Option.bind (case m ''code_challenge_methods_supported'' of None \<Rightarrow> Some [] | Some v \<Rightarrow> string_list v) (\<lambda>cm.
     Option.bind (optional_member string_list (m ''token_endpoint_auth_methods_supported'')) (\<lambda>am.
       Some \<lparr>issuer = i, authorization_endpoint = a, am_token_endpoint = te, registration_endpoint = re,
         code_challenge_methods = cm, token_auth_methods = am\<rparr>)))))))"

definition well_known :: "oauth_code \<Rightarrow> WebUrl \<Rightarrow> string \<Rightarrow> bool \<Rightarrow> WebUrl" where
  "well_known oc base kind with_path =
     oc_at_path oc base (''/.well-known/'' @ kind @ (if with_path then trim_end_matches (\<lambda>c. c = CHR ''/'') (wu_path base) else []))"

definition find_map :: "('a \<Rightarrow> 'b option) \<Rightarrow> 'a list \<Rightarrow> 'b option" where
  "find_map f xs = (case List.map_filter f xs of [] \<Rightarrow> None | y # _ \<Rightarrow> Some y)"

definition hint_param :: "string \<Rightarrow> string option" where
  "hint_param p =
     Option.bind (split_once (CHR ''='') (str_trim p)) (\<lambda>(k, v).
       if eq_ignore_ascii_case k ''resource_metadata'' then Some (trim_matches (\<lambda>c. c = ch 34) (str_trim v)) else None)"

definition resource_metadata_hint :: "string list \<Rightarrow> string option" where
  "resource_metadata_hint =
     find_map (\<lambda>v. Option.bind (split_once (CHR '' '') v) (\<lambda>(_, params). find_map hint_param (split_on (CHR '','') params)))"

definition get_metadata :: "oauth_code \<Rightarrow> (Json \<Rightarrow> 'a option) \<Rightarrow> (WebUrl \<Rightarrow> oauth_reply option) \<Rightarrow> WebUrl \<Rightarrow> string + 'a option" where
  "get_metadata oc rd ask u =
     bind_res (secure_url oc (wu_text u)) (\<lambda>_.
       case ask u of
         None \<Rightarrow> Inl ''OAuth metadata request failed''
       | Some r \<Rightarrow>
           if or_status r \<in> {404, 405} then Inr None
           else if \<not> http_success (or_status r) then Inl (''OAuth metadata returned '' @ oc_status oc (or_status r))
           else case or_json r of
               None \<Rightarrow> Inl ''invalid OAuth metadata JSON''
             | Some j \<Rightarrow> (case rd j of None \<Rightarrow> Inl ''invalid OAuth metadata fields'' | Some x \<Rightarrow> Inr (Some x)))"

text \<open>\<open>ask i u\<close> is the reply to the \<open>i\<close>-th request, to \<open>u\<close>.\<close>

fun first_resource :: "oauth_code \<Rightarrow> (nat \<Rightarrow> WebUrl \<Rightarrow> oauth_reply option) \<Rightarrow> nat \<Rightarrow> WebUrl list \<Rightarrow> string + ResourceMetadata option" where
  "first_resource oc ask i [] = Inr None"
| "first_resource oc ask i (u # us) =
     bind_res (get_metadata oc read_resource (ask i) u) (\<lambda>found.
       case found of Some m \<Rightarrow> Inr (Some m) | None \<Rightarrow> first_resource oc ask (Suc i) us)"

text \<open>The origin of an HTTP(S) URL.\<close>

definition same_origin :: "WebUrl \<Rightarrow> WebUrl \<Rightarrow> bool" where
  "same_origin u v \<longleftrightarrow> wu_scheme u = wu_scheme v \<and> wu_host u = wu_host v \<and> wu_port u = wu_port v"

definition describes :: "WebUrl \<Rightarrow> WebUrl \<Rightarrow> bool" where
  "describes res target \<longleftrightarrow> same_origin res target
     \<and> (wu_path target = wu_path res \<or> starts_with (trim_end_matches (\<lambda>c. c = CHR ''/'') (wu_path res) @ ''/'') (wu_path target))"

definition check_authorization :: "oauth_code \<Rightarrow> WebUrl \<Rightarrow> AuthorizationMetadata \<Rightarrow> string + unit" where
  "check_authorization oc iss m =
     bind_res (secure_url oc (issuer m)) (\<lambda>i.
       if i \<noteq> iss then Inl ''OAuth metadata issuer mismatch''
       else if ''S256'' \<notin> set (code_challenge_methods m) then Inl ''Authorization server does not advertise PKCE S256''
       else if opt_any (\<lambda>ms. ''none'' \<notin> set ms) (token_auth_methods m)
       then Inl ''This server requires a confidential OAuth client; public-client registration is not supported''
       else bind_res (secure_url oc (authorization_endpoint m)) (\<lambda>_. bind_res (secure_url oc (am_token_endpoint m)) (\<lambda>_. Inr ())))"

definition discover :: "oauth_code \<Rightarrow> (nat \<Rightarrow> WebUrl \<Rightarrow> oauth_reply option) \<Rightarrow> string \<Rightarrow> string + Discovery" where
  "discover oc ask server =
     bind_res (secure_url oc server) (\<lambda>target.
     bind_res (ok_or ''MCP authorization discovery failed'' (ask 0 target)) (\<lambda>probe.
     bind_res (case resource_metadata_hint (or_challenges probe) of
         Some h \<Rightarrow> bind_res (secure_url oc h) (\<lambda>u. Inr [u])
       | None \<Rightarrow> Inr [well_known oc target ''oauth-protected-resource'' True, well_known oc target ''oauth-protected-resource'' False]) (\<lambda>cs.
     bind_res (first_resource oc ask 1 (remdups_adj cs)) (\<lambda>found.
     bind_res (ok_or ''MCP server did not publish protected-resource metadata'' found) (\<lambda>rm.
     bind_res (secure_url oc (rm_resource rm)) (\<lambda>res.
       if \<not> describes res target then Inl ''Protected-resource metadata does not describe this MCP endpoint''
       else
         bind_res (ok_or ''No OAuth authorization server advertised'' (case authorization_servers rm of [] \<Rightarrow> None | s # _ \<Rightarrow> Some s)) (\<lambda>s.
         bind_res (secure_url oc s) (\<lambda>iss.
         bind_res (get_metadata oc read_authorization (ask 3) (well_known oc iss ''oauth-authorization-server'' True)) (\<lambda>found2.
         bind_res (ok_or ''Authorization server did not publish OAuth metadata'' found2) (\<lambda>m.
         bind_res (check_authorization oc iss m) (\<lambda>_. Inr \<lparr>d_resource = rm_resource rm, d_metadata = m\<rparr>)))))))))))"


section \<open>Sessions and logins\<close>

definition LOGIN_LIFETIME :: nat where "LOGIN_LIFETIME = 600 * 1000"

record Session =
  sess_name :: string
  sess_url :: string
  generation :: uuid
  connection_epoch :: uuid
  retired :: bool

datatype LoginStatus = WaitingForUser | Connected | Login_failed string

record PendingLogin =
  pl_session :: nat
  pl_generation :: uuid
  pl_deadline :: instant
  redirect :: string
  verifier :: string
  pl_client :: string
  pl_discovery :: Discovery
  pl_scope :: "string option"

text \<open>
  The sessions by reference (an \<open>Arc\<close> is the number of its session; a session that is dropped stays unused), the settings
  with the token records, and the logins of \<open>OauthFlows\<close>.
\<close>

record 'p oauth_state =
  sessions :: "Session list"
  tokens :: "'p Settings"
  pending_logins :: "(string, PendingLogin) alist"
  login_status :: "(string, uuid \<times> LoginStatus) alist"
  next_uuid :: uuid

definition set_session :: "nat \<Rightarrow> Session \<Rightarrow> 'p oauth_state \<Rightarrow> 'p oauth_state" where
  "set_session i s st = st\<lparr>sessions := (sessions st)[i := s]\<rparr>"

text \<open>\<open>Session::new\<close>: two fresh identifiers.\<close>

definition new_session :: "string \<Rightarrow> string \<Rightarrow> 'p oauth_state \<Rightarrow> nat \<times> 'p oauth_state" where
  "new_session name url st =
     (length (sessions st),
      st\<lparr>sessions := sessions st @ [\<lparr>sess_name = name, sess_url = url, generation = next_uuid st,
           connection_epoch = next_uuid st + 1, retired = False\<rparr>], next_uuid := next_uuid st + 2\<rparr>)"

definition superseded :: "Session \<Rightarrow> uuid \<Rightarrow> bool" where
  "superseded s g \<longleftrightarrow> retired s \<or> generation s \<noteq> g"

definition check :: "Session \<Rightarrow> uuid \<Rightarrow> string + unit" where
  "check s g = (if superseded s g then Inl ''OAuth operation superseded; authorize again in the host Friendzone UI'' else Inr ())"

text \<open>The part of \<open>begin\<close> under the refresh lock.\<close>

definition begin_login :: "nat \<Rightarrow> 'p oauth_state \<Rightarrow> (string + uuid) \<times> 'p oauth_state" where
  "begin_login i st =
     (let s = sessions st ! i in
      if retired s then (Inl ''forward changed; start authorization again'', st)
      else (Inr (next_uuid st), set_session i (s\<lparr>generation := next_uuid st\<rparr>) (st\<lparr>next_uuid := next_uuid st + 1\<rparr>)))"

definition settings_text :: "settings_error + unit \<Rightarrow> string + unit" where
  "settings_text r = (case r of Inl _ \<Rightarrow> Inl ''secrets not saved'' | Inr _ \<Rightarrow> Inr ())"

definition store_token :: "oauth_code \<Rightarrow> 'p saver \<Rightarrow> nat \<Rightarrow> uuid \<Rightarrow> TokenRecord \<Rightarrow> bool \<Rightarrow> 'p oauth_state \<Rightarrow> (string + unit) \<times> 'p oauth_state" where
  "store_token oc save i g r new_login st =
     (let s = sessions st ! i in
      if superseded s g then (Inl ''OAuth operation superseded; tokens were not saved'', st)
      else case set_secret save (tokens st) (token_key (sess_name s)) (oc_write oc r) of
          (Inl e, cfg) \<Rightarrow> (settings_text (Inl e), st\<lparr>tokens := cfg\<rparr>)
        | (Inr _, cfg) \<Rightarrow>
            (Inr (), if new_login then set_session i (s\<lparr>connection_epoch := next_uuid st\<rparr>) (st\<lparr>tokens := cfg, next_uuid := next_uuid st + 1\<rparr>)
                     else st\<lparr>tokens := cfg\<rparr>))"

definition disconnect :: "'p saver \<Rightarrow> nat \<Rightarrow> 'p oauth_state \<Rightarrow> (string + unit) \<times> 'p oauth_state" where
  "disconnect save i st =
     (let s = sessions st ! i in
      if retired s then (Inl ''Forward changed; disconnect the current forward instead'', st)
      else
        (let st' = set_session i (s\<lparr>generation := next_uuid st, connection_epoch := next_uuid st + 1\<rparr>) (st\<lparr>next_uuid := next_uuid st + 2\<rparr>) in
         case remove_secret save (tokens st') (token_key (sess_name s)) of (r, cfg) \<Rightarrow> (settings_text r, st'\<lparr>tokens := cfg\<rparr>)))"

definition retire :: "'p saver \<Rightarrow> nat \<Rightarrow> 'p oauth_state \<Rightarrow> (string + unit) \<times> 'p oauth_state" where
  "retire save i st =
     (let s = sessions st ! i in
      case remove_secret save (tokens st) (token_key (sess_name s)) of
        (Inl e, cfg) \<Rightarrow> (settings_text (Inl e), st\<lparr>tokens := cfg\<rparr>)
      | (Inr _, cfg) \<Rightarrow>
          (Inr (), set_session i (s\<lparr>retired := True, generation := next_uuid st\<rparr>) (st\<lparr>tokens := cfg, next_uuid := next_uuid st + 1\<rparr>)))"

section \<open>Tokens for requests\<close>

text \<open>A message to an endpoint: its address and form.\<close>

record form_post =
  fp_url :: WebUrl
  fp_form :: "(string \<times> string) list"

text \<open>\<open>token\<close> up to the refresh request: the stored token, an error, or the request with the generation and the record.\<close>

datatype token_start = Token_ready string | Token_error string | Token_refresh uuid TokenRecord form_post

definition refresh_form :: "TokenRecord \<Rightarrow> string \<Rightarrow> (string \<times> string) list" where
  "refresh_form r refresh =
     [(''grant_type'', ''refresh_token''), (''refresh_token'', refresh), (''client_id'', tr_client_id r), (''resource'', resource r)]"

definition token_begin :: "oauth_code \<Rightarrow> clock \<Rightarrow> string option \<Rightarrow> nat \<Rightarrow> 'p oauth_state \<Rightarrow> token_start" where
  "token_begin oc t rejected i st =
     (let s = sessions st ! i in
      if retired s then Token_error ''OAuth operation superseded; authorize again in the host Friendzone UI''
      else case load_token oc (tokens st) (sess_name s) of
          None \<Rightarrow> Token_error ''Upstream OAuth is not connected. Use Authorize in Friendzone on the host, not in the guest''
        | Some r \<Rightarrow>
            if server_url r \<noteq> sess_url s \<or> resource r = []
            then Token_error ''Stored OAuth session is not bound to this upstream URL. Reauthorize in the host Friendzone UI''
            else if \<not> expires_soon t r \<and> rejected \<noteq> Some (access_token r) then Token_ready (access_token r)
            else case tr_refresh_token r of
                None \<Rightarrow> Token_error ''OAuth token expired/rejected and cannot refresh; reauthorize on the host''
              | Some refresh \<Rightarrow>
                  (case secure_url oc (token_endpoint r) of
                     Inl e \<Rightarrow> Token_error e
                   | Inr u \<Rightarrow> Token_refresh (generation s) r \<lparr>fp_url = u, fp_form = refresh_form r refresh\<rparr>))"

definition refreshed :: "TokenRecord \<Rightarrow> TokenResponse \<Rightarrow> int option \<Rightarrow> TokenRecord" where
  "refreshed r ts e =
     r\<lparr>access_token := rs_access_token ts,
       tr_refresh_token := (case rs_refresh_token ts of None \<Rightarrow> tr_refresh_token r | Some x \<Rightarrow> Some x),
       tr_expires_at := e, tr_scope := (case rs_scope ts of None \<Rightarrow> tr_scope r | Some x \<Rightarrow> Some x)\<rparr>"

definition token_finish :: "oauth_code \<Rightarrow> 'p saver \<Rightarrow> clock \<Rightarrow> nat \<Rightarrow> uuid \<Rightarrow> TokenRecord \<Rightarrow> oauth_reply option \<Rightarrow> 'p oauth_state
    \<Rightarrow> (string + string) \<times> 'p oauth_state" where
  "token_finish oc save t i g r reply st =
     (case bind_res (token_response oc reply ''OAuth refresh request failed'') (\<lambda>ts.
             bind_res (expiry t (rs_expires_in ts)) (\<lambda>e. Inr (refreshed r ts e))) of
        Inl e \<Rightarrow> (Inl e, st)
      | Inr r' \<Rightarrow> (case store_token oc save i g r' False st of (Inl e, st') \<Rightarrow> (Inl e, st') | (Inr _, st') \<Rightarrow> (Inr (access_token r'), st')))"

section \<open>Logins\<close>

definition login_name :: "'p oauth_state \<Rightarrow> PendingLogin \<Rightarrow> string" where
  "login_name st l = sess_name (sessions st ! pl_session l)"

definition current_status :: "nat \<Rightarrow> 'p oauth_state \<Rightarrow> LoginStatus option" where
  "current_status i st =
     (let s = sessions st ! i in
      Option.bind (map_of (login_status st) (sess_name s)) (\<lambda>(g, how). if g = generation s then Some how else None))"

definition status_of :: "clock \<Rightarrow> nat \<Rightarrow> 'p oauth_state \<Rightarrow> LoginStatus option \<times> 'p oauth_state" where
  "status_of t i st =
     (let s = sessions st ! i;
          mine = (\<lambda>l. login_name st l = sess_name s \<and> pl_generation l = generation s);
          st' = (if list_ex (\<lambda>(_, l). mine l \<and> pl_deadline l \<le> mono t) (pending_logins st)
                 then st\<lparr>pending_logins := filter (\<lambda>(_, l). \<not> mine l) (pending_logins st),
                         login_status := AList.update (sess_name s)
                           (generation s, Login_failed ''OAuth login expired; start again on the host'') (login_status st)\<rparr>
                 else st)
      in (current_status i st', st'))"

definition set_status :: "nat \<Rightarrow> uuid \<Rightarrow> LoginStatus \<Rightarrow> 'p oauth_state \<Rightarrow> 'p oauth_state" where
  "set_status i g how st =
     (let s = sessions st ! i in
      if superseded s g then st else st\<lparr>login_status := AList.update (sess_name s) (g, how) (login_status st)\<rparr>)"

text \<open>The requests of \<open>start_inner\<close>: discovery and the registration of a client.\<close>

definition register_client :: "oauth_code \<Rightarrow> (WebUrl \<Rightarrow> oauth_reply option) \<Rightarrow> Discovery \<Rightarrow> string + string" where
  "register_client oc ask d =
     bind_res (ok_or ''Authorization server does not support dynamic client registration'' (registration_endpoint (d_metadata d))) (\<lambda>e.
     bind_res (secure_url oc e) (\<lambda>u.
     bind_res (ok_or ''OAuth client registration failed'' (ask u)) (\<lambda>r.
       if \<not> http_success (or_status r) then Inl (''OAuth client registration returned '' @ oc_status oc (or_status r))
       else
         bind_res (ok_or ''invalid OAuth registration response'' (or_json r)) (\<lambda>j.
           if opt_any (\<lambda>m. m \<noteq> ''none'') (Option.bind (json_get ''token_endpoint_auth_method'' j) as_str)
           then Inl ''Registration did not accept public-client authentication''
           else
             bind_res (ok_or ''Registration did not return a client ID'' (Option.bind (json_get ''client_id'' j) as_str)) (\<lambda>c.
               if c = [] then Inl ''Registration did not return a client ID'' else Inr c)))))"

definition RESERVED :: "string list" where
  "RESERVED = [''response_type'', ''client_id'', ''redirect_uri'', ''state'', ''code_challenge'', ''code_challenge_method'', ''resource'', ''scope'']"

definition authorize_pairs :: "oauth_code \<Rightarrow> WebUrl \<Rightarrow> string \<Rightarrow> string \<Rightarrow> string \<Rightarrow> string \<Rightarrow> string \<Rightarrow> string option \<Rightarrow> (string \<times> string) list" where
  "authorize_pairs oc u client redir state ver res scope =
     filter (\<lambda>(k, _). k \<notin> set RESERVED) (oc_pairs oc u)
     @ [(''response_type'', ''code''), (''client_id'', client), (''redirect_uri'', redir), (''state'', state),
        (''code_challenge'', oc_challenge oc ver), (''code_challenge_method'', ''S256''), (''resource'', res)]
     @ (case scope of None \<Rightarrow> [] | Some s \<Rightarrow> [(''scope'', s)])"

record prepared_login =
  pr_discovery :: Discovery
  pr_client :: string

definition prepare_login :: "oauth_code \<Rightarrow> (nat \<Rightarrow> WebUrl \<Rightarrow> oauth_reply option) \<Rightarrow> string \<Rightarrow> string \<Rightarrow> string + prepared_login" where
  "prepare_login oc ask redir url =
     bind_res (secure_url oc redir) (\<lambda>u.
       if \<not> url_loopback u then Inl ''OAuth callback must use the host loopback UI listener''
       else bind_res (discover oc ask url) (\<lambda>d.
         bind_res (register_client oc (ask 4) d) (\<lambda>c. Inr \<lparr>pr_discovery = d, pr_client = c\<rparr>)))"

text \<open>The rest of \<open>start_inner\<close>: fresh secrets, the authorization address, and the login, under the lock of the flows.\<close>

definition publish_login :: "oauth_code \<Rightarrow> clock \<Rightarrow> nat \<Rightarrow> uuid \<Rightarrow> string \<Rightarrow> string option \<Rightarrow> prepared_login \<Rightarrow> 'p oauth_state
    \<Rightarrow> (string + string) \<times> 'p oauth_state" where
  "publish_login oc t i g redir scope p st =
     (let s = sessions st ! i; d = pr_discovery p; u = next_uuid st;
          ver = oc_simple oc u @ oc_simple oc (u + 1) @ oc_simple oc (u + 2);
          state = oc_simple oc (u + 3); st1 = st\<lparr>next_uuid := u + 4\<rparr> in
      case secure_url oc (authorization_endpoint (d_metadata d)) of
        Inl e \<Rightarrow> (Inl e, st1)
      | Inr a \<Rightarrow>
          (case check s g of
             Inl e \<Rightarrow> (Inl e, st1)
           | Inr _ \<Rightarrow>
               (let kept = filter (\<lambda>(_, l). mono t < pl_deadline l \<and> login_name st l \<noteq> sess_name s) (pending_logins st) in
                if 128 \<le> length kept then (Inl ''Too many pending OAuth logins; try again later'', st1\<lparr>pending_logins := kept\<rparr>)
                else (Inr (oc_with_pairs oc a (authorize_pairs oc a (pr_client p) redir state ver (d_resource d) scope)),
                  st1\<lparr>login_status := AList.update (sess_name s) (g, WaitingForUser) (login_status st),
                      pending_logins := AList.update state
                        \<lparr>pl_session = i, pl_generation = g, pl_deadline = mono t + LOGIN_LIFETIME, redirect = redir, verifier = ver,
                         pl_client = pr_client p, pl_discovery = d, pl_scope = scope\<rparr> kept\<rparr>))))"

text \<open>\<open>start\<close> after \<open>begin\<close>; a failure shows.\<close>

definition start_login :: "oauth_code \<Rightarrow> clock \<Rightarrow> (nat \<Rightarrow> WebUrl \<Rightarrow> oauth_reply option) \<Rightarrow> nat \<Rightarrow> uuid \<Rightarrow> string \<Rightarrow> string option \<Rightarrow> 'p oauth_state
    \<Rightarrow> (string + string) \<times> 'p oauth_state" where
  "start_login oc t ask i g redir scope st =
     (case (case prepare_login oc ask redir (sess_url (sessions st ! i)) of
              Inl e \<Rightarrow> (Inl e, st) | Inr p \<Rightarrow> publish_login oc t i g redir scope p st) of
        (Inr a, st') \<Rightarrow> (Inr a, st')
      | (Inl e, st') \<Rightarrow>
          (Inl e, set_status i g (Login_failed ''Could not start authorization. Check the displayed error and retry.'') st'))"

text \<open>\<open>finish\<close>: the login is taken out; then, under the refresh lock of its session, checked and exchanged.\<close>

definition take_login :: "string \<Rightarrow> 'p oauth_state \<Rightarrow> (string + PendingLogin) \<times> 'p oauth_state" where
  "take_login state st =
     (case map_of (pending_logins st) state of
        None \<Rightarrow> (Inl ''Unknown, expired or already-used OAuth state'', st)
      | Some l \<Rightarrow> (Inr l, st\<lparr>pending_logins := AList.delete state (pending_logins st)\<rparr>))"

definition exchange_form :: "PendingLogin \<Rightarrow> string \<Rightarrow> (string \<times> string) list" where
  "exchange_form l code =
     [(''grant_type'', ''authorization_code''), (''code'', code), (''redirect_uri'', redirect l), (''client_id'', pl_client l),
      (''code_verifier'', verifier l), (''resource'', d_resource (pl_discovery l))]"

definition check_login :: "clock \<Rightarrow> PendingLogin \<Rightarrow> string option \<Rightarrow> string option \<Rightarrow> 'p oauth_state \<Rightarrow> string + string" where
  "check_login t l code error st =
     bind_res (check (sessions st ! pl_session l) (pl_generation l)) (\<lambda>_.
       if pl_deadline l \<le> mono t then Inl ''OAuth login expired; start again on the host''
       else if error \<noteq> None then Inl ''Authorization was denied or cancelled; no credentials changed''
       else case code of
           None \<Rightarrow> Inl ''OAuth callback did not include a code''
         | Some c \<Rightarrow> if c = [] then Inl ''OAuth callback did not include a code'' else Inr c)"

definition issued :: "PendingLogin \<Rightarrow> string \<Rightarrow> TokenResponse \<Rightarrow> int option \<Rightarrow> TokenRecord" where
  "issued l url ts e =
     \<lparr>access_token = rs_access_token ts, tr_refresh_token = rs_refresh_token ts, tr_expires_at = e,
      token_endpoint = am_token_endpoint (d_metadata (pl_discovery l)), tr_client_id = pl_client l, server_url = url,
      resource = d_resource (pl_discovery l), tr_scope = (case rs_scope ts of None \<Rightarrow> pl_scope l | Some x \<Rightarrow> Some x)\<rparr>"

definition exchange_finish :: "oauth_code \<Rightarrow> 'p saver \<Rightarrow> clock \<Rightarrow> PendingLogin \<Rightarrow> oauth_reply option \<Rightarrow> 'p oauth_state
    \<Rightarrow> (string + unit) \<times> 'p oauth_state" where
  "exchange_finish oc save t l reply st =
     (case bind_res (token_response oc reply ''OAuth code exchange failed'') (\<lambda>ts.
             bind_res (expiry t (rs_expires_in ts)) (\<lambda>e. Inr (issued l (sess_url (sessions st ! pl_session l)) ts e))) of
        Inl e \<Rightarrow> (Inl e, st)
      | Inr r \<Rightarrow> store_token oc save (pl_session l) (pl_generation l) r True st)"

definition login_outcome :: "string + 'a \<Rightarrow> LoginStatus" where
  "login_outcome r = (case r of Inl e \<Rightarrow> Login_failed e | Inr _ \<Rightarrow> Connected)"

end
