(* ===== verification/Mcp_Import.thy ===== *)
theory Mcp_Import
  imports Mcp_Oauth
begin

text \<open>
  \<open>mcp_import.rs\<close>: the read-only link to the MCP servers of Cline on the host. The file and its parsers are parameters; nothing
  is written and no command is run. \<open>imp_home\<close> and \<open>imp_join\<close> are the paths of the platform.
\<close>

record ClineSource =
  cs_path :: string
  cs_server :: string

record import_code =
  imp_absolute :: "string \<Rightarrow> bool"
  imp_read :: "string \<Rightarrow> string option"
  imp_json :: "string \<Rightarrow> Json option"
  imp_url :: "string \<Rightarrow> WebUrl option"
  imp_header_name :: "string \<Rightarrow> string option"
  imp_header_ok :: "string \<Rightarrow> bool"
  imp_join :: "string \<Rightarrow> string \<Rightarrow> string"

section \<open>The settings file\<close>

definition env_value :: "(string \<Rightarrow> string option) \<Rightarrow> string \<Rightarrow> string option" where
  "env_value envs n = Option.bind (envs n) (\<lambda>v. if str_trim v = [] then None else Some (str_trim v))"

definition home_of :: "(string \<Rightarrow> string option) \<Rightarrow> string option \<Rightarrow> string option" where
  "home_of envs os_home =
     (case Option.bind (env_value envs ''HOME'') (\<lambda>v. if v = ''~'' then None else Some v) of
        Some h \<Rightarrow> Some h
      | None \<Rightarrow>
          (case env_value envs ''USERPROFILE'' of
             Some h \<Rightarrow> Some h
           | None \<Rightarrow>
               (case (env_value envs ''HOMEDRIVE'', env_value envs ''HOMEPATH'') of
                  (Some d, Some p) \<Rightarrow> Some (d @ p) | _ \<Rightarrow> os_home)))"

definition settings_path_from_env :: "import_code \<Rightarrow> (string \<Rightarrow> string option) \<Rightarrow> string option \<Rightarrow> string option" where
  "settings_path_from_env ic envs os_home =
     (let j = imp_join ic in
      case env_value envs ''CLINE_MCP_SETTINGS_PATH'' of
        Some p \<Rightarrow> Some p
      | None \<Rightarrow>
          map_option (\<lambda>dir. j (j dir ''settings'') ''cline_mcp_settings.json'')
            (case env_value envs ''CLINE_DATA_DIR'' of
               Some d \<Rightarrow> Some d
             | None \<Rightarrow>
                 map_option (\<lambda>c. j c ''data'')
                   (case env_value envs ''CLINE_DIR'' of
                      Some d \<Rightarrow> Some d
                    | None \<Rightarrow> map_option (\<lambda>h. j h ''.cline'') (home_of envs os_home))))"

definition read_servers :: "import_code \<Rightarrow> string \<Rightarrow> string + (string, Json) alist" where
  "read_servers ic p =
     (if \<not> imp_absolute ic p then Inl ''Cline settings path must be absolute on the broker host (not a guest path)''
      else
        bind_res (ok_or ''read host Cline MCP settings'' (imp_read ic p)) (\<lambda>txt.
        bind_res (ok_or ''parse Cline MCP settings'' (imp_json ic txt)) (\<lambda>root.
        ok_or ''expected an mcpServers object'' (Option.bind (json_get ''mcpServers'' root) as_object))))"

section \<open>Entries\<close>

definition transport_kind :: "Json \<Rightarrow> Json \<Rightarrow> string + string" where
  "transport_kind entry tr =
     (if json_get ''transport'' entry \<noteq> None
      then ok_or ''nested transport requires type'' (Option.bind (json_get ''type'' tr) as_str)
      else
        Inr (case Option.bind (case json_get ''type'' entry of Some v \<Rightarrow> Some v | None \<Rightarrow> json_get ''transportType'' entry) as_str of
               Some k \<Rightarrow> k
             | None \<Rightarrow> if json_get ''command'' entry \<noteq> None then ''stdio'' else ''sse''))"

definition transport :: "Json \<Rightarrow> string + Json" where
  "transport entry =
     (if as_object entry = None then Inl ''server entry must be an object''
      else
        (let tr = (case json_get ''transport'' entry of Some v \<Rightarrow> v | None \<Rightarrow> entry) in
         if as_object tr = None then Inl ''transport must be an object''
         else
           bind_res (transport_kind entry tr) (\<lambda>kind.
             if kind \<noteq> ''streamableHttp''
                \<and> \<not> (json_get ''type'' entry = None \<and> json_get ''transport'' entry = None \<and> kind = ''http'')
             then Inl (kind @ '' transport is not supported; no host commands are executed'')
             else if opt_any (\<lambda>v. v \<noteq> JBool False) (json_get ''disabled'' entry)
             then Inl ''server is disabled or has an invalid disabled flag in Cline''
             else Inr tr)))"

definition http_url :: "WebUrl \<Rightarrow> bool" where
  "http_url u \<longleftrightarrow> wu_scheme u \<in> {''http'', ''https''} \<and> wu_host u \<noteq> None \<and> wu_username u = [] \<and> wu_password u = None \<and> wu_fragment u = None"

definition endpoint_of :: "import_code \<Rightarrow> Json \<Rightarrow> string + string" where
  "endpoint_of ic entry =
     bind_res (transport entry) (\<lambda>tr.
     bind_res (ok_or ''missing server URL'' (Option.bind (json_get ''url'' tr) as_str)) (\<lambda>raw.
     bind_res (ok_or ''invalid server URL'' (imp_url ic raw)) (\<lambda>u.
       if \<not> http_url u then Inl ''expected HTTP(S) URL without embedded credentials or fragment'' else Inr raw)))"

record Candidate =
  cand_server :: string
  cand_url :: "string option"
  cand_supported :: bool
  cand_reason :: string

definition candidate :: "import_code \<Rightarrow> string \<times> Json \<Rightarrow> Candidate" where
  "candidate ic p =
     (case endpoint_of ic (snd p) of
        Inr u \<Rightarrow> \<lparr>cand_server = fst p, cand_url = Some u, cand_supported = True,
          cand_reason = ''Read-only Cline link; select tools and guests, then validate before applying''\<rparr>
      | Inl e \<Rightarrow> \<lparr>cand_server = fst p, cand_url = None, cand_supported = False, cand_reason = e\<rparr>)"

definition preview :: "import_code \<Rightarrow> string \<Rightarrow> string + Candidate list" where
  "preview ic p = map_sum id (\<lambda>m. sort_key (\<lambda>c. map byte (cand_server c)) (map (candidate ic) m)) (read_servers ic p)"

section \<open>Headers\<close>

definition FORBIDDEN_HEADERS :: "string list" where
  "FORBIDDEN_HEADERS = [''host'', ''content-length'', ''transfer-encoding'', ''connection'', ''proxy-authorization'', ''mcp-session-id'',
     ''mcp-protocol-version'']"

definition string_map :: "Json \<Rightarrow> (string \<times> string) list option" where
  "string_map j = Option.bind (as_object j) (\<lambda>m. those (map (\<lambda>(k, v). map_option (Pair k) (as_str v)) m))"

definition with_token :: "Json \<Rightarrow> (string \<times> string) list \<Rightarrow> (string \<times> string) list" where
  "with_token entry hs =
     (case Option.bind (Option.bind (json_get ''oauth'' entry) (json_get ''tokens'')) (\<lambda>t. Option.bind (json_get ''access_token'' t) as_str) of
        None \<Rightarrow> hs
      | Some a \<Rightarrow>
          if a = [] then hs
          else filter (\<lambda>(k, _). \<not> eq_ignore_ascii_case k ''authorization'') hs @ [(''Authorization'', ''Bearer '' @ a)])"

definition check_header :: "import_code \<Rightarrow> string \<times> string \<Rightarrow> string + string \<times> string" where
  "check_header ic h =
     bind_res (ok_or ''invalid Cline header name'' (imp_header_name ic (fst h))) (\<lambda>n.
       if n \<in> set FORBIDDEN_HEADERS then Inl (''Cline header '' @ n @ '' cannot override broker transport state'')
       else if \<not> imp_header_ok ic (snd h) then Inl ''invalid Cline header value'' else Inr h)"

definition cline_headers :: "import_code \<Rightarrow> ClineSource \<Rightarrow> string \<Rightarrow> string + (string \<times> string) list" where
  "cline_headers ic src expected =
     bind_res (read_servers ic (cs_path src)) (\<lambda>servers.
     bind_res (ok_or ''linked Cline server was removed'' (map_of servers (cs_server src))) (\<lambda>entry.
     bind_res (endpoint_of ic entry) (\<lambda>url.
       if url \<noteq> expected then Inl ''linked Cline URL changed; review and re-import it''
       else
         bind_res (transport entry) (\<lambda>tr.
         bind_res (case json_get ''headers'' tr of None \<Rightarrow> Inr [] | Some v \<Rightarrow> ok_or ''Cline headers must be a string map'' (string_map v)) (\<lambda>hs.
           if Option.bind (json_get ''oauth'' entry) (\<lambda>o'. Option.bind (json_get ''authorizationRequired'' o') as_bool) = Some True
           then Inl ''linked server requires authorization; reconnect it in Cline on the host''
           else map_res (check_header ic) (with_token entry hs))))))"

end
