(* ===== verification/Mcp_Oauth_World.thy ===== *)
theory Mcp_Oauth_World
  imports Mcp_Oauth
begin

text \<open>
  All histories of the OAuth sessions: requests of forwards, logins and callbacks in flight, disconnects and changes of the
  configuration, in any order, where a task may also go away at any wait. The refresh lock of a session is held by at most
  one flight.
\<close>

section \<open>Worlds\<close>

datatype flight = Refreshing uuid TokenRecord | Exchanging PendingLogin

record 'p oauth_world =
  ow :: "'p oauth_state"
  flights :: "nat \<Rightarrow> flight option"
  starting :: "(nat \<times> uuid \<times> string \<times> string option) list"
  arriving :: "(PendingLogin \<times> string option \<times> string option) list"
  closing :: "(nat \<times> uuid \<times> LoginStatus) list"

datatype oauth_op =
    Create string string
  | Start nat string "string option"
  | Started nat clock "nat \<Rightarrow> WebUrl \<Rightarrow> oauth_reply option"
  | Request clock "string option" nat
  | Refreshed nat clock "oauth_reply option"
  | Callback string "string option" "string option"
  | Enter nat clock
  | Exchanged nat clock "oauth_reply option"
  | Report nat
  | Go_away nat nat nat nat
  | Disconnect nat
  | Retire nat
  | Ask_status clock nat
  | Other_secret string string

definition without_nth :: "nat \<Rightarrow> 'a list \<Rightarrow> 'a list" where
  "without_nth n xs = take n xs @ drop (Suc n) xs"

definition live_session :: "'p oauth_state \<Rightarrow> string \<Rightarrow> bool" where
  "live_session st name \<longleftrightarrow> list_ex (\<lambda>s. sess_name s = name \<and> \<not> retired s) (sessions st)"

definition known :: "'p oauth_world \<Rightarrow> nat \<Rightarrow> bool" where
  "known w i \<longleftrightarrow> i < length (sessions (ow w))"

text \<open>The registry replaces the session of a name only after it retired the old one.\<close>

fun oauth_step :: "oauth_code \<Rightarrow> 'p saver \<Rightarrow> oauth_op \<Rightarrow> 'p oauth_world \<Rightarrow> 'p oauth_world" where
  "oauth_step oc save (Create name url) w =
     (if live_session (ow w) name then w else w\<lparr>ow := snd (new_session name url (ow w))\<rparr>)"
| "oauth_step oc save (Start i redir scope) w =
     (if \<not> known w i \<or> flights w i \<noteq> None then w
      else case begin_login i (ow w) of
          (Inl _, _) \<Rightarrow> w
        | (Inr g, st) \<Rightarrow> w\<lparr>ow := st, starting := (i, g, redir, scope) # starting w\<rparr>)"
| "oauth_step oc save (Started n t ask) w =
     (if length (starting w) \<le> n then w
      else case starting w ! n of (i, g, redir, scope) \<Rightarrow>
        w\<lparr>ow := snd (start_login oc t ask i g redir scope (ow w)), starting := without_nth n (starting w)\<rparr>)"
| "oauth_step oc save (Request t rejected i) w =
     (if \<not> known w i \<or> flights w i \<noteq> None then w
      else case token_begin oc t rejected i (ow w) of
          Token_refresh g r _ \<Rightarrow> w\<lparr>flights := (flights w)(i \<mapsto> Refreshing g r)\<rparr>
        | _ \<Rightarrow> w)"
| "oauth_step oc save (Refreshed i t reply) w =
     (case flights w i of
        Some (Refreshing g r) \<Rightarrow> w\<lparr>ow := snd (token_finish oc save t i g r reply (ow w)), flights := (flights w)(i := None)\<rparr>
      | _ \<Rightarrow> w)"
| "oauth_step oc save (Callback state code error) w =
     (case take_login state (ow w) of
        (Inl _, _) \<Rightarrow> w
      | (Inr l, st) \<Rightarrow> w\<lparr>ow := st, arriving := (l, code, error) # arriving w\<rparr>)"
| "oauth_step oc save (Enter n t) w =
     (if length (arriving w) \<le> n then w
      else case arriving w ! n of (l, code, error) \<Rightarrow>
        if flights w (pl_session l) \<noteq> None then w
        else case check_login t l code error (ow w) of
            Inl e \<Rightarrow> w\<lparr>arriving := without_nth n (arriving w), closing := (pl_session l, pl_generation l, Login_failed e) # closing w\<rparr>
          | Inr _ \<Rightarrow> w\<lparr>arriving := without_nth n (arriving w), flights := (flights w)(pl_session l \<mapsto> Exchanging l)\<rparr>)"
| "oauth_step oc save (Exchanged i t reply) w =
     (case flights w i of
        Some (Exchanging l) \<Rightarrow>
          (case exchange_finish oc save t l reply (ow w) of
             (r, st) \<Rightarrow> w\<lparr>ow := st, flights := (flights w)(i := None), closing := (pl_session l, pl_generation l, login_outcome r) # closing w\<rparr>)
      | _ \<Rightarrow> w)"
| "oauth_step oc save (Report n) w =
     (if length (closing w) \<le> n then w
      else case closing w ! n of (i, g, how) \<Rightarrow> w\<lparr>ow := set_status i g how (ow w), closing := without_nth n (closing w)\<rparr>)"
| "oauth_step oc save (Go_away i a b c) w =
     w\<lparr>flights := (flights w)(i := None), starting := without_nth a (starting w), arriving := without_nth b (arriving w),
       closing := without_nth c (closing w)\<rparr>"
| "oauth_step oc save (Disconnect i) w = (if known w i then w\<lparr>ow := snd (disconnect save i (ow w))\<rparr> else w)"
| "oauth_step oc save (Retire i) w = (if known w i then w\<lparr>ow := snd (retire save i (ow w))\<rparr> else w)"
| "oauth_step oc save (Ask_status t i) w = (if known w i then w\<lparr>ow := snd (status_of t i (ow w))\<rparr> else w)"
| "oauth_step oc save (Other_secret k v) w =
     (if starts_with ''mcp-oauth:'' k then w
      else w\<lparr>ow := (ow w)\<lparr>tokens := snd (set_secret save (tokens (ow w)) k v)\<rparr>\<rparr>)"

definition oauth_start :: "'p Settings \<Rightarrow> uuid \<Rightarrow> 'p oauth_world" where
  "oauth_start cfg u =
     \<lparr>ow = \<lparr>sessions = [], tokens = cfg, pending_logins = [], login_status = [], next_uuid = u\<rparr>, flights = (\<lambda>_. None),
      starting = [], arriving = [], closing = []\<rparr>"

inductive oauth_reachable :: "oauth_code \<Rightarrow> 'p saver \<Rightarrow> 'p Settings \<Rightarrow> 'p oauth_world \<Rightarrow> bool" for oc save cfg where
  oauth_init: "oauth_reachable oc save cfg (oauth_start cfg u)"
| oauth_next: "oauth_reachable oc save cfg w \<Longrightarrow> oauth_reachable oc save cfg (oauth_step oc save op w)"

section \<open>Sessions over time\<close>

text \<open>What is in flight: the session and the generation it began with.\<close>

fun flight_owner :: "nat \<Rightarrow> flight \<Rightarrow> nat \<times> uuid" where
  "flight_owner i (Refreshing g _) = (i, g)"
| "flight_owner i (Exchanging l) = (pl_session l, pl_generation l)"

definition in_flight :: "'p oauth_world \<Rightarrow> (nat \<times> uuid) set" where
  "in_flight w =
     {x. \<exists>i f. flights w i = Some f \<and> x = flight_owner i f}
     \<union> (\<lambda>(i, g, _). (i, g)) ` set (starting w)
     \<union> (\<lambda>(_, l). (pl_session l, pl_generation l)) ` set (pending_logins (ow w))
     \<union> (\<lambda>(l, _). (pl_session l, pl_generation l)) ` set (arriving w)
     \<union> (\<lambda>(i, g, _). (i, g)) ` set (closing w)"

definition sess_step :: "'p oauth_state \<Rightarrow> 'p oauth_state \<Rightarrow> bool" where
  "sess_step st st' \<longleftrightarrow> length (sessions st') = length (sessions st) \<and> next_uuid st \<le> next_uuid st'
     \<and> (\<forall>i < length (sessions st). sess_name (sessions st' ! i) = sess_name (sessions st ! i)
          \<and> sess_url (sessions st' ! i) = sess_url (sessions st ! i)
          \<and> (retired (sessions st ! i) \<longrightarrow> retired (sessions st' ! i))
          \<and> (generation (sessions st' ! i) = generation (sessions st ! i)
             \<or> next_uuid st \<le> generation (sessions st' ! i) \<and> generation (sessions st' ! i) < next_uuid st'))"

lemma sess_step_same: "sessions st' = sessions st \<Longrightarrow> next_uuid st \<le> next_uuid st' \<Longrightarrow> sess_step st st'"
  by (simp add: sess_step_def)

lemma sess_step_set:
  assumes "sessions st' = (sessions st)[i := s]" and "next_uuid st \<le> next_uuid st'" and "sess_name s = sess_name (sessions st ! i)"
    and "sess_url s = sess_url (sessions st ! i)" and "retired (sessions st ! i) \<longrightarrow> retired s"
    and "generation s = generation (sessions st ! i) \<or> next_uuid st \<le> generation s \<and> generation s < next_uuid st'"
  shows "sess_step st st'"
proof -
  have "retired (sessions st' ! k) \<or> \<not> retired (sessions st ! k)" "sess_name (sessions st' ! k) = sess_name (sessions st ! k)"
    "sess_url (sessions st' ! k) = sess_url (sessions st ! k)"
    "generation (sessions st' ! k) = generation (sessions st ! k)
      \<or> next_uuid st \<le> generation (sessions st' ! k) \<and> generation (sessions st' ! k) < next_uuid st'"
    if "k < length (sessions st)" for k
    using assms that by (cases "k = i"; auto)+
  then show ?thesis using assms(1,2) by (auto simp: sess_step_def)
qed

lemma superseded_stays:
  assumes "sess_step st st'" and "i < length (sessions st)" and "g < next_uuid st" and "superseded (sessions st ! i) g"
  shows "superseded (sessions st' ! i) g"
  using assms unfolding sess_step_def superseded_def by (metis leD)

lemma set_session_simps [simp]:
  "sessions (set_session i s st) = (sessions st)[i := s]" "tokens (set_session i s st) = tokens st"
  "pending_logins (set_session i s st) = pending_logins st" "login_status (set_session i s st) = login_status st"
  "next_uuid (set_session i s st) = next_uuid st"
  by (simp_all add: set_session_def)

named_theorems oauth_parts

lemma begin_login_parts [oauth_parts]: "sess_step st (snd (begin_login i st))"
  "tokens (snd (begin_login i st)) = tokens st" "pending_logins (snd (begin_login i st)) = pending_logins st"
  by (auto simp: begin_login_def Let_def sess_step_same intro!: sess_step_set [where i = i and s = "(sessions st ! i)\<lparr>generation := next_uuid st\<rparr>"])

lemma store_token_parts [oauth_parts]: "sess_step st (snd (store_token oc save i g r nl st))"
  "pending_logins (snd (store_token oc save i g r nl st)) = pending_logins st"
  by (auto simp: store_token_def Let_def sess_step_same split: sum.splits prod.splits
      intro!: sess_step_set [where i = i and s = "(sessions st ! i)\<lparr>connection_epoch := next_uuid st\<rparr>"])

lemma store_token_result:
  "store_token oc save i g r nl st = (ru, st') \<Longrightarrow> sess_step st st' \<and> pending_logins st' = pending_logins st"
  by (metis store_token_parts snd_conv)

lemma token_finish_parts [oauth_parts]: "sess_step st (snd (token_finish oc save t i g r reply st))"
  "pending_logins (snd (token_finish oc save t i g r reply st)) = pending_logins st"
  by (auto simp: token_finish_def sess_step_same split: sum.splits prod.splits dest!: store_token_result)

lemma exchange_finish_parts [oauth_parts]: "sess_step st (snd (exchange_finish oc save t l reply st))"
  "pending_logins (snd (exchange_finish oc save t l reply st)) = pending_logins st"
  using store_token_parts by (auto simp: exchange_finish_def sess_step_same split: sum.splits)

lemma disconnect_parts [oauth_parts]: "sess_step st (snd (disconnect save i st))"
  "pending_logins (snd (disconnect save i st)) = pending_logins st"
  by (auto simp: disconnect_def Let_def sess_step_same split: prod.splits
      intro!: sess_step_set [where i = i and s = "(sessions st ! i)\<lparr>generation := next_uuid st, connection_epoch := next_uuid st + 1\<rparr>"])

lemma retire_parts [oauth_parts]: "sess_step st (snd (retire save i st))"
  "pending_logins (snd (retire save i st)) = pending_logins st"
  by (auto simp: retire_def Let_def sess_step_same split: prod.splits sum.splits
      intro!: sess_step_set [where i = i and s = "(sessions st ! i)\<lparr>retired := True, generation := next_uuid st\<rparr>"])

lemma set_status_parts [oauth_parts]: "sessions (set_status i g how st) = sessions st" "next_uuid (set_status i g how st) = next_uuid st"
  "tokens (set_status i g how st) = tokens st" "pending_logins (set_status i g how st) = pending_logins st"
  by (simp_all add: set_status_def Let_def)

lemma status_of_parts [oauth_parts]: "sessions (snd (status_of t i st)) = sessions st" "next_uuid (snd (status_of t i st)) = next_uuid st"
  "tokens (snd (status_of t i st)) = tokens st" "set (pending_logins (snd (status_of t i st))) \<subseteq> set (pending_logins st)"
  by (auto simp: status_of_def Let_def)

lemma take_login_parts [oauth_parts]: "sessions (snd (take_login x st)) = sessions st" "next_uuid (snd (take_login x st)) = next_uuid st"
  "tokens (snd (take_login x st)) = tokens st" "set (pending_logins (snd (take_login x st))) \<subseteq> set (pending_logins st)"
  by (auto simp: take_login_def AList.delete_eq split: option.splits)

lemma publish_login_parts [oauth_parts]: "sessions (snd (publish_login oc t i g redir scope p st)) = sessions st"
  "next_uuid st \<le> next_uuid (snd (publish_login oc t i g redir scope p st))"
  "tokens (snd (publish_login oc t i g redir scope p st)) = tokens st"
  by (simp_all add: publish_login_def Let_def split: sum.splits)

lemma publish_login_result:
  "publish_login oc t i g redir scope p st = (rl, st')
    \<Longrightarrow> sessions st' = sessions st \<and> next_uuid st \<le> next_uuid st' \<and> tokens st' = tokens st"
  by (metis publish_login_parts snd_conv)

lemma start_login_parts [oauth_parts]: "sessions (snd (start_login oc t ask i g redir scope st)) = sessions st"
  "next_uuid st \<le> next_uuid (snd (start_login oc t ask i g redir scope st))"
  "tokens (snd (start_login oc t ask i g redir scope st)) = tokens st"
  by (auto simp: start_login_def set_status_parts split: sum.splits prod.splits dest!: publish_login_result)

lemma new_session_parts [oauth_parts]:
  "tokens (snd (new_session name url st)) = tokens st" "pending_logins (snd (new_session name url st)) = pending_logins st"
  by (auto simp: new_session_def)

lemma sess_results:
  "begin_login i st = (r, st') \<Longrightarrow> sess_step st st'"
  "take_login x st = (rl, st') \<Longrightarrow> sess_step st st'"
  "exchange_finish oc save t l reply st = (ru, st') \<Longrightarrow> sess_step st st'"
  by (metis oauth_parts(1) snd_conv, metis sess_step_same take_login_parts(1,2) order_refl snd_conv, metis exchange_finish_parts(1) snd_conv)

lemma step_sessions:
  obtains "sess_step (ow w) (ow (oauth_step oc save op w))"
  | name url where "op = Create name url" "\<not> live_session (ow w) name" "oauth_step oc save op w = w\<lparr>ow := snd (new_session name url (ow w))\<rparr>"
proof (cases "\<exists>name url. op = Create name url \<and> \<not> live_session (ow w) name")
  case False
  then have "sess_step (ow w) (ow (oauth_step oc save op w))"
    by (cases op) (auto simp: known_def sess_step_same oauth_parts split: sum.splits prod.splits token_start.splits option.splits flight.splits
      dest: sess_results)
  then show thesis by (rule that(1))
qed (use that(2) in auto)

lemma set_update_subset: "set (AList.update k v m) \<subseteq> insert (k, v) (set m)"
  by (induction m) auto

lemma publish_login_pending:
  assumes "publish_login oc t i g redir scope p st = (rl, st')" and "(k, l) \<in> set (pending_logins st')"
  shows "(k, l) \<in> set (pending_logins st) \<or> pl_session l = i \<and> pl_generation l = g \<and> pl_discovery l = pr_discovery p"
proof -
  note sub = set_update_subset
  show ?thesis
    using assms by (auto simp: publish_login_def Let_def split: sum.splits if_splits dest!: subsetD [OF sub])
qed

lemma start_login_pending:
  assumes "(k, l) \<in> set (pending_logins (snd (start_login oc t ask i g redir scope st)))"
  shows "(k, l) \<in> set (pending_logins st) \<or> pl_session l = i \<and> pl_generation l = g
    \<and> (\<exists>p. prepare_login oc ask redir (sess_url (sessions st ! i)) = Inr p \<and> pl_discovery l = pr_discovery p)"
  using assms by (auto simp: start_login_def set_status_parts split: sum.splits prod.splits dest!: publish_login_pending)

lemma set_without_nth: "set (without_nth n xs) \<subseteq> set xs"
  unfolding without_nth_def using set_take_subset set_drop_subset by fastforce

text \<open>A task comes into being by \<open>Start\<close> or \<open>Request\<close>; all others hand their session and generation on.\<close>

definition begins :: "oauth_code \<Rightarrow> oauth_op \<Rightarrow> 'p oauth_world \<Rightarrow> nat \<Rightarrow> uuid \<Rightarrow> bool" where
  "begins oc op w i g \<longleftrightarrow> i < length (sessions (ow w)) \<and>
     ((\<exists>redir scope. op = Start i redir scope) \<and> g = next_uuid (ow w) \<and> next_uuid (ow w) < next_uuid (snd (begin_login i (ow w)))
      \<or> (\<exists>t rejected r post. op = Request t rejected i \<and> token_begin oc t rejected i (ow w) = Token_refresh g r post))"

lemma begin_login_Inr: "begin_login i st = (Inr g, st') \<Longrightarrow> g = next_uuid st \<and> next_uuid st < next_uuid st' \<and> st' = snd (begin_login i st)"
  by (auto simp: begin_login_def Let_def split: if_splits)

lemma take_login_Inr: "take_login x st = (Inr l, st') \<Longrightarrow> (x, l) \<in> set (pending_logins st) \<and> set (pending_logins st') \<subseteq> set (pending_logins st)"
  by (auto simp: take_login_def AList.delete_eq split: option.splits dest: map_of_SomeD)

lemma in_flight_cases:
  assumes "x \<in> in_flight w"
  obtains i f where "flights w i = Some f" "x = flight_owner i f"
    | i g q where "(i, g, q) \<in> set (starting w)" "x = (i, g)"
    | k l where "(k, l) \<in> set (pending_logins (ow w))" "x = (pl_session l, pl_generation l)"
    | l q where "(l, q) \<in> set (arriving w)" "x = (pl_session l, pl_generation l)"
    | i g q where "(i, g, q) \<in> set (closing w)" "x = (i, g)"
  using assms unfolding in_flight_def by (auto simp: split_beta)

lemma in_flightI:
  "flights w i = Some f \<Longrightarrow> flight_owner i f \<in> in_flight w"
  "(i, g, q) \<in> set (starting w) \<Longrightarrow> (i, g) \<in> in_flight w"
  "(k, l) \<in> set (pending_logins (ow w)) \<Longrightarrow> (pl_session l, pl_generation l) \<in> in_flight w"
  "(l, r) \<in> set (arriving w) \<Longrightarrow> (pl_session l, pl_generation l) \<in> in_flight w"
  "(i, g, h) \<in> set (closing w) \<Longrightarrow> (i, g) \<in> in_flight w"
proof -
  show "flights w i = Some f \<Longrightarrow> flight_owner i f \<in> in_flight w" by (auto simp: in_flight_def)
  show "(i, g, q) \<in> set (starting w) \<Longrightarrow> (i, g) \<in> in_flight w"
    by (drule imageI [where f = "\<lambda>(i, g, _). (i, g)"]) (simp add: in_flight_def)
  show "(k, l) \<in> set (pending_logins (ow w)) \<Longrightarrow> (pl_session l, pl_generation l) \<in> in_flight w"
    by (drule imageI [where f = "\<lambda>(_, l). (pl_session l, pl_generation l)"]) (simp add: in_flight_def)
  show "(l, r) \<in> set (arriving w) \<Longrightarrow> (pl_session l, pl_generation l) \<in> in_flight w"
    by (drule imageI [where f = "\<lambda>(l, _). (pl_session l, pl_generation l)"]) (simp add: in_flight_def)
  show "(i, g, h) \<in> set (closing w) \<Longrightarrow> (i, g) \<in> in_flight w"
    by (drule imageI [where f = "\<lambda>(i, g, _). (i, g)"]) (simp add: in_flight_def)
qed


lemma step_in_flight:
  assumes "x \<in> in_flight (oauth_step oc save op w)"
  shows "x \<in> in_flight w \<or> begins oc op w (fst x) (snd x)"
  using assms
proof (cases op)
  case (Create name url)
  then show ?thesis using assms by (auto simp: in_flight_def oauth_parts split: if_splits)
next
  case (Start i redir scope)
  show ?thesis
  proof (cases "known w i \<and> flights w i = None")
    case True
    then show ?thesis
      using assms begin_login_parts(3) [of i "ow w"] unfolding Start
      by (auto simp: known_def in_flight_def begins_def image_iff split: sum.splits prod.splits dest!: begin_login_Inr)
  qed (use assms Start in auto)
next
  case (Started n t ask)
  show ?thesis
  proof (cases "n < length (starting w)")
    case True
    obtain i g redir scope where s: "starting w ! n = (i, g, redir, scope)" by (cases "starting w ! n")
    then have here: "(i, g) \<in> in_flight w" using True nth_mem [OF True] by (auto intro: in_flightI(2))
    have new: "(pl_session l, pl_generation l) \<in> in_flight w"
      if "(k, l) \<in> set (pending_logins (snd (start_login oc t ask i g redir scope (ow w))))" for k l
      using start_login_pending [OF that] here in_flightI(3) by auto
    from assms True s show ?thesis
      unfolding Started by (auto elim!: in_flight_cases intro: in_flightI new dest!: subsetD [OF set_without_nth])
  qed (use assms Started in auto)
next
  case (Request t rejected i)
  show ?thesis
  proof (cases "known w i \<and> flights w i = None")
    case True
    then show ?thesis
      using assms unfolding Request
      by (auto simp: known_def begins_def split: token_start.splits if_splits elim!: in_flight_cases intro: in_flightI)
  qed (use assms Request in auto)
next
  case (Refreshed i t reply)
  then show ?thesis
    using assms by (auto simp: oauth_parts split: option.splits flight.splits if_splits elim!: in_flight_cases intro: in_flightI)
next
  case (Callback state code error)
  then show ?thesis
    using assms by (auto split: sum.splits prod.splits elim!: in_flight_cases intro: in_flightI dest!: take_login_Inr)
next
  case (Enter n t)
  show ?thesis
  proof (cases "n < length (arriving w)")
    case True
    obtain l code error where s: "arriving w ! n = (l, code, error)" by (cases "arriving w ! n")
    then have here: "(pl_session l, pl_generation l) \<in> in_flight w" using True nth_mem [OF True] by (auto intro: in_flightI(4))
    from assms True s show ?thesis
      unfolding Enter by (auto simp: here in_flightI(1) split: if_splits sum.splits elim!: in_flight_cases intro: in_flightI(2-5) dest!: subsetD [OF set_without_nth])
  qed (use assms Enter in auto)
next
  case (Exchanged i t reply)
  show ?thesis
  proof (cases "\<exists>l. flights w i = Some (Exchanging l)")
    case True
    then obtain l where l: "flights w i = Some (Exchanging l)" by blast
    then have here: "(pl_session l, pl_generation l) \<in> in_flight w" using in_flightI(1) by fastforce
    from assms l exchange_finish_parts(2) [of oc save t l reply "ow w"] show ?thesis
      unfolding Exchanged by (auto split: prod.splits if_splits elim!: in_flight_cases intro: in_flightI here)
  qed (use assms Exchanged in \<open>auto split: option.splits flight.splits\<close>)
next
  case (Report n)
  then show ?thesis
    using assms by (auto simp: set_status_parts split: prod.splits if_splits elim!: in_flight_cases intro: in_flightI dest!: subsetD [OF set_without_nth])
next
  case (Go_away i a b c)
  then show ?thesis
    using assms by (auto split: if_splits elim!: in_flight_cases intro: in_flightI dest!: subsetD [OF set_without_nth])
next
  case (Ask_status t i)
  then show ?thesis
    using assms status_of_parts(4) [of t i "ow w"] by (auto split: if_splits elim!: in_flight_cases intro: in_flightI dest: subsetD)
qed (auto simp: in_flight_def oauth_parts split: if_splits)


section \<open>Order\<close>

definition one_live :: "Session list \<Rightarrow> bool" where
  "one_live ss \<longleftrightarrow> (\<forall>i j. i < length ss \<longrightarrow> j < length ss \<longrightarrow> \<not> retired (ss ! i) \<longrightarrow> \<not> retired (ss ! j)
     \<longrightarrow> sess_name (ss ! i) = sess_name (ss ! j) \<longrightarrow> i = j)"

definition world_wf :: "'p oauth_world \<Rightarrow> bool" where
  "world_wf w \<longleftrightarrow> one_live (sessions (ow w)) \<and> (\<forall>s \<in> set (sessions (ow w)). generation s < next_uuid (ow w))
     \<and> (\<forall>(i, g) \<in> in_flight w. i < length (sessions (ow w)) \<and> g < next_uuid (ow w))"

lemma token_begin_refresh:
  assumes "token_begin oc t rejected i st = Token_refresh g r post"
  shows "g = generation (sessions st ! i)" "\<not> retired (sessions st ! i)"
    "load_token oc (tokens st) (sess_name (sessions st ! i)) = Some r" "server_url r = sess_url (sessions st ! i)"
    "secure_url oc (token_endpoint r) = Inr (fp_url post)"
  using assms by (auto simp: token_begin_def Let_def split: if_splits option.splits sum.splits)

lemma one_live_step:
  assumes "one_live (sessions st)" and "sess_step st st'" and "length (sessions st') = length (sessions st)"
  shows "one_live (sessions st')"
  using assms unfolding one_live_def sess_step_def by metis

end
