(* ===== verification/Mcp.thy ===== *)
theory Mcp
  imports Mcp_Import Mcp_Oauth_World Web_Guest
begin

text \<open>
  \<open>mcp.rs\<close> and the MCP endpoint of \<open>web.rs\<close>: the registry of forwards, and a message of a guest from its identity to the
  answer. The network is the replies, numbered by the message and whether it is repeated; between two critical sections
  other tasks do anything (\<open>me_gap\<close>). The OAuth sessions are those of theory \<open>Mcp_Oauth\<close>, shared by reference.
\<close>

section \<open>Forwards\<close>

record ForwardConfig =
  fc_name :: string
  fc_url :: string
  fc_bearer_env :: string
  fc_scope :: "string option"
  fc_tools :: "string list"
  fc_guests :: "string list option"
  fc_cline :: "ClineSource option"
  fc_oauth :: bool

record ForwardR =
  fw_config :: ForwardConfig
  fw_cell :: nat
  fw_oauth :: nat

text \<open>The file is its value when it parses.\<close>

datatype forwards_file = No_forwards | Bad_forwards | Forwards "ForwardConfig list"

record 'p mcp_state =
  forwards :: "(string, ForwardR) alist"
  mcp_file :: forwards_file
  cells :: "(uuid \<times> string) option list"
  oauth :: "'p oauth_state"

record 'p mcp_code =
  mc_oauth :: oauth_code
  mc_import :: import_code
  mc_save :: "'p saver"
  mc_env :: "string \<Rightarrow> string option"
  mc_json :: "string \<Rightarrow> Json option"

definition forward_name_ok :: "string \<Rightarrow> bool" where
  "forward_name_ok n \<longleftrightarrow> n \<noteq> [] \<and> list_all (\<lambda>c. is_ascii_alphanumeric c \<or> c \<in> set ''-_'') n"

definition validate_link :: "'p mcp_code \<Rightarrow> ForwardConfig \<Rightarrow> string + unit" where
  "validate_link mc c =
     (case fc_cline c of
        None \<Rightarrow> Inr ()
      | Some src \<Rightarrow>
          if \<not> imp_absolute (mc_import mc) (cs_path src) \<or> cs_server src = []
          then Inl ''Cline link requires an absolute host path and server name''
          else if \<not> fc_oauth c \<and> (fc_bearer_env c \<noteq> [] \<or> fc_scope c \<noteq> None)
          then Inl ''Cline-linked authentication is owned by Cline; do not also set bearer_env or scope''
          else Inr ())"

definition validate_config :: "'p mcp_code \<Rightarrow> ForwardConfig \<Rightarrow> string list \<Rightarrow> string + string list" where
  "validate_config mc c names =
     (if \<not> forward_name_ok (fc_name c) then Inl (''forward names must contain only letters, digits, '-' or '' @ [ch 39, CHR 0x5F, ch 39])
      else if fc_name c \<in> set names then Inl (''duplicate MCP forward '' @ [ch 39] @ fc_name c @ [ch 39])
      else
        bind_res (ok_or ''invalid MCP URL'' (oc_url (mc_oauth mc) (fc_url c))) (\<lambda>u.
          if \<not> http_url u then Inl ''MCP URL must be HTTP(S) without embedded credentials or fragment''
          else if [] \<in> set (fc_tools c) \<or> opt_any (\<lambda>gs. [] \<in> set gs) (fc_guests c) then Inl ''tool and guest names must not be empty''
          else bind_res (validate_link mc c) (\<lambda>_. Inr (fc_name c # names))))"

definition validate_configs :: "'p mcp_code \<Rightarrow> ForwardConfig list \<Rightarrow> string + unit" where
  "validate_configs mc cs = map_sum id (\<lambda>_. ()) (fold_res (validate_config mc) cs [])"

definition load_forwards :: "forwards_file \<Rightarrow> string + ForwardConfig list" where
  "load_forwards f = (case f of No_forwards \<Rightarrow> Inr [] | Bad_forwards \<Rightarrow> Inl ''parse mcp-forwards.json'' | Forwards cs \<Rightarrow> Inr cs)"

text \<open>\<open>Forward::new\<close>: its own session and its own upstream session.\<close>

definition new_forward :: "ForwardConfig \<Rightarrow> 'p mcp_state \<Rightarrow> ForwardR \<times> 'p mcp_state" where
  "new_forward c m =
     (case new_session (fc_name c) (fc_url c) (oauth m) of
        (i, st) \<Rightarrow> (\<lparr>fw_config = c, fw_cell = length (cells m), fw_oauth = i\<rparr>, m\<lparr>oauth := st, cells := cells m @ [None]\<rparr>))"

definition allows :: "ForwardR \<Rightarrow> string \<Rightarrow> bool" where
  "allows f tool \<longleftrightarrow> tool \<in> set (fc_tools (fw_config f))"

definition allows_guest :: "ForwardR \<Rightarrow> string \<Rightarrow> bool" where
  "allows_guest f guest \<longleftrightarrow> opt_all (\<lambda>gs. guest \<in> set gs) (fc_guests (fw_config f))"

definition same_upstream :: "ForwardR \<Rightarrow> ForwardConfig \<Rightarrow> bool" where
  "same_upstream f c \<longleftrightarrow> fc_url (fw_config f) = fc_url c \<and> fc_bearer_env (fw_config f) = fc_bearer_env c
     \<and> fc_scope (fw_config f) = fc_scope c \<and> fc_cline (fw_config f) = fc_cline c \<and> fc_oauth (fw_config f) = fc_oauth c"

section \<open>The registry\<close>

definition rebuilt_forward :: "(string, ForwardR) alist \<Rightarrow> ForwardConfig \<Rightarrow> 'p mcp_state \<Rightarrow> ForwardR \<times> 'p mcp_state" where
  "rebuilt_forward cur c m =
     (case map_of cur (fc_name c) of
        None \<Rightarrow> new_forward c m
      | Some old \<Rightarrow>
          if fw_config old = c then (old, m)
          else if same_upstream old c then (old\<lparr>fw_config := c\<rparr>, m)
          else new_forward c m)"

fun rebuild :: "(string, ForwardR) alist \<Rightarrow> ForwardConfig list \<Rightarrow> 'p mcp_state \<Rightarrow> (string, ForwardR) alist \<times> 'p mcp_state" where
  "rebuild cur [] m = ([], m)"
| "rebuild cur (c # cs) m =
     (case rebuilt_forward cur c m of (f, m1) \<Rightarrow>
      case rebuild cur cs m1 of (fs, m2) \<Rightarrow> (AList.update (fc_name c) f fs, m2))"

fun retire_all :: "'p saver \<Rightarrow> nat list \<Rightarrow> 'p oauth_state \<Rightarrow> (string + unit) \<times> 'p oauth_state" where
  "retire_all save [] st = (Inr (), st)"
| "retire_all save (i # is) st = (case retire save i st of (Inl e, st') \<Rightarrow> (Inl e, st') | (Inr _, st') \<Rightarrow> retire_all save is st')"

text \<open>The sessions that no rebuilt forward of the same name shares.\<close>

definition left_behind :: "(string, ForwardR) alist \<Rightarrow> (string, ForwardR) alist \<Rightarrow> nat list" where
  "left_behind cur rebuilt =
     map (fw_oauth \<circ> snd) (filter (\<lambda>(n, old). opt_all (\<lambda>new. fw_oauth old \<noteq> fw_oauth new) (map_of rebuilt n)) cur)"

definition publish_forwards :: "'p mcp_code \<Rightarrow> ForwardConfig list \<Rightarrow> 'p mcp_state \<Rightarrow> (string + nat) \<times> 'p mcp_state" where
  "publish_forwards mc cs m =
     (case rebuild (forwards m) cs m of
        (fs, m1) \<Rightarrow>
          (case retire_all (mc_save mc) (left_behind (forwards m) fs) (oauth m1) of
             (Inl e, st) \<Rightarrow> (Inl e, m1\<lparr>oauth := st\<rparr>)
           | (Inr _, st) \<Rightarrow> (Inr (length fs), m1\<lparr>oauth := st, forwards := fs\<rparr>)))"

definition reload_forwards :: "'p mcp_code \<Rightarrow> 'p mcp_state \<Rightarrow> (string + nat) \<times> 'p mcp_state" where
  "reload_forwards mc m =
     (case bind_res (load_forwards (mcp_file m)) (\<lambda>cs. map_sum id (\<lambda>_. cs) (validate_configs mc cs)) of
        Inl e \<Rightarrow> (Inl e, m) | Inr cs \<Rightarrow> publish_forwards mc cs m)"

definition write_forwards :: "io_fault \<Rightarrow> ForwardConfig list \<Rightarrow> 'p mcp_state \<Rightarrow> (string + unit) \<times> 'p mcp_state" where
  "write_forwards fault cs m = (case atomic_write fault (Forwards cs) (Some (mcp_file m)) of
     (r, f) \<Rightarrow> (r, m\<lparr>mcp_file := (case f of None \<Rightarrow> No_forwards | Some x \<Rightarrow> x)\<rparr>))"

definition save_forwards :: "'p mcp_code \<Rightarrow> io_fault \<Rightarrow> ForwardConfig list \<Rightarrow> 'p mcp_state \<Rightarrow> (string + nat) \<times> 'p mcp_state" where
  "save_forwards mc fault cs m =
     (case validate_configs mc cs of
        Inl e \<Rightarrow> (Inl e, m)
      | Inr _ \<Rightarrow> (case write_forwards fault cs m of (Inl e, m1) \<Rightarrow> (Inl e, m1) | (Inr _, m1) \<Rightarrow> publish_forwards mc cs m1))"

definition get_forward :: "string \<Rightarrow> 'p mcp_state \<Rightarrow> ForwardR option" where
  "get_forward n m = map_of (forwards m) n"

definition forward_configs :: "'p mcp_state \<Rightarrow> ForwardConfig list" where
  "forward_configs m = sort_key (\<lambda>c. map byte (fc_name c)) (map (fw_config \<circ> snd) (forwards m))"

definition enable_oauth :: "'p mcp_code \<Rightarrow> io_fault \<Rightarrow> string \<Rightarrow> string option \<Rightarrow> 'p mcp_state \<Rightarrow> (string + ForwardR) \<times> 'p mcp_state" where
  "enable_oauth mc fault n scope m =
     (let cs = forward_configs m in
      if list_all (\<lambda>c. fc_name c \<noteq> n) cs then (Inl ''unknown MCP forward'', m)
      else
        (let cs' = update_first (\<lambda>c. fc_name c = n) (\<lambda>c. c\<lparr>fc_oauth := True, fc_bearer_env := [], fc_scope := scope\<rparr>) cs in
         case save_forwards mc fault cs' m of
           (Inl e, m') \<Rightarrow> (Inl e, m')
         | (Inr _, m') \<Rightarrow> (ok_or ''forward disappeared'' (get_forward n m'), m')))"

definition validation_forward :: "'p mcp_code \<Rightarrow> ForwardConfig \<Rightarrow> 'p mcp_state \<Rightarrow> (string + ForwardR) \<times> 'p mcp_state" where
  "validation_forward mc c m =
     (case validate_configs mc [c] of
        Inl e \<Rightarrow> (Inl e, m)
      | Inr _ \<Rightarrow>
          if fc_oauth c
          then (ok_or ''Save this forward for OAuth and authorize it in Friendzone before validation''
                  (Option.bind (get_forward (fc_name c) m) (\<lambda>f. if fc_oauth (fw_config f) \<and> fc_url (fw_config f) = fc_url c then Some f else None)), m)
          else (case new_forward c m of (f, m') \<Rightarrow> (Inr f, m')))"


section \<open>Upstream\<close>

record mcp_reply =
  mr_status :: nat
  mr_session_id :: "string option"
  mr_content_type :: "string option"
  mr_text :: "string option"

record mcp_sent =
  ms_url :: string
  ms_bearer :: "string option"
  ms_headers :: "(string \<times> string) list"
  ms_session :: "string option"
  ms_message :: Json

type_synonym 'p mcp_broker = "AppState \<times> 'p mcp_state"

text \<open>What a call meets: the \<open>n\<close>-th message, first or repeated, has a reply, or the text of an error; so has a refresh for it.\<close>

record 'p mcp_env =
  me_clock :: clock
  me_gap :: "nat \<Rightarrow> bool \<Rightarrow> nat \<Rightarrow> 'p mcp_broker \<Rightarrow> 'p mcp_broker"
  me_reply :: "nat \<Rightarrow> bool \<Rightarrow> string + mcp_reply"
  me_refresh :: "nat \<Rightarrow> bool \<Rightarrow> oauth_reply option"

definition PROTOCOL_VERSION :: string where "PROTOCOL_VERSION = ''2025-03-26''"
definition BROKER_VERSION :: string where "BROKER_VERSION = ''0.1.0''"

definition with_context :: "string \<Rightarrow> string + 'a \<Rightarrow> string + 'a" where
  "with_context c r = map_sum (\<lambda>e. c @ '': '' @ e) id r"

text \<open>\<open>Session::token\<close>, with other tasks at its two waits.\<close>

definition get_token :: "'p mcp_code \<Rightarrow> 'p mcp_env \<Rightarrow> nat \<Rightarrow> bool \<Rightarrow> nat \<Rightarrow> string option \<Rightarrow> 'p mcp_broker \<Rightarrow> (string + string) \<times> 'p mcp_broker" where
  "get_token mc e n again i rejected b =
     (let b1 = me_gap e n again 0 b in
      case token_begin (mc_oauth mc) (me_clock e) rejected i (oauth (snd b1)) of
        Token_ready a \<Rightarrow> (Inr a, b1)
      | Token_error why \<Rightarrow> (Inl why, b1)
      | Token_refresh g r _ \<Rightarrow>
          (case me_gap e n again 1 b1 of
             (app, m) \<Rightarrow>
               (case token_finish (mc_oauth mc) (mc_save mc) (me_clock e) i g r (me_refresh e n again) (oauth m) of
                  (res, st) \<Rightarrow> (res, (app, m\<lparr>oauth := st\<rparr>)))))"

definition static_secret :: "'p mcp_state \<Rightarrow> ForwardR \<Rightarrow> string option" where
  "static_secret m f = secret (tokens (oauth m)) (''mcp:'' @ fc_name (fw_config f))"

definition static_bearer :: "'p mcp_code \<Rightarrow> 'p mcp_state \<Rightarrow> ForwardR \<Rightarrow> string + string" where
  "static_bearer mc m f =
     (case static_secret m f of
        Some t \<Rightarrow> Inr t
      | None \<Rightarrow> ok_or ''no OAuth session, stored token, or env var (connect it in settings)'' (mc_env mc (fc_bearer_env (fw_config f))))"

text \<open>The bearer, the headers, and the OAuth token that was sent.\<close>

type_synonym authentication = "string option \<times> (string \<times> string) list \<times> string option"

definition authenticate :: "'p mcp_code \<Rightarrow> 'p mcp_env \<Rightarrow> nat \<Rightarrow> ForwardR \<Rightarrow> 'p mcp_broker \<Rightarrow> (string + authentication) \<times> 'p mcp_broker" where
  "authenticate mc e n f b =
     (let c = fw_config f in
      if fc_oauth c
      then (case get_token mc e n False (fw_oauth f) None b of (r, b') \<Rightarrow> (map_sum id (\<lambda>t. (Some t, [], Some t)) r, b'))
      else case fc_cline c of
          Some src \<Rightarrow> (map_sum id (\<lambda>hs. (None, hs, None)) (cline_headers (mc_import mc) src (fc_url c)), b)
        | None \<Rightarrow>
            if fc_bearer_env c \<noteq> [] \<or> static_secret (snd b) f \<noteq> None
            then (map_sum id (\<lambda>t. (Some t, [], None)) (static_bearer mc (snd b) f), b)
            else (Inr (None, [], None), b))"

definition post_message :: "ForwardR \<Rightarrow> Json \<Rightarrow> string option \<Rightarrow> authentication \<Rightarrow> mcp_sent" where
  "post_message f msg sid au =
     \<lparr>ms_url = fc_url (fw_config f), ms_bearer = fst au, ms_headers = fst (snd au),
      ms_session = (if opt_any (\<lambda>s. s \<noteq> []) sid then sid else None), ms_message = msg\<rparr>"

text \<open>\<open>post_raw\<close>: a 401 of an OAuth token is answered by one refresh and one repetition.\<close>

definition post_raw :: "'p mcp_code \<Rightarrow> 'p mcp_env \<Rightarrow> nat \<Rightarrow> ForwardR \<Rightarrow> Json \<Rightarrow> string option \<Rightarrow> 'p mcp_broker
    \<Rightarrow> (string + mcp_reply) \<times> 'p mcp_broker \<times> mcp_sent list" where
  "post_raw mc e n f msg sid b =
     (case authenticate mc e n f b of
        (Inl why, b1) \<Rightarrow> (Inl why, b1, [])
      | (Inr au, b1) \<Rightarrow>
          (let first = post_message f msg sid au in
           case with_context ''upstream MCP request'' (me_reply e n False) of
             Inl why \<Rightarrow> (Inl why, b1, [first])
           | Inr r \<Rightarrow>
               if mr_status r = 401 \<and> snd (snd au) \<noteq> None
               then (case get_token mc e n True (fw_oauth f) (snd (snd au)) b1 of
                       (Inl why, b2) \<Rightarrow> (Inl why, b2, [first])
                     | (Inr t, b2) \<Rightarrow>
                         (with_context ''upstream MCP request'' (me_reply e n True), b2, [first, post_message f msg sid (Some t, [], Some t)]))
               else (Inr r, b1, [first])))"

definition last_data :: "'p mcp_code \<Rightarrow> string \<Rightarrow> Json option" where
  "last_data mc txt =
     (case rev (List.map_filter (\<lambda>l. Option.bind (strip_prefix ''data:'' l) (\<lambda>d. mc_json mc (str_trim d))) (str_lines txt)) of
        [] \<Rightarrow> None | j # _ \<Rightarrow> Some j)"

definition parse_body :: "'p mcp_code \<Rightarrow> mcp_reply \<Rightarrow> string + Json" where
  "parse_body mc r =
     (case mr_text r of
        None \<Rightarrow> Inl ''read upstream body''
      | Some txt \<Rightarrow>
          if \<not> http_success (mr_status r)
          then Inl (''upstream returned '' @ oc_status (mc_oauth mc) (mr_status r)
                 @ ''; authorize this forward in the host Friendzone UI, not in the guest'')
          else if opt_any (starts_with ''text/event-stream'') (mr_content_type r)
          then ok_or ''no JSON-RPC message in SSE response'' (last_data mc txt)
          else if txt = [] then Inr JNull
          else ok_or ''parse upstream JSON'' (mc_json mc txt))"

definition init_message :: Json where
  "init_message = JObject [(''jsonrpc'', JString ''2.0''), (''id'', JString ''fz-init''), (''method'', JString ''initialize''),
     (''params'', JObject [(''protocolVersion'', JString PROTOCOL_VERSION), (''capabilities'', JObject []),
        (''clientInfo'', JObject [(''name'', JString ''friendzone-broker''), (''version'', JString BROKER_VERSION)])])]"

definition initialized_message :: Json where
  "initialized_message = JObject [(''jsonrpc'', JString ''2.0''), (''method'', JString ''notifications/initialized'')]"

definition initialize_upstream :: "'p mcp_code \<Rightarrow> 'p mcp_env \<Rightarrow> ForwardR \<Rightarrow> 'p mcp_broker \<Rightarrow> (string + string) \<times> 'p mcp_broker \<times> mcp_sent list" where
  "initialize_upstream mc e f b =
     (case post_raw mc e 0 f init_message None b of
        (Inl why, b1, sent) \<Rightarrow> (with_context ''upstream initialize'' (Inl why), b1, sent)
      | (Inr r, b1, sent) \<Rightarrow>
          (let sid = (case mr_session_id r of None \<Rightarrow> [] | Some s \<Rightarrow> s) in
           case with_context ''initialize response'' (parse_body mc r) of
             Inl why \<Rightarrow> (Inl why, b1, sent)
           | Inr j \<Rightarrow>
               if json_get ''error'' j \<noteq> None \<or> json_get ''result'' j = None
               then (Inl ''upstream rejected MCP initialization'', b1, sent)
               else (case post_raw mc e 1 f initialized_message (Some sid) b1 of
                       (Inl why, b2, sent2) \<Rightarrow> (with_context ''upstream initialized notification'' (Inl why), b2, sent @ sent2)
                     | (Inr r2, b2, sent2) \<Rightarrow>
                         (if 400 \<le> mr_status r2 \<and> mr_status r2 < 600 then Inl ''upstream rejected initialized notification'' else Inr sid,
                          b2, sent @ sent2))))"

definition call_upstream :: "'p mcp_code \<Rightarrow> 'p mcp_env \<Rightarrow> ForwardR \<Rightarrow> Json \<Rightarrow> 'p mcp_broker \<Rightarrow> (string + Json) \<times> 'p mcp_broker \<times> mcp_sent list" where
  "call_upstream mc e f msg b0 =
     (let b = me_gap e 0 False 2 b0;
          epoch = connection_epoch (sessions (oauth (snd b)) ! fw_oauth f);
          ready = Option.bind (cells (snd b) ! fw_cell f) (\<lambda>(g, s). if g = epoch then Some s else None) in
      case (case ready of
              Some s \<Rightarrow> (Inr s, b, [])
            | None \<Rightarrow>
                (case initialize_upstream mc e f b of
                   (Inl why, b1, sent) \<Rightarrow> (Inl why, b1, sent)
                 | (Inr s, (app, m), sent) \<Rightarrow> (Inr s, (app, m\<lparr>cells := (cells m)[fw_cell f := Some (epoch, s)]\<rparr>), sent))) of
        (Inl why, b1, sent) \<Rightarrow> (Inl why, b1, sent)
      | (Inr s, b1, sent) \<Rightarrow>
          (case post_raw mc e 2 f msg (Some s) b1 of
             (Inl why, b2, sent2) \<Rightarrow> (Inl why, b2, sent @ sent2)
           | (Inr r, b2, sent2) \<Rightarrow> (parse_body mc r, b2, sent @ sent2)))"

section \<open>A message of a guest\<close>

definition error_response :: "Json \<Rightarrow> int \<Rightarrow> string \<Rightarrow> Json" where
  "error_response i code msg = JObject [(''jsonrpc'', JString ''2.0''), (''id'', i),
     (''error'', JObject [(''code'', JInt code), (''message'', JString msg)])]"

definition json_amend :: "string \<Rightarrow> (Json \<Rightarrow> Json) \<Rightarrow> Json \<Rightarrow> Json" where
  "json_amend k g j = (case j of JObject m \<Rightarrow> JObject (map (\<lambda>(a, v). (a, if a = k then g v else v)) m) | _ \<Rightarrow> j)"

definition allowed_tool :: "ForwardR \<Rightarrow> Json \<Rightarrow> bool" where
  "allowed_tool f tool = opt_any (allows f) (Option.bind (json_get ''name'' tool) as_str)"

definition filter_list_result :: "ForwardR \<Rightarrow> Json \<Rightarrow> Json" where
  "filter_list_result f = json_amend ''tools'' (\<lambda>v. case v of JArray xs \<Rightarrow> JArray (filter (allowed_tool f) xs) | _ \<Rightarrow> v)"

definition tool_of :: "Json \<Rightarrow> string" where
  "tool_of msg = (case Option.bind (Option.bind (json_get ''params'' msg) (json_get ''name'')) as_str of None \<Rightarrow> [] | Some t \<Rightarrow> t)"

definition initialize_answer :: "Json \<Rightarrow> Json" where
  "initialize_answer i = JObject [(''jsonrpc'', JString ''2.0''), (''id'', i),
     (''result'', JObject [(''protocolVersion'', JString PROTOCOL_VERSION), (''capabilities'', JObject [(''tools'', JObject [])]),
        (''serverInfo'', JObject [(''name'', JString ''friendzone''), (''version'', JString BROKER_VERSION)])])]"

definition forwarded :: "Json \<Rightarrow> (Json \<Rightarrow> Json) \<Rightarrow> (string + Json) \<times> 'b \<times> mcp_sent list \<Rightarrow> (Verdict \<times> Json) \<times> 'b \<times> mcp_sent list" where
  "forwarded i g res =
     (case res of
        (Inr j, b, sent) \<Rightarrow> ((Allowed_verdict, g j), b, sent)
      | (Inl why, b, sent) \<Rightarrow> ((Blocked_verdict, error_response i (-32603) (''upstream: '' @ why)), b, sent))"

definition dispatch :: "'p mcp_code \<Rightarrow> 'p mcp_env \<Rightarrow> ForwardR \<Rightarrow> string \<Rightarrow> Json \<Rightarrow> Json \<Rightarrow> 'p mcp_broker
    \<Rightarrow> (Verdict \<times> Json) \<times> 'p mcp_broker \<times> mcp_sent list" where
  "dispatch mc e f method i msg b =
     (if method = ''initialize'' then ((Allowed_verdict, initialize_answer i), b, [])
      else if method \<in> {''notifications/initialized'', ''notifications/cancelled''} then ((Allowed_verdict, JNull), b, [])
      else if method = ''ping''
      then ((Allowed_verdict, JObject [(''jsonrpc'', JString ''2.0''), (''id'', i), (''result'', JObject [])]), b, [])
      else if method = ''tools/list'' then forwarded i (json_amend ''result'' (filter_list_result f)) (call_upstream mc e f msg b)
      else if method = ''tools/call''
      then (if \<not> allows f (tool_of msg)
            then ((Blocked_verdict, error_response i (-32602) (''tool '' @ [ch 39] @ tool_of msg @ [ch 39] @ '' is not forwarded'')), b, [])
            else forwarded i id (call_upstream mc e f msg b))
      else ((Blocked_verdict, error_response i (-32601) (''method '' @ [ch 39] @ method @ [ch 39] @ '' is not forwarded'')), b, []))"

definition method_of :: "Json \<Rightarrow> string" where
  "method_of msg = (case Option.bind (json_get ''method'' msg) as_str of None \<Rightarrow> [] | Some s \<Rightarrow> s)"

definition id_of :: "Json \<Rightarrow> Json" where
  "id_of msg = (case json_get ''id'' msg of None \<Rightarrow> JNull | Some i \<Rightarrow> i)"

text \<open>The three tests in front of a forward, with the touch of the guest that the second makes.\<close>

definition mcp_denial :: "clock \<Rightarrow> ForwardR \<Rightarrow> string \<Rightarrow> IpAddr \<Rightarrow> AppState \<Rightarrow> string option \<times> AppState" where
  "mcp_denial t f c peer app =
     (if is_killed app c then (Some ''container is killed'', app)
      else case authorize t c peer app of
          (auth, app1) \<Rightarrow>
            if auth \<noteq> Allowed
            then (Some ''container is not approved for this address; check approval and IP pin in the host UI'', app1)
            else if \<not> allows_guest f c then (Some ''MCP forward is not shared with this guest'', app1)
            else (None, app1))"

definition handle_message :: "'p mcp_code \<Rightarrow> 'p mcp_env \<Rightarrow> string \<Rightarrow> string \<Rightarrow> IpAddr \<Rightarrow> Json \<Rightarrow> 'p mcp_broker
    \<Rightarrow> Json \<times> 'p mcp_broker \<times> mcp_sent list" where
  "handle_message mc e n c peer msg b =
     (let t = me_clock e; method = method_of msg; i = id_of msg in
      case get_forward n (snd b) of
        None \<Rightarrow> (error_response i (-32601) (''unknown MCP forward '' @ [ch 39] @ n @ [ch 39]), b, [])
      | Some f \<Rightarrow>
          (case me_gap e 3 True 0 b of (app0, m0) \<Rightarrow>
          (case mcp_denial t f c peer app0 of
             (Some why, app) \<Rightarrow>
               (case record_request t c (''MCP '' @ method) (''mcp:'' @ n) Blocked_verdict app of
                  (ev, app') \<Rightarrow> (error_response i (-32000) why, (annotate ev None (Some why) app', m0), []))
           | (None, app) \<Rightarrow>
               (case dispatch mc e f method i msg (app, m0) of
                  ((vd, answer_json), b1, sent) \<Rightarrow>
                    (case me_gap e 3 False 0 b1 of
                       (app1, m1) \<Rightarrow>
                         (case record_request t c (''MCP '' @ method) (''mcp:'' @ n) vd app1 of
                            (ev, app2) \<Rightarrow>
                              (answer_json,
                               (case Option.bind (Option.bind (json_get ''error'' answer_json) (json_get ''message'')) as_str of
                                  None \<Rightarrow> app2 | Some why \<Rightarrow> annotate ev None (Some why) app2, m1),
                               sent)))))))"

text \<open>The handler of \<open>web.rs\<close>: identity first.\<close>

definition mcp_message :: "net_code \<Rightarrow> (IpAddr \<Rightarrow> string) \<Rightarrow> 'p mcp_code \<Rightarrow> 'p mcp_env \<Rightarrow> web_call \<Rightarrow> string \<Rightarrow> Json \<Rightarrow> 'p mcp_broker
    \<Rightarrow> Json answer \<times> 'p mcp_broker \<times> mcp_sent list" where
  "mcp_message nc show_ip mc e k n msg b =
     (case authorize_proxy_peer (clock_of k) (peer_of k) (presented_name nc k) (fst b) of
        (Inl err, app) \<Rightarrow>
          (let label = (case presented_name nc k of Some x \<Rightarrow> x | None \<Rightarrow> ''ip:'' @ show_ip (peer_of k));
               why = ''guest identity rejected: '' @ err in
           case record_unattributed (clock_of k) label ''MCP identity'' (''mcp:'' @ n) Blocked_verdict app of
             (ev, app') \<Rightarrow> (Refuse 403 (''Friendzone '' @ why), (annotate ev (Some 403) (Some why) app', snd b), []))
      | (Inr (c, auth), app) \<Rightarrow>
          if auth \<noteq> Allowed then (Refuse 403 ''Friendzone guest is awaiting approval or IP pinning'', (app, snd b), [])
          else (case handle_message mc e n c (peer_of k) msg (me_gap e 3 False 1 (app, snd b)) of
                  (answer_json, b1, sent) \<Rightarrow> (Give (if answer_json = JNull then 202 else 200) answer_json, b1, sent)))"

end
