(* ===== verification/Mcp_Oauth_Safe.thy ===== *)
theory Mcp_Oauth_Safe
  imports Mcp_Oauth_World
begin

text \<open>A disconnected session stays disconnected, and what is stored is bound to the address it was issued for.\<close>

section \<open>Every history is in order\<close>

lemma new_session_sessions:
  "sessions (snd (new_session name url st))
     = sessions st @ [\<lparr>sess_name = name, sess_url = url, generation = next_uuid st, connection_epoch = next_uuid st + 1, retired = False\<rparr>]"
  "next_uuid (snd (new_session name url st)) = next_uuid st + 2"
  by (simp_all add: new_session_def)

lemma one_live_new:
  assumes "one_live (sessions st)" and "\<not> live_session st name"
  shows "one_live (sessions (snd (new_session name url st)))"
proof -
  have "sess_name (sessions st ! i) \<noteq> name" if "i < length (sessions st)" "\<not> retired (sessions st ! i)" for i
    using assms(2) that nth_mem by (auto simp: live_session_def list_ex_iff)
  then show ?thesis using assms(1) by (auto simp: one_live_def new_session_sessions nth_append less_Suc_eq)
qed

lemma gens_step:
  assumes "sess_step st st'" and "\<forall>s \<in> set (sessions st). generation s < next_uuid st"
  shows "\<forall>s \<in> set (sessions st'). generation s < next_uuid st'"
proof -
  have "generation (sessions st' ! k) < next_uuid st'" if "k < length (sessions st')" for k
  proof -
    have k: "k < length (sessions st)" using assms(1) that by (simp add: sess_step_def)
    then have "generation (sessions st ! k) < next_uuid st" using assms(2) nth_mem by blast
    then show ?thesis using assms(1) k unfolding sess_step_def by (metis order_less_le_trans)
  qed
  then show ?thesis by (auto simp: in_set_conv_nth)
qed

lemma begins_known:
  assumes "begins oc op w i g" and "world_wf w" and "x \<in> in_flight (oauth_step oc save op w)" and "x \<notin> in_flight w"
  shows "g < next_uuid (ow (oauth_step oc save op w))"
proof -
  have "oauth_step oc save op w \<noteq> w" using assms(3,4) by auto
  then show ?thesis
    using assms(1,2) by (auto simp: begins_def world_wf_def known_def dest!: begin_login_Inr token_begin_refresh(1)
      split: if_splits sum.splits prod.splits token_start.splits)
qed

lemma wf_step:
  assumes "world_wf w"
  shows "world_wf (oauth_step oc save op w)"
proof (cases rule: step_sessions [of w oc save op])
  case 1
  let ?w = "oauth_step oc save op w"
  have len: "length (sessions (ow ?w)) = length (sessions (ow w))" "next_uuid (ow w) \<le> next_uuid (ow ?w)" using 1 by (auto simp: sess_step_def)
  have "fst x < length (sessions (ow w)) \<and> snd x < next_uuid (ow ?w)" if x: "x \<in> in_flight ?w" for x
  proof (cases "x \<in> in_flight w")
    case True
    then show ?thesis using assms len(2) by (fastforce simp: world_wf_def)
  next
    case False
    then have b: "begins oc op w (fst x) (snd x)" using step_in_flight [OF x] by blast
    show ?thesis using begins_known [OF b assms x False] b by (simp add: begins_def)
  qed
  moreover have "one_live (sessions (ow ?w))" using one_live_step [OF _ 1 len(1)] assms by (simp add: world_wf_def)
  moreover have "\<forall>s \<in> set (sessions (ow ?w)). generation s < next_uuid (ow ?w)" using gens_step [OF 1] assms by (simp add: world_wf_def)
  ultimately show ?thesis by (auto simp: world_wf_def len(1))
next
  case (2 name url)
  have same: "in_flight (oauth_step oc save op w) = in_flight w" by (simp add: 2 in_flight_def oauth_parts)
  have "\<forall>s \<in> set (sessions (ow (oauth_step oc save op w))). generation s < next_uuid (ow (oauth_step oc save op w))"
    using assms by (auto simp: 2 world_wf_def new_session_sessions)
  moreover have "\<forall>(i, g) \<in> in_flight w. i < length (sessions (ow (oauth_step oc save op w))) \<and> g < next_uuid (ow (oauth_step oc save op w))"
    using assms by (auto simp: 2 world_wf_def new_session_sessions)
  moreover have "one_live (sessions (ow (oauth_step oc save op w)))" using one_live_new [OF _ 2(2), of url] assms by (simp add: 2 world_wf_def)
  ultimately show ?thesis by (simp add: world_wf_def same)
qed

lemma wf_start: "world_wf (oauth_start cfg u)"
  by (simp add: world_wf_def oauth_start_def one_live_def in_flight_def)

lemma wf_reachable: "oauth_reachable oc save cfg w \<Longrightarrow> world_wf w"
  by (induction rule: oauth_reachable.induct) (auto simp: wf_start wf_step)

section \<open>Secrets\<close>

lemma token_key_inj [simp]: "token_key a = token_key b \<longleftrightarrow> a = b"
  by (simp add: token_key_def)

lemma token_key_other [simp]: "session_secret_name n \<noteq> token_key m" "token_key m \<noteq> session_secret_name n"
  by (simp_all add: session_secret_name_def token_key_def)

lemma set_secret_token:
  "secret (snd (set_secret save cfg k v)) (token_key n)
     = (if fst (set_secret save cfg k v) = Inr () \<and> k = token_key n then Some v else secret cfg (token_key n))"
  by (auto simp: set_secret_def secrets_save_def secret_def AList.update_conv' AList.delete_conv' split: prod.splits)

lemma remove_secret_token:
  "secret (snd (remove_secret save cfg k)) (token_key n)
     = (if fst (remove_secret save cfg k) = Inr () \<and> k = token_key n then None else secret cfg (token_key n))"
  by (auto simp: remove_secret_def secrets_save_def secret_def AList.delete_conv' split: prod.splits)

lemma other_secret: "\<not> starts_with ''mcp-oauth:'' k \<Longrightarrow> k \<noteq> token_key n"
  by (auto simp: token_key_def starts_with_iff)

lemma store_token_secret:
  "secret (tokens (snd (store_token oc save i g r nl st))) (token_key n)
     = (if fst (store_token oc save i g r nl st) = Inr () \<and> n = sess_name (sessions st ! i) then Some (oc_write oc r)
        else secret (tokens st) (token_key n))"
  "fst (store_token oc save i g r nl st) = Inr () \<Longrightarrow> \<not> superseded (sessions st ! i) g"
  using set_secret_token [of save "tokens st" "token_key (sess_name (sessions st ! i))" "oc_write oc r" n]
  by (auto simp: store_token_def Let_def settings_text_def split: sum.splits prod.splits if_splits)

lemma disconnect_secret:
  "secret (tokens (snd (disconnect save i st))) (token_key n)
     = (if fst (disconnect save i st) = Inr () \<and> n = sess_name (sessions st ! i) then None else secret (tokens st) (token_key n))"
  using remove_secret_token [of save "tokens st" "token_key (sess_name (sessions st ! i))" n]
  by (auto simp: disconnect_def Let_def settings_text_def split: sum.splits prod.splits if_splits)

lemma retire_secret:
  "secret (tokens (snd (retire save i st))) (token_key n)
     = (if fst (retire save i st) = Inr () \<and> n = sess_name (sessions st ! i) then None else secret (tokens st) (token_key n))"
  using remove_secret_token [of save "tokens st" "token_key (sess_name (sessions st ! i))" n]
  by (auto simp: retire_def Let_def settings_text_def split: sum.splits prod.splits if_splits)


text \<open>The only writes of a token record: the end of a refresh and the end of a login, both still current.\<close>

definition written_by :: "'p oauth_world \<Rightarrow> nat \<Rightarrow> uuid \<Rightarrow> TokenRecord \<Rightarrow> bool" where
  "written_by w i g r \<longleftrightarrow>
     (\<exists>r0 ts e. flights w i = Some (Refreshing g r0) \<and> r = refreshed r0 ts e)
     \<or> (\<exists>j l ts e. flights w j = Some (Exchanging l) \<and> i = pl_session l \<and> g = pl_generation l
          \<and> r = issued l (sess_url (sessions (ow w) ! i)) ts e)"

lemma written_in_flight: "written_by w i g r \<Longrightarrow> (i, g) \<in> in_flight w"
  using in_flightI(1) [of w] by (fastforce simp: written_by_def)

lemma token_finish_secret:
  "secret (tokens (snd (token_finish oc save t i g r0 reply st))) (token_key n) = secret (tokens st) (token_key n)
   \<or> n = sess_name (sessions st ! i) \<and> \<not> superseded (sessions st ! i) g
     \<and> (\<exists>ts e. secret (tokens (snd (token_finish oc save t i g r0 reply st))) (token_key n) = Some (oc_write oc (refreshed r0 ts e)))"
proof (cases "bind_res (token_response oc reply ''OAuth refresh request failed'') (\<lambda>ts. bind_res (expiry t (rs_expires_in ts)) (\<lambda>e. Inr (refreshed r0 ts e)))")
  case (Inr r)
  then obtain ts e where r: "r = refreshed r0 ts e" by (auto simp: bind_res_Inr_iff)
  have "snd (token_finish oc save t i g r0 reply st) = snd (store_token oc save i g r False st)"
    unfolding token_finish_def Inr by (simp split: sum.splits prod.splits)
  then show ?thesis using store_token_secret [of oc save i g r False st] r by (cases "fst (store_token oc save i g r False st) = Inr ()") auto
qed (simp add: token_finish_def)

lemma exchange_finish_secret:
  "secret (tokens (snd (exchange_finish oc save t l reply st))) (token_key n) = secret (tokens st) (token_key n)
   \<or> n = sess_name (sessions st ! pl_session l) \<and> \<not> superseded (sessions st ! pl_session l) (pl_generation l)
     \<and> (\<exists>ts e. secret (tokens (snd (exchange_finish oc save t l reply st))) (token_key n)
          = Some (oc_write oc (issued l (sess_url (sessions st ! pl_session l)) ts e)))"
proof (cases "bind_res (token_response oc reply ''OAuth code exchange failed'')
    (\<lambda>ts. bind_res (expiry t (rs_expires_in ts)) (\<lambda>e. Inr (issued l (sess_url (sessions st ! pl_session l)) ts e)))")
  case (Inr r)
  then obtain ts e where r: "r = issued l (sess_url (sessions st ! pl_session l)) ts e" by (auto simp: bind_res_Inr_iff)
  have "exchange_finish oc save t l reply st = store_token oc save (pl_session l) (pl_generation l) r True st"
    unfolding exchange_finish_def Inr by simp
  then show ?thesis using store_token_secret [of oc save "pl_session l" "pl_generation l" r True st] r
    by (cases "fst (store_token oc save (pl_session l) (pl_generation l) r True st) = Inr ()") auto
qed (simp add: exchange_finish_def)

lemma step_secret:
  fixes w :: "'p oauth_world"
  defines "key \<equiv> \<lambda>(w :: 'p oauth_world) n. secret (tokens (ow w)) (token_key n)"
  shows "key (oauth_step oc save op w) n = key w n \<or> key (oauth_step oc save op w) n = None
    \<or> (\<exists>i g r. written_by w i g r \<and> n = sess_name (sessions (ow w) ! i) \<and> \<not> superseded (sessions (ow w) ! i) g
         \<and> key (oauth_step oc save op w) n = Some (oc_write oc r))"
proof (cases op)
  case (Refreshed i t reply)
  then show ?thesis
    using token_finish_secret [of oc save t i _ _ reply "ow w" n]
    by (auto simp: key_def written_by_def split: option.splits flight.splits) blast
next
  case (Exchanged i t reply)
  show ?thesis
  proof (cases "\<exists>l. flights w i = Some (Exchanging l)")
    case True
    then obtain l where l: "flights w i = Some (Exchanging l)" by blast
    have "ow (oauth_step oc save op w) = snd (exchange_finish oc save t l reply (ow w))" by (simp add: Exchanged l split: prod.splits)
    then show ?thesis using exchange_finish_secret [of oc save t l reply "ow w" n] l unfolding key_def written_by_def by metis
  qed (auto simp: key_def Exchanged split: option.splits flight.splits)
next
  case (Other_secret k v)
  then show ?thesis using other_secret [of k n] set_secret_token [of save "tokens (ow w)" k v n] by (auto simp: key_def)
next
  case (Start i redir scope)
  then show ?thesis using begin_login_parts(2) [of i "ow w"] by (auto simp: key_def split: sum.splits prod.splits)
next
  case (Callback x code error)
  then show ?thesis using take_login_parts(3) [of x "ow w"] by (auto simp: key_def split: sum.splits prod.splits)
qed (auto simp: key_def oauth_parts disconnect_secret retire_secret split: prod.splits token_start.splits sum.splits)

section \<open>Disconnecting\<close>

definition disconnected :: "string \<Rightarrow> 'p oauth_world \<Rightarrow> bool" where
  "disconnected n w \<longleftrightarrow> secret (tokens (ow w)) (token_key n) = None
     \<and> (\<forall>(i, g) \<in> in_flight w. sess_name (sessions (ow w) ! i) = n \<longrightarrow> superseded (sessions (ow w) ! i) g)"

text \<open>No login of the name is started.\<close>

fun starts_login :: "string \<Rightarrow> 'p oauth_world \<Rightarrow> oauth_op \<Rightarrow> bool" where
  "starts_login n w (Start i _ _) \<longleftrightarrow> known w i \<and> sess_name (sessions (ow w) ! i) = n"
| "starts_login n w op \<longleftrightarrow> False"

fun no_login :: "oauth_code \<Rightarrow> 'p saver \<Rightarrow> string \<Rightarrow> oauth_op list \<Rightarrow> 'p oauth_world \<Rightarrow> bool" where
  "no_login oc save n [] w \<longleftrightarrow> True"
| "no_login oc save n (op # ops) w \<longleftrightarrow> \<not> starts_login n w op \<and> no_login oc save n ops (oauth_step oc save op w)"

lemma disconnected_no_request:
  assumes "disconnected n w" and "sess_name (sessions (ow w) ! i) = n"
  shows "\<exists>e. token_begin oc t rejected i (ow w) = Token_error e"
  using assms by (cases "retired (sessions (ow w) ! i)") (simp_all add: disconnected_def token_begin_def load_token_def Let_def)


lemma disconnected_step:
  assumes "world_wf w" and "disconnected n w" and "\<not> starts_login n w op"
  shows "disconnected n (oauth_step oc save op w)"
proof -
  let ?w = "oauth_step oc save op w"
  have none: "secret (tokens (ow ?w)) (token_key n) = None"
    using step_secret [of oc save op w n] assms(2) written_in_flight by (fastforce simp: disconnected_def)
  have known: "i < length (sessions (ow w)) \<and> g < next_uuid (ow w)" if "(i, g) \<in> in_flight w" for i g
    using assms(1) that by (auto simp: world_wf_def)
  have old: "(i, g) \<in> in_flight w" if x: "(i, g) \<in> in_flight ?w" and n: "sess_name (sessions (ow w) ! i) = n" for i g
  proof -
    have "token_begin oc t rejected i (ow w) \<noteq> Token_refresh g r post" for t rejected r post
      using disconnected_no_request [OF assms(2) n, of oc t rejected] by auto
    then show ?thesis using step_in_flight [OF x] assms(3) n by (auto simp: begins_def known_def)
  qed
  show ?thesis
  proof (cases rule: step_sessions [of w oc save op])
    case 1
    have "superseded (sessions (ow ?w) ! i) g" if x: "(i, g) \<in> in_flight ?w" "sess_name (sessions (ow ?w) ! i) = n" for i g
    proof -
      have "i < length (sessions (ow ?w))" using wf_step [OF assms(1), of oc save op] x(1) by (auto simp: world_wf_def)
      then have "sess_name (sessions (ow w) ! i) = n" using 1 x(2) by (simp add: sess_step_def)
      with old [OF x(1)] have "(i, g) \<in> in_flight w" "superseded (sessions (ow w) ! i) g" using assms(2) by (auto simp: disconnected_def)
      then show ?thesis using superseded_stays [OF 1] known by blast
    qed
    with none show ?thesis by (auto simp: disconnected_def)
  next
    case (2 name url)
    have same: "in_flight ?w = in_flight w" by (simp add: 2 in_flight_def oauth_parts)
    have "sessions (ow ?w) ! i = sessions (ow w) ! i" if "(i, g) \<in> in_flight w" for i g
      using known [OF that] by (simp add: 2 new_session_sessions nth_append)
    then show ?thesis using assms(2) none by (auto simp: disconnected_def same)
  qed
qed

lemma disconnected_run:
  assumes "world_wf w" and "disconnected n w" and "no_login oc save n ops w"
  shows "disconnected n (fold (oauth_step oc save) ops w)"
  using assms
proof (induction ops arbitrary: w)
  case (Cons op ops)
  then show ?case using disconnected_step [of w n op oc save] wf_step [of w oc save op] by simp
qed simp

lemma disconnect_disconnects:
  assumes "world_wf w" and "i < length (sessions (ow w))" and "fst (disconnect save i (ow w)) = Inr ()"
  shows "disconnected (sess_name (sessions (ow w) ! i)) (w\<lparr>ow := snd (disconnect save i (ow w))\<rparr>)"
proof -
  let ?st = "snd (disconnect save i (ow w))" and ?s = "sessions (ow w) ! i"
  have live: "\<not> retired ?s" using assms(3) by (auto simp: disconnect_def Let_def split: if_splits)
  have step: "sess_step (ow w) ?st" by (rule disconnect_parts)
  have fresh: "generation (sessions ?st ! i) = next_uuid (ow w)"
    using live assms(2) by (auto simp: disconnect_def Let_def split: prod.splits)
  have flight: "in_flight (w\<lparr>ow := ?st\<rparr>) = in_flight w" by (simp add: in_flight_def disconnect_parts)
  have "superseded (sessions ?st ! j) g" if x: "(j, g) \<in> in_flight w" and n: "sess_name (sessions ?st ! j) = sess_name ?s" for j g
  proof -
    have j: "j < length (sessions (ow w))" "g < next_uuid (ow w)" using assms(1) x by (auto simp: world_wf_def)
    show ?thesis
    proof (cases "j = i")
      case True
      then show ?thesis using fresh j(2) by (simp add: superseded_def)
    next
      case False
      have "sess_name (sessions (ow w) ! j) = sess_name ?s" using step j(1) n by (simp add: sess_step_def)
      then have "retired (sessions (ow w) ! j)" using assms(1,2) j(1) live False unfolding world_wf_def one_live_def by blast
      then show ?thesis using step j(1) by (simp add: sess_step_def superseded_def)
    qed
  qed
  then show ?thesis using assms(3) by (auto simp: disconnected_def flight disconnect_secret)
qed

lemma wf_disconnect:
  assumes "world_wf w" and "i < length (sessions (ow w))"
  shows "world_wf (w\<lparr>ow := snd (disconnect save i (ow w))\<rparr>)"
  using wf_step [OF assms(1), of undefined save "Disconnect i"] assms(2) by (simp add: known_def)

text \<open>The logins on their way: offered, called back, or in exchange.\<close>

definition logins :: "'p oauth_world \<Rightarrow> PendingLogin set" where
  "logins w = snd ` set (pending_logins (ow w)) \<union> fst ` set (arriving w) \<union> {l. \<exists>i. flights w i = Some (Exchanging l)}"

lemma logins_here:
  "flights w j = Some (Exchanging l) \<Longrightarrow> l \<in> logins w" "(l, q) \<in> set (arriving w) \<Longrightarrow> l \<in> logins w"
  "(key, l) \<in> set (pending_logins (ow w)) \<Longrightarrow> l \<in> logins w"
  by (force simp: logins_def)+

lemma login_in_flight: "l \<in> logins w \<Longrightarrow> (pl_session l, pl_generation l) \<in> in_flight w"
  using in_flightI(1) [of w _ "Exchanging l"] by (auto simp: logins_def intro: in_flightI)

text \<open>What is left in flight for the name ends in an error, whatever arrives and whenever.\<close>

lemma superseded_ends:
  assumes "superseded (sessions st ! i) g"
  shows "\<exists>e. token_finish oc save t i g r reply st = (Inl e, st)"
    and "\<exists>e. fst (start_login oc t ask i g redir scope st) = Inl e"
proof -
  show "\<exists>e. token_finish oc save t i g r reply st = (Inl e, st)"
    using assms by (auto simp: token_finish_def store_token_def Let_def split: sum.splits)
  show "\<exists>e. fst (start_login oc t ask i g redir scope st) = Inl e"
    using assms by (auto simp: start_login_def publish_login_def check_def Let_def split: sum.splits prod.splits if_splits)
qed

lemma superseded_login_ends:
  assumes "superseded (sessions st ! pl_session l) (pl_generation l)"
  shows "\<exists>e. exchange_finish oc save t l reply st = (Inl e, st)" and "\<exists>e. check_login t l code error st = Inl e"
  using assms by (auto simp: exchange_finish_def store_token_def check_login_def check_def Let_def split: sum.splits)

lemma disconnected_ends:
  assumes "disconnected n w" and "(i, g) \<in> in_flight w" and "sess_name (sessions (ow w) ! i) = n"
  shows "superseded (sessions (ow w) ! i) g"
  using assms by (auto simp: disconnected_def)

text \<open>
  C18. Disconnecting is final. After the host disconnected an upstream, and until a new login of that forward is started:
  there is no stored credential for it and every request for a token fails; and whatever is still in flight for it ends in
  an error, however late and with whatever reply: a refresh hands out no token, the exchange of a code stores none (both
  leave the state as it was), a callback is refused before its code is spent, and a login whose discovery comes to its end
  offers no address to authorize at.
\<close>

theorem disconnect_is_final:
  assumes "oauth_reachable oc save cfg w" and "i < length (sessions (ow w))"
    and "disconnect save i (ow w) = (Inr (), st)" and "sess_name (sessions (ow w) ! i) = n"
    and "no_login oc save n ops (w\<lparr>ow := st\<rparr>)" and "w' = fold (oauth_step oc save) ops (w\<lparr>ow := st\<rparr>)"
  shows "load_token oc (tokens (ow w')) n = None
    \<and> (\<forall>j t rejected. sess_name (sessions (ow w') ! j) = n \<longrightarrow> (\<exists>e. token_begin oc t rejected j (ow w') = Token_error e))
    \<and> (\<forall>j g r t reply. flights w' j = Some (Refreshing g r) \<longrightarrow> sess_name (sessions (ow w') ! j) = n
         \<longrightarrow> (\<exists>e. token_finish oc save t j g r reply (ow w') = (Inl e, ow w')))
    \<and> (\<forall>j l t reply. flights w' j = Some (Exchanging l) \<longrightarrow> sess_name (sessions (ow w') ! pl_session l) = n
         \<longrightarrow> (\<exists>e. exchange_finish oc save t l reply (ow w') = (Inl e, ow w')))
    \<and> (\<forall>l code error t. (l, code, error) \<in> set (arriving w') \<longrightarrow> sess_name (sessions (ow w') ! pl_session l) = n
         \<longrightarrow> (\<exists>e. check_login t l code error (ow w') = Inl e))
    \<and> (\<forall>key l code error t. (key, l) \<in> set (pending_logins (ow w')) \<longrightarrow> sess_name (sessions (ow w') ! pl_session l) = n
         \<longrightarrow> (\<exists>e. check_login t l code error (ow w') = Inl e))
    \<and> (\<forall>j g redir scope t ask. (j, g, redir, scope) \<in> set (starting w') \<longrightarrow> sess_name (sessions (ow w') ! j) = n
         \<longrightarrow> (\<exists>e. fst (start_login oc t ask j g redir scope (ow w')) = Inl e))"
proof -
  have wf: "world_wf w" by (rule wf_reachable [OF assms(1)])
  have "disconnected n (w\<lparr>ow := st\<rparr>)" using disconnect_disconnects [OF wf assms(2), of save] assms(3,4) by simp
  moreover have "world_wf (w\<lparr>ow := st\<rparr>)" using wf_disconnect [OF wf assms(2), of save] assms(3) by simp
  ultimately have dis: "disconnected n w'" using disconnected_run [OF _ _ assms(5)] assms(6) by blast
  note ends = disconnected_ends [OF dis]
  have refreshing: "superseded (sessions (ow w') ! j) g" if "flights w' j = Some (Refreshing g r)" "sess_name (sessions (ow w') ! j) = n" for j g r
    using ends in_flightI(1) [OF that(1)] that(2) by simp
  have login: "superseded (sessions (ow w') ! pl_session l) (pl_generation l)"
    if "l \<in> logins w'" "sess_name (sessions (ow w') ! pl_session l) = n" for l
    using ends login_in_flight [OF that(1)] that(2) by blast
  have begun: "superseded (sessions (ow w') ! j) g" if "(j, g, q) \<in> set (starting w')" "sess_name (sessions (ow w') ! j) = n" for j g q
    using ends in_flightI(2) that by blast
  show ?thesis
  proof (intro conjI allI impI)
    show "load_token oc (tokens (ow w')) n = None" using dis by (simp add: disconnected_def load_token_def)
    show "\<exists>e. token_begin oc t rejected j (ow w') = Token_error e" if "sess_name (sessions (ow w') ! j) = n" for j t rejected
      by (rule disconnected_no_request [OF dis that])
    show "\<exists>e. token_finish oc save t j g r reply (ow w') = (Inl e, ow w')"
      if "flights w' j = Some (Refreshing g r)" "sess_name (sessions (ow w') ! j) = n" for j g r t reply
      by (rule superseded_ends(1) [OF refreshing [OF that]])
    show "\<exists>e. exchange_finish oc save t l reply (ow w') = (Inl e, ow w')"
      if "flights w' j = Some (Exchanging l)" "sess_name (sessions (ow w') ! pl_session l) = n" for j l t reply
      using superseded_login_ends(1) [OF login [OF _ that(2)]] logins_here(1) [OF that(1)] by blast
    show "\<exists>e. check_login t l code error (ow w') = Inl e"
      if "(l, code, error) \<in> set (arriving w')" "sess_name (sessions (ow w') ! pl_session l) = n" for l code error t
      using superseded_login_ends(2) [OF login [OF _ that(2)]] logins_here(2) [OF that(1)] by blast
    show "\<exists>e. check_login t l code error (ow w') = Inl e"
      if "(key, l) \<in> set (pending_logins (ow w'))" "sess_name (sessions (ow w') ! pl_session l) = n" for key l code error t
      using superseded_login_ends(2) [OF login [OF _ that(2)]] logins_here(3) [OF that(1)] by blast
    show "\<exists>e. fst (start_login oc t ask j g redir scope (ow w')) = Inl e"
      if "(j, g, redir, scope) \<in> set (starting w')" "sess_name (sessions (ow w') ! j) = n" for j g redir scope t ask
      by (rule superseded_ends(2) [OF begun [OF that]])
  qed
qed


section \<open>Credentials stay with their upstream\<close>

text \<open>
  What discovery at an address must have found, stated on the replies: where the protected-resource metadata was asked
  for, that it covers the address, which authorization server it names first, and that the metadata found at the
  well-known place of this server calls itself by the address of this server.
\<close>

definition safe_address :: "oauth_code \<Rightarrow> string \<Rightarrow> WebUrl \<Rightarrow> bool" where
  "safe_address oc raw u \<longleftrightarrow> oc_url oc raw = Some u \<and> wu_host u \<noteq> None \<and> wu_username u = [] \<and> wu_password u = None \<and> wu_fragment u = None
     \<and> (wu_scheme u = ''https'' \<or> wu_scheme u = ''http'' \<and> url_loopback u)"

definition covers :: "WebUrl \<Rightarrow> WebUrl \<Rightarrow> bool" where
  "covers res target \<longleftrightarrow> wu_scheme res = wu_scheme target \<and> wu_host res = wu_host target \<and> wu_port res = wu_port target
     \<and> (wu_path target = wu_path res
        \<or> (\<exists>p slashes rest. wu_path res = p @ slashes \<and> set slashes \<subseteq> {CHR ''/''} \<and> wu_path target = p @ CHR ''/'' # rest))"

definition published :: "oauth_reply option \<Rightarrow> Json \<Rightarrow> bool" where
  "published reply j \<longleftrightarrow> (\<exists>r. reply = Some r \<and> 200 \<le> or_status r \<and> or_status r < 300 \<and> or_json r = Some j)"

definition discovered :: "oauth_code \<Rightarrow> (nat \<Rightarrow> WebUrl \<Rightarrow> oauth_reply option) \<Rightarrow> string \<Rightarrow> Discovery \<Rightarrow> bool" where
  "discovered oc ask url d \<longleftrightarrow>
     (\<exists>target probe k u j rm res server others iss j2.
        safe_address oc url target \<and> ask 0 target = Some probe
        \<and> (case resource_metadata_hint (or_challenges probe) of
             Some h \<Rightarrow> safe_address oc h u
           | None \<Rightarrow> \<exists>b. u = well_known oc target ''oauth-protected-resource'' b)
        \<and> published (ask k u) j \<and> read_resource j = Some rm \<and> rm_resource rm = d_resource d
        \<and> safe_address oc (d_resource d) res \<and> covers res target
        \<and> authorization_servers rm = server # others \<and> safe_address oc server iss
        \<and> published (ask 3 (well_known oc iss ''oauth-authorization-server'' True)) j2 \<and> read_authorization j2 = Some (d_metadata d)
        \<and> safe_address oc (issuer (d_metadata d)) iss)
     \<and> (\<exists>u. safe_address oc (authorization_endpoint (d_metadata d)) u) \<and> (\<exists>u. safe_address oc (am_token_endpoint (d_metadata d)) u)
     \<and> ''S256'' \<in> set (code_challenge_methods (d_metadata d))"

text \<open>The replies to the discoveries of a history.\<close>

definition asks :: "oauth_op list \<Rightarrow> (nat \<Rightarrow> WebUrl \<Rightarrow> oauth_reply option) set" where
  "asks ops = {ask. \<exists>n t. Started n t ask \<in> set ops}"

text \<open>
  A record under a name: issued in this history for its address, or going back to a record of the same address, endpoint
  and resource that was stored under the name before.
\<close>

definition issued_for :: "oauth_code \<Rightarrow> 'p Settings \<Rightarrow> (nat \<Rightarrow> WebUrl \<Rightarrow> oauth_reply option) set \<Rightarrow> string \<Rightarrow> TokenRecord \<Rightarrow> bool" where
  "issued_for oc cfg as n r \<longleftrightarrow>
     (\<exists>ask \<in> as. \<exists>d. discovered oc ask (server_url r) d \<and> token_endpoint r = am_token_endpoint (d_metadata d) \<and> resource r = d_resource d)
     \<or> (\<exists>old. load_token oc cfg n = Some old \<and> server_url r = server_url old \<and> token_endpoint r = token_endpoint old
          \<and> resource r = resource old)"

lemma secure_url_safe: "secure_url oc raw = Inr u \<longleftrightarrow> safe_address oc raw u"
  by (auto simp: secure_url_def safe_address_def insecure_def bind_res_Inr_iff)

lemma describes_covers: "describes res target \<Longrightarrow> covers res target"
proof -
  let ?p = "trim_end_matches (\<lambda>c. c = CHR ''/'') (wu_path res)"
  have "rev (wu_path res) = takeWhile (\<lambda>c. c = CHR ''/'') (rev (wu_path res)) @ dropWhile (\<lambda>c. c = CHR ''/'') (rev (wu_path res))"
    by simp
  then have "wu_path res = ?p @ rev (takeWhile (\<lambda>c. c = CHR ''/'') (rev (wu_path res)))"
    unfolding trim_end_matches_def by (metis rev_append rev_rev_ident)
  moreover have "set (rev (takeWhile (\<lambda>c. c = CHR ''/'') (rev (wu_path res)))) \<subseteq> {CHR ''/''}" by (auto dest: set_takeWhileD)
  ultimately show "describes res target \<Longrightarrow> covers res target"
    unfolding describes_def same_origin_def covers_def starts_with_iff append_assoc append_Cons append_Nil by blast
qed

lemma get_metadata_published: "get_metadata oc rd ask u = Inr (Some x) \<Longrightarrow> \<exists>j. published (ask u) j \<and> rd j = Some x"
  by (auto simp: get_metadata_def published_def http_success_def bind_res_Inr_iff split: option.splits if_splits)

lemma first_resource_published:
  "first_resource oc ask i us = Inr (Some rm) \<Longrightarrow> \<exists>k u j. u \<in> set us \<and> published (ask k u) j \<and> read_resource j = Some rm"
  by (induction us arbitrary: i) (auto simp: bind_res_Inr_iff split: option.splits dest!: get_metadata_published, blast+)

lemma discover_discovered:
  assumes "discover oc ask url = Inr d"
  shows "discovered oc ask url d"
proof -
  obtain target probe cs rm res server iss where t: "secure_url oc url = Inr target" "ask 0 target = Some probe"
      and cs: "(case resource_metadata_hint (or_challenges probe) of
           Some h \<Rightarrow> bind_res (secure_url oc h) (\<lambda>u. Inr [u])
         | None \<Rightarrow> Inr [well_known oc target ''oauth-protected-resource'' True, well_known oc target ''oauth-protected-resource'' False]) = Inr cs"
      and rm: "first_resource oc ask 1 (remdups_adj cs) = Inr (Some rm)" "secure_url oc (rm_resource rm) = Inr res" "describes res target"
      and server: "(case authorization_servers rm of [] \<Rightarrow> None | s # _ \<Rightarrow> Some s) = Some server" "secure_url oc server = Inr iss"
      and m: "get_metadata oc read_authorization (ask 3) (well_known oc iss ''oauth-authorization-server'' True) = Inr (Some (d_metadata d))"
        "check_authorization oc iss (d_metadata d) = Inr ()" and d: "d_resource d = rm_resource rm"
    using assms unfolding discover_def bind_res_Inr_iff ok_or_Inr_iff
    by (elim exE conjE) (auto simp: bind_res_Inr_iff split: if_splits)
  obtain k u j where r: "u \<in> set cs" "published (ask k u) j" "read_resource j = Some rm" using first_resource_published [OF rm(1)] by auto
  obtain j2 where j2: "published (ask 3 (well_known oc iss ''oauth-authorization-server'' True)) j2" "read_authorization j2 = Some (d_metadata d)"
    using get_metadata_published [OF m(1)] by blast
  obtain others where others: "authorization_servers rm = server # others" using server(1) by (auto split: list.splits)
  have "case resource_metadata_hint (or_challenges probe) of Some h \<Rightarrow> safe_address oc h u
      | None \<Rightarrow> \<exists>b. u = well_known oc target ''oauth-protected-resource'' b"
    using cs r(1) by (auto simp: bind_res_Inr_iff secure_url_safe split: option.splits)
  moreover have "safe_address oc (issuer (d_metadata d)) iss" "\<exists>u. safe_address oc (authorization_endpoint (d_metadata d)) u"
      "\<exists>u. safe_address oc (am_token_endpoint (d_metadata d)) u" "''S256'' \<in> set (code_challenge_methods (d_metadata d))"
    using m(2) by (auto simp: check_authorization_def bind_res_Inr_iff secure_url_safe split: if_splits)
  ultimately show ?thesis
    using t rm(2) describes_covers [OF rm(3)] r(2,3) j2 others server(2) d unfolding discovered_def secure_url_safe
    by - (rule conjI, rule exI [of _ target], rule exI [of _ probe], rule exI [of _ k], rule exI [of _ u], rule exI [of _ j],
      rule exI [of _ rm], rule exI [of _ res], rule exI [of _ server], rule exI [of _ others], rule exI [of _ iss], rule exI [of _ j2],
      simp_all)
qed

lemma prepare_login_discovered: "prepare_login oc ask redir url = Inr p \<Longrightarrow> discovered oc ask url (pr_discovery p)"
  by (auto simp: prepare_login_def bind_res_Inr_iff split: if_splits dest: discover_discovered)

definition bound_world :: "oauth_code \<Rightarrow> 'p Settings \<Rightarrow> (nat \<Rightarrow> WebUrl \<Rightarrow> oauth_reply option) set \<Rightarrow> 'p oauth_world \<Rightarrow> bool" where
  "bound_world oc cfg as w \<longleftrightarrow>
     (\<forall>l \<in> logins w. \<exists>ask \<in> as. discovered oc ask (sess_url (sessions (ow w) ! pl_session l)) (pl_discovery l))
     \<and> (\<forall>i g r. flights w i = Some (Refreshing g r) \<longrightarrow> issued_for oc cfg as (sess_name (sessions (ow w) ! i)) r)
     \<and> (\<forall>n r. load_token oc (tokens (ow w)) n = Some r \<longrightarrow> issued_for oc cfg as n r)"

lemma bound_world_mono: "bound_world oc cfg as w \<Longrightarrow> as \<subseteq> as' \<Longrightarrow> bound_world oc cfg as' w"
  unfolding bound_world_def issued_for_def by (meson subsetD)

lemma exchange_finish_result: "exchange_finish oc save t l reply st = (ru, st') \<Longrightarrow> pending_logins st' = pending_logins st"
  by (metis exchange_finish_parts(2) snd_conv)

text \<open>Logins come from \<open>start\<close> alone.\<close>

lemma step_logins:
  assumes "l \<in> logins (oauth_step oc save op w)"
  shows "l \<in> logins w \<or> (\<exists>g redir scope p ask. ask \<in> asks [op] \<and> (pl_session l, g, redir, scope) \<in> set (starting w)
    \<and> prepare_login oc ask redir (sess_url (sessions (ow w) ! pl_session l)) = Inr p \<and> pl_discovery l = pr_discovery p)"
proof (cases op)
  case (Started n t ask)
  show ?thesis
  proof (cases "n < length (starting w)")
    case True
    obtain i g redir scope where s: "starting w ! n = (i, g, redir, scope)" by (cases "starting w ! n")
    then have here: "(i, g, redir, scope) \<in> set (starting w)" using nth_mem [OF True] by simp
    show ?thesis
    proof (cases "\<exists>k. (k, l) \<in> set (pending_logins (snd (start_login oc t ask i g redir scope (ow w))))")
      case new: True
      then obtain k where "(k, l) \<in> set (pending_logins (snd (start_login oc t ask i g redir scope (ow w))))" by blast
      have asked: "ask \<in> asks [op]" by (auto simp: asks_def Started)
      from start_login_pending [OF \<open>(k, l) \<in> _\<close>] show ?thesis
      proof
        assume "(k, l) \<in> set (pending_logins (ow w))"
        then have "l \<in> logins w" unfolding logins_def by force
        then show ?thesis by blast
      qed (use here asked in blast)
    next
      case False
      then show ?thesis using assms True s unfolding Started by (force simp: logins_def)
    qed
  qed (use assms Started in auto)
next
  case (Callback state code error)
  then have "l \<in> logins w"
    using assms by (auto simp: logins_def split: sum.splits prod.splits dest!: take_login_Inr) force+
  then show ?thesis by blast
next
  case (Enter n t)
  show ?thesis
  proof (cases "n < length (arriving w)")
    case True
    obtain k code error where s: "arriving w ! n = (k, code, error)" by (cases "arriving w ! n")
    then have "(k, code, error) \<in> set (arriving w)" using nth_mem [OF True] by simp
    then have "k \<in> logins w" unfolding logins_def by force
    moreover have "l \<in> logins w \<or> l = k"
      using assms True s set_without_nth [of n "arriving w"] unfolding Enter logins_def
      by (auto split: if_splits sum.splits)
    ultimately show ?thesis by blast
  qed (use assms Enter in auto)
next
  case (Go_away i a b c)
  then show ?thesis using assms set_without_nth [of b "arriving w"] by (auto simp: logins_def split: if_splits)
next
  case (Ask_status t i)
  then show ?thesis using assms status_of_parts(4) [of t i "ow w"] by (auto simp: logins_def split: if_splits)
next
  case (Start i redir scope)
  then show ?thesis using assms begin_login_parts(3) [of i "ow w"] by (auto simp: logins_def split: if_splits sum.splits prod.splits)
next
  case (Exchanged i t reply)
  then show ?thesis
    using assms by (auto simp: logins_def split: if_splits option.splits flight.splits prod.splits dest!: exchange_finish_result)
next
  case (Refreshed i t reply)
  then show ?thesis
    using assms by (auto simp: logins_def oauth_parts split: if_splits option.splits flight.splits prod.splits)
next
  case (Request t rejected i)
  then show ?thesis using assms by (auto simp: logins_def split: if_splits token_start.splits)
qed (use assms in \<open>auto simp: logins_def oauth_parts split: if_splits prod.splits\<close>)


lemma known_urls:
  assumes "world_wf w" and "i < length (sessions (ow w))"
  shows "sess_url (sessions (ow (oauth_step oc save op w)) ! i) = sess_url (sessions (ow w) ! i)"
  by (cases rule: step_sessions [of w oc save op]) (use assms(2) in \<open>auto simp: sess_step_def new_session_sessions nth_append\<close>)

lemma login_known:
  assumes "world_wf w" and "l \<in> logins w"
  shows "pl_session l < length (sessions (ow w))"
  using login_in_flight [OF assms(2)] assms(1) by (auto simp: world_wf_def)

lemma known_names:
  assumes "world_wf w" and "i < length (sessions (ow w))"
  shows "sess_name (sessions (ow (oauth_step oc save op w)) ! i) = sess_name (sessions (ow w) ! i)"
  by (cases rule: step_sessions [of w oc save op]) (use assms(2) in \<open>auto simp: sess_step_def new_session_sessions nth_append\<close>)

lemma step_refreshing:
  assumes "flights (oauth_step oc save op w) i = Some (Refreshing g r)"
  shows "flights w i = Some (Refreshing g r) \<or> load_token oc (tokens (ow w)) (sess_name (sessions (ow w) ! i)) = Some r"
  using assms by (cases op) (auto split: if_splits sum.splits prod.splits option.splits flight.splits token_start.splits dest!: token_begin_refresh(3))

lemma bound_step:
  assumes "world_wf w" and "bound_world oc cfg as w" and "\<And>r. oc_read oc (oc_write oc r) = Some r"
  shows "bound_world oc cfg (as \<union> asks [op]) (oauth_step oc save op w)"
proof -
  let ?w = "oauth_step oc save op w" and ?as = "as \<union> asks [op]"
  have b: "bound_world oc cfg ?as w" using assms(2) by (rule bound_world_mono) simp
  have login: "\<exists>ask \<in> ?as. discovered oc ask (sess_url (sessions (ow w) ! pl_session l)) (pl_discovery l)" if "l \<in> logins w" for l
    using b that by (auto simp: bound_world_def)
  have "\<exists>ask \<in> ?as. discovered oc ask (sess_url (sessions (ow ?w) ! pl_session l)) (pl_discovery l)" if l: "l \<in> logins ?w" for l
    using step_logins [OF l]
  proof
    assume "l \<in> logins w"
    then show ?thesis using known_urls [OF assms(1) login_known [OF assms(1)]] login by simp
  next
    assume "\<exists>g redir scope p ask. ask \<in> asks [op] \<and> (pl_session l, g, redir, scope) \<in> set (starting w)
      \<and> prepare_login oc ask redir (sess_url (sessions (ow w) ! pl_session l)) = Inr p \<and> pl_discovery l = pr_discovery p"
    then obtain g q p ask redir where s: "ask \<in> asks [op]" "(pl_session l, g, q) \<in> set (starting w)"
      "prepare_login oc ask redir (sess_url (sessions (ow w) ! pl_session l)) = Inr p" "pl_discovery l = pr_discovery p" by blast
    have "pl_session l < length (sessions (ow w))" using in_flightI(2) [OF s(2)] assms(1) by (auto simp: world_wf_def)
    then have "discovered oc ask (sess_url (sessions (ow ?w) ! pl_session l)) (pl_discovery l)"
      using prepare_login_discovered [OF s(3)] known_urls [OF assms(1)] s(4) by simp
    then show ?thesis using s(1) by blast
  qed
  moreover have "issued_for oc cfg ?as (sess_name (sessions (ow ?w) ! i)) r" if f: "flights ?w i = Some (Refreshing g r)" for i g r
  proof -
    have x: "(i, g) \<in> in_flight ?w" using in_flightI(1) [OF f] by simp
    have "i < length (sessions (ow w))" using step_in_flight [OF x] assms(1) by (auto simp: world_wf_def begins_def)
    then have "sess_name (sessions (ow ?w) ! i) = sess_name (sessions (ow w) ! i)" by (rule known_names [OF assms(1)])
    then show ?thesis using step_refreshing [OF f] b by (auto simp: bound_world_def)
  qed
  moreover have "issued_for oc cfg ?as n r" if load: "load_token oc (tokens (ow ?w)) n = Some r" for n r
    using step_secret [of oc save op w n]
  proof (elim disjE exE conjE)
    fix i g r' assume wr: "written_by w i g r'" and n: "n = sess_name (sessions (ow w) ! i)"
      and tx: "secret (tokens (ow ?w)) (token_key n) = Some (oc_write oc r')"
    have r: "r = r'" using load tx assms(3) by (simp add: load_token_def)
    show ?thesis using wr unfolding written_by_def
    proof (elim disjE exE conjE)
      fix r0 ts e assume f: "flights w i = Some (Refreshing g r0)" "r' = refreshed r0 ts e"
      have "issued_for oc cfg ?as n r0" using b f(1) n by (simp add: bound_world_def)
      then show ?thesis by (simp add: r f(2) issued_for_def refreshed_def)
    next
      fix j l ts e assume l: "flights w j = Some (Exchanging l)" "i = pl_session l" "r' = issued l (sess_url (sessions (ow w) ! i)) ts e"
      then have "\<exists>ask \<in> ?as. discovered oc ask (sess_url (sessions (ow w) ! i)) (pl_discovery l)" using login [of l] by (auto simp: logins_def)
      then show ?thesis unfolding r l(3) issued_for_def issued_def by auto
    qed
  qed (use load b in \<open>auto simp: bound_world_def load_token_def\<close>)
  ultimately show ?thesis by (simp add: bound_world_def)
qed

lemma asks_snoc: "asks (ops @ [op]) = asks ops \<union> asks [op]"
  by (auto simp: asks_def)

lemma oauth_reachable_fold: "oauth_reachable oc save cfg w \<Longrightarrow> oauth_reachable oc save cfg (fold (oauth_step oc save) ops w)"
  by (induction ops arbitrary: w) (auto intro: oauth_next)

lemma bound_history:
  assumes "\<And>r. oc_read oc (oc_write oc r) = Some r"
  shows "bound_world oc cfg (asks ops) (fold (oauth_step oc save) ops (oauth_start cfg u))"
proof (induction ops rule: rev_induct)
  case Nil
  then show ?case by (simp add: bound_world_def logins_def oauth_start_def issued_for_def)
next
  case (snoc op ops)
  have "world_wf (fold (oauth_step oc save) ops (oauth_start cfg u))"
    by (rule wf_reachable [OF oauth_reachable_fold [OF oauth_init]])
  from bound_step [OF this snoc assms] show ?case by (simp add: asks_snoc)
qed

text \<open>
  C17. Credentials stay with the upstream they were issued for. Whatever happened since the start, a token that is handed
  out for a session, and a refresh token that is spent, come from the record under its name with exactly the address
  of that session. The token endpoint and the resource of this record were discovered in this history, for this
  address: the replies to one discovery contain protected-resource metadata that covers the address, its first
  authorization server, and at the well-known place of this server metadata whose issuer is this server, with this
  token endpoint and PKCE; or they are those of the record that was stored under the name, for the same address, before the
  start. A refresh goes only to that endpoint, over a secure connection, and a code in exchange belongs to a login
  discovered the same way. (The reader of token records is documented to read what was written.)
\<close>

theorem oauth_tokens_bound:
  assumes "w = fold (oauth_step oc save) ops (oauth_start cfg u)" and "\<And>r. oc_read oc (oc_write oc r) = Some r"
  shows "(token_begin oc t rejected i (ow w) = Token_ready a \<longrightarrow>
       (\<exists>r. load_token oc (tokens (ow w)) (sess_name (sessions (ow w) ! i)) = Some r \<and> access_token r = a
          \<and> server_url r = sess_url (sessions (ow w) ! i) \<and> issued_for oc cfg (asks ops) (sess_name (sessions (ow w) ! i)) r
          \<and> \<not> expires_soon t r \<and> rejected \<noteq> Some a))
    \<and> (token_begin oc t rejected i (ow w) = Token_refresh g r post \<longrightarrow>
       load_token oc (tokens (ow w)) (sess_name (sessions (ow w) ! i)) = Some r
       \<and> server_url r = sess_url (sessions (ow w) ! i) \<and> issued_for oc cfg (asks ops) (sess_name (sessions (ow w) ! i)) r
       \<and> safe_address oc (token_endpoint r) (fp_url post))
    \<and> (flights w j = Some (Exchanging l) \<longrightarrow>
       (\<exists>ask \<in> asks ops. discovered oc ask (sess_url (sessions (ow w) ! pl_session l)) (pl_discovery l)))"
proof -
  have b: "bound_world oc cfg (asks ops) w" unfolding assms(1) by (rule bound_history [OF assms(2)])
  show ?thesis
  proof (intro conjI impI)
    assume "token_begin oc t rejected i (ow w) = Token_ready a"
    then show "\<exists>r. load_token oc (tokens (ow w)) (sess_name (sessions (ow w) ! i)) = Some r \<and> access_token r = a
        \<and> server_url r = sess_url (sessions (ow w) ! i) \<and> issued_for oc cfg (asks ops) (sess_name (sessions (ow w) ! i)) r
        \<and> \<not> expires_soon t r \<and> rejected \<noteq> Some a"
      using b by (auto simp: token_begin_def Let_def bound_world_def split: if_splits option.splits sum.splits)
  next
    assume "token_begin oc t rejected i (ow w) = Token_refresh g r post"
    note refresh = token_begin_refresh [OF this]
    show "load_token oc (tokens (ow w)) (sess_name (sessions (ow w) ! i)) = Some r" by (rule refresh(3))
    show "server_url r = sess_url (sessions (ow w) ! i)" by (rule refresh(4))
    show "issued_for oc cfg (asks ops) (sess_name (sessions (ow w) ! i)) r" using b refresh(3) by (simp add: bound_world_def)
    show "safe_address oc (token_endpoint r) (fp_url post)" using refresh(5) by (simp add: secure_url_safe)
  next
    assume "flights w j = Some (Exchanging l)"
    then show "\<exists>ask \<in> asks ops. discovered oc ask (sess_url (sessions (ow w) ! pl_session l)) (pl_discovery l)"
      using b by (auto simp: bound_world_def logins_def)
  qed
qed


section \<open>Samples\<close>

text \<open>A faithful text of token records.\<close>

fun pack :: "string list \<Rightarrow> string" where
  "pack [] = []"
| "pack ([] # ss) = CHR ''.'' # pack ss"
| "pack ((c # s) # ss) = CHR ''+'' # c # pack (s # ss)"

fun unpack :: "string \<Rightarrow> string list" where
  "unpack [] = []"
| "unpack [d] = (if d = CHR ''.'' then [[]] else [])"
| "unpack (d # c # r) = (if d = CHR ''.'' then [] # unpack (c # r) else case unpack r of [] \<Rightarrow> [[c]] | s # ss \<Rightarrow> (c # s) # ss)"

lemma unpack_dot: "unpack (CHR ''.'' # r) = [] # unpack r"
  by (cases r) simp_all

lemma unpack_pack [simp]: "unpack (pack ss) = ss"
  by (induction ss rule: pack.induct) (simp_all add: unpack_dot)

definition pack_option :: "string option \<Rightarrow> string" where
  "pack_option v = (case v of None \<Rightarrow> [] | Some s \<Rightarrow> CHR ''s'' # s)"

definition unpack_option :: "string \<Rightarrow> string option" where
  "unpack_option s = (case s of [] \<Rightarrow> None | _ # r \<Rightarrow> Some r)"

definition pack_int :: "int option \<Rightarrow> string" where
  "pack_int v = (case v of None \<Rightarrow> [] | Some i \<Rightarrow> (if i < 0 then CHR ''-'' else CHR ''+'') # replicate (nat \<bar>i\<bar>) (CHR ''1''))"

definition unpack_int :: "string \<Rightarrow> int option" where
  "unpack_int s = (case s of [] \<Rightarrow> None | d # r \<Rightarrow> Some (if d = CHR ''-'' then - int (length r) else int (length r)))"

definition sample_token_write :: "TokenRecord \<Rightarrow> string" where
  "sample_token_write r = pack [access_token r, pack_option (tr_refresh_token r), pack_int (tr_expires_at r), token_endpoint r, tr_client_id r,
     server_url r, resource r, pack_option (tr_scope r)]"

definition sample_token_read :: "string \<Rightarrow> TokenRecord option" where
  "sample_token_read s =
     (case unpack s of
        [a, rf, ex, te, ci, su, rs, sc] \<Rightarrow>
          Some \<lparr>access_token = a, tr_refresh_token = unpack_option rf, tr_expires_at = unpack_int ex, token_endpoint = te,
            tr_client_id = ci, server_url = su, resource = rs, tr_scope = unpack_option sc\<rparr>
      | _ \<Rightarrow> None)"

lemma sample_token_codec: "sample_token_read (sample_token_write r) = Some r"
  by (cases r) (auto simp: sample_token_read_def sample_token_write_def unpack_option_def pack_option_def unpack_int_def pack_int_def
      split: option.splits)

definition sample_web_url :: "string \<Rightarrow> WebUrl option" where
  "sample_web_url s =
     (if s = ''http://localhost/cb'' then Some \<lparr>wu_text = s, wu_scheme = ''http'', wu_username = [], wu_password = None,
        wu_host = Some ''localhost'', wu_port = Some 80, wu_path = ''/cb'', wu_query = None, wu_fragment = None\<rparr>
      else case strip_prefix ''https://h'' s of
          None \<Rightarrow> None
        | Some p \<Rightarrow> Some \<lparr>wu_text = s, wu_scheme = ''https'', wu_username = [], wu_password = None, wu_host = Some ''h'', wu_port = Some 443,
            wu_path = p, wu_query = None, wu_fragment = None\<rparr>)"

definition sample_oauth_code :: oauth_code where
  "sample_oauth_code = \<lparr>oc_url = sample_web_url, oc_at_path = (\<lambda>u p. u\<lparr>wu_text := ''https://h'' @ p, wu_path := p\<rparr>), oc_pairs = (\<lambda>_. []),
     oc_with_pairs = (\<lambda>u _. wu_text u), oc_read = sample_token_read, oc_write = sample_token_write, oc_challenge = (\<lambda>s. s),
     oc_simple = (\<lambda>n. replicate n (CHR ''u'')), oc_status = (\<lambda>_. [])\<rparr>"

definition json_reply :: "Json \<Rightarrow> oauth_reply" where
  "json_reply j = \<lparr>or_status = 200, or_challenges = [], or_json = Some j\<rparr>"

definition sample_ask :: "nat \<Rightarrow> WebUrl \<Rightarrow> oauth_reply option" where
  "sample_ask i u = map_option json_reply
     (if i = 0 then Some JNull
      else if i = 1 then Some (JObject [(''resource'', JString ''https://h/mcp''), (''authorization_servers'', JArray [JString ''https://h/as''])])
      else if i = 3 then Some (JObject [(''issuer'', JString ''https://h/as''), (''authorization_endpoint'', JString ''https://h/a''),
        (''token_endpoint'', JString ''https://h/t''), (''registration_endpoint'', JString ''https://h/r''),
        (''code_challenge_methods_supported'', JArray [JString ''S256''])])
      else if i = 4 then Some (JObject [(''client_id'', JString ''c'')]) else None)"

definition sample_token_reply :: "string \<Rightarrow> oauth_reply" where
  "sample_token_reply a = json_reply (JObject [(''access_token'', JString a), (''token_type'', JString ''Bearer''),
     (''refresh_token'', JString ''r''), (''expires_in'', JNull)])"

definition sample_login_ops :: "oauth_op list" where
  "sample_login_ops = [Create ''l'' ''https://h/mcp'', Start 0 ''http://localhost/cb'' None, Started 0 (sample_clock 1) sample_ask,
     Callback (replicate 6 (CHR ''u'')) (Some ''code'') None, Enter 0 (sample_clock 2),
     Exchanged 0 (sample_clock 3) (Some (sample_token_reply ''tok''))]"

definition sample_no_tokens :: "unit Settings" where
  "sample_no_tokens = sample_settings\<lparr>secrets := \<lparr>secret_map = [], persistence = ()\<rparr>\<rparr>"

definition sample_logged_in :: "unit oauth_world" where
  "sample_logged_in = fold (oauth_step sample_oauth_code no_store_save) sample_login_ops (oauth_start sample_no_tokens 0)"

lemma sample_logged_in_reachable: "oauth_reachable sample_oauth_code no_store_save sample_no_tokens sample_logged_in"
  unfolding sample_logged_in_def by (rule oauth_reachable_fold [OF oauth_init])

text \<open>After a login the token is handed out, and it is bound.\<close>

theorem oauth_tokens_bound_witness:
  "token_begin sample_oauth_code (sample_clock 4) None 0 (ow sample_logged_in) = Token_ready ''tok''
    \<and> (\<exists>d. discovered sample_oauth_code sample_ask ''https://h/mcp'' d)"
proof -
  have ready: "token_begin sample_oauth_code (sample_clock 4) None 0 (ow sample_logged_in) = Token_ready ''tok''" by code_simp
  have "oc_read sample_oauth_code (oc_write sample_oauth_code r) = Some r" for r
    by (simp add: sample_oauth_code_def sample_token_codec)
  from oauth_tokens_bound [OF sample_logged_in_def this] ready
  obtain r where r: "issued_for sample_oauth_code sample_no_tokens (asks sample_login_ops) (sess_name (sessions (ow sample_logged_in) ! 0)) r"
      "server_url r = sess_url (sessions (ow sample_logged_in) ! 0)" by blast
  have "sess_url (sessions (ow sample_logged_in) ! 0) = ''https://h/mcp''" by code_simp
  moreover have "asks sample_login_ops = {sample_ask}" by (auto simp: asks_def sample_login_ops_def)
  moreover have "load_token sample_oauth_code sample_no_tokens n = None" for n by (simp add: load_token_def secret_def sample_no_tokens_def)
  ultimately show ?thesis using ready r by (auto simp: issued_for_def)
qed

text \<open>A refresh is in flight when the host disconnects; its reply arrives and is dropped.\<close>

definition sample_refreshing :: "unit oauth_world" where
  "sample_refreshing = oauth_step sample_oauth_code no_store_save (Request (sample_clock 4) (Some ''tok'') 0) sample_logged_in"

theorem disconnect_is_final_witness:
  "load_token sample_oauth_code (tokens (ow sample_refreshing)) ''l'' \<noteq> None
    \<and> load_token sample_oauth_code (tokens (ow (oauth_step sample_oauth_code no_store_save
         (Refreshed 0 (sample_clock 6) (Some (sample_token_reply ''new'')))
         (sample_refreshing\<lparr>ow := snd (disconnect no_store_save 0 (ow sample_refreshing))\<rparr>)))) ''l'' = None
    \<and> (\<exists>g r e. flights sample_refreshing 0 = Some (Refreshing g r)
         \<and> fst (token_finish sample_oauth_code no_store_save (sample_clock 6) 0 g r (Some (sample_token_reply ''new''))
             (snd (disconnect no_store_save 0 (ow sample_refreshing)))) = Inl e)"
proof -
  let ?st = "snd (disconnect no_store_save 0 (ow sample_refreshing))"
  let ?op = "Refreshed 0 (sample_clock 6) (Some (sample_token_reply ''new''))"
  have reach: "oauth_reachable sample_oauth_code no_store_save sample_no_tokens sample_refreshing"
    unfolding sample_refreshing_def by (rule oauth_next [OF sample_logged_in_reachable])
  have live: "0 < length (sessions (ow sample_refreshing))" by code_simp
  have "fst (disconnect no_store_save 0 (ow sample_refreshing)) = Inr ()" by code_simp
  then have gone: "disconnect no_store_save 0 (ow sample_refreshing) = (Inr (), ?st)" by (simp add: prod_eq_iff)
  have name: "sess_name (sessions (ow sample_refreshing) ! 0) = ''l''" "sess_name (sessions ?st ! 0) = ''l''" by code_simp+
  have quiet: "no_login sample_oauth_code no_store_save ''l'' [?op] (sample_refreshing\<lparr>ow := ?st\<rparr>)"
    "no_login sample_oauth_code no_store_save ''l'' [] (sample_refreshing\<lparr>ow := ?st\<rparr>)" by simp_all
  note after = disconnect_is_final [OF reach live gone name(1) quiet(1) refl]
  note late = disconnect_is_final [OF reach live gone name(1) quiet(2) refl]
  have "load_token sample_oauth_code (tokens (ow sample_refreshing)) ''l'' \<noteq> None" by code_simp
  moreover have "load_token sample_oauth_code (tokens (ow (oauth_step sample_oauth_code no_store_save ?op (sample_refreshing\<lparr>ow := ?st\<rparr>)))) ''l'' = None"
    using after [THEN conjunct1] by (simp only: fold_simps id_apply)
  moreover have "case flights sample_refreshing 0 of Some (Refreshing _ _) \<Rightarrow> True | _ \<Rightarrow> False" by code_simp
  then obtain g r where f: "flights sample_refreshing 0 = Some (Refreshing g r)" by (auto split: option.splits flight.splits)
  moreover have "\<exists>e. token_finish sample_oauth_code no_store_save t 0 g r reply ?st = (Inl e, ?st)" for t reply
    using late [THEN conjunct2, THEN conjunct2, THEN conjunct1] f name(2) by simp
  ultimately show ?thesis by (metis fst_conv)
qed

end
