(* ===== verification/Mcp_Safe.thy ===== *)
theory Mcp_Safe
  imports Mcp Mcp_Oauth_Safe
begin

text \<open>What reaches the MCP servers, what guests see of them, and what a change of the forwards forgets.\<close>

section \<open>Messages upstream\<close>

definition to_forward :: "ForwardR \<Rightarrow> Json set \<Rightarrow> mcp_sent list \<Rightarrow> bool" where
  "to_forward f msgs sent \<longleftrightarrow> (\<forall>s \<in> set sent. ms_url s = fc_url (fw_config f) \<and> ms_message s \<in> msgs)"

lemma post_raw_sent:
  assumes "post_raw mc e n f msg sid b = (r, b', sent)"
  shows "to_forward f {msg} sent \<and> length sent \<le> 2"
  using assms by (auto simp: post_raw_def Let_def to_forward_def post_message_def split: sum.splits prod.splits if_splits)

lemma initialize_sent:
  assumes "initialize_upstream mc e f b = (r, b', sent)"
  shows "to_forward f {init_message, initialized_message} sent"
  using assms by (auto simp: initialize_upstream_def Let_def to_forward_def split: sum.splits prod.splits if_splits dest!: post_raw_sent)

lemma call_sent:
  assumes "call_upstream mc e f msg b = (r, b', sent)" and "msg \<notin> {init_message, initialized_message}"
  shows "to_forward f {init_message, initialized_message, msg} sent \<and> length (filter (\<lambda>s. ms_message s = msg) sent) \<le> 2"
proof -
  have none: "filter (\<lambda>s. ms_message s = msg) xs = []" if "to_forward f {init_message, initialized_message} xs" for xs
    using that assms(2) by (auto simp: to_forward_def filter_empty_conv)
  have short: "length (filter (\<lambda>s. ms_message s = msg) xs) \<le> 2" if "length xs \<le> 2" for xs
    using that by (rule order_trans [OF length_filter_le])
  show ?thesis
    using assms(1) none short
    by (auto simp: call_upstream_def Let_def to_forward_def split: sum.splits prod.splits option.splits if_splits
        dest!: initialize_sent post_raw_sent)
qed

lemma method_distinct: "method_of init_message = ''initialize''" "method_of initialized_message = ''notifications/initialized''"
  by (simp_all add: method_of_def init_message_def initialized_message_def json_get_def as_str_def)

lemma listed_allowed:
  assumes "json_get ''result'' (json_amend ''result'' (filter_list_result f) j) = Some r" and "json_get ''tools'' r = Some (JArray xs)" and "tool \<in> set xs"
  shows "allowed_tool f tool"
proof -
  have assoc: "map_of (map (\<lambda>(a, v). (a, if a = k then g v else v)) m) k = map_option g (map_of m k)" for k g and m :: "(string \<times> Json) list"
    by (induction m) auto
  have amend: "json_get k (json_amend k g x) = map_option g (json_get k x)" for k g x
    by (simp add: json_amend_def json_get_def assoc split: Json.splits)
  let ?keep = "\<lambda>v. case v of JArray xs \<Rightarrow> JArray (filter (allowed_tool f) xs) | _ \<Rightarrow> v"
  obtain r0 where r: "r = json_amend ''tools'' ?keep r0" using assms(1) by (auto simp: amend filter_list_result_def)
  then obtain v where v: "?keep v = JArray xs" using assms(2) by (auto simp: amend simp del: Json.case)
  then obtain ys where "v = JArray ys" by (cases v) auto
  with v assms(3) show ?thesis by auto
qed


lemma dispatch_sent:
  assumes "dispatch mc e f method i msg b = ((vd, ans), b', sent)" and "method = method_of msg" and "sent \<noteq> []"
  shows "(method = ''tools/list'' \<or> method = ''tools/call'' \<and> allows f (tool_of msg))
    \<and> to_forward f {init_message, initialized_message, msg} sent \<and> length (filter (\<lambda>s. ms_message s = msg) sent) \<le> 2"
proof -
  obtain r b1 out where call: "call_upstream mc e f msg b = (r, b1, out)" by (cases "call_upstream mc e f msg b")
  have "msg \<notin> {init_message, initialized_message}" if "method \<in> {''tools/list'', ''tools/call''}"
    using that assms(2) method_distinct by auto
  then show ?thesis
    using assms(1,3) call_sent [OF call] unfolding dispatch_def
    by (auto simp: forwarded_def call split: if_splits sum.splits)
qed

lemma dispatch_listed:
  assumes "dispatch mc e f ''tools/list'' i msg b = ((vd, ans), b', sent)"
    and "json_get ''result'' ans = Some r" and "json_get ''tools'' r = Some (JArray xs)" and "tool \<in> set xs"
  shows "allowed_tool f tool"
  using assms listed_allowed [of f _ r xs tool]
  by (auto simp: dispatch_def forwarded_def error_response_def json_get_def split: sum.splits prod.splits)

text \<open>
  C16. The MCP bridge forwards only what the configuration shares. Anything a guest's message sends upstream goes to the
  address of the named forward, for a guest that is alive, approved and admitted from its address and with which the forward
  is shared, and it is the session set-up or a listing or an allowed tool call, itself sent at most twice. A listing shows
  only allowed tools.
\<close>

theorem mcp_forward_confined:
  assumes "handle_message mc e n c peer msg b = (ans, b', sent)"
  shows "(sent \<noteq> [] \<longrightarrow> (\<exists>f app m. get_forward n (snd b) = Some f \<and> me_gap e 3 True 0 b = (app, m)
        \<and> \<not> is_killed app c \<and> fst (authorize (me_clock e) c peer app) = Allowed \<and> allows_guest f c
        \<and> (method_of msg = ''tools/list'' \<or> method_of msg = ''tools/call'' \<and> allows f (tool_of msg))
        \<and> to_forward f {init_message, initialized_message, msg} sent \<and> length (filter (\<lambda>s. ms_message s = msg) sent) \<le> 2))
    \<and> (method_of msg = ''tools/list'' \<longrightarrow> (\<forall>r xs tool. json_get ''result'' ans = Some r \<longrightarrow> json_get ''tools'' r = Some (JArray xs) \<longrightarrow> tool \<in> set xs
        \<longrightarrow> (\<exists>f. get_forward n (snd b) = Some f \<and> allowed_tool f tool)))"
proof (cases "get_forward n (snd b)")
  case None
  then show ?thesis using assms by (auto simp: handle_message_def Let_def error_response_def json_get_def)
next
  case (Some f)
  obtain app m where gap: "me_gap e 3 True 0 b = (app, m)" by fastforce
  obtain why app1 where denial: "mcp_denial (me_clock e) f c peer app = (why, app1)" by fastforce
  show ?thesis
  proof (cases why)
    case (Some w)
    then show ?thesis
      using assms \<open>get_forward n (snd b) = Some f\<close> gap denial
      by (auto simp: handle_message_def Let_def error_response_def json_get_def split: prod.splits)
  next
    case None
    obtain vd ans' b1 out where d: "dispatch mc e f (method_of msg) (id_of msg) msg (app1, m) = ((vd, ans'), b1, out)" by (metis prod.collapse)
    then have same: "ans = ans'" "sent = out"
      using assms \<open>get_forward n (snd b) = Some f\<close> gap denial None by (auto simp: handle_message_def Let_def split: prod.splits)
    have "\<not> is_killed app c \<and> fst (authorize (me_clock e) c peer app) = Allowed \<and> allows_guest f c"
      using denial None by (auto simp: mcp_denial_def split: if_splits prod.splits)
    moreover have "allowed_tool f tool"
      if "method_of msg = ''tools/list''" "json_get ''result'' ans = Some r" "json_get ''tools'' r = Some (JArray xs)" "tool \<in> set xs" for r xs tool
      using dispatch_listed [of mc e f "id_of msg" msg "(app1, m)" vd ans' b1 out r xs tool] d that same by simp
    ultimately show ?thesis
      using \<open>get_forward n (snd b) = Some f\<close> gap dispatch_sent [OF d refl] same by blast
  qed
qed


section \<open>The registry\<close>

definition registry_ok :: "'p mcp_state \<Rightarrow> bool" where
  "registry_ok m \<longleftrightarrow> distinct_keys (forwards m) \<and> (\<forall>(n, f) \<in> set (forwards m). fc_name (fw_config f) = n
     \<and> fw_oauth f < length (sessions (oauth m)) \<and> sess_name (sessions (oauth m) ! fw_oauth f) = n
     \<and> sess_url (sessions (oauth m) ! fw_oauth f) = fc_url (fw_config f) \<and> fw_cell f < length (cells m))"

text \<open>The states grow while the forwards are rebuilt.\<close>

definition extends :: "'p mcp_state \<Rightarrow> 'p mcp_state \<Rightarrow> bool" where
  "extends m m' \<longleftrightarrow> (\<exists>ss cs. sessions (oauth m') = sessions (oauth m) @ ss \<and> cells m' = cells m @ cs) \<and> tokens (oauth m') = tokens (oauth m)
     \<and> forwards m' = forwards m \<and> next_uuid (oauth m) \<le> next_uuid (oauth m')"

lemma extends_trans: "extends a b \<Longrightarrow> extends b c \<Longrightarrow> extends a c"
  by (auto simp: extends_def)

definition forward_ok :: "'p mcp_state \<Rightarrow> ForwardConfig \<Rightarrow> ForwardR \<Rightarrow> bool" where
  "forward_ok m c f \<longleftrightarrow> fw_config f = c \<and> fw_oauth f < length (sessions (oauth m)) \<and> sess_name (sessions (oauth m) ! fw_oauth f) = fc_name c
     \<and> sess_url (sessions (oauth m) ! fw_oauth f) = fc_url c \<and> fw_cell f < length (cells m)"

lemma forward_ok_extends: "forward_ok m c f \<Longrightarrow> extends m m' \<Longrightarrow> forward_ok m' c f"
  by (auto simp: forward_ok_def extends_def nth_append)

lemma new_forward_ok:
  assumes "new_forward c m = (f, m')"
  shows "extends m m'" "forward_ok m' c f" "fw_oauth f = length (sessions (oauth m))"
  using assms by (auto simp: new_forward_def new_session_def extends_def forward_ok_def)

text \<open>A forward of the registry keeps its session exactly while its upstream stays the same.\<close>

definition kept_session :: "'p mcp_state \<Rightarrow> ForwardConfig \<Rightarrow> ForwardR \<Rightarrow> bool" where
  "kept_session m c f \<longleftrightarrow> (case get_forward (fc_name c) m of
     Some old \<Rightarrow> (if same_upstream old c then fw_oauth f = fw_oauth old else length (sessions (oauth m)) \<le> fw_oauth f)
   | None \<Rightarrow> length (sessions (oauth m)) \<le> fw_oauth f)"

lemma rebuilt_forward_ok:
  assumes "registry_ok m0" and "extends m0 m" and "rebuilt_forward (forwards m0) c m = (f, m')"
  shows "extends m m' \<and> forward_ok m' c f \<and> kept_session m0 c f"
proof (cases "get_forward (fc_name c) m0")
  case None
  then show ?thesis
    using assms new_forward_ok [of c m f m'] by (auto simp: rebuilt_forward_def get_forward_def kept_session_def extends_def)
next
  case (Some old)
  then have old: "map_of (forwards m0) (fc_name c) = Some old" by (simp add: get_forward_def)
  then have ok: "forward_ok m0 (fw_config old) old" "fc_name (fw_config old) = fc_name c"
    using assms(1) by (auto simp: registry_ok_def forward_ok_def dest!: map_of_SomeD)
  have longer: "length (sessions (oauth m0)) \<le> length (sessions (oauth m))" using assms(2) by (auto simp: extends_def)
  show ?thesis
  proof (cases "same_upstream old c")
    case True
    then have f: "fw_oauth f = fw_oauth old" "fw_config f = c" "fw_cell f = fw_cell old" "m' = m"
      using assms(3) old by (auto simp: rebuilt_forward_def split: if_splits)
    then have "forward_ok m c f" using forward_ok_extends [OF ok(1) assms(2)] ok(2) True by (auto simp: forward_ok_def same_upstream_def)
    then show ?thesis using f True Some by (simp add: kept_session_def extends_def)
  next
    case False
    then have "fw_config old \<noteq> c" by (auto simp: same_upstream_def)
    then have "new_forward c m = (f, m')" using assms(3) old False by (simp add: rebuilt_forward_def)
    from new_forward_ok [OF this] show ?thesis using Some False longer by (simp add: kept_session_def)
  qed
qed

lemma rebuild_ok:
  assumes "registry_ok m0" and "extends m0 m" and "distinct (map fc_name cs)" and "rebuild (forwards m0) cs m = (fs, m')"
  shows "extends m m' \<and> distinct_keys fs \<and> (\<forall>(n, f) \<in> set fs. \<exists>c \<in> set cs. n = fc_name c \<and> forward_ok m' c f \<and> kept_session m0 c f)
    \<and> (\<forall>c \<in> set cs. map_of fs (fc_name c) \<noteq> None)"
  using assms(2-4)
proof (induction cs arbitrary: m fs m')
  case Nil
  then show ?case by (auto simp: extends_def)
next
  case (Cons c cs)
  obtain f m1 where f: "rebuilt_forward (forwards m0) c m = (f, m1)" by fastforce
  obtain fs' m2 where fs': "rebuild (forwards m0) cs m1 = (fs', m2)" by fastforce
  have here: "fs = AList.update (fc_name c) f fs'" "m' = m2" using Cons.prems(3) f fs' by simp_all
  have one: "extends m m1" "forward_ok m1 c f" "kept_session m0 c f" using rebuilt_forward_ok [OF assms(1) Cons.prems(1) f] by auto
  have IH: "extends m1 m2 \<and> distinct_keys fs' \<and> (\<forall>(n, f) \<in> set fs'. \<exists>c \<in> set cs. n = fc_name c \<and> forward_ok m2 c f \<and> kept_session m0 c f)
      \<and> (\<forall>c \<in> set cs. map_of fs' (fc_name c) \<noteq> None)"
    using Cons.IH [OF extends_trans [OF Cons.prems(1) one(1)] _ fs'] Cons.prems(2) by simp
  show ?case
    unfolding here
    using IH one forward_ok_extends [OF one(2)] extends_trans [OF one(1)] set_update_subset [of "fc_name c" f fs']
    by (auto simp: AList.update_conv' dest!: subsetD)
qed


lemma retire_done:
  assumes "retire save i st = (Inr (), st')"
  shows "sess_step st st'" "i < length (sessions st) \<Longrightarrow> retired (sessions st' ! i)" "j \<noteq> i \<Longrightarrow> sessions st' ! j = sessions st ! j"
    "secret (tokens st') (token_key n) = (if n = sess_name (sessions st ! i) then None else secret (tokens st) (token_key n))"
  using assms retire_parts(1) [of st save i] retire_secret [of save i st n]
  by (auto simp: retire_def Let_def settings_text_def split: prod.splits sum.splits)

lemma retire_all_done:
  assumes "retire_all save is st = (Inr (), st')" and "\<forall>i \<in> set is. i < length (sessions st)"
  shows "sess_step st st' \<and> (\<forall>i \<in> set is. retired (sessions st' ! i)) \<and> (\<forall>j. j \<notin> set is \<longrightarrow> sessions st' ! j = sessions st ! j)
    \<and> (\<forall>n. secret (tokens st') (token_key n) = (if n \<in> (\<lambda>i. sess_name (sessions st ! i)) ` set is then None else secret (tokens st) (token_key n)))"
  using assms
proof (induction "is" arbitrary: st)
  case Nil
  then show ?case by (simp add: sess_step_same)
next
  case (Cons i "is")
  obtain st1 where one: "retire save i st = (Inr (), st1)" and rest: "retire_all save is st1 = (Inr (), st')"
    using Cons.prems(1) by (auto split: prod.splits sum.splits)
  note step = retire_done(1) [OF one]
  have len: "length (sessions st1) = length (sessions st)" using step by (simp add: sess_step_def)
  have IH: "sess_step st1 st'" "\<forall>i \<in> set is. retired (sessions st' ! i)" "\<And>j. j \<notin> set is \<Longrightarrow> sessions st' ! j = sessions st1 ! j"
    "\<And>n. secret (tokens st') (token_key n)
       = (if n \<in> (\<lambda>i. sess_name (sessions st1 ! i)) ` set is then None else secret (tokens st1) (token_key n))"
    using Cons.IH [OF rest] Cons.prems(2) len by auto
  have names: "(\<lambda>i. sess_name (sessions st1 ! i)) ` set is = (\<lambda>i. sess_name (sessions st ! i)) ` set is"
    using step Cons.prems(2) by (intro image_cong) (auto simp: sess_step_def)
  have all: "sess_step st st'" using step IH(1) unfolding sess_step_def by (auto; metis order.trans order_less_le_trans)
  have "retired (sessions st' ! i)" using retire_done(2) [OF one] IH(1) Cons.prems(2) len by (auto simp: sess_step_def)
  then show ?case using all IH retire_done(3,4) [OF one] by (auto simp: names)
qed

lemma validate_distinct:
  assumes "fold_res (validate_config mc) cs ns = Inr ns'"
  shows "distinct (map fc_name cs) \<and> set (map fc_name cs) \<inter> set ns = {}"
  using assms
proof (induction cs arbitrary: ns)
  case (Cons c cs)
  then obtain ns1 where v: "validate_config mc c ns = Inr ns1" "fold_res (validate_config mc) cs ns1 = Inr ns'"
    by (auto simp: bind_res_Inr_iff)
  then have "ns1 = fc_name c # ns" "fc_name c \<notin> set ns" by (auto simp: validate_config_def bind_res_Inr_iff split: if_splits)
  with Cons.IH [OF v(2)] show ?case by auto
qed simp

lemma left_behind_iff:
  assumes "distinct_keys cur"
  shows "i \<in> set (left_behind cur fs) \<longleftrightarrow> (\<exists>n old. map_of cur n = Some old \<and> fw_oauth old = i \<and> (\<forall>new. map_of fs n = Some new \<longrightarrow> fw_oauth new \<noteq> i))"
  using map_of_in_distinct [OF assms] by (auto simp: left_behind_def opt_all_iff) force+


definition same_forward :: "ForwardConfig list \<Rightarrow> string \<Rightarrow> ForwardR \<Rightarrow> bool" where
  "same_forward cs n old \<longleftrightarrow> (\<exists>c \<in> set cs. fc_name c = n \<and> same_upstream old c)"

lemma publish_done:
  assumes "registry_ok m" and "distinct (map fc_name cs)" and "publish_forwards mc cs m = (Inr k, m')"
  shows "registry_ok m'"
    and "c \<in> set cs \<Longrightarrow> \<exists>f. get_forward (fc_name c) m' = Some f \<and> fw_config f = c \<and> kept_session m c f"
    and "get_forward n m' = Some f \<Longrightarrow> \<exists>c \<in> set cs. fc_name c = n"
    and "get_forward n m = Some old \<Longrightarrow> \<not> same_forward cs n old \<Longrightarrow>
      retired (sessions (oauth m') ! fw_oauth old) \<and> secret (tokens (oauth m')) (token_key n) = None"
    and "get_forward n m = Some old \<Longrightarrow> same_forward cs n old \<Longrightarrow>
      sessions (oauth m') ! fw_oauth old = sessions (oauth m) ! fw_oauth old
      \<and> secret (tokens (oauth m')) (token_key n) = secret (tokens (oauth m)) (token_key n)"
proof -
  obtain fs m1 where re: "rebuild (forwards m) cs m = (fs, m1)" by fastforce
  let ?left = "left_behind (forwards m) fs"
  obtain st where ret: "retire_all (mc_save mc) ?left (oauth m1) = (Inr (), st)" and m': "m' = m1\<lparr>oauth := st, forwards := fs\<rparr>"
    using assms(3) re by (auto simp: publish_forwards_def split: prod.splits sum.splits)
  have "extends m m" by (auto simp: extends_def)
  from rebuild_ok [OF assms(1) this assms(2) re]
  have ext: "extends m m1" and keys: "distinct_keys fs"
    and each: "\<And>n f. map_of fs n = Some f \<Longrightarrow> \<exists>c \<in> set cs. n = fc_name c \<and> forward_ok m1 c f \<and> kept_session m c f"
    and total: "\<And>c. c \<in> set cs \<Longrightarrow> map_of fs (fc_name c) \<noteq> None"
    by (auto dest!: map_of_SomeD)
  have dist: "distinct_keys (forwards m)" using assms(1) by (simp add: registry_ok_def)
  have old_ok: "fw_oauth old < length (sessions (oauth m)) \<and> sess_name (sessions (oauth m) ! fw_oauth old) = n"
    if "map_of (forwards m) n = Some old" for n old
    using assms(1) map_of_SomeD [OF that] by (auto simp: registry_ok_def)
  have grow: "sessions (oauth m1) ! i = sessions (oauth m) ! i \<and> i < length (sessions (oauth m1))" if "i < length (sessions (oauth m))" for i
    using ext that by (auto simp: extends_def nth_append)
  have left_old: "\<forall>i \<in> set ?left. i < length (sessions (oauth m))" using old_ok by (auto simp: left_behind_iff [OF dist])
  then have "\<forall>i \<in> set ?left. i < length (sessions (oauth m1))" using grow by blast
  note done' = retire_all_done [OF ret this]
  have names: "(\<lambda>i. sess_name (sessions (oauth m1) ! i)) ` set ?left = (\<lambda>i. sess_name (sessions (oauth m) ! i)) ` set ?left"
    using left_old grow by (intro image_cong) auto
  have unique: "c = c'" if "c \<in> set cs" "c' \<in> set cs" "fc_name c = fc_name c'" for c c'
    using assms(2) that by (metis distinct_map inj_on_def)
  have left_iff: "fw_oauth old \<in> set ?left \<longleftrightarrow> \<not> same_forward cs n old" if old: "map_of (forwards m) n = Some old" for n old
  proof
    assume "fw_oauth old \<in> set ?left"
    then obtain n' old' where o: "map_of (forwards m) n' = Some old'" "fw_oauth old' = fw_oauth old"
      "\<forall>new. map_of fs n' = Some new \<longrightarrow> fw_oauth new \<noteq> fw_oauth old" by (auto simp: left_behind_iff [OF dist])
    then have n': "n' = n" using old_ok [OF o(1)] old_ok [OF old] by simp
    show "\<not> same_forward cs n old"
    proof
      assume "same_forward cs n old"
      then obtain c where c: "c \<in> set cs" "fc_name c = n" "same_upstream old c" by (auto simp: same_forward_def)
      obtain f where f: "map_of fs n = Some f" using total [OF c(1)] c(2) by auto
      from each [OF f] have "kept_session m c f" using unique [OF c(1)] c(2) by auto
      then show False using o(3) f c old n' by (simp add: kept_session_def get_forward_def)
    qed
  next
    assume changed: "\<not> same_forward cs n old"
    have "fw_oauth f \<noteq> fw_oauth old" if f: "map_of fs n = Some f" for f
      using each [OF f] changed old old_ok [OF old] by (auto simp: same_forward_def kept_session_def get_forward_def split: if_splits)
    then show "fw_oauth old \<in> set ?left" using old by (auto simp: left_behind_iff [OF dist])
  qed
  have sess: "sess_step (oauth m1) (oauth m')" using done' m' by simp
  show "registry_ok m'"
    unfolding registry_ok_def
  proof (intro conjI ballI, goal_cases)
    case 1
    then show ?case using keys m' by simp
  next
    case (2 p)
    then have "map_of fs (fst p) = Some (snd p)" using map_of_in_distinct [OF keys, of "fst p" "snd p"] m' by simp
    from each [OF this] obtain c where "fst p = fc_name c" "forward_ok m1 c (snd p)" by blast
    then show ?case using sess m' by (auto simp: forward_ok_def sess_step_def split_beta)
  qed
  show "\<exists>f. get_forward (fc_name c) m' = Some f \<and> fw_config f = c \<and> kept_session m c f" if c: "c \<in> set cs" for c
  proof -
    obtain f where f: "map_of fs (fc_name c) = Some f" using total [OF c] by auto
    from each [OF f] show ?thesis using f m' unique [OF c] by (auto simp: get_forward_def forward_ok_def)
  qed
  show "\<exists>c \<in> set cs. fc_name c = n" if "get_forward n m' = Some f" for n f
    using each [of n f] that m' by (auto simp: get_forward_def)
  show "retired (sessions (oauth m') ! fw_oauth old) \<and> secret (tokens (oauth m')) (token_key n) = None"
    if "get_forward n m = Some old" "\<not> same_forward cs n old" for n old
  proof -
    have old: "map_of (forwards m) n = Some old" using that(1) by (simp add: get_forward_def)
    have "fw_oauth old \<in> set ?left" using left_iff [OF old] that(2) by simp
    then show ?thesis using done' m' old_ok [OF old] names by force
  qed
  show "sessions (oauth m') ! fw_oauth old = sessions (oauth m) ! fw_oauth old
      \<and> secret (tokens (oauth m')) (token_key n) = secret (tokens (oauth m)) (token_key n)"
    if "get_forward n m = Some old" "same_forward cs n old" for n old
  proof -
    have old: "map_of (forwards m) n = Some old" using that(1) by (simp add: get_forward_def)
    have out: "fw_oauth old \<notin> set ?left" using left_iff [OF old] that(2) by simp
    moreover have "n \<notin> (\<lambda>i. sess_name (sessions (oauth m) ! i)) ` set ?left"
    proof
      assume "n \<in> (\<lambda>i. sess_name (sessions (oauth m) ! i)) ` set ?left"
      then obtain i where i: "i \<in> set ?left" "sess_name (sessions (oauth m) ! i) = n" by auto
      then obtain n' old' where "map_of (forwards m) n' = Some old'" "fw_oauth old' = i" by (auto simp: left_behind_iff [OF dist])
      then show False using old_ok [of n' old'] i old out by auto
    qed
    ultimately show ?thesis using done' m' old_ok [OF old] grow names ext by (auto simp: extends_def)
  qed
qed


text \<open>
  C19. A changed forward forgets its credentials. After the forwards are saved, the registry is exactly the saved list. A
  forward with the same address and means of authentication keeps its session and token, and one that is gone or points
  elsewhere has neither: its session is retired, so that nothing in flight can store a token again, and its token is deleted.
\<close>

theorem changed_forward_forgets:
  assumes "registry_ok m" and "save_forwards mc fault cs m = (Inr k, m')"
  shows "registry_ok m' \<and> (\<forall>c \<in> set cs. \<exists>f. get_forward (fc_name c) m' = Some f \<and> fw_config f = c)
    \<and> (\<forall>n f. get_forward n m' = Some f \<longrightarrow> (\<exists>c \<in> set cs. fc_name c = n))
    \<and> (\<forall>n old. get_forward n m = Some old \<longrightarrow>
        (if same_forward cs n old
         then (\<exists>f. get_forward n m' = Some f \<and> fw_oauth f = fw_oauth old)
           \<and> load_token (mc_oauth mc) (tokens (oauth m')) n = load_token (mc_oauth mc) (tokens (oauth m)) n
         else retired (sessions (oauth m') ! fw_oauth old) \<and> load_token (mc_oauth mc) (tokens (oauth m')) n = None))"
proof -
  obtain m1 where valid: "validate_configs mc cs = Inr ()" and pub: "publish_forwards mc cs m1 = (Inr k, m')" and m1: "\<exists>f. m1 = m\<lparr>mcp_file := f\<rparr>"
    using assms(2) by (auto simp: save_forwards_def write_forwards_def split: sum.splits prod.splits)
  have ok: "registry_ok m1" and same: "get_forward n m1 = get_forward n m" "oauth m1 = oauth m" for n
    using assms(1) m1 by (auto simp: registry_ok_def get_forward_def)
  have "\<exists>ns. fold_res (validate_config mc) cs [] = Inr ns" using valid by (cases "fold_res (validate_config mc) cs []") (auto simp: validate_configs_def)
  then have dist: "distinct (map fc_name cs)" using validate_distinct by blast
  note pub' = publish_done [OF ok dist pub]
  have keep: "\<exists>f. get_forward n m' = Some f \<and> fw_oauth f = fw_oauth old" if "get_forward n m = Some old" "same_forward cs n old" for n old
    using pub'(2) that by (fastforce simp: same_forward_def kept_session_def same)
  show ?thesis
    using pub' keep by (auto simp: load_token_def same)
qed

section \<open>Samples\<close>

definition sample_import_code :: import_code where
  "sample_import_code = \<lparr>imp_absolute = (\<lambda>_. True), imp_read = (\<lambda>_. None), imp_json = (\<lambda>_. None), imp_url = sample_web_url,
     imp_header_name = Some, imp_header_ok = (\<lambda>_. True), imp_join = (\<lambda>a b. a @ b)\<rparr>"

definition sample_tool :: "string \<Rightarrow> Json" where
  "sample_tool n = JObject [(''name'', JString n)]"

definition sample_mcp_code :: "nat mcp_code" where
  "sample_mcp_code = \<lparr>mc_oauth = sample_oauth_code, mc_import = sample_import_code, mc_save = (\<lambda>p _. (0 < p, p - 1)), mc_env = (\<lambda>_. None),
     mc_json = (\<lambda>s. Some (JObject [(''result'', if s = ''l'' then JObject [(''tools'', JArray [sample_tool ''t'', sample_tool ''u''])] else JObject [])]))\<rparr>"

definition sample_forward :: "string \<Rightarrow> ForwardConfig" where
  "sample_forward n = \<lparr>fc_name = n, fc_url = ''https://h/mcp'', fc_bearer_env = [], fc_scope = None, fc_tools = [''t''], fc_guests = None,
     fc_cline = None, fc_oauth = False\<rparr>"

definition empty_registry :: "nat \<Rightarrow> nat mcp_state" where
  "empty_registry p = \<lparr>forwards = [], mcp_file = No_forwards, cells = [],
     oauth = \<lparr>sessions = [], tokens = \<lparr>escrow = [], secrets = \<lparr>secret_map = [], persistence = p\<rparr>, escrow_file = None\<rparr>,
       pending_logins = [], login_status = [], next_uuid = 0\<rparr>\<rparr>"

definition sample_registry :: "nat mcp_state" where
  "sample_registry = snd (save_forwards sample_mcp_code No_fault [sample_forward ''a'', sample_forward ''b''] (empty_registry 1))"

definition sample_mcp_env :: "nat mcp_env" where
  "sample_mcp_env = \<lparr>me_clock = sample_clock 20, me_gap = (\<lambda>_ _ _ b. b),
     me_reply = (\<lambda>n _. Inr \<lparr>mr_status = 200, mr_session_id = Some ''s'', mr_content_type = None, mr_text = Some (if n = 2 then ''l'' else ''i'')\<rparr>),
     me_refresh = (\<lambda>_ _. None)\<rparr>"

definition sample_list_message :: Json where
  "sample_list_message = JObject [(''method'', JString ''tools/list'')]"

definition sample_listing :: "Json \<times> nat mcp_broker \<times> mcp_sent list" where
  "sample_listing = handle_message sample_mcp_code sample_mcp_env ''a'' ''g'' (V4 7) sample_list_message (sample_state, sample_registry)"

lemma empty_registry_ok: "registry_ok (empty_registry p)"
  by (simp add: registry_ok_def empty_registry_def)

text \<open>A listing goes upstream with the set-up of the session, and shows only the allowed tool.\<close>

theorem mcp_forward_confined_witness:
  "fst sample_listing = JObject [(''result'', JObject [(''tools'', JArray [sample_tool ''t''])])]
    \<and> length (snd (snd sample_listing)) = 3 \<and> (\<exists>f. get_forward ''a'' sample_registry = Some f \<and> allows_guest f ''g'')"
proof -
  have out: "fst sample_listing = JObject [(''result'', JObject [(''tools'', JArray [sample_tool ''t''])])]" "length (snd (snd sample_listing)) = 3"
    by code_simp+
  have "handle_message sample_mcp_code sample_mcp_env ''a'' ''g'' (V4 7) sample_list_message (sample_state, sample_registry)
      = (fst sample_listing, fst (snd sample_listing), snd (snd sample_listing))" by (simp add: sample_listing_def)
  from mcp_forward_confined [OF this] out show ?thesis by fastforce
qed

theorem changed_forward_forgets_witness:
  "get_forward ''b'' (snd (save_forwards sample_mcp_code No_fault [sample_forward ''a''] sample_registry)) = None
    \<and> registry_ok (snd (save_forwards sample_mcp_code No_fault [sample_forward ''a''] sample_registry))"
proof -
  let ?two = "save_forwards sample_mcp_code No_fault [sample_forward ''a'', sample_forward ''b''] (empty_registry 1)"
    and ?one = "save_forwards sample_mcp_code No_fault [sample_forward ''a''] sample_registry"
  have "fst ?two = Inr 2" "fst ?one = Inr 1" by code_simp+
  then have runs: "?two = (Inr 2, sample_registry)" "?one = (Inr 1, snd ?one)" by (simp_all add: sample_registry_def prod_eq_iff)
  have ok: "registry_ok sample_registry" using changed_forward_forgets [OF empty_registry_ok runs(1)] by blast
  from changed_forward_forgets [OF ok runs(2)] show ?thesis
    by (cases "get_forward ''b'' (snd ?one)") (auto simp: sample_forward_def)
qed

text \<open>
  A change that fails half-way: both forwards are to go, and the second deletion of a token fails. The call reports the
  failure and both forwards are still offered, but the file has the new list and the session of the first is retired.
\<close>

lemma failed_change_retires:
  "(case save_forwards sample_mcp_code No_fault [] sample_registry of
      (r, m) \<Rightarrow> r = Inl ''secrets not saved'' \<and> map fst (forwards m) = [''b'', ''a''] \<and> mcp_file m = Forwards []
        \<and> list_ex (\<lambda>(n, f). retired (sessions (oauth m) ! fw_oauth f)) (forwards m))"
  by code_simp

end
