(* ===== verification/Cline_Oauth.thy ===== *)
theory Cline_Oauth
  imports Mcp_Oauth
begin

text \<open>
  \<open>oauth.rs\<close>: the sign-in to a Cline account with a device code, and the refresh of its session. The network is the replies;
  a refresh is in two parts, as other tasks run while it waits. Parameters stand for the JSON text of a session and of a
  reply (\<open>serde_json\<close>), the time of RFC 3339 (\<open>chrono\<close>) and the text of a status.
\<close>

section \<open>Replies\<close>

text \<open>A request fails with the text of its error, or has a status and a body, which may fail to be JSON.\<close>

record cline_reply =
  cr_status :: nat
  cr_json :: "string + Json"

record cline_code =
  cl_parse :: "string \<Rightarrow> ClineSession option"
  cl_write :: "ClineSession \<Rightarrow> string"
  cl_time :: "string \<Rightarrow> int option"
  cl_status :: "nat \<Rightarrow> string"
  cl_show :: "Json \<Rightarrow> string"

definition caused :: "string \<Rightarrow> string + 'a \<Rightarrow> string + 'a" where
  "caused c r = map_sum (\<lambda>e. c @ '': '' @ e) id r"

definition text_member :: "string \<Rightarrow> Json \<Rightarrow> string option" where
  "text_member k j = Option.bind (json_get k j) as_str"

section \<open>The device code\<close>

record DeviceAuthorization =
  device_code :: string
  user_code :: string
  verification_uri :: string
  verification_uri_complete :: "string option"
  expires_in :: nat
  da_interval :: nat

definition device_field :: "string \<Rightarrow> Json \<Rightarrow> string + string" where
  "device_field k j = ok_or (''no '' @ k @ '' in device authorization'') (text_member k j)"

definition number_member :: "string \<Rightarrow> nat \<Rightarrow> Json \<Rightarrow> nat" where
  "number_member k d j = (case Option.bind (json_get k j) as_u64 of None \<Rightarrow> d | Some n \<Rightarrow> n)"

definition request_device_authorization :: "cline_code \<Rightarrow> string + cline_reply \<Rightarrow> string + DeviceAuthorization" where
  "request_device_authorization cl reply =
     bind_res (caused ''device authorization request'' reply) (\<lambda>r.
     bind_res (caused ''parse device authorization'' (cr_json r)) (\<lambda>j.
       if \<not> http_success (cr_status r)
       then Inl (''device authorization returned '' @ cl_status cl (cr_status r) @ '': '' @ cl_show cl j)
       else
         bind_res (device_field ''device_code'' j) (\<lambda>d.
         bind_res (device_field ''user_code'' j) (\<lambda>u.
         bind_res (device_field ''verification_uri'' j) (\<lambda>v.
           Inr \<lparr>device_code = d, user_code = u, verification_uri = v,
             verification_uri_complete = text_member ''verification_uri_complete'' j,
             expires_in = number_member ''expires_in'' 300 j, da_interval = max 1 (number_member ''interval'' 5 j)\<rparr>)))))"

section \<open>Polling\<close>

datatype poll_answer = Granted string string | Wait_longer nat | Poll_failed string

definition poll_answer :: "cline_code \<Rightarrow> cline_reply \<Rightarrow> poll_answer" where
  "poll_answer cl r =
     (let j = (case cr_json r of Inl _ \<Rightarrow> JNull | Inr j \<Rightarrow> j) in
      if http_success (cr_status r)
      then (case text_member ''access_token'' j of
              None \<Rightarrow> Poll_failed ''no access_token from WorkOS''
            | Some a \<Rightarrow>
                (case text_member ''refresh_token'' j of
                   None \<Rightarrow> Poll_failed ''no refresh_token from WorkOS'' | Some f \<Rightarrow> Granted a f))
      else case text_member ''error'' j of
          None \<Rightarrow> Poll_failed (''unexpected poll response: '' @ cl_show cl j)
        | Some e \<Rightarrow>
            if e = ''authorization_pending'' then Wait_longer 0
            else if e = ''slow_down'' then Wait_longer 1
            else Poll_failed (''authorization failed: '' @ e
                   @ (case text_member ''error_description'' j of None \<Rightarrow> [] | Some d \<Rightarrow> '' - '' @ d)))"

text \<open>\<open>moment k\<close> is the time before the \<open>k\<close>-th poll and \<open>polls k\<close> its reply; nothing in the code bounds the number of polls
  but the time, so a loop that goes on for ever is the value \<open>None\<close>.\<close>

partial_function (option) poll_loop ::
    "cline_code \<Rightarrow> (nat \<Rightarrow> instant) \<Rightarrow> (nat \<Rightarrow> string + cline_reply) \<Rightarrow> instant \<Rightarrow> nat \<Rightarrow> nat \<Rightarrow> (string + string \<times> string) option" where
  "poll_loop cl moment polls dl k wait =
     (if dl < moment k then Some (Inl ''device authorization timed out; start the sign-in again'')
      else case caused ''token poll'' (polls k) of
          Inl e \<Rightarrow> Some (Inl e)
        | Inr r \<Rightarrow>
            (case poll_answer cl r of
               Granted a f \<Rightarrow> Some (Inr (a, f))
             | Poll_failed e \<Rightarrow> Some (Inl e)
             | Wait_longer d \<Rightarrow> poll_loop cl moment polls dl (Suc k) (wait + d)))"

section \<open>Sessions\<close>

definition CLINE_API_BASE :: string where "CLINE_API_BASE = ''https://api.cline.bot''"

definition cline_token_request :: "cline_code \<Rightarrow> string \<Rightarrow> string + cline_reply \<Rightarrow> string + Json" where
  "cline_token_request cl url reply =
     bind_res (caused ''request'' reply) (\<lambda>r.
     bind_res (caused ''parse response'' (cr_json r)) (\<lambda>j.
       if \<not> http_success (cr_status r) \<or> Option.bind (json_get ''success'' j) as_bool \<noteq> Some True
       then Inl (url @ '' returned '' @ cl_status cl (cr_status r) @ '': '' @ cl_show cl j)
       else ok_or ''no data in response'' (json_get ''data'' j)))"

definition session_of :: "cline_code \<Rightarrow> 'p Settings \<Rightarrow> string \<Rightarrow> Json \<Rightarrow> string \<Rightarrow> string + string \<times> ClineSession" where
  "session_of cl s entry data base =
     bind_res (ok_or ''no accessToken'' (text_member ''accessToken'' data)) (\<lambda>a.
     bind_res (ok_or ''no refreshToken''
         (case text_member ''refreshToken'' data of
            Some f \<Rightarrow> Some f | None \<Rightarrow> map_option refresh_token (load_session (cl_parse cl) s entry))) (\<lambda>f.
     bind_res (ok_or ''no parseable expiresAt'' (Option.bind (text_member ''expiresAt'' data) (cl_time cl))) (\<lambda>e.
       Inr (a, \<lparr>refresh_token = f, expires_at = e, api_base_url = base\<rparr>))))"

definition store_cline_session :: "cline_code \<Rightarrow> 'p saver \<Rightarrow> string \<Rightarrow> Json \<Rightarrow> string \<Rightarrow> 'p Settings \<Rightarrow> (string + unit) \<times> 'p Settings" where
  "store_cline_session cl save entry data base s =
     (case session_of cl s entry data base of
        Inl e \<Rightarrow> (Inl e, s)
      | Inr (a, ses) \<Rightarrow> (case set_cline_session save (cl_write cl) s entry ses a of (r, s') \<Rightarrow> (settings_text r, s')))"

definition register_session :: "cline_code \<Rightarrow> 'p saver \<Rightarrow> string \<Rightarrow> string + cline_reply \<Rightarrow> 'p Settings \<Rightarrow> (string + unit) \<times> 'p Settings" where
  "register_session cl save entry reply s =
     (case caused ''Cline token registration'' (cline_token_request cl (CLINE_API_BASE @ ''/api/v1/auth/register'') reply) of
        Inl e \<Rightarrow> (Inl e, s)
      | Inr data \<Rightarrow> store_cline_session cl save entry data CLINE_API_BASE s)"

text \<open>\<open>poll_and_register\<close>: adding the lifetime to the present instant overflows, and panics, past the seconds of an \<open>i64\<close>; then,
  as when the polling never ends, there is no result. The registration sends both tokens; the
  settings are those when its reply comes.\<close>

definition checked_deadline :: "instant \<Rightarrow> nat \<Rightarrow> instant option" where
  "checked_deadline t secs = (if t div 1000 + secs < 2 ^ 63 then Some (t + 1000 * secs) else None)"

definition poll_and_register :: "cline_code \<Rightarrow> 'p saver \<Rightarrow> instant \<Rightarrow> (nat \<Rightarrow> instant) \<Rightarrow> (nat \<Rightarrow> string + cline_reply)
    \<Rightarrow> (string \<Rightarrow> string \<Rightarrow> string + cline_reply) \<Rightarrow> DeviceAuthorization \<Rightarrow> string \<Rightarrow> 'p Settings \<Rightarrow> (string + unit) option \<times> 'p Settings" where
  "poll_and_register cl save t moment polls registration d entry s =
     (case Option.bind (checked_deadline t (expires_in d)) (\<lambda>dl. poll_loop cl moment polls dl 0 (da_interval d)) of
        None \<Rightarrow> (None, s)
      | Some (Inl e) \<Rightarrow> (Some (Inl e), s)
      | Some (Inr (a, f)) \<Rightarrow> (case register_session cl save entry (registration a f) s of (r, s') \<Rightarrow> (Some r, s')))"

section \<open>Refreshing\<close>

definition session_expires_soon :: "clock \<Rightarrow> ClineSession \<Rightarrow> bool" where
  "session_expires_soon t ses \<longleftrightarrow> expires_at ses - 300 \<le> timestamp t"

text \<open>\<open>refresh_cline\<close> before and after the request; the request sends the refresh token of the loaded session to its base.\<close>

definition refresh_begin :: "cline_code \<Rightarrow> string \<Rightarrow> 'p Settings \<Rightarrow> string + ClineSession" where
  "refresh_begin cl entry s = ok_or ''no Cline session to refresh'' (load_session (cl_parse cl) s entry)"

definition refresh_body :: "ClineSession \<Rightarrow> Json" where
  "refresh_body ses = JObject [(''refreshToken'', JString (refresh_token ses)), (''grantType'', JString ''refresh_token'')]"

definition refresh_finish :: "cline_code \<Rightarrow> 'p saver \<Rightarrow> string \<Rightarrow> ClineSession \<Rightarrow> string + cline_reply \<Rightarrow> 'p Settings \<Rightarrow> (string + string) \<times> 'p Settings" where
  "refresh_finish cl save entry ses reply s =
     (case caused ''Cline token refresh (reconnect in settings if this persists)''
             (cline_token_request cl (api_base_url ses @ ''/api/v1/auth/refresh'') reply) of
        Inl e \<Rightarrow> (Inl e, s)
      | Inr data \<Rightarrow>
          (case store_cline_session cl save entry data (api_base_url ses) s of
             (Inl e, s') \<Rightarrow> (Inl e, s')
           | (Inr _, s') \<Rightarrow> (ok_or ''no accessToken after refresh'' (text_member ''accessToken'' data), s')))"

text \<open>The background task: every entry in turn; \<open>among i\<close> is what other tasks do while the \<open>i\<close>-th request is on its way.\<close>

fun refresh_expiring :: "cline_code \<Rightarrow> 'p saver \<Rightarrow> (nat \<Rightarrow> clock) \<Rightarrow> (nat \<Rightarrow> 'p Settings \<Rightarrow> 'p Settings) \<Rightarrow> (nat \<Rightarrow> string + cline_reply)
    \<Rightarrow> nat \<Rightarrow> string list \<Rightarrow> 'p Settings \<Rightarrow> 'p Settings" where
  "refresh_expiring cl save t among replies i [] s = s"
| "refresh_expiring cl save t among replies i (entry # rest) s =
     (let s' = (case load_session (cl_parse cl) s entry of
                  None \<Rightarrow> s
                | Some ses \<Rightarrow>
                    if \<not> session_expires_soon (t i) ses then s
                    else snd (refresh_finish cl save entry ses (replies i) (among i s)))
      in refresh_expiring cl save t among replies (Suc i) rest s')"

section \<open>The state of a sign-in\<close>

datatype ClineLoginState = Cline_waiting string string | Cline_connected | Cline_failed string

type_synonym ClineFlows = "(string, ClineLoginState) alist"

definition flow_status :: "string \<Rightarrow> ClineFlows \<Rightarrow> ClineLoginState option" where
  "flow_status entry fl = map_of fl entry"

definition set_flow :: "string \<Rightarrow> ClineLoginState \<Rightarrow> ClineFlows \<Rightarrow> ClineFlows" where
  "set_flow = AList.update"

definition shown_device :: "DeviceAuthorization \<Rightarrow> ClineLoginState" where
  "shown_device d = Cline_waiting (user_code d) (case verification_uri_complete d of None \<Rightarrow> verification_uri d | Some u \<Rightarrow> u)"

definition start_flow :: "cline_code \<Rightarrow> string \<Rightarrow> string + cline_reply \<Rightarrow> ClineFlows \<Rightarrow> (string + DeviceAuthorization \<times> ClineLoginState) \<times> ClineFlows" where
  "start_flow cl entry reply fl =
     (case request_device_authorization cl reply of
        Inl e \<Rightarrow> (Inl e, fl)
      | Inr d \<Rightarrow> (Inr (d, shown_device d), set_flow entry (shown_device d) fl))"

definition end_flow :: "string \<Rightarrow> (string + unit) option \<Rightarrow> ClineFlows \<Rightarrow> ClineFlows" where
  "end_flow entry r fl =
     (case r of
        None \<Rightarrow> fl
      | Some (Inr _) \<Rightarrow> set_flow entry Cline_connected fl
      | Some (Inl e) \<Rightarrow> set_flow entry (Cline_failed e) fl)"

section \<open>Properties\<close>

lemma poll_loop_ends:
  assumes "dl < moment (k + n)" and "\<And>j. k \<le> j \<Longrightarrow> moment j \<le> dl \<Longrightarrow> polls j = polls' j"
  shows "\<exists>r. poll_loop cl moment polls dl k w = Some r \<and> poll_loop cl moment polls' dl k w = Some r"
  using assms
proof (induction n arbitrary: k w)
  case 0
  then show ?case by (simp add: poll_loop.simps [of cl moment _ dl k])
next
  case (Suc n)
  have "\<exists>r. poll_loop cl moment polls dl (Suc k) v = Some r \<and> poll_loop cl moment polls' dl (Suc k) v = Some r" for v
    using Suc.prems by (intro Suc.IH) auto
  moreover have "polls k = polls' k" if "\<not> dl < moment k" using Suc.prems(2) [of k] that by simp
  ultimately show ?case
    by (auto simp: poll_loop.simps [of cl moment _ dl k] split: sum.split poll_answer.split)
qed

lemma moment_grows:
  assumes "\<And>j. moment j + c \<le> moment (Suc j)"
  shows "moment 0 + n * c \<le> (moment n :: nat)"
proof (induction n)
  case (Suc n)
  then show ?case using assms [of n] by simp
qed simp

text \<open>
  A sign-in ends. As the pause between two polls lasts at least the interval, polling gives a result, and that result depends on
  the first \<open>expires_in / interval + 1\<close> replies only.
\<close>

lemma sign_in_ends:
  assumes "checked_deadline t (expires_in d) = Some dl" and "0 < da_interval d"
    and "t \<le> moment 0" and "\<And>j. moment j + da_interval d * 1000 \<le> moment (Suc j)"
    and "\<And>j. j \<le> expires_in d div da_interval d \<Longrightarrow> polls j = polls' j"
  shows "\<exists>r. poll_loop cl moment polls dl 0 (da_interval d) = Some r \<and> poll_loop cl moment polls' dl 0 (da_interval d) = Some r"
proof (rule poll_loop_ends)
  have dl: "dl = t + 1000 * expires_in d" using assms(1) by (auto simp: checked_deadline_def split: if_splits)
  have grows: "moment 0 + j * (da_interval d * 1000) \<le> moment j" for j using moment_grows [of moment] assms(4) by blast
  have "expires_in d < Suc (expires_in d div da_interval d) * da_interval d"
    using assms(2) by (simp add: dividend_less_div_times)
  then show "dl < moment (0 + Suc (expires_in d div da_interval d))"
    using grows [of "Suc (expires_in d div da_interval d)"] assms(3) dl by simp
  show "polls j = polls' j" if "moment j \<le> dl" for j
  proof -
    have "j * da_interval d \<le> expires_in d" using grows [of j] assms(3) dl that by simp
    then show ?thesis using assms(2,5) by (simp add: less_eq_div_iff_mult_less_eq)
  qed
qed

text \<open>
  What a refresh leaves: the new session and its access token together, and no other secret changed; or, when it fails, every
  secret as it was.
\<close>

lemma session_of_Inr:
  assumes "session_of cl s entry data base = Inr (a, ses)"
  shows "text_member ''accessToken'' data = Some a" "api_base_url ses = base"
    "text_member ''refreshToken'' data = Some f \<Longrightarrow> refresh_token ses = f"
  using assms by (auto simp: session_of_def bind_res_Inr_iff ok_or_Inr_iff)

lemma refresh_Inr:
  assumes "refresh_finish cl save entry ses reply s = (Inr a, s')"
  obtains data ses' where "cline_token_request cl (api_base_url ses @ ''/api/v1/auth/refresh'') reply = Inr data"
    and "session_of cl s entry data (api_base_url ses) = Inr (a, ses')"
    and "secret s' = (secret s)(session_secret_name entry \<mapsto> cl_write cl ses', entry \<mapsto> a)"
proof -
  obtain data where d: "cline_token_request cl (api_base_url ses @ ''/api/v1/auth/refresh'') reply = Inr data"
      and st: "store_cline_session cl save entry data (api_base_url ses) s = (Inr (), s')"
      and a: "text_member ''accessToken'' data = Some a"
    using assms by (auto simp: refresh_finish_def caused_def ok_or_Inr_iff map_sum_def split: sum.splits prod.splits)
  from st obtain a' ses' where se: "session_of cl s entry data (api_base_url ses) = Inr (a', ses')"
      and "set_cline_session save (cl_write cl) s entry ses' a' = (Inr (), s')"
    by (auto simp: store_cline_session_def settings_text_def split: sum.splits prod.splits)
  moreover have "a' = a" using session_of_Inr(1) [OF se] a by simp
  ultimately show thesis using that d set_cline_session_secrets by blast
qed

lemma refresh_stores_session:
  assumes "refresh_finish cl save entry ses reply s = (Inr a, s')" and "\<And>x. cl_parse cl (cl_write cl x) = Some x"
  shows "secret s' entry = Some a" "\<exists>ses'. load_session (cl_parse cl) s' entry = Some ses' \<and> api_base_url ses' = api_base_url ses"
    "n \<noteq> entry \<Longrightarrow> n \<noteq> session_secret_name entry \<Longrightarrow> secret s' n = secret s n"
proof -
  obtain data ses' where "session_of cl s entry data (api_base_url ses) = Inr (a, ses')"
      and "secret s' = (secret s)(session_secret_name entry \<mapsto> cl_write cl ses', entry \<mapsto> a)"
    using refresh_Inr [OF assms(1)] .
  then show "secret s' entry = Some a" "\<exists>ses'. load_session (cl_parse cl) s' entry = Some ses' \<and> api_base_url ses' = api_base_url ses"
    "n \<noteq> entry \<Longrightarrow> n \<noteq> session_secret_name entry \<Longrightarrow> secret s' n = secret s n"
    using assms(2) session_of_Inr(2) by (auto simp: load_session_def)
qed

lemma refresh_failed_keeps:
  assumes "refresh_finish cl save entry ses reply s = (Inl e, s')"
  shows "secret s' = secret s"
proof -
  have "secret s2 = secret s" if "store_cline_session cl save entry data base s = (Inl w, s2)" for data base w s2
    using that by (auto simp: store_cline_session_def settings_text_def set_cline_session_def secrets_save_def secret_def
        split: sum.splits prod.splits if_splits)
  moreover have False if "store_cline_session cl save entry data base s = (Inr u, s2)" "text_member ''accessToken'' data = None" for data base u s2
    using that session_of_Inr(1) by (fastforce simp: store_cline_session_def split: sum.splits prod.splits)
  ultimately show ?thesis using assms
    by (fastforce simp: refresh_finish_def ok_or_def split: sum.splits prod.splits option.splits)
qed

text \<open>
  A refresh that was on its way when the host set a static key replaces that key: whatever the settings are by then, once it
  succeeds the entry has the token of the old account and its session again.
\<close>

lemma late_refresh_wins:
  assumes "refresh_begin cl entry s = Inr ses" and "set_secret save s entry key = (Inr (), s1)"
    and "refresh_finish cl save entry ses reply s1 = (Inr a, s2)" and "\<And>x. cl_parse cl (cl_write cl x) = Some x"
  shows "load_session (cl_parse cl) s1 entry = None \<and> secret s1 entry = Some key
    \<and> secret s2 entry = Some a \<and> load_session (cl_parse cl) s2 entry \<noteq> None"
  using refresh_stores_session(1,2) [OF assms(3,4)] set_secret_secrets [OF assms(2)] by (auto simp: load_session_def)

text \<open>
  Two sign-ins for one entry share its state: the end of the first replaces the code that the second shows.
\<close>

lemma older_sign_in_shows:
  assumes "start_flow cl entry reply fl = (Inr (d, st), fl')"
  shows "flow_status entry fl' = Some st" "flow_status entry (end_flow entry (Some (Inl e)) fl') = Some (Cline_failed e)"
  using assms by (auto simp: start_flow_def end_flow_def flow_status_def set_flow_def update_conv' split: sum.splits)

end
