(* ===== verification/Spec2Isabelle.thy ===== *)
theory Spec2Isabelle
  imports App_Gate App_Log Graphql_Comment Secret_Open Proxy_Safe Jobs_Safe Push_Safe Upload_Safe Web_Owner Mcp_Safe Cline_Oauth
begin

text \<open>
  Friendzone is a broker on the host of a fleet of virtual machines. Guests send their HTTPS traffic
  through its proxy; the broker swaps fake credentials for real ones, blocks what a guest must not
  reach, holds the requests that need a human decision, and keeps the policy of every guest on disk.
  This library models the parts of \<open>src/src/\<close> that decide and that keep state, as executable functions,
  and proves what makes them correct.

  \<^bold>\<open>Parts and theories\<close>

  \<^item> \<open>Prelude\<close>, \<open>History\<close>, \<open>Net\<close>: shared lemmas, ASCII and string operations of the Rust standard library,
    bounded histories, IP addresses with their parsers and printers.
  \<^item> \<open>Infrastructure\<close> (\<open>infrastructure.rs\<close>): which destinations are instance-local and always blocked.
    \<open>Routing\<close> (\<open>routing.rs\<close>): host patterns and the set of hosts that carry credentials.
  \<^item> \<open>Settings\<close> (\<open>settings.rs\<close>, the stored session of \<open>oauth.rs\<close>): escrow entries, secrets and the resolver
    that substitutes credentials. The locale \<open>secret_persistence\<close> is what it asks of a secret store.
  \<^item> \<open>Cline_Oauth\<close> (\<open>oauth.rs\<close>): the sign-in to a Cline account with a device code and the refresh of its session, with
    what a late refresh and an older sign-in leave behind.
  \<^item> \<open>Policy\<close> (\<open>policy.rs\<close>): the origin policy and the gate in front of the Cline API.
  \<^item> \<open>Graphql_Lex\<close>, \<open>Graphql_Parse\<close>, \<open>Json\<close>, \<open>Graphql_Check\<close>, \<open>Graphql_Comment\<close> (\<open>graphql.rs\<close>): lexer, parser,
    envelope, fragment validation, the admission of read-only queries, printers and the plan of a
    reviewed comment.
  \<^item> \<open>Github\<close> (\<open>github.rs\<close>): transport checks, credential bindings, targets, lookups and the display cache.
  \<^item> \<open>Review\<close> (\<open>review.rs\<close>): the snapshot of a held request with its fingerprint, and the queue of requests
    that wait for a decision, with the tickets of the waiting clients.
  \<^item> \<open>Storage\<close> (\<open>storage.rs\<close>): the atomic write of a file. \<open>Secret_Store\<close>, \<open>Secret_Open\<close> (\<open>secret_store.rs\<close>): the
    vault of chunked secret snapshots, the plaintext store and the migration between them.
  \<^item> \<open>App_State\<close> (\<open>state.rs\<close>): the state of the broker and every operation on it. \<open>App_Policy\<close>, \<open>App_Durable\<close>,
    \<open>App_Gate\<close> and \<open>App_Log\<close> prove its invariants over arbitrary interleavings of operations (\<open>run\<close>).
  \<^item> \<open>Lfs\<close> (\<open>lfs.rs\<close>): which Git LFS batches are downloads. \<open>Proxy\<close> (\<open>proxy.rs\<close>): the handler of one proxied
    request, which composes all of the above, with the trace headers of \<open>telemetry.rs\<close>; \<open>Proxy_Safe\<close> proves what it
    forwards.
  \<^item> \<open>Uploads\<close> (\<open>uploads.rs\<close>): files that a guest publishes through GitHub or Linear; \<open>Upload_Safe\<close> proves what is sent.
  \<^item> \<open>Jobs\<close> (\<open>jobs.rs\<close>): durable GraphQL jobs, their store and their worker. \<open>Jobs_Admit\<close> proves the admission
    to a full store, \<open>Jobs_World\<close> the invariant of every history of guests, host, worker and restarts,
    \<open>Jobs_Safe\<close> what follows from it. \<open>Durable\<close> states what jobs and publications ask of a store with a file
    (the locale \<open>durable_store\<close>); both stores interpret it.
  \<^item> \<open>Push_Git\<close>, \<open>Push_Review\<close>, \<open>Pushes\<close> (\<open>pushes.rs\<close>): publications of Git branches. \<open>Push_Git\<close> holds the validation
    of submissions, the bundle header and the runner of Git commands; \<open>Push_Review\<close> the functions
    \<open>prepare_remote\<close> and \<open>execute_remote\<close> with every question they ask Git; \<open>Pushes\<close> the durable store, its loading,
    the operations of guests and host, and the worker. \<open>Push_Text\<close> proves the redaction of the credential,
    \<open>Push_Check\<close> what a review says and what an execution does, \<open>Push_Store\<close> the laws of the store,
    \<open>Push_World\<close>, \<open>Push_Steps\<close> and \<open>Push_Reach\<close> the invariant of every history with restarts, and \<open>Push_Safe\<close>
    what follows from it.
  \<^item> \<open>Web_Guest\<close> (\<open>web.rs\<close>): the handlers of the guest API over jobs, publications and uploads. \<open>Web_Owner\<close> proves whose
    objects they show and change; its locale \<open>guest_store\<close> is what the handlers ask of a store of owned objects, and the
    jobs, the publications and the waiting uploads interpret it.
  \<^item> \<open>Mcp_Oauth\<close> (\<open>mcp_oauth.rs\<close>): discovery, logins, refreshes and the sessions that own the tokens of MCP upstreams, one
    operation per critical section. \<open>Mcp_Oauth_World\<close> interleaves them with late replies, \<open>Mcp_Oauth_Safe\<close> proves what follows.
  \<^item> \<open>Mcp_Import\<close> (\<open>mcp_import.rs\<close>): servers and headers of the Cline settings. \<open>Mcp\<close> (\<open>mcp.rs\<close> and the MCP endpoint of
    \<open>web.rs\<close>): the registry of forwards and a guest's message with everything it sends upstream; \<open>Mcp_Safe\<close> proves both.

  \<^bold>\<open>How the code corresponds\<close>

  A struct is a record, an enum a datatype, a \<open>HashMap\<close> an association list (its order is not relied
  on). A function that changes state returns the new state; \<open>Result\<close> is a sum with the error on the
  left. The clock, the supply of UUIDs and the outcome of a file operation are arguments or part of
  the state. Code of other packages (URL parsing, base64, SHA-256, \<open>serde_json\<close>, the keyring) is a
  parameter, and what is asked of it is a named hypothesis (\<open>codec_ok\<close>, for instance) that a witness
  meets with concrete functions. The Git program is such a parameter: a machine (\<open>git_code\<close>) that takes a
  command with its arguments and environment, changes its own state and says how the process ended and
  what it wrote; nothing is assumed of it. A run of \<open>prepare_remote\<close> or \<open>execute_remote\<close> is one step of the
  worker between two of its critical sections; the directory of bundles (\<open>art\<close>) is part of the state.

  \<^bold>\<open>What is shown\<close>

  \<^item> Destinations and routing: the block list decides every host, by a grammar of the spellings of an address stated apart
    from the check; the routing snapshot lists exactly the canonical credential hosts.
  \<^item> Credentials: a real secret leaves only in place of its own fake and toward a host its entry pins;
    no fake passes unnoticed; a save of the vault is atomic under every schedule of faults, loading
    collects garbage, migration loses nothing and there is no fallback; a removal is durable.
  \<^item> The Cline account: a sign-in ends after a bounded number of polls; a refresh stores session and token together
    or nothing; one that was on its way wins over a key the host set meanwhile (a recorded finding).
  \<^item> GraphQL: the parser always returns, and what it accepts is well formed; validation is sound and
    complete for dangling and cyclic fragments; the admission of reads is equivalent to a condition on
    everything the query reaches; a comment plan sends what the request itself says.
  \<^item> The proxy: what is forwarded passed every gate, goes to an open destination, and differs from the released request in
    at most the credential header and the trace headers, of which those of the guest never pass; what a review releases was admitted under the policy the review began with,
    whatever other tasks do between the critical sections of the handler.
  \<^item> Reviews: invariant of the queue over all histories, answers only by a decision with the right
    fingerprint in time, final outcomes, fingerprints that determine the request.
  \<^item> Jobs: executed at most once across restarts, as submitted and approved, under the policy of their
    submission; results are recorded unless the disk fails or they outgrow the space reserved for them (and then their
    job stays as being sent), kept over restarts and removed only when delivered or old; limits of the store; isolation of
    guests.
  \<^item> Publications: a review is read off what Git answers about the submitted bundle, every commit and every changed path,
    within the limits; an execution
    pushes at most once, under a lease, what was reviewed, and says so only after it saw the result; over
    every history with restarts a publication is pushed at most once, and only as submitted, reviewed and
    approved; no output shows the credential, unless it is a part of the mark that replaces it or has brackets or
    characters beyond ASCII. A publication that expires unreviewed blocks the next start,
    and a capital letter in the expected object id is never accepted (both are recorded findings).
  \<^item> Uploads: what is sent is what the reviewer saw, after the approval and under a policy and credential that
    are looked at again before each step; the credential never reaches a storage host.
  \<^item> The guest API: a call shows and changes only objects of the identified guest, of its present incarnation and
    of the named session, whatever other tasks do between its critical sections.
  \<^item> MCP: a message goes only to its forward, for a guest it is shared with, as a listing or an allowed tool call;
    a token is used only for the upstream it was issued for, by the server that the replies to its discovery name; after a
    disconnect everything in flight ends in an error; a
    saved change of an upstream retires its session and deletes its token.
  \<^item> Policy of guests: an admitted request had one policy since its epoch was handed out; a change of
    policy cancels waiting reviews; file and memory agree and a restart restores the policy; pins stay
    unique; traffic never widens a policy; revoked permissions stay revoked; the log is gap free.

  \<^bold>\<open>Bounds and fuel\<close>

  The parser recurses on the remaining levels of nesting (64, the limit of the source) and its loops on
  the number of remaining tokens, one more than can be consumed; \<open>parse_document_no_fuel\<close> shows that the
  fuel never runs out. The loop that makes room for a job is a partial function, as nothing in the source
  bounds it on a damaged file; on every reachable store it returns. So is the loop for publications. The lexer and the walks over fragments recurse on measures with termination
  proofs. Everything else is structural.

  \<^bold>\<open>Not modelled\<close>

  Sockets, TLS, HTTP framing, HTML and process start-up (\<open>proxy_server.rs\<close>, \<open>guest_http.rs\<close>, the pages and the
  host API of \<open>web.rs\<close> with its routing, \<open>bootstrap.rs\<close>, \<open>ca.rs\<close>, \<open>diagnostics.rs\<close>, the rest of \<open>telemetry.rs\<close>, \<open>doctor.rs\<close>,
  \<open>main.rs\<close>)
  are plumbing over other packages. The display analysis of GraphQL operations
  feeds pages of the reviewer and is left out. Concurrency appears as the order of atomic operations: every modelled
  operation runs under one lock in the source.
\<close>

end
